(* ===== verification/Prelude.thy ===== *)
theory Prelude
  imports Complex_Main
begin

text \<open>
  The vocabulary every component shares: the values Python and JSON carry, results that may be an
  exception, stateful operations that may raise, and the string and rounding routines of the
  Python standard library that the source calls.

  A \<open>char\<close> stands for a Latin-1 code point (0--255), so the character classes below are Python's
  on that range; text outside it (the Arabic user messages) is never inspected by the code and is
  represented by constructors of the error types. An ORM character or selection field reads
  \<open>False\<close> or a string: a \<open>char_field\<close> keeps the two apart where the code does, and where the
  code only tests truth a plain string stands for it, \<open>False\<close> being the empty list. Floating point
  amounts and clock readings are exact rationals. A date is its ordinal day number, a datetime a
  number of seconds.
\<close>

named_theorems keeps_intro \<open>rules that push an invariant through a stateful operation\<close>
named_theorems op_simps \<open>evaluation of stateful operations\<close>

type_synonym date = int
type_synonym datetime = int

section \<open>JSON values\<close>

datatype json =
    JNull
  | JBool bool
  | JInt int
  | JNum rat
  | JStr string
  | JList "json list"
  | JObj "(string \<times> json) list"

datatype py_error =
    AttributeError
  | KeyError
  | TypeError
  | ValueError

fun truthy :: "json \<Rightarrow> bool" where
  "truthy JNull = False"
| "truthy (JBool b) = b"
| "truthy (JInt n) = (n \<noteq> 0)"
| "truthy (JNum r) = (r \<noteq> 0)"
| "truthy (JStr s) = (s \<noteq> [])"
| "truthy (JList xs) = (xs \<noteq> [])"
| "truthy (JObj kvs) = (kvs \<noteq> [])"

text \<open>A dict is an association list whose first entry for a key is the current one.\<close>

definition dict_get :: "(string \<times> 'v) list \<Rightarrow> string \<Rightarrow> 'v \<Rightarrow> 'v" where
  "dict_get d k dflt = (case map_of d k of None \<Rightarrow> dflt | Some v \<Rightarrow> v)"

fun dict_set :: "string \<Rightarrow> 'v \<Rightarrow> (string \<times> 'v) list \<Rightarrow> (string \<times> 'v) list" where
  "dict_set k v [] = [(k, v)]"
| "dict_set k v ((k', w) # d) = (if k = k' then (k, v) # d else (k', w) # dict_set k v d)"

text \<open>\<open>x.get(k, default)\<close> and \<open>x[0]\<close> on a JSON value of any kind.\<close>

definition json_get :: "json \<Rightarrow> string \<Rightarrow> json \<Rightarrow> py_error + json" where
  "json_get j k dflt = (case j of JObj d \<Rightarrow> Inr (dict_get d k dflt) | _ \<Rightarrow> Inl AttributeError)"

definition json_index0 :: "json \<Rightarrow> py_error + json" where
  "json_index0 j = (case j of
      JList (x # _) \<Rightarrow> Inr x
    | JStr (c # _) \<Rightarrow> Inr (JStr [c])
    | JObj _ \<Rightarrow> Inl KeyError
    | _ \<Rightarrow> Inl TypeError)"

text \<open>\<open>for e in x\<close>: a list yields its elements, a string its characters, a dict its keys.\<close>

definition json_iter :: "json \<Rightarrow> py_error + json list" where
  "json_iter j = (case j of
      JList xs \<Rightarrow> Inr xs
    | JStr s \<Rightarrow> Inr (map (\<lambda>c. JStr [c]) s)
    | JObj d \<Rightarrow> Inr (map (\<lambda>(k, _). JStr k) d)
    | _ \<Rightarrow> Inl TypeError)"

lemma map_of_dict_set [simp]: "map_of (dict_set k v d) = (map_of d)(k \<mapsto> v)"
  by (induction k v d rule: dict_set.induct) auto

lemma dict_get_set [simp]: "dict_get (dict_set k v d) k' dflt = (if k' = k then v else dict_get d k' dflt)"
  by (simp add: dict_get_def)

section \<open>Results\<close>

definition ebind :: "'e + 'a \<Rightarrow> ('a \<Rightarrow> 'e + 'b) \<Rightarrow> 'e + 'b" where
  "ebind r f = (case r of Inl e \<Rightarrow> Inl e | Inr x \<Rightarrow> f x)"

fun emap :: "('a \<Rightarrow> 'e + 'b) \<Rightarrow> 'a list \<Rightarrow> 'e + 'b list" where
  "emap f [] = Inr []"
| "emap f (x # xs) = ebind (f x) (\<lambda>y. ebind (emap f xs) (\<lambda>ys. Inr (y # ys)))"

lemma ebind_simps [simp]:
  "ebind (Inl e) f = Inl e"
  "ebind (Inr x) f = f x"
  by (simp_all add: ebind_def)

lemma ebind_eq_Inr: "ebind r f = Inr y \<longleftrightarrow> (\<exists>x. r = Inr x \<and> f x = Inr y)"
  by (cases r) auto

section \<open>Stateful operations that may raise\<close>

text \<open>An operation returns an exception or a value, and the state it leaves behind either way.\<close>

type_synonym ('s, 'e, 'a) opn = "'s \<Rightarrow> ('e + 'a) \<times> 's"

definition ret :: "'a \<Rightarrow> ('s, 'e, 'a) opn" where
  "ret x s = (Inr x, s)"

definition raise :: "'e \<Rightarrow> ('s, 'e, 'a) opn" where
  "raise e s = (Inl e, s)"

definition modify :: "('s \<Rightarrow> 's) \<Rightarrow> ('s, 'e, unit) opn" where
  "modify f s = (Inr (), f s)"

definition gets :: "('s \<Rightarrow> 'a) \<Rightarrow> ('s, 'e, 'a) opn" where
  "gets f s = (Inr (f s), s)"

definition bind :: "('s, 'e, 'a) opn \<Rightarrow> ('a \<Rightarrow> ('s, 'e, 'b) opn) \<Rightarrow> ('s, 'e, 'b) opn" where
  "bind m f s = (case m s of (Inl e, t) \<Rightarrow> (Inl e, t) | (Inr x, t) \<Rightarrow> f x t)"

definition andthen :: "('s, 'e, 'a) opn \<Rightarrow> ('s, 'e, 'b) opn \<Rightarrow> ('s, 'e, 'b) opn" where
  "andthen m n = bind m (\<lambda>_. n)"

text \<open>\<open>try: m except E as e: h e\<close>, where the handler sees every exception of \<open>m\<close>.\<close>

definition catch :: "('s, 'e, 'a) opn \<Rightarrow> ('e \<Rightarrow> ('s, 'f, 'a) opn) \<Rightarrow> ('s, 'f, 'a) opn" where
  "catch m h s = (case m s of (Inl e, t) \<Rightarrow> h e t | (Inr x, t) \<Rightarrow> (Inr x, t))"

fun for_each :: "('a \<Rightarrow> ('s, 'e, unit) opn) \<Rightarrow> 'a list \<Rightarrow> ('s, 'e, unit) opn" where
  "for_each f [] = ret ()"
| "for_each f (x # xs) = andthen (f x) (for_each f xs)"

definition lift_result :: "'e + 'a \<Rightarrow> ('s, 'e, 'a) opn" where
  "lift_result r s = (r, s)"

lemma op_evals [op_simps]:
  "ret x s = (Inr x, s)"
  "raise e s = (Inl e, s)"
  "modify f s = (Inr (), f s)"
  "gets g s = (Inr (g s), s)"
  "lift_result r s = (r, s)"
  by (simp_all add: ret_def raise_def modify_def gets_def lift_result_def)

lemma bind_run [op_simps]:
  "m s = (Inl e, t) \<Longrightarrow> bind m f s = (Inl e, t)"
  "m s = (Inr x, t) \<Longrightarrow> bind m f s = f x t"
  by (simp_all add: bind_def)

lemma andthen_run [op_simps]:
  "m s = (Inl e, t) \<Longrightarrow> andthen m n s = (Inl e, t)"
  "m s = (Inr x, t) \<Longrightarrow> andthen m n s = n t"
  by (simp_all add: andthen_def bind_def)

lemma bind_InrE:
  assumes "bind m f s = (Inr y, t)"
  obtains x u where "m s = (Inr x, u)" and "f x u = (Inr y, t)"
  using assms by (auto simp: bind_def split: prod.splits sum.splits)

lemma andthen_InrE:
  assumes "andthen m n s = (Inr y, t)"
  obtains x u where "m s = (Inr x, u)" and "n u = (Inr y, t)"
  using assms unfolding andthen_def by (rule bind_InrE)

text \<open>
  \<open>keeps P m\<close>: whatever \<open>m\<close> does, raising included, it leaves \<open>P\<close> true. The rules below reduce
  it to the primitive writes of an operation.
\<close>

definition keeps :: "('s \<Rightarrow> bool) \<Rightarrow> ('s, 'e, 'a) opn \<Rightarrow> bool" where
  "keeps P m \<longleftrightarrow> (\<forall>s. P s \<longrightarrow> P (snd (m s)))"

lemma keepsD: "keeps P m \<Longrightarrow> P s \<Longrightarrow> m s = (r, t) \<Longrightarrow> P t"
  unfolding keeps_def by (metis snd_conv)

lemma keeps_pure [keeps_intro, intro]:
  "keeps P (ret x)" "keeps P (raise e)" "keeps P (gets g)" "keeps P (lift_result r)"
  by (simp_all add: keeps_def op_simps)

lemma keeps_modify [keeps_intro]: "(\<And>s. P s \<Longrightarrow> P (f s)) \<Longrightarrow> keeps P (modify f)"
  by (simp add: keeps_def op_simps)

lemma keeps_bind [keeps_intro]:
  assumes "keeps P m" and "\<And>x. keeps P (f x)"
  shows "keeps P (bind m f)"
  unfolding keeps_def
proof (intro allI impI)
  fix s assume "P s"
  obtain r t where m: "m s = (r, t)" by (cases "m s")
  have "P t" using assms(1) \<open>P s\<close> m by (rule keepsD)
  then show "P (snd (bind m f s))" using assms(2)
    unfolding keeps_def by (cases r) (auto simp: bind_def m)
qed

lemma keeps_andthen [keeps_intro]: "keeps P m \<Longrightarrow> keeps P n \<Longrightarrow> keeps P (andthen m n)"
  unfolding andthen_def by (rule keeps_bind)

lemma keeps_catch [keeps_intro]:
  assumes "keeps P m" and "\<And>e. keeps P (h e)"
  shows "keeps P (catch m h)"
  unfolding keeps_def
proof (intro allI impI)
  fix s assume "P s"
  obtain r t where m: "m s = (r, t)" by (cases "m s")
  have "P t" using assms(1) \<open>P s\<close> m by (rule keepsD)
  then show "P (snd (catch m h s))" using assms(2)
    unfolding keeps_def by (cases r) (auto simp: catch_def m)
qed

lemma keeps_for_each [keeps_intro]: "(\<And>x. keeps P (f x)) \<Longrightarrow> keeps P (for_each f xs)"
  by (induction xs) (auto intro: keeps_intro)

lemma keeps_if [keeps_intro]: "keeps P m \<Longrightarrow> keeps P n \<Longrightarrow> keeps P (if b then m else n)"
  by simp

text \<open>\<open>leads P m Q\<close>: from \<open>P\<close>, whatever \<open>m\<close> does, it ends in \<open>Q\<close>.\<close>

definition leads :: "('s \<Rightarrow> bool) \<Rightarrow> ('s, 'e, 'a) opn \<Rightarrow> ('s \<Rightarrow> bool) \<Rightarrow> bool" where
  "leads P m Q \<longleftrightarrow> (\<forall>s. P s \<longrightarrow> Q (snd (m s)))"

lemma keeps_leads: "keeps P m \<longleftrightarrow> leads P m P"
  by (simp add: keeps_def leads_def)

lemma leads_weaken: "keeps P m \<Longrightarrow> (\<And>s. P s \<Longrightarrow> Q s) \<Longrightarrow> leads P m Q"
  by (simp add: keeps_def leads_def)

lemma leads_bind:
  assumes "keeps P m" and "\<And>x. leads P (f x) Q" and "\<And>s. P s \<Longrightarrow> Q s"
  shows "leads P (bind m f) Q"
  unfolding leads_def
proof (intro allI impI)
  fix s assume "P s"
  obtain r t where m: "m s = (r, t)" by (cases "m s")
  have "P t" using assms(1) \<open>P s\<close> m by (rule keepsD)
  then show "Q (snd (bind m f s))" using assms(2,3)
    unfolding leads_def by (cases r) (auto simp: bind_def m)
qed

lemma leads_bind_keeps:
  assumes "leads P m Q" and "\<And>x. keeps Q (f x)"
  shows "leads P (bind m f) Q"
  unfolding leads_def
proof (intro allI impI)
  fix s assume "P s"
  obtain r t where m: "m s = (r, t)" by (cases "m s")
  have "Q t" using assms(1) \<open>P s\<close> m unfolding leads_def by (metis snd_conv)
  then show "Q (snd (bind m f s))" using assms(2)
    unfolding keeps_def by (cases r) (auto simp: bind_def m)
qed

text \<open>The continuation only has to be considered for the results \<open>m\<close> can give.\<close>

lemma keeps_bind_result:
  assumes "keeps P m" and "\<And>x s t. P s \<Longrightarrow> m s = (Inr x, t) \<Longrightarrow> keeps P (f x)"
  shows "keeps P (bind m f)"
  unfolding keeps_def
proof (intro allI impI)
  fix s assume "P s"
  obtain r t where m: "m s = (r, t)" by (cases "m s")
  have "P t" using assms(1) \<open>P s\<close> m by (rule keepsD)
  then show "P (snd (bind m f s))" using assms(2) \<open>P s\<close> m
    unfolding keeps_def by (cases r) (auto simp: bind_def)
qed

lemma keeps_for_each_in:
  assumes "\<And>x. x \<in> set xs \<Longrightarrow> keeps P (f x)"
  shows "keeps P (for_each f xs)"
  using assms by (induction xs) (auto intro: keeps_intro)

lemma for_each_ret: "(\<And>x. x \<in> set xs \<Longrightarrow> f x = ret ()) \<Longrightarrow> for_each f xs s = (Inr (), s)"
  by (induction xs) (simp_all add: op_simps)

section \<open>Strings\<close>

abbreviation code :: "char \<Rightarrow> nat" where
  "code c \<equiv> of_char c"

text \<open>\<open>\d\<close> of \<open>re\<close>, \<open>str.isdigit\<close> (which also takes the three superscripts), and \<open>\w\<close>.\<close>

definition is_decimal :: "char \<Rightarrow> bool" where
  "is_decimal c \<longleftrightarrow> 48 \<le> code c \<and> code c \<le> 57"

definition is_digit_char :: "char \<Rightarrow> bool" where
  "is_digit_char c \<longleftrightarrow> is_decimal c \<or> code c \<in> {178, 179, 185}"

definition is_ascii_letter :: "char \<Rightarrow> bool" where
  "is_ascii_letter c \<longleftrightarrow> (65 \<le> code c \<and> code c \<le> 90) \<or> (97 \<le> code c \<and> code c \<le> 122)"

definition is_word_char :: "char \<Rightarrow> bool" where
  "is_word_char c \<longleftrightarrow> is_ascii_letter c \<or> is_digit_char c \<or> code c = 95
     \<or> code c \<in> {170, 181, 186, 188, 189, 190}
     \<or> (192 \<le> code c \<and> code c \<noteq> 215 \<and> code c \<noteq> 247)"

definition is_space_char :: "char \<Rightarrow> bool" where
  "is_space_char c \<longleftrightarrow> (9 \<le> code c \<and> code c \<le> 13) \<or> (28 \<le> code c \<and> code c \<le> 32)
     \<or> code c = 133 \<or> code c = 160"

definition starts_with :: "string \<Rightarrow> string \<Rightarrow> bool" where
  "starts_with s p \<longleftrightarrow> take (length p) s = p"

definition ends_with :: "string \<Rightarrow> string \<Rightarrow> bool" where
  "ends_with s p \<longleftrightarrow> length p \<le> length s \<and> drop (length s - length p) s = p"

definition strip :: "string \<Rightarrow> string" where
  "strip s = rev (dropWhile is_space_char (rev (dropWhile is_space_char s)))"

definition isdigit_str :: "string \<Rightarrow> bool" where
  "isdigit_str s \<longleftrightarrow> s \<noteq> [] \<and> list_all is_digit_char s"

fun join_with :: "string \<Rightarrow> string list \<Rightarrow> string" where
  "join_with sep [] = []"
| "join_with sep [x] = x"
| "join_with sep (x # y # xs) = x @ sep @ join_with sep (y # xs)"

text \<open>Decimal rendering of an integer, as \<open>str(n)\<close>.\<close>

definition digit_char :: "nat \<Rightarrow> char" where
  "digit_char n = char_of (48 + n mod 10)"

fun str_nat :: "nat \<Rightarrow> string" where
  "str_nat n = (if n < 10 then [digit_char n] else str_nat (n div 10) @ [digit_char n])"

declare str_nat.simps [simp del]

definition str_int :: "int \<Rightarrow> string" where
  "str_int n = (if n < 0 then CHR ''-'' # str_nat (nat (- n)) else str_nat (nat n))"

lemma starts_with_append [simp]: "starts_with (p @ s) p"
  by (simp add: starts_with_def)

lemma digit_char_decimal: "is_decimal (digit_char n)"
proof -
  have "code (digit_char n) = 48 + n mod 10"
    unfolding digit_char_def by (subst of_char_of) (simp add: take_bit_eq_mod)
  then show ?thesis by (simp add: is_decimal_def)
qed

lemma str_nat_decimal: "list_all is_decimal (str_nat n)"
proof (induction n rule: str_nat.induct)
  case (1 n)
  then show ?case
    by (cases "n < 10") (simp_all add: str_nat.simps [of n] digit_char_decimal)
qed

lemma str_nat_nonempty: "str_nat n \<noteq> []"
  by (subst str_nat.simps) simp

lemma code_digit_char [simp]: "code (digit_char n) = 48 + n mod 10"
  unfolding digit_char_def by (subst of_char_of) (simp add: take_bit_eq_mod)

definition read_nat :: "string \<Rightarrow> nat" where
  "read_nat s = foldl (\<lambda>a c. 10 * a + (code c - 48)) 0 s"

lemma read_str_nat [simp]: "read_nat (str_nat n) = n"
proof (induction n rule: str_nat.induct)
  case (1 n)
  then show ?case
    by (cases "n < 10") (simp_all add: str_nat.simps [of n] read_nat_def)
qed

lemma str_nat_inject [simp]: "str_nat m = str_nat n \<longleftrightarrow> m = n"
  by (metis read_str_nat)

lemma str_nat_no_minus: "CHR ''-'' \<notin> set (str_nat n)"
  using str_nat_decimal [of n] by (auto simp: list_all_iff is_decimal_def)

lemma str_int_inject [simp]: "str_int m = str_int n \<longleftrightarrow> m = n"
proof
  assume eq: "str_int m = str_int n"
  have "CHR ''-'' \<in> set (str_int k) \<longleftrightarrow> k < 0" for k
    by (simp add: str_int_def str_nat_no_minus)
  with eq have "m < 0 \<longleftrightarrow> n < 0" by metis
  with eq show "m = n" by (auto simp: str_int_def split: if_splits)
qed simp

lemma str_int_no_colon: "CHR '':'' \<notin> set (str_int n)"
proof -
  have "CHR '':'' \<notin> set (str_nat k)" for k
    using str_nat_decimal [of k] by (auto simp: list_all_iff is_decimal_def)
  then show ?thesis by (simp add: str_int_def)
qed

section \<open>Bytes and base 64\<close>

text \<open>\<open>str.encode('utf-8')\<close> on code points below 256, and \<open>base64.b64encode\<close>.\<close>

definition utf8_char :: "char \<Rightarrow> nat list" where
  "utf8_char c = (if code c < 128 then [code c] else [192 + code c div 64, 128 + code c mod 64])"

definition utf8_encode :: "string \<Rightarrow> nat list" where
  "utf8_encode s = concat (map utf8_char s)"

definition b64_char :: "nat \<Rightarrow> char" where
  "b64_char n = (if n < 26 then char_of (65 + n) else if n < 52 then char_of (71 + n)
     else if n < 62 then char_of (n - 4) else if n = 62 then CHR ''+'' else CHR ''/'')"

fun b64encode :: "nat list \<Rightarrow> string" where
  "b64encode [] = []"
| "b64encode [a] = [b64_char (a div 4), b64_char (a mod 4 * 16), CHR ''='', CHR ''='']"
| "b64encode [a, b] = [b64_char (a div 4), b64_char (a mod 4 * 16 + b div 16),
     b64_char (b mod 16 * 4), CHR ''='']"
| "b64encode (a # b # c # bs) = b64_char (a div 4) # b64_char (a mod 4 * 16 + b div 16)
     # b64_char (b mod 16 * 4 + c div 64) # b64_char (c mod 64) # b64encode bs"

definition b64_val :: "char \<Rightarrow> nat" where
  "b64_val c = (let n = code c in
     if 65 \<le> n \<and> n \<le> 90 then n - 65 else if 97 \<le> n \<and> n \<le> 122 then n - 71
     else if 48 \<le> n \<and> n \<le> 57 then n + 4 else if n = 43 then 62 else 63)"

fun b64decode :: "string \<Rightarrow> nat list" where
  "b64decode (w # x # y # z # cs) =
     (let a = b64_val w * 4 + b64_val x div 16; b = b64_val x mod 16 * 16 + b64_val y div 4;
          c = b64_val y mod 4 * 64 + b64_val z
      in if y = CHR ''='' then [a] else if z = CHR ''='' then [a, b] else a # b # c # b64decode cs)"
| "b64decode _ = []"

lemma code_char_of [simp]: "n < 256 \<Longrightarrow> code (char_of n) = (n :: nat)"
  by (simp add: take_bit_eq_mod)

lemma b64_val_char [simp]: "n < 64 \<Longrightarrow> b64_val (b64_char n) = n"
  by (auto simp: b64_val_def b64_char_def Let_def)

lemma b64_char_not_pad [simp]: "n < 64 \<Longrightarrow> b64_char n \<noteq> CHR ''=''"
proof
  assume n: "n < 64" and "b64_char n = CHR ''=''"
  then have "code (b64_char n) = 61" by simp
  with n show False by (simp add: b64_char_def split: if_splits)
qed

lemma digit_pair:
  fixes x y k :: nat
  assumes "y < k"
  shows "(x * k + y) div k = x" and "(x * k + y) mod k = y"
  using assms by simp_all

lemma byte_halves:
  fixes b :: nat
  assumes "b < 256"
  shows "b div 16 < 16" "b div 64 < 4" "b div 4 < 64"
  using assms by (simp_all add: less_mult_imp_div_less)

lemma b64_second:
  fixes a b :: nat
  assumes "b < 256"
  shows "a mod 4 * 16 + b div 16 < 64" "(a mod 4 * 16 + b div 16) div 16 = a mod 4"
    "(a mod 4 * 16 + b div 16) mod 16 = b div 16"
proof -
  have "a mod 4 < 4" "b div 16 < 16" using assms by (simp_all add: byte_halves)
  then show "a mod 4 * 16 + b div 16 < 64" by linarith
  from \<open>b div 16 < 16\<close> show "(a mod 4 * 16 + b div 16) div 16 = a mod 4"
    "(a mod 4 * 16 + b div 16) mod 16 = b div 16"
    by (rule digit_pair)+
qed

lemma b64_third:
  fixes b c :: nat
  assumes "c < 256"
  shows "b mod 16 * 4 + c div 64 < 64" "(b mod 16 * 4 + c div 64) div 4 = b mod 16"
    "(b mod 16 * 4 + c div 64) mod 4 = c div 64"
proof -
  have "b mod 16 < 16" "c div 64 < 4" using assms by (simp_all add: byte_halves)
  then show "b mod 16 * 4 + c div 64 < 64" by linarith
  from \<open>c div 64 < 4\<close> show "(b mod 16 * 4 + c div 64) div 4 = b mod 16"
    "(b mod 16 * 4 + c div 64) mod 4 = c div 64"
    by (rule digit_pair)+
qed

lemma b64_ends:
  fixes a b :: nat
  shows "a mod 4 * 16 < 64" "a mod 4 * 16 div 16 = a mod 4" "b mod 16 * 4 < 64"
    "b mod 16 * 4 div 4 = b mod 16"
proof -
  have "a mod 4 < 4" "b mod 16 < 16" by simp_all
  then show "a mod 4 * 16 < 64" "b mod 16 * 4 < 64" by linarith+
qed simp_all

lemma b64_roundtrip: "list_all (\<lambda>b. b < 256) bs \<Longrightarrow> b64decode (b64encode bs) = bs"
proof (induction bs rule: b64encode.induct)
  case (2 a)
  then show ?case by (simp add: Let_def byte_halves b64_ends)
next
  case (3 a b)
  then show ?case by (simp add: Let_def byte_halves b64_second b64_ends)
next
  case (4 a b c bs)
  then show ?case by (simp add: Let_def byte_halves b64_second b64_third)
qed simp

lemma utf8_char_nonempty: "utf8_char c \<noteq> []"
  by (simp add: utf8_char_def)

lemma utf8_bytes: "list_all (\<lambda>b. b < 256) (utf8_encode s)"
proof -
  have "\<forall>b \<in> set (utf8_char c). b < 256" for c
  proof -
    have "code c < 256" by simp
    then have "code c div 64 < 4" by (simp add: byte_halves)
    moreover have "code c mod 64 < 64" by simp
    then have "code c mod 64 < 128" by linarith
    ultimately show ?thesis by (simp add: utf8_char_def)
  qed
  then show ?thesis by (auto simp: utf8_encode_def list_all_iff)
qed

lemma utf8_char_prefix:
  assumes "utf8_char c @ xs = utf8_char d @ ys"
  shows "c = d \<and> xs = ys"
proof -
  have "code c = code d \<and> xs = ys"
  proof (cases "code c < 128"; cases "code d < 128")
    assume "\<not> code c < 128" and "\<not> code d < 128"
    with assms have "code c div 64 = code d div 64" "code c mod 64 = code d mod 64" "xs = ys"
      by (simp_all add: utf8_char_def)
    then show ?thesis by (metis div_mult_mod_eq)
  qed (use assms in \<open>auto simp: utf8_char_def\<close>)
  then show ?thesis by simp
qed

lemma utf8_encode_inject [simp]: "utf8_encode s = utf8_encode t \<longleftrightarrow> s = t"
proof
  show "utf8_encode s = utf8_encode t \<Longrightarrow> s = t"
  proof (induction s arbitrary: t)
    case Nil
    then show ?case by (cases t) (simp_all add: utf8_encode_def utf8_char_nonempty)
  next
    case (Cons c s)
    then obtain d u where t: "t = d # u"
      by (cases t) (simp_all add: utf8_encode_def utf8_char_nonempty)
    with Cons.prems have "utf8_char c @ utf8_encode s = utf8_char d @ utf8_encode u"
      by (simp add: utf8_encode_def)
    then show ?case using t Cons.IH utf8_char_prefix by blast
  qed
qed simp

lemma b64_utf8_inject [simp]: "b64encode (utf8_encode s) = b64encode (utf8_encode t) \<longleftrightarrow> s = t"
  by (metis b64_roundtrip utf8_bytes utf8_encode_inject)

section \<open>Rounding\<close>

text \<open>\<open>round(x, n)\<close>: to the nearest multiple of \<open>10 ^ -n\<close>, ties to the even one.\<close>

definition round_half_even :: "rat \<Rightarrow> int" where
  "round_half_even x =
     (let f = \<lfloor>x\<rfloor>; d = x - of_int f
      in if d < 1 / 2 then f else if d > 1 / 2 then f + 1 else if even f then f else f + 1)"

definition py_round :: "rat \<Rightarrow> nat \<Rightarrow> rat" where
  "py_round x n = of_int (round_half_even (x * 10 ^ n)) / 10 ^ n"

lemma round_half_even_int [simp]: "round_half_even (of_int n) = n"
  by (simp add: round_half_even_def)

lemma round_half_even_near: "\<bar>of_int (round_half_even x) - x\<bar> \<le> 1 / 2"
proof -
  have "of_int \<lfloor>x\<rfloor> \<le> x" and "x < of_int \<lfloor>x\<rfloor> + 1"
    by linarith+
  then show ?thesis
    unfolding round_half_even_def Let_def by (simp add: abs_if; linarith)
qed

lemma round_half_even_mono: "x \<le> y \<Longrightarrow> round_half_even x \<le> round_half_even y"
proof -
  assume xy: "x \<le> y"
  show ?thesis
  proof (cases "\<lfloor>x\<rfloor> = \<lfloor>y\<rfloor>")
    case True
    with xy show ?thesis unfolding round_half_even_def Let_def by auto
  next
    case False
    with xy have "\<lfloor>x\<rfloor> + 1 \<le> \<lfloor>y\<rfloor>"
      using floor_mono [OF xy] by linarith
    then show ?thesis unfolding round_half_even_def Let_def by auto
  qed
qed

lemma py_round_error: "\<bar>py_round x n - x\<bar> \<le> 1 / (2 * 10 ^ n)"
proof -
  have pos: "(0::rat) < 10 ^ n" by simp
  have "py_round x n - x = (of_int (round_half_even (x * 10 ^ n)) - x * 10 ^ n) / 10 ^ n"
    by (simp add: py_round_def field_simps)
  then have "\<bar>py_round x n - x\<bar> = \<bar>of_int (round_half_even (x * 10 ^ n)) - x * 10 ^ n\<bar> / 10 ^ n"
    by (simp add: abs_divide)
  also have "\<dots> \<le> (1 / 2) / 10 ^ n"
    by (rule divide_right_mono [OF round_half_even_near]) simp
  finally show ?thesis by simp
qed

lemma py_round_mono: "x \<le> y \<Longrightarrow> py_round x n \<le> py_round y n"
  unfolding py_round_def
  by (intro divide_right_mono) (simp_all add: round_half_even_mono)

lemma py_round_0 [simp]: "py_round 0 n = 0"
  using round_half_even_int [of 0] by (simp add: py_round_def)

lemma py_round_nonneg: "0 \<le> x \<Longrightarrow> 0 \<le> py_round x n"
  using py_round_mono [of 0 x n] by simp

section \<open>ORM field values\<close>

text \<open>An unset character, text, selection or binary field reads \<open>False\<close>, here \<open>None\<close>.\<close>

type_synonym char_field = "string option"

definition is_set :: "char_field \<Rightarrow> bool" where
  "is_set f = (case f of None \<Rightarrow> False | Some s \<Rightarrow> s \<noteq> [])"

definition field_json :: "char_field \<Rightarrow> json" where
  "field_json f = (case f of None \<Rightarrow> JBool False | Some s \<Rightarrow> JStr s)"

text \<open>\<open>field or default\<close> with a string default.\<close>

definition or_str :: "char_field \<Rightarrow> string \<Rightarrow> string" where
  "or_str f d = (case f of None \<Rightarrow> d | Some s \<Rightarrow> if s = [] then d else s)"

lemma is_set_simps [simp]: "\<not> is_set None" "is_set (Some s) \<longleftrightarrow> s \<noteq> []"
  by (simp_all add: is_set_def)

lemma or_str_simps [simp]:
  "or_str None d = d"
  "s \<noteq> [] \<Longrightarrow> or_str (Some s) d = s"
  "or_str (Some []) d = d"
  by (simp_all add: or_str_def)

lemma is_setE:
  assumes "is_set f"
  obtains s where "f = Some s" and "s \<noteq> []"
  using assms by (auto simp: is_set_def split: option.splits)

lemma or_str_set: "is_set f \<Longrightarrow> f = Some (or_str f d) \<and> or_str f d \<noteq> []"
  by (auto elim: is_setE)

section \<open>Calendar dates\<close>

text \<open>
  The proleptic Gregorian calendar as \<open>datetime.date\<close> has it: ordinal 1 is 1 January of year 1.
  \<open>ord2ymd\<close> inverts the ordinal, and \<open>str\<close> of a date is its ISO form.
\<close>

fun days_before_month :: "int \<Rightarrow> int" where
  "days_before_month m =
     (if m \<le> 1 then 0 else if m = 2 then 31 else if m = 3 then 59 else if m = 4 then 90
      else if m = 5 then 120 else if m = 6 then 151 else if m = 7 then 181 else if m = 8 then 212
      else if m = 9 then 243 else if m = 10 then 273 else if m = 11 then 304 else 334)"

declare days_before_month.simps [simp del]

definition days_in_month :: "int \<Rightarrow> int" where
  "days_in_month m = (if m = 2 then 28 else if m \<in> {4, 6, 9, 11} then 30 else 31)"

definition ord2ymd :: "date \<Rightarrow> int \<times> int \<times> int" where
  "ord2ymd d =
     (let n = d - 1; n400 = n div 146097; n = n mod 146097;
          n100 = n div 36524; n = n mod 36524;
          n4 = n div 1461; n = n mod 1461;
          n1 = n div 365; n = n mod 365;
          year = n400 * 400 + 1 + n100 * 100 + n4 * 4 + n1
      in if n1 = 4 \<or> n100 = 4 then (year - 1, 12, 31)
         else
           (let leap = (n1 = 3 \<and> (n4 \<noteq> 24 \<or> n100 = 3));
                month = (n + 50) div 32;
                preceding = days_before_month month + (if month > 2 \<and> leap then 1 else 0)
            in if preceding > n
               then (year, month - 1,
                     n - (preceding - (days_in_month (month - 1)
                            + (if month - 1 = 2 \<and> leap then 1 else 0))) + 1)
               else (year, month, n - preceding + 1)))"

definition pad_zero :: "nat \<Rightarrow> string \<Rightarrow> string" where
  "pad_zero k s = replicate (k - length s) (CHR ''0'') @ s"

definition date_str :: "date \<Rightarrow> string" where
  "date_str d = (case ord2ymd d of (y, m, dd) \<Rightarrow>
     pad_zero 4 (str_int y) @ ''-'' @ pad_zero 2 (str_int m) @ ''-'' @ pad_zero 2 (str_int dd))"

end
