(* ===== verification/EjarErrors.thy ===== *)
theory EjarErrors
  imports Prelude
begin

text \<open>
  \<^verbatim>\<open>services/exceptions.py\<close> and \<^verbatim>\<open>services/job_policies.py\<close> of
  \<^verbatim>\<open>l10n_sa_ejar\<close>: the exception classes with their class attributes resolved along the
  inheritance chain, the mapping from HTTP statuses to exceptions, the retry patterns, and the
  classifier that turns an exception into a retry or a dead letter of the job queue.
\<close>

section \<open>The class hierarchy\<close>

datatype (plugins only: code) ejar_class =
    EjarAPIError
  | EjarNetworkError
  | EjarTimeoutError
  | EjarAuthError
  | EjarForbiddenError
  | EjarRateLimitError
  | EjarValidationError
  | EjarNotFoundError
  | EjarConflictError
  | EjarServerError
  | EjarIdentityValidationError
  | EjarTokenError
  | EjarTokenExpiredError
  | EjarCircuitOpenError
  | EjarConfigurationError
  | EjarPayloadError
  | EjarWebhookError
  | EjarWebhookSignatureInvalid
  | EjarWebhookSignatureMissing
  | EjarWebhookTimestampMissing
  | EjarWebhookReplayAttack
  | EjarWebhookInvalidJSON
  | EjarWebhookConfigMissing
  | EjarWebhookContractNotFound
  | EjarWebhookUnknownEventType
  | EjarWebhookIdempotencyKeyMissing

text \<open>The base class a class names in its header; \<open>None\<close> for the root of the hierarchy.\<close>

fun base_class :: "ejar_class \<Rightarrow> ejar_class option" where
  "base_class EjarAPIError = None"
| "base_class EjarTimeoutError = Some EjarNetworkError"
| "base_class EjarTokenExpiredError = Some EjarTokenError"
| "base_class EjarWebhookSignatureInvalid = Some EjarWebhookError"
| "base_class EjarWebhookSignatureMissing = Some EjarWebhookError"
| "base_class EjarWebhookTimestampMissing = Some EjarWebhookError"
| "base_class EjarWebhookReplayAttack = Some EjarWebhookError"
| "base_class EjarWebhookInvalidJSON = Some EjarWebhookError"
| "base_class EjarWebhookConfigMissing = Some EjarWebhookError"
| "base_class EjarWebhookContractNotFound = Some EjarWebhookError"
| "base_class EjarWebhookUnknownEventType = Some EjarWebhookError"
| "base_class EjarWebhookIdempotencyKeyMissing = Some EjarWebhookError"
| "base_class _ = Some EjarAPIError"

definition class_rank :: "ejar_class \<Rightarrow> nat" where
  "class_rank c = (case base_class c of None \<Rightarrow> 0 | Some b \<Rightarrow>
     (case base_class b of None \<Rightarrow> 1 | Some _ \<Rightarrow> 2))"

lemma class_rank_base: "base_class c = Some b \<Longrightarrow> class_rank b < class_rank c"
  by (cases c) (auto simp: class_rank_def)

text \<open>The method resolution order, nearest class first.\<close>

function mro :: "ejar_class \<Rightarrow> ejar_class list" where
  "mro c = (case base_class c of None \<Rightarrow> [c] | Some b \<Rightarrow> c # mro b)"
  by pat_completeness auto
termination
  by (relation "measure class_rank") (auto intro: class_rank_base)

declare mro.simps [simp del]

definition isinstance :: "ejar_class \<Rightarrow> ejar_class list \<Rightarrow> bool" where
  "isinstance c ks \<longleftrightarrow> (\<exists>k \<in> set ks. k \<in> set (mro c))"

definition class_attr :: "(ejar_class \<Rightarrow> 'a option) \<Rightarrow> ejar_class \<Rightarrow> 'a option" where
  "class_attr own c = (case List.map_filter own (mro c) of [] \<Rightarrow> None | a # _ \<Rightarrow> Some a)"

text \<open>What each class body itself assigns to \<open>should_retry\<close>, \<open>is_permanent\<close>, \<open>http_status\<close>.\<close>

fun own_should_retry :: "ejar_class \<Rightarrow> bool option" where
  "own_should_retry EjarNetworkError = Some True"
| "own_should_retry EjarRateLimitError = Some True"
| "own_should_retry EjarServerError = Some True"
| "own_should_retry EjarCircuitOpenError = Some True"
| "own_should_retry EjarTimeoutError = None"
| "own_should_retry EjarTokenExpiredError = None"
| "own_should_retry EjarWebhookSignatureInvalid = None"
| "own_should_retry EjarWebhookSignatureMissing = None"
| "own_should_retry EjarWebhookTimestampMissing = None"
| "own_should_retry EjarWebhookInvalidJSON = None"
| "own_should_retry EjarWebhookConfigMissing = None"
| "own_should_retry EjarWebhookContractNotFound = None"
| "own_should_retry EjarWebhookIdempotencyKeyMissing = None"
| "own_should_retry _ = Some False"

fun own_is_permanent :: "ejar_class \<Rightarrow> bool option" where
  "own_is_permanent EjarForbiddenError = Some True"
| "own_is_permanent EjarValidationError = Some True"
| "own_is_permanent EjarNotFoundError = Some True"
| "own_is_permanent EjarIdentityValidationError = Some True"
| "own_is_permanent EjarTokenError = Some True"
| "own_is_permanent EjarConfigurationError = Some True"
| "own_is_permanent EjarPayloadError = Some True"
| "own_is_permanent EjarWebhookSignatureInvalid = Some True"
| "own_is_permanent EjarWebhookSignatureMissing = Some True"
| "own_is_permanent EjarWebhookTimestampMissing = Some True"
| "own_is_permanent EjarWebhookInvalidJSON = Some True"
| "own_is_permanent EjarWebhookConfigMissing = Some True"
| "own_is_permanent EjarWebhookContractNotFound = Some True"
| "own_is_permanent EjarWebhookIdempotencyKeyMissing = Some True"
| "own_is_permanent EjarTimeoutError = None"
| "own_is_permanent EjarTokenExpiredError = None"
| "own_is_permanent _ = Some False"

fun own_http_status :: "ejar_class \<Rightarrow> int option option" where
  "own_http_status EjarAPIError = Some None"
| "own_http_status EjarAuthError = Some (Some 401)"
| "own_http_status EjarForbiddenError = Some (Some 403)"
| "own_http_status EjarRateLimitError = Some (Some 429)"
| "own_http_status EjarNotFoundError = Some (Some 404)"
| "own_http_status EjarConflictError = Some (Some 409)"
| "own_http_status _ = None"

definition class_should_retry :: "ejar_class \<Rightarrow> bool" where
  "class_should_retry c = (class_attr own_should_retry c = Some True)"

definition class_is_permanent :: "ejar_class \<Rightarrow> bool" where
  "class_is_permanent c = (class_attr own_is_permanent c = Some True)"

definition class_http_status :: "ejar_class \<Rightarrow> int option" where
  "class_http_status c = (case class_attr own_http_status c of Some s \<Rightarrow> s | None \<Rightarrow> None)"

section \<open>Exception objects\<close>

text \<open>
  A message is what the raising site formats. The constructors stand for the f-strings of the
  code; \<open>Text\<close> carries a literal, \<open>Server\<close> a value taken from the response body.
\<close>

datatype message =
    Text string
  | Server json
  | HttpStatus int
  | UnexpectedHttp int message
  | CircuitOpenFor int int
  | TimedOut string string
  | ConnectionFailed string string
  | RequestFailed string string
  | RequiredFieldEmpty string
  | UnknownEnvironment string
  | NoCredentials int
  | TokenExpiredFor int
  | UnitNotRegistered int
  | PartyWithoutEntity int
  | OutsideWindow int int
  | BadTimestamp string
  | NoSecretFor string
  | ContractNotFound json
  | UnknownEvent json
  | Incomplete "string list"

record ejar_exc =
  exc_class :: ejar_class
  exc_message :: message
  exc_status :: "int option"
  exc_correlation :: "string option"
  exc_company :: "int option"
  exc_endpoint :: "string option"
  exc_raw :: json
  exc_retry_after :: int
  exc_failure_count :: int
  exc_field_errors :: "(json \<times> json) list"
  exc_existing :: json

text \<open>
  The constructor: an explicit \<open>http_status\<close> overrides the class attribute, an empty
  \<open>raw_response\<close> becomes \<open>{}\<close>.
\<close>

definition mk_exc :: "ejar_class \<Rightarrow> message \<Rightarrow> ejar_exc" where
  "mk_exc c m = \<lparr>exc_class = c, exc_message = m, exc_status = class_http_status c,
     exc_correlation = None, exc_company = None, exc_endpoint = None, exc_raw = JObj [],
     exc_retry_after = 60, exc_failure_count = 0, exc_field_errors = [], exc_existing = JObj []\<rparr>"

text \<open>
  What a function of the integration can raise: one of its own exceptions, a Python error, the
  \<open>UserError\<close> and \<open>ValidationError\<close> of Odoo, or an exception of the HTTP package it lets through.
\<close>

datatype exn =
    Ejar ejar_exc
  | Py py_error
  | UserError message
  | OrmValidation message
  | TransportError

definition exn_is_permanent :: "exn \<Rightarrow> bool" where
  "exn_is_permanent e = (case e of Ejar x \<Rightarrow> class_is_permanent (exc_class x) | _ \<Rightarrow> False)"

section \<open>HTTP status to exception\<close>

record http_ctx =
  hc_correlation :: string
  hc_company :: int
  hc_endpoint :: string

definition status_exc :: "ejar_class \<Rightarrow> message \<Rightarrow> int \<Rightarrow> json \<Rightarrow> http_ctx \<Rightarrow> ejar_exc" where
  "status_exc c m status body ctx = (mk_exc c m)
     \<lparr>exc_status := Some status, exc_correlation := Some (hc_correlation ctx),
      exc_company := Some (hc_company ctx), exc_endpoint := Some (hc_endpoint ctx),
      exc_raw := (if truthy body then body else JObj [])\<rparr>"

definition first_detail :: "json \<Rightarrow> py_error + json" where
  "first_detail errors =
     (if truthy errors
      then ebind (json_index0 errors) (\<lambda>e. json_get e ''detail'' (JStr ''''))
      else Inr (JStr ''''))"

definition response_message :: "int \<Rightarrow> json \<Rightarrow> json \<Rightarrow> py_error + message" where
  "response_message status body errors =
     ebind (first_detail errors) (\<lambda>m.
       if truthy m then Inr (Server m)
       else (case body of
               JObj d \<Rightarrow> (case map_of d ''message'' of
                   Some v \<Rightarrow> Inr (Server v) | None \<Rightarrow> Inr (HttpStatus status))
             | _ \<Rightarrow> Inl AttributeError))"

definition field_error :: "json \<Rightarrow> py_error + (json \<times> json)" where
  "field_error e =
     ebind (json_get e ''source'' (JObj [])) (\<lambda>src.
     ebind (json_get src ''pointer'' (JStr '''')) (\<lambda>ptr.
     ebind (json_get e ''detail'' (JStr '''')) (\<lambda>det. Inr (ptr, det))))"

definition field_errors_of :: "json \<Rightarrow> py_error + (json \<times> json) list" where
  "field_errors_of errors = ebind (json_iter errors) (emap field_error)"

definition py_result :: "py_error + 'a \<Rightarrow> ('a \<Rightarrow> exn + 'b) \<Rightarrow> exn + 'b" where
  "py_result r f = (case r of Inl e \<Rightarrow> Inl (Py e) | Inr x \<Rightarrow> f x)"

text \<open>The chain of status tests, once the body's errors and the message have been read.\<close>

definition raise_status :: "int \<Rightarrow> json \<Rightarrow> http_ctx \<Rightarrow> json \<Rightarrow> message \<Rightarrow> exn" where
  "raise_status status body ctx errors m =
     (if status = 400 \<or> status = 422 then
        (case field_errors_of errors of
           Inl pe \<Rightarrow> Py pe
         | Inr fe \<Rightarrow> Ejar ((status_exc EjarValidationError m status body ctx)
             \<lparr>exc_field_errors := fe\<rparr>))
      else if status = 401 then Ejar (status_exc EjarAuthError m status body ctx)
      else if status = 403 then Ejar (status_exc EjarForbiddenError m status body ctx)
      else if status = 404 then Ejar (status_exc EjarNotFoundError m status body ctx)
      else if status = 409 then
        (case json_get body ''data'' JNull of
           Inl pe \<Rightarrow> Py pe
         | Inr existing \<Rightarrow> Ejar ((status_exc EjarConflictError m status body ctx)
             \<lparr>exc_existing := (if truthy existing then existing else JObj [])\<rparr>))
      else if status = 429 then
        Ejar ((status_exc EjarRateLimitError m status body ctx)\<lparr>exc_retry_after := 60\<rparr>)
      else if status = 500 \<or> status = 502 \<or> status = 503 \<or> status = 504 then
        Ejar (status_exc EjarServerError m status body ctx)
      else
        Ejar (status_exc EjarAPIError (UnexpectedHttp status m) status body ctx))"

definition raise_for_ejar_status :: "int \<Rightarrow> json \<Rightarrow> http_ctx \<Rightarrow> exn + unit" where
  "raise_for_ejar_status status body ctx =
     (if 200 \<le> status \<and> status < 300 then Inr ()
      else
        py_result (json_get body ''errors'' (JList [])) (\<lambda>errors.
        py_result (response_message status body errors) (\<lambda>m.
          Inl (raise_status status body ctx errors m))))"

section \<open>Retry policies\<close>

text \<open>Retry patterns: seconds before the next attempt, by attempt number.\<close>

definition SUBMISSION_RETRY_PATTERN :: "(nat \<times> nat) list" where
  "SUBMISSION_RETRY_PATTERN = [(0, 60), (1, 300), (2, 1800), (3, 7200), (4, 14400)]"

definition POLLING_RETRY_PATTERN :: "(nat \<times> nat) list" where
  "POLLING_RETRY_PATTERN = [(0, 300), (1, 900), (2, 1800), (3, 3600), (4, 7200)]"

definition DOCUMENT_RETRY_PATTERN :: "(nat \<times> nat) list" where
  "DOCUMENT_RETRY_PATTERN = [(0, 30), (1, 120), (2, 600), (3, 1800)]"

definition MAX_SUBMISSION_RETRIES :: nat where "MAX_SUBMISSION_RETRIES = 5"
definition MAX_POLL_RETRIES :: nat where "MAX_POLL_RETRIES = 20"
definition MAX_DOCUMENT_RETRIES :: nat where "MAX_DOCUMENT_RETRIES = 4"

definition submission_identity_key :: "int \<Rightarrow> string" where
  "submission_identity_key contract_id = ''ejar-submit-'' @ str_int contract_id"

definition polling_identity_key :: "int \<Rightarrow> string" where
  "polling_identity_key contract_id = ''ejar-poll-'' @ str_int contract_id"

definition document_upload_identity_key :: "int \<Rightarrow> string" where
  "document_upload_identity_key contract_id = ''ejar-docupload-'' @ str_int contract_id"

text \<open>
  The two exceptions of \<^verbatim>\<open>queue_job/exception.py\<close> the classifier raises:
  a retryable error has an optional delay and the \<open>ignore_retry\<close> flag.
\<close>

datatype job_error =
    RetryableJobError message "int option" bool
  | FailedJobError message

definition classify_ejar_exception :: "ejar_exc \<Rightarrow> job_error" where
  "classify_ejar_exception e =
     (let c = exc_class e; m = exc_message e in
      if isinstance c [EjarNetworkError, EjarTimeoutError]
        then RetryableJobError m None False
      else if isinstance c [EjarRateLimitError]
        then RetryableJobError m (Some (max (exc_retry_after e) 5)) False
      else if isinstance c [EjarServerError] then RetryableJobError m None False
      else if isinstance c [EjarCircuitOpenError]
        then RetryableJobError m (Some (max (exc_retry_after e) 5)) False
      else if isinstance c [EjarAuthError] then RetryableJobError m (Some 30) False
      else if isinstance c [EjarTokenExpiredError] then RetryableJobError m (Some 60) False
      else if isinstance c [EjarValidationError, EjarForbiddenError, EjarNotFoundError,
                            EjarPayloadError, EjarConfigurationError, EjarTokenError]
        then FailedJobError m
      else RetryableJobError m None False)"

fun dead_letters :: "job_error \<Rightarrow> bool" where
  "dead_letters (FailedJobError _) = True"
| "dead_letters (RetryableJobError _ _ _) = False"

section \<open>Lemmas\<close>

lemma mro_unfold:
  "base_class c = None \<Longrightarrow> mro c = [c]"
  "base_class c = Some b \<Longrightarrow> mro c = c # mro b"
  by (simp_all add: mro.simps [of c])

lemma mro_eq:
  "mro c = (case base_class c of None \<Rightarrow> [c] | Some b \<Rightarrow>
     (case base_class b of None \<Rightarrow> [c, b] | Some a \<Rightarrow> [c, b, a]))"
  by (cases c) (simp_all add: mro_unfold)

lemma mro_root: "EjarAPIError \<in> set (mro c)"
  by (cases c) (simp_all add: mro_eq)

lemma isinstance_eq: "isinstance c ks \<longleftrightarrow> list_ex (\<lambda>k. List.member (mro c) k) ks"
  by (auto simp: isinstance_def list_ex_iff)

lemma permanent_classes:
  "class_is_permanent c \<longleftrightarrow> c \<in> {EjarForbiddenError, EjarValidationError, EjarNotFoundError,
     EjarIdentityValidationError, EjarTokenError, EjarTokenExpiredError, EjarConfigurationError,
     EjarPayloadError, EjarWebhookSignatureInvalid, EjarWebhookSignatureMissing,
     EjarWebhookTimestampMissing, EjarWebhookInvalidJSON, EjarWebhookConfigMissing,
     EjarWebhookContractNotFound, EjarWebhookIdempotencyKeyMissing}"
  by (cases c) (simp_all add: class_is_permanent_def class_attr_def mro_eq)

lemma retry_classes:
  "class_should_retry c \<longleftrightarrow> c \<in> {EjarNetworkError, EjarTimeoutError, EjarRateLimitError,
     EjarServerError, EjarCircuitOpenError}"
  by (cases c) (simp_all add: class_should_retry_def class_attr_def mro_eq)

lemma dead_letters_classify:
  "dead_letters (classify_ejar_exception e) \<longleftrightarrow> exc_class e \<in> {EjarValidationError,
     EjarForbiddenError, EjarNotFoundError, EjarPayloadError, EjarConfigurationError,
     EjarTokenError}"
  by (cases "exc_class e") (simp_all add: classify_ejar_exception_def isinstance_def mro_eq Let_def)

lemma mk_exc_simps [simp]:
  "exc_class (mk_exc c m) = c"
  "exc_message (mk_exc c m) = m"
  by (simp_all add: mk_exc_def)

lemma status_exc_simps [simp]:
  "exc_class (status_exc c m st b ctx) = c"
  "exc_status (status_exc c m st b ctx) = Some st"
  by (simp_all add: status_exc_def)

lemma py_result_cases [simp]:
  "py_result (Inl e) f = Inl (Py e)"
  "py_result (Inr x) f = f x"
  by (simp_all add: py_result_def)

lemma py_result_eq_Inl:
  "py_result r f = Inl x \<longleftrightarrow> (\<exists>e. r = Inl e \<and> x = Py e) \<or> (\<exists>y. r = Inr y \<and> f y = Inl x)"
  by (cases r) auto

lemma py_result_eq_Inr: "py_result r f = Inr x \<longleftrightarrow> (\<exists>y. r = Inr y \<and> f y = Inr x)"
  by (cases r) auto

lemma raise_for_status_ok:
  "raise_for_ejar_status st b ctx = Inr u \<longleftrightarrow> 200 \<le> st \<and> st < 300"
  by (auto simp: raise_for_ejar_status_def py_result_eq_Inr split: if_splits)

text \<open>The class an HTTP failure is raised as.\<close>

definition status_class :: "int \<Rightarrow> ejar_class" where
  "status_class st =
     (if st = 400 \<or> st = 422 then EjarValidationError
      else if st = 401 then EjarAuthError
      else if st = 403 then EjarForbiddenError
      else if st = 404 then EjarNotFoundError
      else if st = 409 then EjarConflictError
      else if st = 429 then EjarRateLimitError
      else if st = 500 \<or> st = 502 \<or> st = 503 \<or> st = 504 then EjarServerError
      else EjarAPIError)"

lemma raise_status_class:
  "raise_status st b ctx errs m = Ejar e \<Longrightarrow> exc_class e = status_class st \<and> exc_status e = Some st"
  unfolding raise_status_def status_class_def
  by (simp split: if_split_asm sum.splits; auto)

lemma raise_for_status_class:
  assumes "raise_for_ejar_status st b ctx = Inl (Ejar e)"
  shows "exc_class e = status_class st \<and> exc_status e = Some st \<and> \<not> (200 \<le> st \<and> st < 300)"
proof (cases "200 \<le> st \<and> st < 300")
  case True
  with assms show ?thesis by (simp add: raise_for_ejar_status_def)
next
  case False
  with assms obtain errs m where "raise_status st b ctx errs m = Ejar e"
    by (auto simp: raise_for_ejar_status_def py_result_eq_Inl)
  with False show ?thesis by (auto dest: raise_status_class)
qed

text \<open>
  The shape of error body the mapping expects: an object whose \<open>errors\<close> is a list of objects
  with an object as \<open>source\<close>.
\<close>

definition error_item_ok :: "json \<Rightarrow> bool" where
  "error_item_ok e = (case e of
      JObj d \<Rightarrow> (case dict_get d ''source'' (JObj []) of JObj _ \<Rightarrow> True | _ \<Rightarrow> False)
    | _ \<Rightarrow> False)"

definition error_body_ok :: "json \<Rightarrow> bool" where
  "error_body_ok body = (case body of
      JObj d \<Rightarrow> (case dict_get d ''errors'' (JList []) of
        JList es \<Rightarrow> list_all error_item_ok es | _ \<Rightarrow> False)
    | _ \<Rightarrow> False)"

lemma field_error_ok: "error_item_ok e \<Longrightarrow> \<exists>fe. field_error e = Inr fe"
  by (cases e) (auto simp: error_item_ok_def field_error_def json_get_def split: json.splits)

lemma emap_field_error_ok: "list_all error_item_ok es \<Longrightarrow> \<exists>fes. emap field_error es = Inr fes"
proof (induction es)
  case Nil
  then show ?case by simp
next
  case (Cons e es)
  then show ?case using field_error_ok [of e] by auto
qed

lemma first_detail_ok: "list_all error_item_ok es \<Longrightarrow> \<exists>m. first_detail (JList es) = Inr m"
  by (cases es) (auto simp: first_detail_def json_index0_def json_get_def error_item_ok_def split: json.splits)

lemma response_message_ok:
  "list_all error_item_ok es \<Longrightarrow> \<exists>m. response_message st (JObj d) (JList es) = Inr m"
  using first_detail_ok [of es] by (auto simp: response_message_def split: option.splits)

lemma raise_status_typed:
  assumes "list_all error_item_ok es"
  shows "\<exists>e. raise_status st (JObj d) ctx (JList es) m = Ejar e"
  using emap_field_error_ok [OF assms]
  by (auto simp: raise_status_def field_errors_of_def json_iter_def json_get_def)

lemma raise_for_status_typed:
  assumes "error_body_ok body" and "st < 200 \<or> 300 \<le> st"
  shows "\<exists>e. raise_for_ejar_status st body ctx = Inl (Ejar e)
      \<and> exc_class e = status_class st \<and> exc_status e = Some st"
proof -
  from assms(1) obtain d es where body: "body = JObj d"
    and es: "dict_get d ''errors'' (JList []) = JList es" "list_all error_item_ok es"
    by (auto simp: error_body_ok_def split: json.splits)
  obtain m where "response_message st (JObj d) (JList es) = Inr m"
    using response_message_ok [OF es(2)] by blast
  moreover obtain e where "raise_status st (JObj d) ctx (JList es) m = Ejar e"
    using raise_status_typed [OF es(2)] by blast
  ultimately have "raise_for_ejar_status st body ctx = Inl (Ejar e)"
    using assms(2) es(1) by (auto simp: raise_for_ejar_status_def body json_get_def)
  with raise_for_status_class [OF this] show ?thesis by blast
qed

section \<open>Properties\<close>

text \<open>
  A failed HTTP exchange is dead-lettered by the job queue exactly when the exception
  it raises is permanent: the statuses 400, 403, 404 and 422, and no other; every other
  non-2xx status is retried.
\<close>

theorem http_failure_classified:
  assumes "raise_for_ejar_status st body ctx = Inl (Ejar e)"
  shows "(dead_letters (classify_ejar_exception e) \<longleftrightarrow> class_is_permanent (exc_class e))
    \<and> (dead_letters (classify_ejar_exception e) \<longleftrightarrow> st \<in> {400, 403, 404, 422})"
proof -
  have "exc_class e = status_class st"
    using raise_for_status_class [OF assms] by blast
  then show ?thesis
    by (simp add: dead_letters_classify permanent_classes status_class_def)
qed

theorem http_failure_classified_witness:
  "raise_for_ejar_status 422 (JObj []) \<lparr>hc_correlation = ''c'', hc_company = 1, hc_endpoint = ''/''\<rparr>
     = Inl (Ejar ((status_exc EjarValidationError (HttpStatus 422) 422 (JObj [])
         \<lparr>hc_correlation = ''c'', hc_company = 1, hc_endpoint = ''/''\<rparr>)\<lparr>exc_field_errors := []\<rparr>))
   \<and> dead_letters (classify_ejar_exception ((status_exc EjarValidationError (HttpStatus 422) 422 (JObj [])
         \<lparr>hc_correlation = ''c'', hc_company = 1, hc_endpoint = ''/''\<rparr>)\<lparr>exc_field_errors := []\<rparr>))"
proof -
  have h: "raise_for_ejar_status 422 (JObj []) \<lparr>hc_correlation = ''c'', hc_company = 1, hc_endpoint = ''/''\<rparr>
     = Inl (Ejar ((status_exc EjarValidationError (HttpStatus 422) 422 (JObj [])
         \<lparr>hc_correlation = ''c'', hc_company = 1, hc_endpoint = ''/''\<rparr>)\<lparr>exc_field_errors := []\<rparr>))"
    by (simp add: raise_for_ejar_status_def raise_status_def json_get_def dict_get_def
        response_message_def first_detail_def field_errors_of_def json_iter_def)
  show ?thesis using h conjunct2 [OF http_failure_classified [OF h]] by simp
qed

text \<open>
  Over the whole hierarchy, the classifier dead-letters only permanent exceptions, and
  the permanent exceptions it retries instead are the pre-flight identity failure, the expired
  token and the permanent webhook failures: these never match a branch before the final
  ``retry conservatively'' one, except the expired token, which has a retry branch of its own.
\<close>

theorem classifier_against_is_permanent:
  "dead_letters (classify_ejar_exception e) \<longleftrightarrow>
     class_is_permanent (exc_class e)
     \<and> \<not> isinstance (exc_class e) [EjarIdentityValidationError, EjarTokenExpiredError, EjarWebhookError]"
  by (cases "exc_class e")
    (simp_all add: dead_letters_classify permanent_classes isinstance_def mro_eq)

text \<open>
  A delay the classifier schedules is at least five seconds, whatever
  \<open>retry_after\<close> the exception carries, and no retry is exempted from the retry counter.
\<close>

theorem retry_delay_floor:
  "case classify_ejar_exception e of
     RetryableJobError m d ign \<Rightarrow> \<not> ign \<and> (case d of Some s \<Rightarrow> 5 \<le> s | None \<Rightarrow> True)
   | FailedJobError m \<Rightarrow> m = exc_message e"
  by (simp add: classify_ejar_exception_def Let_def)

text \<open>
  A non-2xx response whose body has the expected shape (in particular any body that is
  not JSON, which reaches the mapping as an object without \<open>errors\<close>) is raised as the exception
  class of its status, carrying that status. The shape matters: an object with a null \<open>errors\<close>
  makes the mapping of 422 fail with a \<open>TypeError\<close> instead.
\<close>

theorem error_status_typed:
  assumes "error_body_ok body" and "st < 200 \<or> 300 \<le> st"
  shows "(\<exists>e. raise_for_ejar_status st body ctx = Inl (Ejar e)
      \<and> exc_class e = status_class st \<and> exc_status e = Some st)
    \<and> raise_for_ejar_status 422 (JObj [(''errors'', JNull)]) ctx = Inl (Py TypeError)"
proof -
  have "raise_for_ejar_status 422 (JObj [(''errors'', JNull)]) ctx = Inl (Py TypeError)"
    by (simp add: raise_for_ejar_status_def raise_status_def json_get_def dict_get_def
        response_message_def first_detail_def field_errors_of_def json_iter_def)
  with raise_for_status_typed [OF assms] show ?thesis by blast
qed

theorem error_status_typed_witness:
  "error_body_ok (JObj [(''_raw'', JStr ''<html>'')]) \<and> ((503::int) < 200 \<or> 300 \<le> (503::int))
   \<and> (\<exists>e. raise_for_ejar_status 503 (JObj [(''_raw'', JStr ''<html>'')])
        \<lparr>hc_correlation = ''c'', hc_company = 1, hc_endpoint = ''/''\<rparr> = Inl (Ejar e)
      \<and> exc_class e = EjarServerError)"
proof -
  have a: "error_body_ok (JObj [(''_raw'', JStr ''<html>'')])"
    by (simp add: error_body_ok_def dict_get_def)
  have b: "(503::int) < 200 \<or> 300 \<le> (503::int)" by simp
  show ?thesis
    using a b error_status_typed [OF a b] by (fastforce simp: status_class_def)
qed

end
