(* ===== verification/EjarCircuit.thy ===== *)
theory EjarCircuit
  imports EjarErrors
begin

text \<open>
  The per-company circuit breaker of \<^verbatim>\<open>services/ejar_client.py\<close>: its states, the shared
  table \<open>_CIRCUIT_BREAKERS\<close>, and the three operations a request performs on it. Every client of a
  company holds the same breaker object, so the table maps a company id to the breaker and an
  operation updates the entry. The clock is the reading of \<open>time.monotonic()\<close>.
\<close>

section \<open>Model\<close>

datatype cb_state = CLOSED | OPEN | HALF_OPEN

record circuit =
  state :: cb_state
  failure_count :: int
  last_failure_at :: rat
  half_open_success_count :: int

definition CB_FAILURE_THRESHOLD :: int where "CB_FAILURE_THRESHOLD = 5"
definition CB_RECOVERY_TIMEOUT :: int where "CB_RECOVERY_TIMEOUT = 60"
definition CB_SUCCESS_THRESHOLD :: int where "CB_SUCCESS_THRESHOLD = 2"

lemmas cb_constants = CB_FAILURE_THRESHOLD_def CB_RECOVERY_TIMEOUT_def CB_SUCCESS_THRESHOLD_def

definition new_circuit :: circuit where
  "new_circuit = \<lparr>state = CLOSED, failure_count = 0, last_failure_at = 0,
     half_open_success_count = 0\<rparr>"

type_synonym circuits = "int \<rightharpoonup> circuit"

definition get_circuit :: "circuits \<Rightarrow> int \<Rightarrow> circuit \<times> circuits" where
  "get_circuit cbs company_id =
     (case cbs company_id of
        None \<Rightarrow> (new_circuit, cbs(company_id \<mapsto> new_circuit))
      | Some cb \<Rightarrow> (cb, cbs))"

text \<open>\<open>int(x)\<close> truncates; the remaining time it is applied to here is positive.\<close>

definition circuit_open_error :: "int \<Rightarrow> string \<Rightarrow> circuit \<Rightarrow> rat \<Rightarrow> ejar_exc" where
  "circuit_open_error company_id correlation_id cb elapsed =
     (let left = \<lfloor>of_int CB_RECOVERY_TIMEOUT - elapsed\<rfloor> in
      (mk_exc EjarCircuitOpenError (CircuitOpenFor company_id left))
        \<lparr>exc_retry_after := left, exc_failure_count := failure_count cb,
         exc_company := Some company_id, exc_correlation := Some correlation_id\<rparr>)"

definition circuit_check :: "int \<Rightarrow> string \<Rightarrow> rat \<Rightarrow> circuit \<Rightarrow> ejar_exc + circuit" where
  "circuit_check company_id correlation_id now cb =
     (if state cb = OPEN then
        (let elapsed = now - last_failure_at cb in
         if elapsed < of_int CB_RECOVERY_TIMEOUT
         then Inl (circuit_open_error company_id correlation_id cb elapsed)
         else Inr (cb\<lparr>state := HALF_OPEN, half_open_success_count := 0\<rparr>))
      else Inr cb)"

definition circuit_record_success :: "circuit \<Rightarrow> circuit" where
  "circuit_record_success cb =
     (if state cb = HALF_OPEN then
        (let cb' = cb\<lparr>half_open_success_count := half_open_success_count cb + 1\<rparr> in
         if half_open_success_count cb' \<ge> CB_SUCCESS_THRESHOLD
         then cb'\<lparr>state := CLOSED, failure_count := 0\<rparr>
         else cb')
      else if state cb = CLOSED then cb\<lparr>failure_count := 0\<rparr>
      else cb)"

definition circuit_record_failure :: "rat \<Rightarrow> circuit \<Rightarrow> circuit" where
  "circuit_record_failure now cb =
     (let cb' = cb\<lparr>failure_count := failure_count cb + 1, last_failure_at := now\<rparr> in
      if failure_count cb' \<ge> CB_FAILURE_THRESHOLD then cb'\<lparr>state := OPEN\<rparr> else cb')"

section \<open>Runs\<close>

text \<open>
  Requests of several threads interleave freely: a check, and later the success or failure of some
  request that passed its check. The relation allows every order of the three operations.
\<close>

datatype cb_event = Check rat | Success | Failure rat

fun cb_apply :: "cb_event \<Rightarrow> circuit \<Rightarrow> circuit" where
  "cb_apply (Check now) cb = (case circuit_check 0 [] now cb of Inl _ \<Rightarrow> cb | Inr cb' \<Rightarrow> cb')"
| "cb_apply Success cb = circuit_record_success cb"
| "cb_apply (Failure now) cb = circuit_record_failure now cb"

fun cb_run :: "circuit \<Rightarrow> cb_event list \<Rightarrow> circuit" where
  "cb_run cb [] = cb"
| "cb_run cb (e # es) = cb_run (cb_apply e cb) es"

inductive cb_reachable :: "circuit \<Rightarrow> bool" where
  start: "cb_reachable new_circuit"
| checked: "cb_reachable cb \<Longrightarrow> circuit_check company cid now cb = Inr cb' \<Longrightarrow> cb_reachable cb'"
| succeeded: "cb_reachable cb \<Longrightarrow> cb_reachable (circuit_record_success cb)"
| failed: "cb_reachable cb \<Longrightarrow> cb_reachable (circuit_record_failure now cb)"

text \<open>
  The invariant: the failure counter is below the threshold exactly in the closed state, and the
  half-open state has fewer successes than it takes to close.
\<close>

definition cb_inv :: "circuit \<Rightarrow> bool" where
  "cb_inv cb \<longleftrightarrow>
     0 \<le> failure_count cb
     \<and> (state cb = CLOSED \<longleftrightarrow> failure_count cb < CB_FAILURE_THRESHOLD)
     \<and> (state cb = HALF_OPEN \<longrightarrow>
          0 \<le> half_open_success_count cb \<and> half_open_success_count cb < CB_SUCCESS_THRESHOLD)"

section \<open>Lemmas\<close>

lemmas circuit_defs =
  circuit_check_def circuit_record_success_def circuit_record_failure_def Let_def

lemma cb_inv_new [simp]: "cb_inv new_circuit"
  by (simp add: cb_inv_def new_circuit_def cb_constants)

lemma cb_inv_check: "cb_inv cb \<Longrightarrow> circuit_check c i now cb = Inr cb' \<Longrightarrow> cb_inv cb'"
  by (auto simp: cb_inv_def circuit_defs cb_constants split: if_splits)

lemma cb_inv_success: "cb_inv cb \<Longrightarrow> cb_inv (circuit_record_success cb)"
  by (cases "state cb") (auto simp: cb_inv_def circuit_defs cb_constants)

lemma cb_inv_failure: "cb_inv cb \<Longrightarrow> cb_inv (circuit_record_failure now cb)"
  by (cases "state cb") (auto simp: cb_inv_def circuit_defs cb_constants)

lemma reachable_cb_inv: "cb_reachable cb \<Longrightarrow> cb_inv cb"
proof (induction rule: cb_reachable.induct)
  case start
  show ?case by simp
next
  case checked
  then show ?case by (blast intro: cb_inv_check)
next
  case succeeded
  then show ?case by (blast intro: cb_inv_success)
next
  case failed
  then show ?case by (blast intro: cb_inv_failure)
qed

lemma cb_run_append: "cb_run cb (xs @ ys) = cb_run (cb_run cb xs) ys"
  by (induction xs arbitrary: cb) auto

lemma check_refused_iff:
  "(\<exists>e. circuit_check c i now cb = Inl e)
     \<longleftrightarrow> state cb = OPEN \<and> now < last_failure_at cb + of_int CB_RECOVERY_TIMEOUT"
  by (auto simp: circuit_defs)

text \<open>
  The abstract breaker counts consecutive failures and remembers whether it has tripped; without
  checks in between (no request is let through to probe) the concrete one follows it exactly.
\<close>

datatype abs_breaker = Counting nat | Tripped

fun abs_step :: "bool \<Rightarrow> abs_breaker \<Rightarrow> abs_breaker" where
  "abs_step ok Tripped = Tripped"
| "abs_step True (Counting n) = Counting 0"
| "abs_step False (Counting n) = (if Suc n \<ge> 5 then Tripped else Counting (Suc n))"

fun abs_run :: "abs_breaker \<Rightarrow> bool list \<Rightarrow> abs_breaker" where
  "abs_run a [] = a"
| "abs_run a (b # bs) = abs_run (abs_step b a) bs"

definition abs_of :: "circuit \<Rightarrow> abs_breaker" where
  "abs_of cb = (if state cb = CLOSED then Counting (nat (failure_count cb)) else Tripped)"

definition outcome_event :: "rat \<Rightarrow> bool \<Rightarrow> cb_event" where
  "outcome_event now ok = (if ok then Success else Failure now)"

lemma abs_step_refines:
  assumes "cb_inv cb" and "state cb \<noteq> HALF_OPEN"
  shows "abs_of (cb_apply (outcome_event now ok) cb) = abs_step ok (abs_of cb)"
    and "state (cb_apply (outcome_event now ok) cb) \<noteq> HALF_OPEN"
    and "cb_inv (cb_apply (outcome_event now ok) cb)"
proof -
  show "cb_inv (cb_apply (outcome_event now ok) cb)"
    using assms(1) by (simp add: outcome_event_def cb_inv_success cb_inv_failure)
  show "state (cb_apply (outcome_event now ok) cb) \<noteq> HALF_OPEN"
    using assms by (simp add: outcome_event_def circuit_defs)
  show "abs_of (cb_apply (outcome_event now ok) cb) = abs_step ok (abs_of cb)"
    using assms
    by (cases ok; cases "state cb")
      (auto simp: outcome_event_def circuit_defs abs_of_def cb_inv_def cb_constants nat_add_distrib)
qed

lemma abs_run_refines:
  assumes "cb_inv cb" and "state cb \<noteq> HALF_OPEN"
  shows "abs_of (cb_run cb (map (\<lambda>(now, ok). outcome_event now ok) xs)) = abs_run (abs_of cb) (map snd xs)"
  using assms
proof (induction xs arbitrary: cb)
  case Nil
  then show ?case by simp
next
  case (Cons x xs)
  obtain now ok where x: "x = (now, ok)" by fastforce
  let ?cb = "cb_apply (outcome_event now ok) cb"
  have "abs_of (cb_run ?cb (map (\<lambda>(now, ok). outcome_event now ok) xs)) = abs_run (abs_of ?cb) (map snd xs)"
    using abs_step_refines(2,3) [OF Cons.prems] by (intro Cons.IH) auto
  then show ?case by (simp add: x abs_step_refines(1) [OF Cons.prems])
qed

lemma abs_run_append: "abs_run a (xs @ ys) = abs_run (abs_run a xs) ys"
  by (induction xs arbitrary: a) auto

lemma abs_run_tripped [simp]: "abs_run Tripped bs = Tripped"
  by (induction bs) auto

lemma abs_run_failures:
  "n + k < 5 \<Longrightarrow> abs_run (Counting n) (replicate k False) = Counting (n + k)"
  by (induction k arbitrary: n) auto

lemma abs_run_trip: "n < 5 \<Longrightarrow> abs_run (Counting n) (replicate 5 False @ ys) = Tripped"
  by (cases n rule: nat.exhaust; simp add: numeral_eq_Suc)

text \<open>The abstract breaker trips exactly when five failures follow each other.\<close>

definition failure_streak :: "bool list \<Rightarrow> bool" where
  "failure_streak bs \<longleftrightarrow> (\<exists>i. take 5 (drop i bs) = replicate 5 False)"

lemma streak_over_success:
  assumes "n < 5"
  shows "failure_streak (replicate n False @ True # bs) \<longleftrightarrow> failure_streak bs"
proof
  assume "failure_streak (replicate n False @ True # bs)"
  then obtain i where i: "take 5 (drop i (replicate n False @ True # bs)) = replicate 5 False"
    by (auto simp: failure_streak_def)
  show "failure_streak bs"
  proof (cases "i \<le> n")
    case True
    then have "drop i (replicate n False @ True # bs) = replicate (n - i) False @ True # bs"
      by simp
    with i have "take 5 (replicate (n - i) False @ True # bs) = replicate 5 False" by simp
    moreover have "True \<in> set (take 5 (replicate (n - i) False @ True # bs))"
      using assms by (cases "5 - (n - i)") (auto simp: take_Cons')
    ultimately show ?thesis by (metis in_set_replicate)
  next
    case False
    then obtain k where "i = n + Suc k" by (metis add_Suc_right less_iff_Suc_add not_le)
    with i have "take 5 (drop k bs) = replicate 5 False" by simp
    then show ?thesis by (auto simp: failure_streak_def)
  qed
next
  assume "failure_streak bs"
  then obtain i where "take 5 (drop i bs) = replicate 5 False"
    by (auto simp: failure_streak_def)
  then have "take 5 (drop (n + Suc i) (replicate n False @ True # bs)) = replicate 5 False"
    by simp
  then show "failure_streak (replicate n False @ True # bs)"
    unfolding failure_streak_def by blast
qed

lemma short_no_streak: "n < 5 \<Longrightarrow> \<not> failure_streak (replicate n False)"
proof
  assume "n < 5" and "failure_streak (replicate n False)"
  then obtain i where "take 5 (drop i (replicate n False)) = replicate 5 False"
    by (auto simp: failure_streak_def)
  then have "length (take 5 (drop i (replicate n False))) = 5" by simp
  with \<open>n < 5\<close> show False by simp
qed

lemma abs_run_counts:
  "n < 5 \<Longrightarrow> abs_run (Counting n) bs = Tripped \<longleftrightarrow> failure_streak (replicate n False @ bs)"
proof (induction bs arbitrary: n)
  case Nil
  then show ?case by (simp add: short_no_streak)
next
  case (Cons b bs)
  show ?case
  proof (cases b)
    case True
    with Cons show ?thesis
      using Cons.IH [of 0] by (simp add: streak_over_success)
  next
    case False
    have shift: "replicate n False @ False # bs = replicate (Suc n) False @ bs"
      by (simp add: replicate_app_Cons_same)
    show ?thesis
    proof (cases "Suc n < 5")
      case True
      have b: "b = False" using False by simp
      show ?thesis using Cons.IH [of "Suc n"] True unfolding b shift by simp
    next
      case 5: False
      with Cons.prems have "n = 4" by simp
      have "take 5 (drop 0 (replicate (Suc n) False @ bs)) = replicate 5 False"
        using \<open>n = 4\<close> by (simp add: numeral_eq_Suc)
      then have "failure_streak (replicate n False @ False # bs)"
        unfolding failure_streak_def shift by blast
      with 5 False show ?thesis by simp
    qed
  qed
qed

section \<open>Properties\<close>

text \<open>
  Property C6. In every interleaving of checks, successes and failures on a company's breaker, the
  failure counter is below the threshold exactly while the breaker is closed, and a half-open
  breaker is still short of the successes that close it.
\<close>

theorem circuit_invariant:
  assumes "cb_reachable cb"
  shows "(state cb = CLOSED \<longleftrightarrow> failure_count cb < CB_FAILURE_THRESHOLD) \<and> 0 \<le> failure_count cb
    \<and> (state cb = HALF_OPEN \<longrightarrow> half_open_success_count cb < CB_SUCCESS_THRESHOLD)"
  using reachable_cb_inv [OF assms] by (simp add: cb_inv_def)

theorem circuit_invariant_witness:
  "cb_reachable (circuit_record_failure 3 new_circuit)
   \<and> state (circuit_record_failure 3 new_circuit) = CLOSED
   \<and> failure_count (circuit_record_failure 3 new_circuit) < CB_FAILURE_THRESHOLD"
proof -
  have r: "cb_reachable (circuit_record_failure 3 new_circuit)"
    by (intro cb_reachable.failed cb_reachable.start)
  show ?thesis
    using r circuit_invariant [OF r] by (simp add: circuit_defs new_circuit_def cb_constants)
qed

text \<open>
  Property C11. Starting from a fresh breaker, and with no request probing it in between, a run of
  request outcomes leaves the breaker open exactly when somewhere in the run five failures
  followed each other without a success; otherwise it is closed.
\<close>

theorem breaker_opens_on_streak:
  "state (cb_run new_circuit (map (\<lambda>(now, ok). outcome_event now ok) outcomes))
     = (if failure_streak (map snd outcomes) then OPEN else CLOSED)"
proof -
  let ?cb = "cb_run new_circuit (map (\<lambda>(now, ok). outcome_event now ok) outcomes)"
  have not_half: "state (cb_run cb (map (\<lambda>(now, ok). outcome_event now ok) xs)) \<noteq> HALF_OPEN"
    if "cb_inv cb" "state cb \<noteq> HALF_OPEN" for cb xs
    using that
    by (induction xs arbitrary: cb) (auto dest: abs_step_refines(2) abs_step_refines(3))
  have "abs_of ?cb = abs_run (Counting 0) (map snd outcomes)"
    using abs_run_refines [OF cb_inv_new] by (simp add: new_circuit_def abs_of_def)
  then have "abs_of ?cb = Tripped \<longleftrightarrow> failure_streak (map snd outcomes)"
    by (simp add: abs_run_counts)
  moreover have "state ?cb \<noteq> HALF_OPEN"
    by (rule not_half) (simp_all add: new_circuit_def cb_inv_def cb_constants)
  ultimately show ?thesis
    by (cases "state ?cb") (simp_all add: abs_of_def)
qed

text \<open>
  Recovery: an open breaker refuses every request of the sixty seconds after the last
  failure, with a retry hint of at most sixty seconds and no change to the breaker; at sixty
  seconds it lets a probe through, two successes then close it with a clean counter, and one
  failure after the probe opens it again at once.
\<close>

theorem breaker_recovery:
  assumes inv: "cb_inv cb" and opened: "state cb = OPEN"
  shows "(case circuit_check c i now cb of
      Inl e \<Rightarrow> now < last_failure_at cb + 60 \<and> exc_class e = EjarCircuitOpenError
        \<and> (last_failure_at cb \<le> now \<longrightarrow> 0 \<le> exc_retry_after e \<and> exc_retry_after e \<le> 60)
    | Inr probe \<Rightarrow> last_failure_at cb + 60 \<le> now \<and> state probe = HALF_OPEN
        \<and> state (circuit_record_failure later probe) = OPEN
        \<and> state (circuit_record_success probe) = HALF_OPEN
        \<and> state (circuit_record_success (circuit_record_success probe)) = CLOSED
        \<and> failure_count (circuit_record_success (circuit_record_success probe)) = 0)"
proof (cases "now - last_failure_at cb < 60")
  case True
  define left where "left = \<lfloor>60 - (now - last_failure_at cb)\<rfloor>"
  have "0 \<le> left" if "last_failure_at cb \<le> now"
    using True that unfolding left_def by linarith
  moreover have "left \<le> 60" if "last_failure_at cb \<le> now"
    using that unfolding left_def by linarith
  ultimately show ?thesis
    using True opened
    by (simp add: circuit_defs cb_constants circuit_open_error_def left_def mk_exc_def)
next
  case False
  then show ?thesis
    using opened inv by (auto simp: circuit_defs cb_constants cb_inv_def)
qed

theorem breaker_recovery_witness:
  "cb_inv \<lparr>state = OPEN, failure_count = 5, last_failure_at = 10, half_open_success_count = 0\<rparr>
   \<and> (case circuit_check 1 ''c'' 70
        \<lparr>state = OPEN, failure_count = 5, last_failure_at = 10, half_open_success_count = 0\<rparr> of
      Inl _ \<Rightarrow> False
    | Inr probe \<Rightarrow> state (circuit_record_success (circuit_record_success probe)) = CLOSED)"
proof -
  let ?cb = "\<lparr>state = OPEN, failure_count = 5, last_failure_at = 10, half_open_success_count = 0\<rparr>"
  have inv: "cb_inv ?cb" by (simp add: cb_inv_def cb_constants)
  show ?thesis
    using inv breaker_recovery [OF inv, where c = 1 and i = "''c''" and now = 70 and later = 80]
    by (simp add: circuit_check_def cb_constants)
qed

end
