(* ===== verification/EjarAuth.thy ===== *)
theory EjarAuth
  imports EjarErrors
begin

text \<open>
  \<^verbatim>\<open>services/auth_service.py\<close>: the credential bundle and its checks, the process-wide
  time-to-live cache, and the resolution of a company's credentials from its three sources. The
  encrypted token model \<^verbatim>\<open>propza.ejar.api.token\<close> is not part of the repository and
  the parameter store is Odoo's, so both are arguments: what a search of the former yields and
  the \<open>get_param\<close> of the latter.
\<close>

section \<open>Credentials\<close>

definition ENV_UAT :: string where "ENV_UAT = ''uat''"
definition ENV_PRODUCTION :: string where "ENV_PRODUCTION = ''production''"

definition VALID_ENVIRONMENTS :: "string list" where
  "VALID_ENVIRONMENTS = [ENV_UAT, ENV_PRODUCTION]"

lemmas env_defs = ENV_UAT_def ENV_PRODUCTION_def VALID_ENVIRONMENTS_def

record credentials =
  api_key :: string
  api_secret :: string
  cred_company_id :: int
  environment :: string

definition config_error :: "int \<Rightarrow> message \<Rightarrow> ejar_exc" where
  "config_error company_id m = (mk_exc EjarConfigurationError m)\<lparr>exc_company := Some company_id\<rparr>"

text \<open>The dataclass constructor with its \<open>__post_init__\<close> checks.\<close>

definition mk_credentials :: "string \<Rightarrow> string \<Rightarrow> int \<Rightarrow> string \<Rightarrow> ejar_exc + credentials" where
  "mk_credentials key secret company_id env =
     (if key = [] then Inl (config_error company_id (Text ''api_key is empty''))
      else if secret = [] then Inl (config_error company_id (Text ''api_secret is empty''))
      else if env \<notin> set VALID_ENVIRONMENTS then Inl (config_error company_id (UnknownEnvironment env))
      else Inr \<lparr>api_key = key, api_secret = secret, cred_company_id = company_id, environment = env\<rparr>)"

definition to_auth_header :: "credentials \<Rightarrow> string" where
  "to_auth_header c = ''Basic '' @ b64encode (utf8_encode (api_key c @ '':'' @ api_secret c))"

text \<open>The hash is an argument: \<open>sha256_hex bytes\<close> is \<open>hashlib.sha256(bytes).hexdigest()\<close>.\<close>

definition fingerprint :: "(nat list \<Rightarrow> string) \<Rightarrow> credentials \<Rightarrow> string" where
  "fingerprint sha256_hex c = take 12 (sha256_hex (utf8_encode (api_key c)))"

section \<open>The cache\<close>

record cache_entry =
  entry_credentials :: credentials
  expires_at :: rat

type_synonym cred_cache = "int \<rightharpoonup> cache_entry"

definition TTL_SECONDS :: rat where "TTL_SECONDS = 300"

definition cache_get :: "rat \<Rightarrow> int \<Rightarrow> cred_cache \<Rightarrow> credentials option \<times> cred_cache" where
  "cache_get now company_id store =
     (case store company_id of
        None \<Rightarrow> (None, store)
      | Some entry \<Rightarrow>
          if now \<ge> expires_at entry then (None, store(company_id := None))
          else (Some (entry_credentials entry), store))"

definition cache_set :: "rat \<Rightarrow> credentials \<Rightarrow> cred_cache \<Rightarrow> cred_cache" where
  "cache_set now creds store =
     store(cred_company_id creds \<mapsto>
       \<lparr>entry_credentials = creds, expires_at = now + TTL_SECONDS\<rparr>)"

definition cache_invalidate :: "int \<Rightarrow> cred_cache \<Rightarrow> cred_cache" where
  "cache_invalidate company_id store = store(company_id := None)"

definition cache_clear :: "cred_cache \<Rightarrow> cred_cache" where
  "cache_clear store = Map.empty"

section \<open>Resolution\<close>

record token =
  tok_expires_at :: "datetime option"
  tok_api_key :: string
  tok_api_secret :: string
  tok_environment :: string

datatype token_search =
    NoTokenModel
  | SearchFails
  | NoToken
  | Found token

type_synonym token_source = "int \<Rightarrow> token_search"

text \<open>\<open>get_param key default\<close>; reading the store may also fail as a whole.\<close>

type_synonym config_params = "(string \<Rightarrow> string \<Rightarrow> string) option"

definition from_token_model ::
  "datetime \<Rightarrow> token_source \<Rightarrow> int \<Rightarrow> ejar_exc + credentials option" where
  "from_token_model now tokens company_id =
     (case tokens company_id of
        NoTokenModel \<Rightarrow> Inr None
      | SearchFails \<Rightarrow> Inr None
      | NoToken \<Rightarrow> Inr None
      | Found tok \<Rightarrow>
          (if (case tok_expires_at tok of None \<Rightarrow> False | Some t \<Rightarrow> t < now)
           then Inl ((mk_exc EjarTokenExpiredError (TokenExpiredFor company_id))
                  \<lparr>exc_company := Some company_id\<rparr>)
           else
             (let env = (if tok_environment tok = [] then ENV_UAT else tok_environment tok) in
              if tok_api_key tok = [] \<or> tok_api_secret tok = [] then Inr None
              else (case mk_credentials (tok_api_key tok) (tok_api_secret tok) company_id env of
                      Inl e \<Rightarrow> Inl e | Inr c \<Rightarrow> Inr (Some c)))))"

definition key_param :: "int option \<Rightarrow> string \<Rightarrow> string" where
  "key_param scope base = (case scope of None \<Rightarrow> base | Some c \<Rightarrow> base @ ''.company_'' @ str_int c)"

text \<open>
  Company-scoped or global parameters. An unknown environment falls back to UAT; any failure while
  reading, the constructor's included, counts as not configured.
\<close>

definition from_config_params :: "config_params \<Rightarrow> int \<Rightarrow> bool \<Rightarrow> credentials option" where
  "from_config_params params company_id scoped =
     (case params of
        None \<Rightarrow> None
      | Some get_param \<Rightarrow>
          (let scope = (if scoped then Some company_id else None);
               key = get_param (key_param scope ''ejar.api.key'') '''';
               secret = get_param (key_param scope ''ejar.api.secret'') '''';
               env = get_param (key_param scope ''ejar.api.environment'') ENV_UAT
           in if key = [] \<or> secret = [] then None
              else
                (let env' = (if env \<in> set VALID_ENVIRONMENTS then env else ENV_UAT) in
                 case mk_credentials key secret company_id env' of
                   Inl _ \<Rightarrow> None | Inr c \<Rightarrow> Some c)))"

definition resolve_credentials ::
  "datetime \<Rightarrow> token_source \<Rightarrow> config_params \<Rightarrow> int \<Rightarrow> ejar_exc + credentials" where
  "resolve_credentials now tokens params company_id =
     (case from_token_model now tokens company_id of
        Inl e \<Rightarrow> Inl e
      | Inr (Some c) \<Rightarrow> Inr c
      | Inr None \<Rightarrow>
          (case from_config_params params company_id True of
             Some c \<Rightarrow> Inr c
           | None \<Rightarrow>
               (case from_config_params params company_id False of
                  Some c \<Rightarrow> Inr c
                | None \<Rightarrow> Inl (config_error company_id (NoCredentials company_id)))))"

text \<open>
  \<open>get_credentials\<close> as a client of the cache operations: a hit is returned as it is, a miss is
  resolved and stored. The two clock readings are the lookup's and the store's.
\<close>

definition fetch_through ::
  "(rat \<Rightarrow> int \<Rightarrow> 's \<Rightarrow> 'c option \<times> 's) \<Rightarrow> (rat \<Rightarrow> 'c \<Rightarrow> 's \<Rightarrow> 's)
   \<Rightarrow> rat \<Rightarrow> rat \<Rightarrow> (int \<Rightarrow> 'e + 'c) \<Rightarrow> int \<Rightarrow> 's \<Rightarrow> ('e + 'c) \<times> 's" where
  "fetch_through get put t_get t_set resolve company_id s =
     (case get t_get company_id s of
        (Some c, s') \<Rightarrow> (Inr c, s')
      | (None, s') \<Rightarrow>
          (case resolve company_id of
             Inl e \<Rightarrow> (Inl e, s')
           | Inr c \<Rightarrow> (Inr c, put t_set c s')))"

definition get_credentials ::
  "datetime \<Rightarrow> token_source \<Rightarrow> config_params \<Rightarrow> rat \<Rightarrow> rat \<Rightarrow> int \<Rightarrow> cred_cache
   \<Rightarrow> (ejar_exc + credentials) \<times> cred_cache" where
  "get_credentials now tokens params t_get t_set company_id =
     fetch_through cache_get cache_set t_get t_set (resolve_credentials now tokens params) company_id"

definition get_environment :: "config_params \<Rightarrow> rat \<Rightarrow> int \<Rightarrow> cred_cache \<Rightarrow> string \<times> cred_cache" where
  "get_environment params now company_id store =
     (case cache_get now company_id store of
        (Some c, store') \<Rightarrow> (environment c, store')
      | (None, store') \<Rightarrow>
          (case params of
             None \<Rightarrow> (ENV_UAT, store')
           | Some get_param \<Rightarrow>
               (let env = get_param (key_param (Some company_id) ''ejar.api.environment'')
                            (get_param ''ejar.api.environment'' ENV_UAT)
                in (if env \<in> set VALID_ENVIRONMENTS then env else ENV_UAT, store'))))"

section \<open>The cache interface\<close>

text \<open>
  What a client may rely on, whatever the store: a stored item is found under its own key until its
  time to live has passed, keys do not disturb each other, a lookup changes no later answer, and
  an invalidated key is gone.
\<close>

locale ttl_cache =
  fixes get :: "rat \<Rightarrow> int \<Rightarrow> 's \<Rightarrow> 'c option \<times> 's"
    and put :: "rat \<Rightarrow> 'c \<Rightarrow> 's \<Rightarrow> 's"
    and invalidate :: "int \<Rightarrow> 's \<Rightarrow> 's"
    and key :: "'c \<Rightarrow> int"
    and ttl :: rat
  assumes get_put_same: "fst (get now (key c) (put t c s)) = (if now < t + ttl then Some c else None)"
    and get_put_other: "k \<noteq> key c \<Longrightarrow> fst (get now k (put t c s)) = fst (get now k s)"
    and get_get_other: "k \<noteq> k' \<Longrightarrow> fst (get now k (snd (get t k' s))) = fst (get now k s)"
    and get_get_same: "t \<le> now \<Longrightarrow> fst (get now k (snd (get t k s))) = fst (get now k s)"
    and get_invalidate_same: "fst (get now k (invalidate k s)) = None"
    and get_invalidate_other: "k \<noteq> k' \<Longrightarrow> fst (get now k (invalidate k' s)) = fst (get now k s)"
begin

lemma fetch_hit:
  "fst (get t k s) = Some c \<Longrightarrow> fst (fetch_through get put t t' resolve k s) = Inr c"
  by (auto simp: fetch_through_def split: prod.splits)

lemma fetch_miss:
  "fst (get t k s) = None \<Longrightarrow> fst (fetch_through get put t t' resolve k s) = resolve k"
  by (auto simp: fetch_through_def split: prod.splits sum.splits)

text \<open>Within the time to live the first answer is repeated, whatever the sources say by then.\<close>

lemma fetch_stable:
  assumes miss: "fst (get t k s) = None" and got: "resolve k = Inr c" and key: "key c = k"
    and "now < t' + ttl"
  shows "fst (fetch_through get put now now' resolve' k
           (snd (fetch_through get put t t' resolve k s))) = Inr c"
proof -
  obtain s' where "get t k s = (None, s')" using miss by (cases "get t k s") auto
  then have "snd (fetch_through get put t t' resolve k s) = put t' c s'"
    by (simp add: fetch_through_def got)
  moreover have "fst (get now k (put t' c s')) = Some c"
    using get_put_same [of now c t' s'] key assms(4) by simp
  ultimately show ?thesis by (simp add: fetch_hit)
qed

text \<open>A fetch for one key leaves the answer for another key as it was.\<close>

lemma fetch_isolated:
  assumes other: "k \<noteq> k'" and keyed: "\<And>c. resolve k' = Inr c \<Longrightarrow> key c = k'"
  shows "fst (get now k (snd (fetch_through get put t t' resolve k' s))) = fst (get now k s)"
proof -
  obtain r s' where g: "get t k' s = (r, s')" by (cases "get t k' s")
  then have "fst (get now k s') = fst (get now k s)"
    using get_get_other [OF other, of now t s] by simp
  then show ?thesis
    using g other keyed
    by (auto simp: fetch_through_def get_put_other split: option.splits sum.splits)
qed

lemma fetch_after_invalidate:
  "fst (fetch_through get put t t' resolve k (invalidate k s)) = resolve k"
  by (simp add: fetch_miss get_invalidate_same)

end

interpretation cc: ttl_cache cache_get cache_set cache_invalidate cred_company_id TTL_SECONDS
  by unfold_locales
    (auto simp: cache_get_def cache_set_def cache_invalidate_def split: option.splits)

section \<open>Lemmas\<close>

lemma mk_credentials_Inr:
  "mk_credentials k s i e = Inr c \<longleftrightarrow>
     k \<noteq> [] \<and> s \<noteq> [] \<and> e \<in> set VALID_ENVIRONMENTS
     \<and> c = \<lparr>api_key = k, api_secret = s, cred_company_id = i, environment = e\<rparr>"
  by (auto simp: mk_credentials_def)

definition credentials_ok :: "int \<Rightarrow> credentials \<Rightarrow> bool" where
  "credentials_ok company_id c \<longleftrightarrow> cred_company_id c = company_id \<and> api_key c \<noteq> [] \<and> api_secret c \<noteq> []
     \<and> environment c \<in> set VALID_ENVIRONMENTS"

lemma mk_credentials_ok: "mk_credentials k s i e = Inr c \<Longrightarrow> credentials_ok i c"
  by (auto simp: mk_credentials_Inr credentials_ok_def)

lemma token_credentials_ok: "from_token_model now tokens i = Inr (Some c) \<Longrightarrow> credentials_ok i c"
  by (auto simp: from_token_model_def Let_def mk_credentials_ok split: token_search.splits if_splits sum.splits)

lemma config_credentials_ok: "from_config_params params i b = Some c \<Longrightarrow> credentials_ok i c"
  by (auto simp: from_config_params_def Let_def mk_credentials_ok split: option.splits if_splits sum.splits)

lemma resolve_ok: "resolve_credentials now tokens params i = Inr c \<Longrightarrow> credentials_ok i c"
  by (auto simp: resolve_credentials_def token_credentials_ok config_credentials_ok
      split: sum.splits option.splits)

lemma key_param_company_inject:
  "key_param (Some a) x = key_param (Some b) x \<longleftrightarrow> a = b"
  by (simp add: key_param_def)

definition cache_ok :: "cred_cache \<Rightarrow> bool" where
  "cache_ok store \<longleftrightarrow> (\<forall>i entry. store i = Some entry \<longrightarrow> credentials_ok i (entry_credentials entry))"

lemma cache_ok_get: "cache_ok store \<Longrightarrow> cache_ok (snd (cache_get now i store))"
  by (auto simp: cache_ok_def cache_get_def split: option.splits)

lemma cache_ok_set: "cache_ok store \<Longrightarrow> credentials_ok (cred_company_id c) c \<Longrightarrow> cache_ok (cache_set now c store)"
  by (auto simp: cache_ok_def cache_set_def)

lemma cache_ok_invalidate: "cache_ok store \<Longrightarrow> cache_ok (cache_invalidate i store)"
  by (auto simp: cache_ok_def cache_invalidate_def)

lemma cache_ok_hit: "cache_ok store \<Longrightarrow> fst (cache_get now i store) = Some c \<Longrightarrow> credentials_ok i c"
  by (auto simp: cache_ok_def cache_get_def split: option.splits if_splits)

lemma credentials_ok_company: "credentials_ok i c \<Longrightarrow> cred_company_id c = i"
  by (simp add: credentials_ok_def)

lemma split_at_colon:
  "\<lbrakk>CHR '':'' \<notin> set xs; CHR '':'' \<notin> set xs'; xs @ '':'' @ ys = xs' @ '':'' @ ys'\<rbrakk> \<Longrightarrow> xs = xs' \<and> ys = ys'"
proof (induction xs arbitrary: xs')
  case Nil
  then show ?case by (cases xs') auto
next
  case (Cons x xs)
  then show ?case by (cases xs') auto
qed

lemma get_credentials_ok:
  assumes "cache_ok store"
    and "get_credentials now tokens params t_get t_set company_id store = (r, store')"
  shows "cache_ok store' \<and> (case r of Inr c \<Rightarrow> credentials_ok company_id c | Inl e \<Rightarrow> True)"
proof -
  obtain hit s where g: "cache_get t_get company_id store = (hit, s)"
    by (cases "cache_get t_get company_id store")
  have s: "cache_ok s" using cache_ok_get [OF assms(1), of t_get company_id] g by simp
  show ?thesis
  proof (cases hit)
    case (Some c)
    then show ?thesis
      using assms(2) g s cache_ok_hit [OF assms(1), of t_get company_id c]
      by (auto simp: get_credentials_def fetch_through_def)
  next
    case None
    then show ?thesis
      using assms(2) g s resolve_ok [of now tokens params company_id] cache_ok_set [OF s]
      by (auto simp: get_credentials_def fetch_through_def credentials_ok_def split: sum.splits)
  qed
qed

lemma get_credentials_others:
  assumes "get_credentials now tokens params t1 t2 company_id store = (r, store')" and "i \<noteq> company_id"
  shows "store' i = store i"
proof -
  obtain hit s where g: "cache_get t1 company_id store = (hit, s)"
    by (cases "cache_get t1 company_id store")
  then have "s i = store i"
    using assms(2) by (auto simp: cache_get_def split: option.splits if_splits)
  then show ?thesis
    using assms g resolve_ok [of now tokens params company_id]
    by (auto simp: get_credentials_def fetch_through_def cache_set_def
        dest!: credentials_ok_company split: option.splits sum.splits)
qed

section \<open>Properties\<close>

text \<open>
  Credentials never cross companies: from a cache that holds each company's
  credentials under its own id, \<open>get_credentials\<close> answers with credentials of the company asked
  for, complete and for a known environment, and leaves such a cache behind.
\<close>

theorem get_credentials_own_company:
  assumes "cache_ok store"
    and "get_credentials now tokens params t_get t_set company_id store = (r, store')"
  shows "cache_ok store' \<and> (case r of Inr c \<Rightarrow> credentials_ok company_id c | Inl e \<Rightarrow> True)"
  using assms by (rule get_credentials_ok)

theorem get_credentials_own_company_witness:
  "cache_ok Map.empty
   \<and> get_credentials 0 (\<lambda>_. NoTokenModel) (Some (\<lambda>k d. if k = ''ejar.api.environment'' then d else ''x'')) 0 0 7 Map.empty
       = (Inr \<lparr>api_key = ''x'', api_secret = ''x'', cred_company_id = 7, environment = ''uat''\<rparr>,
          [7 \<mapsto> \<lparr>entry_credentials = \<lparr>api_key = ''x'', api_secret = ''x'', cred_company_id = 7,
              environment = ''uat''\<rparr>, expires_at = 300\<rparr>])
   \<and> credentials_ok 7 \<lparr>api_key = ''x'', api_secret = ''x'', cred_company_id = 7, environment = ''uat''\<rparr>"
proof -
  let ?p = "Some (\<lambda>k d. if k = ''ejar.api.environment'' then d else ''x'')"
  have e: "cache_ok Map.empty" by (simp add: cache_ok_def)
  have g: "get_credentials 0 (\<lambda>_. NoTokenModel) ?p 0 0 7 Map.empty
       = (Inr \<lparr>api_key = ''x'', api_secret = ''x'', cred_company_id = 7, environment = ''uat''\<rparr>,
          [7 \<mapsto> \<lparr>entry_credentials = \<lparr>api_key = ''x'', api_secret = ''x'', cred_company_id = 7,
              environment = ''uat''\<rparr>, expires_at = 300\<rparr>])"
    by (simp add: get_credentials_def fetch_through_def cache_get_def cache_set_def TTL_SECONDS_def
        resolve_credentials_def from_token_model_def from_config_params_def key_param_def
        mk_credentials_def env_defs Let_def)
  show ?thesis using e g get_credentials_own_company [OF e g] by simp
qed

text \<open>
  Credentials are stable for the cache's time to live: once a company's credentials
  were resolved at a miss and stored at \<open>t_set\<close>, every request before \<open>t_set + 300\<close> gets the
  same ones, whatever tokens and parameters have become; after an invalidation the next request
  resolves anew.
\<close>

theorem get_credentials_cached:
  assumes "fst (cache_get t_get company_id store) = None"
    and "resolve_credentials now tokens params company_id = Inr c"
    and "later < t_set + 300"
    and "snd (get_credentials now tokens params t_get t_set company_id store) = store'"
  shows "fst (get_credentials now' tokens' params' later later' company_id store') = Inr c
    \<and> fst (get_credentials now' tokens' params' later later' company_id
             (cache_invalidate company_id store'))
        = resolve_credentials now' tokens' params' company_id"
proof -
  have key: "cred_company_id c = company_id"
    using resolve_ok [OF assms(2)] by (rule credentials_ok_company)
  have "fst (get_credentials now' tokens' params' later later' company_id store') = Inr c"
    using cc.fetch_stable [where resolve = "resolve_credentials now tokens params"
        and t' = t_set, OF assms(1,2) key] assms(3,4)
    by (auto simp: get_credentials_def TTL_SECONDS_def)
  then show ?thesis
    by (simp add: get_credentials_def cc.fetch_after_invalidate)
qed

theorem get_credentials_cached_witness:
  "fst (get_credentials 0 (\<lambda>_. NoTokenModel) None 200 200 7
      (snd (get_credentials 0 (\<lambda>_. Found \<lparr>tok_expires_at = None, tok_api_key = ''k'',
         tok_api_secret = ''s'', tok_environment = ''''\<rparr>) None 0 0 7 Map.empty)))
    = Inr \<lparr>api_key = ''k'', api_secret = ''s'', cred_company_id = 7, environment = ''uat''\<rparr>"
proof -
  let ?t = "\<lambda>_::int. Found \<lparr>tok_expires_at = None, tok_api_key = ''k'', tok_api_secret = ''s'',
      tok_environment = ''''\<rparr>"
  have a: "fst (cache_get 0 7 Map.empty) = None" by (simp add: cache_get_def)
  have b: "resolve_credentials 0 ?t None 7
      = Inr \<lparr>api_key = ''k'', api_secret = ''s'', cred_company_id = 7, environment = ''uat''\<rparr>"
    by (simp add: resolve_credentials_def from_token_model_def mk_credentials_def env_defs)
  have c: "(200::rat) < 0 + 300" by simp
  show ?thesis using get_credentials_cached [OF a b c refl] by blast
qed

definition param_names :: "string list" where
  "param_names = [''ejar.api.key'', ''ejar.api.secret'', ''ejar.api.environment'']"

definition override_scoped ::
  "int \<Rightarrow> (string \<Rightarrow> string \<Rightarrow> string) \<Rightarrow> (string \<Rightarrow> string \<Rightarrow> string) \<Rightarrow> string \<Rightarrow> string \<Rightarrow> string" where
  "override_scoped b f get_param k d =
     (if k \<in> set (map (key_param (Some b)) param_names) then f k d else get_param k d)"

lemma override_other:
  assumes "a \<noteq> b" and "x \<in> set param_names" and "scope = None \<or> scope = Some a"
  shows "override_scoped b f get_param (key_param scope x) d = get_param (key_param scope x) d"
  using assms by (auto simp: override_scoped_def param_names_def key_param_def)

text \<open>
  One company's parameters never influence another: whatever the company-scoped
  parameters of company \<open>b\<close> are set to, the credentials resolved for \<open>a\<close> stay the same.
\<close>

theorem scoped_params_isolated:
  assumes "a \<noteq> b"
  shows "resolve_credentials now tokens (Some (override_scoped b f get_param)) a
    = resolve_credentials now tokens (Some get_param) a"
proof -
  have "from_config_params (Some (override_scoped b f get_param)) a scoped
      = from_config_params (Some get_param) a scoped" for scoped
    using override_other [OF assms]
    by (simp add: from_config_params_def param_names_def Let_def)
  then show ?thesis by (simp add: resolve_credentials_def split: sum.split option.split)
qed

theorem scoped_params_isolated_witness:
  "(1::int) \<noteq> 12
   \<and> resolve_credentials 0 (\<lambda>_. NoToken) (Some (override_scoped 12 (\<lambda>k d. ''other'') (\<lambda>k d. ''mine''))) 1
     = Inr \<lparr>api_key = ''mine'', api_secret = ''mine'', cred_company_id = 1, environment = ''uat''\<rparr>"
proof -
  have ne: "(1::int) \<noteq> 12" by simp
  have "resolve_credentials 0 (\<lambda>_. NoToken) (Some (\<lambda>k d. ''mine'')) 1
     = Inr \<lparr>api_key = ''mine'', api_secret = ''mine'', cred_company_id = 1, environment = ''uat''\<rparr>"
    by (simp add: resolve_credentials_def from_token_model_def from_config_params_def key_param_def
        mk_credentials_def env_defs Let_def)
  then show ?thesis using ne scoped_params_isolated [OF ne] by simp
qed

text \<open>
  The Basic header identifies the credentials: for keys without a colon, two
  credentials send the same \<open>Authorization\<close> value only when key and secret are the same.
\<close>

theorem auth_header_identifies:
  assumes "CHR '':'' \<notin> set (api_key c)" and "CHR '':'' \<notin> set (api_key d)"
  shows "to_auth_header c = to_auth_header d \<longleftrightarrow> api_key c = api_key d \<and> api_secret c = api_secret d"
  using split_at_colon [OF assms] by (auto simp: to_auth_header_def)

theorem auth_header_identifies_witness:
  "to_auth_header \<lparr>api_key = ''ab'', api_secret = ''c'', cred_company_id = 1, environment = ''uat''\<rparr>
   \<noteq> to_auth_header \<lparr>api_key = ''a'', api_secret = ''bc'', cred_company_id = 1, environment = ''uat''\<rparr>"
  using auth_header_identifies
    [of "\<lparr>api_key = ''ab'', api_secret = ''c'', cred_company_id = 1, environment = ''uat''\<rparr>"
        "\<lparr>api_key = ''a'', api_secret = ''bc'', cred_company_id = 1, environment = ''uat''\<rparr>"]
  by simp

end
