(* ===== verification/EjarClient.thy ===== *)
theory EjarClient
  imports EjarAuth EjarCircuit
begin

text \<open>
  The HTTP gateway \<^verbatim>\<open>services/ejar_client.py\<close>: the request dispatcher with the
  circuit breaker and the credential cache around it, and one definition per ECRS endpoint. The
  network is an argument: \<open>send\<close> takes the state of the outside world and a request and gives what
  the \<^verbatim>\<open>requests\<close> session does with it (its own retries included), the monotonic time
  this takes, and the new state of the world.
\<close>

section \<open>Requests and outcomes\<close>

datatype http_method = GET | POST | PATCH | DELETE

text \<open>
  A request carries the session's \<open>Authorization\<close> and \<open>Content-Type\<close> headers: the session merges its
  own headers into those of the call, so that a multipart upload, whose call leaves the content type
  out, is sent with the session's JSON content type all the same. A multipart part: form name, optional file name, content, optional content type.\<close>

type_synonym file_part = "string \<times> string option \<times> nat list \<times> string option"

record http_request =
  rq_method :: http_method
  rq_url :: string
  rq_authorization :: string
  rq_content_type :: "string option"
  rq_correlation :: string
  rq_idempotency :: "string option"
  rq_params :: "(string \<times> json) list option"
  rq_json :: "json option"
  rq_files :: "file_part list"
  rq_timeout :: "int \<times> int"

datatype http_outcome =
    TimeoutRaised
  | ConnectionErrorRaised
  | RequestExceptionRaised
  | Response int "json option" string "nat list"

type_synonym 'w transport = "'w \<Rightarrow> http_request \<Rightarrow> http_outcome \<times> rat \<times> 'w"

text \<open>The process-wide state a request works on, next to the world beyond the network.\<close>

record 'w sys =
  circuits :: circuits
  cred_store :: cred_cache
  clock :: rat
  world :: 'w

record client =
  cl_company :: int
  cl_credentials :: credentials
  cl_environment :: string
  cl_base_url :: string

text \<open>Library functions the client calls: the hash, and \<open>str\<close> of values other than strings.\<close>

record pylib =
  sha256_hex :: "nat list \<Rightarrow> string"
  str_other :: "json \<Rightarrow> string"

definition str_json :: "pylib \<Rightarrow> json \<Rightarrow> string" where
  "str_json L j = (case j of JStr s \<Rightarrow> s | _ \<Rightarrow> str_other L j)"

definition CONNECT_TIMEOUT :: int where "CONNECT_TIMEOUT = 10"
definition READ_TIMEOUT :: int where "READ_TIMEOUT = 45"
definition UPLOAD_READ_TIMEOUT :: int where "UPLOAD_READ_TIMEOUT = 120"

definition DEFAULT_TIMEOUT :: "int \<times> int" where
  "DEFAULT_TIMEOUT = (CONNECT_TIMEOUT, READ_TIMEOUT)"

definition UPLOAD_TIMEOUT :: "int \<times> int" where
  "UPLOAD_TIMEOUT = (CONNECT_TIMEOUT, UPLOAD_READ_TIMEOUT)"

definition CONTENT_TYPE_JSON :: string where
  "CONTENT_TYPE_JSON = ''application/json; charset=utf-8''"

definition base_url :: "string \<Rightarrow> string" where
  "base_url env =
     (if env = ENV_UAT then ''https://uat-ejar3.housingapps.sa/api/v1/ecrs''
      else ''https://ejar3.housingapps.sa/api/v1/ecrs'')"

section \<open>Construction\<close>

record cred_sources =
  src_now :: datetime
  src_tokens :: token_source
  src_params :: config_params

definition new_client :: "cred_sources \<Rightarrow> int \<Rightarrow> string \<Rightarrow> ('w sys, exn, client) opn" where
  "new_client src company_id env_override s =
     (case get_credentials (src_now src) (src_tokens src) (src_params src) (clock s) (clock s)
             company_id (cred_store s) of
        (Inl e, store) \<Rightarrow> (Inl (Ejar e), s\<lparr>cred_store := store\<rparr>)
      | (Inr creds, store) \<Rightarrow>
          (let s' = s\<lparr>cred_store := store\<rparr>;
               env = (if env_override = [] then environment creds else env_override)
           in if env \<notin> set VALID_ENVIRONMENTS
              then (Inl (Ejar (config_error company_id (UnknownEnvironment env))), s')
              else (Inr \<lparr>cl_company = company_id, cl_credentials = creds, cl_environment = env,
                         cl_base_url = base_url env\<rparr>,
                    s'\<lparr>circuits := snd (get_circuit (circuits s') company_id)\<rparr>)))"

definition build_idempotency_key :: "pylib \<Rightarrow> string list \<Rightarrow> string" where
  "build_idempotency_key L parts = sha256_hex L (utf8_encode (join_with '':'' parts))"

section \<open>The request dispatcher\<close>

definition company_circuit :: "client \<Rightarrow> 'w sys \<Rightarrow> circuit" where
  "company_circuit cl s = fst (get_circuit (circuits s) (cl_company cl))"

definition put_circuit :: "client \<Rightarrow> circuit \<Rightarrow> 'w sys \<Rightarrow> 'w sys" where
  "put_circuit cl cb s = s\<lparr>circuits := (circuits s)(cl_company cl \<mapsto> cb)\<rparr>"

definition record_success :: "client \<Rightarrow> 'w sys \<Rightarrow> 'w sys" where
  "record_success cl s = put_circuit cl (circuit_record_success (company_circuit cl s)) s"

definition record_failure :: "client \<Rightarrow> 'w sys \<Rightarrow> 'w sys" where
  "record_failure cl s = put_circuit cl (circuit_record_failure (clock s) (company_circuit cl s)) s"

definition network_exc :: "ejar_class \<Rightarrow> message \<Rightarrow> client \<Rightarrow> string \<Rightarrow> string \<Rightarrow> ejar_exc" where
  "network_exc c m cl cid ep = (mk_exc c m)\<lparr>exc_correlation := Some cid,
     exc_company := Some (cl_company cl), exc_endpoint := Some ep\<rparr>"

fun method_name :: "http_method \<Rightarrow> string" where
  "method_name GET = ''GET''"
| "method_name POST = ''POST''"
| "method_name PATCH = ''PATCH''"
| "method_name DELETE = ''DELETE''"

text \<open>
  The outcome of the exchange. A body that is not JSON is wrapped as \<open>{"_raw": text}\<close>; server,
  rate-limit and network errors count against the breaker, an authentication error drops the
  cached credentials, every other error touches neither, and only a 2xx counts as success.
\<close>

definition handle_response ::
  "client \<Rightarrow> http_method \<Rightarrow> string \<Rightarrow> string \<Rightarrow> http_outcome \<Rightarrow> ('w sys, exn, json) opn" where
  "handle_response cl method ep cid out s =
     (case out of
        TimeoutRaised \<Rightarrow>
          (Inl (Ejar (network_exc EjarTimeoutError (TimedOut (method_name method) ep) cl cid ep)),
           record_failure cl s)
      | ConnectionErrorRaised \<Rightarrow>
          (Inl (Ejar (network_exc EjarNetworkError (ConnectionFailed (method_name method) ep) cl cid ep)),
           record_failure cl s)
      | RequestExceptionRaised \<Rightarrow>
          (Inl (Ejar (network_exc EjarNetworkError (RequestFailed (method_name method) ep) cl cid ep)),
           record_failure cl s)
      | Response status parsed txt _ \<Rightarrow>
          (let body = (case parsed of Some j \<Rightarrow> j | None \<Rightarrow> JObj [(''_raw'', JStr txt)]) in
           case raise_for_ejar_status status body
                  \<lparr>hc_correlation = cid, hc_company = cl_company cl, hc_endpoint = ep\<rparr> of
             Inr _ \<Rightarrow> (Inr body, record_success cl s)
           | Inl (Ejar e) \<Rightarrow>
               (if isinstance (exc_class e) [EjarServerError, EjarRateLimitError, EjarNetworkError]
                then (Inl (Ejar e), record_failure cl s)
                else if isinstance (exc_class e) [EjarAuthError]
                then (Inl (Ejar e), s\<lparr>cred_store := cache_invalidate (cl_company cl) (cred_store s)\<rparr>)
                else (Inl (Ejar e), s))
           | Inl err \<Rightarrow> (Inl err, s)))"

definition check_circuit :: "client \<Rightarrow> string \<Rightarrow> ('w sys, exn, unit) opn" where
  "check_circuit cl cid s =
     (case circuit_check (cl_company cl) cid (clock s) (company_circuit cl s) of
        Inl e \<Rightarrow> (Inl (Ejar e), s)
      | Inr cb \<Rightarrow> (Inr (), put_circuit cl cb s))"

definition exchange :: "'w transport \<Rightarrow> http_request \<Rightarrow> ('w sys, exn, http_outcome) opn" where
  "exchange send rq s =
     (case send (world s) rq of
        (out, dt, w) \<Rightarrow> (Inr out, s\<lparr>world := w, clock := clock s + dt\<rparr>))"

text \<open>The request as it is handed to the session: an empty idempotency key is not sent.\<close>

definition request_of ::
  "client \<Rightarrow> http_method \<Rightarrow> string \<Rightarrow> string \<Rightarrow> string option \<Rightarrow> (string \<times> json) list option
   \<Rightarrow> json option \<Rightarrow> file_part list \<Rightarrow> (int \<times> int) option \<Rightarrow> http_request" where
  "request_of cl method ep cid idem params body files timeout =
     \<lparr>rq_method = method, rq_url = cl_base_url cl @ ep,
      rq_authorization = to_auth_header (cl_credentials cl),
      rq_content_type = Some CONTENT_TYPE_JSON,
      rq_correlation = cid,
      rq_idempotency = (case idem of None \<Rightarrow> None | Some k \<Rightarrow> if k = [] then None else Some k),
      rq_params = params,
      rq_json = (if files = [] then body else None), rq_files = files,
      rq_timeout = (case timeout of None \<Rightarrow> DEFAULT_TIMEOUT | Some t \<Rightarrow> t)\<rparr>"

definition make_request ::
  "'w transport \<Rightarrow> client \<Rightarrow> http_method \<Rightarrow> string \<Rightarrow> string \<Rightarrow> string option
   \<Rightarrow> (string \<times> json) list option \<Rightarrow> json option \<Rightarrow> file_part list \<Rightarrow> (int \<times> int) option
   \<Rightarrow> ('w sys, exn, json) opn" where
  "make_request send cl method ep cid idem params body files timeout =
     andthen (check_circuit cl cid)
       (bind (exchange send (request_of cl method ep cid idem params body files timeout))
        (handle_response cl method ep cid))"

definition api_get ::
  "'w transport \<Rightarrow> client \<Rightarrow> string \<Rightarrow> string \<Rightarrow> (string \<times> json) list option \<Rightarrow> ('w sys, exn, json) opn" where
  "api_get send cl ep cid params = make_request send cl GET ep cid None params None [] None"

definition api_post ::
  "'w transport \<Rightarrow> client \<Rightarrow> string \<Rightarrow> json \<Rightarrow> string \<Rightarrow> string option \<Rightarrow> ('w sys, exn, json) opn" where
  "api_post send cl ep body cid idem = make_request send cl POST ep cid idem None (Some body) [] None"

definition api_patch ::
  "'w transport \<Rightarrow> client \<Rightarrow> string \<Rightarrow> json \<Rightarrow> string \<Rightarrow> string option \<Rightarrow> ('w sys, exn, json) opn" where
  "api_patch send cl ep body cid idem = make_request send cl PATCH ep cid idem None (Some body) [] None"

definition api_delete ::
  "'w transport \<Rightarrow> client \<Rightarrow> string \<Rightarrow> string \<Rightarrow> string option \<Rightarrow> ('w sys, exn, json) opn" where
  "api_delete send cl ep cid idem = make_request send cl DELETE ep cid idem None None [] None"

definition api_upload ::
  "'w transport \<Rightarrow> client \<Rightarrow> string \<Rightarrow> file_part list \<Rightarrow> string \<Rightarrow> string option \<Rightarrow> ('w sys, exn, json) opn" where
  "api_upload send cl ep files cid idem =
     make_request send cl POST ep cid idem None None files (Some UPLOAD_TIMEOUT)"

section \<open>Endpoints\<close>

text \<open>
  Each takes the correlation id already chosen (\<open>correlation_id or str(uuid.uuid4())\<close>).
  \<open>envelope\<close> is the JSON API wrapper of a resource type and its attributes.
\<close>

definition envelope :: "string \<Rightarrow> (string \<times> json) list \<Rightarrow> json" where
  "envelope ty attrs = JObj [(''data'', JObj [(''type'', JStr ty), (''attributes'', JObj attrs)])]"

definition attr_str :: "pylib \<Rightarrow> (string \<times> json) list \<Rightarrow> string \<Rightarrow> string" where
  "attr_str L attrs k = str_json L (dict_get attrs k (JStr []))"

definition pdf_part :: "string \<Rightarrow> nat list \<Rightarrow> file_part" where
  "pdf_part filename content = (''file'', Some filename, content, Some ''application/pdf'')"

definition contract_ep :: "string \<Rightarrow> string \<Rightarrow> string" where
  "contract_ep contract_id tail = ''/contracts/'' @ contract_id @ tail"

definition create_contract_key :: "pylib \<Rightarrow> client \<Rightarrow> (string \<times> json) list \<Rightarrow> string" where
  "create_contract_key L cl attrs = build_idempotency_key L
     [''create_contract'', str_int (cl_company cl), attr_str L attrs ''contract_start_date'',
      attr_str L attrs ''contract_end_date'', attr_str L attrs ''contract_type'']"

definition create_contract ::
  "pylib \<Rightarrow> 'w transport \<Rightarrow> client \<Rightarrow> (string \<times> json) list \<Rightarrow> string \<Rightarrow> ('w sys, exn, json) opn" where
  "create_contract L send cl attrs cid =
     api_post send cl ''/contracts'' (envelope ''contracts'' attrs) cid
       (Some (create_contract_key L cl attrs))"

definition get_contract :: "'w transport \<Rightarrow> client \<Rightarrow> string \<Rightarrow> string \<Rightarrow> ('w sys, exn, json) opn" where
  "get_contract send cl contract_id cid = api_get send cl (contract_ep contract_id []) cid None"

definition list_contracts ::
  "'w transport \<Rightarrow> client \<Rightarrow> int \<Rightarrow> int \<Rightarrow> (string \<times> json) list \<Rightarrow> string \<Rightarrow> ('w sys, exn, json) opn" where
  "list_contracts send cl page page_size filters cid =
     api_get send cl ''/contracts'' cid
       (Some ([(''page[number]'', JInt page), (''page[size]'', JInt page_size)] @ filters))"

definition get_contract_status ::
  "'w transport \<Rightarrow> client \<Rightarrow> string \<Rightarrow> string \<Rightarrow> string \<Rightarrow> ('w sys, exn, json) opn" where
  "get_contract_status send cl id_number contract_number cid =
     api_get send cl ''/contracts/contract_status'' cid
       (Some ((if id_number = [] then [] else [(''id_number'', JStr id_number)])
            @ (if contract_number = [] then [] else [(''contract_number'', JStr contract_number)])))"

definition submit_contract ::
  "pylib \<Rightarrow> 'w transport \<Rightarrow> client \<Rightarrow> string \<Rightarrow> string \<Rightarrow> ('w sys, exn, json) opn" where
  "submit_contract L send cl contract_id cid =
     api_post send cl (contract_ep contract_id ''/submit'') (JObj []) cid
       (Some (build_idempotency_key L [''submit_contract'', str_int (cl_company cl), contract_id]))"

text \<open>
  The PDF download goes to the session directly: no breaker, and an exception of the HTTP package
  is not translated.
\<close>

definition download_contract_pdf ::
  "'w transport \<Rightarrow> client \<Rightarrow> string \<Rightarrow> string \<Rightarrow> ('w sys, exn, nat list) opn" where
  "download_contract_pdf send cl contract_id cid =
     bind (exchange send
        \<lparr>rq_method = GET, rq_url = cl_base_url cl @ contract_ep contract_id ''/download_pdf'',
         rq_authorization = to_auth_header (cl_credentials cl),
         rq_content_type = Some CONTENT_TYPE_JSON,
         rq_correlation = cid, rq_idempotency = None, rq_params = None, rq_json = None,
         rq_files = [], rq_timeout = UPLOAD_TIMEOUT\<rparr>)
      (\<lambda>out. case out of
         Response status _ _ content \<Rightarrow>
           lift_result (case raise_for_ejar_status status (JObj [])
               \<lparr>hc_correlation = cid, hc_company = cl_company cl,
                hc_endpoint = contract_ep contract_id ''/download_pdf''\<rparr> of
             Inl e \<Rightarrow> Inl e | Inr _ \<Rightarrow> Inr content)
       | _ \<Rightarrow> raise TransportError)"

definition get_contract_invoices ::
  "'w transport \<Rightarrow> client \<Rightarrow> string \<Rightarrow> string \<Rightarrow> ('w sys, exn, json) opn" where
  "get_contract_invoices send cl contract_id cid =
     api_get send cl (contract_ep contract_id ''/invoices'') cid None"

definition attach_unit ::
  "pylib \<Rightarrow> 'w transport \<Rightarrow> client \<Rightarrow> string \<Rightarrow> string \<Rightarrow> string \<Rightarrow> string \<Rightarrow> ('w sys, exn, json) opn" where
  "attach_unit L send cl contract_id property_id unit_id cid =
     api_post send cl (contract_ep contract_id ''/units'')
       (JObj [(''data'', JObj [(''contract_property'', JObj [(''id'', JStr property_id)]),
                              (''contract_units'', JList [JObj [(''id'', JStr unit_id)]])])])
       cid
       (Some (build_idempotency_key L
          [''attach_unit'', str_int (cl_company cl), contract_id, unit_id, property_id]))"

definition remove_unit ::
  "pylib \<Rightarrow> 'w transport \<Rightarrow> client \<Rightarrow> string \<Rightarrow> string \<Rightarrow> string \<Rightarrow> ('w sys, exn, json) opn" where
  "remove_unit L send cl contract_id unit_id cid =
     api_delete send cl (contract_ep contract_id (''/units/'' @ unit_id)) cid
       (Some (build_idempotency_key L
          [''remove_unit'', str_int (cl_company cl), contract_id, unit_id]))"

definition remove_property ::
  "pylib \<Rightarrow> 'w transport \<Rightarrow> client \<Rightarrow> string \<Rightarrow> string \<Rightarrow> string \<Rightarrow> ('w sys, exn, json) opn" where
  "remove_property L send cl contract_id property_id cid =
     make_request send cl DELETE (contract_ep contract_id ''/properties'') cid
       (Some (build_idempotency_key L
          [''remove_property'', str_int (cl_company cl), contract_id, property_id]))
       (if property_id = [] then None else Some [(''property_id'', JStr property_id)])
       None [] None"

definition add_contract_unit_service ::
  "'w transport \<Rightarrow> client \<Rightarrow> string \<Rightarrow> string \<Rightarrow> (string \<times> json) list \<Rightarrow> string \<Rightarrow> ('w sys, exn, json) opn" where
  "add_contract_unit_service send cl contract_id unit_id attrs cid =
     api_post send cl
       (contract_ep contract_id (''/contract_units/'' @ unit_id @ ''/contract_unit_services''))
       (envelope ''contract_unit_services'' attrs) cid None"

text \<open>\<open>attributes.pop(k, default)\<close>\<close>

definition dict_del :: "string \<Rightarrow> (string \<times> 'v) list \<Rightarrow> (string \<times> 'v) list" where
  "dict_del k d = filter (\<lambda>(k', _). k' \<noteq> k) d"

definition add_party ::
  "pylib \<Rightarrow> 'w transport \<Rightarrow> client \<Rightarrow> string \<Rightarrow> (string \<times> json) list \<Rightarrow> string \<Rightarrow> ('w sys, exn, json) opn" where
  "add_party L send cl contract_id attributes cid =
     (let entity_id = dict_get attributes ''_entity_id'' (JStr []);
          entity_type = dict_get attributes ''_entity_type'' (JStr ''individual_entities'');
          attrs = dict_del ''_entity_type'' (dict_del ''_entity_id'' attributes)
      in api_post send cl (contract_ep contract_id ''/parties'')
           (JObj [(''data'', JObj [(''type'', JStr ''contract_parties''), (''attributes'', JObj attrs),
              (''relationships'', JObj [(''entity'', JObj [(''data'',
                 JObj [(''id'', entity_id), (''type'', entity_type)])])])])])
           cid
           (Some (build_idempotency_key L [''add_party'', str_int (cl_company cl), contract_id,
              attr_str L attrs ''role'', str_json L entity_id])))"

definition update_party ::
  "pylib \<Rightarrow> 'w transport \<Rightarrow> client \<Rightarrow> string \<Rightarrow> string \<Rightarrow> (string \<times> json) list \<Rightarrow> string
   \<Rightarrow> ('w sys, exn, json) opn" where
  "update_party L send cl contract_id party_id attrs cid =
     api_patch send cl (contract_ep contract_id (''/parties/'' @ party_id))
       (JObj [(''data'', JObj [(''type'', JStr ''contract_parties''), (''id'', JStr party_id),
          (''attributes'', JObj attrs)])])
       cid
       (Some (build_idempotency_key L
          [''update_party'', str_int (cl_company cl), contract_id, party_id]))"

definition delete_party ::
  "pylib \<Rightarrow> 'w transport \<Rightarrow> client \<Rightarrow> string \<Rightarrow> string \<Rightarrow> string \<Rightarrow> ('w sys, exn, json) opn" where
  "delete_party L send cl contract_id party_id cid =
     api_delete send cl (contract_ep contract_id (''/parties/'' @ party_id)) cid
       (Some (build_idempotency_key L
          [''delete_party'', str_int (cl_company cl), contract_id, party_id]))"

definition content_digest :: "pylib \<Rightarrow> nat list \<Rightarrow> string" where
  "content_digest L content = take 16 (sha256_hex L content)"

definition upload_proxy_document ::
  "pylib \<Rightarrow> 'w transport \<Rightarrow> client \<Rightarrow> string \<Rightarrow> string \<Rightarrow> nat list \<Rightarrow> string \<Rightarrow> string \<Rightarrow> string
   \<Rightarrow> ('w sys, exn, json) opn" where
  "upload_proxy_document L send cl contract_id party_id content filename doc_type cid =
     api_upload send cl (contract_ep contract_id (''/parties/'' @ party_id @ ''/proxy_documents''))
       [pdf_part filename content, (''document_type'', None, utf8_encode doc_type, None)] cid
       (Some (build_idempotency_key L [''upload_proxy_doc'', str_int (cl_company cl), contract_id,
          party_id, content_digest L content]))"

definition delete_proxy_document ::
  "'w transport \<Rightarrow> client \<Rightarrow> string \<Rightarrow> string \<Rightarrow> string \<Rightarrow> string \<Rightarrow> ('w sys, exn, json) opn" where
  "delete_proxy_document send cl contract_id party_id doc_id cid =
     api_delete send cl
       (contract_ep contract_id (''/parties/'' @ party_id @ ''/proxy_documents/'' @ doc_id)) cid None"

definition upload_signed_document ::
  "pylib \<Rightarrow> 'w transport \<Rightarrow> client \<Rightarrow> string \<Rightarrow> nat list \<Rightarrow> string \<Rightarrow> string \<Rightarrow> ('w sys, exn, json) opn" where
  "upload_signed_document L send cl contract_id content filename cid =
     api_upload send cl (contract_ep contract_id ''/signed_documents'') [pdf_part filename content] cid
       (Some (build_idempotency_key L [''upload_signed_doc'', str_int (cl_company cl), contract_id,
          content_digest L content]))"

definition delete_signed_document ::
  "'w transport \<Rightarrow> client \<Rightarrow> string \<Rightarrow> string \<Rightarrow> string \<Rightarrow> ('w sys, exn, json) opn" where
  "delete_signed_document send cl contract_id doc_id cid =
     api_delete send cl (contract_ep contract_id (''/signed_documents/'' @ doc_id)) cid None"

definition add_financial_information ::
  "pylib \<Rightarrow> 'w transport \<Rightarrow> client \<Rightarrow> string \<Rightarrow> (string \<times> json) list \<Rightarrow> string \<Rightarrow> ('w sys, exn, json) opn" where
  "add_financial_information L send cl contract_id attrs cid =
     api_post send cl (contract_ep contract_id ''/financial_information'')
       (envelope ''financial_informations'' attrs) cid
       (Some (build_idempotency_key L
          [''add_financial_info'', str_int (cl_company cl), contract_id]))"

definition add_rental_fee ::
  "pylib \<Rightarrow> 'w transport \<Rightarrow> client \<Rightarrow> string \<Rightarrow> (string \<times> json) list \<Rightarrow> string \<Rightarrow> ('w sys, exn, json) opn" where
  "add_rental_fee L send cl contract_id attrs cid =
     api_post send cl (contract_ep contract_id ''/rental_fee'') (envelope ''rental_fees'' attrs) cid
       (Some (build_idempotency_key L [''add_rental_fee'', str_int (cl_company cl), contract_id]))"

definition add_contract_terms ::
  "'w transport \<Rightarrow> client \<Rightarrow> string \<Rightarrow> (string \<times> json) list \<Rightarrow> string \<Rightarrow> ('w sys, exn, json) opn" where
  "add_contract_terms send cl contract_id attrs cid =
     api_post send cl (contract_ep contract_id ''/contract_terms'')
       (envelope ''contract_terms'' attrs) cid None"

definition add_custom_terms ::
  "'w transport \<Rightarrow> client \<Rightarrow> string \<Rightarrow> (string \<times> json) list \<Rightarrow> string \<Rightarrow> ('w sys, exn, json) opn" where
  "add_custom_terms send cl contract_id attrs cid =
     api_post send cl (contract_ep contract_id ''/custom_terms'')
       (envelope ''custom_terms'' attrs) cid None"

definition create_property ::
  "pylib \<Rightarrow> 'w transport \<Rightarrow> client \<Rightarrow> (string \<times> json) list \<Rightarrow> string \<Rightarrow> ('w sys, exn, json) opn" where
  "create_property L send cl attrs cid =
     api_post send cl ''/properties'' (envelope ''properties'' attrs) cid
       (Some (build_idempotency_key L
          [''create_property'', str_int (cl_company cl), attr_str L attrs ''deed_number'']))"

definition property_ep :: "string \<Rightarrow> string \<Rightarrow> string" where
  "property_ep property_id tail = ''/properties/'' @ property_id @ tail"

definition get_property :: "'w transport \<Rightarrow> client \<Rightarrow> string \<Rightarrow> string \<Rightarrow> ('w sys, exn, json) opn" where
  "get_property send cl property_id cid = api_get send cl (property_ep property_id []) cid None"

definition create_property_unit ::
  "pylib \<Rightarrow> 'w transport \<Rightarrow> client \<Rightarrow> string \<Rightarrow> (string \<times> json) list \<Rightarrow> string \<Rightarrow> ('w sys, exn, json) opn" where
  "create_property_unit L send cl property_id attrs cid =
     api_post send cl (property_ep property_id ''/units'') (envelope ''units'' attrs) cid
       (Some (build_idempotency_key L [''create_property_unit'', str_int (cl_company cl), property_id,
          attr_str L attrs ''unit_number'']))"

definition get_property_unit ::
  "'w transport \<Rightarrow> client \<Rightarrow> string \<Rightarrow> string \<Rightarrow> string \<Rightarrow> ('w sys, exn, json) opn" where
  "get_property_unit send cl property_id unit_id cid =
     api_get send cl (property_ep property_id (''/units/'' @ unit_id)) cid None"

definition upload_ownership_document ::
  "pylib \<Rightarrow> 'w transport \<Rightarrow> client \<Rightarrow> string \<Rightarrow> nat list \<Rightarrow> string \<Rightarrow> (string \<times> json) list \<Rightarrow> string
   \<Rightarrow> ('w sys, exn, json) opn" where
  "upload_ownership_document L send cl property_id content filename attrs cid =
     api_upload send cl (property_ep property_id ''/ownership_documents'')
       (foldl (\<lambda>files (k, v). dict_set k (None, utf8_encode (str_json L v), None) files)
          [pdf_part filename content] attrs)
       cid
       (Some (build_idempotency_key L [''upload_ownership_doc'', str_int (cl_company cl), property_id,
          content_digest L content]))"

definition add_ownership_document_owner ::
  "'w transport \<Rightarrow> client \<Rightarrow> string \<Rightarrow> string \<Rightarrow> (string \<times> json) list \<Rightarrow> string \<Rightarrow> ('w sys, exn, json) opn" where
  "add_ownership_document_owner send cl property_id doc_id attrs cid =
     api_post send cl (property_ep property_id (''/ownership_documents/'' @ doc_id @ ''/owners''))
       (envelope ''owners'' attrs) cid None"

definition upload_ownership_proxy_document ::
  "'w transport \<Rightarrow> client \<Rightarrow> string \<Rightarrow> string \<Rightarrow> nat list \<Rightarrow> string \<Rightarrow> string \<Rightarrow> ('w sys, exn, json) opn" where
  "upload_ownership_proxy_document send cl property_id doc_id content filename cid =
     api_upload send cl
       (property_ep property_id (''/ownership_documents/'' @ doc_id @ ''/proxy_documents''))
       [pdf_part filename content] cid None"

definition create_individual_entity ::
  "pylib \<Rightarrow> 'w transport \<Rightarrow> client \<Rightarrow> (string \<times> json) list \<Rightarrow> string \<Rightarrow> ('w sys, exn, json) opn" where
  "create_individual_entity L send cl attrs cid =
     api_post send cl ''/individual_entities'' (envelope ''individual_entities'' attrs) cid
       (Some (build_idempotency_key L [''create_individual_entity'', str_int (cl_company cl),
          attr_str L attrs ''id_number'', attr_str L attrs ''id_type'']))"

definition get_individual_entity ::
  "'w transport \<Rightarrow> client \<Rightarrow> string \<Rightarrow> string \<Rightarrow> ('w sys, exn, json) opn" where
  "get_individual_entity send cl entity_id cid =
     api_get send cl (''/individual_entities/'' @ entity_id) cid None"

definition create_organization_entity ::
  "pylib \<Rightarrow> 'w transport \<Rightarrow> client \<Rightarrow> (string \<times> json) list \<Rightarrow> string \<Rightarrow> ('w sys, exn, json) opn" where
  "create_organization_entity L send cl attrs cid =
     api_post send cl ''/organization_entities'' (envelope ''organization_entities'' attrs) cid
       (Some (build_idempotency_key L [''create_org_entity'', str_int (cl_company cl),
          attr_str L attrs ''cr_number'', attr_str L attrs ''unified_number'']))"

definition get_organization_entity ::
  "'w transport \<Rightarrow> client \<Rightarrow> string \<Rightarrow> string \<Rightarrow> ('w sys, exn, json) opn" where
  "get_organization_entity send cl entity_id cid =
     api_get send cl (''/organization_entities/'' @ entity_id) cid None"

definition create_brokerage_agreement ::
  "'w transport \<Rightarrow> client \<Rightarrow> (string \<times> json) list \<Rightarrow> string \<Rightarrow> ('w sys, exn, json) opn" where
  "create_brokerage_agreement send cl attrs cid =
     api_post send cl ''/brokerage_agreements'' (envelope ''brokerage_agreements'' attrs) cid None"

definition recharge_office_wallet ::
  "'w transport \<Rightarrow> client \<Rightarrow> (string \<times> json) list \<Rightarrow> string \<Rightarrow> ('w sys, exn, json) opn" where
  "recharge_office_wallet send cl attrs cid =
     api_post send cl ''/office/wallet/recharge'' (envelope ''wallet_recharges'' attrs) cid None"

section \<open>Lemmas\<close>

lemmas api_defs = api_get_def api_post_def api_patch_def api_delete_def api_upload_def

lemmas endpoint_defs =
  create_contract_def get_contract_def list_contracts_def get_contract_status_def submit_contract_def
  get_contract_invoices_def attach_unit_def remove_unit_def remove_property_def
  add_contract_unit_service_def add_party_def update_party_def delete_party_def
  upload_proxy_document_def delete_proxy_document_def upload_signed_document_def
  delete_signed_document_def add_financial_information_def add_rental_fee_def add_contract_terms_def
  add_custom_terms_def create_property_def get_property_def create_property_unit_def
  get_property_unit_def upload_ownership_document_def add_ownership_document_owner_def
  upload_ownership_proxy_document_def create_individual_entity_def get_individual_entity_def
  create_organization_entity_def get_organization_entity_def create_brokerage_agreement_def
  recharge_office_wallet_def

lemma make_request_run:
  "make_request send cl method ep cid idem params body files timeout s =
     (case circuit_check (cl_company cl) cid (clock s) (company_circuit cl s) of
        Inl e \<Rightarrow> (Inl (Ejar e), s)
      | Inr cb \<Rightarrow>
         (case send (world s) (request_of cl method ep cid idem params body files timeout) of
            (out, dt, w) \<Rightarrow> handle_response cl method ep cid out
               ((put_circuit cl cb s)\<lparr>world := w, clock := clock s + dt\<rparr>)))"
  by (simp add: make_request_def check_circuit_def exchange_def andthen_def bind_def put_circuit_def
      split: sum.splits prod.splits)

text \<open>What a request may touch: its own company's breaker and cache entry, and the world.\<close>

definition others_kept :: "int \<Rightarrow> 'w sys \<Rightarrow> 'w sys \<Rightarrow> bool" where
  "others_kept company s t \<longleftrightarrow> (\<forall>i. i \<noteq> company \<longrightarrow> circuits t i = circuits s i \<and> cred_store t i = cred_store s i)"

definition circuits_ok :: "'w sys \<Rightarrow> bool" where
  "circuits_ok s \<longleftrightarrow> (\<forall>i cb. circuits s i = Some cb \<longrightarrow> cb_inv cb)"

definition sys_ok :: "'w sys \<Rightarrow> bool" where
  "sys_ok s \<longleftrightarrow> circuits_ok s \<and> cache_ok (cred_store s)"

lemma company_circuit_inv: "circuits_ok s \<Longrightarrow> cb_inv (company_circuit cl s)"
  by (auto simp: circuits_ok_def company_circuit_def get_circuit_def split: option.splits)

lemma put_circuit_ok: "circuits_ok s \<Longrightarrow> cb_inv cb \<Longrightarrow> circuits_ok (put_circuit cl cb s)"
  by (auto simp: circuits_ok_def put_circuit_def)

lemma put_circuit_simps [simp]:
  "world (put_circuit cl cb s) = world s"
  "clock (put_circuit cl cb s) = clock s"
  "cred_store (put_circuit cl cb s) = cred_store s"
  "company_circuit cl (put_circuit cl cb s) = cb"
  "company_circuit cl (s\<lparr>world := w, clock := t\<rparr>) = company_circuit cl s"
  "company_circuit cl (s\<lparr>cred_store := cs\<rparr>) = company_circuit cl s"
  by (simp_all add: put_circuit_def company_circuit_def get_circuit_def)

lemma circuits_ok_frame [simp]:
  "circuits_ok (s\<lparr>world := w, clock := t\<rparr>) = circuits_ok s"
  "circuits_ok (s\<lparr>cred_store := cs\<rparr>) = circuits_ok s"
  by (simp_all add: circuits_ok_def)

lemma record_ok:
  "circuits_ok s \<Longrightarrow> circuits_ok (record_success cl s)"
  "circuits_ok s \<Longrightarrow> circuits_ok (record_failure cl s)"
  by (simp_all add: record_success_def record_failure_def put_circuit_ok company_circuit_inv
      cb_inv_success cb_inv_failure)

text \<open>The four ways an exchange ends, with the state each leaves.\<close>

lemma handle_response_cases:
  "snd (handle_response cl m ep cid out s) \<in>
     {s, record_success cl s, record_failure cl s,
      s\<lparr>cred_store := cache_invalidate (cl_company cl) (cred_store s)\<rparr>}"
  by (auto simp: handle_response_def Let_def split: http_outcome.splits sum.splits exn.splits)

lemma record_cred_store [simp]:
  "cred_store (record_success cl s) = cred_store s"
  "cred_store (record_failure cl s) = cred_store s"
  by (simp_all add: record_success_def record_failure_def)

lemma handle_response_ok: "sys_ok s \<Longrightarrow> sys_ok (snd (handle_response cl m ep cid out s))"
  using handle_response_cases [of cl m ep cid out s]
  by (auto simp: sys_ok_def record_ok cache_ok_invalidate)

lemma others_kept_trans: "others_kept c s t \<Longrightarrow> others_kept c t u \<Longrightarrow> others_kept c s u"
  by (simp add: others_kept_def)

lemma handle_response_others: "others_kept (cl_company cl) s (snd (handle_response cl m ep cid out s))"
  using handle_response_cases [of cl m ep cid out s]
  by (auto simp: others_kept_def record_success_def record_failure_def put_circuit_def
      cache_invalidate_def)

lemma make_request_ok: "keeps sys_ok (make_request send cl m ep cid idem ps b fs to)"
  unfolding keeps_def
proof (intro allI impI)
  fix s :: "'a sys"
  assume ok: "sys_ok s"
  show "sys_ok (snd (make_request send cl m ep cid idem ps b fs to s))"
  proof (cases "circuit_check (cl_company cl) cid (clock s) (company_circuit cl s)")
    case (Inl e)
    with ok show ?thesis by (simp add: make_request_run)
  next
    case (Inr cb)
    then have "cb_inv cb"
      using ok company_circuit_inv cb_inv_check unfolding sys_ok_def by blast
    then have "sys_ok ((put_circuit cl cb s)\<lparr>world := w, clock := t\<rparr>)" for w t
      using ok by (simp add: sys_ok_def put_circuit_ok)
    with Inr show ?thesis
      by (simp add: make_request_run handle_response_ok split: prod.splits)
  qed
qed

lemma make_request_others:
  "others_kept (cl_company cl) s (snd (make_request send cl m ep cid idem ps b fs to s))"
proof (cases "circuit_check (cl_company cl) cid (clock s) (company_circuit cl s)")
  case (Inl e)
  then show ?thesis by (simp add: make_request_run others_kept_def)
next
  case (Inr cb)
  obtain out dt w where snt: "send (world s) (request_of cl m ep cid idem ps b fs to) = (out, dt, w)"
    by (cases "send (world s) (request_of cl m ep cid idem ps b fs to)") auto
  let ?u = "(put_circuit cl cb s)\<lparr>world := w, clock := clock s + dt\<rparr>"
  have "others_kept (cl_company cl) s ?u" by (simp add: others_kept_def put_circuit_def)
  from others_kept_trans [OF this handle_response_others]
  show ?thesis using Inr snt by (simp add: make_request_run)
qed

lemma endpoints_ok:
  "keeps sys_ok (create_contract L send cl a cid)"
  "keeps sys_ok (attach_unit L send cl c p u cid)"
  "keeps sys_ok (add_party L send cl c a cid)"
  "keeps sys_ok (upload_proxy_document L send cl c p bs f d cid)"
  "keeps sys_ok (upload_signed_document L send cl c bs f cid)"
  "keeps sys_ok (add_financial_information L send cl c a cid)"
  "keeps sys_ok (add_rental_fee L send cl c a cid)"
  "keeps sys_ok (submit_contract L send cl c cid)"
  "keeps sys_ok (create_individual_entity L send cl a cid)"
  "keeps sys_ok (create_organization_entity L send cl a cid)"
  "keeps sys_ok (get_contract send cl c cid)"
  by (simp_all add: endpoint_defs api_defs make_request_ok Let_def)

lemma new_client_company: "new_client src company_id env s = (Inr cl, t) \<Longrightarrow> cl_company cl = company_id"
  by (auto simp: new_client_def Let_def split: prod.splits sum.splits if_splits)

lemma new_client_state:
  obtains r store where "get_credentials (src_now src) (src_tokens src) (src_params src) (clock s) (clock s)
      company (cred_store s) = (r, store)"
    and "snd (new_client src company env s) = s\<lparr>cred_store := store\<rparr>
      \<or> snd (new_client src company env s) = s\<lparr>cred_store := store,
          circuits := snd (get_circuit (circuits s) company)\<rparr>"
proof -
  obtain r store where g: "get_credentials (src_now src) (src_tokens src) (src_params src) (clock s) (clock s)
      company (cred_store s) = (r, store)" by fastforce
  have "snd (new_client src company env s) = s\<lparr>cred_store := store\<rparr>
      \<or> snd (new_client src company env s) = s\<lparr>cred_store := store,
          circuits := snd (get_circuit (circuits s) company)\<rparr>"
    using g by (cases r) (simp_all add: new_client_def Let_def)
  with g show ?thesis by (rule that)
qed

lemma new_client_others: "others_kept company s (snd (new_client src company env s))"
proof -
  obtain r store where g: "get_credentials (src_now src) (src_tokens src) (src_params src) (clock s) (clock s)
      company (cred_store s) = (r, store)"
    and st: "snd (new_client src company env s) = s\<lparr>cred_store := store\<rparr>
      \<or> snd (new_client src company env s) = s\<lparr>cred_store := store,
          circuits := snd (get_circuit (circuits s) company)\<rparr>"
    by (rule new_client_state)
  have "snd (get_circuit (circuits s) company) i = circuits s i" if "i \<noteq> company" for i
    using that by (simp add: get_circuit_def split: option.split)
  then show ?thesis
    using st get_credentials_others [OF g] by (auto simp: others_kept_def)
qed

lemma new_client_ok: "keeps sys_ok (new_client src company env)"
  unfolding keeps_def
proof (intro allI impI)
  fix s :: "'a sys"
  assume ok: "sys_ok s"
  obtain r store where g: "get_credentials (src_now src) (src_tokens src) (src_params src) (clock s) (clock s)
      company (cred_store s) = (r, store)"
    and st: "snd (new_client src company env s) = s\<lparr>cred_store := store\<rparr>
      \<or> snd (new_client src company env s) = s\<lparr>cred_store := store,
          circuits := snd (get_circuit (circuits s) company)\<rparr>"
    by (rule new_client_state)
  have "cache_ok store" using get_credentials_ok [OF _ g] ok by (simp add: sys_ok_def)
  moreover have "circuits_ok (s\<lparr>cred_store := store, circuits := snd (get_circuit (circuits s) company)\<rparr>)"
    using ok by (auto simp: sys_ok_def circuits_ok_def get_circuit_def split: option.splits if_splits)
  ultimately show "sys_ok (snd (new_client src company env s))"
    using st ok by (auto simp: sys_ok_def)
qed

text \<open>When an outcome counts against the breaker.\<close>

definition counts_against :: "http_outcome \<Rightarrow> bool" where
  "counts_against out = (case out of
      Response st _ _ _ \<Rightarrow> st = 429 \<or> st = 500 \<or> st = 502 \<or> st = 503 \<or> st = 504
    | _ \<Rightarrow> True)"

definition is_2xx :: "http_outcome \<Rightarrow> bool" where
  "is_2xx out = (case out of Response st _ _ _ \<Rightarrow> 200 \<le> st \<and> st < 300 | _ \<Rightarrow> False)"

definition status_of :: "http_outcome \<Rightarrow> int option" where
  "status_of out = (case out of Response st _ _ _ \<Rightarrow> Some st | _ \<Rightarrow> None)"

definition body_ok :: "http_outcome \<Rightarrow> bool" where
  "body_ok out = (case out of Response _ (Some b) _ _ \<Rightarrow> error_body_ok b | _ \<Rightarrow> True)"

lemma server_like_class:
  "isinstance (status_class st) [EjarServerError, EjarRateLimitError, EjarNetworkError]
     \<longleftrightarrow> st = 429 \<or> st = 500 \<or> st = 502 \<or> st = 503 \<or> st = 504"
  by (simp add: status_class_def isinstance_def mro_eq)

lemma auth_class: "isinstance (status_class st) [EjarAuthError] \<longleftrightarrow> st = 401"
  by (simp add: status_class_def isinstance_def mro_eq)

lemma raw_body_ok: "error_body_ok (JObj [(''_raw'', JStr txt)])"
  by (simp add: error_body_ok_def dict_get_def)

lemma raise_for_status_outcomes:
  assumes "raise_for_ejar_status st body ctx = Inl x"
  obtains (typed) e where "x = Ejar e" and "exc_class e = status_class st"
    | (python) pe where "x = Py pe"
proof (cases x)
  case (Ejar e)
  with assms raise_for_status_class have "exc_class e = status_class st" by blast
  with Ejar show ?thesis by (rule typed)
next
  case (Py pe)
  then show ?thesis by (rule python)
qed (use assms in \<open>auto simp: raise_for_ejar_status_def raise_status_def py_result_def
  split: sum.splits if_splits\<close>)

text \<open>
  A Python error is what reading the body of an error answer can end in; it happens only when the
  body has not the shape the mapping expects, and then nothing is recorded.
\<close>

lemma handle_response_state:
  "snd (handle_response cl m ep cid out s) =
    (if is_2xx out then record_success cl s
     else if (\<exists>pe. fst (handle_response cl m ep cid out s) = Inl (Py pe)) then s
     else if counts_against out then record_failure cl s
     else if status_of out = Some 401
     then s\<lparr>cred_store := cache_invalidate (cl_company cl) (cred_store s)\<rparr> else s)"
proof (cases out)
  case (Response st parsed raw content)
  define body where "body = (case parsed of Some j \<Rightarrow> j | None \<Rightarrow> JObj [(''_raw'', JStr raw)])"
  define ctx where "ctx = \<lparr>hc_correlation = cid, hc_company = cl_company cl, hc_endpoint = ep\<rparr>"
  show ?thesis
  proof (cases "200 \<le> st \<and> st < 300")
    case True
    then have "raise_for_ejar_status st body ctx = Inr ()" by (simp add: raise_for_ejar_status_def)
    with True show ?thesis
      by (simp add: handle_response_def Response body_def ctx_def is_2xx_def)
  next
    case False
    then obtain x where x: "raise_for_ejar_status st body ctx = Inl x"
      using raise_for_status_ok [of st body ctx] by (cases "raise_for_ejar_status st body ctx") auto
    then show ?thesis
    proof (cases rule: raise_for_status_outcomes)
      case (typed e)
      with False x show ?thesis
        unfolding body_def ctx_def
        by (auto simp: handle_response_def Response is_2xx_def counts_against_def status_of_def
            server_like_class auth_class)
    next
      case (python pe)
      have "fst (handle_response cl m ep cid out s) = Inl (Py pe)" "snd (handle_response cl m ep cid out s) = s"
        using x python unfolding body_def ctx_def by (simp_all add: handle_response_def Response)
      with False show ?thesis by (auto simp: is_2xx_def Response)
    qed
  qed
qed (simp_all add: handle_response_def is_2xx_def counts_against_def status_of_def)

lemma handle_response_python:
  assumes "fst (handle_response cl m ep cid out s) = Inl (Py pe)"
  shows "\<not> body_ok out \<and> \<not> is_2xx out"
proof (cases out)
  case (Response st parsed raw content)
  define body where "body = (case parsed of Some j \<Rightarrow> j | None \<Rightarrow> JObj [(''_raw'', JStr raw)])"
  define ctx where "ctx = \<lparr>hc_correlation = cid, hc_company = cl_company cl, hc_endpoint = ep\<rparr>"
  have run: "raise_for_ejar_status st body ctx = Inl (Py pe)"
    using assms unfolding body_def ctx_def
    by (auto simp: handle_response_def Response Let_def split: sum.splits exn.splits if_splits)
  then have st: "st < 200 \<or> 300 \<le> st" by (auto simp: raise_for_ejar_status_def split: if_splits)
  have "\<not> error_body_ok body" using raise_for_status_typed [OF _ st, of body ctx] run by auto
  then show ?thesis
    using st by (auto simp: body_ok_def Response body_def raw_body_ok is_2xx_def split: option.splits)
qed (use assms in \<open>simp_all add: handle_response_def\<close>)

lemma handle_response_Inr:
  "fst (handle_response cl m ep cid out s) = Inr body \<Longrightarrow> is_2xx out"
  by (auto simp: handle_response_def Let_def is_2xx_def raise_for_status_ok
      split: http_outcome.splits sum.splits exn.splits if_splits)

lemma handle_response_2xx: "is_2xx out \<Longrightarrow> \<exists>body. fst (handle_response cl m ep cid out s) = Inr body"
  by (cases out) (auto simp: handle_response_def Let_def is_2xx_def raise_for_ejar_status_def)

text \<open>Idempotency keys: joining colon-free parts is injective, so equal keys mean equal parts.\<close>

lemma join_colon_inject:
  assumes "CHR '':'' \<notin> set x" and "CHR '':'' \<notin> set y"
  shows "x @ CHR '':'' # xs = y @ CHR '':'' # ys \<longleftrightarrow> x = y \<and> xs = ys"
  using assms
proof (induction x arbitrary: y)
  case Nil
  then show ?case by (cases y) auto
next
  case (Cons a x)
  then show ?case by (cases y) auto
qed

lemma join_with_inject:
  assumes "length xs = length ys" and "\<forall>x \<in> set (xs @ ys). CHR '':'' \<notin> set x"
  shows "join_with '':'' xs = join_with '':'' ys \<longleftrightarrow> xs = ys"
  using assms
proof (induction xs arbitrary: ys)
  case Nil
  then show ?case by simp
next
  case (Cons x xs)
  then obtain y zs where ys: "ys = y # zs" by (cases ys) auto
  show ?case
  proof (cases xs)
    case Nil
    with Cons.prems ys show ?thesis by simp
  next
    case tail: (Cons x' xs')
    with Cons.prems ys obtain y' zs' where zs: "zs = y' # zs'" by (cases zs) auto
    have "join_with '':'' xs = join_with '':'' zs \<longleftrightarrow> xs = zs"
      using Cons.prems ys by (intro Cons.IH) auto
    with Cons.prems ys zs tail show ?thesis by (simp add: join_colon_inject)
  qed
qed

lemma key_inject:
  assumes "inj_on (sha256_hex L) (range utf8_encode)"
    and "length xs = length ys" and "\<forall>x \<in> set (xs @ ys). CHR '':'' \<notin> set x"
  shows "build_idempotency_key L xs = build_idempotency_key L ys \<longleftrightarrow> xs = ys"
  using assms(1) join_with_inject [OF assms(2,3)]
  by (auto simp: build_idempotency_key_def inj_on_eq_iff)

section \<open>Properties\<close>


definition circuit_open :: "client \<Rightarrow> 'w sys \<Rightarrow> bool" where
  "circuit_open cl s \<longleftrightarrow> (\<exists>cb. circuits s (cl_company cl) = Some cb \<and> state cb = OPEN
     \<and> clock s < last_failure_at cb + of_int CB_RECOVERY_TIMEOUT)"

definition refused :: "client \<Rightarrow> ('w sys, exn, 'a) opn \<Rightarrow> 'w sys \<Rightarrow> bool" where
  "refused cl f s \<longleftrightarrow> (\<exists>e. f s = (Inl (Ejar e), s)
     \<and> exc_class e = EjarCircuitOpenError \<and> exc_company e = Some (cl_company cl))"

lemma open_circuit_refuses:
  "circuit_open cl s \<Longrightarrow> refused cl (make_request send cl m ep cid idem ps b fs to) s"
  by (auto simp: circuit_open_def refused_def make_request_run company_circuit_def get_circuit_def
      circuit_check_def circuit_open_error_def Let_def less_diff_eq algebra_simps)

text \<open>The endpoints all go through the dispatcher.\<close>

lemma open_circuit_endpoints:
  assumes "circuit_open cl s"
  shows "refused cl (create_contract L send cl a cid) s" "refused cl (get_contract send cl k cid) s"
    "refused cl (list_contracts send cl pg sz a cid) s" "refused cl (get_contract_status send cl n k cid) s"
    "refused cl (submit_contract L send cl k cid) s" "refused cl (get_contract_invoices send cl k cid) s"
    "refused cl (attach_unit L send cl k p u cid) s" "refused cl (remove_unit L send cl k u cid) s"
    "refused cl (remove_property L send cl k p cid) s" "refused cl (add_party L send cl k a cid) s"
    "refused cl (update_party L send cl k p a cid) s" "refused cl (delete_party L send cl k p cid) s"
    "refused cl (upload_proxy_document L send cl k p bs f d cid) s"
    "refused cl (upload_signed_document L send cl k bs f cid) s"
    "refused cl (add_financial_information L send cl k a cid) s"
    "refused cl (add_rental_fee L send cl k a cid) s" "refused cl (add_contract_terms send cl k a cid) s"
    "refused cl (add_custom_terms send cl k a cid) s" "refused cl (create_property L send cl a cid) s"
    "refused cl (create_property_unit L send cl p a cid) s"
    "refused cl (upload_ownership_document L send cl p bs f a cid) s"
    "refused cl (create_individual_entity L send cl a cid) s"
    "refused cl (create_organization_entity L send cl a cid) s"
    "refused cl (create_brokerage_agreement send cl a cid) s"
    "refused cl (recharge_office_wallet send cl a cid) s"
  by (simp_all add: endpoint_defs api_defs Let_def open_circuit_refuses [OF assms])

text \<open>The download does not ask the breaker: its request is sent whatever the state.\<close>

lemma download_unguarded:
  "\<exists>rq. rq_url rq = cl_base_url cl @ contract_ep k ''/download_pdf''
     \<and> world (snd (download_contract_pdf send cl k cid s)) = snd (snd (send (world s) rq))"
proof -
  let ?rq = "\<lparr>rq_method = GET, rq_url = cl_base_url cl @ contract_ep k ''/download_pdf'',
     rq_authorization = to_auth_header (cl_credentials cl), rq_content_type = Some CONTENT_TYPE_JSON,
     rq_correlation = cid, rq_idempotency = None, rq_params = None, rq_json = None,
     rq_files = [], rq_timeout = UPLOAD_TIMEOUT\<rparr>"
  have "world (snd (download_contract_pdf send cl k cid s)) = snd (snd (send (world s) ?rq))"
    by (simp add: download_contract_pdf_def bind_def exchange_def lift_result_def raise_def
        split: prod.splits http_outcome.splits sum.splits)
  then show ?thesis by (intro exI [of _ ?rq]) simp
qed

text \<open>
  Property C5. While a company's breaker is open and its recovery time has not passed, no request of
  that company made through the request dispatcher leaves the process, whatever its method, address,
  parameters, body and files: the call raises the circuit-open error of the company, and neither the
  world, nor the clock, nor any breaker or cached credential changes. The dispatcher carries every
  endpoint of the client except the PDF download, which does not ask the breaker: with the breaker
  open in the same way, its request still reaches the network.
\<close>

theorem open_circuit_sends_nothing:
  assumes "circuits s (cl_company cl) = Some cb" and "state cb = OPEN"
    and "clock s < last_failure_at cb + of_int CB_RECOVERY_TIMEOUT"
  shows "(\<exists>e. make_request send cl m ep cid idem ps b fs to s = (Inl (Ejar e), s)
    \<and> exc_class e = EjarCircuitOpenError \<and> exc_company e = Some (cl_company cl))
    \<and> (\<exists>rq. rq_url rq = cl_base_url cl @ contract_ep k ''/download_pdf''
      \<and> world (snd (download_contract_pdf send cl k cid s)) = snd (snd (send (world s) rq)))"
proof -
  have "circuit_open cl s" using assms by (auto simp: circuit_open_def)
  from open_circuit_refuses [OF this, of send m ep cid idem ps b fs to] download_unguarded [of cl k send cid s]
  show ?thesis by (simp add: refused_def)
qed

theorem open_circuit_sends_nothing_witness:
  "\<exists>e. make_request (\<lambda>w _. (TimeoutRaised, 1, Suc w))
      \<lparr>cl_company = 1, cl_credentials = \<lparr>api_key = ''k'', api_secret = ''s'', cred_company_id = 1,
         environment = ''uat''\<rparr>, cl_environment = ''uat'', cl_base_url = ''u''\<rparr>
      GET ''/x'' ''c'' None None None [] None
      \<lparr>circuits = [1 \<mapsto> \<lparr>state = OPEN, failure_count = 5, last_failure_at = 10,
           half_open_success_count = 0\<rparr>], cred_store = Map.empty, clock = 20, world = 0\<rparr>
    = (Inl (Ejar e), \<lparr>circuits = [1 \<mapsto> \<lparr>state = OPEN, failure_count = 5, last_failure_at = 10,
           half_open_success_count = 0\<rparr>], cred_store = Map.empty, clock = 20, world = 0\<rparr>)"
  using open_circuit_sends_nothing
    [of "\<lparr>circuits = [1 \<mapsto> \<lparr>state = OPEN, failure_count = 5, last_failure_at = 10,
           half_open_success_count = 0\<rparr>], cred_store = Map.empty, clock = 20, world = 0\<rparr>"
        "\<lparr>cl_company = 1, cl_credentials = \<lparr>api_key = ''k'', api_secret = ''s'', cred_company_id = 1,
         environment = ''uat''\<rparr>, cl_environment = ''uat'', cl_base_url = ''u''\<rparr>"
        "\<lparr>state = OPEN, failure_count = 5, last_failure_at = 10, half_open_success_count = 0\<rparr>"
        "\<lambda>w _. (TimeoutRaised, 1, Suc w)" GET "''/x''" "''c''" None None None "[]" None "''k''"]
  by (auto simp: cb_constants)

text \<open>
  A request of one company never disturbs another: whatever the network answers, the
  breakers and cached credentials of every other company are as before, and the invariants of the
  breaker table and of the credential cache hold afterwards whenever they held before.
\<close>

theorem request_isolated:
  "(\<forall>i. i \<noteq> cl_company cl \<longrightarrow>
      circuits (snd (make_request send cl m ep cid idem ps b fs to s)) i = circuits s i
      \<and> cred_store (snd (make_request send cl m ep cid idem ps b fs to s)) i = cred_store s i)
   \<and> (sys_ok s \<longrightarrow> sys_ok (snd (make_request send cl m ep cid idem ps b fs to s)))"
  using make_request_others [of cl s send m ep cid idem ps b fs to]
    make_request_ok [of send cl m ep cid idem ps b fs to]
  by (auto simp: others_kept_def keeps_def)

theorem request_isolated_witness:
  "circuits (snd (make_request (\<lambda>w _. (TimeoutRaised, 1, ()))
      \<lparr>cl_company = 1, cl_credentials = \<lparr>api_key = ''k'', api_secret = ''s'', cred_company_id = 1,
         environment = ''uat''\<rparr>, cl_environment = ''uat'', cl_base_url = ''u''\<rparr>
      GET ''/x'' ''c'' None None None [] None
      \<lparr>circuits = [2 \<mapsto> new_circuit], cred_store = Map.empty, clock = 20, world = ()\<rparr>)) 2
   = Some new_circuit"
  using conjunct1 [OF request_isolated
    [of "\<lparr>cl_company = 1, cl_credentials = \<lparr>api_key = ''k'', api_secret = ''s'', cred_company_id = 1,
         environment = ''uat''\<rparr>, cl_environment = ''uat'', cl_base_url = ''u''\<rparr>"
        "\<lambda>w _. (TimeoutRaised, 1, ())" GET "''/x''" "''c''" None None None "[]" None
        "\<lparr>circuits = [2 \<mapsto> new_circuit], cred_store = Map.empty, clock = 20, world = ()\<rparr>"]]
  by simp

text \<open>
  Property C10. The accounting of one exchange that the breaker lets through, for every answer: a 2xx
  counts as a success and returns the body; timeouts, connection failures, other exceptions of the
  HTTP package and the statuses 429, 500, 502, 503 and 504 count as a failure at the time the answer
  arrived; a 401 drops the company's cached credentials and leaves the breaker alone; any other
  status (400, 403, 404, 409, 422 and the unexpected ones) changes neither. The exception is an error
  answer whose body the client cannot read: the Python error this raises ends the call before
  anything is recorded, so that a 503 of this kind does not count and a 401 drops nothing. It happens
  only when the answer is JSON without the expected shape: an object whose \<open>errors\<close>, when given, is a
  list of objects whose \<open>source\<close>, when given, is an object.
\<close>

theorem request_accounting:
  assumes "circuit_check (cl_company cl) cid (clock s) (company_circuit cl s) = Inr cb"
    and "send (world s) (request_of cl m ep cid idem ps b fs to) = (out, dt, w)"
  shows "(let (r, t) = make_request send cl m ep cid idem ps b fs to s;
          unread = (\<exists>pe. r = Inl (Py pe)) in
      circuits t = (circuits s)(cl_company cl \<mapsto>
        (if is_2xx out then circuit_record_success cb
         else if counts_against out \<and> \<not> unread then circuit_record_failure (clock s + dt) cb else cb))
      \<and> cred_store t = (if status_of out = Some 401 \<and> \<not> unread
           then cache_invalidate (cl_company cl) (cred_store s) else cred_store s)
      \<and> world t = w \<and> clock t = clock s + dt
      \<and> ((\<exists>j. r = Inr j) \<longleftrightarrow> is_2xx out)
      \<and> (unread \<longrightarrow> \<not> body_ok out \<and> \<not> is_2xx out))"
proof -
  let ?u = "(put_circuit cl cb s)\<lparr>world := w, clock := clock s + dt\<rparr>"
  have run: "make_request send cl m ep cid idem ps b fs to s = handle_response cl m ep cid out ?u"
    using assms(1,2) by (simp add: make_request_run)
  note state = handle_response_state [of cl m ep cid out ?u]
  have only: "is_2xx out \<Longrightarrow> status_of out \<noteq> Some 401" "counts_against out \<Longrightarrow> status_of out \<noteq> Some 401"
    by (auto simp: is_2xx_def counts_against_def status_of_def split: http_outcome.splits)
  have result: "(\<exists>j. fst (handle_response cl m ep cid out ?u) = Inr j) \<longleftrightarrow> is_2xx out"
    using handle_response_Inr handle_response_2xx by blast
  have unread: "(\<exists>pe. fst (handle_response cl m ep cid out ?u) = Inl (Py pe)) \<longrightarrow> \<not> body_ok out \<and> \<not> is_2xx out"
    using handle_response_python by blast
  show ?thesis
    unfolding run using state result only unread
    by (simp add: split_beta Let_def record_success_def record_failure_def put_circuit_def
        company_circuit_def get_circuit_def split: if_splits)
qed

text \<open>The case of the exception: a server error whose list of errors holds a text.\<close>

lemma unread_server_error:
  "handle_response cl m ep cid (Response 503 (Some (JObj [(''errors'', JList [JStr ''down''])])) raw content) s
     = (Inl (Py AttributeError), s)"
  by (simp add: handle_response_def raise_for_ejar_status_def json_get_def dict_get_def
      response_message_def first_detail_def json_index0_def py_result_def)

text \<open>A multipart upload is announced as JSON.\<close>

lemma upload_content_type: "rq_content_type (request_of cl m ep cid idem ps b fs to) = Some CONTENT_TYPE_JSON"
  by (simp add: request_of_def)

definition sample_client :: client where
  "sample_client = \<lparr>cl_company = 1, cl_credentials = \<lparr>api_key = ''k'', api_secret = ''s'',
     cred_company_id = 1, environment = ''uat''\<rparr>, cl_environment = ''uat'', cl_base_url = ''u''\<rparr>"

definition idle_sys :: "'w \<Rightarrow> 'w sys" where
  "idle_sys w = \<lparr>circuits = Map.empty, cred_store = Map.empty, clock = 20, world = w\<rparr>"

theorem request_accounting_witness:
  "failure_count (company_circuit sample_client (snd (make_request
      (\<lambda>w _. (Response 503 None ''<html>'' [], 2, Suc w)) sample_client GET ''/x'' ''c''
      None None None [] None (idle_sys 0)))) = 1
   \<and> world (snd (make_request
      (\<lambda>w _. (Response 503 None ''<html>'' [], 2, Suc w)) sample_client GET ''/x'' ''c''
      None None None [] None (idle_sys 0))) = Suc 0"
proof -
  have a: "circuit_check (cl_company sample_client) ''c'' (clock (idle_sys 0))
      (company_circuit sample_client (idle_sys (0::nat))) = Inr new_circuit"
    by (simp add: sample_client_def idle_sys_def company_circuit_def get_circuit_def circuit_check_def
        new_circuit_def)
  show ?thesis
    using request_accounting [OF a, where send = "\<lambda>w _. (Response 503 None ''<html>'' [], 2, Suc w)"
        and m = GET and ep = "''/x''" and idem = None and ps = None and b = None and fs = "[]"
        and to = None and out = "Response 503 None ''<html>'' []" and dt = 2 and w = "Suc 0"]
    by (simp add: idle_sys_def body_ok_def is_2xx_def counts_against_def split_beta
        company_circuit_def get_circuit_def circuit_defs new_circuit_def cb_constants)
qed

text \<open>
  What the idempotency key of a contract creation stands for, when the hash has no
  collision and the values carry no colon: two creation requests have the same key exactly when
  company, start date, end date and contract type agree. Everything else of the payload, the unit
  and the parties included, is not part of the key.
\<close>

theorem create_contract_key_identifies:
  assumes "inj_on (sha256_hex L) (range utf8_encode)"
    and "\<forall>k \<in> {''contract_start_date'', ''contract_end_date'', ''contract_type''}.
      CHR '':'' \<notin> set (attr_str L a k) \<and> CHR '':'' \<notin> set (attr_str L b k)"
  shows "create_contract_key L c1 a = create_contract_key L c2 b \<longleftrightarrow>
    cl_company c1 = cl_company c2
    \<and> (\<forall>k \<in> {''contract_start_date'', ''contract_end_date'', ''contract_type''}.
        attr_str L a k = attr_str L b k)"
proof -
  let ?parts = "\<lambda>c a. [''create_contract'', str_int (cl_company c), attr_str L a ''contract_start_date'',
      attr_str L a ''contract_end_date'', attr_str L a ''contract_type'']"
  have "\<forall>x \<in> set (?parts c1 a @ ?parts c2 b). CHR '':'' \<notin> set x"
    using assms(2) by (simp add: str_int_no_colon)
  then have "create_contract_key L c1 a = create_contract_key L c2 b \<longleftrightarrow> ?parts c1 a = ?parts c2 b"
    unfolding create_contract_key_def by (intro key_inject assms(1)) simp_all
  then show ?thesis by simp
qed

theorem create_contract_key_identifies_witness:
  "create_contract_key \<lparr>sha256_hex = b64encode, str_other = \<lambda>_. ''None''\<rparr> sample_client
     [(''contract_start_date'', JStr ''2025-01-01''), (''contract_end_date'', JStr ''2025-12-31''),
      (''contract_type'', JStr ''residential''), (''property_id'', JStr ''unit 1'')]
   = create_contract_key \<lparr>sha256_hex = b64encode, str_other = \<lambda>_. ''None''\<rparr> sample_client
     [(''contract_start_date'', JStr ''2025-01-01''), (''contract_end_date'', JStr ''2025-12-31''),
      (''contract_type'', JStr ''residential''), (''property_id'', JStr ''unit 2'')]"
proof -
  let ?L = "\<lparr>sha256_hex = b64encode, str_other = \<lambda>_. ''None''\<rparr>"
  have inj: "inj_on (sha256_hex ?L) (range utf8_encode)"
    by (auto simp: inj_on_def)
  show ?thesis
    by (subst create_contract_key_identifies [OF inj])
      (simp_all add: attr_str_def dict_get_def str_json_def)
qed

end
