(* ===== verification/EjarRecords.thy ===== *)
theory EjarRecords
  imports EjarErrors
begin

text \<open>
  The records an Ejar submission works on: the contract with its parties and units
  (\<^verbatim>\<open>models/ejar_contract.py\<close>, \<^verbatim>\<open>ejar_contract_party.py\<close>,
  \<^verbatim>\<open>ejar_contract_unit.py\<close>), the property a unit belongs to
  (\<^verbatim>\<open>models/property_property.py\<close>), the brokerage profile
  (\<^verbatim>\<open>ejar_brokerage_profile.py\<close>) and the Saudi identity of a partner
  (\<^verbatim>\<open>res_partner.py\<close>); their constraints, onchange handlers, computed fields and the checks
  made before a submission. A many-to-one field is the record it points to, a one-to-many field a
  list; required date fields are dates.
\<close>

section \<open>Records\<close>

record partner =
  pt_name :: char_field
  pt_mobile :: char_field
  pt_phone :: char_field
  pt_email :: char_field
  pt_id_type :: char_field
  pt_national_id :: char_field
  pt_iban :: char_field
  pt_cr_number :: char_field

record party =
  p_role :: string
  p_entity_type :: string
  p_partner :: "partner option"
  p_id_number :: char_field
  p_id_type :: char_field
  p_id_expiry :: "date option"
  p_nationality :: char_field
  p_mobile :: char_field
  p_email :: char_field
  p_full_name_ar :: char_field
  p_cr_number :: char_field
  p_unified_number :: char_field
  p_iban :: char_field
  p_proxy_doc :: char_field
  p_proxy_doc_filename :: char_field
  p_proxy_doc_type :: char_field
  p_entity_id :: char_field
  p_party_id :: char_field
  p_proxy_doc_id :: char_field
  p_sync_state :: string

record city =
  ct_name :: string
  ct_rent_freeze :: bool

record eproperty =
  pr_name :: char_field
  pr_property_type :: char_field
  pr_ejar_unit_type :: char_field
  pr_deed_number :: char_field
  pr_deed_type :: char_field
  pr_national_address_code :: char_field
  pr_building_number :: char_field
  pr_district_ar :: char_field
  pr_district :: char_field
  pr_city :: "city option"
  pr_region_code :: "string option"
  pr_postal_code :: char_field
  pr_last_ejar_rent :: rat
  pr_rent_freeze_active :: bool

record unit_line =
  u_property :: "eproperty option"
  u_unit_number :: char_field
  u_unit_type :: char_field
  u_area :: rat
  u_floor_number :: int
  u_bedrooms :: int
  u_bathrooms :: int
  u_finishing :: char_field
  u_furnishing :: char_field
  u_direction :: char_field
  u_ejar_property_id :: char_field
  u_ejar_unit_id :: char_field
  u_contract_unit_id :: char_field
  u_sync_state :: string

record profile =
  pf_company :: int
  pf_office_name_ar :: char_field
  pf_cr_number :: char_field
  pf_unified_number :: char_field
  pf_license_number :: char_field
  pf_license_expiry :: "date option"
  pf_vat_number :: char_field
  pf_representative :: "partner option"
  pf_national_address_code :: char_field

datatype ejar_status = Draft | Building | Ready | Submitting | Submitted | Approved | Rejected
  | Expired | Cancelled

record contract =
  c_id :: int
  c_company :: int
  c_name :: string
  c_status :: ejar_status
  c_contract_type :: char_field
  c_sub_type :: char_field
  c_use_type :: char_field
  c_profile :: "profile option"
  c_parties :: "party list"
  c_units :: "unit_line list"
  c_start :: date
  c_end :: date
  c_rent :: rat
  c_payment_schedule :: char_field
  c_payment_option :: char_field
  c_sublease :: bool
  c_brokerage_fee :: rat
  c_brokerage_fee_paid_by :: char_field
  c_ejar_fees_paid_by :: char_field
  c_signed_doc :: char_field
  c_signed_doc_filename :: char_field
  c_custom_terms :: char_field
  c_ejar_id :: char_field
  c_ejar_number :: char_field
  c_rejection_reason :: char_field
  c_submit_attempt :: int
  c_submit_error :: "exn option"
  c_last_sync :: "datetime option"
  c_next_poll :: "datetime option"
  c_poll_count :: int
  c_webhook_uuid :: char_field
  c_webhook_delivered :: "datetime option"
  c_webhook_event :: char_field
  c_webhook_correlation :: char_field
  c_job_uuid :: char_field
  c_job_channel :: char_field
  c_job_enqueued_at :: "datetime option"
  c_job_last_error :: "exn option"

section \<open>Format constraints\<close>

text \<open>The regular expressions of the constraints, as \<open>re.fullmatch\<close> reads them.\<close>

definition fullmatch_digits :: "nat \<Rightarrow> string \<Rightarrow> bool" where
  "fullmatch_digits n s \<longleftrightarrow> length s = n \<and> list_all is_decimal s"

definition fullmatch_id :: "char \<Rightarrow> string \<Rightarrow> bool" where
  "fullmatch_id c s \<longleftrightarrow> (case s of [] \<Rightarrow> False | d # ds \<Rightarrow> d = c \<and> fullmatch_digits 9 ds)"

definition fullmatch_iban :: "string \<Rightarrow> bool" where
  "fullmatch_iban s \<longleftrightarrow>
     take 2 s = ''SA'' \<and> length s = 24 \<and> list_all is_word_char (drop 2 s)"

definition fullmatch_address :: "string \<Rightarrow> bool" where
  "fullmatch_address s \<longleftrightarrow>
     length s = 8 \<and> list_all is_ascii_letter (take 4 s) \<and> list_all is_decimal (drop 4 s)"

definition when_set :: "char_field \<Rightarrow> (string \<Rightarrow> bool) \<Rightarrow> message \<Rightarrow> exn + unit" where
  "when_set f ok m =
     (if is_set f \<and> \<not> ok (the f) then Inl (OrmValidation m) else Inr ())"

definition check_id_number :: "party \<Rightarrow> exn + unit" where
  "check_id_number p =
     (if \<not> is_set (p_id_number p) then Inr ()
      else if p_id_type p = Some ''national_id'' \<and> \<not> fullmatch_id (CHR ''1'') (the (p_id_number p))
      then Inl (OrmValidation (Text ''national id: 1 and nine digits''))
      else if p_id_type p = Some ''iqama'' \<and> \<not> fullmatch_id (CHR ''2'') (the (p_id_number p))
      then Inl (OrmValidation (Text ''iqama: 2 and nine digits''))
      else Inr ())"

definition check_party_iban :: "party \<Rightarrow> exn + unit" where
  "check_party_iban p = when_set (p_iban p) fullmatch_iban (Text ''IBAN: SA and 22 characters'')"

definition check_cr_number :: "profile \<Rightarrow> exn + unit" where
  "check_cr_number pf = when_set (pf_cr_number pf) (fullmatch_digits 10) (Text ''CR: 10 digits'')"

definition check_unified_number :: "profile \<Rightarrow> exn + unit" where
  "check_unified_number pf =
     when_set (pf_unified_number pf) (fullmatch_digits 10) (Text ''unified number: 10 digits'')"

definition check_vat_number :: "profile \<Rightarrow> exn + unit" where
  "check_vat_number pf = when_set (pf_vat_number pf) (fullmatch_digits 15) (Text ''VAT: 15 digits'')"

definition check_profile_address :: "profile \<Rightarrow> exn + unit" where
  "check_profile_address pf =
     when_set (pf_national_address_code pf) fullmatch_address (Text ''address: 4 letters, 4 digits'')"

definition check_property_address :: "eproperty \<Rightarrow> exn + unit" where
  "check_property_address pr =
     when_set (pr_national_address_code pr) (\<lambda>s. length (strip s) = 8) (Text ''address: 8 characters'')"

definition check_unit_number :: "unit_line \<Rightarrow> exn + unit" where
  "check_unit_number u =
     (if \<not> is_set (u_unit_number u) \<or> strip (the (u_unit_number u)) = []
      then Inl (OrmValidation (Text ''unit number required'')) else Inr ())"

definition check_partner_national_id :: "partner \<Rightarrow> exn + unit" where
  "check_partner_national_id pt =
     (if is_set (pt_national_id pt) \<and> pt_id_type pt = Some ''national_id'' then
        (let nid = strip (the (pt_national_id pt)) in
         if \<not> isdigit_str nid \<or> length nid \<noteq> 10
         then Inl (OrmValidation (Text ''national id: 10 digits''))
         else if \<not> starts_with nid ''1'' \<and> \<not> starts_with nid ''2''
         then Inl (OrmValidation (Text ''national id starts with 1 or 2''))
         else Inr ())
      else Inr ())"

text \<open>
  \<open>str.upper\<close> on Latin-1: sharp s becomes two letters; the two letters whose capital lies outside
  Latin-1 stay as they are.
\<close>

definition upper_char :: "char \<Rightarrow> string" where
  "upper_char c =
     (if 97 \<le> code c \<and> code c \<le> 122 then [char_of (code c - 32)]
      else if code c = 223 then ''SS''
      else if 224 \<le> code c \<and> code c \<le> 254 \<and> code c \<noteq> 247 then [char_of (code c - 32)]
      else [c])"

definition upper_str :: "string \<Rightarrow> string" where
  "upper_str s = concat (map upper_char s)"

definition check_partner_iban :: "partner \<Rightarrow> exn + unit" where
  "check_partner_iban pt =
     when_set (pt_iban pt)
       (\<lambda>s. let iban = upper_str (filter (\<lambda>c. c \<noteq> CHR '' '') s)
            in starts_with iban ''SA'' \<and> length iban = 24)
       (Text ''IBAN: SA and 24 characters'')"

section \<open>Onchange handlers\<close>

definition onchange_partner :: "party \<Rightarrow> party" where
  "onchange_partner p =
     (case p_partner p of
        None \<Rightarrow> p
      | Some pt \<Rightarrow>
          (let p1 = p\<lparr>p_full_name_ar := pt_name pt,
                      p_mobile := (if is_set (pt_mobile pt) then pt_mobile pt else pt_phone pt),
                      p_email := pt_email pt\<rparr>;
               p2 = (if is_set (pt_national_id pt) then p1\<lparr>p_id_number := pt_national_id pt\<rparr> else p1);
               p3 = (if is_set (pt_id_type pt)
                     then p2\<lparr>p_id_type := Some
                       (if the (pt_id_type pt) \<in> {''national_id'', ''iqama'', ''passport'', ''gcc_id''}
                        then the (pt_id_type pt) else ''national_id'')\<rparr>
                     else p2);
               p4 = (if is_set (pt_iban pt) then p3\<lparr>p_iban := pt_iban pt\<rparr> else p3)
           in if is_set (pt_cr_number pt) then p4\<lparr>p_cr_number := pt_cr_number pt\<rparr> else p4))"

definition compute_ejar_unit_type :: "eproperty \<Rightarrow> eproperty" where
  "compute_ejar_unit_type pr = pr\<lparr>pr_ejar_unit_type := Some
     (case pr_property_type pr of
        Some t \<Rightarrow> if t \<in> {''residential'', ''commercial'', ''industrial'', ''land''} then t
                  else ''residential''
      | None \<Rightarrow> ''residential'')\<rparr>"

definition onchange_property :: "unit_line \<Rightarrow> unit_line" where
  "onchange_property u =
     (case u_property u of
        None \<Rightarrow> u
      | Some pr \<Rightarrow>
          (if is_set (pr_ejar_unit_type pr)
           then u\<lparr>u_unit_type := Some
             (let t = the (pr_ejar_unit_type pr) in
              if t = ''residential'' then ''apartment'' else if t = ''commercial'' then ''office''
              else if t = ''industrial'' then ''warehouse'' else if t = ''land'' then ''land''
              else ''apartment'')\<rparr>
           else u))"

definition compute_rent_freeze :: "eproperty \<Rightarrow> eproperty" where
  "compute_rent_freeze pr = pr\<lparr>pr_rent_freeze_active :=
     (case pr_city pr of Some ct \<Rightarrow> ct_rent_freeze ct | None \<Rightarrow> False)\<rparr>"

section \<open>Computed fields\<close>

text \<open>The start and end date are required fields, so the duration always has both.\<close>

definition compute_duration :: "contract \<Rightarrow> rat" where
  "compute_duration c = py_round (of_int (c_end c - c_start c) / 365) 4"

definition compute_doc_fee :: "contract \<Rightarrow> rat" where
  "compute_doc_fee c =
     (let years = (if \<lceil>compute_duration c\<rceil> = 0 then 1 else \<lceil>compute_duration c\<rceil>)
      in of_int years * 125)"

definition has_lessor :: "contract \<Rightarrow> bool" where
  "has_lessor c \<longleftrightarrow> ''lessor'' \<in> set (map p_role (c_parties c))"

definition has_tenant :: "contract \<Rightarrow> bool" where
  "has_tenant c \<longleftrightarrow> ''tenant'' \<in> set (map p_role (c_parties c))"

definition has_unit :: "contract \<Rightarrow> bool" where
  "has_unit c \<longleftrightarrow> c_units c \<noteq> []"

definition is_ready_to_submit :: "contract \<Rightarrow> bool" where
  "is_ready_to_submit c \<longleftrightarrow>
     list_all id [has_lessor c, has_tenant c, has_unit c, is_set (c_signed_doc c),
       c_profile c \<noteq> None, c_rent c > 0]"

definition unit_frozen :: "rat \<Rightarrow> unit_line \<Rightarrow> bool" where
  "unit_frozen rent u =
     (case u_property u of
        None \<Rightarrow> False
      | Some pr \<Rightarrow>
          (case pr_city pr of
             None \<Rightarrow> False
           | Some ct \<Rightarrow>
               ct_rent_freeze ct \<and> pr_last_ejar_rent pr \<noteq> 0 \<and> rent > pr_last_ejar_rent pr))"

definition rent_freeze_warning :: "contract \<Rightarrow> bool" where
  "rent_freeze_warning c = list_ex (unit_frozen (c_rent c)) (c_units c)"

definition check_dates :: "contract \<Rightarrow> exn + unit" where
  "check_dates c =
     (if c_end c \<le> c_start c then Inl (OrmValidation (Text ''end after start'')) else Inr ())"

definition check_brokerage_fee_cap :: "contract \<Rightarrow> exn + unit" where
  "check_brokerage_fee_cap c =
     (if c_brokerage_fee c \<noteq> 0 \<and> c_rent c \<noteq> 0 \<and> c_brokerage_fee c > c_rent c * (25 / 1000)
      then Inl (OrmValidation (Text ''fee above 2.5% of the rent'')) else Inr ())"

section \<open>Checks before a submission\<close>

definition u_deed_number :: "unit_line \<Rightarrow> char_field" where
  "u_deed_number u = (case u_property u of Some pr \<Rightarrow> pr_deed_number pr | None \<Rightarrow> None)"

definition u_national_address_code :: "unit_line \<Rightarrow> char_field" where
  "u_national_address_code u =
     (case u_property u of Some pr \<Rightarrow> pr_national_address_code pr | None \<Rightarrow> None)"

definition representative_roles :: "string list" where
  "representative_roles = [''lessor_representative'', ''tenant_representative'']"

definition missing_if :: "bool \<Rightarrow> string \<Rightarrow> string list" where
  "missing_if b what = (if b then [what] else [])"

definition incomplete :: "string list \<Rightarrow> exn + unit" where
  "incomplete errors = (if errors \<noteq> [] then Inl (OrmValidation (Incomplete errors)) else Inr ())"

definition party_missing :: "party \<Rightarrow> string list" where
  "party_missing p =
     (if p_entity_type p = ''individual''
      then missing_if (\<not> is_set (p_id_number p)) ''id_number''
           @ missing_if (\<not> is_set (p_mobile p)) ''mobile''
           @ missing_if (\<not> is_set (p_full_name_ar p)) ''full_name_ar''
      else [])
     @ missing_if (p_entity_type p = ''organization'' \<and> \<not> is_set (p_cr_number p)
         \<and> \<not> is_set (p_unified_number p)) ''cr_number / unified_number''
     @ missing_if (p_role p = ''lessor'' \<and> \<not> is_set (p_iban p)) ''iban''
     @ missing_if (p_role p \<in> set representative_roles \<and> \<not> is_set (p_proxy_doc p)) ''proxy_doc''"

definition party_validate :: "party \<Rightarrow> exn + unit" where
  "party_validate p = incomplete (party_missing p)"

definition unit_missing :: "unit_line \<Rightarrow> string list" where
  "unit_missing u =
     missing_if (\<not> is_set (u_deed_number u)) ''deed_number''
     @ missing_if (\<not> is_set (u_national_address_code u)) ''national_address_code''
     @ missing_if (u_area u = 0) ''area''"

definition unit_validate :: "unit_line \<Rightarrow> exn + unit" where
  "unit_validate u = incomplete (unit_missing u)"

definition license_expired :: "date \<Rightarrow> profile \<Rightarrow> bool" where
  "license_expired today pf = (case pf_license_expiry pf of Some d \<Rightarrow> d < today | None \<Rightarrow> False)"

definition profile_missing :: "date \<Rightarrow> profile \<Rightarrow> string list" where
  "profile_missing today pf =
     missing_if (\<not> is_set (pf_cr_number pf)) ''cr_number''
     @ missing_if (\<not> is_set (pf_unified_number pf)) ''unified_number''
     @ missing_if (\<not> is_set (pf_license_number pf)) ''license_number''
     @ missing_if (license_expired today pf) ''license_expired''
     @ missing_if (pf_representative pf = None) ''representative_partner_id''
     @ missing_if (\<not> is_set (case pf_representative pf of Some r \<Rightarrow> pt_national_id r | None \<Rightarrow> None))
         ''sa_national_id''
     @ missing_if (\<not> is_set (pf_office_name_ar pf)) ''office_name_ar''"

definition profile_validate :: "date \<Rightarrow> profile \<Rightarrow> exn + unit" where
  "profile_validate today pf = incomplete (profile_missing today pf)"

section \<open>Lemmas\<close>

lemma missing_if_Nil [simp]: "missing_if b w = [] \<longleftrightarrow> \<not> b"
  by (simp add: missing_if_def)

lemma set_missing_if [simp]: "x \<in> set (missing_if b w) \<longleftrightarrow> b \<and> x = w"
  by (auto simp: missing_if_def)

lemma incomplete_Inr [simp]: "incomplete es = Inr () \<longleftrightarrow> es = []"
  by (simp add: incomplete_def)

lemma incomplete_Inl: "incomplete es = Inl e \<longleftrightarrow> es \<noteq> [] \<and> e = OrmValidation (Incomplete es)"
  by (auto simp: incomplete_def)

lemma party_validate_individual:
  assumes "party_validate p = Inr ()" and "p_entity_type p = ''individual''"
  shows "is_set (p_id_number p)" "is_set (p_mobile p)" "is_set (p_full_name_ar p)"
  using assms by (simp_all add: party_validate_def party_missing_def)

lemma party_validate_organization:
  assumes "party_validate p = Inr ()" and "p_entity_type p = ''organization''"
  shows "is_set (p_cr_number p) \<or> is_set (p_unified_number p)"
  using assms by (auto simp: party_validate_def party_missing_def)

section \<open>Properties\<close>

text \<open>
  Filling a party from a partner whose identity passed the partner's own check: a
  national id of plain digits is then accepted by the party exactly when it starts with 1, although
  the partner form also accepts a leading 2; and a GCC citizen (\<open>gcc\<close> on the partner) becomes a
  national-id holder on the party, because the mapping only knows the name \<open>gcc_id\<close>.
\<close>

theorem partner_identity_handoff:
  assumes "p_partner p = Some pt" and "check_partner_national_id pt = Inr ()"
    and "pt_id_type pt = Some ''national_id''"
    and "pt_national_id pt = Some nid" and "nid \<noteq> []" and "strip nid = nid"
    and "list_all is_decimal nid"
  shows "(check_id_number (onchange_partner p) = Inr () \<longleftrightarrow> hd nid = CHR ''1'')
    \<and> hd nid \<in> {CHR ''1'', CHR ''2''}
    \<and> p_id_type (onchange_partner (p\<lparr>p_partner := Some (pt\<lparr>pt_id_type := Some ''gcc''\<rparr>)\<rparr>))
        = Some ''national_id''"
proof -
  obtain c ds where nid: "nid = c # ds" using assms(5) by (cases nid) auto
  have copied: "p_id_number (onchange_partner p) = Some nid"
    "p_id_type (onchange_partner p) = Some ''national_id''"
    using assms(1,3,4,5) by (simp_all add: onchange_partner_def Let_def)
  have "length nid = 10" and first: "c = CHR ''1'' \<or> c = CHR ''2''"
    using assms(2-6) by (auto simp: check_partner_national_id_def Let_def nid starts_with_def
        split: if_splits)
  then have "fullmatch_digits 9 ds"
    using assms(7) by (simp add: fullmatch_digits_def nid)
  with copied first show ?thesis
    by (auto simp: check_id_number_def fullmatch_id_def nid onchange_partner_def Let_def)
qed

definition blank_partner :: partner where
  "blank_partner = \<lparr>pt_name = None, pt_mobile = None, pt_phone = None, pt_email = None,
     pt_id_type = None, pt_national_id = None, pt_iban = None, pt_cr_number = None\<rparr>"

definition blank_party :: party where
  "blank_party = \<lparr>p_role = ''tenant'', p_entity_type = ''individual'', p_partner = None,
     p_id_number = None, p_id_type = Some ''national_id'', p_id_expiry = None,
     p_nationality = Some ''SA'', p_mobile = None, p_email = None, p_full_name_ar = None,
     p_cr_number = None, p_unified_number = None, p_iban = None, p_proxy_doc = None,
     p_proxy_doc_filename = None, p_proxy_doc_type = Some ''paper_poa'', p_entity_id = None,
     p_party_id = None, p_proxy_doc_id = None, p_sync_state = ''pending''\<rparr>"

theorem partner_identity_handoff_witness:
  "check_partner_national_id (blank_partner\<lparr>pt_id_type := Some ''national_id'',
     pt_national_id := Some ''2123456789''\<rparr>) = Inr ()
   \<and> check_id_number (onchange_partner (blank_party\<lparr>p_partner := Some (blank_partner
        \<lparr>pt_id_type := Some ''national_id'', pt_national_id := Some ''2123456789''\<rparr>)\<rparr>)) \<noteq> Inr ()"
proof -
  let ?pt = "blank_partner\<lparr>pt_id_type := Some ''national_id'', pt_national_id := Some ''2123456789''\<rparr>"
  have strip: "strip ''2123456789'' = ''2123456789''"
    by (simp add: strip_def is_space_char_def)
  have dec: "list_all is_decimal ''2123456789''"
    by (simp add: is_decimal_def)
  have ok: "check_partner_national_id ?pt = Inr ()"
    using strip by (simp add: check_partner_national_id_def isdigit_str_def is_digit_char_def
        is_decimal_def starts_with_def Let_def)
  show ?thesis
    using ok partner_identity_handoff [of "blank_party\<lparr>p_partner := Some ?pt\<rparr>" ?pt "''2123456789''"]
      strip dec by simp
qed

end
