(* ===== verification/EjarPayload.thy ===== *)
theory EjarPayload
  imports EjarRecords
begin

text \<open>
  \<^verbatim>\<open>services/payload_builder.py\<close>: the attribute dictionaries of the requests, built from the
  records, and the lemma base that says when building fails. \<open>_require\<close> is modelled on the value
  the field reads as: it refuses an empty string and an absent record, and lets every value
  that equals 0 pass, which includes the \<open>False\<close> of an unset field.
\<close>

section \<open>Helpers\<close>

definition payload_error :: "string \<Rightarrow> exn" where
  "payload_error field = Ejar (mk_exc EjarPayloadError (RequiredFieldEmpty field))"

text \<open>\<open>value != 0\<close> is false for \<open>0\<close>, \<open>0.0\<close> and \<open>False\<close>.\<close>

definition equals_zero :: "json \<Rightarrow> bool" where
  "equals_zero j = (case j of JBool b \<Rightarrow> \<not> b | JInt n \<Rightarrow> n = 0 | JNum r \<Rightarrow> r = 0 | _ \<Rightarrow> False)"

definition require :: "json \<Rightarrow> string \<Rightarrow> exn + unit" where
  "require v field =
     (if \<not> truthy v \<and> \<not> equals_zero v then Inl (payload_error field) else Inr ())"

definition normalize_mobile :: "string \<Rightarrow> string" where
  "normalize_mobile mobile =
     (if mobile = [] then []
      else
        (let digits = filter is_decimal mobile in
         if starts_with digits ''966'' then ''+'' @ digits
         else if starts_with digits ''0'' \<and> length digits = 10 then ''+966'' @ drop 1 digits
         else if length digits = 9 then ''+966'' @ digits
         else mobile))"

definition get_party :: "party list \<Rightarrow> string \<Rightarrow> party option" where
  "get_party ps role = List.find (\<lambda>p. p_role p = role) ps"

text \<open>A field passed on as it reads, and \<open>a or b\<close> of two fields.\<close>

definition or_field :: "char_field \<Rightarrow> char_field \<Rightarrow> char_field" where
  "or_field a b = (if is_set a then a else b)"

section \<open>Builders\<close>

definition build_contract_attributes ::
  "contract \<Rightarrow> profile option \<Rightarrow> exn + (string \<times> json) list" where
  "build_contract_attributes c prof =
     ebind (require (JStr (date_str (c_start c))) ''start_date'') (\<lambda>_.
     ebind (require (JStr (date_str (c_end c))) ''end_date'') (\<lambda>_.
     ebind (require (JNum (c_rent c)) ''rent_amount'') (\<lambda>_.
     ebind (case prof of None \<Rightarrow> Inl (payload_error ''brokerage_profile_id'') | Some _ \<Rightarrow> Inr ()) (\<lambda>_.
     Inr
       [(''contract_type'', JStr (or_str (c_contract_type c) ''residential'')),
        (''sub_type'', JStr (or_str (c_sub_type c) ''main'')),
        (''use_type'', JStr (or_str (c_use_type c) ''residential_families'')),
        (''contract_start_date'', JStr (date_str (c_start c))),
        (''contract_end_date'', JStr (date_str (c_end c))),
        (''number_of_years'', JNum (py_round (compute_duration c) 4)),
        (''sublease_allowed'', JBool (c_sublease c)),
        (''custom_terms_accepted'', JBool (is_set (c_custom_terms c)))]))))"

definition build_financial_attributes :: "contract \<Rightarrow> exn + (string \<times> json) list" where
  "build_financial_attributes c =
     ebind (require (JNum (c_rent c)) ''rent_amount'') (\<lambda>_.
     ebind (require (field_json (c_payment_schedule c)) ''payment_schedule'') (\<lambda>_.
       let iban = (case get_party (c_parties c) ''lessor'' of
             Some p \<Rightarrow> if is_set (p_iban p) then the (p_iban p) else []
           | None \<Rightarrow> [])
       in Inr
         [(''annual_rent'', JNum (py_round (c_rent c) 2)),
          (''billing_type'', field_json (c_payment_schedule c)),
          (''payment_option'', JStr (or_str (c_payment_option c) ''bank_transfer'')),
          (''iban_number'', JStr iban),
          (''iban_belong_to'', JStr ''lessor''),
          (''ejar_fees_paid_by'', JStr (or_str (c_ejar_fees_paid_by c) ''brokerage_office''))]))"

definition build_rental_fee_attributes ::
  "contract \<Rightarrow> profile option \<Rightarrow> (string \<times> json) list option" where
  "build_rental_fee_attributes c prof =
     (if c_brokerage_fee c = 0 then None
      else Some
        [(''brokerage_fee'', JNum (py_round (c_brokerage_fee c) 2)),
         (''brokerage_fee_paid_by'', JStr (or_str (c_brokerage_fee_paid_by c) ''lessor'')),
         (''brokerage_license_number'',
            case prof of Some pf \<Rightarrow> field_json (pf_license_number pf) | None \<Rightarrow> JStr [])])"

definition build_individual_entity_attributes :: "party \<Rightarrow> exn + (string \<times> json) list" where
  "build_individual_entity_attributes p =
     ebind (require (field_json (p_id_number p)) ''id_number'') (\<lambda>_.
     ebind (require (field_json (p_mobile p)) ''mobile'') (\<lambda>_.
     ebind (require (field_json (p_full_name_ar p)) ''full_name_ar'') (\<lambda>_.
     Inr
       [(''id_number'', field_json (p_id_number p)),
        (''id_type'', JStr (or_str (p_id_type p) ''national_id'')),
        (''id_expiry_date'', case p_id_expiry p of Some d \<Rightarrow> JStr (date_str d) | None \<Rightarrow> JNull),
        (''full_name'', field_json (p_full_name_ar p)),
        (''mobile_number'', JStr (normalize_mobile (or_str (p_mobile p) []))),
        (''email'', if is_set (p_email p) then field_json (p_email p) else JNull),
        (''nationality'', JStr (or_str (p_nationality p) ''SA''))])))"

definition build_organization_entity_attributes :: "party \<Rightarrow> exn + (string \<times> json) list" where
  "build_organization_entity_attributes p =
     ebind (require (field_json (or_field (p_cr_number p) (p_unified_number p)))
              ''cr_number / unified_number'') (\<lambda>_.
     Inr
       [(''cr_number'', JStr (or_str (p_cr_number p) [])),
        (''unified_number'', JStr (or_str (p_unified_number p) [])),
        (''organization_name'', JStr (or_str (p_full_name_ar p) [])),
        (''mobile_number'', JStr (normalize_mobile (or_str (p_mobile p) [])))])"

definition entity_type_of :: "string \<Rightarrow> string" where
  "entity_type_of ty = (if ty = ''organization'' then ''organization_entities'' else ''individual_entities'')"

definition build_party_attributes :: "party \<Rightarrow> string \<Rightarrow> exn + (string \<times> json) list" where
  "build_party_attributes p entity_id =
     ebind (require (JStr entity_id) ''ejar_entity_id'') (\<lambda>_.
     ebind (require (JStr (p_role p)) ''role'') (\<lambda>_.
     Inr
       [(''role'', JStr (p_role p)),
        (''protect_identity'', JBool False),
        (''is_representative'', JBool (p_role p \<in> set representative_roles)),
        (''_entity_id'', JStr entity_id),
        (''_entity_type'', JStr (entity_type_of (p_entity_type p)))]))"

definition if_nonzero :: "string \<Rightarrow> int \<Rightarrow> (string \<times> json) list" where
  "if_nonzero k n = (if n = 0 then [] else [(k, JInt n)])"

definition build_unit_attributes :: "unit_line \<Rightarrow> exn + (string \<times> json) list" where
  "build_unit_attributes u =
     ebind (require (field_json (u_deed_number u)) ''deed_number'') (\<lambda>_.
     ebind (require (field_json (u_unit_number u)) ''unit_number'') (\<lambda>_.
     Inr
       ([(''unit_number'', field_json (u_unit_number u)),
         (''unit_type'', JStr (or_str (u_unit_type u) ''apartment'')),
         (''area'', if u_area u = 0 then JInt 0 else JNum (py_round (u_area u) 2)),
         (''floor_number'', JInt (u_floor_number u)),
         (''furnishing'', JStr (or_str (u_furnishing u) ''unfurnished'')),
         (''finishing'', JStr (or_str (u_finishing u) ''finished''))]
        @ (if is_set (u_direction u) then [(''direction'', field_json (u_direction u))] else [])
        @ if_nonzero ''bedrooms'' (u_bedrooms u)
        @ if_nonzero ''bathrooms'' (u_bathrooms u)
        @ (case u_property u of
             None \<Rightarrow> []
           | Some pr \<Rightarrow>
               [(''deed_number'', JStr (or_str (pr_deed_number pr) [])),
                (''deed_type'', JStr (or_str (pr_deed_type pr) ''electronic'')),
                (''national_address_code'', JStr (or_str (pr_national_address_code pr) [])),
                (''building_number'', JStr (or_str (pr_building_number pr) [])),
                (''district'', JStr (or_str (pr_district_ar pr) (or_str (pr_district pr) []))),
                (''city'', JStr (case pr_city pr of Some ct \<Rightarrow> ct_name ct | None \<Rightarrow> [])),
                (''region'', JStr (case pr_region_code pr of Some r \<Rightarrow> r | None \<Rightarrow> [])),
                (''postal_code'', JStr (or_str (pr_postal_code pr) []))]))))"

definition build_custom_terms_attributes :: "contract \<Rightarrow> (string \<times> json) list option" where
  "build_custom_terms_attributes c =
     (if is_set (c_custom_terms c) then Some [(''terms'', field_json (c_custom_terms c))] else None)"

section \<open>Lemmas\<close>

lemma require_field [simp]:
  "require (field_json f) name = (if f = Some [] then Inl (payload_error name) else Inr ())"
  by (cases f) (simp_all add: require_def field_json_def equals_zero_def)

lemma require_num [simp]: "require (JNum r) name = Inr ()"
  by (simp add: require_def equals_zero_def)

lemma require_str [simp]:
  "require (JStr s) name = (if s = [] then Inl (payload_error name) else Inr ())"
  by (simp add: require_def equals_zero_def)

lemma date_str_nonempty [simp]: "date_str d \<noteq> []"
  by (simp add: date_str_def split: prod.splits)

lemma is_set_not_empty: "is_set f \<Longrightarrow> f \<noteq> Some []"
  by auto

lemma digits_of_decimals: "list_all is_decimal ds \<Longrightarrow> filter is_decimal ds = ds"
  by (induction ds) auto

lemma plus_not_decimal [simp]: "\<not> is_decimal (CHR ''+'')"
  by (simp add: is_decimal_def)

lemma filter_decimals: "list_all is_decimal (filter is_decimal s)"
  by (induction s) auto

lemma decimals_966 [simp]: "is_decimal (CHR ''9'')" "is_decimal (CHR ''6'')"
  by (simp_all add: is_decimal_def)

lemma normalize_plus_966:
  assumes "list_all is_decimal ds" and "starts_with ds ''966''"
  shows "normalize_mobile (''+'' @ ds) = ''+'' @ ds"
  using assms by (simp add: normalize_mobile_def digits_of_decimals)

lemma starts_966: "starts_with (''966'' @ ds) ''966''"
  by (simp add: starts_with_def)

lemma normalize_cases:
  "normalize_mobile m = m \<or> (\<exists>ds. normalize_mobile m = ''+'' @ ds \<and> list_all is_decimal ds \<and> starts_with ds ''966'')"
proof -
  let ?ds = "filter is_decimal m"
  have dec: "list_all is_decimal ?ds" by (rule filter_decimals)
  have more: "list_all is_decimal (''966'' @ drop k ?ds)" for k
    using dec by (auto simp: list_all_iff dest: in_set_dropD)
  show ?thesis
    using dec more [of 0] more [of 1] starts_966
    by (simp add: normalize_mobile_def Let_def)
qed

lemma contract_attributes_total:
  "build_contract_attributes c (Some pf) = Inr
       [(''contract_type'', JStr (or_str (c_contract_type c) ''residential'')),
        (''sub_type'', JStr (or_str (c_sub_type c) ''main'')),
        (''use_type'', JStr (or_str (c_use_type c) ''residential_families'')),
        (''contract_start_date'', JStr (date_str (c_start c))),
        (''contract_end_date'', JStr (date_str (c_end c))),
        (''number_of_years'', JNum (py_round (compute_duration c) 4)),
        (''sublease_allowed'', JBool (c_sublease c)),
        (''custom_terms_accepted'', JBool (is_set (c_custom_terms c)))]"
  by (simp add: build_contract_attributes_def)

lemma individual_attributes_iff:
  "(\<exists>attrs. build_individual_entity_attributes p = Inr attrs) \<longleftrightarrow>
     p_id_number p \<noteq> Some [] \<and> p_mobile p \<noteq> Some [] \<and> p_full_name_ar p \<noteq> Some []"
  by (simp add: build_individual_entity_attributes_def)

lemma organization_attributes_iff:
  "(\<exists>attrs. build_organization_entity_attributes p = Inr attrs) \<longleftrightarrow>
     or_field (p_cr_number p) (p_unified_number p) \<noteq> Some []"
  by (simp add: build_organization_entity_attributes_def)

section \<open>Properties\<close>

text \<open>
  Mobile numbers: the local form, the form with the trunk 0 and the international form
  of a nine-digit number, with any separators, all become \<open>+966\<close> and the nine digits (unless
  the nine digits themselves begin with 966); and normalising is idempotent on every string.
\<close>

theorem normalize_mobile_canonical:
  assumes "list_all is_decimal ds" and "length ds = 9" and "\<not> starts_with ds ''966''"
    and "filter is_decimal m \<in> {ds, ''0'' @ ds, ''966'' @ ds}"
  shows "normalize_mobile m = ''+966'' @ ds
    \<and> (\<forall>s. normalize_mobile (normalize_mobile s) = normalize_mobile s)"
proof
  have "m \<noteq> []" using assms(2,4) by auto
  then show "normalize_mobile m = ''+966'' @ ds"
    using assms(2,3,4) by (auto simp: normalize_mobile_def starts_with_def)
  show "\<forall>s. normalize_mobile (normalize_mobile s) = normalize_mobile s"
    using normalize_cases normalize_plus_966 by metis
qed

theorem normalize_mobile_canonical_witness:
  "normalize_mobile ''050 123-4567'' = ''+966501234567''"
proof -
  have "list_all is_decimal ''501234567''" "filter is_decimal ''050 123-4567'' = ''0501234567''"
    by (simp_all add: is_decimal_def)
  then show ?thesis
    using normalize_mobile_canonical [of "''501234567''" "''050 123-4567''"]
    by (simp add: starts_with_def)
qed

text \<open>
  What the builder's required-field check really guards for an individual: it refuses
  exactly the empty string, and an unset field (which reads \<open>False\<close>, equal to 0) passes and
  is sent. The submission's own validation closes the gap: for a party it accepts, the payload is
  built and carries the identity number and the name that are on the record.
\<close>

theorem individual_payload_required:
  "((\<exists>attrs. build_individual_entity_attributes p = Inr attrs) \<longleftrightarrow>
      p_id_number p \<noteq> Some [] \<and> p_mobile p \<noteq> Some [] \<and> p_full_name_ar p \<noteq> Some [])
   \<and> (party_validate p = Inr () \<and> p_entity_type p = ''individual'' \<longrightarrow>
      (\<exists>attrs id_no name. build_individual_entity_attributes p = Inr attrs
        \<and> p_id_number p = Some id_no \<and> id_no \<noteq> [] \<and> dict_get attrs ''id_number'' JNull = JStr id_no
        \<and> p_full_name_ar p = Some name \<and> name \<noteq> [] \<and> dict_get attrs ''full_name'' JNull = JStr name))"
proof (intro conjI impI individual_attributes_iff)
  assume "party_validate p = Inr () \<and> p_entity_type p = ''individual''"
  then have set: "is_set (p_id_number p)" "is_set (p_mobile p)" "is_set (p_full_name_ar p)"
    using party_validate_individual [of p] by simp_all
  then show "\<exists>attrs id_no name. build_individual_entity_attributes p = Inr attrs
        \<and> p_id_number p = Some id_no \<and> id_no \<noteq> [] \<and> dict_get attrs ''id_number'' JNull = JStr id_no
        \<and> p_full_name_ar p = Some name \<and> name \<noteq> [] \<and> dict_get attrs ''full_name'' JNull = JStr name"
    by (auto simp: build_individual_entity_attributes_def dict_get_def field_json_def elim!: is_setE)
qed

theorem individual_payload_required_witness:
  "party_validate (blank_party\<lparr>p_id_number := Some ''1234567890'', p_mobile := Some ''0501234567'',
      p_full_name_ar := Some ''Saad''\<rparr>) = Inr ()
   \<and> (\<exists>attrs. build_individual_entity_attributes (blank_party\<lparr>p_id_number := Some ''1234567890'',
        p_mobile := Some ''0501234567'', p_full_name_ar := Some ''Saad''\<rparr>) = Inr attrs
      \<and> dict_get attrs ''id_number'' JNull = JStr ''1234567890'')"
proof -
  let ?p = "blank_party\<lparr>p_id_number := Some ''1234567890'', p_mobile := Some ''0501234567'',
      p_full_name_ar := Some ''Saad''\<rparr>"
  have a: "party_validate ?p = Inr () \<and> p_entity_type ?p = ''individual''"
    by (simp add: party_validate_def party_missing_def blank_party_def representative_roles_def)
  show ?thesis
    using a mp [OF conjunct2 [OF individual_payload_required] a] by auto
qed

text \<open>
  The payload that creates a contract does not depend on the brokerage profile: with
  any profile it is built, and two profiles give the same attributes, so the office's identity
  reaches Ejar with the contract only through the credentials of the request.
\<close>

theorem contract_payload_ignores_profile:
  "\<exists>attrs. build_contract_attributes c (Some pf) = Inr attrs
    \<and> build_contract_attributes c (Some pf') = Inr attrs
    \<and> dict_get attrs ''contract_start_date'' JNull = JStr (date_str (c_start c))
    \<and> dict_get attrs ''contract_end_date'' JNull = JStr (date_str (c_end c))"
  by (simp add: contract_attributes_total dict_get_def)

end
