(* ===== verification/EjarSyncLog.thy ===== *)
theory EjarSyncLog
  imports EjarClient EjarPayload
begin

text \<open>
  The audit log \<^verbatim>\<open>models/ejar_sync_log.py\<close> and the state of a submission: the
  contract being worked on, the log and the chatter, what the last commit made durable, and the
  process-wide state of the gateway. The wall clock is read as an offset from the monotonic one.
  A selection field accepts the values it declares; the ORM raises \<open>ValueError\<close> on any other.
  JSON texts are kept as the values they were dumped from.
\<close>

section \<open>State\<close>

record log_entry =
  lg_action :: string
  lg_contract :: "int option"
  lg_company :: int
  lg_direction :: string
  lg_http_method :: string
  lg_endpoint :: string
  lg_http_status :: int
  lg_correlation :: string
  lg_idempotency :: string
  lg_attempt :: int
  lg_duration :: int
  lg_status :: string
  lg_error :: "exn option"
  lg_permanent :: bool
  lg_request :: json
  lg_response :: json
  lg_created :: datetime

record durable =
  dur_doc :: contract
  dur_logs :: "log_entry list"
  dur_chatter :: "message list"

record 'w env =
  net :: "'w sys"
  wall_offset :: datetime
  env_company :: int
  doc :: contract
  logs :: "log_entry list"
  chatter :: "message list"
  saved :: durable

definition utc_now :: "'w env \<Rightarrow> datetime" where
  "utc_now e = wall_offset e + \<lfloor>clock (net e)\<rfloor>"

definition write_doc :: "(contract \<Rightarrow> contract) \<Rightarrow> ('w env, exn, unit) opn" where
  "write_doc f = modify (\<lambda>e. e\<lparr>doc := f (doc e)\<rparr>)"

definition message_post :: "message \<Rightarrow> ('w env, exn, unit) opn" where
  "message_post m = modify (\<lambda>e. e\<lparr>chatter := chatter e @ [m]\<rparr>)"

definition snapshot :: "'w env \<Rightarrow> durable" where
  "snapshot e = \<lparr>dur_doc = doc e, dur_logs = logs e, dur_chatter = chatter e\<rparr>"

definition commit :: "('w env, exn, unit) opn" where
  "commit = modify (\<lambda>e. e\<lparr>saved := snapshot e\<rparr>)"

text \<open>A gateway call on the process-wide state.\<close>

definition on_net :: "('w sys, exn, 'a) opn \<Rightarrow> ('w env, exn, 'a) opn" where
  "on_net m e = (case m (net e) of (r, s) \<Rightarrow> (r, e\<lparr>net := s\<rparr>))"

section \<open>The log\<close>

definition LOG_STATUSES :: "string list" where
  "LOG_STATUSES = [''success'', ''error'', ''retry'', ''skipped'']"

definition LOG_DIRECTIONS :: "string list" where
  "LOG_DIRECTIONS = [''outbound'', ''inbound'']"

text \<open>The keyword defaults of \<open>log_call\<close>; a call overrides the ones it passes.\<close>

definition default_log :: log_entry where
  "default_log = \<lparr>lg_action = [], lg_contract = None, lg_company = 0, lg_direction = ''outbound'',
     lg_http_method = [], lg_endpoint = [], lg_http_status = 0, lg_correlation = [],
     lg_idempotency = [], lg_attempt = 1, lg_duration = 0, lg_status = ''success'',
     lg_error = None, lg_permanent = False, lg_request = JStr [], lg_response = JStr [],
     lg_created = 0\<rparr>"

definition log_call :: "log_entry \<Rightarrow> ('w env, exn, unit) opn" where
  "log_call l e =
     (if lg_status l \<notin> set LOG_STATUSES \<or> lg_direction l \<notin> set LOG_DIRECTIONS
      then (Inl (Py ValueError), e)
      else (Inr (), e\<lparr>logs := logs e @
             [l\<lparr>lg_company := (if lg_company l = 0 then env_company e else lg_company l),
                lg_created := utc_now e\<rparr>]\<rparr>))"

text \<open>
  \<open>write\<close>: any value for a key other than \<open>active\<close> is ignored; otherwise the call goes to the
  ORM, an argument here.
\<close>

definition log_write ::
  "((string \<times> json) list \<Rightarrow> log_entry list \<Rightarrow> log_entry list) \<Rightarrow> (string \<times> json) list
   \<Rightarrow> log_entry list \<Rightarrow> log_entry list" where
  "log_write super_write vals ls =
     (if \<not> (fst ` set vals \<subseteq> {''active''}) then ls else super_write vals ls)"

definition purge_old_sync_logs :: "datetime \<Rightarrow> log_entry list \<Rightarrow> log_entry list" where
  "purge_old_sync_logs now ls = filter (\<lambda>l. \<not> lg_created l < now - 90 * 86400) ls"

definition is_duplicate :: "datetime \<Rightarrow> string \<Rightarrow> log_entry list \<Rightarrow> bool" where
  "is_duplicate now idempotency_key ls =
     (if idempotency_key = [] then False
      else length (filter (\<lambda>l. lg_idempotency l = idempotency_key \<and> lg_created l \<ge> now - 24 * 3600) ls) > 0)"

section \<open>Lemmas\<close>

lemma write_doc_run [op_simps]: "write_doc f e = (Inr (), e\<lparr>doc := f (doc e)\<rparr>)"
  by (simp add: write_doc_def op_simps)

lemma message_post_run [op_simps]: "message_post m e = (Inr (), e\<lparr>chatter := chatter e @ [m]\<rparr>)"
  by (simp add: message_post_def op_simps)

lemma commit_run [op_simps]: "commit e = (Inr (), e\<lparr>saved := snapshot e\<rparr>)"
  by (simp add: commit_def op_simps)

lemma keeps_write_doc [keeps_intro]:
  "(\<And>e. P e \<Longrightarrow> P (e\<lparr>doc := f (doc e)\<rparr>)) \<Longrightarrow> keeps P (write_doc f)"
  unfolding write_doc_def by (rule keeps_modify)

lemma keeps_on_net:
  assumes "keeps Q m" and "\<And>e. P e \<Longrightarrow> Q (net e)"
    and "\<And>e s. P e \<Longrightarrow> Q s \<Longrightarrow> P (e\<lparr>net := s\<rparr>)"
  shows "keeps P (on_net m)"
  unfolding keeps_def on_net_def
proof (intro allI impI)
  fix e assume "P e"
  moreover have "Q (snd (m (net e)))"
    using assms(1,2) \<open>P e\<close> by (simp add: keeps_def)
  ultimately show "P (snd (case m (net e) of (r, s) \<Rightarrow> (r, e\<lparr>net := s\<rparr>)))"
    using assms(3) by (simp add: split_beta)
qed

lemma duplicate_iff:
  "is_duplicate now k ls \<longleftrightarrow> k \<noteq> [] \<and> (\<exists>l \<in> set ls. lg_idempotency l = k \<and> lg_created l \<ge> now - 86400)"
  by (auto simp: is_duplicate_def filter_empty_conv)

text \<open>A small complete contract, for concrete runs.\<close>

definition sample_party :: "string \<Rightarrow> party" where
  "sample_party role = blank_party\<lparr>p_role := role, p_id_number := Some ''1234567890'',
     p_mobile := Some ''0501234567'', p_full_name_ar := Some ''Saad'',
     p_iban := Some ''SA0380000000608010167519''\<rparr>"

definition sample_property :: eproperty where
  "sample_property = \<lparr>pr_name = Some ''Tower'', pr_property_type = Some ''residential'',
     pr_ejar_unit_type = None, pr_deed_number = Some ''310'', pr_deed_type = None,
     pr_national_address_code = Some ''ABCD1234'', pr_building_number = None, pr_district_ar = None,
     pr_district = None, pr_city = None, pr_region_code = None, pr_postal_code = None,
     pr_last_ejar_rent = 0, pr_rent_freeze_active = False\<rparr>"

definition sample_unit :: unit_line where
  "sample_unit = \<lparr>u_property = Some sample_property, u_unit_number = Some ''1'',
     u_unit_type = Some ''apartment'', u_area = 90, u_floor_number = 0, u_bedrooms = 0,
     u_bathrooms = 0, u_finishing = None, u_furnishing = None, u_direction = None,
     u_ejar_property_id = Some ''p1'', u_ejar_unit_id = Some ''u1'', u_contract_unit_id = None,
     u_sync_state = ''pending''\<rparr>"

definition sample_profile :: profile where
  "sample_profile = \<lparr>pf_company = 1, pf_office_name_ar = Some ''Office'',
     pf_cr_number = Some ''1010101010'', pf_unified_number = Some ''7001010101'',
     pf_license_number = Some ''L1'', pf_license_expiry = None, pf_vat_number = None,
     pf_representative = Some (blank_partner\<lparr>pt_national_id := Some ''1111111111''\<rparr>),
     pf_national_address_code = None\<rparr>"

definition sample_contract :: contract where
  "sample_contract = \<lparr>c_id = 7, c_company = 1, c_name = ''EJ7'', c_status = Draft,
     c_contract_type = Some ''residential'', c_sub_type = Some ''main'', c_use_type = None,
     c_profile = Some sample_profile, c_parties = [sample_party ''lessor'', sample_party ''tenant''],
     c_units = [sample_unit], c_start = 738156, c_end = 738520, c_rent = 60000,
     c_payment_schedule = Some ''monthly'', c_payment_option = None, c_sublease = False,
     c_brokerage_fee = 0, c_brokerage_fee_paid_by = None, c_ejar_fees_paid_by = None,
     c_signed_doc = Some ''JVBERg=='', c_signed_doc_filename = None, c_custom_terms = None,
     c_ejar_id = None, c_ejar_number = None, c_rejection_reason = None, c_submit_attempt = 0,
     c_submit_error = None, c_last_sync = None, c_next_poll = None, c_poll_count = 0,
     c_webhook_uuid = None, c_webhook_delivered = None, c_webhook_event = None,
     c_webhook_correlation = None, c_job_uuid = None, c_job_channel = None,
     c_job_enqueued_at = None, c_job_last_error = None\<rparr>"

definition sample_env :: "'w \<Rightarrow> 'w env" where
  "sample_env w = \<lparr>net = idle_sys w, wall_offset = 1000, env_company = 1, doc = sample_contract,
     logs = [], chatter = [],
     saved = \<lparr>dur_doc = sample_contract, dur_logs = [], dur_chatter = []\<rparr>\<rparr>"

section \<open>Properties\<close>

text \<open>
  The log is append-only: whatever values are written to it (other than an archive
  flag), it stays as it is; purging keeps every entry of the last ninety days, so the duplicate
  detection of incoming webhooks, which looks back one day, gives the same answer after a purge.
\<close>

theorem log_append_only:
  "((\<exists>k \<in> fst ` set vals. k \<noteq> ''active'') \<longrightarrow> log_write super_write vals ls = ls)
   \<and> is_duplicate now k (purge_old_sync_logs now ls) = is_duplicate now k ls"
  by (auto simp: log_write_def duplicate_iff purge_old_sync_logs_def)

theorem log_append_only_witness:
  "log_write (\<lambda>_ _. []) [(''status'', JStr ''success'')] [default_log\<lparr>lg_status := ''error''\<rparr>]
     = [default_log\<lparr>lg_status := ''error''\<rparr>]"
  using conjunct1 [OF log_append_only [of "[(''status'', JStr ''success'')]" "\<lambda>_ _. []"
      "[default_log\<lparr>lg_status := ''error''\<rparr>]"]]
  by simp

end
