(* ===== verification/EjarContract.thy ===== *)
theory EjarContract
  imports EjarSyncLog
begin

text \<open>
  The state machine of \<^verbatim>\<open>models/ejar_contract.py\<close>: the actions of the form, the
  transition constraint, and the upload wizard \<^verbatim>\<open>wizard/ejar_upload_doc_wizard.py\<close>. The
  constraint runs after the write, on the stored record, whose \<open>_origin\<close> is the record itself.
\<close>

section \<open>Transitions\<close>

definition TERMINAL_STATES :: "ejar_status list" where
  "TERMINAL_STATES = [Expired, Cancelled]"

definition POLLABLE_STATES :: "ejar_status list" where
  "POLLABLE_STATES = [Submitted]"

fun allowed :: "ejar_status \<Rightarrow> ejar_status list" where
  "allowed Draft = [Building, Cancelled]"
| "allowed Building = [Ready, Draft, Cancelled]"
| "allowed Ready = [Building, Submitting, Cancelled]"
| "allowed Submitting = [Submitted, Ready]"
| "allowed Submitted = [Approved, Rejected, Cancelled]"
| "allowed Approved = [Expired, Cancelled]"
| "allowed Rejected = [Draft, Cancelled]"
| "allowed Expired = []"
| "allowed Cancelled = []"

definition check_state_transition :: "contract \<Rightarrow> contract \<Rightarrow> exn + unit" where
  "check_state_transition origin c =
     (if c_id c = 0 then Inr ()
      else
        (let old = c_status origin; new = c_status c in
         if old = new then Inr ()
         else if new \<notin> set (allowed old) then Inl (OrmValidation (Text ''transition not allowed''))
         else Inr ()))"

definition stored_origin :: "contract \<Rightarrow> contract" where
  "stored_origin c = c"

definition set_status :: "ejar_status \<Rightarrow> ('w env, exn, unit) opn" where
  "set_status new =
     andthen (write_doc (\<lambda>c. c\<lparr>c_status := new\<rparr>))
       (\<lambda>e. (check_state_transition (stored_origin (doc e)) (doc e), e))"

section \<open>Actions\<close>

definition user_error :: "string \<Rightarrow> ('w env, exn, unit) opn" where
  "user_error t = raise (UserError (Text t))"

definition guard :: "('w env \<Rightarrow> bool) \<Rightarrow> string \<Rightarrow> ('w env, exn, unit) opn" where
  "guard ok t e = (if ok e then ret () else user_error t) e"

definition assert_not_terminal :: "('w env, exn, unit) opn" where
  "assert_not_terminal =
     guard (\<lambda>e. c_status (doc e) \<notin> set TERMINAL_STATES) ''contract in a terminal state''"

definition ready_missing :: "contract \<Rightarrow> string list" where
  "ready_missing c =
     missing_if (\<not> has_lessor c) ''lessor''
     @ missing_if (\<not> has_tenant c) ''tenant''
     @ missing_if (\<not> has_unit c) ''unit''
     @ missing_if (\<not> is_set (c_signed_doc c)) ''signed_doc''
     @ missing_if (c_profile c = None) ''brokerage_profile_id''"

definition validate_ready_state :: "('w env, exn, unit) opn" where
  "validate_ready_state e =
     (if ready_missing (doc e) \<noteq> [] then raise (UserError (Incomplete (ready_missing (doc e))))
      else ret ()) e"

definition action_start_building :: "('w env, exn, unit) opn" where
  "action_start_building =
     andthen assert_not_terminal
     (andthen (guard (\<lambda>e. c_status (doc e) = Draft) ''only from draft'')
     (andthen (set_status Building)
        (message_post (Text ''building started''))))"

definition action_mark_ready :: "('w env, exn, unit) opn" where
  "action_mark_ready =
     andthen assert_not_terminal
     (andthen (guard (\<lambda>e. c_status (doc e) = Building) ''only while building'')
     (andthen validate_ready_state
     (andthen (set_status Ready)
        (message_post (Text ''ready to submit'')))))"

definition action_submit_to_ejar :: "('w env, exn, unit) opn" where
  "action_submit_to_ejar =
     andthen assert_not_terminal
     (andthen (guard (\<lambda>e. c_status (doc e) \<in> {Ready, Building}) ''only ready or building'')
       (\<lambda>e. (if c_status (doc e) = Building \<and> is_ready_to_submit (doc e)
             then set_status Ready else ret ()) e))"

definition action_reset_to_draft :: "('w env, exn, unit) opn" where
  "action_reset_to_draft =
     andthen (guard (\<lambda>e. c_status (doc e) = Rejected) ''only from rejected'')
     (andthen (set_status Draft)
        (message_post (Text ''reset to draft'')))"

definition action_cancel :: "('w env, exn, unit) opn" where
  "action_cancel =
     andthen (guard (\<lambda>e. c_status (doc e) \<notin> set TERMINAL_STATES) ''contract in a terminal state'')
     (andthen (set_status Cancelled)
        (message_post (Text ''cancelled'')))"

text \<open>\<open>str.lower\<close> on Latin-1; the wizard's constraint reads the end of the file name.\<close>

definition lower_char :: "char \<Rightarrow> char" where
  "lower_char c =
     (if 65 \<le> code c \<and> code c \<le> 90 \<or> 192 \<le> code c \<and> code c \<le> 222 \<and> code c \<noteq> 215
      then char_of (code c + 32) else c)"

definition check_pdf :: "char_field \<Rightarrow> exn + unit" where
  "check_pdf filename =
     (if is_set filename \<and> \<not> ends_with (map lower_char (the filename)) ''.pdf''
      then Inl (UserError (Text ''not a PDF'')) else Inr ())"

definition action_upload :: "char_field \<Rightarrow> char_field \<Rightarrow> ('w env, exn, unit) opn" where
  "action_upload signed_doc filename =
     andthen (guard (\<lambda>_. is_set signed_doc) ''choose a file'')
     (andthen (\<lambda>e. write_doc (\<lambda>c. c\<lparr>c_signed_doc := signed_doc,
          c_signed_doc_filename := Some (or_str filename (c_name c @ ''.pdf''))\<rparr>) e)
     (andthen (message_post (Text ''signed contract uploaded''))
       (\<lambda>e. (if c_status (doc e) = Building \<and> is_ready_to_submit (doc e)
             then andthen (set_status Ready) (message_post (Text ''ready to submit''))
             else ret ()) e)))"

section \<open>Creation\<close>

text \<open>
  \<open>create\<close>: the sequence (\<open>next_code\<close>, empty when none is configured) names a contract that still
  has the draft name, and a missing profile is looked up by company.
\<close>

definition DRAFT_NAME :: string where "DRAFT_NAME = ''draft''"

definition prepare_create :: "string option \<Rightarrow> (int \<Rightarrow> profile option) \<Rightarrow> contract \<Rightarrow> contract" where
  "prepare_create next_code find_profile c =
     c\<lparr>c_name := (if c_name c = DRAFT_NAME then or_str next_code DRAFT_NAME else c_name c),
       c_profile := (case c_profile c of Some pf \<Rightarrow> Some pf | None \<Rightarrow> find_profile (c_company c))\<rparr>"

section \<open>Lemmas\<close>

lemma check_stored [simp]: "check_state_transition (stored_origin c) c = Inr ()"
  by (simp add: check_state_transition_def stored_origin_def Let_def)

lemma set_status_run [op_simps]: "set_status new e = (Inr (), e\<lparr>doc := (doc e)\<lparr>c_status := new\<rparr>\<rparr>)"
  by (simp add: set_status_def andthen_def bind_def write_doc_run)

lemma guard_run [op_simps]:
  "ok e \<Longrightarrow> guard ok t e = (Inr (), e)"
  "\<not> ok e \<Longrightarrow> guard ok t e = (Inl (UserError (Text t)), e)"
  by (simp_all add: guard_def user_error_def op_simps)

lemma guard_cases: "guard ok t e = (if ok e then (Inr (), e) else (Inl (UserError (Text t)), e))"
  by (simp add: op_simps)

lemma andthen_split: "andthen m n e = (case m e of (Inl x, t) \<Rightarrow> (Inl x, t) | (Inr y, t) \<Rightarrow> n t)"
  by (simp add: andthen_def bind_def split: prod.splits sum.splits)

lemma ready_missing_Nil:
  "ready_missing c = [] \<longleftrightarrow> has_lessor c \<and> has_tenant c \<and> has_unit c \<and> is_set (c_signed_doc c)
     \<and> c_profile c \<noteq> None"
  by (simp add: ready_missing_def)

datatype user_action = StartBuilding | MarkReady | OpenSubmit | ResetToDraft | Cancel
  | Upload char_field char_field

fun run_action :: "user_action \<Rightarrow> ('w env, exn, unit) opn" where
  "run_action StartBuilding = action_start_building"
| "run_action MarkReady = action_mark_ready"
| "run_action OpenSubmit = action_submit_to_ejar"
| "run_action ResetToDraft = action_reset_to_draft"
| "run_action Cancel = action_cancel"
| "run_action (Upload d f) = action_upload d f"

declare run_action.simps [simp del]

lemmas action_defs = action_start_building_def action_mark_ready_def action_submit_to_ejar_def
  action_reset_to_draft_def action_cancel_def action_upload_def assert_not_terminal_def
  validate_ready_state_def

lemmas action_runs = andthen_split guard_cases op_simps TERMINAL_STATES_def

text \<open>What one action does to the contract, in one lemma per action.\<close>

lemma action_effects:
  "run_action StartBuilding e =
     (if c_status (doc e) = Draft
      then (Inr (), e\<lparr>doc := (doc e)\<lparr>c_status := Building\<rparr>, chatter := chatter e @ [Text ''building started'']\<rparr>)
      else (Inl (UserError (Text (if c_status (doc e) \<in> {Expired, Cancelled}
        then ''contract in a terminal state'' else ''only from draft''))), e))"
  "run_action ResetToDraft e =
     (if c_status (doc e) = Rejected
      then (Inr (), e\<lparr>doc := (doc e)\<lparr>c_status := Draft\<rparr>, chatter := chatter e @ [Text ''reset to draft'']\<rparr>)
      else (Inl (UserError (Text ''only from rejected'')), e))"
  "run_action Cancel e =
     (if c_status (doc e) \<in> {Expired, Cancelled}
      then (Inl (UserError (Text ''contract in a terminal state'')), e)
      else (Inr (), e\<lparr>doc := (doc e)\<lparr>c_status := Cancelled\<rparr>, chatter := chatter e @ [Text ''cancelled'']\<rparr>))"
  by (auto simp: run_action.simps action_defs action_runs)

lemma mark_ready_effect:
  "run_action MarkReady e =
     (if c_status (doc e) = Building
      then if ready_missing (doc e) = []
        then (Inr (), e\<lparr>doc := (doc e)\<lparr>c_status := Ready\<rparr>, chatter := chatter e @ [Text ''ready to submit'']\<rparr>)
        else (Inl (UserError (Incomplete (ready_missing (doc e)))), e)
      else (Inl (UserError (Text (if c_status (doc e) \<in> {Expired, Cancelled}
        then ''contract in a terminal state'' else ''only while building''))), e))"
  by (auto simp: run_action.simps action_defs action_runs)

lemma open_submit_effect:
  "run_action OpenSubmit e =
     (if c_status (doc e) = Building
      then (Inr (), if is_ready_to_submit (doc e) then e\<lparr>doc := (doc e)\<lparr>c_status := Ready\<rparr>\<rparr> else e)
      else if c_status (doc e) = Ready then (Inr (), e)
      else (Inl (UserError (Text (if c_status (doc e) \<in> {Expired, Cancelled}
        then ''contract in a terminal state'' else ''only ready or building''))), e))"
  by (auto simp: run_action.simps action_defs action_runs)

lemma upload_effect:
  "run_action (Upload d f) e =
     (if is_set d
      then let c = (doc e)\<lparr>c_signed_doc := d,
             c_signed_doc_filename := Some (or_str f (c_name (doc e) @ ''.pdf''))\<rparr>
        in if c_status (doc e) = Building \<and> is_ready_to_submit c
           then (Inr (), e\<lparr>doc := c\<lparr>c_status := Ready\<rparr>,
             chatter := chatter e @ [Text ''signed contract uploaded'', Text ''ready to submit'']\<rparr>)
           else (Inr (), e\<lparr>doc := c, chatter := chatter e @ [Text ''signed contract uploaded'']\<rparr>)
      else (Inl (UserError (Text ''choose a file'')), e))"
  by (simp add: run_action.simps action_defs action_runs Let_def)

lemmas all_effects = action_effects mark_ready_effect open_submit_effect upload_effect

lemma ready_to_submit_missing: "is_ready_to_submit c \<Longrightarrow> ready_missing c = []"
  by (simp add: is_ready_to_submit_def ready_missing_Nil)

lemma ready_missing_status [simp]: "ready_missing (c\<lparr>c_status := st\<rparr>) = ready_missing c"
  by (simp add: ready_missing_def has_lessor_def has_tenant_def has_unit_def)

lemma upload_refused: "fst (run_action (Upload d f) e) = Inl x \<Longrightarrow> \<not> is_set d"
  by (cases "is_set d") (simp_all add: upload_effect Let_def split: if_split_asm)

lemma action_refused: "fst (run_action a e) = Inl x \<Longrightarrow> snd (run_action a e) = e"
proof (cases a)
  case (Upload d f)
  assume "fst (run_action a e) = Inl x"
  then have "\<not> is_set d" unfolding Upload by (rule upload_refused)
  then show ?thesis by (simp add: Upload upload_effect)
qed (auto simp: action_effects mark_ready_effect open_submit_effect split: if_split_asm)

lemma upload_status:
  "c_status (doc (snd (run_action (Upload d f) e))) =
     (if is_set d \<and> c_status (doc e) = Building
         \<and> is_ready_to_submit ((doc e)\<lparr>c_signed_doc := d,
             c_signed_doc_filename := Some (or_str f (c_name (doc e) @ ''.pdf''))\<rparr>)
      then Ready else c_status (doc e))"
  by (simp add: upload_effect Let_def)

lemma action_status:
  "c_status (doc (snd (run_action a e))) = c_status (doc e)
   \<or> c_status (doc (snd (run_action a e))) \<in> set (allowed (c_status (doc e)))
   \<or> (a = Cancel \<and> c_status (doc e) = Submitting \<and> c_status (doc (snd (run_action a e))) = Cancelled)"
proof (cases a)
  case (Upload d f)
  have "c_status (doc (snd (run_action a e))) = c_status (doc e)
    \<or> c_status (doc e) = Building \<and> c_status (doc (snd (run_action a e))) = Ready"
    unfolding Upload upload_status by simp
  then show ?thesis by fastforce
qed (cases "c_status (doc e)"; simp add: action_effects mark_ready_effect open_submit_effect)+

lemma action_terminal:
  "c_status (doc e) \<in> {Expired, Cancelled} \<Longrightarrow> c_status (doc (snd (run_action a e))) = c_status (doc e)"
  by (cases a) (auto simp: all_effects Let_def)

lemma action_ready:
  assumes "c_status (doc (snd (run_action a e))) = Ready" and "c_status (doc e) \<noteq> Ready"
  shows "ready_missing (doc (snd (run_action a e))) = []"
proof (cases a)
  case (Upload d f)
  then show ?thesis
    using assms by (auto simp: upload_effect Let_def ready_to_submit_missing split: if_splits)
qed (use assms in \<open>auto simp: action_effects mark_ready_effect open_submit_effect
  ready_to_submit_missing split: if_splits\<close>)

lemma upload_keeps_ready:
  "ready_missing c = [] \<Longrightarrow> is_set d \<Longrightarrow>
     ready_missing (c\<lparr>c_signed_doc := d, c_signed_doc_filename := f\<rparr>) = []"
  by (simp add: ready_missing_Nil has_lessor_def has_tenant_def has_unit_def)

lemma ceiling_rounded_years:
  fixes n :: int
  shows "\<lceil>py_round (of_int n / 365) 4\<rceil> = \<lceil>of_int n / (365 :: rat)\<rceil>"
proof (cases "n mod 365 = 0")
  case True
  then obtain k where n: "n = 365 * k" by (auto simp: dvd_eq_mod_eq_0 [symmetric] elim: dvdE)
  have "py_round (of_int k) 4 = of_int k"
    using round_half_even_int [of "k * 10 ^ 4"] by (simp add: py_round_def)
  then show ?thesis by (simp add: n)
next
  case False
  define q where "q = n div 365"
  define r where "r = n mod 365"
  have n: "n = 365 * q + r" by (simp add: q_def r_def)
  have "0 \<le> r" "r < 365" by (simp_all add: r_def)
  with False have r: "1 \<le> r" "r \<le> 364" by (simp_all add: r_def)
  have x: "of_int n / (365 :: rat) = of_int q + of_int r / 365" by (simp add: n field_simps)
  have lo: "of_int q + 1 / 365 \<le> of_int n / (365 :: rat)" and hi: "of_int n / (365 :: rat) \<le> of_int q + 1 - 1 / 365"
    using r unfolding x by (simp_all add: field_simps)
  have "\<bar>py_round (of_int n / 365) 4 - of_int n / 365\<bar> \<le> 1 / 20000"
    using py_round_error [of "of_int n / 365" 4] by simp
  then have "of_int q < py_round (of_int n / 365) 4" "py_round (of_int n / 365) 4 \<le> of_int (q + 1)"
    using lo hi by linarith+
  moreover have "of_int q < of_int n / (365 :: rat)" "of_int n / (365 :: rat) \<le> of_int (q + 1)"
    using lo hi by linarith+
  ultimately have "\<lceil>py_round (of_int n / 365) 4\<rceil> = q + 1" "\<lceil>of_int n / (365 :: rat)\<rceil> = q + 1"
    by (simp_all add: ceiling_eq_iff)
  then show ?thesis by simp
qed

section \<open>Properties\<close>

text \<open>
  Every action of the form follows the transition table: it fails and changes nothing,
  or it keeps the status, or it moves along an edge of the table. The one exception is cancelling
  while a submission is running, an edge the table does not have.
\<close>

theorem actions_follow_table:
  "case run_action a e of
     (Inl _, e') \<Rightarrow> e' = e
   | (Inr _, e') \<Rightarrow>
       c_status (doc e') = c_status (doc e) \<or> c_status (doc e') \<in> set (allowed (c_status (doc e)))
       \<or> (a = Cancel \<and> c_status (doc e) = Submitting \<and> c_status (doc e') = Cancelled
          \<and> Cancelled \<notin> set (allowed Submitting))"
proof (cases "run_action a e")
  case (Pair r e')
  then show ?thesis
  proof (cases r)
    case (Inl x)
    with Pair show ?thesis using action_refused [of a e x] by simp
  next
    case (Inr u)
    with Pair show ?thesis using action_status [of a e] by auto
  qed
qed

text \<open>
  The transition constraint never refuses a stored contract: every status change
  succeeds, because the constraint compares the new status with itself. With the record as it was
  before the write, it would refuse exactly the changes outside the table.
\<close>

theorem transition_constraint_inert:
  "set_status new e = (Inr (), e\<lparr>doc := (doc e)\<lparr>c_status := new\<rparr>\<rparr>)
   \<and> (c_id (doc e) = 0 \<or>
      (check_state_transition (doc e) ((doc e)\<lparr>c_status := new\<rparr>) = Inr () \<longleftrightarrow>
        new = c_status (doc e) \<or> new \<in> set (allowed (c_status (doc e)))))"
  by (auto simp: set_status_run check_state_transition_def Let_def)

text \<open>
  The documentation fee is 125 SAR for every started year of 365 days, for every
  contract whose dates pass the constraint: rounding the duration to four digits never moves it
  over a year's boundary.
\<close>

theorem doc_fee_per_started_year:
  assumes "check_dates c = Inr ()"
  shows "compute_doc_fee c = 125 * of_int \<lceil>of_int (c_end c - c_start c) / (365 :: rat)\<rceil>"
proof -
  let ?n = "c_end c - c_start c"
  have "0 < ?n" using assms by (simp add: check_dates_def split: if_splits)
  then have pos: "0 < \<lceil>of_int ?n / (365 :: rat)\<rceil>" by simp
  have eq: "\<lceil>compute_duration c\<rceil> = \<lceil>of_int ?n / (365 :: rat)\<rceil>"
    unfolding compute_duration_def by (rule ceiling_rounded_years)
  have "\<lceil>compute_duration c\<rceil> \<noteq> 0" unfolding eq using pos by linarith
  then have "compute_doc_fee c = of_int \<lceil>compute_duration c\<rceil> * 125"
    by (simp only: compute_doc_fee_def Let_def if_False)
  then show ?thesis unfolding eq by (simp only: mult.commute)
qed

theorem doc_fee_per_started_year_witness:
  "check_dates (sample_contract\<lparr>c_start := 100, c_end := 466\<rparr>) = Inr ()
   \<and> compute_doc_fee (sample_contract\<lparr>c_start := 100, c_end := 466\<rparr>) = 250"
proof -
  have ok: "check_dates (sample_contract\<lparr>c_start := 100, c_end := 466\<rparr>) = Inr ()"
    by (simp add: check_dates_def)
  have two: "\<lceil>366 / (365 :: rat)\<rceil> = 2" by (simp add: ceiling_eq_iff)
  show ?thesis using ok doc_fee_per_started_year [OF ok] two by simp
qed

end
