(* ===== verification/EjarLifecycle.thy ===== *)
theory EjarLifecycle
  imports EjarContract
begin

text \<open>
  \<^verbatim>\<open>services/lifecycle_service.py\<close>: the submission pipeline of one contract, step by
  step over the gateway, with its commits, and the polling of a submitted contract
  (\<^verbatim>\<open>_poll_ejar_status\<close> and the cron of \<^verbatim>\<open>models/ejar_contract.py\<close>).
  The correlation id is an argument. A party or unit is named by its position in the contract's list.
  Response values of any JSON kind are followed as Python would: a missing dictionary is an
  \<open>AttributeError\<close> of the step.
\<close>

section \<open>Reading responses\<close>

definition py_op :: "py_error + 'a \<Rightarrow> ('s, exn, 'a) opn" where
  "py_op r = lift_result (case r of Inl e \<Rightarrow> Inl (Py e) | Inr x \<Rightarrow> Inr x)"

definition response_data :: "json \<Rightarrow> py_error + json" where
  "response_data resp = json_get resp ''data'' (JObj [])"

definition response_id :: "json \<Rightarrow> py_error + json" where
  "response_id resp = ebind (response_data resp) (\<lambda>d. json_get d ''id'' (JStr []))"

text \<open>What a character field holds after a value is written to it.\<close>

definition orm_char :: "pylib \<Rightarrow> json \<Rightarrow> char_field" where
  "orm_char L j = (if j = JNull \<or> j = JBool False then None else Some (str_json L j))"

text \<open>\<open>except EjarConflictError as exc\<close>\<close>

definition on_conflict ::
  "('s, exn, 'a) opn \<Rightarrow> (ejar_exc \<Rightarrow> ('s, exn, 'a) opn) \<Rightarrow> ('s, exn, 'a) opn" where
  "on_conflict m h = catch m (\<lambda>e. case e of
      Ejar x \<Rightarrow> if isinstance (exc_class x) [EjarConflictError] then h x else raise e
    | _ \<Rightarrow> raise e)"

text \<open>The response a conflict stands for: the existing resource's id, or the conflict again.\<close>

definition adopt_existing :: "(json \<Rightarrow> json) \<Rightarrow> ejar_exc \<Rightarrow> ('s, exn, json) opn" where
  "adopt_existing wrap x =
     bind (py_op (json_get (exc_existing x) ''id'' (JStr []))) (\<lambda>existing_id.
       if \<not> truthy existing_id then raise (Ejar x) else ret (wrap existing_id))"

section \<open>Writes and log\<close>

definition upd_party :: "nat \<Rightarrow> (party \<Rightarrow> party) \<Rightarrow> contract \<Rightarrow> contract" where
  "upd_party i f c = c\<lparr>c_parties := (c_parties c)[i := f (c_parties c ! i)]\<rparr>"

definition upd_unit :: "nat \<Rightarrow> (unit_line \<Rightarrow> unit_line) \<Rightarrow> contract \<Rightarrow> contract" where
  "upd_unit i f c = c\<lparr>c_units := (c_units c)[i := f (c_units c ! i)]\<rparr>"

definition sync_log ::
  "string \<Rightarrow> string \<Rightarrow> string \<Rightarrow> exn option \<Rightarrow> json \<Rightarrow> ('w env, exn, unit) opn" where
  "sync_log action cid status err response e =
     log_call (default_log\<lparr>lg_action := action, lg_contract := Some (c_id (doc e)),
       lg_company := c_company (doc e), lg_correlation := cid, lg_status := status,
       lg_error := err, lg_response := response\<rparr>) e"

definition log_success :: "string \<Rightarrow> string \<Rightarrow> json \<Rightarrow> ('w env, exn, unit) opn" where
  "log_success action cid response = sync_log action cid ''success'' None response"

definition with_doc :: "(contract \<Rightarrow> ('w env, exn, 'a) opn) \<Rightarrow> ('w env, exn, 'a) opn" where
  "with_doc f e = f (doc e) e"

text \<open>What the steps share: library, network, client, correlation id.\<close>

record 'w session =
  lib :: pylib
  send :: "'w transport"
  client_of :: client
  corr :: string

section \<open>Steps\<close>

definition today :: "'w env \<Rightarrow> date" where
  "today e = utc_now e div 86400 + 719163"

definition resolve_profile ::
  "(int \<Rightarrow> profile option) \<Rightarrow> ('w env, exn, profile) opn" where
  "resolve_profile find_profile = with_doc (\<lambda>c.
     bind (case c_profile c of
             Some pf \<Rightarrow> ret pf
           | None \<Rightarrow>
               (case find_profile (c_company c) of
                  Some pf \<Rightarrow> andthen (write_doc (\<lambda>c. c\<lparr>c_profile := Some pf\<rparr>)) (ret pf)
                | None \<Rightarrow> raise (UserError (Text ''no brokerage profile for the company''))))
       (\<lambda>pf.
         andthen (\<lambda>e. (profile_validate (today e) pf, e))
         (andthen (for_each (\<lambda>p. lift_result (party_validate p)) (c_parties c))
         (andthen (for_each (\<lambda>u. lift_result (unit_validate u)) (c_units c))
           (ret pf)))))"

definition build_client :: "cred_sources \<Rightarrow> ('w env, exn, client) opn" where
  "build_client src = with_doc (\<lambda>c. on_net (new_client src (c_company c) []))"

definition step_create_entity :: "'w session \<Rightarrow> nat \<Rightarrow> ('w env, exn, unit) opn" where
  "step_create_entity S i = with_doc (\<lambda>c.
     let p = c_parties c ! i;
         action = (if p_entity_type p = ''individual'' then ''create_individual_entity''
                   else ''create_organization_entity'');
         attrs = (if p_entity_type p = ''individual'' then build_individual_entity_attributes p
                  else build_organization_entity_attributes p);
         call = (if p_entity_type p = ''individual'' then create_individual_entity
                 else create_organization_entity)
     in
     bind (lift_result attrs) (\<lambda>a.
     bind (on_conflict (on_net (call (lib S) (send S) (client_of S) a (corr S)))
             (adopt_existing (\<lambda>j. JObj [(''data'', JObj [(''id'', j)])]))) (\<lambda>resp.
     bind (py_op (response_id resp)) (\<lambda>entity_id.
     andthen (write_doc (upd_party i (\<lambda>p. p\<lparr>p_entity_id := orm_char (lib S) entity_id,
                p_sync_state := ''synced''\<rparr>)))
       (log_success action (corr S) (JObj [(''entity_id'', entity_id)]))))))"

definition resolve_party_entities :: "'w session \<Rightarrow> ('w env, exn, unit) opn" where
  "resolve_party_entities S = with_doc (\<lambda>c.
     for_each (\<lambda>i. with_doc (\<lambda>c.
         if is_set (p_entity_id (c_parties c ! i))
         then sync_log ''create_entity'' (corr S) ''skipped'' None (JStr [])
         else step_create_entity S i))
       [0..<length (c_parties c)])"

definition step_create_contract :: "'w session \<Rightarrow> profile \<Rightarrow> ('w env, exn, json) opn" where
  "step_create_contract S pf = with_doc (\<lambda>c.
     if is_set (c_ejar_id c) then ret (field_json (c_ejar_id c))
     else
       bind (lift_result (build_contract_attributes c (Some pf))) (\<lambda>attrs.
       bind (on_conflict (on_net (create_contract (lib S) (send S) (client_of S) attrs (corr S)))
               (\<lambda>x. adopt_existing
                  (\<lambda>j. JObj [(''data'', JObj [(''id'', j), (''attributes'', exc_existing x)])]) x)) (\<lambda>resp.
       bind (py_op (response_id resp)) (\<lambda>ejar_id.
       bind (py_op (ebind (response_data resp) (\<lambda>d.
               ebind (json_get d ''attributes'' (JObj [])) (\<lambda>a.
                 json_get a ''contract_number'' (JStr []))))) (\<lambda>ejar_number.
       andthen (write_doc (\<lambda>c. c\<lparr>c_ejar_id := orm_char (lib S) ejar_id,
                  c_ejar_number := orm_char (lib S) ejar_number\<rparr>))
       (andthen (log_success ''create_contract'' (corr S) (JObj [(''ejar_contract_id'', ejar_id)]))
         (ret ejar_id)))))))"

definition step_attach_unit :: "'w session \<Rightarrow> string \<Rightarrow> nat \<Rightarrow> ('w env, exn, unit) opn" where
  "step_attach_unit S ejar_id i = with_doc (\<lambda>c.
     let u = c_units c ! i;
         store = (\<lambda>j. write_doc (upd_unit i (\<lambda>u. u\<lparr>u_contract_unit_id := orm_char (lib S) j,
                   u_sync_state := ''synced''\<rparr>)))
     in
     if is_set (u_contract_unit_id u) then ret ()
     else if \<not> is_set (u_ejar_property_id u) \<or> \<not> is_set (u_ejar_unit_id u)
     then raise (Ejar (mk_exc EjarPayloadError (UnitNotRegistered (int i))))
     else
       bind (on_conflict
              (bind (on_net (attach_unit (lib S) (send S) (client_of S) ejar_id
                 (the (u_ejar_property_id u)) (the (u_ejar_unit_id u)) (corr S))) (\<lambda>r. ret (Inr r)))
              (\<lambda>x. ret (Inl x))) (\<lambda>outcome.
       case outcome of
         Inl x \<Rightarrow> bind (py_op (json_get (exc_existing x) ''id'' (JStr []))) store
       | Inr resp \<Rightarrow>
           bind (py_op (response_id resp)) (\<lambda>j.
             andthen (store j) (log_success ''attach_unit'' (corr S) (JStr [])))))"

definition step_add_party :: "'w session \<Rightarrow> string \<Rightarrow> nat \<Rightarrow> ('w env, exn, unit) opn" where
  "step_add_party S ejar_id i = with_doc (\<lambda>c.
     let p = c_parties c ! i;
         store = (\<lambda>j. write_doc (upd_party i (\<lambda>p. p\<lparr>p_party_id := orm_char (lib S) j,
                   p_sync_state := ''synced''\<rparr>)))
     in
     if is_set (p_party_id p) then ret ()
     else if \<not> is_set (p_entity_id p)
     then raise (Ejar (mk_exc EjarPayloadError (PartyWithoutEntity (int i))))
     else
       bind (lift_result (build_party_attributes p (the (p_entity_id p)))) (\<lambda>attrs.
       bind (on_conflict
              (bind (on_net (add_party (lib S) (send S) (client_of S) ejar_id attrs (corr S)))
                 (\<lambda>r. ret (Inr r)))
              (\<lambda>x. ret (Inl x))) (\<lambda>outcome.
       case outcome of
         Inl x \<Rightarrow> bind (py_op (json_get (exc_existing x) ''id'' (JStr []))) store
       | Inr resp \<Rightarrow>
           bind (py_op (response_id resp)) (\<lambda>j.
             andthen (store j)
               (log_success ''add_party'' (corr S)
                  (JObj [(''role'', JStr (p_role p)), (''ejar_party_id'', j)]))))))"

definition step_upload_proxy_doc :: "'w session \<Rightarrow> string \<Rightarrow> nat \<Rightarrow> ('w env, exn, unit) opn" where
  "step_upload_proxy_doc S ejar_id i = with_doc (\<lambda>c.
     let p = c_parties c ! i in
     if is_set (p_proxy_doc_id p) \<or> \<not> is_set (p_proxy_doc p) then ret ()
     else if \<not> is_set (p_party_id p) then ret ()
     else
       bind (on_net (upload_proxy_document (lib S) (send S) (client_of S) ejar_id (the (p_party_id p))
               (b64decode (the (p_proxy_doc p)))
               (or_str (p_proxy_doc_filename p) (''proxy_'' @ the (p_party_id p) @ ''.pdf''))
               (or_str (p_proxy_doc_type p) ''paper_poa'') (corr S))) (\<lambda>resp.
       bind (py_op (response_id resp)) (\<lambda>j.
       andthen (write_doc (upd_party i (\<lambda>p. p\<lparr>p_proxy_doc_id := orm_char (lib S) j\<rparr>)))
         (log_success ''upload_proxy_document'' (corr S) (JStr [])))))"

definition step_upload_signed_doc :: "'w session \<Rightarrow> string \<Rightarrow> ('w env, exn, unit) opn" where
  "step_upload_signed_doc S ejar_id = with_doc (\<lambda>c.
     if \<not> is_set (c_signed_doc c)
     then raise (Ejar (mk_exc EjarPayloadError (Text ''signed document is missing'')))
     else
       andthen (on_net (upload_signed_document (lib S) (send S) (client_of S) ejar_id
               (b64decode (the (c_signed_doc c)))
               (or_str (c_signed_doc_filename c) (''contract_'' @ c_name c @ ''.pdf'')) (corr S)))
         (log_success ''upload_signed_document'' (corr S) (JStr [])))"

text \<open>A conflict of these two steps means ``already set'' and is passed over.\<close>

definition ignoring_conflict :: "('s, exn, json) opn \<Rightarrow> ('s, exn, unit) opn" where
  "ignoring_conflict m = on_conflict (andthen m (ret ())) (\<lambda>_. ret ())"

definition step_add_financial_info :: "'w session \<Rightarrow> string \<Rightarrow> ('w env, exn, unit) opn" where
  "step_add_financial_info S ejar_id = with_doc (\<lambda>c.
     bind (lift_result (build_financial_attributes c)) (\<lambda>attrs.
     andthen (ignoring_conflict (on_net
               (add_financial_information (lib S) (send S) (client_of S) ejar_id attrs (corr S))))
       (log_success ''add_financial_information'' (corr S) (JStr []))))"

definition step_add_rental_fee :: "'w session \<Rightarrow> profile \<Rightarrow> string \<Rightarrow> ('w env, exn, unit) opn" where
  "step_add_rental_fee S pf ejar_id = with_doc (\<lambda>c.
     case build_rental_fee_attributes c (Some pf) of
       None \<Rightarrow> ret ()
     | Some attrs \<Rightarrow>
         andthen (ignoring_conflict (on_net
                   (add_rental_fee (lib S) (send S) (client_of S) ejar_id attrs (corr S))))
           (log_success ''add_rental_fee'' (corr S) (JStr [])))"

definition step_submit :: "'w session \<Rightarrow> string \<Rightarrow> ('w env, exn, unit) opn" where
  "step_submit S ejar_id =
     bind (on_net (submit_contract (lib S) (send S) (client_of S) ejar_id (corr S))) (\<lambda>resp.
     bind (py_op (response_data resp)) (\<lambda>d.
       log_success ''submit_contract'' (corr S) d))"

section \<open>The pipeline\<close>

definition each_unit :: "(nat \<Rightarrow> ('w env, exn, unit) opn) \<Rightarrow> ('w env, exn, unit) opn" where
  "each_unit f = with_doc (\<lambda>c. for_each f [0..<length (c_units c)])"

definition each_party :: "(nat \<Rightarrow> ('w env, exn, unit) opn) \<Rightarrow> ('w env, exn, unit) opn" where
  "each_party f = with_doc (\<lambda>c. for_each f [0..<length (c_parties c)])"

definition proxy_if_representative :: "'w session \<Rightarrow> string \<Rightarrow> nat \<Rightarrow> ('w env, exn, unit) opn" where
  "proxy_if_representative S ejar_id i = with_doc (\<lambda>c.
     if p_role (c_parties c ! i) \<in> set representative_roles
     then step_upload_proxy_doc S ejar_id i else ret ())"

text \<open>Steps 11 to 14 with the final writes, and steps 6 to 10 before them.\<close>

definition run_closing_steps ::
  "'w session \<Rightarrow> profile \<Rightarrow> string \<Rightarrow> ('w env, exn, unit) opn" where
  "run_closing_steps S pf cid =
     andthen (step_upload_signed_doc S cid)
     (andthen commit
     (andthen (step_add_financial_info S cid)
     (andthen commit
     (andthen (step_add_rental_fee S pf cid)
     (andthen commit
     (andthen (step_submit S cid)
     (andthen (\<lambda>e. write_doc (\<lambda>c. c\<lparr>c_status := Submitted, c_last_sync := Some (utc_now e),
                 c_submit_error := None\<rparr>) e)
     (andthen (message_post (Text ''submitted to Ejar''))
       commit))))))))"

definition run_after_contract ::
  "'w session \<Rightarrow> profile \<Rightarrow> json \<Rightarrow> ('w env, exn, json) opn" where
  "run_after_contract S pf ejar_id =
     (let cid = str_json (lib S) ejar_id in
      andthen (each_unit (step_attach_unit S cid))
      (andthen commit
      (andthen (each_party (step_add_party S cid))
      (andthen commit
      (andthen (each_party (proxy_if_representative S cid))
      (andthen commit
      (andthen (run_closing_steps S pf cid)
        (ret ejar_id))))))))"

definition run_pipeline ::
  "pylib \<Rightarrow> 'w transport \<Rightarrow> cred_sources \<Rightarrow> (int \<Rightarrow> profile option) \<Rightarrow> string
   \<Rightarrow> ('w env, exn, json) opn" where
  "run_pipeline L tr src find_profile cid =
     bind (resolve_profile find_profile) (\<lambda>pf.
     bind (build_client src) (\<lambda>cl.
       let S = \<lparr>lib = L, send = tr, client_of = cl, corr = cid\<rparr> in
       andthen (resolve_party_entities S)
       (andthen commit
       (bind (step_create_contract S pf) (\<lambda>ejar_id.
        andthen commit
          (run_after_contract S pf ejar_id))))))"

definition begin_submission :: "('w env, exn, unit) opn" where
  "begin_submission =
     andthen (write_doc (\<lambda>c. c\<lparr>c_status := Submitting, c_submit_attempt := c_submit_attempt c + 1,
        c_submit_error := None\<rparr>))
       commit"

definition submission_failed :: "string \<Rightarrow> exn \<Rightarrow> ('w env, exn, 'a) opn" where
  "submission_failed cid x =
     andthen (write_doc (\<lambda>c. c\<lparr>c_status := Ready, c_submit_error := Some x\<rparr>))
     (andthen commit
     (andthen (sync_log ''execute_full_submission'' cid ''error'' (Some x) (JStr []))
     (andthen (message_post (Text ''submission failed''))
       (raise x))))"

definition execute_full_submission ::
  "pylib \<Rightarrow> 'w transport \<Rightarrow> cred_sources \<Rightarrow> (int \<Rightarrow> profile option) \<Rightarrow> string
   \<Rightarrow> ('w env, exn, json) opn" where
  "execute_full_submission L tr src find_profile cid =
     andthen begin_submission
       (catch (run_pipeline L tr src find_profile cid) (submission_failed cid))"

section \<open>Polling\<close>

definition poll_contract_status ::
  "'w transport \<Rightarrow> cred_sources \<Rightarrow> string \<Rightarrow> ('w env, exn, json \<times> json \<times> json) opn" where
  "poll_contract_status tr src cid = with_doc (\<lambda>c.
     if \<not> is_set (c_ejar_id c) then ret (JStr [], JStr [], JStr [])
     else
       bind (build_client src) (\<lambda>cl.
       andthen (log_success ''poll_contract_status'' cid (JStr []))
       (bind (catch (on_net (get_contract tr cl (the (c_ejar_id c)) cid))
               (\<lambda>x. case x of
                  Ejar _ \<Rightarrow> andthen (sync_log ''poll_contract_status'' cid ''error'' (Some x) (JStr []))
                             (raise x)
                | _ \<Rightarrow> raise x)) (\<lambda>resp.
        bind (py_op (response_data resp)) (\<lambda>d.
        bind (py_op (json_get d ''attributes'' (JObj []))) (\<lambda>attrs.
        bind (py_op (json_get attrs ''state'' (JStr []))) (\<lambda>st.
        bind (py_op (json_get attrs ''contract_number'' (JStr []))) (\<lambda>num.
        bind (py_op (json_get attrs ''rejection_reason'' (JStr []))) (\<lambda>reason.
        andthen (log_success ''poll_contract_status'' cid
                  (JObj [(''state'', st), (''contract_number'', num)]))
          (ret (st, num, reason)))))))))))"

text \<open>\<open>state_map.get\<close>: a list or a dictionary cannot be looked up.\<close>

definition state_map :: "json \<Rightarrow> py_error + ejar_status option" where
  "state_map st = (case st of
      JStr s \<Rightarrow> Inr
        (if s = ''registered'' \<or> s = ''active'' then Some Approved
         else if s = ''expired'' then Some Expired
         else if s = ''terminated'' then Some Cancelled
         else if s = ''rejected'' then Some Rejected else None)
    | JList _ \<Rightarrow> Inl TypeError
    | JObj _ \<Rightarrow> Inl TypeError
    | _ \<Rightarrow> Inr None)"

definition apply_poll_result :: "pylib \<Rightarrow> json \<times> json \<times> json \<Rightarrow> ('w env, exn, unit) opn" where
  "apply_poll_result L result = (case result of (st, num, reason) \<Rightarrow>
     andthen (\<lambda>e. write_doc (\<lambda>c. c\<lparr>c_last_sync := Some (utc_now e), c_poll_count := c_poll_count c + 1\<rparr>) e)
     (bind (py_op (state_map st)) (\<lambda>new. with_doc (\<lambda>c.
        case new of
          None \<Rightarrow> ret ()
        | Some new_status \<Rightarrow>
            if new_status = c_status c then ret ()
            else
              andthen
                (if new_status = Rejected then
                   andthen (write_doc (\<lambda>c. c\<lparr>c_rejection_reason := orm_char L reason\<rparr>))
                     (message_post (Server reason))
                 else if new_status = Approved then
                   andthen (if truthy num then write_doc (\<lambda>c. c\<lparr>c_ejar_number := orm_char L num\<rparr>) else ret ())
                     (message_post (Server num))
                 else ret ())
                (set_status new_status)))))"

definition poll_ejar_status ::
  "pylib \<Rightarrow> 'w transport \<Rightarrow> cred_sources \<Rightarrow> string \<Rightarrow> ('w env, exn, unit) opn" where
  "poll_ejar_status L tr src cid =
     bind (poll_contract_status tr src cid) (apply_poll_result L)"

definition action_check_ejar_status ::
  "pylib \<Rightarrow> 'w transport \<Rightarrow> cred_sources \<Rightarrow> string \<Rightarrow> ('w env, exn, unit) opn" where
  "action_check_ejar_status L tr src cid =
     andthen (guard (\<lambda>e. is_set (c_ejar_id (doc e))) ''no Ejar contract id'')
       (poll_ejar_status L tr src cid)"

text \<open>
  One round of the cron for one contract: the search condition at the start of the round, then the
  poll and the next appointment; an exception is logged outside the database and the round goes on.
\<close>

definition due_for_poll :: "datetime \<Rightarrow> contract \<Rightarrow> bool" where
  "due_for_poll now c \<longleftrightarrow> c_status c \<in> set POLLABLE_STATES
     \<and> (case c_next_poll c of None \<Rightarrow> True | Some t \<Rightarrow> t \<le> now)"

definition cron_poll_contract ::
  "pylib \<Rightarrow> 'w transport \<Rightarrow> cred_sources \<Rightarrow> string \<Rightarrow> datetime \<Rightarrow> ('w env, exn, unit) opn" where
  "cron_poll_contract L tr src cid now = with_doc (\<lambda>c.
     if \<not> due_for_poll now c then ret ()
     else
       catch
         (andthen (poll_ejar_status L tr src cid)
           (write_doc (\<lambda>c. c\<lparr>c_next_poll := Some (now + 30 * 60)\<rparr>)))
         (\<lambda>_. ret ()))"

section \<open>The frame of a submission\<close>

text \<open>
  An invariant of a submission is a predicate \<open>D\<close> of the contract and one \<open>N\<close> of the gateway's
  state. The contract the pipeline promises: if \<open>N\<close> survives the requests of the company and \<open>D\<close>
  the writes of the steps (a step stores an identifier only where none is stored), both hold
  after a pipeline run, however it ends.
\<close>

locale pipeline_frame =
  fixes D :: "contract \<Rightarrow> bool" and N :: "'w sys \<Rightarrow> bool"
    and tr :: "'w transport" and company :: int
  assumes net_request: "cl_company cl = company \<Longrightarrow> keeps N (make_request tr cl m ep cid idem ps b fs to)"
    and net_client: "keeps N (new_client src company env)"
    and same_company: "D c \<Longrightarrow> c_company c = company"
    and entity_write: "D c \<Longrightarrow> i < length (c_parties c) \<Longrightarrow> \<not> is_set (p_entity_id (c_parties c ! i))
      \<Longrightarrow> D (upd_party i (\<lambda>p. p\<lparr>p_entity_id := x, p_sync_state := y\<rparr>) c)"
    and party_write: "D c \<Longrightarrow> i < length (c_parties c) \<Longrightarrow> \<not> is_set (p_party_id (c_parties c ! i))
      \<Longrightarrow> D (upd_party i (\<lambda>p. p\<lparr>p_party_id := x, p_sync_state := y\<rparr>) c)"
    and proxy_write: "D c \<Longrightarrow> i < length (c_parties c) \<Longrightarrow> \<not> is_set (p_proxy_doc_id (c_parties c ! i))
      \<Longrightarrow> D (upd_party i (\<lambda>p. p\<lparr>p_proxy_doc_id := x\<rparr>) c)"
    and unit_write: "D c \<Longrightarrow> i < length (c_units c) \<Longrightarrow> \<not> is_set (u_contract_unit_id (c_units c ! i))
      \<Longrightarrow> D (upd_unit i (\<lambda>u. u\<lparr>u_contract_unit_id := x, u_sync_state := y\<rparr>) c)"
    and id_write: "D c \<Longrightarrow> \<not> is_set (c_ejar_id c) \<Longrightarrow> D (c\<lparr>c_ejar_id := x, c_ejar_number := z\<rparr>)"
    and profile_write: "D c \<Longrightarrow> c_profile c = None \<Longrightarrow> D (c\<lparr>c_profile := Some pf\<rparr>)"
    and final_write: "D c \<Longrightarrow> D (c\<lparr>c_status := Submitted, c_last_sync := ls, c_submit_error := None\<rparr>)"
begin

definition at_doc :: "contract \<Rightarrow> 'w env \<Rightarrow> bool" where
  "at_doc c e \<longleftrightarrow> doc e = c \<and> D c \<and> N (net e)"

definition holds :: "nat \<Rightarrow> nat \<Rightarrow> 'w env \<Rightarrow> bool" where
  "holds np nu e \<longleftrightarrow> D (doc e) \<and> N (net e) \<and> length (c_parties (doc e)) = np \<and> length (c_units (doc e)) = nu"

definition sized :: "nat \<Rightarrow> nat \<Rightarrow> contract \<Rightarrow> bool" where
  "sized np nu c \<longleftrightarrow> length (c_parties c) = np \<and> length (c_units c) = nu"

lemma at_doc_holds: "sized np nu c \<Longrightarrow> at_doc c e \<Longrightarrow> holds np nu e"
  by (simp add: at_doc_def holds_def sized_def)

lemma keeps_with_doc:
  assumes "\<And>c. D c \<Longrightarrow> sized np nu c \<Longrightarrow> leads (at_doc c) (f c) (holds np nu)"
  shows "keeps (holds np nu) (with_doc f)"
  using assms by (auto simp: keeps_def leads_def with_doc_def holds_def at_doc_def sized_def)

lemma leads_at_bind:
  "sized np nu c \<Longrightarrow> keeps (at_doc c) m \<Longrightarrow> (\<And>x. leads (at_doc c) (f x) (holds np nu))
     \<Longrightarrow> leads (at_doc c) (bind m f) (holds np nu)"
  by (rule leads_bind) (auto intro: at_doc_holds)

lemma leads_at: "sized np nu c \<Longrightarrow> keeps (at_doc c) m \<Longrightarrow> leads (at_doc c) m (holds np nu)"
  by (rule leads_weaken) (auto intro: at_doc_holds)

lemma leads_at_andthen:
  "sized np nu c \<Longrightarrow> keeps (at_doc c) m \<Longrightarrow> leads (at_doc c) n (holds np nu)
     \<Longrightarrow> leads (at_doc c) (andthen m n) (holds np nu)"
  unfolding andthen_def by (rule leads_at_bind)

lemma leads_write:
  "D (g c) \<Longrightarrow> sized np nu (g c) \<Longrightarrow> leads (at_doc c) (write_doc g) (holds np nu)"
  by (simp add: leads_def at_doc_def holds_def sized_def op_simps)

lemma leads_write_then:
  assumes "D (g c)" and "sized np nu (g c)" and "keeps (at_doc (g c)) n"
  shows "leads (at_doc c) (andthen (write_doc g) n) (holds np nu)"
  unfolding leads_def
proof (intro allI impI)
  fix e assume "at_doc c e"
  then have "at_doc (g c) (e\<lparr>doc := g c\<rparr>)" using assms(1) by (simp add: at_doc_def)
  then have "at_doc (g c) (snd (n (e\<lparr>doc := g c\<rparr>)))" using assms(3) by (simp add: keeps_def)
  then show "holds np nu (snd (andthen (write_doc g) n e))"
    using \<open>at_doc c e\<close> assms(2) by (auto simp: op_simps at_doc_def andthen_def bind_def intro: at_doc_holds)
qed

lemma keeps_log [keeps_intro]: "keeps (at_doc c) (sync_log a i st err r)"
  by (simp add: keeps_def at_doc_def sync_log_def log_call_def)

lemma keeps_log_success [keeps_intro]: "keeps (at_doc c) (log_success a i r)"
  unfolding log_success_def by (rule keeps_log)

lemma keeps_py_op [keeps_intro]: "keeps (at_doc c) (py_op r)"
  unfolding py_op_def by (rule keeps_pure)

lemma keeps_conflict [keeps_intro]:
  "keeps P m \<Longrightarrow> (\<And>x. keeps P (h x)) \<Longrightarrow> keeps P (on_conflict m h)"
  unfolding on_conflict_def by (rule keeps_catch) (auto intro: keeps_pure split: exn.split)

lemma keeps_adopt [keeps_intro]: "keeps (at_doc c) (adopt_existing w x)"
  unfolding adopt_existing_def by (intro keeps_intro keeps_py_op)

lemma keeps_net: "keeps N m \<Longrightarrow> keeps (at_doc c) (on_net m)"
  by (rule keeps_on_net) (auto simp: at_doc_def)

lemma keeps_endpoints:
  assumes "cl_company cl = company"
  shows "keeps N (create_individual_entity L tr cl a cid)"
    "keeps N (create_organization_entity L tr cl a cid)"
    "keeps N (create_contract L tr cl a cid)"
    "keeps N (attach_unit L tr cl k pr u cid)"
    "keeps N (add_party L tr cl k a cid)"
    "keeps N (upload_proxy_document L tr cl k pa bs f d cid)"
    "keeps N (upload_signed_document L tr cl k bs f cid)"
    "keeps N (add_financial_information L tr cl k a cid)"
    "keeps N (add_rental_fee L tr cl k a cid)"
    "keeps N (submit_contract L tr cl k cid)"
  by (simp_all add: endpoint_defs api_defs Let_def net_request [OF assms])

lemmas keeps_calls = keeps_net [OF keeps_endpoints(1)] keeps_net [OF keeps_endpoints(2)]
  keeps_net [OF keeps_endpoints(3)] keeps_net [OF keeps_endpoints(4)]
  keeps_net [OF keeps_endpoints(5)] keeps_net [OF keeps_endpoints(6)]
  keeps_net [OF keeps_endpoints(7)] keeps_net [OF keeps_endpoints(8)]
  keeps_net [OF keeps_endpoints(9)] keeps_net [OF keeps_endpoints(10)]

lemma sized_writes [simp]:
  "sized np nu (upd_party i f c) = sized np nu c"
  "sized np nu (upd_unit i g c) = sized np nu c"
  "sized np nu (c\<lparr>c_ejar_id := x, c_ejar_number := z\<rparr>) = sized np nu c"
  "sized np nu (c\<lparr>c_profile := pf\<rparr>) = sized np nu c"
  "sized np nu (c\<lparr>c_status := st, c_last_sync := ls, c_submit_error := er\<rparr>) = sized np nu c"
  by (simp_all add: sized_def upd_party_def upd_unit_def)

lemma leads_with_doc: "leads (at_doc c) (f c) Q \<Longrightarrow> leads (at_doc c) (with_doc f) Q"
  by (auto simp: leads_def with_doc_def at_doc_def)

lemma leads_ret: "sized np nu c \<Longrightarrow> leads (at_doc c) (ret x) (holds np nu)"
  by (intro leads_at keeps_pure)

lemma leads_raise: "sized np nu c \<Longrightarrow> leads (at_doc c) (raise x) (holds np nu)"
  by (intro leads_at keeps_pure)

lemma keeps_leads_at:
  "(\<And>c. D c \<Longrightarrow> sized np nu c \<Longrightarrow> leads (at_doc c) m (holds np nu)) \<Longrightarrow> keeps (holds np nu) m"
  by (auto simp: keeps_def leads_def holds_def at_doc_def sized_def)

lemma keeps_each:
  assumes "\<And>i c. D c \<Longrightarrow> sized np nu c \<Longrightarrow> i < np \<Longrightarrow> leads (at_doc c) (f i) (holds np nu)"
  shows "keeps (holds np nu) (with_doc (\<lambda>c. for_each f [0..<length (c_parties c)]))"
proof -
  have "keeps (holds np nu) (for_each f [0..<np])"
    using assms by (intro keeps_for_each_in keeps_leads_at) auto
  then show ?thesis by (auto simp: keeps_def with_doc_def holds_def)
qed

lemma keeps_each_unit:
  assumes "\<And>i c. D c \<Longrightarrow> sized np nu c \<Longrightarrow> i < nu \<Longrightarrow> leads (at_doc c) (f i) (holds np nu)"
  shows "keeps (holds np nu) (with_doc (\<lambda>c. for_each f [0..<length (c_units c)]))"
proof -
  have "keeps (holds np nu) (for_each f [0..<nu])"
    using assms by (intro keeps_for_each_in keeps_leads_at) auto
  then show ?thesis by (auto simp: keeps_def with_doc_def holds_def)
qed

text \<open>The steps, each from a contract with the invariant; \<open>S\<close> is the session of the run.\<close>

definition session_ok :: "'w session \<Rightarrow> bool" where
  "session_ok S \<longleftrightarrow> cl_company (client_of S) = company \<and> send S = tr"

lemma session_calls:
  assumes "session_ok S"
  shows "keeps (at_doc c) (on_net (create_individual_entity L (send S) (client_of S) a cid))"
    "keeps (at_doc c) (on_net (create_organization_entity L (send S) (client_of S) a cid))"
    "keeps (at_doc c) (on_net (create_contract L (send S) (client_of S) a cid))"
    "keeps (at_doc c) (on_net (attach_unit L (send S) (client_of S) k pr u cid))"
    "keeps (at_doc c) (on_net (add_party L (send S) (client_of S) k a cid))"
    "keeps (at_doc c) (on_net (upload_proxy_document L (send S) (client_of S) k pa bs f d cid))"
    "keeps (at_doc c) (on_net (upload_signed_document L (send S) (client_of S) k bs f cid))"
    "keeps (at_doc c) (on_net (add_financial_information L (send S) (client_of S) k a cid))"
    "keeps (at_doc c) (on_net (add_rental_fee L (send S) (client_of S) k a cid))"
    "keeps (at_doc c) (on_net (submit_contract L (send S) (client_of S) k cid))"
  using assms keeps_endpoints by (simp_all add: session_ok_def keeps_net)

lemmas frame_intro = leads_with_doc leads_at_bind leads_write_then leads_write

lemma frame_create_entity:
  assumes S: "session_ok S"
    and c: "D c" "sized np nu c" "i < np" "\<not> is_set (p_entity_id (c_parties c ! i))"
  shows "leads (at_doc c) (step_create_entity S i) (holds np nu)"
proof -
  have D: "D (upd_party i (\<lambda>p. p\<lparr>p_entity_id := x, p_sync_state := y\<rparr>) c)" for x y
    using c by (intro entity_write) (auto simp: sized_def)
  show ?thesis
    using c(2) unfolding step_create_entity_def Let_def
    by (intro frame_intro D keeps_intro) (auto intro!: session_calls [OF S] split: if_splits)
qed

lemma frame_resolve_entities:
  assumes S: "session_ok S"
  shows "keeps (holds np nu) (resolve_party_entities S)"
  unfolding resolve_party_entities_def
proof (rule keeps_each)
  fix i c assume c: "D c" "sized np nu c" "i < np"
  show "leads (at_doc c) (with_doc (\<lambda>c. if is_set (p_entity_id (c_parties c ! i))
      then sync_log ''create_entity'' (corr S) ''skipped'' None (JStr [])
      else step_create_entity S i)) (holds np nu)"
    using c by (intro leads_with_doc) (auto intro: leads_at keeps_log frame_create_entity [OF S])
qed

lemma frame_create_contract:
  assumes S: "session_ok S"
  shows "keeps (holds np nu) (step_create_contract S pf)"
  unfolding step_create_contract_def
proof (rule keeps_with_doc)
  fix c assume c: "D c" "sized np nu c"
  show "leads (at_doc c) (if is_set (c_ejar_id c) then ret (field_json (c_ejar_id c))
     else
       bind (lift_result (build_contract_attributes c (Some pf))) (\<lambda>attrs.
       bind (on_conflict (on_net (create_contract (lib S) (send S) (client_of S) attrs (corr S)))
               (\<lambda>x. adopt_existing
                  (\<lambda>j. JObj [(''data'', JObj [(''id'', j), (''attributes'', exc_existing x)])]) x)) (\<lambda>resp.
       bind (py_op (response_id resp)) (\<lambda>ejar_id.
       bind (py_op (ebind (response_data resp) (\<lambda>d.
               ebind (json_get d ''attributes'' (JObj [])) (\<lambda>a.
                 json_get a ''contract_number'' (JStr []))))) (\<lambda>ejar_number.
       andthen (write_doc (\<lambda>c. c\<lparr>c_ejar_id := orm_char (lib S) ejar_id,
                  c_ejar_number := orm_char (lib S) ejar_number\<rparr>))
       (andthen (log_success ''create_contract'' (corr S) (JObj [(''ejar_contract_id'', ejar_id)]))
         (ret ejar_id))))))) (holds np nu)"
  proof (cases "is_set (c_ejar_id c)")
    case True
    then show ?thesis using c by (simp add: leads_ret)
  next
    case False
    then show ?thesis
      using c by (simp; intro frame_intro id_write keeps_intro session_calls [OF S]) auto
  qed
qed

lemma frame_attach_unit:
  assumes S: "session_ok S" and c: "D c" "sized np nu c" "i < nu"
  shows "leads (at_doc c) (step_attach_unit S k i) (holds np nu)"
proof -
  have D: "\<not> is_set (u_contract_unit_id (c_units c ! i)) \<Longrightarrow>
      D (upd_unit i (\<lambda>u. u\<lparr>u_contract_unit_id := x, u_sync_state := y\<rparr>) c)" for x y
    using c by (intro unit_write) (auto simp: sized_def)
  show ?thesis
    using c(2) unfolding step_attach_unit_def Let_def
    by (intro leads_with_doc)
      (auto intro!: leads_ret leads_raise leads_at_bind leads_write leads_write_then D keeps_intro
        session_calls [OF S] split: sum.split)
qed

lemma frame_add_party:
  assumes S: "session_ok S" and c: "D c" "sized np nu c" "i < np"
  shows "leads (at_doc c) (step_add_party S k i) (holds np nu)"
proof -
  have D: "\<not> is_set (p_party_id (c_parties c ! i)) \<Longrightarrow>
      D (upd_party i (\<lambda>p. p\<lparr>p_party_id := x, p_sync_state := y\<rparr>) c)" for x y
    using c by (intro party_write) (auto simp: sized_def)
  show ?thesis
    using c(2) unfolding step_add_party_def Let_def
    by (intro leads_with_doc)
      (auto intro!: leads_ret leads_raise leads_at_bind leads_write leads_write_then D keeps_intro
        session_calls [OF S] split: sum.split)
qed

lemma frame_proxy:
  assumes S: "session_ok S" and c: "D c" "sized np nu c" "i < np"
  shows "leads (at_doc c) (proxy_if_representative S k i) (holds np nu)"
proof -
  have D: "\<not> is_set (p_proxy_doc_id (c_parties c ! i)) \<Longrightarrow>
      D (upd_party i (\<lambda>p. p\<lparr>p_proxy_doc_id := x\<rparr>) c)" for x
    using c by (intro proxy_write) (auto simp: sized_def)
  have "leads (at_doc c) (step_upload_proxy_doc S k i) (holds np nu)"
    using c(2) unfolding step_upload_proxy_doc_def Let_def
    by (intro leads_with_doc)
      (auto intro!: leads_ret leads_at_bind leads_write_then D keeps_intro session_calls [OF S])
  then show ?thesis
    using c(2) unfolding proxy_if_representative_def
    by (intro leads_with_doc) (auto intro: leads_ret)
qed

lemma keeps_holds_at:
  "(\<And>c. sized np nu c \<Longrightarrow> keeps (at_doc c) m) \<Longrightarrow> keeps (holds np nu) m"
  by (auto simp: keeps_def at_doc_def holds_def sized_def)

lemma frame_signed_doc:
  assumes S: "session_ok S"
  shows "keeps (holds np nu) (step_upload_signed_doc S k)"
  unfolding step_upload_signed_doc_def
  by (rule keeps_with_doc) (auto intro!: leads_at keeps_intro session_calls [OF S])

lemma frame_financial_info:
  assumes S: "session_ok S"
  shows "keeps (holds np nu) (step_add_financial_info S k)"
  unfolding step_add_financial_info_def ignoring_conflict_def
  by (rule keeps_with_doc) (auto intro!: leads_at keeps_intro session_calls [OF S])

lemma frame_rental_fee:
  assumes S: "session_ok S"
  shows "keeps (holds np nu) (step_add_rental_fee S pf k)"
  unfolding step_add_rental_fee_def ignoring_conflict_def
  by (rule keeps_with_doc) (auto intro!: leads_at keeps_intro session_calls [OF S] split: option.split)

lemma frame_submit:
  assumes S: "session_ok S"
  shows "keeps (holds np nu) (step_submit S k)"
  unfolding step_submit_def
  by (rule keeps_holds_at) (auto intro!: keeps_intro session_calls [OF S])

lemma frame_commit: "keeps (holds np nu) commit"
  by (simp add: keeps_def holds_def commit_run)

lemma frame_message: "keeps (holds np nu) (message_post m)"
  by (simp add: keeps_def holds_def message_post_run)

lemma frame_final:
  "keeps (holds np nu) (\<lambda>e. write_doc (\<lambda>c. c\<lparr>c_status := Submitted, c_last_sync := Some (utc_now e),
      c_submit_error := None\<rparr>) e)"
  by (simp add: keeps_def holds_def write_doc_run final_write)

lemma frame_after_contract:
  assumes S: "session_ok S"
  shows "keeps (holds np nu) (run_after_contract S pf j)"
  unfolding run_after_contract_def run_closing_steps_def Let_def each_unit_def each_party_def
  by (intro keeps_andthen frame_commit frame_message frame_final keeps_pure keeps_each keeps_each_unit
      frame_attach_unit frame_add_party frame_proxy frame_signed_doc frame_financial_info
      frame_rental_fee frame_submit S)

lemma keeps_for_each_pure: "keeps P (for_each (\<lambda>x. lift_result (f x)) xs)"
  by (intro keeps_for_each keeps_pure)

lemma frame_profile: "keeps (holds np nu) (resolve_profile find_profile)"
  unfolding resolve_profile_def
proof (rule keeps_with_doc)
  fix c assume c: "D c" "sized np nu c"
  have found: "leads (at_doc c) (case c_profile c of
       Some pf \<Rightarrow> ret pf
     | None \<Rightarrow> (case find_profile (c_company c) of
          Some pf \<Rightarrow> andthen (write_doc (\<lambda>c. c\<lparr>c_profile := Some pf\<rparr>)) (ret pf)
        | None \<Rightarrow> raise (UserError (Text ''no brokerage profile for the company'')))) (holds np nu)"
    using c by (auto intro: leads_ret leads_raise leads_write_then profile_write keeps_pure
        split: option.split)
  have check: "keeps (holds np nu) (\<lambda>e. (profile_validate (today e) pf, e))" for pf
    by (simp add: keeps_def)
  show "leads (at_doc c) (bind (case c_profile c of
       Some pf \<Rightarrow> ret pf
     | None \<Rightarrow> (case find_profile (c_company c) of
          Some pf \<Rightarrow> andthen (write_doc (\<lambda>c. c\<lparr>c_profile := Some pf\<rparr>)) (ret pf)
        | None \<Rightarrow> raise (UserError (Text ''no brokerage profile for the company''))))
       (\<lambda>pf.
         andthen (\<lambda>e. (profile_validate (today e) pf, e))
         (andthen (for_each (\<lambda>p. lift_result (party_validate p)) (c_parties c))
         (andthen (for_each (\<lambda>u. lift_result (unit_validate u)) (c_units c))
           (ret pf))))) (holds np nu)"
    by (rule leads_bind_keeps [OF found]) (intro keeps_andthen check keeps_for_each keeps_pure)
qed

lemma frame_client: "keeps (holds np nu) (build_client src)"
  unfolding build_client_def
proof (rule keeps_with_doc)
  fix c assume c: "D c" "sized np nu c"
  then have "keeps (at_doc c) (on_net (new_client src (c_company c) []))"
    by (intro keeps_net) (simp add: same_company net_client)
  then show "leads (at_doc c) (on_net (new_client src (c_company c) [])) (holds np nu)"
    using c by (intro leads_at)
qed

lemma build_client_company:
  assumes "holds np nu e" and "build_client src e = (Inr cl, e')"
  shows "cl_company cl = company"
proof -
  have "c_company (doc e) = company" using assms(1) same_company by (simp add: holds_def)
  then show ?thesis
    using assms(2) new_client_company [of src company "[]" "net e"]
    by (auto simp: build_client_def with_doc_def on_net_def split: prod.splits)
qed

theorem frame_pipeline: "keeps (holds np nu) (run_pipeline L tr src find_profile cid)"
  unfolding run_pipeline_def Let_def
proof (rule keeps_bind [OF frame_profile], rule keeps_bind_result [OF frame_client])
  fix pf cl e e'
  assume "holds np nu e" "build_client src e = (Inr cl, e')"
  then have S: "session_ok \<lparr>lib = L, send = tr, client_of = cl, corr = cid\<rparr>"
    by (simp add: session_ok_def build_client_company)
  show "keeps (holds np nu)
     (andthen (resolve_party_entities \<lparr>lib = L, send = tr, client_of = cl, corr = cid\<rparr>)
       (andthen commit
       (bind (step_create_contract \<lparr>lib = L, send = tr, client_of = cl, corr = cid\<rparr> pf) (\<lambda>ejar_id.
        andthen commit
          (run_after_contract \<lparr>lib = L, send = tr, client_of = cl, corr = cid\<rparr> pf ejar_id)))))"
    by (intro keeps_andthen keeps_bind frame_commit frame_resolve_entities frame_create_contract
        frame_after_contract S)
qed

corollary pipeline_invariant:
  assumes "D (doc e)" and "N (net e)"
  shows "D (doc (snd (run_pipeline L tr src find_profile cid e)))"
    and "N (net (snd (run_pipeline L tr src find_profile cid e)))"
  using assms frame_pipeline [of "length (c_parties (doc e))" "length (c_units (doc e))"]
  by (auto simp: keeps_def holds_def)

end

section \<open>The frame on the model\<close>

text \<open>
  What a submission may do to its contract: identifiers are stored, never replaced, and the terms,
  the roles and the attempt counter stay. What it may do to the gateway: nothing outside its own
  company's breaker and cached credentials.
\<close>

definition id_kept :: "char_field \<Rightarrow> char_field \<Rightarrow> bool" where
  "id_kept old new \<longleftrightarrow> is_set old \<longrightarrow> new = old"

text \<open>
  What is left of a record without the fields a submission writes: two records agree on everything
  else exactly when these agree.
\<close>

definition contract_terms :: "contract \<Rightarrow> contract" where
  "contract_terms c = c\<lparr>c_status := Draft, c_submit_attempt := 0, c_submit_error := None, c_last_sync := None,
     c_profile := None, c_ejar_id := None, c_ejar_number := None, c_parties := [], c_units := []\<rparr>"

definition party_terms :: "party \<Rightarrow> party" where
  "party_terms p = p\<lparr>p_entity_id := None, p_party_id := None, p_proxy_doc_id := None, p_sync_state := []\<rparr>"

definition unit_terms :: "unit_line \<Rightarrow> unit_line" where
  "unit_terms u = u\<lparr>u_contract_unit_id := None, u_sync_state := []\<rparr>"

definition party_progress :: "party \<Rightarrow> party \<Rightarrow> bool" where
  "party_progress p q \<longleftrightarrow> party_terms q = party_terms p \<and> id_kept (p_entity_id p) (p_entity_id q)
     \<and> id_kept (p_party_id p) (p_party_id q) \<and> id_kept (p_proxy_doc_id p) (p_proxy_doc_id q)"

definition unit_progress :: "unit_line \<Rightarrow> unit_line \<Rightarrow> bool" where
  "unit_progress u v \<longleftrightarrow> unit_terms v = unit_terms u \<and> id_kept (u_contract_unit_id u) (u_contract_unit_id v)"

definition progress :: "contract \<Rightarrow> contract \<Rightarrow> bool" where
  "progress c d \<longleftrightarrow> c_company d = c_company c \<and> c_submit_attempt d = c_submit_attempt c
     \<and> contract_terms d = contract_terms c
     \<and> c_brokerage_fee d = c_brokerage_fee c
     \<and> (c_profile c = None \<or> c_profile d = c_profile c)
     \<and> id_kept (c_ejar_id c) (c_ejar_id d)
     \<and> list_all2 party_progress (c_parties c) (c_parties d)
     \<and> list_all2 unit_progress (c_units c) (c_units d)"

definition gateway_kept :: "int \<Rightarrow> 'w sys \<Rightarrow> 'w sys \<Rightarrow> bool" where
  "gateway_kept company s t \<longleftrightarrow> others_kept company s t \<and> (sys_ok s \<longrightarrow> sys_ok t)"

lemma id_kept_refl [simp]: "id_kept x x"
  by (simp add: id_kept_def)

lemma id_kept_unset: "id_kept old new \<Longrightarrow> \<not> is_set new \<Longrightarrow> id_kept old x"
  by (auto simp: id_kept_def)

lemma progress_refl [simp]: "progress c c"
  by (simp add: progress_def party_progress_def unit_progress_def list_all2_refl)

lemma list_all2_update:
  assumes "list_all2 R xs ys" and "i < length ys \<Longrightarrow> R (xs ! i) y"
  shows "list_all2 R xs (ys[i := y])"
proof (cases "i < length ys")
  case True
  then show ?thesis
    using assms list_all2_update_cong [of R xs ys "xs ! i" y i] by (simp add: list_all2_lengthD)
next
  case False
  then show ?thesis using assms(1) by (metis list_update_beyond not_less)
qed

lemma progress_party:
  assumes "progress c d" and "i < length (c_parties d) \<Longrightarrow> party_progress (c_parties c ! i) (c_parties d ! i)
      \<Longrightarrow> party_progress (c_parties c ! i) (f (c_parties d ! i))"
  shows "progress c (upd_party i f d)"
proof -
  have ps: "list_all2 party_progress (c_parties c) (c_parties d)"
    using assms(1) by (simp add: progress_def)
  have "list_all2 party_progress (c_parties c) ((c_parties d)[i := f (c_parties d ! i)])"
    using assms(2) list_all2_nthD2 [OF ps] by (intro list_all2_update [OF ps]) blast
  with assms(1) show ?thesis by (simp add: progress_def upd_party_def contract_terms_def)
qed

lemma progress_unit:
  assumes "progress c d" and "i < length (c_units d) \<Longrightarrow> unit_progress (c_units c ! i) (c_units d ! i)
      \<Longrightarrow> unit_progress (c_units c ! i) (f (c_units d ! i))"
  shows "progress c (upd_unit i f d)"
proof -
  have us: "list_all2 unit_progress (c_units c) (c_units d)"
    using assms(1) by (simp add: progress_def)
  have "list_all2 unit_progress (c_units c) ((c_units d)[i := f (c_units d ! i)])"
    using assms(2) list_all2_nthD2 [OF us] by (intro list_all2_update [OF us]) blast
  with assms(1) show ?thesis by (simp add: progress_def upd_unit_def contract_terms_def)
qed

lemma gateway_request:
  "cl_company cl = company \<Longrightarrow> keeps (gateway_kept company s) (make_request tr cl m ep cid idem ps b fs to)"
  unfolding keeps_def gateway_kept_def
  using make_request_ok [of tr cl m ep cid idem ps b fs to] make_request_others others_kept_trans
  unfolding keeps_def by blast

lemma gateway_client: "keeps (gateway_kept company s) (new_client src company env)"
  unfolding keeps_def gateway_kept_def
  using new_client_ok [of src company env] new_client_others others_kept_trans
  unfolding keeps_def by blast

interpretation submission: pipeline_frame "progress c" "gateway_kept (c_company c) s" tr "c_company c"
  for c :: contract and s :: "'w sys" and tr :: "'w transport"
proof (unfold_locales, goal_cases)
  case (1 cl m ep cid idem ps b fs to)
  then show ?case by (rule gateway_request)
next
  case (2 src env)
  show ?case by (rule gateway_client)
next
  case (3 d)
  then show ?case by (simp add: progress_def)
next
  case (4 d i x y)
  then show ?case by (intro progress_party) (auto simp: party_progress_def party_terms_def intro: id_kept_unset)
next
  case (5 d i x y)
  then show ?case by (intro progress_party) (auto simp: party_progress_def party_terms_def intro: id_kept_unset)
next
  case (6 d i x)
  then show ?case by (intro progress_party) (auto simp: party_progress_def party_terms_def intro: id_kept_unset)
next
  case (7 d i x y)
  then show ?case by (intro progress_unit) (auto simp: unit_progress_def unit_terms_def intro: id_kept_unset)
next
  case (8 d x z)
  then show ?case by (auto simp: progress_def contract_terms_def intro: id_kept_unset)
next
  case (9 d pf)
  then show ?case by (auto simp: progress_def contract_terms_def)
next
  case (10 d ls)
  then show ?case by (simp add: progress_def contract_terms_def)
qed

section \<open>Outcome of a run\<close>

lemma keeps_saved_net [simp]:
  "net (e\<lparr>saved := sv\<rparr>) = net e" "doc (e\<lparr>saved := sv\<rparr>) = doc e"
  by simp_all

definition begun :: "'w env \<Rightarrow> 'w env" where
  "begun e = snd (begin_submission e)"

lemma begin_run: "begin_submission e = (Inr (), begun e)"
  by (simp add: begun_def begin_submission_def andthen_def bind_def op_simps)

lemma begun_fields:
  "doc (begun e) = (doc e)\<lparr>c_status := Submitting, c_submit_attempt := c_submit_attempt (doc e) + 1,
     c_submit_error := None\<rparr>"
  "net (begun e) = net e"
  "saved (begun e) = snapshot (begun e)"
  by (simp_all add: begun_def begin_submission_def andthen_def bind_def op_simps snapshot_def)

lemma failed_run:
  "fst (submission_failed cid x e :: (exn + 'a) \<times> 'w env) = Inl x"
  "doc (snd (submission_failed cid x e :: (exn + 'a) \<times> 'w env)) = (doc e)\<lparr>c_status := Ready, c_submit_error := Some x\<rparr>"
  "dur_doc (saved (snd (submission_failed cid x e :: (exn + 'a) \<times> 'w env)))
     = doc (snd (submission_failed cid x e :: (exn + 'a) \<times> 'w env))"
  "net (snd (submission_failed cid x e :: (exn + 'a) \<times> 'w env)) = net e"
  by (simp_all add: submission_failed_def andthen_def bind_def op_simps sync_log_def log_call_def
      snapshot_def default_log_def LOG_STATUSES_def LOG_DIRECTIONS_def)

lemma execute_cases:
  "execute_full_submission L tr src find_profile cid e =
     (case run_pipeline L tr src find_profile cid (begun e) of
        (Inr j, e') \<Rightarrow> (Inr j, e')
      | (Inl x, e') \<Rightarrow> submission_failed cid x e')"
  by (simp add: execute_full_submission_def andthen_run(2) [OF begin_run] catch_def
      split: prod.split sum.split)

lemma closing_success:
  assumes "run_closing_steps S pf k e = (Inr u, e')"
  shows "c_status (doc e') = Submitted" "c_submit_error (doc e') = None" "dur_doc (saved e') = doc e'"
  using assms unfolding run_closing_steps_def
  by (elim andthen_InrE; simp add: op_simps snapshot_def; auto)+

lemma after_contract_success:
  assumes "run_after_contract S pf j e = (Inr j', e')"
  shows "j' = j \<and> (\<exists>u. run_closing_steps S pf (str_json (lib S) j) u = (Inr (), e'))"
  using assms unfolding run_after_contract_def Let_def
  by (elim andthen_InrE) (auto simp: ret_def)

lemma pipeline_success:
  assumes "run_pipeline L tr src find_profile cid e = (Inr j, e')"
  shows "\<exists>pf cl u. run_closing_steps \<lparr>lib = L, send = tr, client_of = cl, corr = cid\<rparr> pf (str_json L j) u
    = (Inr (), e')"
  using assms unfolding run_pipeline_def Let_def
  by (elim bind_InrE andthen_InrE) (drule after_contract_success, simp only: session.simps, blast)

lemma pipeline_progress:
  "progress (doc e) (doc (snd (run_pipeline L tr src find_profile cid e)))"
  by (rule submission.pipeline_invariant(1) [where s = "net e"])
    (simp_all add: gateway_kept_def others_kept_def)

lemma pipeline_gateway:
  "gateway_kept (c_company (doc e)) (net e) (net (snd (run_pipeline L tr src find_profile cid e)))"
  by (rule submission.pipeline_invariant(2) [where c = "doc e"])
    (simp_all add: gateway_kept_def others_kept_def)


text \<open>Both ways a run can end, and what is known of the contract in each.\<close>

lemma execute_ends:
  obtains (success) j u where "run_pipeline L tr src find_profile cid (begun e) = (Inr j, u)"
      and "execute_full_submission L tr src find_profile cid e = (Inr j, u)"
      and "c_status (doc u) = Submitted" and "c_submit_error (doc u) = None"
      and "dur_doc (saved u) = doc u"
  | (failure) x u e' where "run_pipeline L tr src find_profile cid (begun e) = (Inl x, u)"
      and "execute_full_submission L tr src find_profile cid e = (Inl x, e')"
      and "doc e' = (doc u)\<lparr>c_status := Ready, c_submit_error := Some x\<rparr>"
      and "dur_doc (saved e') = doc e'" and "net e' = net u"
proof (cases "run_pipeline L tr src find_profile cid (begun e)")
  case (Pair r u)
  show ?thesis
  proof (cases r)
    case (Inr j)
    have run: "run_pipeline L tr src find_profile cid (begun e) = (Inr j, u)" using Pair Inr by simp
    obtain pf cl v where
      "run_closing_steps \<lparr>lib = L, send = tr, client_of = cl, corr = cid\<rparr> pf (str_json L j) v = (Inr (), u)"
      using pipeline_success [OF run] by blast
    from closing_success [OF this] run show ?thesis
      by (intro success [OF run]) (simp_all add: execute_cases)
  next
    case (Inl x)
    have run: "run_pipeline L tr src find_profile cid (begun e) = (Inl x, u)" using Pair Inl by simp
    show ?thesis
    proof (rule failure [OF run])
      let ?f = "submission_failed cid x u :: (exn + json) \<times> _"
      have "execute_full_submission L tr src find_profile cid e = ?f"
        using run by (simp add: execute_cases)
      then show "execute_full_submission L tr src find_profile cid e = (Inl x, snd ?f)"
        by (simp add: prod_eq_iff failed_run(1))
    qed (rule failed_run)+
  qed
qed

lemma execute_progress:
  assumes "execute_full_submission L tr src find_profile cid e = (r, e')"
  shows "progress (doc (begun e)) ((doc e')\<lparr>c_status := st, c_submit_error := er\<rparr>)"
    and "gateway_kept (c_company (doc e)) (net e) (net e')"
  using pipeline_progress [of "begun e" L tr src find_profile cid]
    pipeline_gateway [of "begun e" L tr src find_profile cid] assms
  by (cases rule: execute_ends [of L tr src find_profile cid e];
      simp add: begun_fields progress_def contract_terms_def)+

section \<open>Properties of a run\<close>

text \<open>
  Property C1. However a submission ends, its outcome is on the committed contract: the attempt
  counter went up by one, and the contract is submitted with no error when the call returned, and
  back to ready with the exception recorded when it raised. A run never leaves the contract in
  the submitting status.
\<close>

theorem submission_outcome:
  "case execute_full_submission L tr src find_profile cid e of (r, e') \<Rightarrow>
     c_submit_attempt (doc e') = c_submit_attempt (doc e) + 1
     \<and> dur_doc (saved e') = doc e'
     \<and> (case r of
          Inr j \<Rightarrow> c_status (doc e') = Submitted \<and> c_submit_error (doc e') = None
        | Inl x \<Rightarrow> c_status (doc e') = Ready \<and> c_submit_error (doc e') = Some x)"
proof -
  obtain r e' where run: "execute_full_submission L tr src find_profile cid e = (r, e')" by fastforce
  have "c_submit_attempt (doc e') = c_submit_attempt (doc e) + 1"
    using execute_progress(1) [OF run, where st = Ready and er = None] by (simp add: progress_def begun_fields)
  then show ?thesis
    using run by (cases rule: execute_ends [of L tr src find_profile cid e]) auto
qed

text \<open>
  Property C8. A run makes progress that a later run can build on. When it is over, whether it returned
  or raised, the committed contract is the contract as the run left it, so that nothing of what follows
  is lost when the caller's transaction is rolled back: no identifier Ejar had given (contract, entity,
  party, proxy document, unit) is replaced, no party or unit appears or disappears, a brokerage
  profile that was set stays, and everything else of the contract, its parties and its units is
  unchanged, apart from the fields a submission writes: status, attempt counter, error, last
  synchronisation and Ejar number of the contract, and the synchronisation states.
\<close>

theorem submission_keeps_identifiers:
  "case execute_full_submission L tr src find_profile cid e of (r, e') \<Rightarrow>
     let c = doc e; d = dur_doc (saved e') in
     d = doc e'
     \<and> id_kept (c_ejar_id c) (c_ejar_id d)
     \<and> list_all2 party_progress (c_parties c) (c_parties d)
     \<and> list_all2 unit_progress (c_units c) (c_units d)
     \<and> (c_profile c = None \<or> c_profile d = c_profile c)
     \<and> contract_terms d = contract_terms c"
proof -
  obtain r e' where run: "execute_full_submission L tr src find_profile cid e = (r, e')" by fastforce
  have "dur_doc (saved e') = doc e'"
    using run by (cases rule: execute_ends [of L tr src find_profile cid e]) simp_all
  then show ?thesis
    using run execute_progress(1) [OF run, where st = Ready and er = None]
    by (simp add: progress_def begun_fields Let_def contract_terms_def)
qed

text \<open>
  Property C9. A submission is confined to its company: whatever Ejar answers, the breaker and the
  cached credentials of every other company are as before, and the invariants of the breaker
  table and the credential cache survive.
\<close>

theorem submission_isolated:
  "case execute_full_submission L tr src find_profile cid e of (r, e') \<Rightarrow>
     (\<forall>i. i = c_company (doc e) \<or>
        (circuits (net e') i = circuits (net e) i \<and> cred_store (net e') i = cred_store (net e) i))
     \<and> (sys_ok (net e) \<longrightarrow> sys_ok (net e'))"
proof -
  obtain r e' where run: "execute_full_submission L tr src find_profile cid e = (r, e')" by fastforce
  with execute_progress(2) [OF run] show ?thesis
    by (auto simp: gateway_kept_def others_kept_def)
qed

theorem submission_isolated_witness:
  "sys_ok (net (sample_env ()))
   \<and> sys_ok (net (snd (execute_full_submission \<lparr>sha256_hex = b64encode, str_other = \<lambda>_. []\<rparr>
       (\<lambda>w rq. (TimeoutRaised, 1, w))
       \<lparr>src_now = 0, src_tokens = \<lambda>_. NoTokenModel, src_params = None\<rparr> (\<lambda>_. None) ''c'' (sample_env ()))))"
proof -
  have ok: "sys_ok (net (sample_env ()))"
    by (simp add: sample_env_def idle_sys_def sys_ok_def circuits_ok_def cache_ok_def)
  show ?thesis
    using ok submission_isolated [where L = "\<lparr>sha256_hex = b64encode, str_other = \<lambda>_. []\<rparr>"
       and tr = "\<lambda>w rq. (TimeoutRaised, 1, w)" and e = "sample_env ()" and cid = "''c''"
       and src = "\<lparr>src_now = 0, src_tokens = \<lambda>_. NoTokenModel, src_params = None\<rparr>"
       and find_profile = "\<lambda>_. None"]
    by (simp add: split_beta)
qed

text \<open>The validation before the first request.\<close>

lemma checks_pass:
  "(\<And>x. x \<in> set xs \<Longrightarrow> f x = Inr ()) \<Longrightarrow> for_each (\<lambda>x. lift_result (f x)) xs e = (Inr (), e)"
  by (induction xs) (simp_all add: op_simps)

lemma checks_fail:
  assumes "x \<in> set xs" and "f x = Inl er"
  shows "\<exists>y er'. y \<in> set xs \<and> f y = Inl er' \<and> for_each (\<lambda>x. lift_result (f x)) xs e = (Inl er', e)"
  using assms(1)
proof (induction xs)
  case (Cons z zs)
  show ?case
  proof (cases "f z")
    case (Inl e1)
    then show ?thesis by (auto simp: andthen_def bind_def lift_result_def)
  next
    case (Inr u)
    with Cons assms(2) have "x \<in> set zs" by auto
    with Cons.IH Inr show ?thesis by (auto simp: andthen_def bind_def lift_result_def)
  qed
qed simp

definition submission_missing :: "date \<Rightarrow> profile \<Rightarrow> contract \<Rightarrow> string list set" where
  "submission_missing day pf c =
     {m. m \<noteq> [] \<and> (m = profile_missing day pf \<or> m \<in> party_missing ` set (c_parties c)
        \<or> m \<in> unit_missing ` set (c_units c))}"

lemma resolve_refuses:
  assumes "c_profile (doc e) = Some pf" and "submission_missing (today e) pf (doc e) \<noteq> {}"
  shows "\<exists>m \<in> submission_missing (today e) pf (doc e).
    resolve_profile find_profile e = (Inl (OrmValidation (Incomplete m)), e)"
proof -
  let ?ps = "for_each (\<lambda>p. lift_result (party_validate p)) (c_parties (doc e))"
  let ?us = "for_each (\<lambda>u. lift_result (unit_validate u)) (c_units (doc e))"
  have run: "resolve_profile find_profile e =
     (case profile_validate (today e) pf of Inl x \<Rightarrow> (Inl x, e) | Inr _ \<Rightarrow>
        andthen ?ps (andthen ?us (ret pf)) e)"
    using assms(1) by (simp add: resolve_profile_def with_doc_def bind_def andthen_def ret_def
        split: sum.split)
  show ?thesis
  proof (cases "profile_missing (today e) pf = []")
    case False
    then show ?thesis
      using run by (auto simp: profile_validate_def incomplete_def submission_missing_def)
  next
    case profile: True
    then have run: "resolve_profile find_profile e = andthen ?ps (andthen ?us (ret pf)) e"
      using run by (simp add: profile_validate_def incomplete_def)
    show ?thesis
    proof (cases "\<exists>p \<in> set (c_parties (doc e)). party_missing p \<noteq> []")
      case True
      then obtain p er where "p \<in> set (c_parties (doc e))" "party_validate p = Inl er"
        by (auto simp: party_validate_def incomplete_def)
      from checks_fail [where f = party_validate, OF this, of e] obtain q er' where
        "q \<in> set (c_parties (doc e))" "party_validate q = Inl er'" "?ps e = (Inl er', e)" by blast
      then show ?thesis
        using run by (auto simp: submission_missing_def party_validate_def incomplete_Inl andthen_run)
    next
      case False
      then have ps: "?ps e = (Inr (), e)"
        by (intro checks_pass) (simp add: party_validate_def)
      obtain u where "u \<in> set (c_units (doc e))" "unit_missing u \<noteq> []"
        using assms(2) profile False by (auto simp: submission_missing_def)
      then obtain er where "u \<in> set (c_units (doc e))" "unit_validate u = Inl er"
        by (auto simp: unit_validate_def incomplete_def)
      from checks_fail [where f = unit_validate, OF this, of e] obtain v er' where
        "v \<in> set (c_units (doc e))" "unit_validate v = Inl er'" "?us e = (Inl er', e)" by blast
      then show ?thesis
        using run ps by (auto simp: submission_missing_def unit_validate_def incomplete_Inl andthen_run)
    qed
  qed
qed

text \<open>
  Validation comes before the network: when the brokerage profile, a party or a unit
  lacks a required value, the submission fails with the list of what is missing in one of them,
  nothing of the gateway has changed (no request, no credential lookup), and the contract is ready.
\<close>

theorem incomplete_submission_sends_nothing:
  assumes "c_profile (doc e) = Some pf" and "submission_missing (today e) pf (doc e) \<noteq> {}"
  shows "\<exists>m e'. m \<in> submission_missing (today e) pf (doc e)
    \<and> execute_full_submission L tr src find_profile cid e = (Inl (OrmValidation (Incomplete m)), e')
    \<and> net e' = net e \<and> c_status (doc e') = Ready"
proof -
  have b: "c_profile (doc (begun e)) = Some pf"
    "submission_missing (today (begun e)) pf (doc (begun e)) = submission_missing (today e) pf (doc e)"
    using assms(1) by (simp_all add: begun_fields submission_missing_def today_def utc_now_def
        begun_def begin_submission_def andthen_def bind_def op_simps)
  then obtain m where m: "m \<in> submission_missing (today e) pf (doc e)"
    and r: "resolve_profile find_profile (begun e) = (Inl (OrmValidation (Incomplete m)), begun e)"
    using resolve_refuses [of "begun e" pf find_profile] assms(2) by auto
  have p: "run_pipeline L tr src find_profile cid (begun e) = (Inl (OrmValidation (Incomplete m)), begun e)"
    using r by (simp add: run_pipeline_def bind_def)
  then show ?thesis
    using m by (cases rule: execute_ends [of L tr src find_profile cid e]) (auto simp: begun_fields)
qed

theorem incomplete_submission_sends_nothing_witness:
  "submission_missing (today (sample_env ())) sample_profile (sample_contract\<lparr>c_units := [sample_unit\<lparr>u_area := 0\<rparr>]\<rparr>)
     = {[''area'']}
   \<and> fst (execute_full_submission \<lparr>sha256_hex = b64encode, str_other = \<lambda>_. []\<rparr>
       (\<lambda>w rq. (TimeoutRaised, 1, w))
       \<lparr>src_now = 0, src_tokens = \<lambda>_. NoTokenModel, src_params = None\<rparr> (\<lambda>_. None) ''c''
       ((sample_env ())\<lparr>doc := sample_contract\<lparr>c_units := [sample_unit\<lparr>u_area := 0\<rparr>]\<rparr>\<rparr>))
     = Inl (OrmValidation (Incomplete [''area'']))"
proof -
  let ?c = "sample_contract\<lparr>c_units := [sample_unit\<lparr>u_area := 0\<rparr>]\<rparr>"
  let ?e = "(sample_env ())\<lparr>doc := ?c\<rparr>"
  have pf: "profile_missing d sample_profile = []" for d
    by (simp add: profile_missing_def sample_profile_def license_expired_def)
  have ps: "party_missing (sample_party ''lessor'') = []" "party_missing (sample_party ''tenant'') = []"
    by (simp_all add: party_missing_def sample_party_def blank_party_def representative_roles_def)
  have us: "unit_missing (sample_unit\<lparr>u_area := 0\<rparr>) = [''area'']"
    by (simp add: unit_missing_def missing_if_def sample_unit_def sample_property_def u_deed_number_def
        u_national_address_code_def)
  have m: "submission_missing d sample_profile ?c = {[''area'']}" for d
    by (auto simp: submission_missing_def sample_contract_def pf ps us)
  have a: "c_profile (doc ?e) = Some sample_profile" by (simp add: sample_contract_def)
  have b: "submission_missing (today ?e) sample_profile (doc ?e) \<noteq> {}" by (simp add: m)
  show ?thesis
    using m incomplete_submission_sends_nothing [OF a b, where
       L = "\<lparr>sha256_hex = b64encode, str_other = \<lambda>_. []\<rparr>"
       and tr = "\<lambda>w rq. (TimeoutRaised, 1, w)" and cid = "''c''"
       and src = "\<lparr>src_now = 0, src_tokens = \<lambda>_. NoTokenModel, src_params = None\<rparr>"
       and find_profile = "\<lambda>_. None"]
    by auto
qed

end
