(* ===== verification/EjarTrace.thy ===== *)
theory EjarTrace
  imports EjarLifecycle
begin

text \<open>
  The requests a submission sends, in order. A transport is wrapped so that the world also records
  the address of every request handed to the network; the lemmas compute the addresses of a
  composed operation from those of its parts, and the properties state what a complete run ends
  with and what a resumed run is limited to.
\<close>

section \<open>Traced operations\<close>

definition traced :: "'w transport \<Rightarrow> ('w \<times> string list) transport" where
  "traced tr = (\<lambda>(w, us) rq. case tr w rq of (out, dt, w') \<Rightarrow> (out, dt, (w', us @ [rq_url rq])))"

definition sent :: "('w \<times> string list) env \<Rightarrow> string list" where
  "sent e = snd (world (net e))"

text \<open>
  \<open>sends P us m\<close>: from a contract with \<open>P\<close>, \<open>m\<close> sends a prefix of \<open>us\<close>, all of it when it
  returns, and the contract has \<open>P\<close> afterwards.
\<close>

definition sends ::
  "(contract \<Rightarrow> bool) \<Rightarrow> string list \<Rightarrow> (('w \<times> string list) env, exn, 'a) opn \<Rightarrow> bool" where
  "sends P us m \<longleftrightarrow> (\<forall>e. P (doc e) \<longrightarrow> (case m e of (r, e') \<Rightarrow>
     P (doc e') \<and> (\<exists>n. sent e' = sent e @ take n us) \<and> ((\<exists>x. r = Inr x) \<longrightarrow> sent e' = sent e @ us)))"

lemma sendsI:
  assumes "\<And>e r e'. P (doc e) \<Longrightarrow> m e = (r, e') \<Longrightarrow> P (doc e')
     \<and> ((\<exists>n. sent e' = sent e @ take n us) \<and> ((\<exists>x. r = Inr x) \<longrightarrow> sent e' = sent e @ us))"
  shows "sends P us m"
  unfolding sends_def using assms by (auto split: prod.split)

lemma sendsD:
  assumes "sends P us m" and "P (doc e)" and "m e = (r, e')"
  shows "P (doc e')" and "\<exists>n. sent e' = sent e @ take n us"
    and "r = Inr x \<Longrightarrow> sent e' = sent e @ us"
  using assms unfolding sends_def by (fastforce split: prod.splits)+

lemma take_append_prefix: "\<exists>n. xs @ take k ys = take n (xs @ ys)"
  by (rule exI [of _ "length xs + k"]) simp

lemma sends_bind:
  assumes m: "sends P us m" and f: "\<And>x. sends P vs (f x)"
  shows "sends P (us @ vs) (bind m f)"
proof (rule sendsI)
  fix e r e'
  assume P: "P (doc e)" and run: "bind m f e = (r, e')"
  obtain q u where mu: "m e = (q, u)" by fastforce
  show "P (doc e') \<and> ((\<exists>n. sent e' = sent e @ take n (us @ vs))
     \<and> ((\<exists>x. r = Inr x) \<longrightarrow> sent e' = sent e @ us @ vs))"
  proof (cases q)
    case (Inl x)
    then have r: "r = Inl x" "e' = u" using run mu by (simp_all add: bind_def)
    obtain n where n: "sent u = sent e @ take n us" using sendsD(2) [OF m P mu] by blast
    have "take n us = take (min n (length us)) (us @ vs)" by (simp add: min_def)
    then have "sent e' = sent e @ take (min n (length us)) (us @ vs)" using r n by simp
    then show ?thesis using r sendsD(1) [OF m P mu] by blast
  next
    case (Inr x)
    then have run': "f x u = (r, e')" using run mu by (simp add: bind_def)
    have u: "sent u = sent e @ us" "P (doc u)"
      using sendsD(1,3) [OF m P mu] Inr by auto
    obtain n where "sent e' = sent u @ take n vs" using sendsD(2) [OF f u(2) run'] by blast
    then have "\<exists>n. sent e' = sent e @ take n (us @ vs)"
      using u(1) take_append_prefix [of us n vs] by auto
    moreover have "r = Inr y \<Longrightarrow> sent e' = sent e @ us @ vs" for y
      using sendsD(3) [OF f u(2) run', of y] u(1) by simp
    ultimately show ?thesis using sendsD(1) [OF f u(2) run'] by blast
  qed
qed

lemma sends_andthen: "sends P us m \<Longrightarrow> sends P vs n \<Longrightarrow> sends P (us @ vs) (andthen m n)"
  unfolding andthen_def by (rule sends_bind)

text \<open>Operations that send nothing.\<close>

lemma sends_quiet:
  assumes "\<And>e. P (doc e) \<Longrightarrow> P (doc (snd (m e)))" and "\<And>e. net (snd (m e)) = net e"
  shows "sends P [] m"
  by (rule sendsI) (metis append.right_neutral assms snd_conv sent_def take_Nil)

lemma sends_nothing_bind:
  "sends P [] m \<Longrightarrow> (\<And>x. sends P us (f x)) \<Longrightarrow> sends P us (bind m f)"
  using sends_bind [of P "[]" m us f] by simp

lemma sends_nothing_then:
  "sends P [] m \<Longrightarrow> sends P us n \<Longrightarrow> sends P us (andthen m n)"
  using sends_andthen [of P "[]" m us n] by simp

lemma sends_then_nothing:
  "sends P us m \<Longrightarrow> sends P [] n \<Longrightarrow> sends P us (andthen m n)"
  using sends_andthen [of P us m "[]" n] by simp

lemma sends_with_doc:
  assumes "\<And>c. P c \<Longrightarrow> sends P us (f c)"
  shows "sends P us (with_doc f)"
proof (rule sendsI)
  fix e r e'
  assume P: "P (doc e)" and "with_doc f e = (r, e')"
  then have run: "f (doc e) e = (r, e')" by (simp add: with_doc_def)
  show "P (doc e') \<and> ((\<exists>n. sent e' = sent e @ take n us) \<and> ((\<exists>x. r = Inr x) \<longrightarrow> sent e' = sent e @ us))"
    using sendsD [OF assms [OF P] P run] by blast
qed

lemma quiet_ops:
  "sends P [] (ret x)" "sends P [] (raise y)" "sends P [] (lift_result r)" "sends P [] (py_op q)"
  "sends P [] commit" "sends P [] (message_post t)"
  by (rule sends_quiet; simp add: op_evals py_op_def commit_run message_post_run)+

lemma quiet_logs:
  "sends P [] (sync_log a i st er j)"
  "sends P [] (log_success a i j)"
  by (rule sends_quiet; simp add: sync_log_def log_call_def log_success_def)+

lemma sends_for_each_nothing:
  "(\<And>x. x \<in> set xs \<Longrightarrow> sends P [] (f x)) \<Longrightarrow> sends P [] (for_each f xs)"
  by (induction xs) (auto intro: quiet_ops sends_nothing_then)

section \<open>One request\<close>

definition is_conflict :: "exn \<Rightarrow> bool" where
  "is_conflict x = (case x of Ejar e \<Rightarrow> isinstance (exc_class e) [EjarConflictError] | _ \<Rightarrow> False)"

text \<open>A call puts its address on the trace, unless the breaker refuses it.\<close>

lemma traced_request:
  assumes "make_request (traced tr) cl m ep cid idem ps b fs to s = (r, t)"
  shows "snd (world t) = snd (world s) @ [cl_base_url cl @ ep]
    \<or> (t = s \<and> (\<exists>x. r = Inl x \<and> \<not> is_conflict x))"
proof (cases "circuit_check (cl_company cl) cid (clock s) (company_circuit cl s)")
  case (Inl e)
  then have "exc_class e = EjarCircuitOpenError"
    by (auto simp: circuit_check_def circuit_open_error_def Let_def split: if_splits)
  then show ?thesis
    using assms Inl by (auto simp: make_request_run is_conflict_def isinstance_def mro_eq)
next
  case (Inr cb)
  obtain w us where w: "world s = (w, us)" by fastforce
  obtain out dt w' where o: "tr w (request_of cl m ep cid idem ps b fs to) = (out, dt, w')"
    by (cases "tr w (request_of cl m ep cid idem ps b fs to)") auto
  have tr: "traced tr (world s) (request_of cl m ep cid idem ps b fs to)
      = (out, dt, (w', us @ [cl_base_url cl @ ep]))"
    using o by (simp add: traced_def w request_of_def)
  let ?u = "(put_circuit cl cb s)\<lparr>world := (w', us @ [cl_base_url cl @ ep]), clock := clock s + dt\<rparr>"
  have "world (snd (handle_response cl m ep cid out ?u)) = world ?u"
    using handle_response_cases [of cl m ep cid out ?u]
    by (auto simp: record_success_def record_failure_def)
  moreover have "t = snd (handle_response cl m ep cid out ?u)"
    using assms Inr tr by (simp add: make_request_run prod_eq_iff)
  ultimately show ?thesis using w by simp
qed

lemma traced_on_net:
  assumes "on_net (make_request (traced tr) cl m ep cid idem ps b fs to) e = (r, e')"
  shows "doc e' = doc e \<and> (sent e' = sent e @ [cl_base_url cl @ ep]
    \<or> (e' = e \<and> (\<exists>x. r = Inl x \<and> \<not> is_conflict x)))"
proof -
  obtain q t where q: "make_request (traced tr) cl m ep cid idem ps b fs to (net e) = (q, t)" by fastforce
  with assms have "r = q" "e' = e\<lparr>net := t\<rparr>" by (simp_all add: on_net_def)
  with traced_request [OF q] show ?thesis by (auto simp: sent_def)
qed

lemma sends_request:
  "sends P [cl_base_url cl @ ep] (on_net (make_request (traced tr) cl m ep cid idem ps b fs to))"
proof (rule sendsI)
  fix e r e'
  assume "P (doc e)" and run: "on_net (make_request (traced tr) cl m ep cid idem ps b fs to) e = (r, e')"
  with traced_on_net [OF run] show "P (doc e') \<and> ((\<exists>n. sent e' = sent e @ take n [cl_base_url cl @ ep])
     \<and> ((\<exists>x. r = Inr x) \<longrightarrow> sent e' = sent e @ [cl_base_url cl @ ep]))"
    by (metis append.right_neutral old.sum.distinct(1) take_0 take_Suc_Cons)
qed

lemma sends_ignoring_conflict:
  "sends P [cl_base_url cl @ ep]
     (ignoring_conflict (on_net (make_request (traced tr) cl m ep cid idem ps b fs to)))"
proof (rule sendsI)
  fix e r e'
  let ?m = "on_net (make_request (traced tr) cl m ep cid idem ps b fs to)"
  assume P: "P (doc e)" and run: "ignoring_conflict ?m e = (r, e')"
  obtain q u where q: "?m e = (q, u)" by fastforce
  have e': "e' = u" and r: "(\<exists>x. r = Inr x) \<longrightarrow> (\<exists>j. q = Inr j) \<or> (\<exists>x. q = Inl x \<and> is_conflict x)"
    using run q by (auto simp: ignoring_conflict_def on_conflict_def catch_def andthen_def bind_def
        ret_def raise_def is_conflict_def split: sum.splits exn.splits if_splits)
  show "P (doc e') \<and> ((\<exists>n. sent e' = sent e @ take n [cl_base_url cl @ ep])
     \<and> ((\<exists>x. r = Inr x) \<longrightarrow> sent e' = sent e @ [cl_base_url cl @ ep]))"
    using traced_on_net [OF q] P e' r
    by (metis append.right_neutral old.sum.distinct(1) sum.inject(1) take_0 take_Suc_Cons)
qed

section \<open>The closing steps\<close>

definition closing_urls :: "string \<Rightarrow> string \<Rightarrow> rat \<Rightarrow> string list" where
  "closing_urls base k fee =
     [base @ contract_ep k ''/signed_documents''] @ [base @ contract_ep k ''/financial_information'']
     @ (if fee = 0 then [] else [base @ contract_ep k ''/rental_fee''])
     @ [base @ contract_ep k ''/submit'']"

lemma sends_write: "(\<And>c. P c \<Longrightarrow> P (g c)) \<Longrightarrow> sends P [] (write_doc g)"
  by (rule sends_quiet) (simp_all add: write_doc_run)

lemma sends_raise: "sends P us (raise x)"
  by (rule sendsI) (auto simp: op_evals)

lemma sends_lift: "(\<And>x. r = Inr x \<Longrightarrow> sends P us (f x)) \<Longrightarrow> sends P us (bind (lift_result r) f)"
  by (cases r) (auto simp: bind_def lift_result_def sends_def)

lemma sends_signed_doc:
  assumes "send S = traced tr"
  shows "sends P [cl_base_url (client_of S) @ contract_ep k ''/signed_documents''] (step_upload_signed_doc S k)"
  unfolding step_upload_signed_doc_def upload_signed_document_def api_upload_def assms
  by (rule sends_with_doc) (auto intro: sends_raise sends_then_nothing sends_request quiet_logs)

lemma sends_financial_info:
  assumes "send S = traced tr"
  shows "sends P [cl_base_url (client_of S) @ contract_ep k ''/financial_information''] (step_add_financial_info S k)"
  unfolding step_add_financial_info_def add_financial_information_def api_post_def assms
  by (intro sends_with_doc sends_lift sends_then_nothing sends_ignoring_conflict quiet_logs)

lemma sends_rental_fee:
  assumes "send S = traced tr" and "\<And>c. P c \<Longrightarrow> c_brokerage_fee c = fee"
  shows "sends P (if fee = 0 then [] else [cl_base_url (client_of S) @ contract_ep k ''/rental_fee''])
     (step_add_rental_fee S pf k)"
  unfolding step_add_rental_fee_def add_rental_fee_def api_post_def assms(1) build_rental_fee_attributes_def
  using assms(2)
  by (intro sends_with_doc) (auto intro: quiet_ops sends_then_nothing sends_ignoring_conflict quiet_logs)

lemma sends_submit:
  assumes "send S = traced tr"
  shows "sends P [cl_base_url (client_of S) @ contract_ep k ''/submit''] (step_submit S k)"
proof -
  have "sends P ([cl_base_url (client_of S) @ contract_ep k ''/submit''] @ []) (step_submit S k)"
    unfolding step_submit_def submit_contract_def api_post_def assms
    by (intro sends_bind sends_request sends_nothing_bind quiet_ops quiet_logs)
  then show ?thesis by simp
qed

lemma sends_closing:
  assumes "send S = traced tr" and "\<And>c. P c \<Longrightarrow> c_brokerage_fee c = fee"
    and "\<And>c ls. P c \<Longrightarrow> P (c\<lparr>c_status := Submitted, c_last_sync := ls, c_submit_error := None\<rparr>)"
  shows "sends P (closing_urls (cl_base_url (client_of S)) k fee) (run_closing_steps S pf k)"
proof -
  have final: "sends P [] (\<lambda>e. write_doc (\<lambda>c. c\<lparr>c_status := Submitted, c_last_sync := Some (utc_now e),
      c_submit_error := None\<rparr>) e)"
    using assms(3) by (intro sends_quiet) (simp_all add: write_doc_run)
  show ?thesis
    unfolding run_closing_steps_def closing_urls_def
    by (rule sends_andthen [OF sends_signed_doc [OF assms(1)]], rule sends_nothing_then [OF quiet_ops(5)],
        rule sends_andthen [OF sends_financial_info [OF assms(1)]], rule sends_nothing_then [OF quiet_ops(5)],
        rule sends_andthen [OF sends_rental_fee [OF assms(1,2)]], assumption,
        rule sends_nothing_then [OF quiet_ops(5)], rule sends_then_nothing [OF sends_submit [OF assms(1)]],
        rule sends_nothing_then [OF final], rule sends_nothing_then [OF quiet_ops(6)], rule quiet_ops(5))
qed

section \<open>A resumed run\<close>

definition registered :: "contract \<Rightarrow> bool" where
  "registered c \<longleftrightarrow> is_set (c_ejar_id c)
     \<and> (\<forall>p \<in> set (c_parties c). is_set (p_entity_id p) \<and> is_set (p_party_id p)
          \<and> (is_set (p_proxy_doc_id p) \<or> \<not> is_set (p_proxy_doc p)))
     \<and> (\<forall>u \<in> set (c_units c). is_set (u_contract_unit_id u))"

definition resumable :: "nat \<Rightarrow> nat \<Rightarrow> string \<Rightarrow> rat \<Rightarrow> contract \<Rightarrow> bool" where
  "resumable np nu k fee c \<longleftrightarrow> registered c \<and> length (c_parties c) = np \<and> length (c_units c) = nu
     \<and> c_ejar_id c = Some k \<and> c_brokerage_fee c = fee"

lemma resumable_nth:
  "resumable np nu k fee c \<Longrightarrow> i < np \<Longrightarrow> is_set (p_entity_id (c_parties c ! i))
     \<and> is_set (p_party_id (c_parties c ! i))
     \<and> (is_set (p_proxy_doc_id (c_parties c ! i)) \<or> \<not> is_set (p_proxy_doc (c_parties c ! i)))"
  "resumable np nu k fee c \<Longrightarrow> i < nu \<Longrightarrow> is_set (u_contract_unit_id (c_units c ! i))"
  by (auto simp: resumable_def registered_def)

lemma resumable_writes [simp]:
  "resumable np nu k fee (c\<lparr>c_profile := pf\<rparr>) = resumable np nu k fee c"
  "resumable np nu k fee (c\<lparr>c_status := st, c_last_sync := ls, c_submit_error := er\<rparr>) = resumable np nu k fee c"
  "resumable np nu k fee (c\<lparr>c_status := st, c_submit_attempt := n, c_submit_error := er\<rparr>) = resumable np nu k fee c"
  by (simp_all add: resumable_def registered_def)

lemma quiet_profile: "sends (resumable np nu k fee) [] (resolve_profile find_profile)"
proof -
  have check: "sends (resumable np nu k fee) [] (\<lambda>e. (profile_validate (today e) pf, e))" for pf
    by (rule sends_quiet) simp_all
  have stored: "sends (resumable np nu k fee) [] (andthen (write_doc (\<lambda>c. c\<lparr>c_profile := Some pf\<rparr>)) (ret pf))" for pf
    by (rule sends_nothing_then [OF sends_write quiet_ops(1)]) simp
  have found: "sends (resumable np nu k fee) [] (case c_profile c of
       Some pf \<Rightarrow> ret pf
     | None \<Rightarrow> (case find_profile (c_company c) of
          Some pf \<Rightarrow> andthen (write_doc (\<lambda>c. c\<lparr>c_profile := Some pf\<rparr>)) (ret pf)
        | None \<Rightarrow> raise (UserError (Text ''no brokerage profile for the company''))))" for c
    using stored by (auto intro: quiet_ops split: option.split)
  show ?thesis
    unfolding resolve_profile_def
    by (intro sends_with_doc sends_nothing_bind [OF found] sends_nothing_then check
        sends_for_each_nothing quiet_ops)
qed

lemma new_client_world: "world (snd (new_client src company env s)) = world s"
  by (rule new_client_state [of src s company env]) auto

lemma quiet_client: "sends P [] (build_client src :: (('w \<times> string list) env, exn, client) opn)"
  unfolding build_client_def
proof (rule sends_with_doc, rule sendsI)
  fix c r and e e' :: "('w \<times> string list) env"
  assume "P (doc e)" and "on_net (new_client src (c_company c) []) e = (r, e')"
  then show "P (doc e') \<and> ((\<exists>n. sent e' = sent e @ take n []) \<and> ((\<exists>x. r = Inr x) \<longrightarrow> sent e' = sent e @ []))"
    using new_client_world [of src "c_company c" "[]" "net e"]
    by (auto simp: on_net_def sent_def split: prod.splits)
qed

lemma quiet_entities: "sends (resumable np nu k fee) [] (resolve_party_entities S)"
  unfolding resolve_party_entities_def
proof (rule sends_with_doc, rule sends_for_each_nothing, rule sends_with_doc)
  fix c i c'
  assume "resumable np nu k fee c" "i \<in> set [0..<length (c_parties c)]" "resumable np nu k fee c'"
  then have "is_set (p_entity_id (c_parties c' ! i))"
    using resumable_nth(1) [of np nu k fee c' i] by (simp add: resumable_def)
  then show "sends (resumable np nu k fee) [] (if is_set (p_entity_id (c_parties c' ! i))
      then sync_log ''create_entity'' (corr S) ''skipped'' None (JStr []) else step_create_entity S i)"
    by (simp add: quiet_logs)
qed

lemma quiet_create: "sends (resumable np nu k fee) [] (step_create_contract S pf)"
  unfolding step_create_contract_def
  by (intro sends_with_doc) (auto intro: quiet_ops simp: resumable_def registered_def)

lemma quiet_each:
  assumes "\<And>i c. resumable np nu k fee c \<Longrightarrow> i < np \<Longrightarrow> sends (resumable np nu k fee) [] (f i)"
  shows "sends (resumable np nu k fee) [] (each_party f)"
  unfolding each_party_def
  using assms by (intro sends_with_doc sends_for_each_nothing) (auto simp: resumable_def)

lemma quiet_each_unit:
  assumes "\<And>i c. resumable np nu k fee c \<Longrightarrow> i < nu \<Longrightarrow> sends (resumable np nu k fee) [] (f i)"
  shows "sends (resumable np nu k fee) [] (each_unit f)"
  unfolding each_unit_def
  using assms by (intro sends_with_doc sends_for_each_nothing) (auto simp: resumable_def)

lemma quiet_steps:
  "i < nu \<Longrightarrow> sends (resumable np nu k fee) [] (step_attach_unit S q i)"
  "i < np \<Longrightarrow> sends (resumable np nu k fee) [] (step_add_party S q i)"
  "i < np \<Longrightarrow> sends (resumable np nu k fee) [] (proxy_if_representative S q i)"
  unfolding step_attach_unit_def step_add_party_def proxy_if_representative_def
    step_upload_proxy_doc_def Let_def
  by (rule sends_with_doc; drule resumable_nth; auto intro: quiet_ops sends_with_doc dest: resumable_nth)+

lemma sends_after_contract:
  assumes "send S = traced tr" and "str_json (lib S) j = q"
  shows "sends (resumable np nu k fee) (closing_urls (cl_base_url (client_of S)) q fee)
     (run_after_contract S pf j)"
  unfolding run_after_contract_def Let_def assms(2)
  by (rule sends_nothing_then [OF quiet_each_unit [OF quiet_steps(1)]], assumption,
      rule sends_nothing_then [OF quiet_ops(5)],
      rule sends_nothing_then [OF quiet_each [OF quiet_steps(2)]], assumption,
      rule sends_nothing_then [OF quiet_ops(5)],
      rule sends_nothing_then [OF quiet_each [OF quiet_steps(3)]], assumption,
      rule sends_nothing_then [OF quiet_ops(5)],
      rule sends_then_nothing [OF sends_closing [OF assms(1)] quiet_ops(1)], simp add: resumable_def)
    simp

text \<open>A first part that sends nothing either raises or hands on to the second.\<close>

lemma quiet_bind_cases:
  assumes "sends P [] m" and "P (doc e)" and "bind m f e = (r, e')"
  obtains (stops) x where "r = Inl x" and "P (doc e')" and "sent e' = sent e"
  | (goes) x u where "m e = (Inr x, u)" and "f x u = (r, e')" and "P (doc u)" and "sent u = sent e"
proof (cases "m e")
  case (Pair q u)
  with sendsD [OF assms(1,2) Pair] assms(3) show ?thesis
    by (cases q) (auto simp: bind_def intro: stops goes)
qed

lemma client_base_url:
  "build_client src e = (Inr cl, e') \<Longrightarrow> cl_base_url cl \<in> {base_url ENV_UAT, base_url ENV_PRODUCTION}"
  by (auto simp: build_client_def with_doc_def on_net_def new_client_def Let_def env_defs
      split: prod.splits sum.splits if_splits)

lemma sends_bind_result:
  assumes m: "sends P [] m" and f: "\<And>x e u. P (doc e) \<Longrightarrow> m e = (Inr x, u) \<Longrightarrow> sends P us (f x)"
  shows "sends P us (bind m f)"
proof (rule sendsI)
  fix e r e'
  assume P: "P (doc e)" and run: "bind m f e = (r, e')"
  show "P (doc e') \<and> ((\<exists>n. sent e' = sent e @ take n us) \<and> ((\<exists>x. r = Inr x) \<longrightarrow> sent e' = sent e @ us))"
  proof (rule quiet_bind_cases [OF m P run])
    fix x
    assume stops: "r = Inl x" "P (doc e')" "sent e' = sent e"
    then show ?thesis by (metis append.right_neutral old.sum.distinct(1) take_0)
  next
    fix x u
    assume goes: "m e = (Inr x, u)" "f x u = (r, e')" "P (doc u)" "sent u = sent e"
    show ?thesis
      using sendsD [OF f [OF P goes(1)] goes(3,2)] goes(4) by auto
  qed
qed

lemma create_returns_stored:
  assumes "resumable np nu k fee (doc e)" and "step_create_contract S pf e = (Inr j, u)"
  shows "j = JStr k"
proof -
  have "is_set (c_ejar_id (doc e))" and "c_ejar_id (doc e) = Some k"
    using assms(1) unfolding resumable_def registered_def by blast+
  then have "step_create_contract S pf e = (Inr (field_json (Some k)), e)"
    by (simp only: step_create_contract_def with_doc_def if_True op_evals)
  then show ?thesis using assms(2) by (simp add: field_json_def)
qed

lemma sends_resumed:
  assumes "send S = traced tr"
  shows "sends (resumable np nu k fee) (closing_urls (cl_base_url (client_of S)) k fee)
    (andthen (resolve_party_entities S)
     (andthen commit
     (bind (step_create_contract S pf) (\<lambda>ejar_id.
      andthen commit (run_after_contract S pf ejar_id)))))"
proof (rule sends_nothing_then [OF quiet_entities], rule sends_nothing_then [OF quiet_ops(5)],
    rule sends_bind_result [OF quiet_create])
  fix j and e u :: "('a \<times> string list) env"
  assume "resumable np nu k fee (doc e)" "step_create_contract S pf e = (Inr j, u)"
  then have "j = JStr k" by (rule create_returns_stored)
  then have "str_json (lib S) j = k" by (simp add: str_json_def)
  then show "sends (resumable np nu k fee) (closing_urls (cl_base_url (client_of S)) k fee)
      (andthen commit (run_after_contract S pf j))"
    by (intro sends_nothing_then [OF quiet_ops(5)] sends_after_contract [OF assms])
qed

lemma resumed_pipeline:
  assumes P: "resumable np nu k fee (doc e)"
    and run: "run_pipeline L (traced tr) src find_profile cid e = (r, e')"
  shows "\<exists>base n. base \<in> {base_url ENV_UAT, base_url ENV_PRODUCTION}
    \<and> sent e' = sent e @ take n (closing_urls base k fee)
    \<and> ((\<exists>j. r = Inr j) \<longrightarrow> sent e' = sent e @ closing_urls base k fee)"
proof -
  have none: ?thesis if "sent e' = sent e" "r = Inl x" for x
    using that by (intro exI [of _ "base_url ENV_UAT"] exI [of _ 0]) simp
  show ?thesis
  proof (rule quiet_bind_cases [where P = "resumable np nu k fee", OF quiet_profile P run [unfolded run_pipeline_def]])
    fix x
    assume "sent e' = sent e" "r = Inl x"
    then show ?thesis by (rule none)
  next
    fix pf u
    assume goes: "resolve_profile find_profile e = (Inr pf, u)"
      "bind (build_client src) (\<lambda>cl.
         let S = \<lparr>lib = L, send = traced tr, client_of = cl, corr = cid\<rparr> in
         andthen (resolve_party_entities S)
         (andthen commit
         (bind (step_create_contract S pf) (\<lambda>ejar_id.
          andthen commit (run_after_contract S pf ejar_id))))) u = (r, e')"
      "resumable np nu k fee (doc u)" "sent u = sent e"
    show ?thesis
    proof (rule quiet_bind_cases [where P = "resumable np nu k fee", OF quiet_client goes(3,2)])
      fix x
      assume "sent e' = sent u" "r = Inl x"
      with goes(4) show ?thesis by (intro none) simp_all
    next
      fix cl v
      assume client: "build_client src u = (Inr cl, v)"
        "(let S = \<lparr>lib = L, send = traced tr, client_of = cl, corr = cid\<rparr> in
         andthen (resolve_party_entities S)
         (andthen commit
         (bind (step_create_contract S pf) (\<lambda>ejar_id.
          andthen commit (run_after_contract S pf ejar_id))))) v = (r, e')"
        "resumable np nu k fee (doc v)" "sent v = sent u"
      let ?S = "\<lparr>lib = L, send = traced tr, client_of = cl, corr = cid\<rparr>"
      have tail: "andthen (resolve_party_entities ?S)
         (andthen commit
         (bind (step_create_contract ?S pf) (\<lambda>ejar_id.
          andthen commit (run_after_contract ?S pf ejar_id)))) v = (r, e')"
        using client(2) by (simp add: Let_def)
      have "sends (resumable np nu k fee) (closing_urls (cl_base_url (client_of ?S)) k fee)
         (andthen (resolve_party_entities ?S)
         (andthen commit
         (bind (step_create_contract ?S pf) (\<lambda>ejar_id.
          andthen commit (run_after_contract ?S pf ejar_id)))))"
        by (rule sends_resumed) simp
      from sendsD(2,3) [OF this client(3) tail] obtain n where
        "sent e' = sent e @ take n (closing_urls (cl_base_url cl) k fee)"
        "(\<exists>j. r = Inr j) \<longrightarrow> sent e' = sent e @ closing_urls (cl_base_url cl) k fee"
        using goes(4) client(4) by (metis session.simps(3))
      then show ?thesis using client_base_url [OF client(1)] by blast
    qed
  qed
qed

lemma closing_requests:
  assumes "execute_full_submission L (traced tr) src find_profile cid e = (Inr j, e')"
  shows "\<exists>base us. sent e' = us @ closing_urls base (str_json L j) (c_brokerage_fee (doc e))"
proof -
  obtain u where run: "run_pipeline L (traced tr) src find_profile cid (begun e) = (Inr j, u)" and e': "e' = u"
    using assms by (cases rule: execute_ends [of L "traced tr" src find_profile cid e]) auto
  then obtain pf cl v where closing:
    "run_closing_steps \<lparr>lib = L, send = traced tr, client_of = cl, corr = cid\<rparr> pf (str_json L j) v = (Inr (), e')"
    using pipeline_success by metis
  let ?P = "\<lambda>c. c_brokerage_fee c = c_brokerage_fee (doc v)"
  have s: "sends ?P (closing_urls (cl_base_url cl) (str_json L j) (c_brokerage_fee (doc v)))
      (run_closing_steps \<lparr>lib = L, send = traced tr, client_of = cl, corr = cid\<rparr> pf (str_json L j))"
    using sends_closing [of "\<lparr>lib = L, send = traced tr, client_of = cl, corr = cid\<rparr>" tr ?P] by simp
  have "c_brokerage_fee (doc e') = c_brokerage_fee (doc v)"
    using sendsD(1) [OF s refl closing] .
  moreover have "c_brokerage_fee (doc e') = c_brokerage_fee (doc e)"
    using pipeline_progress [of "begun e" L "traced tr" src find_profile cid] run e'
    by (simp add: progress_def begun_fields)
  ultimately show ?thesis
    using sendsD(3) [OF s refl closing, of "()"] by auto
qed

section \<open>Properties\<close>

text \<open>
  Property C2. A submission that returns ended with exactly these requests to the returned contract
  id, in this order and on one base address: the signed document, the financial information, the
  rental fee when the contract has a brokerage fee, and last the submit request.
\<close>

theorem submission_closing_requests:
  "case execute_full_submission L (traced tr) src find_profile cid e of
     (Inr j, e') \<Rightarrow> (\<exists>base us. sent e' = us @ closing_urls base (str_json L j) (c_brokerage_fee (doc e)))
   | (Inl x, e') \<Rightarrow> True"
proof (cases "\<exists>j e'. execute_full_submission L (traced tr) src find_profile cid e = (Inr j, e')")
  case True
  then obtain j e' where run: "execute_full_submission L (traced tr) src find_profile cid e = (Inr j, e')"
    by blast
  then show ?thesis using closing_requests [OF run] by simp
next
  case False
  then show ?thesis by (auto split: prod.split sum.split)
qed

end
