(* ===== verification/EjarLiveness.thy ===== *)
theory EjarLiveness
  imports EjarTrace
begin

text \<open>
  A submission does get through: with a complete contract, credentials, a closed breaker and an Ejar
  that accepts every request with an identifier, \<^verbatim>\<open>execute_full_submission\<close> returns. The
  lemmas push success through the pipeline the way the frame pushes invariants.
\<close>

section \<open>Success of composed operations\<close>

definition succeeds :: "('s \<Rightarrow> bool) \<Rightarrow> ('s, 'e, 'a) opn \<Rightarrow> ('a \<Rightarrow> 's \<Rightarrow> bool) \<Rightarrow> bool" where
  "succeeds P m Q \<longleftrightarrow> (\<forall>s. P s \<longrightarrow> (\<exists>x t. m s = (Inr x, t) \<and> Q x t))"

lemma succeedsI: "(\<And>s. P s \<Longrightarrow> \<exists>x t. m s = (Inr x, t) \<and> Q x t) \<Longrightarrow> succeeds P m Q"
  by (simp add: succeeds_def)

lemma succeedsE:
  assumes "succeeds P m Q" and "P s"
  obtains x t where "m s = (Inr x, t)" and "Q x t"
  using assms by (auto simp: succeeds_def)

lemma succeeds_bind:
  assumes "succeeds P m Q" and "\<And>x. succeeds (Q x) (f x) R"
  shows "succeeds P (bind m f) R"
proof (rule succeedsI)
  fix s assume "P s"
  then obtain x t where m: "m s = (Inr x, t)" "Q x t" by (rule succeedsE [OF assms(1)])
  from m(2) obtain y u where "f x t = (Inr y, u)" "R y u" by (rule succeedsE [OF assms(2)])
  with m(1) show "\<exists>y u. bind m f s = (Inr y, u) \<and> R y u" by (simp add: bind_def)
qed

lemma succeeds_andthen: "succeeds P m (\<lambda>_. Q) \<Longrightarrow> succeeds Q n R \<Longrightarrow> succeeds P (andthen m n) R"
  unfolding andthen_def by (rule succeeds_bind)

lemma succeeds_ret: "(\<And>s. P s \<Longrightarrow> Q x s) \<Longrightarrow> succeeds P (ret x) Q"
  by (auto simp: succeeds_def ret_def)

lemma succeeds_lift: "(\<exists>x. r = Inr x) \<Longrightarrow> succeeds P (lift_result r) (\<lambda>x s. r = Inr x \<and> P s)"
  by (auto simp: succeeds_def lift_result_def)

lemma succeeds_upto:
  assumes "\<And>i. i < n \<Longrightarrow> succeeds (I i) (f i) (\<lambda>_. I (Suc i))"
  shows "succeeds (I 0) (for_each f [0..<n]) (\<lambda>_. I n)"
proof -
  have "k \<le> n \<Longrightarrow> succeeds (I k) (for_each f [k..<n]) (\<lambda>_. I n)" for k
  proof (induction "n - k" arbitrary: k)
    case 0
    then show ?case by (simp add: succeeds_ret)
  next
    case (Suc d)
    then have "k < n" by simp
    then have "[k..<n] = k # [Suc k..<n]" by (rule upt_conv_Cons)
    moreover have "succeeds (I (Suc k)) (for_each f [Suc k..<n]) (\<lambda>_. I n)"
      using Suc by (intro Suc.hyps) auto
    ultimately show ?case
      using assms [OF \<open>k < n\<close>] by (simp add: succeeds_andthen)
  qed
  then show ?thesis by simp
qed

lemma succeeds_each:
  "(\<And>x. x \<in> set xs \<Longrightarrow> succeeds P (f x) (\<lambda>_. P)) \<Longrightarrow> succeeds P (for_each f xs) (\<lambda>_. P)"
  by (induction xs) (auto intro: succeeds_ret succeeds_andthen)

section \<open>An accepting Ejar\<close>

text \<open>
  The answer to every request is a 2xx whose \<open>data\<close> is an object with a text as identifier; what else
  the object holds is free, but \<open>attributes\<close>, when given, is an object.
\<close>

definition accepted :: "json \<Rightarrow> bool" where
  "accepted j \<longleftrightarrow> (\<exists>d k a. response_data j = Inr (JObj d) \<and> dict_get d ''id'' (JStr []) = JStr k \<and> k \<noteq> []
     \<and> dict_get d ''attributes'' (JObj []) = JObj a)"

definition accepting :: "'w transport \<Rightarrow> bool" where
  "accepting tr \<longleftrightarrow> (\<forall>w rq. \<exists>st j raw content dt w'.
     tr w rq = (Response st (Some j) raw content, dt, w') \<and> 200 \<le> st \<and> st < 300 \<and> accepted j)"

definition breaker_closed :: "int \<Rightarrow> 'w sys \<Rightarrow> bool" where
  "breaker_closed company s \<longleftrightarrow> (case circuits s company of Some cb \<Rightarrow> state cb = CLOSED | None \<Rightarrow> True)"

lemma accepted_id: "accepted j \<Longrightarrow> \<exists>k. response_id j = Inr (JStr k) \<and> k \<noteq> []"
  by (auto simp: accepted_def response_id_def json_get_def)

lemma accepted_request:
  fixes tr :: "'w transport"
  assumes "accepting tr" and "cl_company cl = company"
  shows "succeeds (breaker_closed company) (make_request tr cl m ep cid idem ps b fs to)
    (\<lambda>j s. accepted j \<and> breaker_closed company s)"
proof (rule succeedsI)
  fix s :: "'w sys" assume s: "breaker_closed company s"
  let ?cb = "company_circuit cl s"
  have cb: "state ?cb = CLOSED"
    using s assms(2) by (auto simp: breaker_closed_def company_circuit_def get_circuit_def new_circuit_def split: option.splits)
  then have check: "circuit_check (cl_company cl) cid (clock s) ?cb = Inr ?cb"
    by (simp add: circuit_check_def)
  obtain st j raw content dt w' where
    o: "tr (world s) (request_of cl m ep cid idem ps b fs to) = (Response st (Some j) raw content, dt, w')"
    and ok: "200 \<le> st" "st < 300" "accepted j"
    using assms(1) unfolding accepting_def by blast
  let ?u = "(put_circuit cl ?cb s)\<lparr>world := w', clock := clock s + dt\<rparr>"
  have "make_request tr cl m ep cid idem ps b fs to s = (Inr j, record_success cl ?u)"
    using check o ok by (simp add: make_request_run handle_response_def raise_for_ejar_status_def)
  moreover have "breaker_closed company (record_success cl ?u)"
    using cb assms(2) by (simp add: breaker_closed_def record_success_def put_circuit_def company_circuit_def
        get_circuit_def circuit_record_success_def)
  ultimately show "\<exists>x t. make_request tr cl m ep cid idem ps b fs to s = (Inr x, t) \<and> accepted x \<and> breaker_closed company t"
    using ok(3) by blast
qed

section \<open>A contract that can be submitted\<close>

definition party_ready :: "party \<Rightarrow> bool" where
  "party_ready p \<longleftrightarrow> p_entity_type p \<in> {''individual'', ''organization''} \<and> p_role p \<noteq> []
     \<and> party_validate p = Inr ()"

definition unit_ready :: "unit_line \<Rightarrow> bool" where
  "unit_ready u \<longleftrightarrow> unit_validate u = Inr () \<and> is_set (u_ejar_property_id u) \<and> is_set (u_ejar_unit_id u)"

definition submittable :: "contract \<Rightarrow> bool" where
  "submittable c \<longleftrightarrow> is_set (c_signed_doc c) \<and> c_payment_schedule c \<noteq> Some []
     \<and> (\<forall>p \<in> set (c_parties c). party_ready p) \<and> (\<forall>u \<in> set (c_units c). unit_ready u)"

text \<open>
  What holds between the steps: the contract is submittable, the breaker closed, and the first
  \<open>k\<close> parties have their entity.
\<close>

definition going :: "int \<Rightarrow> nat \<Rightarrow> nat \<Rightarrow> nat \<Rightarrow> 'w env \<Rightarrow> bool" where
  "going company np nu k e \<longleftrightarrow> submittable (doc e) \<and> breaker_closed company (net e)
     \<and> length (c_parties (doc e)) = np \<and> length (c_units (doc e)) = nu
     \<and> (\<forall>i<k. is_set (p_entity_id (c_parties (doc e) ! i)))"

lemma entity_attributes:
  assumes "party_ready p"
  shows "\<exists>a. (if p_entity_type p = ''individual'' then build_individual_entity_attributes p
     else build_organization_entity_attributes p) = Inr a"
proof (cases "p_entity_type p = ''individual''")
  case True
  then have "is_set (p_id_number p)" "is_set (p_mobile p)" "is_set (p_full_name_ar p)"
    using assms party_validate_individual [of p] by (simp_all add: party_ready_def)
  then have "\<exists>a. build_individual_entity_attributes p = Inr a"
    by (subst individual_attributes_iff) auto
  with True show ?thesis by simp
next
  case False
  then have "is_set (p_cr_number p) \<or> is_set (p_unified_number p)"
    using assms party_validate_organization [of p] by (simp add: party_ready_def)
  then have "or_field (p_cr_number p) (p_unified_number p) \<noteq> Some []"
    by (auto simp: or_field_def)
  then have "\<exists>a. build_organization_entity_attributes p = Inr a"
    by (simp add: organization_attributes_iff)
  with False show ?thesis by simp
qed

lemma ready_writes:
  "party_ready (p\<lparr>p_entity_id := x, p_sync_state := y\<rparr>) = party_ready p"
  "party_ready (p\<lparr>p_party_id := x, p_sync_state := y\<rparr>) = party_ready p"
  "party_ready (p\<lparr>p_proxy_doc_id := x\<rparr>) = party_ready p"
  "unit_ready (u\<lparr>u_contract_unit_id := x, u_sync_state := y\<rparr>) = unit_ready u"
  by (simp_all add: party_ready_def party_validate_def party_missing_def unit_ready_def unit_validate_def
      unit_missing_def u_deed_number_def u_national_address_code_def)

lemma submittable_party:
  "submittable c \<Longrightarrow> i < length (c_parties c) \<Longrightarrow> party_ready (c_parties c ! i)"
  "submittable c \<Longrightarrow> j < length (c_units c) \<Longrightarrow> unit_ready (c_units c ! j)"
  by (simp_all add: submittable_def)

lemma submittable_upd:
  "submittable c \<Longrightarrow> (i < length (c_parties c) \<Longrightarrow> party_ready (f (c_parties c ! i))) \<Longrightarrow> submittable (upd_party i f c)"
  "submittable c \<Longrightarrow> (i < length (c_units c) \<Longrightarrow> unit_ready (g (c_units c ! i))) \<Longrightarrow> submittable (upd_unit i g c)"
  by (cases "i < length (c_parties c)"; cases "i < length (c_units c)";
      auto simp: submittable_def upd_party_def upd_unit_def list_update_beyond dest!: set_update_subset_insert [THEN subsetD])+

section \<open>The steps\<close>

lemma succeeds_with_doc:
  "(\<And>c. succeeds (\<lambda>e. P e \<and> doc e = c) (f c) Q) \<Longrightarrow> succeeds P (with_doc f) Q"
  unfolding succeeds_def with_doc_def by blast

lemma succeeds_py: "r = Inr x \<Longrightarrow> (\<And>s. P s \<Longrightarrow> Q x s) \<Longrightarrow> succeeds P (py_op r) Q"
  by (auto simp: succeeds_def py_op_def lift_result_def)

lemma succeeds_write: "(\<And>e. P e \<Longrightarrow> Q (e\<lparr>doc := g (doc e)\<rparr>)) \<Longrightarrow> succeeds P (write_doc g) (\<lambda>_. Q)"
  by (simp add: succeeds_def write_doc_run)

lemma succeeds_conflict: "succeeds P m Q \<Longrightarrow> succeeds P (on_conflict m h) Q"
  by (fastforce simp: succeeds_def on_conflict_def catch_def)

lemma succeeds_weaken: "succeeds P m Q \<Longrightarrow> (\<And>s. P' s \<Longrightarrow> P s) \<Longrightarrow> (\<And>x s. Q x s \<Longrightarrow> Q' x s) \<Longrightarrow> succeeds P' m Q'"
  unfolding succeeds_def by blast

lemma going_frame [simp]:
  "going company np nu k (e\<lparr>logs := ls\<rparr>) = going company np nu k e"
  "going company np nu k (e\<lparr>saved := sv\<rparr>) = going company np nu k e"
  "going company np nu k (e\<lparr>chatter := ch\<rparr>) = going company np nu k e"
  by (simp_all add: going_def)

lemma succeeds_log: "succeeds (going company np nu k) (log_success a i j) (\<lambda>_. going company np nu k)"
  by (simp add: succeeds_def log_success_def sync_log_def log_call_def default_log_def LOG_STATUSES_def
      LOG_DIRECTIONS_def)

lemma succeeds_skip_log:
  "succeeds (going company np nu k) (sync_log a i ''skipped'' None j) (\<lambda>_. going company np nu k)"
  by (simp add: succeeds_def sync_log_def log_call_def default_log_def LOG_STATUSES_def LOG_DIRECTIONS_def)

lemma succeeds_commit: "succeeds (going company np nu k) commit (\<lambda>_. going company np nu k)"
  by (simp add: succeeds_def commit_run)

lemma succeeds_call:
  fixes tr :: "'w transport"
  assumes "accepting tr" and "cl_company cl = company"
  shows "succeeds (\<lambda>e. going company np nu k e \<and> doc e = c)
     (on_net (make_request tr cl m ep cid idem ps b fs to))
     (\<lambda>j e. accepted j \<and> going company np nu k e \<and> doc e = c)"
proof (rule succeedsI)
  fix e :: "'w env" assume e: "going company np nu k e \<and> doc e = c"
  then have "breaker_closed company (net e)" by (simp add: going_def)
  then obtain j s where "make_request tr cl m ep cid idem ps b fs to (net e) = (Inr j, s)"
    and "accepted j \<and> breaker_closed company s"
    by (rule succeedsE [OF accepted_request [OF assms]])
  with e show "\<exists>x t. on_net (make_request tr cl m ep cid idem ps b fs to) e = (Inr x, t)
      \<and> accepted x \<and> going company np nu k t \<and> doc t = c"
    by (auto simp: on_net_def going_def)
qed

definition ready_session :: "int \<Rightarrow> 'w session \<Rightarrow> bool" where
  "ready_session company S \<longleftrightarrow> accepting (send S) \<and> cl_company (client_of S) = company"

lemma succeeds_endpoints:
  assumes "ready_session company S"
  shows "succeeds (\<lambda>e. going company np nu k e \<and> doc e = c) (on_net (create_individual_entity L (send S) (client_of S) a cid))
      (\<lambda>j e. accepted j \<and> going company np nu k e \<and> doc e = c)"
    "succeeds (\<lambda>e. going company np nu k e \<and> doc e = c) (on_net (create_organization_entity L (send S) (client_of S) a cid))
      (\<lambda>j e. accepted j \<and> going company np nu k e \<and> doc e = c)"
    "succeeds (\<lambda>e. going company np nu k e \<and> doc e = c) (on_net (create_contract L (send S) (client_of S) a cid))
      (\<lambda>j e. accepted j \<and> going company np nu k e \<and> doc e = c)"
    "succeeds (\<lambda>e. going company np nu k e \<and> doc e = c) (on_net (attach_unit L (send S) (client_of S) q pr u cid))
      (\<lambda>j e. accepted j \<and> going company np nu k e \<and> doc e = c)"
    "succeeds (\<lambda>e. going company np nu k e \<and> doc e = c) (on_net (add_party L (send S) (client_of S) q a cid))
      (\<lambda>j e. accepted j \<and> going company np nu k e \<and> doc e = c)"
    "succeeds (\<lambda>e. going company np nu k e \<and> doc e = c) (on_net (upload_proxy_document L (send S) (client_of S) q pa bs f d cid))
      (\<lambda>j e. accepted j \<and> going company np nu k e \<and> doc e = c)"
    "succeeds (\<lambda>e. going company np nu k e \<and> doc e = c) (on_net (upload_signed_document L (send S) (client_of S) q bs f cid))
      (\<lambda>j e. accepted j \<and> going company np nu k e \<and> doc e = c)"
    "succeeds (\<lambda>e. going company np nu k e \<and> doc e = c) (on_net (add_financial_information L (send S) (client_of S) q a cid))
      (\<lambda>j e. accepted j \<and> going company np nu k e \<and> doc e = c)"
    "succeeds (\<lambda>e. going company np nu k e \<and> doc e = c) (on_net (add_rental_fee L (send S) (client_of S) q a cid))
      (\<lambda>j e. accepted j \<and> going company np nu k e \<and> doc e = c)"
    "succeeds (\<lambda>e. going company np nu k e \<and> doc e = c) (on_net (submit_contract L (send S) (client_of S) q cid))
      (\<lambda>j e. accepted j \<and> going company np nu k e \<and> doc e = c)"
  using assms succeeds_call [of "send S" "client_of S" company]
  by (simp_all add: endpoint_defs api_defs Let_def ready_session_def)

lemma succeeds_if: "(b \<Longrightarrow> succeeds P m Q) \<Longrightarrow> (\<not> b \<Longrightarrow> succeeds P n Q) \<Longrightarrow> succeeds P (if b then m else n) Q"
  by simp

lemma succeeds_assume: "(\<And>s. P s \<Longrightarrow> A) \<Longrightarrow> (A \<Longrightarrow> succeeds P m Q) \<Longrightarrow> succeeds P m Q"
  unfolding succeeds_def by blast

text \<open>A response with an identifier, stored by \<open>write\<close>, then anything that succeeds after it.\<close>

lemma succeeds_store:
  assumes "\<And>j e. j \<noteq> [] \<Longrightarrow> P e \<Longrightarrow> doc e = c \<Longrightarrow> R (e\<lparr>doc := g (JStr j) c\<rparr>)"
    and "\<And>j. succeeds R (n j) Q"
  shows "succeeds (\<lambda>e. accepted resp \<and> P e \<and> doc e = c)
    (bind (py_op (response_id resp)) (\<lambda>j. andthen (write_doc (g j)) (n j))) Q"
proof (rule succeeds_assume [where A = "accepted resp"])
  assume "accepted resp"
  then obtain j where j: "response_id resp = Inr (JStr j)" "j \<noteq> []"
    using accepted_id by blast
  have id: "succeeds (\<lambda>e. accepted resp \<and> P e \<and> doc e = c) (py_op (response_id resp))
      (\<lambda>q e. q = JStr j \<and> P e \<and> doc e = c)"
    by (rule succeeds_py [OF j(1)]) simp
  show ?thesis
  proof (rule succeeds_bind [OF id])
    fix q
    have "succeeds (\<lambda>e. q = JStr j \<and> P e \<and> doc e = c) (write_doc (g q)) (\<lambda>_. R)"
      using assms(1) [OF j(2)] by (intro succeeds_write) auto
    then show "succeeds (\<lambda>e. q = JStr j \<and> P e \<and> doc e = c) (andthen (write_doc (g q)) (n q)) Q"
      using assms(2) by (rule succeeds_andthen)
  qed
qed simp

lemma orm_char_id [simp]: "orm_char L (JStr j) = Some j"
  by (simp add: orm_char_def str_json_def)

lemma going_entity:
  assumes "going company np nu i e" and "i < np" and "j \<noteq> []"
  shows "going company np nu (Suc i)
    (e\<lparr>doc := upd_party i (\<lambda>p. p\<lparr>p_entity_id := Some j, p_sync_state := y\<rparr>) (doc e)\<rparr>)"
proof -
  have "submittable (upd_party i (\<lambda>p. p\<lparr>p_entity_id := Some j, p_sync_state := y\<rparr>) (doc e))"
    using assms by (intro submittable_upd) (auto simp: going_def ready_writes submittable_party)
  with assms show ?thesis
    by (auto simp: going_def upd_party_def nth_list_update less_Suc_eq)
qed

lemma going_party:
  assumes "going company np nu k e"
    and "\<And>p. party_ready (f p) = party_ready p" and "\<And>p. p_entity_id (f p) = p_entity_id p"
  shows "going company np nu k (e\<lparr>doc := upd_party i f (doc e)\<rparr>)"
proof -
  have "submittable (upd_party i f (doc e))"
    using assms(1,2) by (intro submittable_upd) (auto simp: going_def submittable_party)
  moreover have "p_entity_id (c_parties (upd_party i f (doc e)) ! j) = p_entity_id (c_parties (doc e) ! j)"
    if "j < length (c_parties (doc e))" for j
    using that assms(3) by (cases "i = j") (simp_all add: upd_party_def nth_list_update)
  moreover have "k \<le> np \<or> np < k" by linarith
  ultimately show ?thesis
    using assms(1) by (cases "i < np") (auto simp: going_def upd_party_def nth_list_update assms(3) list_update_beyond)
qed

lemma going_unit:
  assumes "going company np nu k e" and "\<And>u. unit_ready (g u) = unit_ready u"
  shows "going company np nu k (e\<lparr>doc := upd_unit i g (doc e)\<rparr>)"
proof -
  have "submittable (upd_unit i g (doc e))"
    using assms by (intro submittable_upd) (auto simp: going_def submittable_party)
  with assms(1) show ?thesis by (simp add: going_def upd_unit_def)
qed

lemma going_contract:
  "going company np nu k (e\<lparr>doc := c\<lparr>c_ejar_id := x, c_ejar_number := z\<rparr>\<rparr>) = going company np nu k (e\<lparr>doc := c\<rparr>)"
  "going company np nu k (e\<lparr>doc := c\<lparr>c_profile := pf\<rparr>\<rparr>) = going company np nu k (e\<lparr>doc := c\<rparr>)"
  by (simp_all add: going_def submittable_def)

lemma same_doc: "doc e = c \<Longrightarrow> e\<lparr>doc := c\<rparr> = e"
  by auto

text \<open>The two steps that tell an accepted call from a conflict.\<close>

lemma succeeds_outcome:
  assumes "succeeds P m (\<lambda>oc e. \<exists>j. oc = Inr j \<and> accepted j \<and> P e)"
    and "\<And>j. succeeds (\<lambda>e. accepted j \<and> P e) (g j) Q"
  shows "succeeds P (bind m (\<lambda>oc. case oc of Inl x \<Rightarrow> h x | Inr j \<Rightarrow> g j)) Q"
proof (rule succeeds_bind [OF assms(1)])
  fix oc
  show "succeeds (\<lambda>e. \<exists>j. oc = Inr j \<and> accepted j \<and> P e) (case oc of Inl x \<Rightarrow> h x | Inr j \<Rightarrow> g j) Q"
    using assms(2) by (cases oc) (simp_all add: succeeds_def)
qed

lemma works_create_entity:
  assumes S: "ready_session company S" and "i < np"
  shows "succeeds (going company np nu i) (step_create_entity S i) (\<lambda>_. going company np nu (Suc i))"
  unfolding step_create_entity_def Let_def
proof (rule succeeds_with_doc)
  fix c :: contract
  let ?p = "c_parties c ! i"
  let ?attrs = "if p_entity_type ?p = ''individual'' then build_individual_entity_attributes ?p
      else build_organization_entity_attributes ?p"
  let ?P = "\<lambda>e. going company np nu i e \<and> doc e = c"
  show "succeeds ?P
     (bind (lift_result ?attrs) (\<lambda>a.
      bind (on_conflict (on_net ((if p_entity_type ?p = ''individual'' then create_individual_entity
                 else create_organization_entity) (lib S) (send S) (client_of S) a (corr S)))
             (adopt_existing (\<lambda>j. JObj [(''data'', JObj [(''id'', j)])]))) (\<lambda>resp.
      bind (py_op (response_id resp)) (\<lambda>entity_id.
      andthen (write_doc (upd_party i (\<lambda>p. p\<lparr>p_entity_id := orm_char (lib S) entity_id,
                p_sync_state := ''synced''\<rparr>)))
       (log_success (if p_entity_type ?p = ''individual'' then ''create_individual_entity''
                   else ''create_organization_entity'') (corr S) (JObj [(''entity_id'', entity_id)]))))))
     (\<lambda>_. going company np nu (Suc i))"
  proof (rule succeeds_assume [where A = "party_ready ?p"])
    fix e assume "?P e"
    then show "party_ready ?p" using assms(2) by (auto simp: going_def submittable_party)
  next
    assume "party_ready ?p"
    then have "\<exists>a. ?attrs = Inr a" by (rule entity_attributes)
    from succeeds_lift [OF this, of ?P]
    have attrs: "succeeds ?P (lift_result ?attrs) (\<lambda>a. ?P)" by (rule succeeds_weaken) auto
    have call: "succeeds ?P (on_conflict (on_net ((if p_entity_type ?p = ''individual''
          then create_individual_entity else create_organization_entity) (lib S) (send S) (client_of S) a (corr S)))
             (adopt_existing (\<lambda>j. JObj [(''data'', JObj [(''id'', j)])]))) (\<lambda>j e. accepted j \<and> ?P e)" for a
      by (intro succeeds_conflict) (simp add: succeeds_endpoints [OF S])
    show ?thesis
      by (rule succeeds_bind [OF attrs], rule succeeds_bind [OF call], rule succeeds_store
          [where R = "going company np nu (Suc i)"])
        (auto intro: going_entity [OF _ assms(2)] succeeds_log)
  qed
qed


lemma works_entities:
  assumes S: "ready_session company S"
  shows "succeeds (going company np nu 0) (resolve_party_entities S) (\<lambda>_. going company np nu np)"
  unfolding resolve_party_entities_def
proof (rule succeeds_with_doc)
  fix c :: contract
  let ?f = "\<lambda>i. with_doc (\<lambda>c. if is_set (p_entity_id (c_parties c ! i))
      then sync_log ''create_entity'' (corr S) ''skipped'' None (JStr []) else step_create_entity S i)"
  have step: "succeeds (going company np nu i) (?f i) (\<lambda>_. going company np nu (Suc i))" if "i < np" for i
  proof (rule succeeds_with_doc, rule succeeds_if)
    fix c :: contract
    assume set: "is_set (p_entity_id (c_parties c ! i))"
    show "succeeds (\<lambda>e. going company np nu i e \<and> doc e = c)
        (sync_log ''create_entity'' (corr S) ''skipped'' None (JStr [])) (\<lambda>_. going company np nu (Suc i))"
      by (rule succeeds_weaken [OF succeeds_skip_log [of company np nu "Suc i"]])
        (use set in \<open>auto simp: going_def less_Suc_eq\<close>)
  next
    fix c :: contract
    show "succeeds (\<lambda>e. going company np nu i e \<and> doc e = c) (step_create_entity S i)
        (\<lambda>_. going company np nu (Suc i))"
      by (rule succeeds_weaken [OF works_create_entity [OF S that]]) auto
  qed
  have all: "succeeds (going company np nu 0) (for_each ?f [0..<np]) (\<lambda>_. going company np nu np)"
    by (rule succeeds_upto [where I = "going company np nu", OF step])
  show "succeeds (\<lambda>e. going company np nu 0 e \<and> doc e = c) (for_each ?f [0..<length (c_parties c)])
      (\<lambda>_. going company np nu np)"
  proof (rule succeeds_assume [where A = "length (c_parties c) = np"])
    assume n: "length (c_parties c) = np"
    show ?thesis unfolding n by (rule succeeds_weaken [OF all]) auto
  qed (auto simp: going_def)
qed

lemma works_create_contract:
  assumes S: "ready_session company S"
  shows "succeeds (going company np nu k) (step_create_contract S pf) (\<lambda>_. going company np nu k)"
  unfolding step_create_contract_def
proof (rule succeeds_with_doc, rule succeeds_if)
  fix c :: contract
  show "succeeds (\<lambda>e. going company np nu k e \<and> doc e = c) (ret (field_json (c_ejar_id c)))
      (\<lambda>_. going company np nu k)"
    by (rule succeeds_ret) simp
next
  fix c :: contract
  let ?P = "\<lambda>e. going company np nu k e \<and> doc e = c"
  have attrs: "succeeds ?P (lift_result (build_contract_attributes c (Some pf))) (\<lambda>a. ?P)"
    by (rule succeeds_weaken [OF succeeds_lift [of _ ?P]]) (auto simp: contract_attributes_total)
  have call: "succeeds ?P (on_conflict (on_net (create_contract (lib S) (send S) (client_of S) a (corr S))) h)
      (\<lambda>j e. accepted j \<and> ?P e)" for a h
    by (intro succeeds_conflict) (rule succeeds_endpoints [OF S])
  have rest: "succeeds (\<lambda>e. accepted resp \<and> ?P e)
     (bind (py_op (response_id resp)) (\<lambda>ejar_id.
       bind (py_op (ebind (response_data resp) (\<lambda>d.
               ebind (json_get d ''attributes'' (JObj [])) (\<lambda>a.
                 json_get a ''contract_number'' (JStr []))))) (\<lambda>ejar_number.
       andthen (write_doc (\<lambda>c. c\<lparr>c_ejar_id := orm_char (lib S) ejar_id,
                  c_ejar_number := orm_char (lib S) ejar_number\<rparr>))
       (andthen (log_success ''create_contract'' (corr S) (JObj [(''ejar_contract_id'', ejar_id)]))
         (ret ejar_id))))) (\<lambda>_. going company np nu k)" for resp
  proof (rule succeeds_assume [where A = "accepted resp"])
    assume "accepted resp"
    then obtain d q a where d: "response_data resp = Inr (JObj d)" "dict_get d ''id'' (JStr []) = JStr q"
      "dict_get d ''attributes'' (JObj []) = JObj a"
      by (auto simp: accepted_def)
    have id: "succeeds (\<lambda>e. accepted resp \<and> ?P e) (py_op (response_id resp)) (\<lambda>_. going company np nu k)"
      by (rule succeeds_py [where x = "JStr q"]) (auto simp: response_id_def d json_get_def)
    have num: "succeeds (going company np nu k) (py_op (ebind (response_data resp) (\<lambda>d.
               ebind (json_get d ''attributes'' (JObj [])) (\<lambda>a.
                 json_get a ''contract_number'' (JStr []))))) (\<lambda>_. going company np nu k)"
      by (rule succeeds_py [where x = "dict_get a ''contract_number'' (JStr [])"])
        (auto simp: d json_get_def)
    show ?thesis
      by (rule succeeds_bind [OF id], rule succeeds_bind [OF num], rule succeeds_andthen [OF succeeds_write],
          rule going_contract(1) [THEN iffD2], simp add: same_doc,
          rule succeeds_andthen [OF succeeds_log], rule succeeds_ret, assumption)
  qed simp
  show "succeeds ?P (bind (lift_result (build_contract_attributes c (Some pf))) (\<lambda>attrs.
       bind (on_conflict (on_net (create_contract (lib S) (send S) (client_of S) attrs (corr S)))
               (\<lambda>x. adopt_existing
                  (\<lambda>j. JObj [(''data'', JObj [(''id'', j), (''attributes'', exc_existing x)])]) x)) (\<lambda>resp.
       bind (py_op (response_id resp)) (\<lambda>ejar_id.
       bind (py_op (ebind (response_data resp) (\<lambda>d.
               ebind (json_get d ''attributes'' (JObj [])) (\<lambda>a.
                 json_get a ''contract_number'' (JStr []))))) (\<lambda>ejar_number.
       andthen (write_doc (\<lambda>c. c\<lparr>c_ejar_id := orm_char (lib S) ejar_id,
                  c_ejar_number := orm_char (lib S) ejar_number\<rparr>))
       (andthen (log_success ''create_contract'' (corr S) (JObj [(''ejar_contract_id'', ejar_id)]))
         (ret ejar_id))))))) (\<lambda>_. going company np nu k)"
    by (rule succeeds_bind [OF attrs], rule succeeds_bind [OF call], rule rest)
qed


lemma works_attach_unit:
  assumes S: "ready_session company S" and "i < nu"
  shows "succeeds (going company np nu k) (step_attach_unit S q i) (\<lambda>_. going company np nu k)"
  unfolding step_attach_unit_def Let_def
proof (rule succeeds_with_doc, rule succeeds_if)
  fix c :: contract
  show "succeeds (\<lambda>e. going company np nu k e \<and> doc e = c) (ret ()) (\<lambda>_. going company np nu k)"
    by (rule succeeds_ret) simp
next
  fix c :: contract
  let ?u = "c_units c ! i"
  let ?P = "\<lambda>e. going company np nu k e \<and> doc e = c"
  let ?g = "\<lambda>j. upd_unit i (\<lambda>u. u\<lparr>u_contract_unit_id := orm_char (lib S) j, u_sync_state := ''synced''\<rparr>)"
  let ?call = "on_conflict
     (bind (on_net (attach_unit (lib S) (send S) (client_of S) q (the (u_ejar_property_id ?u))
        (the (u_ejar_unit_id ?u)) (corr S))) (\<lambda>r. ret (Inr r :: ejar_exc + json)))
     (\<lambda>x. ret (Inl x))"
  have call: "succeeds ?P ?call (\<lambda>oc e. \<exists>j. oc = Inr j \<and> accepted j \<and> ?P e)"
    by (rule succeeds_conflict, rule succeeds_bind [OF succeeds_endpoints(4) [OF S]], rule succeeds_ret) auto
  have store: "succeeds (\<lambda>e. accepted j \<and> ?P e) (bind (py_op (response_id j)) (\<lambda>j.
      andthen (write_doc (?g j)) (log_success ''attach_unit'' (corr S) (JStr [])))) (\<lambda>_. going company np nu k)" for j
    by (rule succeeds_store [where R = "going company np nu k", OF _ succeeds_log])
      (auto intro: going_unit simp: ready_writes)
  show "succeeds ?P
    (if \<not> is_set (u_ejar_property_id ?u) \<or> \<not> is_set (u_ejar_unit_id ?u)
     then raise (Ejar (mk_exc EjarPayloadError (UnitNotRegistered (int i))))
     else bind ?call (\<lambda>outcome. case outcome of
         Inl x \<Rightarrow> bind (py_op (json_get (exc_existing x) ''id'' (JStr []))) (\<lambda>j. write_doc (?g j))
       | Inr resp \<Rightarrow> bind (py_op (response_id resp)) (\<lambda>j.
           andthen (write_doc (?g j)) (log_success ''attach_unit'' (corr S) (JStr [])))))
    (\<lambda>_. going company np nu k)"
  proof (rule succeeds_assume [where A = "unit_ready ?u"])
    fix e assume "?P e"
    then show "unit_ready ?u" using assms(2) by (auto simp: going_def submittable_party)
  next
    assume "unit_ready ?u"
    then show ?thesis
      by (simp add: unit_ready_def) (rule succeeds_outcome [OF call store])
  qed
qed

lemma works_add_party:
  assumes S: "ready_session company S" and "i < np"
  shows "succeeds (going company np nu np) (step_add_party S q i) (\<lambda>_. going company np nu np)"
  unfolding step_add_party_def Let_def
proof (rule succeeds_with_doc, rule succeeds_if)
  fix c :: contract
  show "succeeds (\<lambda>e. going company np nu np e \<and> doc e = c) (ret ()) (\<lambda>_. going company np nu np)"
    by (rule succeeds_ret) simp
next
  fix c :: contract
  let ?p = "c_parties c ! i"
  let ?P = "\<lambda>e. going company np nu np e \<and> doc e = c"
  let ?g = "\<lambda>j. upd_party i (\<lambda>p. p\<lparr>p_party_id := orm_char (lib S) j, p_sync_state := ''synced''\<rparr>)"
  let ?call = "\<lambda>attrs. on_conflict
     (bind (on_net (add_party (lib S) (send S) (client_of S) q attrs (corr S)))
        (\<lambda>r. ret (Inr r :: ejar_exc + json)))
     (\<lambda>x. ret (Inl x))"
  let ?log = "\<lambda>j. log_success ''add_party'' (corr S) (JObj [(''role'', JStr (p_role ?p)), (''ejar_party_id'', j)])"
  have call: "succeeds ?P (?call attrs) (\<lambda>oc e. \<exists>j. oc = Inr j \<and> accepted j \<and> ?P e)" for attrs
    by (rule succeeds_conflict, rule succeeds_bind [OF succeeds_endpoints(5) [OF S]], rule succeeds_ret) auto
  have store: "succeeds (\<lambda>e. accepted j \<and> ?P e) (bind (py_op (response_id j)) (\<lambda>j.
      andthen (write_doc (?g j)) (?log j))) (\<lambda>_. going company np nu np)" for j
    by (rule succeeds_store [where R = "going company np nu np", OF _ succeeds_log])
      (auto intro: going_party simp: ready_writes)
  show "succeeds ?P
    (if \<not> is_set (p_entity_id ?p)
     then raise (Ejar (mk_exc EjarPayloadError (PartyWithoutEntity (int i))))
     else bind (lift_result (build_party_attributes ?p (the (p_entity_id ?p)))) (\<lambda>attrs.
       bind (?call attrs) (\<lambda>outcome. case outcome of
         Inl x \<Rightarrow> bind (py_op (json_get (exc_existing x) ''id'' (JStr []))) (\<lambda>j. write_doc (?g j))
       | Inr resp \<Rightarrow> bind (py_op (response_id resp)) (\<lambda>j. andthen (write_doc (?g j)) (?log j)))))
    (\<lambda>_. going company np nu np)"
  proof (rule succeeds_assume [where A = "party_ready ?p \<and> is_set (p_entity_id ?p)"])
    fix e assume "?P e"
    then show "party_ready ?p \<and> is_set (p_entity_id ?p)"
      using assms(2) by (auto simp: going_def submittable_party)
  next
    assume p: "party_ready ?p \<and> is_set (p_entity_id ?p)"
    have "\<exists>a. build_party_attributes ?p (the (p_entity_id ?p)) = Inr a"
      using p by (auto simp: build_party_attributes_def party_ready_def elim!: is_setE)
    from succeeds_lift [OF this, of ?P]
    have attrs: "succeeds ?P (lift_result (build_party_attributes ?p (the (p_entity_id ?p)))) (\<lambda>a. ?P)"
      by (rule succeeds_weaken) auto
    show ?thesis
      using p by simp (rule succeeds_bind [OF attrs], rule succeeds_outcome [OF call store])
  qed
qed

lemma works_proxy:
  assumes S: "ready_session company S"
  shows "succeeds (going company np nu k) (proxy_if_representative S q i) (\<lambda>_. going company np nu k)"
proof -
  have noop: "succeeds (\<lambda>e. going company np nu k e \<and> doc e = c) (ret ()) (\<lambda>_. going company np nu k)" for c
    by (rule succeeds_ret) simp
  have upload: "succeeds (going company np nu k) (step_upload_proxy_doc S q i) (\<lambda>_. going company np nu k)"
    unfolding step_upload_proxy_doc_def Let_def
    by (rule succeeds_with_doc, intro succeeds_if noop, rule succeeds_bind [OF succeeds_endpoints(6) [OF S]],
        rule succeeds_store [where R = "going company np nu k", OF _ succeeds_log])
      (auto intro: going_party simp: ready_writes)
  show ?thesis
    unfolding proxy_if_representative_def
    by (rule succeeds_with_doc, intro succeeds_if noop) (rule succeeds_weaken [OF upload], auto)
qed


lemma works_signed_doc:
  assumes S: "ready_session company S"
  shows "succeeds (going company np nu k) (step_upload_signed_doc S q) (\<lambda>_. going company np nu k)"
  unfolding step_upload_signed_doc_def
proof (rule succeeds_with_doc, rule succeeds_if)
  fix c :: contract
  assume "\<not> is_set (c_signed_doc c)"
  then show "succeeds (\<lambda>e. going company np nu k e \<and> doc e = c)
     (raise (Ejar (mk_exc EjarPayloadError (Text ''signed document is missing'')))) (\<lambda>_. going company np nu k)"
    by (auto simp: succeeds_def going_def submittable_def)
next
  fix c :: contract
  show "succeeds (\<lambda>e. going company np nu k e \<and> doc e = c)
     (andthen (on_net (upload_signed_document (lib S) (send S) (client_of S) q
               (b64decode (the (c_signed_doc c)))
               (or_str (c_signed_doc_filename c) (''contract_'' @ c_name c @ ''.pdf'')) (corr S)))
         (log_success ''upload_signed_document'' (corr S) (JStr []))) (\<lambda>_. going company np nu k)"
    by (rule succeeds_andthen [OF succeeds_weaken [OF succeeds_endpoints(7) [OF S, where c = c]] succeeds_log]) auto
qed

lemma succeeds_ignoring:
  "succeeds P m (\<lambda>j. Q) \<Longrightarrow> succeeds P (ignoring_conflict m) (\<lambda>_. Q)"
  unfolding ignoring_conflict_def
  by (rule succeeds_conflict, rule succeeds_andthen, assumption, rule succeeds_ret)

lemma works_financial_info:
  assumes S: "ready_session company S"
  shows "succeeds (going company np nu k) (step_add_financial_info S q) (\<lambda>_. going company np nu k)"
  unfolding step_add_financial_info_def
proof (rule succeeds_with_doc)
  fix c :: contract
  let ?P = "\<lambda>e. going company np nu k e \<and> doc e = c"
  show "succeeds ?P (bind (lift_result (build_financial_attributes c)) (\<lambda>attrs.
     andthen (ignoring_conflict (on_net
               (add_financial_information (lib S) (send S) (client_of S) q attrs (corr S))))
       (log_success ''add_financial_information'' (corr S) (JStr [])))) (\<lambda>_. going company np nu k)"
  proof (rule succeeds_assume [where A = "c_payment_schedule c \<noteq> Some []"])
    assume "c_payment_schedule c \<noteq> Some []"
    then have "\<exists>a. build_financial_attributes c = Inr a"
      by (simp add: build_financial_attributes_def Let_def)
    from succeeds_lift [OF this, of ?P]
    have attrs: "succeeds ?P (lift_result (build_financial_attributes c)) (\<lambda>a. ?P)"
      by (rule succeeds_weaken) auto
    have call: "succeeds ?P (on_net (add_financial_information (lib S) (send S) (client_of S) q a (corr S)))
        (\<lambda>_. going company np nu k)" for a
      by (rule succeeds_weaken [OF succeeds_endpoints(8) [OF S, where c = c]]) auto
    show ?thesis
      by (rule succeeds_bind [OF attrs], rule succeeds_andthen [OF succeeds_ignoring [OF call] succeeds_log])
  qed (auto simp: going_def submittable_def)
qed

lemma works_rental_fee:
  assumes S: "ready_session company S"
  shows "succeeds (going company np nu k) (step_add_rental_fee S pf q) (\<lambda>_. going company np nu k)"
  unfolding step_add_rental_fee_def
proof (rule succeeds_with_doc)
  fix c :: contract
  let ?P = "\<lambda>e. going company np nu k e \<and> doc e = c"
  have call: "succeeds ?P (on_net (add_rental_fee (lib S) (send S) (client_of S) q a (corr S)))
      (\<lambda>_. going company np nu k)" for a
    by (rule succeeds_weaken [OF succeeds_endpoints(9) [OF S, where c = c]]) auto
  show "succeeds ?P (case build_rental_fee_attributes c (Some pf) of
       None \<Rightarrow> ret ()
     | Some attrs \<Rightarrow>
         andthen (ignoring_conflict (on_net
                   (add_rental_fee (lib S) (send S) (client_of S) q attrs (corr S))))
           (log_success ''add_rental_fee'' (corr S) (JStr []))) (\<lambda>_. going company np nu k)"
  proof (cases "build_rental_fee_attributes c (Some pf)")
    case None
    then show ?thesis by simp (rule succeeds_ret, simp)
  next
    case (Some attrs)
    then show ?thesis
      by simp (rule succeeds_andthen [OF succeeds_ignoring [OF call] succeeds_log])
  qed
qed

lemma works_submit:
  assumes S: "ready_session company S"
  shows "succeeds (going company np nu k) (step_submit S q) (\<lambda>_. going company np nu k)"
proof -
  have "step_submit S q = with_doc (\<lambda>c. step_submit S q)"
    by (simp add: with_doc_def fun_eq_iff)
  moreover have "succeeds (going company np nu k) (with_doc (\<lambda>c. step_submit S q)) (\<lambda>_. going company np nu k)"
    unfolding step_submit_def
  proof (rule succeeds_with_doc, rule succeeds_bind [OF succeeds_endpoints(10) [OF S]])
    fix c :: contract and resp
    let ?P = "\<lambda>e. accepted resp \<and> going company np nu k e \<and> doc e = c"
    show "succeeds ?P (bind (py_op (response_data resp)) (\<lambda>d. log_success ''submit_contract'' (corr S) d))
        (\<lambda>_. going company np nu k)"
    proof (rule succeeds_assume [where A = "accepted resp"])
      assume "accepted resp"
      then obtain d where d: "response_data resp = Inr d" by (auto simp: accepted_def)
      have "succeeds ?P (py_op (response_data resp)) (\<lambda>_. going company np nu k)"
        by (rule succeeds_py [OF d]) simp
      then show ?thesis by (rule succeeds_bind) (rule succeeds_log)
    qed simp
  qed
  ultimately show ?thesis by simp
qed

lemma works_final:
  "succeeds (going company np nu k) (\<lambda>e. write_doc (\<lambda>c. c\<lparr>c_status := Submitted, c_last_sync := Some (utc_now e),
      c_submit_error := None\<rparr>) e) (\<lambda>_. going company np nu k)"
  "succeeds (going company np nu k) (message_post m) (\<lambda>_. going company np nu k)"
  by (simp_all add: succeeds_def write_doc_run message_post_run going_def submittable_def)

lemma works_units:
  assumes S: "ready_session company S"
  shows "succeeds (going company np nu k) (each_unit (step_attach_unit S q)) (\<lambda>_. going company np nu k)"
  unfolding each_unit_def
proof (rule succeeds_with_doc)
  fix c :: contract
  show "succeeds (\<lambda>e. going company np nu k e \<and> doc e = c)
      (for_each (step_attach_unit S q) [0..<length (c_units c)]) (\<lambda>_. going company np nu k)"
  proof (rule succeeds_assume [where A = "length (c_units c) = nu"])
    assume n: "length (c_units c) = nu"
    have "succeeds (going company np nu k) (for_each (step_attach_unit S q) [0..<nu]) (\<lambda>_. going company np nu k)"
      by (rule succeeds_each) (simp add: works_attach_unit [OF S])
    then show ?thesis unfolding n by (rule succeeds_weaken) auto
  qed (auto simp: going_def)
qed

lemma works_parties:
  assumes "\<And>i. i < np \<Longrightarrow> succeeds (going company np nu np) (f i) (\<lambda>_. going company np nu np)"
  shows "succeeds (going company np nu np) (each_party f) (\<lambda>_. going company np nu np)"
  unfolding each_party_def
proof (rule succeeds_with_doc)
  fix c :: contract
  show "succeeds (\<lambda>e. going company np nu np e \<and> doc e = c)
      (for_each f [0..<length (c_parties c)]) (\<lambda>_. going company np nu np)"
  proof (rule succeeds_assume [where A = "length (c_parties c) = np"])
    assume n: "length (c_parties c) = np"
    have "succeeds (going company np nu np) (for_each f [0..<np]) (\<lambda>_. going company np nu np)"
      by (rule succeeds_each) (simp add: assms)
    then show ?thesis unfolding n by (rule succeeds_weaken) auto
  qed (auto simp: going_def)
qed

lemma works_closing:
  assumes S: "ready_session company S"
  shows "succeeds (going company np nu k) (run_closing_steps S pf q) (\<lambda>_. going company np nu k)"
  unfolding run_closing_steps_def
  by (rule succeeds_andthen [OF works_signed_doc [OF S]], rule succeeds_andthen [OF succeeds_commit],
      rule succeeds_andthen [OF works_financial_info [OF S]], rule succeeds_andthen [OF succeeds_commit],
      rule succeeds_andthen [OF works_rental_fee [OF S]], rule succeeds_andthen [OF succeeds_commit],
      rule succeeds_andthen [OF works_submit [OF S]], rule succeeds_andthen [OF works_final(1)],
      rule succeeds_andthen [OF works_final(2)], rule succeeds_commit)

lemma works_after_contract:
  assumes S: "ready_session company S"
  shows "succeeds (going company np nu np) (run_after_contract S pf j) (\<lambda>_ _. True)"
  unfolding run_after_contract_def Let_def
  by (rule succeeds_andthen [OF works_units [OF S]], rule succeeds_andthen [OF succeeds_commit],
      rule succeeds_andthen [OF works_parties [OF works_add_party [OF S]]], assumption,
      rule succeeds_andthen [OF succeeds_commit],
      rule succeeds_andthen [OF works_parties [OF works_proxy [OF S]]],
      rule succeeds_andthen [OF succeeds_commit],
      rule succeeds_andthen [OF works_closing [OF S]], rule succeeds_ret, rule TrueI)

text \<open>The profile and the client are found.\<close>

definition profile_ready :: "(int \<Rightarrow> profile option) \<Rightarrow> 'w env \<Rightarrow> bool" where
  "profile_ready find_profile e \<longleftrightarrow>
     (case (case c_profile (doc e) of Some pf \<Rightarrow> Some pf | None \<Rightarrow> find_profile (c_company (doc e))) of
        Some pf \<Rightarrow> profile_missing (today e) pf = [] | None \<Rightarrow> False)"

definition credentials_ready :: "cred_sources \<Rightarrow> int \<Rightarrow> 'w sys \<Rightarrow> bool" where
  "credentials_ready src company s \<longleftrightarrow>
     (\<exists>c. fst (get_credentials (src_now src) (src_tokens src) (src_params src) (clock s) (clock s)
        company (cred_store s)) = Inr c)"

lemma works_profile:
  assumes "going company np nu 0 e" and "profile_ready find_profile e" and "c_company (doc e) = company"
  shows "\<exists>pf e'. resolve_profile find_profile e = (Inr pf, e') \<and> going company np nu 0 e'
    \<and> c_company (doc e') = company \<and> net e' = net e"
proof -
  let ?e = "\<lambda>pf. if c_profile (doc e) = None then e\<lparr>doc := (doc e)\<lparr>c_profile := Some pf\<rparr>\<rparr> else e"
  obtain pf where pf: "profile_missing (today e) pf = []"
    and found: "c_profile (doc e) = Some pf \<or> (c_profile (doc e) = None \<and> find_profile (c_company (doc e)) = Some pf)"
    using assms(2) by (auto simp: profile_ready_def split: option.splits)
  have valid: "\<forall>p \<in> set (c_parties (doc e)). party_validate p = Inr ()"
    "\<forall>u \<in> set (c_units (doc e)). unit_validate u = Inr ()"
    using assms(1) by (auto simp: going_def submittable_def party_ready_def unit_ready_def)
  have "today (?e pf) = today e" by (simp add: today_def utc_now_def)
  then have "resolve_profile find_profile e = (Inr pf, ?e pf)"
    using found pf valid
    by (auto simp: resolve_profile_def with_doc_def bind_def andthen_def ret_def write_doc_run
        profile_validate_def incomplete_def checks_pass)
  moreover have "going company np nu 0 (?e pf)" "c_company (doc (?e pf)) = company" "net (?e pf) = net e"
    using assms by (simp_all add: going_contract)
  ultimately show ?thesis by blast
qed

lemma works_client:
  assumes "going company np nu 0 e" and "c_company (doc e) = company"
    and "credentials_ready src company (net e)" and "sys_ok (net e)"
  shows "\<exists>cl e'. build_client src e = (Inr cl, e') \<and> cl_company cl = company \<and> going company np nu 0 e'"
proof -
  let ?s = "net e"
  obtain c store where g: "get_credentials (src_now src) (src_tokens src) (src_params src) (clock ?s) (clock ?s)
      company (cred_store ?s) = (Inr c, store)"
    using assms(3) unfolding credentials_ready_def by (metis prod.collapse)
  have "environment c \<in> set VALID_ENVIRONMENTS"
    using get_credentials_ok [OF _ g] assms(4) by (simp add: sys_ok_def credentials_ok_def)
  then have n: "new_client src company [] ?s = (Inr \<lparr>cl_company = company, cl_credentials = c,
      cl_environment = environment c, cl_base_url = base_url (environment c)\<rparr>,
      ?s\<lparr>cred_store := store, circuits := snd (get_circuit (circuits ?s) company)\<rparr>)"
    using g by (simp add: new_client_def Let_def)
  have "breaker_closed company (?s\<lparr>cred_store := store, circuits := snd (get_circuit (circuits ?s) company)\<rparr>)"
    using assms(1) by (auto simp: going_def breaker_closed_def get_circuit_def new_circuit_def split: option.splits)
  with assms(1,2) n show ?thesis
    by (simp add: build_client_def with_doc_def on_net_def going_def)
qed

lemma today_begun: "today (begun e) = today e"
  by (simp add: today_def utc_now_def begun_def begin_submission_def andthen_def bind_def op_simps)

lemma submission_gets_through:
  assumes "submittable (doc e)" and "profile_ready find_profile e"
    and "credentials_ready src (c_company (doc e)) (net e)"
    and "breaker_closed (c_company (doc e)) (net e)" and "sys_ok (net e)" and "accepting tr"
  shows "\<exists>j e'. execute_full_submission L tr src find_profile cid e = (Inr j, e')
    \<and> c_status (doc e') = Submitted"
proof -
  let ?c = "c_company (doc e)"
  let ?np = "length (c_parties (doc e))" and ?nu = "length (c_units (doc e))"
  have g: "going ?c ?np ?nu 0 (begun e)"
    using assms(1,4) by (simp add: going_def begun_fields submittable_def)
  have "profile_ready find_profile (begun e)"
    using assms(2) by (simp add: profile_ready_def today_begun begun_fields cong: option.case_cong)
  then obtain pf e1 where r1: "resolve_profile find_profile (begun e) = (Inr pf, e1)"
    and g1: "going ?c ?np ?nu 0 e1" "c_company (doc e1) = ?c" "net e1 = net e"
    using works_profile [OF g, of find_profile] by (auto simp: begun_fields)
  obtain cl e2 where r2: "build_client src e1 = (Inr cl, e2)" and cl: "cl_company cl = ?c"
    and g2: "going ?c ?np ?nu 0 e2"
    using works_client [OF g1(1,2), of src] assms(3,5) g1(3) by auto
  let ?S = "\<lparr>lib = L, send = tr, client_of = cl, corr = cid\<rparr>"
  have S: "ready_session ?c ?S" using assms(6) cl by (simp add: ready_session_def)
  have "succeeds (going ?c ?np ?nu 0) (andthen (resolve_party_entities ?S)
       (andthen commit
       (bind (step_create_contract ?S pf) (\<lambda>ejar_id.
        andthen commit
          (run_after_contract ?S pf ejar_id))))) (\<lambda>_ _. True)"
    by (rule succeeds_andthen [OF works_entities [OF S]], rule succeeds_andthen [OF succeeds_commit],
        rule succeeds_bind [OF works_create_contract [OF S]], rule succeeds_andthen [OF succeeds_commit],
        rule works_after_contract [OF S])
  then obtain j e3 where r3: "andthen (resolve_party_entities ?S)
       (andthen commit
       (bind (step_create_contract ?S pf) (\<lambda>ejar_id.
        andthen commit
          (run_after_contract ?S pf ejar_id)))) e2 = (Inr j, e3)"
    using g2 by (auto simp: succeeds_def)
  have "run_pipeline L tr src find_profile cid (begun e) = (Inr j, e3)"
    using r1 r2 r3
    by (simp add: run_pipeline_def Let_def bind_def [of "resolve_profile find_profile"]
        bind_def [of "build_client src"])
  then show ?thesis
    by (cases rule: execute_ends [of L tr src find_profile cid e]) auto
qed

text \<open>An Ejar that answers as JSON:API does, and the sources of one company's credentials.\<close>

definition accepting_sample :: "'w transport" where
  "accepting_sample w rq =
     (Response 200 (Some (JObj [(''data'', JObj [(''type'', JStr ''resources''), (''id'', JStr ''9''),
        (''attributes'', JObj [(''state'', JStr ''draft'')]), (''links'', JObj [])])])) [] [], 1, w)"

definition sample_sources :: cred_sources where
  "sample_sources = \<lparr>src_now = 0, src_tokens = \<lambda>_. Found \<lparr>tok_expires_at = None, tok_api_key = ''k'',
     tok_api_secret = ''s'', tok_environment = []\<rparr>, src_params = None\<rparr>"

lemma accepting_traced: "accepting tr \<Longrightarrow> accepting (traced tr)"
  unfolding accepting_def
proof (intro allI)
  fix w :: "'a \<times> string list" and rq
  assume acc: "\<forall>w rq. \<exists>st j raw content dt w'. tr w rq = (Response st (Some j) raw content, dt, w')
      \<and> 200 \<le> st \<and> st < 300 \<and> accepted j"
  obtain v us where w: "w = (v, us)" by fastforce
  from acc obtain st j raw content dt v' where "tr v rq = (Response st (Some j) raw content, dt, v')"
    and "200 \<le> st" "st < 300" "accepted j" by blast
  then show "\<exists>st j raw content dt w'. traced tr w rq = (Response st (Some j) raw content, dt, w')
      \<and> 200 \<le> st \<and> st < 300 \<and> accepted j"
    by (auto simp: traced_def w)
qed

lemma sample_accepting: "accepting accepting_sample"
  by (auto simp: accepting_def accepting_sample_def accepted_def response_data_def json_get_def dict_get_def)

text \<open>The sample environment with any contract of the sample's company and profile.\<close>

lemma sample_conditions:
  assumes "c_profile c = Some sample_profile" and "c_company c = 1"
  shows "profile_ready fp ((sample_env w)\<lparr>doc := c\<rparr>)"
    and "credentials_ready sample_sources (c_company c) (net (sample_env w))"
    and "breaker_closed k (net (sample_env w))" and "sys_ok (net (sample_env w))"
proof -
  show "profile_ready fp ((sample_env w)\<lparr>doc := c\<rparr>)"
    using assms by (simp add: profile_ready_def profile_missing_def sample_profile_def license_expired_def)
  show "credentials_ready sample_sources (c_company c) (net (sample_env w))"
    by (simp add: credentials_ready_def sample_sources_def sample_env_def idle_sys_def
        get_credentials_def fetch_through_def cache_get_def resolve_credentials_def from_token_model_def
        mk_credentials_def env_defs)
  show "breaker_closed k (net (sample_env w))"
    by (simp add: breaker_closed_def sample_env_def idle_sys_def)
  show "sys_ok (net (sample_env w))"
    by (simp add: sample_env_def idle_sys_def sys_ok_def circuits_ok_def cache_ok_def)
qed

lemma sample_ready:
  "party_ready (sample_party ''lessor'')" "party_ready (sample_party ''tenant'')" "unit_ready sample_unit"
  by (simp_all add: party_ready_def party_validate_def party_missing_def sample_party_def
      blank_party_def representative_roles_def unit_ready_def unit_validate_def unit_missing_def
      sample_unit_def sample_property_def u_deed_number_def u_national_address_code_def)

definition registered_contract :: contract where
  "registered_contract = sample_contract\<lparr>c_ejar_id := Some ''K'', c_brokerage_fee := 1500,
     c_parties := map (\<lambda>p. p\<lparr>p_entity_id := Some ''E'', p_party_id := Some ''P''\<rparr>)
       [sample_party ''lessor'', sample_party ''tenant''],
     c_units := [sample_unit\<lparr>u_contract_unit_id := Some ''U''\<rparr>]\<rparr>"

definition registered_env :: "(unit \<times> string list) env" where
  "registered_env = (sample_env ((), []))\<lparr>doc := registered_contract\<rparr>"

lemma registered_ready: "submittable registered_contract" "registered registered_contract"
proof -
  have "party_ready (p\<lparr>p_entity_id := x, p_party_id := y\<rparr>) = party_ready p" for p x y
    by (simp add: party_ready_def party_validate_def party_missing_def)
  moreover have "unit_ready (u\<lparr>u_contract_unit_id := x\<rparr>) = unit_ready u" for u x
    by (simp add: unit_ready_def unit_validate_def unit_missing_def u_deed_number_def u_national_address_code_def)
  ultimately show "submittable registered_contract"
    by (simp add: submittable_def registered_contract_def sample_contract_def sample_ready)
  show "registered registered_contract"
    by (simp add: registered_def registered_contract_def sample_party_def blank_party_def)
qed

section \<open>Properties\<close>

text \<open>
  Property C3. Resuming a submission whose identifiers are all stored (the contract's, entity and
  party of every party, the proxy document of every party that has one, every unit's) repeats
  nothing that created them: no entity, contract, unit, party or proxy document request is sent
  again. What is sent, whatever the answers, is a prefix of the closing requests (three, or four with
  a brokerage fee) on one of the two base addresses, and all of them when the run returns. (The signed document and the submit
  request are sent again on every run: these two steps store nothing they could be skipped by.)
\<close>

theorem resumed_submission_requests:
  assumes "registered (doc e)" and "c_ejar_id (doc e) = Some k"
    and "execute_full_submission L (traced tr) src find_profile cid e = (r, e')"
  shows "\<exists>base n. base \<in> {base_url ENV_UAT, base_url ENV_PRODUCTION}
    \<and> sent e' = sent e @ take n (closing_urls base k (c_brokerage_fee (doc e)))
    \<and> (case r of Inr j \<Rightarrow> sent e' = sent e @ closing_urls base k (c_brokerage_fee (doc e)) | Inl x \<Rightarrow> True)"
proof -
  let ?np = "length (c_parties (doc e))" and ?nu = "length (c_units (doc e))"
  let ?fee = "c_brokerage_fee (doc e)"
  have P: "resumable ?np ?nu k ?fee (doc (begun e))"
    using assms(1,2) by (simp add: begun_fields) (simp add: resumable_def)
  have start: "sent (begun e) = sent e" by (simp add: sent_def begun_fields)
  show ?thesis
    using assms(3)
  proof (cases rule: execute_ends [of L "traced tr" src find_profile cid e])
    case (success j u)
    with assms(3) resumed_pipeline [OF P success(1)] start show ?thesis by auto
  next
    case (failure x u v)
    have "sent v = sent u" using failure(5) by (simp add: sent_def)
    with assms(3) failure resumed_pipeline [OF P failure(1)] start show ?thesis by auto
  qed
qed

theorem resumed_submission_requests_witness:
  "\<exists>base j e'. execute_full_submission \<lparr>sha256_hex = b64encode, str_other = \<lambda>_. []\<rparr> (traced accepting_sample)
       sample_sources (\<lambda>_. None) ''c'' registered_env = (Inr j, e')
     \<and> sent e' = [base @ ''/contracts/K/signed_documents'', base @ ''/contracts/K/financial_information'',
         base @ ''/contracts/K/rental_fee'', base @ ''/contracts/K/submit'']"
proof -
  let ?L = "\<lparr>sha256_hex = b64encode, str_other = \<lambda>_. []\<rparr>"
  have company: "c_profile registered_contract = Some sample_profile" "c_company registered_contract = 1"
    by (simp_all add: registered_contract_def sample_contract_def)
  have d: "doc registered_env = registered_contract" "net registered_env = net (sample_env ((), []))"
    by (simp_all add: registered_env_def)
  have "\<exists>j e'. execute_full_submission ?L (traced accepting_sample) sample_sources (\<lambda>_. None) ''c'' registered_env
      = (Inr j, e') \<and> c_status (doc e') = Submitted"
    using sample_conditions [OF company, where w = "((), [])"] registered_ready(1)
    by (intro submission_gets_through accepting_traced sample_accepting) (simp_all add: d, simp add: registered_env_def)
  then obtain j e' where run: "execute_full_submission ?L (traced accepting_sample) sample_sources (\<lambda>_. None)
      ''c'' registered_env = (Inr j, e')" by blast
  have reg: "registered (doc registered_env)" "c_ejar_id (doc registered_env) = Some ''K''"
    by (simp_all add: d registered_ready(2)) (simp add: registered_contract_def)
  have rest: "c_brokerage_fee (doc registered_env) = 1500" "sent registered_env = []"
    by (simp add: d registered_contract_def)
      (simp add: registered_env_def sent_def sample_env_def idle_sys_def)
  from resumed_submission_requests [OF reg run] obtain base where
    "sent e' = closing_urls base ''K'' 1500" unfolding rest by auto
  with run show ?thesis by (auto simp: closing_urls_def contract_ep_def)
qed

text \<open>
  Property C4. A submission gets through. The conditions: every party and unit of the contract passes
  its validation, the units are registered with Ejar, the signed document is there and the payment
  schedule is not an empty text; the profile (the contract's or the company's) is valid on that day;
  the company has credentials and a closed breaker; the tables of breakers and cached credentials are
  consistent (\<open>sys_ok\<close>: counters within their bounds, cached credentials of a known environment), as
  every run keeps them; and Ejar accepts every
  request: a 2xx whose data is an object with a text as identifier and, if it has attributes, an object
  of attributes. Then the submission returns and the contract is submitted.
\<close>

theorem submission_succeeds:
  assumes "submittable (doc e)" and "profile_ready find_profile e"
    and "credentials_ready src (c_company (doc e)) (net e)"
    and "breaker_closed (c_company (doc e)) (net e)" and "sys_ok (net e)" and "accepting tr"
  shows "\<exists>j e'. execute_full_submission L tr src find_profile cid e = (Inr j, e')
    \<and> c_status (doc e') = Submitted"
  using assms by (rule submission_gets_through)

theorem submission_succeeds_witness:
  "\<exists>j e'. execute_full_submission \<lparr>sha256_hex = b64encode, str_other = \<lambda>_. []\<rparr> accepting_sample
      sample_sources (\<lambda>_. None) ''c'' (sample_env ()) = (Inr j, e') \<and> c_status (doc e') = Submitted"
proof (rule submission_succeeds)
  have company: "c_profile sample_contract = Some sample_profile" "c_company sample_contract = 1"
    by (simp_all add: sample_contract_def)
  have e: "(sample_env ())\<lparr>doc := sample_contract\<rparr> = sample_env ()" "doc (sample_env ()) = sample_contract"
    by (simp_all add: sample_env_def)
  show "submittable (doc (sample_env ()))"
    by (simp add: submittable_def sample_env_def sample_contract_def sample_ready)
  show "profile_ready (\<lambda>_. None) (sample_env ())"
    using sample_conditions(1) [OF company, where w = "()"] by (simp add: e)
  show "credentials_ready sample_sources (c_company (doc (sample_env ()))) (net (sample_env ()))"
    using sample_conditions(2) [OF company, where w = "()"] by (simp add: e)
  show "breaker_closed (c_company (doc (sample_env ()))) (net (sample_env ()))"
    using sample_conditions(3) [OF company, where w = "()"] by simp
  show "sys_ok (net (sample_env ()))"
    using sample_conditions(4) [OF company, where w = "()"] by simp
  show "accepting accepting_sample" by (rule sample_accepting)
qed

end
