(* ===== verification/EjarWebhook.thy ===== *)
theory EjarWebhook
  imports EjarLifecycle
begin

text \<open>
  The webhook of Ejar: validation (\<^verbatim>\<open>services/webhook_validator.py\<close>), processing with
  its five handlers (\<^verbatim>\<open>services/webhook_processor.py\<close>) and the controller
  (\<^verbatim>\<open>controllers/ejar_webhook.py\<close>). Parsing JSON, HMAC-SHA256, the rendering of a float
  and the parent class's \<open>write\<close> of the log are arguments. The state is the database of contracts
  with the environment of the request.
\<close>

section \<open>State and library\<close>


record hooklib =
  py :: pylib
  json_loads :: "nat list \<Rightarrow> json option"
  hmac_sha256_hex :: "nat list \<Rightarrow> nat list \<Rightarrow> string"
  float_repr :: "rat \<Rightarrow> string"
  orm_write :: "(string \<times> json) list \<Rightarrow> log_entry list \<Rightarrow> log_entry list"



section \<open>Validation\<close>

definition TIMESTAMP_WINDOW_SECONDS :: int where "TIMESTAMP_WINDOW_SECONDS = 300"

text \<open>\<open>int(s)\<close>: surrounding space, a sign, digits with single underscores between them.\<close>

fun int_digits :: "string \<Rightarrow> string option" where
  "int_digits [] = None"
| "int_digits [c] = (if is_decimal c then Some [c] else None)"
| "int_digits (c # d # s) =
     (if \<not> is_decimal c then None
      else if d = CHR ''_'' then map_option (Cons c) (int_digits s)
      else map_option (Cons c) (int_digits (d # s)))"

definition py_int :: "string \<Rightarrow> int option" where
  "py_int s = (case strip s of
      [] \<Rightarrow> None
    | c # t \<Rightarrow>
        if c = CHR ''-'' then map_option (\<lambda>ds. - int (read_nat ds)) (int_digits t)
        else if c = CHR ''+'' then map_option (\<lambda>ds. int (read_nat ds)) (int_digits t)
        else map_option (\<lambda>ds. int (read_nat ds)) (int_digits (c # t)))"

definition hook_error :: "ejar_class \<Rightarrow> message \<Rightarrow> exn + 'a" where
  "hook_error c m = Inl (Ejar (mk_exc c m))"

text \<open>\<open>hmac.compare_digest\<close> on strings: both have to be ASCII.\<close>

definition compare_digest :: "string \<Rightarrow> string \<Rightarrow> py_error + bool" where
  "compare_digest a b =
     (if list_all (\<lambda>c. code c < 128) a \<and> list_all (\<lambda>c. code c < 128) b then Inr (a = b) else Inl TypeError)"

definition check_timestamp :: "int \<Rightarrow> char_field \<Rightarrow> exn + int" where
  "check_timestamp now timestamp =
     (if \<not> is_set timestamp
      then hook_error EjarWebhookTimestampMissing (Text ''Missing X-Webhook-Timestamp header'')
      else (case py_int (the timestamp) of
          None \<Rightarrow> hook_error EjarWebhookTimestampMissing (BadTimestamp (the timestamp))
        | Some t \<Rightarrow>
            if \<bar>now - t\<bar> > TIMESTAMP_WINDOW_SECONDS
            then hook_error EjarWebhookReplayAttack (OutsideWindow \<bar>now - t\<bar> TIMESTAMP_WINDOW_SECONDS)
            else Inr t))"

definition parse_body :: "hooklib \<Rightarrow> nat list \<Rightarrow> exn + json" where
  "parse_body L body =
     (if body = [] then hook_error EjarWebhookInvalidJSON (Text ''Empty request body'')
      else (case json_loads L body of
          None \<Rightarrow> hook_error EjarWebhookInvalidJSON (Text ''Failed to parse JSON'')
        | Some j \<Rightarrow> Inr j))"

definition check_signature ::
  "hooklib \<Rightarrow> (string \<Rightarrow> char_field) \<Rightarrow> char_field \<Rightarrow> string \<Rightarrow> nat list \<Rightarrow> exn + unit" where
  "check_signature L get_param signature company body =
     (if \<not> is_set signature
      then hook_error EjarWebhookSignatureMissing (Text ''Missing X-Webhook-Signature header'')
      else
        let secret = get_param (''ejar.webhook.secret.company_'' @ company) in
        if \<not> is_set secret then hook_error EjarWebhookConfigMissing (NoSecretFor company)
        else (case compare_digest (the signature)
                     (hmac_sha256_hex L (utf8_encode (the secret)) body) of
            Inl e \<Rightarrow> Inl (Py e)
          | Inr same \<Rightarrow>
              if \<not> same then hook_error EjarWebhookSignatureInvalid (Text ''Signature mismatch'')
              else Inr ()))"

text \<open>\<open>company_id\<close> is the optional argument of \<open>validate\<close>; the result is the payload with its metadata.\<close>

definition validate ::
  "hooklib \<Rightarrow> (string \<Rightarrow> char_field) \<Rightarrow> int \<Rightarrow> char_field \<Rightarrow> char_field \<Rightarrow> nat list \<Rightarrow> json
   \<Rightarrow> exn + (string \<times> json) list" where
  "validate L get_param now signature timestamp body company_id =
     ebind (check_timestamp now timestamp) (\<lambda>t.
     ebind (parse_body L body) (\<lambda>j.
     ebind (if truthy company_id then Inr company_id
            else (case json_get j ''company_id'' JNull of Inl e \<Rightarrow> Inl (Py e) | Inr v \<Rightarrow> Inr v)) (\<lambda>cid.
     if \<not> truthy cid
     then hook_error EjarWebhookConfigMissing (Text ''Missing company_id in payload'')
     else
       ebind (check_signature L get_param signature (str_json (py L) cid) body) (\<lambda>_.
         case j of
           JObj d \<Rightarrow> Inr (dict_set ''_company_id'' cid
                       (dict_set ''_timestamp'' (JInt t) (dict_set ''_validated_at'' (JInt now) d)))
         | _ \<Rightarrow> Inl (Py TypeError)))))"

section \<open>Redaction\<close>

definition SENSITIVE_FIELDS :: "string set" where
  "SENSITIVE_FIELDS = {''api_key'', ''api_secret'', ''api_secret_key'', ''iban_number'', ''swift_code'',
     ''id_number'', ''national_id'', ''iqama'', ''date_of_birth''}"

definition sensitive :: "string \<Rightarrow> bool" where
  "sensitive k \<longleftrightarrow> k \<in> SENSITIVE_FIELDS \<or> ends_with k ''_key''"

text \<open>\<open>json.dumps\<close> with its defaults: ASCII output, separators with a space.\<close>

definition hex_char :: "nat \<Rightarrow> char" where
  "hex_char n = (if n < 10 then char_of (48 + n) else char_of (87 + n))"

definition escape_char :: "char \<Rightarrow> string" where
  "escape_char c =
     (if c = CHR 0x22 then [CHR 0x5C, CHR 0x22]
      else if c = CHR 0x5C then [CHR 0x5C, CHR 0x5C]
      else if c = CHR 0x0A then [CHR 0x5C, CHR ''n'']
      else if c = CHR 0x0D then [CHR 0x5C, CHR ''r'']
      else if c = CHR 0x09 then [CHR 0x5C, CHR ''t'']
      else if c = CHR 0x08 then [CHR 0x5C, CHR ''b'']
      else if c = CHR 0x0C then [CHR 0x5C, CHR ''f'']
      else if 32 \<le> code c \<and> code c < 127 then [c]
      else [CHR 0x5C, CHR ''u'', CHR ''0'', CHR ''0'', hex_char (code c div 16), hex_char (code c mod 16)])"

definition dumps_str :: "string \<Rightarrow> string" where
  "dumps_str s = CHR 0x22 # concat (map escape_char s) @ [CHR 0x22]"

fun dumps :: "hooklib \<Rightarrow> json \<Rightarrow> string" and
    dumps_elems :: "hooklib \<Rightarrow> json list \<Rightarrow> string list" and
    dumps_items :: "hooklib \<Rightarrow> (string \<times> json) list \<Rightarrow> string list" where
  "dumps L JNull = ''null''"
| "dumps L (JBool b) = (if b then ''true'' else ''false'')"
| "dumps L (JInt n) = str_int n"
| "dumps L (JNum r) = float_repr L r"
| "dumps L (JStr s) = dumps_str s"
| "dumps L (JList xs) = ''['' @ join_with '', '' (dumps_elems L xs) @ '']''"
| "dumps L (JObj d) = ''{'' @ join_with '', '' (dumps_items L d) @ ''}''"
| "dumps_elems L [] = []"
| "dumps_elems L (x # xs) = dumps L x # dumps_elems L xs"
| "dumps_items L [] = []"
| "dumps_items L ((k, v) # d) = (dumps_str k @ '': '' @ dumps L v) # dumps_items L d"

definition LOG_LIMIT :: nat where "LOG_LIMIT = 65536"

text \<open>A nested dictionary becomes the string its own sanitizing gives; a list is looked into one level.\<close>

fun sanitize_value :: "hooklib \<Rightarrow> json \<Rightarrow> json" and
    sanitize_elems :: "hooklib \<Rightarrow> json list \<Rightarrow> json list" and
    sanitize_items :: "hooklib \<Rightarrow> (string \<times> json) list \<Rightarrow> (string \<times> json) list" where
  "sanitize_value L (JObj d) = JStr (take LOG_LIMIT (dumps L (JObj (sanitize_items L d))))"
| "sanitize_value L (JList xs) = JList (sanitize_elems L xs)"
| "sanitize_value L JNull = JNull"
| "sanitize_value L (JBool b) = JBool b"
| "sanitize_value L (JInt n) = JInt n"
| "sanitize_value L (JNum r) = JNum r"
| "sanitize_value L (JStr s) = JStr s"
| "sanitize_elems L [] = []"
| "sanitize_elems L (x # xs) =
     (case x of JObj d \<Rightarrow> JStr (take LOG_LIMIT (dumps L (JObj (sanitize_items L d)))) | _ \<Rightarrow> x)
     # sanitize_elems L xs"
| "sanitize_items L [] = []"
| "sanitize_items L ((k, v) # d) =
     (k, if sensitive k then JStr ''***REDACTED***'' else sanitize_value L v) # sanitize_items L d"

definition sanitize_json :: "hooklib \<Rightarrow> (string \<times> json) list \<Rightarrow> string" where
  "sanitize_json L data = take LOG_LIMIT (dumps L (JObj (sanitize_items L data)))"


section \<open>Processing\<close>

definition EVENTS :: "string list" where
  "EVENTS = [''contract.approved'', ''contract.rejected'', ''acknowledgement.completed'',
     ''document.verification'', ''status.update'']"

text \<open>\<open>field == value\<close> for a character field, which reads \<open>False\<close> when unset, and a JSON value.\<close>

definition field_equals :: "char_field \<Rightarrow> json \<Rightarrow> bool" where
  "field_equals f j = (case f of
      Some s \<Rightarrow> j = JStr s
    | None \<Rightarrow> (case j of JBool b \<Rightarrow> \<not> b | JInt n \<Rightarrow> n = 0 | JNum r \<Rightarrow> r = 0 | _ \<Rightarrow> False))"

definition handle_contract_approved :: "pylib \<Rightarrow> (string \<times> json) list \<Rightarrow> ('w env, exn, unit) opn" where
  "handle_contract_approved L data =
     (let number = dict_get data ''ejar_contract_number'' JNull in
      andthen (write_doc (\<lambda>c. c\<lparr>c_ejar_number := orm_char L number\<rparr>))
      (andthen (set_status Approved)
        (message_post (if truthy number then Server number else Text ''approved by Ejar''))))"

definition handle_contract_rejected :: "pylib \<Rightarrow> (string \<times> json) list \<Rightarrow> ('w env, exn, unit) opn" where
  "handle_contract_rejected L data =
     (let reason = dict_get data ''reason'' (JStr []) in
      andthen (write_doc (\<lambda>c. c\<lparr>c_rejection_reason := orm_char L reason\<rparr>))
      (andthen (set_status Rejected)
        (message_post (if truthy reason then Server reason else Text ''rejected by Ejar''))))"

definition mark_synced :: "json \<Rightarrow> contract \<Rightarrow> contract" where
  "mark_synced party_id c = c\<lparr>c_parties := map
     (\<lambda>p. if field_equals (p_party_id p) party_id then p\<lparr>p_sync_state := ''synced''\<rparr> else p) (c_parties c)\<rparr>"

definition handle_acknowledgement_completed :: "(string \<times> json) list \<Rightarrow> ('w env, exn, unit) opn" where
  "handle_acknowledgement_completed data =
     bind (py_op (json_iter (dict_get data ''parties'' (JList [])))) (\<lambda>parties.
     andthen (for_each (\<lambda>party.
         bind (py_op (json_get party ''ejar_party_id'' JNull)) (\<lambda>party_id.
           write_doc (mark_synced party_id))) parties)
       (message_post (Text ''parties acknowledged'')))"

definition handle_document_verification :: "(string \<times> json) list \<Rightarrow> ('w env, exn, unit) opn" where
  "handle_document_verification data =
     message_post (if truthy (dict_get data ''verified'' (JBool False))
       then Text ''document verified'' else Text ''document refused'')"

definition handle_status_update :: "(string \<times> json) list \<Rightarrow> ('w env, exn, unit) opn" where
  "handle_status_update data =
     (let new_status = dict_get data ''ejar_status'' JNull in
      message_post (if truthy new_status then Server new_status else Text ''status update''))"

text \<open>The table of handlers; looking up a list or a dictionary in it is a \<open>TypeError\<close>.\<close>

definition route_event :: "pylib \<Rightarrow> (string \<times> json) list \<Rightarrow> ('w env, exn, unit) opn" where
  "route_event L data =
     (let ev = dict_get data ''event_type'' JNull;
          unknown = raise (Ejar (mk_exc EjarWebhookUnknownEventType (UnknownEvent ev))) in
      case ev of
        JStr s \<Rightarrow>
          if s = ''contract.approved'' then handle_contract_approved L data
          else if s = ''contract.rejected'' then handle_contract_rejected L data
          else if s = ''acknowledgement.completed'' then handle_acknowledgement_completed data
          else if s = ''document.verification'' then handle_document_verification data
          else if s = ''status.update'' then handle_status_update data
          else unknown
      | JList _ \<Rightarrow> raise (Py TypeError)
      | JObj _ \<Rightarrow> raise (Py TypeError)
      | _ \<Rightarrow> unknown)"









section \<open>The controller\<close>






section \<open>Integers as text\<close>

lemma int_digits_decimal: "ds \<noteq> [] \<Longrightarrow> list_all is_decimal ds \<Longrightarrow> int_digits ds = Some ds"
proof (induction ds rule: int_digits.induct)
  case (3 c d s)
  moreover have "d \<noteq> CHR ''_''" using 3(4) by (auto simp: is_decimal_def)
  ultimately show ?case by simp
qed auto

lemma decimal_no_space: "is_decimal c \<Longrightarrow> \<not> is_space_char c"
  by (auto simp: is_decimal_def is_space_char_def)

lemma strip_no_space: "s \<noteq> [] \<Longrightarrow> \<not> is_space_char (hd s) \<Longrightarrow> \<not> is_space_char (last s) \<Longrightarrow> strip s = s"
  using dropWhile_eq_self_iff [of is_space_char s] dropWhile_eq_self_iff [of is_space_char "rev s"]
  by (simp add: strip_def hd_rev)

lemma str_nat_hd_last: "is_decimal (hd (str_nat n))" "is_decimal (last (str_nat n))"
  using str_nat_decimal [of n] str_nat_nonempty [of n] by (auto simp: list_all_iff)

lemma str_int_nonempty [simp]: "str_int n \<noteq> []"
  by (simp add: str_int_def str_nat_nonempty)

lemma strip_str_int: "strip (str_int n) = str_int n"
proof (rule strip_no_space)
  show "str_int n \<noteq> []" by simp
  show "\<not> is_space_char (hd (str_int n))"
    using decimal_no_space [OF str_nat_hd_last(1)] by (simp add: str_int_def is_space_char_def)
  show "\<not> is_space_char (last (str_int n))"
    using str_nat_hd_last(2) by (simp add: str_int_def decimal_no_space str_nat_nonempty)
qed

text \<open>A time stamp written as \<open>str(n)\<close> is read back.\<close>

lemma py_int_str_int [simp]: "py_int (str_int n) = Some n"
proof (cases "n < 0")
  case True
  then show ?thesis
    unfolding py_int_def strip_str_int
    by (simp add: str_int_def int_digits_decimal str_nat_decimal str_nat_nonempty)
next
  case False
  obtain c t where ct: "str_nat (nat n) = c # t" using str_nat_nonempty [of "nat n"] by (cases "str_nat (nat n)") auto
  have "is_decimal c" using str_nat_hd_last(1) [of "nat n"] ct by simp
  then have "c \<noteq> CHR ''-''" "c \<noteq> CHR ''+''" by (auto simp: is_decimal_def)
  moreover have "int_digits (c # t) = Some (c # t)"
    using int_digits_decimal [OF str_nat_nonempty str_nat_decimal, of "nat n"] ct by simp
  moreover have "read_nat (c # t) = nat n" using read_str_nat [of "nat n"] ct by simp
  ultimately show ?thesis
    using False unfolding py_int_def strip_str_int by (simp add: str_int_def ct)
qed

section \<open>What validation accepts\<close>

lemmas validation_defs = check_timestamp_def parse_body_def check_signature_def hook_error_def
  compare_digest_def

lemma timestamp_accepted:
  "check_timestamp now ts = Inr t \<longleftrightarrow> is_set ts \<and> py_int (the ts) = Some t \<and> \<bar>now - t\<bar> \<le> 300"
  by (auto simp: check_timestamp_def hook_error_def TIMESTAMP_WINDOW_SECONDS_def split: option.split)

lemma current_timestamp: "check_timestamp now (Some (str_int now)) = Inr now"
  by (simp add: timestamp_accepted is_set_def)

definition secret_of :: "(string \<Rightarrow> char_field) \<Rightarrow> string \<Rightarrow> char_field" where
  "secret_of get_param company = get_param (''ejar.webhook.secret.company_'' @ company)"

lemma signature_accepted:
  assumes "check_signature L gp sig company body = Inr u"
  shows "is_set (secret_of gp company)
    \<and> sig = Some (hmac_sha256_hex L (utf8_encode (the (secret_of gp company))) body)"
  using assms
  by (cases sig) (auto simp: validation_defs secret_of_def Let_def is_set_def split: if_splits)

text \<open>An accepted request in terms of its parts.\<close>

lemma validate_accepted:
  assumes "validate L gp now sig ts body JNull = Inr d"
  obtains t d0 cid u where "check_timestamp now ts = Inr t" and "parse_body L body = Inr (JObj d0)"
    and "dict_get d0 ''company_id'' JNull = cid" and "truthy cid"
    and "check_signature L gp sig (str_json (py L) cid) body = Inr u"
    and "d = dict_set ''_company_id'' cid
      (dict_set ''_timestamp'' (JInt t) (dict_set ''_validated_at'' (JInt now) d0))"
proof -
  obtain t where t: "check_timestamp now ts = Inr t"
    using assms by (auto simp: validate_def ebind_eq_Inr)
  obtain j where j: "parse_body L body = Inr j"
    using assms t by (auto simp: validate_def ebind_eq_Inr)
  then obtain d0 where d0: "j = JObj d0"
    using assms t by (cases j) (auto simp: validate_def json_get_def)
  show ?thesis
    using assms t j d0 that [of t d0]
    by (auto simp: validate_def json_get_def hook_error_def ebind_eq_Inr split: if_splits)
qed

text \<open>
  Property C12. What an accepted webhook proves, and what it does not. The signature is the HMAC of
  the body under the secret of the company the payload is taken for. The time stamp is not part of
  what is signed: the same body with the same signature is accepted again at any later time, with
  that time in the header, and gives the same payload up to the two time fields.
\<close>

theorem webhook_authentic_not_fresh:
  assumes "validate L gp now sig ts body JNull = Inr d"
  shows "is_set (secret_of gp (str_json (py L) (dict_get d ''_company_id'' JNull)))
    \<and> sig = Some (hmac_sha256_hex L (utf8_encode
        (the (secret_of gp (str_json (py L) (dict_get d ''_company_id'' JNull))))) body)
    \<and> (\<exists>t. py_int (the ts) = Some t \<and> \<bar>now - t\<bar> \<le> TIMESTAMP_WINDOW_SECONDS)
    \<and> (\<exists>d'. validate L gp later sig (Some (str_int later)) body JNull = Inr d'
        \<and> map_of d' = (map_of d)(''_validated_at'' \<mapsto> JInt later, ''_timestamp'' \<mapsto> JInt later))"
proof -
  obtain t d0 cid u where v: "check_timestamp now ts = Inr t" "parse_body L body = Inr (JObj d0)"
    "dict_get d0 ''company_id'' JNull = cid" "truthy cid"
    "check_signature L gp sig (str_json (py L) cid) body = Inr u"
    "d = dict_set ''_company_id'' cid
      (dict_set ''_timestamp'' (JInt t) (dict_set ''_validated_at'' (JInt now) d0))"
    using assms by (rule validate_accepted)
  have "validate L gp later sig (Some (str_int later)) body JNull = Inr (dict_set ''_company_id'' cid
      (dict_set ''_timestamp'' (JInt later) (dict_set ''_validated_at'' (JInt later) d0)))"
    using v by (simp add: validate_def current_timestamp json_get_def)
  then show ?thesis
    using v(6) signature_accepted [OF v(5)] v(1)
    by (auto simp: timestamp_accepted TIMESTAMP_WINDOW_SECONDS_def fun_upd_twist)
qed

definition sample_hooklib :: hooklib where
  "sample_hooklib = \<lparr>py = \<lparr>sha256_hex = (\<lambda>_. ''00''), str_other = (\<lambda>j. case j of JInt n \<Rightarrow> str_int n | _ \<Rightarrow> [])\<rparr>,
     json_loads = (\<lambda>_. Some (JObj [(''company_id'', JInt 7)])),
     hmac_sha256_hex = (\<lambda>k b. ''ab''), float_repr = (\<lambda>_. ''0.0''), orm_write = (\<lambda>_ ls. ls)\<rparr>"

lemma sample_webhook_accepted:
  "validate sample_hooklib (\<lambda>_. Some ''s'') 1000 (Some ''ab'') (Some ''900'') [1] JNull
     = Inr [(''company_id'', JInt 7), (''_validated_at'', JInt 1000), (''_timestamp'', JInt 900),
         (''_company_id'', JInt 7)]"
  by code_simp

theorem webhook_authentic_not_fresh_witness:
  "\<exists>d'. validate sample_hooklib (\<lambda>_. Some ''s'') 5000000 (Some ''ab'') (Some (str_int 5000000)) [1] JNull
     = Inr d'"
  using webhook_authentic_not_fresh [OF sample_webhook_accepted, of 5000000] by blast


section \<open>What an event changes\<close>

text \<open>
  \<open>hook_writes data c c'\<close>: apart from status, number and reason, an event only moves parties
  to the synchronised state.
\<close>

definition party_synced :: "party \<Rightarrow> party \<Rightarrow> bool" where
  "party_synced p q \<longleftrightarrow> q = p \<or> q = p\<lparr>p_sync_state := ''synced''\<rparr>"

lemma party_synced_trans: "party_synced p q \<Longrightarrow> party_synced q r \<Longrightarrow> party_synced p r"
  by (auto simp: party_synced_def)

definition synced_only :: "contract \<Rightarrow> 'w env \<Rightarrow> 'w env \<Rightarrow> bool" where
  "synced_only c e0 e \<longleftrightarrow> net e = net e0 \<and> logs e = logs e0
     \<and> (\<exists>ps. doc e = c\<lparr>c_parties := ps\<rparr> \<and> list_all2 party_synced (c_parties c) ps)"

lemma synced_refl: "list_all2 party_synced ps ps"
  by (simp add: list_all2_conv_all_nth party_synced_def)

lemma mark_synced_parties:
  "list_all2 party_synced ps (map (\<lambda>p. if field_equals (p_party_id p) j
     then p\<lparr>p_sync_state := ''synced''\<rparr> else p) ps)"
  by (simp add: list_all2_conv_all_nth party_synced_def)

lemma keeps_mark_synced: "keeps (synced_only c e0) (write_doc (mark_synced j))"
proof (rule keeps_write_doc)
  fix e assume "synced_only c e0 e"
  then obtain ps where ps: "net e = net e0" "logs e = logs e0" "doc e = c\<lparr>c_parties := ps\<rparr>"
    "list_all2 party_synced (c_parties c) ps"
    by (auto simp: synced_only_def)
  have "list_all2 party_synced (c_parties c) (map (\<lambda>p. if field_equals (p_party_id p) j
      then p\<lparr>p_sync_state := ''synced''\<rparr> else p) ps)"
    using party_synced_trans ps(4) mark_synced_parties by (rule list_all2_trans)
  then show "synced_only c e0 (e\<lparr>doc := mark_synced j (doc e)\<rparr>)"
    using ps by (auto simp: synced_only_def mark_synced_def)
qed

lemma keeps_synced_message: "keeps (synced_only c e0) (message_post m)"
  by (simp add: keeps_def message_post_run synced_only_def)

lemma hook_keeps_py_op [keeps_intro]: "keeps P (py_op r)"
  by (simp add: py_op_def keeps_def op_simps)

lemma keeps_acknowledgement: "keeps (synced_only c e0) (handle_acknowledgement_completed data)"
  unfolding handle_acknowledgement_completed_def
  by (intro keeps_intro keeps_mark_synced keeps_synced_message)

lemma synced_start: "synced_only (doc e) e e"
proof -
  have "doc e = (doc e)\<lparr>c_parties := c_parties (doc e)\<rparr>" by simp
  then show ?thesis unfolding synced_only_def using synced_refl by blast
qed

lemma acknowledgement_effect: "synced_only (doc e) e (snd (handle_acknowledgement_completed data e))"
  using keeps_acknowledgement synced_start unfolding keeps_def by blast

definition event_status :: "json \<Rightarrow> ejar_status \<Rightarrow> ejar_status" where
  "event_status ev st = (if ev = JStr ''contract.approved'' then Approved
     else if ev = JStr ''contract.rejected'' then Rejected else st)"

definition known_event :: "json \<Rightarrow> bool" where
  "known_event ev \<longleftrightarrow> ev \<in> JStr ` set EVENTS"

lemma approved_run:
  "handle_contract_approved L data e = (Inr (), e\<lparr>doc := (doc e)\<lparr>c_ejar_number :=
       orm_char L (dict_get data ''ejar_contract_number'' JNull), c_status := Approved\<rparr>,
     chatter := chatter e @ [if truthy (dict_get data ''ejar_contract_number'' JNull)
       then Server (dict_get data ''ejar_contract_number'' JNull) else Text ''approved by Ejar'']\<rparr>)"
  by (simp add: handle_contract_approved_def Let_def op_simps)

lemma rejected_run:
  "handle_contract_rejected L data e = (Inr (), e\<lparr>doc := (doc e)\<lparr>c_rejection_reason :=
       orm_char L (dict_get data ''reason'' (JStr [])), c_status := Rejected\<rparr>,
     chatter := chatter e @ [if truthy (dict_get data ''reason'' (JStr []))
       then Server (dict_get data ''reason'' (JStr [])) else Text ''rejected by Ejar'']\<rparr>)"
  by (simp add: handle_contract_rejected_def Let_def op_simps)

lemma message_handlers_run:
  "\<exists>m. handle_document_verification data e = (Inr (), e\<lparr>chatter := chatter e @ [m]\<rparr>)"
  "\<exists>m. handle_status_update data e = (Inr (), e\<lparr>chatter := chatter e @ [m]\<rparr>)"
  by (auto simp: handle_document_verification_def handle_status_update_def Let_def message_post_run)

lemma unknown_event_run:
  assumes "\<not> known_event (dict_get data ''event_type'' JNull)"
  shows "\<exists>x. route_event L data e = (Inl x, e)"
  using assms
  by (cases "dict_get data ''event_type'' JNull")
    (auto simp: route_event_def Let_def known_event_def EVENTS_def op_simps)

text \<open>
  What the handlers would do to a contract, were a webhook ever routed to them (the properties below
  show that none is). Only \<open>contract.approved\<close> and
  \<open>contract.rejected\<close> change the status, and they do so from every status, expired and cancelled
  included; every other event, the unknown ones too, leaves it. Beyond status, number and reason
  an event only marks parties as synchronised, and it makes no request and writes no log.
\<close>

theorem webhook_event_effects:
  "case route_event L data e of (r, e') \<Rightarrow>
     (let ev = dict_get data ''event_type'' JNull in
      net e' = net e \<and> logs e' = logs e
      \<and> list_all2 party_synced (c_parties (doc e)) (c_parties (doc e'))
      \<and> doc e' = (doc e)\<lparr>c_parties := c_parties (doc e'), c_ejar_number := c_ejar_number (doc e'),
          c_rejection_reason := c_rejection_reason (doc e'),
          c_status := event_status ev (c_status (doc e))\<rparr>
      \<and> (if known_event ev \<and> ev \<noteq> JStr ''acknowledgement.completed'' then r = Inr () else True))"
proof -
  let ?ev = "dict_get data ''event_type'' JNull"
  consider "?ev = JStr ''contract.approved''" | "?ev = JStr ''contract.rejected''"
    | "?ev = JStr ''acknowledgement.completed''" | "?ev = JStr ''document.verification''"
    | "?ev = JStr ''status.update''" | "\<not> known_event ?ev"
    by (auto simp: known_event_def EVENTS_def)
  then show ?thesis
  proof cases
    case 1
    then show ?thesis
      by (auto simp: route_event_def approved_run event_status_def synced_refl)
  next
    case 2
    then show ?thesis
      by (auto simp: route_event_def rejected_run event_status_def synced_refl)
  next
    case 3
    then show ?thesis
      using acknowledgement_effect [of e data]
      by (auto simp: route_event_def synced_only_def event_status_def split: prod.split)
  next
    case 4
    then show ?thesis
      using message_handlers_run(1) [of data e]
      by (auto simp: route_event_def event_status_def synced_refl)
  next
    case 5
    then show ?thesis
      using message_handlers_run(2) [of data e]
      by (auto simp: route_event_def event_status_def synced_refl)
  next
    case 6
    then have "event_status ?ev (c_status (doc e)) = c_status (doc e)"
      by (auto simp: event_status_def known_event_def EVENTS_def)
    then show ?thesis
      using unknown_event_run [OF 6, of L e] 6
      by (auto simp: synced_refl)
  qed
qed

section \<open>What the handler does\<close>





section \<open>What the log sees of a payload\<close>

text \<open>
  \<open>same_public d d'\<close>: the two payloads differ at most in values of sensitive keys, of the payload
  itself, of dictionaries nested in it, and of dictionaries that are elements of its lists.
\<close>

fun same_value :: "json \<Rightarrow> json \<Rightarrow> bool" and
    same_elems :: "json list \<Rightarrow> json list \<Rightarrow> bool" and
    same_public :: "(string \<times> json) list \<Rightarrow> (string \<times> json) list \<Rightarrow> bool" where
  "same_value (JObj d) w = (case w of JObj d' \<Rightarrow> same_public d d' | _ \<Rightarrow> False)"
| "same_value (JList xs) w = (case w of JList ys \<Rightarrow> same_elems xs ys | _ \<Rightarrow> False)"
| "same_value JNull w = (w = JNull)"
| "same_value (JBool b) w = (w = JBool b)"
| "same_value (JInt n) w = (w = JInt n)"
| "same_value (JNum r) w = (w = JNum r)"
| "same_value (JStr s) w = (w = JStr s)"
| "same_elems [] ys = (ys = [])"
| "same_elems (x # xs) ys = (case ys of [] \<Rightarrow> False | y # ys' \<Rightarrow>
     (case x of JObj d \<Rightarrow> (case y of JObj d' \<Rightarrow> same_public d d' | _ \<Rightarrow> False) | _ \<Rightarrow> x = y)
     \<and> same_elems xs ys')"
| "same_public [] e = (e = [])"
| "same_public ((k, v) # d) e = (case e of [] \<Rightarrow> False | (k', v') # d' \<Rightarrow>
     k = k' \<and> (sensitive k \<or> same_value v v') \<and> same_public d d')"

lemma sanitize_same:
  "same_value v w \<Longrightarrow> sanitize_value L v = sanitize_value L w"
  "same_elems xs ys \<Longrightarrow> sanitize_elems L xs = sanitize_elems L ys"
  "same_public d e \<Longrightarrow> sanitize_items L d = sanitize_items L e"
proof (induction v w and xs ys and d e rule: same_value_same_elems_same_public.induct)
  case (9 x xs ys)
  then show ?case by (cases ys) (auto split: json.splits)
next
  case (11 k v d e)
  then show ?case by (cases e) auto
qed (auto split: json.splits)

text \<open>
  The request log hides the sensitive fields: two payloads that differ only in the values
  of sensitive keys (at any depth of dictionaries, and in dictionaries that are list elements)
  leave the same text in the log. One level of lists is all it looks into: a dictionary in a list
  of lists is logged as it is.
\<close>

theorem log_hides_sensitive:
  assumes "same_public d e"
  shows "sanitize_json L d = sanitize_json L e
    \<and> sanitize_value L (JList [JList [JObj f]]) = JList [JList [JObj f]]"
  using sanitize_same(3) [OF assms] by (simp add: sanitize_json_def)

theorem log_hides_sensitive_witness:
  "sanitize_json sample_hooklib [(''event_type'', JStr ''status.update''),
      (''party'', JObj [(''national_id'', JStr ''1000000001''), (''webhook_key'', JInt 1)])]
   = sanitize_json sample_hooklib [(''event_type'', JStr ''status.update''),
      (''party'', JObj [(''national_id'', JStr ''1999999999''), (''webhook_key'', JNull)])]"
  by (rule log_hides_sensitive [THEN conjunct1]) (simp add: sensitive_def SENSITIVE_FIELDS_def ends_with_def)

end
