(* ===== verification/EjarJobs.thy ===== *)
theory EjarJobs
  imports EjarLifecycle
begin

text \<open>
  The asynchronous layer \<^verbatim>\<open>models/ejar_contract_jobs.py\<close> and the submission wizard
  \<^verbatim>\<open>wizard/ejar_submit_wizard.py\<close>, with what they rely on of the vendored job queue:
  \<^verbatim>\<open>queue_job/job.py\<close> (retry counter, postponing) and
  \<^verbatim>\<open>queue_job/controllers/main.py\<close> (one run of a job, with its commits and rollbacks).
  Whether the module found the queue when it was loaded (\<open>available\<close>) and whether the model
  \<^verbatim>\<open>queue.job\<close> exists (\<open>installed\<close>) are arguments. The queue that comes with the
  repository is installed but not available: its module \<^verbatim>\<open>job\<close> has no name \<open>job\<close>. The
  module then defines exception classes of its own (\<open>OwnError\<close>), which the queue does not know, and a
  decorator that drops the retry pattern. An error field holds the value whose
  text the code stores.
\<close>

section \<open>Jobs and the queue\<close>

datatype job_state = WaitDependencies | Pending | Enqueued | Started | Done | JobFailed | JobCancelled

record qjob =
  qj_uuid :: string
  qj_state :: job_state
  qj_retry :: nat
  qj_max :: nat
  qj_identity :: string
  qj_channel :: string
  qj_eta :: "datetime option"
  qj_exc_info :: string
  qj_date_done :: "datetime option"

record 'w jsite =
  job_env :: "'w env"
  queue :: "qjob list"

datatype job_exn = JobError job_error | Raised exn | OwnError message

definition CHANNEL_CONTRACTS :: string where "CHANNEL_CONTRACTS = ''root.ejar.contracts''"
definition CHANNEL_POLLING :: string where "CHANNEL_POLLING = ''root.ejar.polling''"
definition RETRY_INTERVAL :: int where "RETRY_INTERVAL = 600"

definition raised :: "('s, exn, 'a) opn \<Rightarrow> ('s, job_exn, 'a) opn" where
  "raised m s = (case m s of (Inl x, t) \<Rightarrow> (Inl (Raised x), t) | (Inr y, t) \<Rightarrow> (Inr y, t))"

definition in_env :: "('w env, 'e, 'a) opn \<Rightarrow> ('w jsite, 'e, 'a) opn" where
  "in_env m s = (case m (job_env s) of (r, e) \<Rightarrow> (r, s\<lparr>job_env := e\<rparr>))"

text \<open>The text an exception is reported with.\<close>

definition exn_text :: "exn \<Rightarrow> message" where
  "exn_text x = (case x of Ejar e \<Rightarrow> exc_message e | UserError m \<Rightarrow> m | OrmValidation m \<Rightarrow> m
     | Py _ \<Rightarrow> Text ''python error'' | TransportError \<Rightarrow> Text ''transport error'')"

text \<open>\<open>with_delay(...).method()\<close>: a live job with the same identity is returned instead of a new one.\<close>

definition live_states :: "job_state list" where
  "live_states = [WaitDependencies, Pending, Enqueued]"

definition enqueue_job :: "string \<Rightarrow> nat \<Rightarrow> string \<Rightarrow> string \<Rightarrow> ('w jsite, exn, string) opn" where
  "enqueue_job uuid max_retries identity channel s =
     (case List.find (\<lambda>q. qj_identity q = identity \<and> qj_state q \<in> set live_states) (queue s) of
        Some q \<Rightarrow> (Inr (qj_uuid q), s)
      | None \<Rightarrow> (Inr uuid, s\<lparr>queue := queue s @
          [\<lparr>qj_uuid = uuid, qj_state = Pending, qj_retry = 0, qj_max = max_retries,
            qj_identity = identity, qj_channel = channel, qj_eta = None, qj_exc_info = [],
            qj_date_done = None\<rparr>]\<rparr>))"

definition find_job :: "qjob list \<Rightarrow> char_field \<Rightarrow> qjob option" where
  "find_job qs uuid = (if \<not> is_set uuid then None else List.find (\<lambda>q. qj_uuid q = the uuid) qs)"

definition has_active_job :: "bool \<Rightarrow> qjob list \<Rightarrow> contract \<Rightarrow> bool" where
  "has_active_job installed qs c =
     (if \<not> is_set (c_job_uuid c) \<or> \<not> installed then False
      else (case find_job qs (c_job_uuid c) of
          None \<Rightarrow> False
        | Some q \<Rightarrow> qj_state q \<in> {Pending, Enqueued, Started}))"

section \<open>Dead letters\<close>

definition mark_dead_letter :: "exn \<Rightarrow> ('w env, exn, unit) opn" where
  "mark_dead_letter reason =
     andthen (write_doc (\<lambda>c. c\<lparr>c_submit_error := Some reason, c_job_last_error := Some reason,
                c_job_uuid := None, c_job_channel := None\<rparr>))
     (andthen (set_status Ready)
     (andthen (message_post (exn_text reason))
        (message_post (Text ''review activity''))))"

text \<open>
  \<open>RetryableJobError\<close> and \<open>FailedJobError\<close> as the module knows them: the classes of the queue, or
  its own stand-ins. The classifier of \<^verbatim>\<open>services/job_policies.py\<close> imports the queue's
  classes itself.
\<close>

definition retryable_error :: "bool \<Rightarrow> message \<Rightarrow> job_exn" where
  "retryable_error available m = (if available then JobError (RetryableJobError m None False) else OwnError m)"

definition failed_error :: "bool \<Rightarrow> message \<Rightarrow> job_exn" where
  "failed_error available m = (if available then JobError (FailedJobError m) else OwnError m)"

definition handle_submission_exc :: "bool \<Rightarrow> ejar_exc \<Rightarrow> ('w env, job_exn, unit) opn" where
  "handle_submission_exc available e =
     andthen (raised (write_doc (\<lambda>c. c\<lparr>c_job_last_error := Some (Ejar e)\<rparr>)))
       (if exn_is_permanent (Ejar e)
        then andthen (raised (mark_dead_letter (Ejar e))) (raise (failed_error available (exc_message e)))
        else raise (JobError (classify_ejar_exception e)))"

section \<open>The jobs\<close>

definition job_execute_full_submission ::
  "bool \<Rightarrow> pylib \<Rightarrow> 'w transport \<Rightarrow> cred_sources \<Rightarrow> (int \<Rightarrow> profile option) \<Rightarrow> string
   \<Rightarrow> ('w env, job_exn, unit) opn" where
  "job_execute_full_submission available L tr src find_profile cid e =
     (if c_status (doc e) \<in> {Submitted, Approved} then ret ()
     else
       catch (andthen (execute_full_submission L tr src find_profile cid)
               (write_doc (\<lambda>c. c\<lparr>c_job_last_error := None\<rparr>)))
         (\<lambda>x. case x of
            Ejar e \<Rightarrow> handle_submission_exc available e
          | _ \<Rightarrow> raise (retryable_error available (exn_text x)))) e"

definition api_error_policy :: "bool \<Rightarrow> exn \<Rightarrow> job_exn" where
  "api_error_policy available x = (case x of
      Ejar e \<Rightarrow> JobError (classify_ejar_exception e)
    | _ \<Rightarrow> retryable_error available (exn_text x))"

definition job_poll_ejar_status ::
  "bool \<Rightarrow> pylib \<Rightarrow> 'w transport \<Rightarrow> cred_sources \<Rightarrow> string \<Rightarrow> ('w env, job_exn, unit) opn" where
  "job_poll_ejar_status available L tr src cid e =
     (if c_status (doc e) \<notin> set POLLABLE_STATES then ret ()
     else if \<not> is_set (c_ejar_id (doc e)) then ret ()
     else
       catch (andthen (poll_ejar_status L tr src cid)
               (\<lambda>e. write_doc (\<lambda>c. c\<lparr>c_next_poll := Some (utc_now e + 30 * 60)\<rparr>) e))
         (\<lambda>x. raise (api_error_policy available x))) e"

section \<open>Submission\<close>

definition action_submit_async :: "bool \<Rightarrow> bool \<Rightarrow> string \<Rightarrow> ('w jsite, exn, unit) opn" where
  "action_submit_async available installed uuid =
     andthen (in_env validate_ready_state)
     (\<lambda>s. (if \<not> available then raise (UserError (Text ''queue_job is not installed''))
       else if has_active_job installed (queue s) (doc (job_env s))
       then raise (UserError (Text ''a submission job is already active''))
       else
         andthen (in_env (andthen
           (\<lambda>e. write_doc (\<lambda>c. c\<lparr>c_submit_error := None, c_job_last_error := None,
              c_submit_attempt := c_submit_attempt c + 1, c_job_enqueued_at := Some (utc_now e),
              c_job_channel := Some CHANNEL_CONTRACTS\<rparr>) e)
           (andthen (set_status Submitting) commit)))
         (bind (enqueue_job uuid MAX_SUBMISSION_RETRIES
                 (submission_identity_key (c_id (doc (job_env s)))) CHANNEL_CONTRACTS) (\<lambda>u.
           andthen (if u \<noteq> [] then in_env (write_doc (\<lambda>c. c\<lparr>c_job_uuid := Some u\<rparr>)) else ret ())
             (in_env (message_post (Text ''submission job enqueued'')))))) s)"

definition set_job_state :: "string \<Rightarrow> job_state \<Rightarrow> qjob list \<Rightarrow> qjob list" where
  "set_job_state uuid st qs = map (\<lambda>q. if qj_uuid q = uuid then q\<lparr>qj_state := st\<rparr> else q) qs"

definition action_cancel_pending_job :: "bool \<Rightarrow> ('w jsite, exn, unit) opn" where
  "action_cancel_pending_job installed s =
     (let uuid = c_job_uuid (doc (job_env s)) in
      if \<not> is_set uuid then raise (UserError (Text ''no active job''))
      else if \<not> installed then raise (UserError (Text ''queue_job is not installed''))
      else (case List.find (\<lambda>q. qj_uuid q = the uuid \<and> qj_state q \<in> {Pending, Enqueued}) (queue s) of
          None \<Rightarrow> raise (UserError (Text ''the job is not waiting''))
        | Some q \<Rightarrow>
            andthen (modify (\<lambda>s. s\<lparr>queue := set_job_state (the uuid) JobCancelled (queue s)\<rparr>))
            (in_env (andthen
               (write_doc (\<lambda>c. c\<lparr>c_job_uuid := None, c_job_channel := None\<rparr>))
               (andthen (set_status Ready) (message_post (Text ''job cancelled''))))))) s"

definition job_upload_signed_document ::
  "pylib \<Rightarrow> 'w transport \<Rightarrow> cred_sources \<Rightarrow> string \<Rightarrow> bool \<Rightarrow> bool \<Rightarrow> string \<Rightarrow> string \<Rightarrow> string \<Rightarrow> bool
   \<Rightarrow> ('w jsite, job_exn, unit) opn" where
  "job_upload_signed_document L tr src cid available installed uuid doc_b64 filename trigger s =
     (let c = doc (job_env s) in
      if \<not> is_set (c_ejar_id c)
      then raise (failed_error available (Text ''the contract has no Ejar id''))
      else
        andthen
          (catch (in_env (bind (build_client src) (\<lambda>cl.
              andthen (on_net (upload_signed_document L tr cl (the (c_ejar_id c))
                        (b64decode doc_b64) filename cid)) (ret ()))))
            (\<lambda>x. raise (api_error_policy available x)))
        (andthen (raised (in_env (andthen
            (write_doc (\<lambda>c. c\<lparr>c_signed_doc := Some doc_b64, c_signed_doc_filename := Some filename\<rparr>))
            (message_post (Text filename)))))
          (\<lambda>s. (if trigger \<and> is_ready_to_submit (doc (job_env s))
                then raised (action_submit_async available installed uuid) else ret ()) s))) s"

text \<open>The overriding form button and cron: a poll job instead of a poll.\<close>

definition enqueue_poll :: "string \<Rightarrow> ('w jsite, exn, string) opn" where
  "enqueue_poll uuid s =
     enqueue_job uuid MAX_POLL_RETRIES (polling_identity_key (c_id (doc (job_env s)))) CHANNEL_POLLING s"

definition action_check_status_async ::
  "bool \<Rightarrow> pylib \<Rightarrow> 'w transport \<Rightarrow> cred_sources \<Rightarrow> string \<Rightarrow> string \<Rightarrow> ('w jsite, exn, unit) opn" where
  "action_check_status_async available L tr src cid uuid =
     andthen (in_env (guard (\<lambda>e. is_set (c_ejar_id (doc e))) ''no Ejar contract id''))
       (if \<not> available then in_env (action_check_ejar_status L tr src cid)
        else bind (enqueue_poll uuid) (\<lambda>u.
          if u \<noteq> [] then in_env (write_doc (\<lambda>c. c\<lparr>c_job_uuid := Some u\<rparr>)) else ret ()))"

definition cron_poll_async ::
  "bool \<Rightarrow> pylib \<Rightarrow> 'w transport \<Rightarrow> cred_sources \<Rightarrow> string \<Rightarrow> string \<Rightarrow> datetime \<Rightarrow> ('w jsite, exn, unit) opn" where
  "cron_poll_async available L tr src cid uuid now s =
     (if \<not> available then in_env (cron_poll_contract L tr src cid now)
      else if \<not> due_for_poll now (doc (job_env s)) then ret ()
      else
        bind (enqueue_poll uuid) (\<lambda>u. in_env (write_doc (\<lambda>c. c
          \<lparr>c_job_uuid := (if u \<noteq> [] then Some u else c_job_uuid c),
           c_next_poll := Some (now + 30 * 60)\<rparr>)))) s"

section \<open>Cleanup\<close>

definition cron_cleanup_dead_letter :: "bool \<Rightarrow> ('w jsite, exn, unit) opn" where
  "cron_cleanup_dead_letter installed s =
     (let c = doc (job_env s) in
      if \<not> installed \<or> c_status c \<noteq> Submitting \<or> c_job_uuid c = None then ret ()
      else (case List.find (\<lambda>q. Some (qj_uuid q) = c_job_uuid c \<and> qj_state q \<in> {JobFailed, JobCancelled})
                  (queue s) of
          None \<Rightarrow> ret ()
        | Some q \<Rightarrow>
            let reason = (if qj_exc_info q \<noteq> [] then take 500 (qj_exc_info q)
                          else ''all retries exhausted'') in
            in_env (mark_dead_letter (UserError (Text reason))))) s"

text \<open>\<open>like\<close> without a wildcard finds a substring.\<close>

definition like :: "string \<Rightarrow> string \<Rightarrow> bool" where
  "like s p \<longleftrightarrow> list_ex (\<lambda>n. starts_with (drop n s) p) [0..<Suc (length s)]"

definition cron_purge_completed_jobs :: "bool \<Rightarrow> datetime \<Rightarrow> qjob list \<Rightarrow> qjob list" where
  "cron_purge_completed_jobs installed now qs =
     (if \<not> installed then qs
      else filter (\<lambda>q. \<not> (qj_state q = Done
             \<and> (case qj_date_done q of None \<Rightarrow> False | Some t \<Rightarrow> t < now - 30 * 86400)
             \<and> like (qj_channel q) ''root.ejar'')) qs)"

section \<open>The wizard\<close>

definition all_checks_pass :: "contract \<Rightarrow> bool" where
  "all_checks_pass c \<longleftrightarrow> c_profile c \<noteq> None \<and> has_lessor c \<and> has_tenant c \<and> has_unit c
     \<and> is_set (c_signed_doc c) \<and> c_rent c > 0"

definition action_confirm_submit ::
  "bool \<Rightarrow> bool \<Rightarrow> bool \<Rightarrow> string \<Rightarrow> pylib \<Rightarrow> 'w transport \<Rightarrow> cred_sources \<Rightarrow> (int \<Rightarrow> profile option)
   \<Rightarrow> string \<Rightarrow> ('w jsite, exn, unit) opn" where
  "action_confirm_submit confirmed available installed uuid L tr src find_profile cid s =
     (if \<not> all_checks_pass (doc (job_env s)) then raise (UserError (Text ''elements are missing''))
      else if \<not> confirmed then raise (UserError (Text ''confirmation is missing''))
      else if installed then action_submit_async available installed uuid
      else catch (in_env (andthen (execute_full_submission L tr src find_profile cid) (ret ())))
             (\<lambda>x. raise (UserError (exn_text x)))) s"

section \<open>Running a job\<close>

text \<open>
  \<open>_get_retry_seconds\<close>: the delay the exception asks for, or the last entry of the retry pattern
  the counter has reached.
\<close>

definition retry_seconds :: "(nat \<times> nat) list \<Rightarrow> nat \<Rightarrow> int option \<Rightarrow> int" where
  "retry_seconds patt retry seconds =
     (if seconds \<noteq> None \<and> seconds \<noteq> Some 0 then the seconds
      else if patt = [] then RETRY_INTERVAL
      else (case takeWhile (\<lambda>(n, _). n \<le> retry) (sort_key fst patt) of
          [] \<Rightarrow> RETRY_INTERVAL
        | x # xs \<Rightarrow> int (snd (last (x # xs)))))"

text \<open>\<open>perform\<close>: the counter goes up, and a retryable error turns into a failure at the maximum.\<close>

definition perform_error :: "job_exn \<Rightarrow> qjob \<Rightarrow> job_exn \<times> qjob" where
  "perform_error x q = (case x of
      JobError (RetryableJobError m secs ignore) \<Rightarrow>
        if ignore then (x, q\<lparr>qj_retry := qj_retry q - 1\<rparr>)
        else if qj_max q = 0 then (x, q)
        else if qj_retry q \<ge> qj_max q then (JobError (FailedJobError m), q)
        else (x, q)
    | _ \<Rightarrow> (x, q))"

definition rollback :: "'w env \<Rightarrow> 'w env" where
  "rollback e = e\<lparr>doc := dur_doc (saved e), logs := dur_logs (saved e), chatter := dur_chatter (saved e)\<rparr>"

definition commit_env :: "'w env \<Rightarrow> 'w env" where
  "commit_env e = e\<lparr>saved := snapshot e\<rparr>"

text \<open>
  \<open>runjob\<close>: only an enqueued job runs. The start is committed; after a success everything is
  committed, after an error the job's own cursor is rolled back and only the job record changes.
\<close>

definition run_job ::
  "(nat \<times> nat) list \<Rightarrow> ('w env, job_exn, unit) opn \<Rightarrow> qjob \<Rightarrow> 'w env \<Rightarrow> qjob \<times> 'w env" where
  "run_job patt method q e =
     (if qj_state q \<noteq> Enqueued then (q, e)
      else
        let q1 = q\<lparr>qj_state := Started, qj_retry := qj_retry q + 1\<rparr> in
        case method (commit_env e) of
          (Inr _, e') \<Rightarrow> (q1\<lparr>qj_state := Done, qj_date_done := Some (utc_now e')\<rparr>, commit_env e')
        | (Inl x, e') \<Rightarrow>
            (case perform_error x q1 of
               (JobError (RetryableJobError m secs ignore), q2) \<Rightarrow>
                 (q2\<lparr>qj_state := Pending,
                     qj_eta := Some (utc_now e' + retry_seconds patt (qj_retry q2) secs)\<rparr>, rollback e')
             | (_, q2) \<Rightarrow> (q2\<lparr>qj_state := JobFailed, qj_exc_info := ''traceback''\<rparr>, rollback e')))"

text \<open>
  The retry pattern of the submission job is given to the decorator of the queue; the decorator the
  module defines itself ignores it, and the queue has no pattern of its own for this method.
\<close>

definition submission_pattern :: "bool \<Rightarrow> (nat \<times> nat) list" where
  "submission_pattern available = (if available then SUBMISSION_RETRY_PATTERN else [])"

text \<open>The runner enqueues a pending job when its time has come, and runs it.\<close>

definition dispatch :: "qjob \<Rightarrow> qjob" where
  "dispatch q = (if qj_state q = Pending then q\<lparr>qj_state := Enqueued\<rparr> else q)"

definition submission_attempt ::
  "bool \<Rightarrow> pylib \<Rightarrow> 'w transport \<Rightarrow> cred_sources \<Rightarrow> (int \<Rightarrow> profile option) \<Rightarrow> string \<Rightarrow> qjob \<times> 'w env \<Rightarrow> qjob \<times> 'w env" where
  "submission_attempt available L tr src find_profile cid = (\<lambda>(q, e).
     run_job (submission_pattern available) (job_execute_full_submission available L tr src find_profile cid)
       (dispatch q) e)"

fun submission_attempts ::
  "bool \<Rightarrow> pylib \<Rightarrow> 'w transport \<Rightarrow> cred_sources \<Rightarrow> (int \<Rightarrow> profile option) \<Rightarrow> string list
   \<Rightarrow> qjob \<times> 'w env \<Rightarrow> qjob \<times> 'w env" where
  "submission_attempts available L tr src find_profile [] s = s"
| "submission_attempts available L tr src find_profile (cid # cids) s =
     submission_attempts available L tr src find_profile cids
       (submission_attempt available L tr src find_profile cid s)"


section \<open>What a submission leaves of the job fields\<close>

definition job_kept :: "contract \<Rightarrow> contract \<Rightarrow> bool" where
  "job_kept c d \<longleftrightarrow> c_company d = c_company c \<and> c_job_uuid d = c_job_uuid c
     \<and> c_job_channel d = c_job_channel c \<and> c_job_last_error d = c_job_last_error c"

interpretation job_fields: pipeline_frame "job_kept c" "\<lambda>_. True" tr "c_company c"
  for c :: contract and tr :: "'w transport"
  by unfold_locales (auto simp: job_kept_def keeps_def upd_party_def upd_unit_def)

lemma submission_job_fields:
  "job_kept (doc e) (doc (snd (execute_full_submission L tr src find_profile cid e)))"
proof -
  have pipe: "job_kept (doc (begun e)) (doc (snd (run_pipeline L tr src find_profile cid (begun e))))"
    by (rule job_fields.pipeline_invariant(1)) (simp_all add: job_kept_def)
  have start: "job_kept (doc e) d" if "job_kept (doc (begun e)) d" for d
    using that by (simp add: begun_fields job_kept_def)
  show ?thesis
  proof (cases rule: execute_ends [of L tr src find_profile cid e])
    case (success j u)
    then show ?thesis using start pipe by simp
  next
    case (failure x u e')
    then have "job_kept (doc (begun e)) (doc e')" using pipe by (simp add: job_kept_def)
    then show ?thesis using start failure by simp
  qed
qed

section \<open>One attempt\<close>

text \<open>Which errors of a submission the job is run again for, when it has attempts left.\<close>

definition retried :: "bool \<Rightarrow> exn \<Rightarrow> bool" where
  "retried available x = (case x of Ejar y \<Rightarrow> \<not> class_is_permanent (exc_class y) | _ \<Rightarrow> available)"

definition asks_retry :: "job_exn \<Rightarrow> bool" where
  "asks_retry j = (case j of JobError (RetryableJobError m s ign) \<Rightarrow> \<not> ign | _ \<Rightarrow> False)"

definition never_ignored :: "job_exn \<Rightarrow> bool" where
  "never_ignored j = (case j of JobError (RetryableJobError m s ign) \<Rightarrow> \<not> ign | _ \<Rightarrow> True)"

lemma policy_classify:
  "never_ignored (JobError (classify_ejar_exception y))"
  "\<not> class_is_permanent (exc_class y) \<Longrightarrow> asks_retry (JobError (classify_ejar_exception y))"
proof -
  show "never_ignored (JobError (classify_ejar_exception y))"
    by (simp add: never_ignored_def classify_ejar_exception_def Let_def)
  assume "\<not> class_is_permanent (exc_class y)"
  then have "\<not> dead_letters (classify_ejar_exception y)"
    by (simp only: dead_letters_classify permanent_classes) auto
  then show "asks_retry (JobError (classify_ejar_exception y))"
    using \<open>never_ignored (JobError (classify_ejar_exception y))\<close>
    by (cases "classify_ejar_exception y") (auto simp: asks_retry_def never_ignored_def)
qed

lemma job_raises:
  assumes "execute_full_submission L tr src find_profile cid e = (Inl x, e')"
    and "c_status (doc e) \<notin> {Submitted, Approved}"
  shows "\<exists>j t. job_execute_full_submission available L tr src find_profile cid e = (Inl j, t)
    \<and> saved t = saved e' \<and> never_ignored j \<and> (asks_retry j \<longleftrightarrow> retried available x)"
proof -
  have body: "andthen (execute_full_submission L tr src find_profile cid) n e = (Inl x, e')" for n :: "('a env, exn, unit) opn"
    using assms(1) by (rule andthen_run(1))
  have dead: "\<exists>t. mark_dead_letter r u = (Inr (), t) \<and> saved t = saved u" for r and u :: "'a env"
    by (simp add: mark_dead_letter_def op_simps)
  have own: "never_ignored (retryable_error available m)" "asks_retry (retryable_error available m) = available"
    "never_ignored (failed_error available m)" "\<not> asks_retry (failed_error available m)" for m
    by (simp_all add: never_ignored_def asks_retry_def retryable_error_def failed_error_def)
  show ?thesis
  proof (cases x)
    case (Ejar y)
    obtain t where t: "mark_dead_letter (Ejar y) (e'\<lparr>doc := (doc e')\<lparr>c_job_last_error := Some (Ejar y)\<rparr>\<rparr>) = (Inr (), t)"
      "saved t = saved e'"
      using dead [of "Ejar y" "e'\<lparr>doc := (doc e')\<lparr>c_job_last_error := Some (Ejar y)\<rparr>\<rparr>"] by auto
    show ?thesis
    proof (cases "class_is_permanent (exc_class y)")
      case True
      with assms(2) t own show ?thesis
        by (auto simp: job_execute_full_submission_def catch_def assms(1) Ejar handle_submission_exc_def
            andthen_def bind_def raised_def write_doc_run raise_def retried_def exn_is_permanent_def)
    next
      case False
      with assms(2) policy_classify [of y] show ?thesis
        by (auto simp: job_execute_full_submission_def catch_def assms(1) Ejar handle_submission_exc_def
            andthen_def bind_def raised_def write_doc_run raise_def retried_def exn_is_permanent_def)
    qed
  qed (use assms(2) own in \<open>simp_all add: job_execute_full_submission_def catch_def body raise_def retried_def\<close>)
qed

lemma job_returns:
  assumes "execute_full_submission L tr src find_profile cid e = (Inr j, e')"
    and "c_status (doc e) \<notin> {Submitted, Approved}"
  shows "job_execute_full_submission available L tr src find_profile cid e
    = (Inr (), e'\<lparr>doc := (doc e')\<lparr>c_job_last_error := None\<rparr>\<rparr>)"
  using assms by (simp add: job_execute_full_submission_def catch_def andthen_def bind_def write_doc_run)

lemma commit_env_fields [simp]:
  "doc (commit_env e) = doc e" "net (commit_env e) = net e" "dur_doc (saved (commit_env e)) = doc e"
  by (simp_all add: commit_env_def snapshot_def)

lemma rollback_doc [simp]: "doc (rollback e) = dur_doc (saved e)"
  by (simp add: rollback_def)

text \<open>What a run makes of a job whose method raises.\<close>

definition attempts_left :: "qjob \<Rightarrow> bool" where
  "attempts_left q \<longleftrightarrow> qj_max q = 0 \<or> qj_retry q + 1 < qj_max q"

lemma run_job_raises:
  assumes "act (commit_env e) = (Inl j, t)" and "never_ignored j" and "qj_state q = Enqueued"
  shows "\<exists>q'. run_job patt act q e = (q', rollback t)
    \<and> qj_max q' = qj_max q \<and> qj_retry q' = qj_retry q + 1
    \<and> qj_state q' = (if asks_retry j \<and> attempts_left q then Pending else JobFailed)"
proof (cases j)
  case (JobError y)
  with assms show ?thesis
    by (cases y) (auto simp: run_job_def Let_def perform_error_def asks_retry_def never_ignored_def
        attempts_left_def)
qed (use assms in \<open>simp_all add: run_job_def Let_def perform_error_def asks_retry_def\<close>)

text \<open>The two ways an attempt on a contract that is not submitted yet can end.\<close>

lemma attempt_ends:
  assumes "qj_state q \<in> {Pending, Enqueued}" and "c_status (doc e) \<notin> {Submitted, Approved}"
    and "submission_attempt available L tr src find_profile cid (q, e) = (q', e')"
  shows "qj_max q' = qj_max q \<and> qj_retry q' = qj_retry q + 1 \<and>
     (qj_state q' = Done \<and> c_status (doc e') = Submitted \<and> c_submit_error (doc e') = None
        \<and> c_job_last_error (doc e') = None
      \<or> (\<exists>x. c_submit_error (doc e') = Some x
          \<and> qj_state q' = (if retried available x \<and> attempts_left q then Pending else JobFailed)
          \<and> c_status (doc e') = Ready
          \<and> c_job_last_error (doc e') = c_job_last_error (doc e) \<and> c_job_uuid (doc e') = c_job_uuid (doc e)))"
proof -
  let ?job = "job_execute_full_submission available L tr src find_profile cid"
  have disp: "qj_state (dispatch q) = Enqueued" "qj_retry (dispatch q) = qj_retry q"
    "qj_max (dispatch q) = qj_max q" "attempts_left (dispatch q) = attempts_left q"
    using assms(1) by (auto simp: dispatch_def attempts_left_def)
  have kept: "job_kept (doc e) (doc (snd (execute_full_submission L tr src find_profile cid (commit_env e))))"
    using submission_job_fields [of "commit_env e" L tr src find_profile cid] by simp
  show ?thesis
  proof (cases rule: execute_ends [of L tr src find_profile cid "commit_env e"])
    case (success j u)
    then show ?thesis
      using job_returns [OF success(2), of available] assms(2,3) disp
      by (auto simp: submission_attempt_def run_job_def Let_def)
  next
    case (failure x u v)
    obtain j t where t: "?job (commit_env e) = (Inl j, t)" "saved t = saved v" "never_ignored j"
      "asks_retry j = retried available x"
      using job_raises [OF failure(2), of available] assms(2) by auto
    have "job_kept (doc e) (doc v)" using kept failure(2) by simp
    then have v: "c_status (doc v) = Ready" "c_submit_error (doc v) = Some x"
      "c_job_last_error (doc v) = c_job_last_error (doc e)" "c_job_uuid (doc v) = c_job_uuid (doc e)"
      using failure(3) by (simp_all add: job_kept_def)
    have "dur_doc (saved t) = doc v" using t(2) failure(4) by simp
    with assms(3) v disp t(4) run_job_raises [where act = ?job and e = e and q = "dispatch q" and patt = "submission_pattern available",
        OF t(1,3) disp(1)]
    show ?thesis by (auto simp: submission_attempt_def)
  qed
qed

text \<open>
  Property C14. One run of the submission job, on a contract in any status but submitted and approved
  (a cancelled or expired one is submitted all the same). Either the job is done and the contract is
  submitted, or the contract is ready with the error of the submission, and this error decides the
  job: it waits for a retry exactly when attempts are left and the error is an Ejar error that is not
  permanent, or any other error when the module found the queue; otherwise the job has failed at once.
  With the queue that comes with the repository, in which the module does not find what it imports,
  an error that is no Ejar error is raised as a class of the module's own, which the queue treats as a
  failure. What the error handler wrote after the submission (the job's last error, the cleared job
  reference of a dead letter) is gone: the queue rolls back what the job had not committed.
\<close>

theorem submission_job_attempt:
  assumes "qj_state q \<in> {Pending, Enqueued}" and "c_status (doc e) \<notin> {Submitted, Approved}"
  shows "case submission_attempt available L tr src find_profile cid (q, e) of (q', e') \<Rightarrow>
     qj_state q' = Done \<and> c_status (doc e') = Submitted \<and> c_submit_error (doc e') = None
       \<and> c_job_last_error (doc e') = None
     \<or> (\<exists>x. c_submit_error (doc e') = Some x \<and> c_status (doc e') = Ready
       \<and> qj_state q' = (if (case x of Ejar y \<Rightarrow> \<not> class_is_permanent (exc_class y) | _ \<Rightarrow> available)
            \<and> (qj_max q = 0 \<or> qj_retry q + 1 < qj_max q) then Pending else JobFailed)
       \<and> c_job_last_error (doc e') = c_job_last_error (doc e) \<and> c_job_uuid (doc e') = c_job_uuid (doc e))"
proof -
  obtain q' e' where run: "submission_attempt available L tr src find_profile cid (q, e) = (q', e')" by fastforce
  show ?thesis
    using attempt_ends [OF assms run] unfolding run retried_def attempts_left_def by blast
qed

definition sample_job :: qjob where
  "sample_job = \<lparr>qj_uuid = ''u'', qj_state = Pending, qj_retry = 0, qj_max = MAX_SUBMISSION_RETRIES,
     qj_identity = submission_identity_key 1, qj_channel = CHANNEL_CONTRACTS, qj_eta = None,
     qj_exc_info = [], qj_date_done = None\<rparr>"

definition sample_cancelled :: "unit env" where
  "sample_cancelled = (sample_env ())\<lparr>doc := sample_contract\<lparr>c_status := Cancelled\<rparr>\<rparr>"

theorem submission_job_attempt_witness:
  "\<forall>available L tr src find_profile cid.
     c_status (doc (snd (submission_attempt available L tr src find_profile cid (sample_job, sample_cancelled))))
       \<in> {Submitted, Ready}"
proof (intro allI)
  fix available L tr src find_profile cid
  have "qj_state sample_job \<in> {Pending, Enqueued}" and "c_status (doc sample_cancelled) \<notin> {Submitted, Approved}"
    by (simp_all add: sample_job_def sample_cancelled_def)
  from submission_job_attempt [OF this, of available L tr src find_profile cid]
  show "c_status (doc (snd (submission_attempt available L tr src find_profile cid (sample_job, sample_cancelled))))
      \<in> {Submitted, Ready}"
    by (auto split: prod.splits)
qed

section \<open>Retries\<close>

lemma finished_stays:
  "qj_state q \<in> {Done, JobFailed} \<Longrightarrow> submission_attempts available L tr src find_profile cids (q, e) = (q, e)"
  by (induction cids) (auto simp: submission_attempt_def run_job_def dispatch_def)

lemma attempt_noop:
  assumes "qj_state q \<in> {Pending, Enqueued}" and "c_status (doc e) \<in> {Submitted, Approved}"
  shows "qj_state (fst (submission_attempt available L tr src find_profile cid (q, e))) = Done
    \<and> qj_retry (fst (submission_attempt available L tr src find_profile cid (q, e))) = qj_retry q + 1"
  using assms
  by (auto simp: submission_attempt_def run_job_def dispatch_def job_execute_full_submission_def ret_def Let_def)

lemma attempt_progress:
  assumes "qj_state q \<in> {Pending, Enqueued}" and "0 < qj_max q"
    and "submission_attempt available L tr src find_profile cid (q, e) = (q', e')"
  shows "qj_retry q' = qj_retry q + 1" and "qj_max q' = qj_max q \<or> qj_state q' = Done"
    and "qj_state q' \<in> {Done, JobFailed} \<or> qj_state q' = Pending \<and> qj_retry q' < qj_max q'"
proof -
  show "qj_retry q' = qj_retry q + 1"
    using attempt_ends [OF assms(1) _ assms(3)] attempt_noop [OF assms(1), of e available L tr src find_profile cid] assms(3)
    by (cases "c_status (doc e) \<in> {Submitted, Approved}") auto
  show "qj_max q' = qj_max q \<or> qj_state q' = Done"
    using attempt_ends [OF assms(1) _ assms(3)] attempt_noop [OF assms(1), of e available L tr src find_profile cid] assms(3)
    by (cases "c_status (doc e) \<in> {Submitted, Approved}") auto
  show "qj_state q' \<in> {Done, JobFailed} \<or> qj_state q' = Pending \<and> qj_retry q' < qj_max q'"
    using attempt_ends [OF assms(1) _ assms(3)] attempt_noop [OF assms(1), of e available L tr src find_profile cid]
      assms(2,3)
    by (cases "c_status (doc e) \<in> {Submitted, Approved}") (auto simp: attempts_left_def split: if_splits)
qed

lemma attempts_finish:
  assumes "qj_state q \<in> {Pending, Enqueued}" and "qj_retry q < qj_max q"
    and "qj_max q \<le> qj_retry q + length cids"
  shows "qj_state (fst (submission_attempts available L tr src find_profile cids (q, e))) \<in> {Done, JobFailed}
    \<and> qj_retry (fst (submission_attempts available L tr src find_profile cids (q, e))) \<le> qj_max q"
  using assms
proof (induction cids arbitrary: q e)
  case (Cons cid cids)
  obtain q' e' where run: "submission_attempt available L tr src find_profile cid (q, e) = (q', e')" by fastforce
  have "0 < qj_max q" using Cons.prems(2) by simp
  note step = attempt_progress [OF Cons.prems(1) this run]
  show ?case
  proof (cases "qj_state q' \<in> {Done, JobFailed}")
    case True
    then show ?thesis
      using step(1) Cons.prems(2) by (simp add: run finished_stays [OF True] del: insert_iff)
  next
    case False
    then have pending: "qj_state q' = Pending" "qj_retry q' < qj_max q'" and max: "qj_max q' = qj_max q"
      using step(2,3) by auto
    have "qj_max q' \<le> qj_retry q' + length cids" using Cons.prems(3) step(1) max by simp
    then show ?thesis using Cons.IH [of q' e'] pending max run by simp
  qed
qed simp

text \<open>
  Property C15. The retries of a submission end: however the network behaves and whatever the contract
  is, whether or not the module found the queue, a job that is waiting and has a maximum with attempts
  left is done or failed after as many runs as it has attempts left, and it was never attempted more
  often than its maximum.
\<close>

theorem submission_retries_end:
  assumes "qj_state q \<in> {Pending, Enqueued}" and "qj_retry q < qj_max q"
    and "length cids = qj_max q - qj_retry q"
  shows "qj_state (fst (submission_attempts available L tr src find_profile cids (q, e))) \<in> {Done, JobFailed}
    \<and> qj_retry (fst (submission_attempts available L tr src find_profile cids (q, e))) \<le> qj_max q"
  using assms by (intro attempts_finish) simp_all

theorem submission_retries_end_witness:
  "\<forall>available L tr src find_profile.
     qj_state (fst (submission_attempts available L tr src find_profile [''a'', ''b'', ''c'', ''d'', ''e'']
       (sample_job, sample_cancelled))) \<in> {Done, JobFailed}"
proof (intro allI)
  fix available L and tr :: "unit transport" and src find_profile
  let ?cids = "[''a'', ''b'', ''c'', ''d'', ''e'']"
  have "qj_state sample_job \<in> {Pending, Enqueued}" and "qj_retry sample_job < qj_max sample_job"
    and "length ?cids = qj_max sample_job - qj_retry sample_job"
    by (simp_all add: sample_job_def MAX_SUBMISSION_RETRIES_def)
  from submission_retries_end [OF this, of available L tr src find_profile sample_cancelled]
  show "qj_state (fst (submission_attempts available L tr src find_profile ?cids (sample_job, sample_cancelled)))
      \<in> {Done, JobFailed}"
    by (rule conjunct1)
qed

section \<open>The wizard\<close>

lemma async_unavailable: "\<exists>m. action_submit_async False installed uuid s = (Inl (UserError m), s)"
  by (cases "ready_missing (doc (job_env s)) = []")
    (auto simp: action_submit_async_def andthen_def bind_def in_env_def validate_ready_state_def op_simps)

text \<open>
  With the job queue that comes with the repository (installed, but without the name
  \<open>job\<close> the module imports) the wizard never submits anything: every confirmation ends in a user
  error and changes neither the contract, nor the queue, nor the gateway.
\<close>

theorem wizard_never_submits:
  "\<exists>m. action_confirm_submit confirmed False True uuid L tr src find_profile cid s
     = (Inl (UserError m), s)"
  using async_unavailable [of True uuid s]
  by (auto simp: action_confirm_submit_def raise_def)

end
