(* ===== verification/EjarForm.thy ===== *)
theory EjarForm
  imports EjarJobs
begin

text \<open>
  What a user can do to a contract in its form (\<^verbatim>\<open>views/ejar_contract_views.xml\<close> and
  \<^verbatim>\<open>views/ejar_contract_job_views.xml\<close>): every button, both wizards the buttons open, and
  saving the editable fields, in any order. The buttons are offered by status, but the methods behind
  them decide; they are modelled without the visibility conditions. The other way users reach the
  status, dragging a card of the kanban view, is at the end.
\<close>

section \<open>Saving the form\<close>

text \<open>
  A line of the lists of parties and units is an existing line (its position) or a new one; what Ejar
  gave is read-only in the lists, so an existing line keeps it and a new one has none.
\<close>

definition saved_party :: "contract \<Rightarrow> nat option \<times> party \<Rightarrow> party" where
  "saved_party c = (\<lambda>(i, p). case i of
      Some n \<Rightarrow> (let old = c_parties c ! n in p\<lparr>p_entity_id := p_entity_id old, p_party_id := p_party_id old,
         p_proxy_doc_id := p_proxy_doc_id old, p_sync_state := p_sync_state old\<rparr>)
    | None \<Rightarrow> p\<lparr>p_entity_id := None, p_party_id := None, p_proxy_doc_id := None,
         p_sync_state := ''pending''\<rparr>)"

definition saved_unit :: "contract \<Rightarrow> nat option \<times> unit_line \<Rightarrow> unit_line" where
  "saved_unit c = (\<lambda>(i, u). case i of
      Some n \<Rightarrow> (let old = c_units c ! n in u\<lparr>u_ejar_property_id := u_ejar_property_id old,
         u_ejar_unit_id := u_ejar_unit_id old, u_contract_unit_id := u_contract_unit_id old,
         u_sync_state := u_sync_state old\<rparr>)
    | None \<Rightarrow> u\<lparr>u_ejar_property_id := None, u_ejar_unit_id := None, u_contract_unit_id := None,
         u_sync_state := ''pending''\<rparr>)"

text \<open>
  The editable fields of the form, taken from the values \<open>d\<close> on the screen. The brokerage profile is
  required in the form; the constraints of the contract and of its lines are checked on the result.
\<close>

definition form_values ::
  "contract \<Rightarrow> contract \<Rightarrow> (nat option \<times> party) list \<Rightarrow> (nat option \<times> unit_line) list \<Rightarrow> contract" where
  "form_values c d ps us = c\<lparr>
     c_company := c_company d, c_profile := c_profile d, c_contract_type := c_contract_type d, c_sub_type := c_sub_type d,
     c_use_type := c_use_type d, c_start := c_start d, c_end := c_end d,
     c_parties := map (saved_party c) ps, c_units := map (saved_unit c) us,
     c_rent := c_rent d, c_payment_schedule := c_payment_schedule d,
     c_payment_option := c_payment_option d, c_sublease := c_sublease d,
     c_brokerage_fee := c_brokerage_fee d, c_brokerage_fee_paid_by := c_brokerage_fee_paid_by d,
     c_ejar_fees_paid_by := c_ejar_fees_paid_by d, c_signed_doc := c_signed_doc d,
     c_signed_doc_filename := c_signed_doc_filename d, c_custom_terms := c_custom_terms d\<rparr>"

definition is_error :: "'e + 'a \<Rightarrow> bool" where
  "is_error r = (case r of Inl _ \<Rightarrow> True | Inr _ \<Rightarrow> False)"

definition save_form ::
  "contract \<Rightarrow> (nat option \<times> party) list \<Rightarrow> (nat option \<times> unit_line) list \<Rightarrow> ('w env, exn, unit) opn" where
  "save_form d ps us e =
     (let c = form_values (doc e) d ps us in
      if c_profile c = None then user_error ''the brokerage profile is required'' e
      else
        (case List.find is_error ([check_dates c, check_brokerage_fee_cap c]
            @ map check_id_number (c_parties c) @ map check_party_iban (c_parties c)
            @ map check_unit_number (c_units c)) of
           Some (Inl x) \<Rightarrow> (Inl x, e)
         | _ \<Rightarrow> write_doc (\<lambda>_. c) e))"

section \<open>Events\<close>

datatype form_event = Button user_action
  | CheckStatus
  | CancelJob
  | ConfirmSubmit bool
  | SaveForm contract "(nat option \<times> party) list" "(nat option \<times> unit_line) list"

text \<open>
  The queue that comes with the repository is installed and not available to the module. An event
  that fails leaves the records as they were.
\<close>

definition form_op ::
  "pylib \<Rightarrow> 'w transport \<Rightarrow> cred_sources \<Rightarrow> (int \<Rightarrow> profile option) \<Rightarrow> string \<Rightarrow> string \<Rightarrow> form_event
   \<Rightarrow> ('w jsite, exn, unit) opn" where
  "form_op L tr src find_profile cid uuid v = (case v of
      Button a \<Rightarrow> in_env (run_action a)
    | CheckStatus \<Rightarrow> action_check_status_async False L tr src cid uuid
    | CancelJob \<Rightarrow> action_cancel_pending_job True
    | ConfirmSubmit confirmed \<Rightarrow> action_confirm_submit confirmed False True uuid L tr src find_profile cid
    | SaveForm d ps us \<Rightarrow> in_env (save_form d ps us))"

definition form_step ::
  "pylib \<Rightarrow> 'w transport \<Rightarrow> cred_sources \<Rightarrow> (int \<Rightarrow> profile option) \<Rightarrow> string \<Rightarrow> string \<Rightarrow> form_event
   \<Rightarrow> 'w jsite \<Rightarrow> 'w jsite" where
  "form_step L tr src find_profile cid uuid v s =
     (case form_op L tr src find_profile cid uuid v s of (Inl _, _) \<Rightarrow> s | (Inr _, t) \<Rightarrow> t)"

fun form_run ::
  "pylib \<Rightarrow> 'w transport \<Rightarrow> cred_sources \<Rightarrow> (int \<Rightarrow> profile option) \<Rightarrow> string \<Rightarrow> string \<Rightarrow> form_event list
   \<Rightarrow> 'w jsite \<Rightarrow> 'w jsite" where
  "form_run L tr src find_profile cid uuid [] s = s"
| "form_run L tr src find_profile cid uuid (v # vs) s =
     form_run L tr src find_profile cid uuid vs (form_step L tr src find_profile cid uuid v s)"

section \<open>What an event does\<close>

abbreviation "jdoc s \<equiv> doc (job_env s)"

text \<open>A contract Ejar does not know and no job is recorded for: what the form starts from and keeps.\<close>

definition local_contract :: "contract \<Rightarrow> bool" where
  "local_contract c \<longleftrightarrow> c_ejar_id c = None \<and> c_job_uuid c = None"

lemma in_env_run: "in_env m s = (fst (m (job_env s)), s\<lparr>job_env := snd (m (job_env s))\<rparr>)"
  by (simp add: in_env_def split: prod.split)

lemma remote_refused:
  assumes "local_contract (jdoc s)"
  shows "form_step L tr src find_profile cid uuid CheckStatus s = s"
    and "form_step L tr src find_profile cid uuid CancelJob s = s"
    and "form_step L tr src find_profile cid uuid (ConfirmSubmit b) s = s"
proof -
  show "form_step L tr src find_profile cid uuid CheckStatus s = s"
    using assms by (simp add: form_step_def form_op_def action_check_status_async_def local_contract_def
        andthen_split in_env_run guard_cases)
  show "form_step L tr src find_profile cid uuid CancelJob s = s"
    using assms by (simp add: form_step_def form_op_def action_cancel_pending_job_def local_contract_def
        raise_def)
  show "form_step L tr src find_profile cid uuid (ConfirmSubmit b) s = s"
    using async_unavailable [of True uuid s]
    by (auto simp: form_step_def form_op_def action_confirm_submit_def raise_def)
qed

lemma button_step:
  "form_step L tr src find_profile cid uuid (Button a) s = s\<lparr>job_env := snd (run_action a (job_env s))\<rparr>"
proof (cases "fst (run_action a (job_env s))")
  case (Inl x)
  then show ?thesis by (simp add: form_step_def form_op_def in_env_run action_refused)
next
  case (Inr u)
  then show ?thesis by (simp add: form_step_def form_op_def in_env_run)
qed

lemma save_form_ends:
  obtains (refused) x where "save_form d ps us e = (Inl x, e)"
    | (stored) "c_profile d \<noteq> None" and "save_form d ps us e = (Inr (), e\<lparr>doc := form_values (doc e) d ps us\<rparr>)"
proof (cases "c_profile d = None")
  case True
  then have "save_form d ps us e = (Inl (UserError (Text ''the brokerage profile is required'')), e)"
    by (simp add: save_form_def Let_def form_values_def user_error_def raise_def)
  then show ?thesis by (rule refused)
next
  case False
  then have profile: "c_profile (form_values (doc e) d ps us) \<noteq> None" by (simp add: form_values_def)
  define check where "check = List.find is_error ([check_dates (form_values (doc e) d ps us),
    check_brokerage_fee_cap (form_values (doc e) d ps us)]
    @ map check_id_number (c_parties (form_values (doc e) d ps us))
    @ map check_party_iban (c_parties (form_values (doc e) d ps us))
    @ map check_unit_number (c_units (form_values (doc e) d ps us)))"
  have run: "save_form d ps us e = (case check of Some (Inl x) \<Rightarrow> (Inl x, e)
     | _ \<Rightarrow> write_doc (\<lambda>_. form_values (doc e) d ps us) e)"
    unfolding save_form_def Let_def check_def using profile by (simp only: if_False)
  consider (bad) x where "check = Some (Inl x)"
    | (good) "save_form d ps us e = write_doc (\<lambda>_. form_values (doc e) d ps us) e"
  proof (cases check)
    case (Some r)
    then show ?thesis by (cases r) (auto simp: run bad good)
  qed (simp add: run good)
  then show ?thesis
  proof cases
    case (bad x)
    then have "save_form d ps us e = (Inl x, e)" unfolding run by simp
    then show ?thesis by (rule refused)
  next
    case good
    then show ?thesis using False stored by (simp add: write_doc_run)
  qed
qed

lemma save_step:
  "form_step L tr src find_profile cid uuid (SaveForm d ps us) s = s
   \<or> c_profile d \<noteq> None \<and> form_step L tr src find_profile cid uuid (SaveForm d ps us) s
       = s\<lparr>job_env := (job_env s)\<lparr>doc := form_values (jdoc s) d ps us\<rparr>\<rparr>"
  by (cases rule: save_form_ends [of d ps us "job_env s"]) (simp_all add: form_step_def form_op_def in_env_run)

lemma action_frame:
  "c_ejar_id (doc (snd (run_action a e))) = c_ejar_id (doc e)
   \<and> c_job_uuid (doc (snd (run_action a e))) = c_job_uuid (doc e)
   \<and> net (snd (run_action a e)) = net e"
  by (cases a) (simp_all add: all_effects Let_def)

lemma form_values_frame [simp]:
  "c_status (form_values c d ps us) = c_status c"
  "c_ejar_id (form_values c d ps us) = c_ejar_id c"
  "c_job_uuid (form_values c d ps us) = c_job_uuid c"
  by (simp_all add: form_values_def)

lemma form_step_local:
  assumes "local_contract (jdoc s)"
  shows "local_contract (jdoc (form_step L tr src find_profile cid uuid v s))
    \<and> net (job_env (form_step L tr src find_profile cid uuid v s)) = net (job_env s)
    \<and> queue (form_step L tr src find_profile cid uuid v s) = queue s"
proof (cases v)
  case (Button a)
  then show ?thesis
    using assms action_frame [of a "job_env s"] by (simp add: button_step local_contract_def)
next
  case (SaveForm d ps us)
  then show ?thesis
    using assms save_step [of L tr src find_profile cid uuid d ps us s]
    by (auto simp: local_contract_def)
qed (use assms in \<open>simp_all add: remote_refused\<close>)

lemma form_run_local:
  assumes "local_contract (jdoc s)"
  shows "local_contract (jdoc (form_run L tr src find_profile cid uuid vs s))
    \<and> net (job_env (form_run L tr src find_profile cid uuid vs s)) = net (job_env s)
    \<and> queue (form_run L tr src find_profile cid uuid vs s) = queue s"
  using assms
proof (induction vs arbitrary: s)
  case (Cons v vs)
  then show ?case using form_step_local [OF Cons.prems, of L tr src find_profile cid uuid v] by simp
qed simp

lemma form_step_ready:
  assumes "local_contract (jdoc s)" and "c_status (jdoc s) \<noteq> Ready"
    and "c_status (jdoc (form_step L tr src find_profile cid uuid v s)) = Ready"
  shows "ready_missing (jdoc (form_step L tr src find_profile cid uuid v s)) = []"
proof (cases v)
  case (Button a)
  then show ?thesis using assms(2,3) action_ready [of a "job_env s"] by (simp add: button_step)
next
  case (SaveForm d ps us)
  then show ?thesis using assms(2,3) save_step [of L tr src find_profile cid uuid d ps us s] by auto
qed (use assms in \<open>simp_all add: remote_refused\<close>)

lemma form_step_stays_complete:
  assumes "local_contract (jdoc s)" and "ready_missing (jdoc s) = []" and "c_status (jdoc s) = Ready"
    and "ready_missing (jdoc (form_step L tr src find_profile cid uuid v s)) \<noteq> []"
  shows "\<exists>d ps us. v = SaveForm d ps us"
proof (cases v)
  case (Button a)
  have "ready_missing (doc (snd (run_action a (job_env s)))) = []"
    using assms(2,3) by (cases a) (auto simp: all_effects Let_def upload_keeps_ready)
  with Button assms(4) show ?thesis by (simp add: button_step)
qed (use assms in \<open>simp_all add: remote_refused\<close>)

lemma form_step_terminal:
  assumes "local_contract (jdoc s)" and "c_status (jdoc s) \<in> {Expired, Cancelled}"
  shows "c_status (jdoc (form_step L tr src find_profile cid uuid v s)) = c_status (jdoc s)"
proof (cases v)
  case (Button a)
  then show ?thesis using assms(2) action_terminal [of "job_env s" a] by (simp add: button_step)
next
  case (SaveForm d ps us)
  then show ?thesis using save_step [of L tr src find_profile cid uuid d ps us s] by auto
qed (use assms in \<open>simp_all add: remote_refused\<close>)

lemma form_run_terminal:
  assumes "local_contract (jdoc s)" and "c_status (jdoc s) \<in> {Expired, Cancelled}"
  shows "c_status (jdoc (form_run L tr src find_profile cid uuid vs s)) = c_status (jdoc s)"
  using assms
proof (induction vs arbitrary: s)
  case (Cons v vs)
  note step = form_step_terminal [OF Cons.prems, of L tr src find_profile cid uuid v]
    form_step_local [OF Cons.prems(1), of L tr src find_profile cid uuid v]
  then show ?case using Cons.IH [of "form_step L tr src find_profile cid uuid v s"] Cons.prems(2) by simp
qed simp

section \<open>Properties\<close>

text \<open>
  Property C7. Any sequence of events of the contract form, on a contract that Ejar does not know and
  that has no job (a new one, say), with the queue that comes with the repository: the buttons
  (start, mark ready, submit, reset, cancel, check the status, cancel the job), the upload and the
  submission wizard, and saving the editable fields, parties and units included. Nothing is ever sent
  to Ejar and no job is enqueued (the separate windows of parties, units and logs that the form opens are
  not part of it). An event that brings the contract into the ready state leaves it with
  a lessor, a tenant, a unit, a signed document and a brokerage profile; afterwards only saving
  the form can make a ready contract incomplete; and an expired or cancelled contract never changes
  its status again, whatever follows.
\<close>

theorem ready_contracts_complete:
  assumes "c_ejar_id (jdoc s) = None" and "c_job_uuid (jdoc s) = None"
  shows "let t = form_run L tr src find_profile cid uuid vs s;
             u = form_step L tr src find_profile cid uuid v t in
    net (job_env t) = net (job_env s) \<and> queue t = queue s
    \<and> (c_status (jdoc t) \<noteq> Ready \<and> c_status (jdoc u) = Ready \<longrightarrow>
         has_lessor (jdoc u) \<and> has_tenant (jdoc u) \<and> has_unit (jdoc u)
         \<and> is_set (c_signed_doc (jdoc u)) \<and> c_profile (jdoc u) \<noteq> None)
    \<and> (c_status (jdoc t) = Ready \<and> ready_missing (jdoc t) = [] \<and> ready_missing (jdoc u) \<noteq> [] \<longrightarrow>
         (\<exists>d ps us. v = SaveForm d ps us))
    \<and> (c_status (jdoc t) \<in> {Expired, Cancelled} \<longrightarrow>
         (\<forall>ws. c_status (jdoc (form_run L tr src find_profile cid uuid ws t)) = c_status (jdoc t)))"
proof -
  have "local_contract (jdoc s)" using assms by (simp add: local_contract_def)
  note run = form_run_local [OF this, of L tr src find_profile cid uuid vs]
  then have loc: "local_contract (jdoc (form_run L tr src find_profile cid uuid vs s))" by blast
  note step = form_step_ready [OF loc, of L tr src find_profile cid uuid v]
    form_step_stays_complete [OF loc, of L tr src find_profile cid uuid v]
    form_run_terminal [OF loc, of L tr src find_profile cid uuid]
  show ?thesis
    unfolding Let_def using run step by (auto simp only: ready_missing_Nil)
qed

definition sample_site :: "unit jsite" where
  "sample_site = \<lparr>job_env = sample_env (), queue = []\<rparr>"

text \<open>The ready contract can be emptied: the form does not protect it.\<close>

definition emptied :: "unit jsite" where
  "emptied = form_run \<lparr>sha256_hex = b64encode, str_other = \<lambda>_. []\<rparr> (\<lambda>w rq. (TimeoutRaised, 1, w))
     \<lparr>src_now = 0, src_tokens = \<lambda>_. NoTokenModel, src_params = None\<rparr> (\<lambda>_. None) ''c'' ''u''
     [Button StartBuilding, Button MarkReady, SaveForm (sample_contract\<lparr>c_signed_doc := None\<rparr>) [] []]
     sample_site"

theorem ready_contracts_complete_witness:
  "c_status (jdoc emptied) = Ready \<and> ready_missing (jdoc emptied) \<noteq> []
   \<and> net (job_env emptied) = net (job_env sample_site)"
proof -
  let ?L = "\<lparr>sha256_hex = b64encode, str_other = \<lambda>_. []\<rparr>"
  let ?tr = "\<lambda>w rq. (TimeoutRaised, 1, w)"
  let ?src = "\<lparr>src_now = 0, src_tokens = \<lambda>_. NoTokenModel, src_params = None\<rparr>"
  let ?d = "sample_contract\<lparr>c_signed_doc := None\<rparr>"
  let ?vs = "[Button StartBuilding, Button MarkReady, SaveForm ?d [] []]"
  have start: "c_ejar_id (jdoc sample_site) = None" "c_job_uuid (jdoc sample_site) = None"
    by (simp_all add: sample_site_def sample_env_def sample_contract_def)
  have sent: "net (job_env emptied) = net (job_env sample_site)"
    using ready_contracts_complete [OF start, of ?L ?tr ?src "\<lambda>_. None" "''c''" "''u''" ?vs CheckStatus]
    by (simp add: emptied_def Let_def)
  have "run_action MarkReady (snd (run_action StartBuilding (sample_env ())))
     = (Inr (), snd (run_action MarkReady (snd (run_action StartBuilding (sample_env ())))))"
    by (simp add: action_effects mark_ready_effect ready_missing_Nil has_lessor_def
        has_tenant_def has_unit_def sample_env_def sample_contract_def sample_party_def)
  have "c_status (jdoc emptied) = Ready" and "\<not> is_set (c_signed_doc (jdoc emptied))"
    by (simp_all add: emptied_def button_step form_step_def [of _ _ _ _ _ _ "SaveForm _ _ _"] form_op_def
        in_env_run save_form_def Let_def write_doc_run form_values_def check_dates_def
        check_brokerage_fee_cap_def is_error_def
        action_effects mark_ready_effect ready_missing_Nil has_lessor_def
        has_tenant_def has_unit_def sample_site_def sample_env_def sample_contract_def sample_party_def)
  then have "ready_missing (jdoc emptied) \<noteq> []" by (simp add: ready_missing_Nil)
  with sent \<open>c_status (jdoc emptied) = Ready\<close> show ?thesis by blast
qed

text \<open>
  The kanban view is grouped by status, and the status is not read-only: dragging a card writes the
  status. The transition constraint, which compares the stored status with itself, refuses no move.
\<close>

theorem kanban_moves_anywhere:
  "set_status Ready ((sample_env ())\<lparr>doc := (sample_contract\<lparr>c_status := Draft, c_parties := [], c_units := []\<rparr>)\<rparr>)
     = (Inr (), (sample_env ())\<lparr>doc := (sample_contract\<lparr>c_status := Ready, c_parties := [], c_units := []\<rparr>)\<rparr>)"
  by (simp add: set_status_run)

end
