(* ===== verification/Calendar.thy ===== *)
theory Calendar
  imports Prelude
begin

text \<open>
  Calendar arithmetic by months. Dates are ordinals as in \<open>Prelude\<close>; month number \<open>12 * y + (m - 1)\<close>
  stands for month \<open>m\<close> of year \<open>y\<close>. The package \<^verbatim>\<open>dateutil\<close> is not part of the
  repository: what the code uses of \<open>relativedelta\<close> is the interface \<open>month_steps\<close>, whose laws are
  its documented behaviour (adding months keeps the day of the month, or takes the last day of a
  shorter month; the difference of two dates counts the whole months between them).
\<close>

section \<open>Months\<close>

definition days_before_year :: "int \<Rightarrow> int" where
  "days_before_year y = (let z = y - 1 in z * 365 + z div 4 - z div 100 + z div 400)"

definition is_leap :: "int \<Rightarrow> bool" where
  "is_leap y \<longleftrightarrow> y mod 4 = 0 \<and> (y mod 100 \<noteq> 0 \<or> y mod 400 = 0)"

definition year_offset :: "int \<Rightarrow> int \<Rightarrow> int" where
  "year_offset y m = days_before_month m + (if m > 2 \<and> is_leap y then 1 else 0)"

text \<open>The ordinal of the first day of a month, and its number of days.\<close>

definition month_start :: "int \<Rightarrow> date" where
  "month_start t = days_before_year (t div 12) + year_offset (t div 12) (t mod 12 + 1) + 1"

definition month_len :: "int \<Rightarrow> int" where
  "month_len t = month_start (t + 1) - month_start t"

lemma div_pred: "0 < k \<Longrightarrow> (y :: int) div k - (y - 1) div k = (if y mod k = 0 then 1 else 0)"
proof -
  assume k: "0 < k"
  show ?thesis
  proof (cases "y mod k = 0")
    case True
    have "y - 1 = k * (y div k - 1) + (k - 1)"
      using div_mult_mod_eq [of y k] True by (simp add: algebra_simps)
    then have "(y - 1) div k = y div k - 1" by (rule int_div_pos_eq) (use k in simp_all)
    then show ?thesis using True by simp
  next
    case False
    have "y - 1 = k * (y div k) + (y mod k - 1)"
      using div_mult_mod_eq [of y k] by (simp add: algebra_simps)
    then have "(y - 1) div k = y div k"
      by (rule int_div_pos_eq)
        (use k False pos_mod_sign [of k y] pos_mod_bound [of k y] in linarith)+
    then show ?thesis using False by simp
  qed
qed

lemma leap_year_length: "days_before_year (y + 1) - days_before_year y = (if is_leap y then 366 else 365)"
proof -
  have d: "days_before_year (y + 1) - days_before_year y = 365 + (y div 4 - (y - 1) div 4)
      - (y div 100 - (y - 1) div 100) + (y div 400 - (y - 1) div 400)"
    by (simp add: days_before_year_def Let_def)
  have "y mod 400 = 0 \<Longrightarrow> y mod 100 = 0" "y mod 100 = 0 \<Longrightarrow> y mod 4 = 0"
    using dvd_trans [of 100 "400 :: int" y] dvd_trans [of 4 "100 :: int" y] by (simp_all add: dvd_eq_mod_eq_0)
  then consider "y mod 400 = 0" "y mod 100 = 0" "y mod 4 = 0"
    | "y mod 400 \<noteq> 0" "y mod 100 = 0" "y mod 4 = 0"
    | "y mod 400 \<noteq> 0" "y mod 100 \<noteq> 0" "y mod 4 = 0"
    | "y mod 400 \<noteq> 0" "y mod 100 \<noteq> 0" "y mod 4 \<noteq> 0"
    by metis
  then show ?thesis
    unfolding d div_pred [OF zero_less_numeral] is_leap_def by cases auto
qed

lemma month_number: "(t :: int) mod 12 \<in> {0, 1, 2, 3, 4, 5, 6, 7, 8, 9, 10, 11}"
proof -
  obtain n where n: "t mod 12 = int n" using zero_le_imp_eq_int [of "t mod 12"] by auto
  then have "n < 12" using pos_mod_bound [of 12 t] by simp
  then have "n \<in> {0, 1, 2, 3, 4, 5, 6, 7, 8, 9, 10, 11}" by (auto simp: less_Suc_eq eval_nat_numeral)
  then show ?thesis using n by auto
qed

lemma days_before_months: "days_before_month 1 = 0" "days_before_month 2 = 31" "days_before_month 3 = 59"
  "days_before_month 4 = 90" "days_before_month 5 = 120" "days_before_month 6 = 151"
  "days_before_month 7 = 181" "days_before_month 8 = 212" "days_before_month 9 = 243"
  "days_before_month 10 = 273" "days_before_month 11 = 304" "days_before_month 12 = 334"
  by (simp_all add: days_before_month.simps)

lemma next_month:
  fixes t :: int
  shows "t mod 12 = 11 \<Longrightarrow> (t + 1) div 12 = t div 12 + 1" "t mod 12 = 11 \<Longrightarrow> (t + 1) mod 12 = 0"
    "t mod 12 \<noteq> 11 \<Longrightarrow> (t + 1) div 12 = t div 12" "t mod 12 \<noteq> 11 \<Longrightarrow> (t + 1) mod 12 = t mod 12 + 1"
proof -
  define q r where "q = t div 12" and "r = t mod 12"
  have t: "t = 12 * q + r" unfolding q_def r_def by simp
  have bounds: "0 \<le> t mod 12" "t mod 12 < 12" by simp_all
  {
    assume "t mod 12 = 11"
    then have e: "t + 1 = 12 * (t div 12 + 1) + 0"
      using t unfolding q_def [symmetric] r_def [symmetric] by simp
    show "(t + 1) div 12 = t div 12 + 1" by (rule int_div_pos_eq [OF e]) simp_all
    show "(t + 1) mod 12 = 0" by (rule int_mod_pos_eq [OF e]) simp_all
  }
  assume "t mod 12 \<noteq> 11"
  then have b: "0 \<le> t mod 12 + 1" "t mod 12 + 1 < 12" using bounds by linarith+
  have e: "t + 1 = 12 * (t div 12) + (t mod 12 + 1)"
    using t unfolding q_def [symmetric] r_def [symmetric] by simp
  show "(t + 1) div 12 = t div 12" by (rule int_div_pos_eq [OF e b])
  show "(t + 1) mod 12 = t mod 12 + 1" by (rule int_mod_pos_eq [OF e b])
qed

lemma month_len_last:
  assumes "t mod 12 = 11"
  shows "month_len t = 31"
  unfolding month_len_def month_start_def next_month(1,2) [OF assms]
  using leap_year_length [of "t div 12"] assms
  by (simp add: year_offset_def days_before_months split: if_splits)

lemma month_len_inside:
  assumes "t mod 12 \<noteq> 11"
  shows "month_len t = year_offset (t div 12) (t mod 12 + 2) - year_offset (t div 12) (t mod 12 + 1)"
  unfolding month_len_def month_start_def next_month(3,4) [OF assms] by (simp add: add.commute)

lemma year_offset_steps:
  "m \<in> {0, 1, 2, 3, 4, 5, 6, 7, 8, 9, 10} \<Longrightarrow> year_offset y (m + 2) - year_offset y (m + 1) \<in> {28, 29, 30, 31}"
  by (auto simp: year_offset_def days_before_months)

lemma month_len_cases: "month_len t \<in> {28, 29, 30, 31}"
proof (cases "t mod 12 = 11")
  case False
  then have "t mod 12 \<in> {0, 1, 2, 3, 4, 5, 6, 7, 8, 9, 10}" using month_number [of t] by auto
  from year_offset_steps [OF this] show ?thesis unfolding month_len_inside [OF False] .
qed (simp add: month_len_last)

lemma month_len_bounds: "28 \<le> month_len t" "month_len t \<le> 31"
  using month_len_cases [of t] by auto

lemma month_start_Suc: "month_start (t + 1) = month_start t + month_len t"
  by (simp add: month_len_def)

lemma month_start_add_nat: "month_start t + 28 * int n \<le> month_start (t + int n)"
proof (induction n)
  case (Suc n)
  have "month_start (t + int (Suc n)) = month_start (t + int n) + month_len (t + int n)"
    using month_start_Suc [of "t + int n"] by (simp add: algebra_simps)
  then show ?case using Suc month_len_bounds(1) [of "t + int n"] by simp
qed simp

lemma month_start_later: "s < t \<Longrightarrow> month_start s + month_len s \<le> month_start t"
  using month_start_add_nat [of "s + 1" "nat (t - s - 1)"] by (simp add: month_start_Suc)

lemma month_start_less: "month_start s < month_start t \<longleftrightarrow> s < t"
  using month_start_later [of s t] month_start_later [of t s] month_len_bounds(1) [of s]
    month_len_bounds(1) [of t]
  by (cases s t rule: linorder_cases) auto

text \<open>The month a day lies in is unique.\<close>

definition in_month :: "int \<Rightarrow> date \<Rightarrow> bool" where
  "in_month t d \<longleftrightarrow> month_start t \<le> d \<and> d < month_start (t + 1)"

lemma in_month_unique: "in_month s d \<Longrightarrow> in_month t d \<Longrightarrow> s = t"
  using month_start_later [of s t] month_start_later [of t s]
  by (cases s t rule: linorder_cases) (auto simp: in_month_def month_start_Suc)

text \<open>
  Finding it: the year is estimated from below and the months are counted up.
\<close>

function count_months :: "int \<Rightarrow> date \<Rightarrow> int" where
  "count_months t d = (if month_start (t + 1) \<le> d then count_months (t + 1) d else t)"
  by pat_completeness auto
termination
proof (relation "measure (\<lambda>(t, d). nat (d - month_start t))")
  fix t d
  assume "month_start (t + 1) \<le> d"
  then show "((t + 1, d), t, d) \<in> measure (\<lambda>(t, d). nat (d - month_start t))"
    using month_len_bounds(1) [of t] by (simp add: month_start_Suc)
qed simp

declare count_months.simps [simp del]

lemma count_months_in_month: "month_start t \<le> d \<Longrightarrow> in_month (count_months t d) d"
  by (induction t d rule: count_months.induct) (subst count_months.simps, auto simp: in_month_def)

definition year_below :: "date \<Rightarrow> int" where
  "year_below d = (d - 1) * 400 div 146097"

lemma year_sum_bound:
  fixes z :: int
  assumes "4 * a \<le> z" and "z < 100 * b + 100" and "400 * c \<le> z" and "146097 * (z + 1) \<le> (d - 1) * 400"
  shows "z * 365 + a - b + c + 1 \<le> d"
proof -
  have 1: "400 * a \<le> 100 * z" using assms(1) by linarith
  have 2: "4 * z \<le> 400 * b + 396" using assms(2) by linarith
  have 3: "146097 * z + 146097 \<le> 400 * d - 400" using assms(4) by (simp add: algebra_simps)
  have "400 * (z * 365 + a - b + c + 1) \<le> 400 * d" using 1 2 3 assms(3) by (simp add: algebra_simps)
  then show ?thesis by simp
qed

lemma div_bounds: "0 < k \<Longrightarrow> k * (z div k) \<le> z" "0 < k \<Longrightarrow> z < k * (z div k) + k" for z k :: int
  using pos_mod_sign [of k z] pos_mod_bound [of k z]
  by (simp_all add: minus_mult_div_eq_mod [symmetric])

lemma year_below_start: "month_start (12 * year_below d) \<le> d"
proof -
  let ?z = "year_below d - 1"
  have "146097 * year_below d \<le> (d - 1) * 400"
    unfolding year_below_def by (rule div_bounds) simp
  then have "146097 * (?z + 1) \<le> (d - 1) * 400" by simp
  from year_sum_bound [OF div_bounds(1) div_bounds(2) div_bounds(1) this]
  have "?z * 365 + ?z div 4 - ?z div 100 + ?z div 400 + 1 \<le> d" by simp
  then show ?thesis
    by (simp add: month_start_def year_offset_def days_before_months days_before_year_def Let_def)
qed

definition month_index :: "date \<Rightarrow> int" where
  "month_index d = count_months (12 * year_below d) d"

lemma month_index_in: "in_month (month_index d) d"
  unfolding month_index_def by (rule count_months_in_month [OF year_below_start])

lemma month_index_eq: "in_month t d \<Longrightarrow> month_index d = t"
  using in_month_unique month_index_in by blast

text \<open>The day of the month, from 0.\<close>

definition day_index :: "date \<Rightarrow> int" where
  "day_index d = d - month_start (month_index d)"

lemma day_index_bounds: "0 \<le> day_index d" "day_index d < month_len (month_index d)"
  using month_index_in [of d] by (auto simp: day_index_def in_month_def month_start_Suc)

lemma date_of_indices: "d = month_start (month_index d) + day_index d"
  by (simp add: day_index_def)

lemma place_in_month:
  assumes "0 \<le> i" and "i < month_len t"
  shows "month_index (month_start t + i) = t" and "day_index (month_start t + i) = i"
proof -
  have "in_month t (month_start t + i)" using assms by (simp add: in_month_def month_start_Suc)
  then show "month_index (month_start t + i) = t" by (rule month_index_eq)
  then show "day_index (month_start t + i) = i" by (simp add: day_index_def)
qed

section \<open>Adding months\<close>

locale month_steps =
  fixes add_months :: "int \<Rightarrow> date \<Rightarrow> date"
    and months_between :: "date \<Rightarrow> date \<Rightarrow> int"
  assumes add_months_clamps: "add_months n d =
      month_start (month_index d + n) + min (day_index d) (month_len (month_index d + n) - 1)"
    and months_between_floor: "a \<le> b \<Longrightarrow> 0 \<le> months_between b a
      \<and> add_months (months_between b a) a \<le> b \<and> b < add_months (months_between b a + 1) a"
begin

lemma add_indices:
  "month_index (add_months n d) = month_index d + n"
  "day_index (add_months n d) = min (day_index d) (month_len (month_index d + n) - 1)"
  using day_index_bounds(1) [of d] month_len_bounds(1) [of "month_index d + n"]
  by (simp_all add: add_months_clamps place_in_month)

lemma add_zero [simp]: "add_months 0 d = d"
  using day_index_bounds [of d] date_of_indices [of d] by (simp add: add_months_clamps)

lemma add_strict: "m < n \<Longrightarrow> add_months m d < add_months n d"
  using month_start_later [of "month_index d + m" "month_index d + n"] day_index_bounds(1) [of d]
    month_len_bounds(1) [of "month_index d + n"]
  by (simp add: add_months_clamps min_def split: if_splits)

lemma add_later: "0 < n \<Longrightarrow> d < add_months n d"
  using add_strict [of 0 n d] by simp

lemma add_less_iff: "add_months m d < add_months n d \<longleftrightarrow> m < n"
  using add_strict [of m n d] add_strict [of n m d] by (cases m n rule: linorder_cases) auto

lemma add_le_iff: "add_months m d \<le> add_months n d \<longleftrightarrow> m \<le> n"
  using add_less_iff [of n d m] by (simp add: not_less [symmetric])

text \<open>Steps from a day every month has can be added up.\<close>

lemma add_add: "day_index d \<le> 27 \<Longrightarrow> add_months m (add_months n d) = add_months (n + m) d"
  using month_len_bounds(1) [of "month_index d + n"] month_len_bounds(1) [of "month_index d + (n + m)"]
  by (simp add: add_months_clamps [of m] add_indices add_months_clamps [of "n + m"] add.assoc)

lemma add_regular: "day_index d \<le> 27 \<Longrightarrow> day_index (add_months n d) = day_index d"
  using month_len_bounds(1) [of "month_index d + n"] by (simp add: add_indices)

text \<open>The difference of a date and the same date some months later.\<close>

lemma between_add: "0 \<le> n \<Longrightarrow> months_between (add_months n d) d = n"
proof -
  assume "0 \<le> n"
  then have "d \<le> add_months n d" using add_le_iff [of 0 d n] by simp
  from months_between_floor [OF this] show ?thesis by (auto simp: add_le_iff add_less_iff)
qed

end

text \<open>The interface on the civil calendar.\<close>

definition civil_add_months :: "int \<Rightarrow> date \<Rightarrow> date" where
  "civil_add_months n d =
     (let t = month_index d + n in month_start t + min (day_index d) (month_len t - 1))"

definition civil_months_between :: "date \<Rightarrow> date \<Rightarrow> int" where
  "civil_months_between b a =
     (let n = month_index b - month_index a in if civil_add_months n a \<le> b then n else n - 1)"

lemma civil_start: "month_start (month_index a + n) \<le> civil_add_months n a"
  "civil_add_months n a < month_start (month_index a + n + 1)"
  using day_index_bounds(1) [of a] month_len_bounds(1) [of "month_index a + n"]
  by (simp_all add: civil_add_months_def Let_def month_start_Suc min_def)

lemma month_index_mono: "a \<le> b \<Longrightarrow> month_index a \<le> month_index b"
  using month_index_in [of a] month_index_in [of b] month_start_later [of "month_index b" "month_index a"]
  by (cases "month_index a \<le> month_index b") (auto simp: in_month_def month_start_Suc)

interpretation civil: month_steps civil_add_months civil_months_between
proof (unfold_locales, goal_cases)
  case (1 n d)
  show ?case by (simp add: civil_add_months_def Let_def)
next
  case (2 a b)
  let ?n = "month_index b - month_index a"
  have b: "month_start (month_index b) \<le> b" "b < month_start (month_index b + 1)"
    using month_index_in [of b] by (auto simp: in_month_def)
  have n: "0 \<le> ?n" using month_index_mono [OF 2] by simp
  have up: "b < civil_add_months (?n + 1) a" using civil_start(1) [where a = a and n = "?n + 1"] b by (simp add: add.commute)
  have down: "civil_add_months (?n - 1) a \<le> b"
    using civil_start(2) [where a = a and n = "?n - 1"] b by simp
  have zero: "civil_add_months 0 a = a"
    using day_index_bounds [of a] date_of_indices [of a] by (simp add: civil_add_months_def)
  show ?case
  proof (cases "civil_add_months ?n a \<le> b")
    case True
    then show ?thesis using n up by (simp add: civil_months_between_def Let_def)
  next
    case False
    then have "?n \<noteq> 0" using zero 2 by (cases "?n = 0") auto
    then show ?thesis using False n down by (simp add: civil_months_between_def Let_def)
  qed
qed

end
