(* ===== verification/Tenancy.thy ===== *)
theory Tenancy
  imports EjarErrors Calendar
begin

text \<open>
  Tenancies: the data model and the state machine of
  \<^verbatim>\<open>sa_property_base/models/property_tenancy.py\<close>, the fields the rental cycle adds to it,
  and the renewal of \<^verbatim>\<open>sa_rental_cycle/models/sa_tenancy_renewal.py\<close>. Amounts (floats in
  the code) are rationals. An operation works on the database of properties and tenancies; the ORM
  inserts a record before its constraints are checked, so a refused \<open>create\<close> that the caller
  catches leaves its row.
\<close>

section \<open>Records\<close>

datatype payment_state = Pending | Overdue | Paid | Partial | Cancelled
datatype payment_type = Rent | Deposit | Penalty | Other

text \<open>An invoice of the accounting module, as far as the rental code reads it.\<close>

record invoice =
  inv_state :: string
  inv_payment_state :: string
  inv_total :: rat

record rent_payment =
  rp_due :: date
  rp_amount :: rat
  rp_type :: payment_type
  rp_state :: payment_state
  rp_paid_on :: "date option"
  rp_method :: char_field
  rp_amount_paid :: rat
  rp_sadad :: char_field
  rp_cheque :: char_field
  rp_bank_ref :: char_field
  rp_invoice :: "invoice option"
  rp_receipts :: "rat list"

datatype property_state = Available | OnRent | Sold

record rental_property =
  pp_state :: property_state
  pp_tenant :: "int option"
  pp_freeze :: bool
  pp_last_rent :: rat
  pp_deed :: char_field

datatype tenancy_state = TDraft | TConfirm | TRunning | TClosed | TCancelled
datatype cycle_state = CDraft | CConfirmed | CEjarSent | CActive | CExpiring | CEnded | CRenewed
datatype deposit_state = NotPaid | Held | PartiallyReturned | Returned | Forfeited

record tenancy =
  t_property :: int
  t_partner :: int
  t_start :: date
  t_end :: "date option"
  t_duration :: int
  t_in_years :: bool
  t_rent :: rat
  t_deposit :: rat
  t_method :: char_field
  t_state :: tenancy_state
  t_cycle :: cycle_state
  t_contract_type :: string
  t_schedule :: string
  t_tenant_nid :: char_field
  t_auto_renew :: bool
  t_renew_months :: int
  t_increase :: rat
  t_notice :: int
  t_renewed_to :: "int option"
  t_renewed_from :: "int option"
  t_deposit_paid_on :: "date option"
  t_deposit_state :: deposit_state
  t_returned :: rat
  t_forfeited :: rat
  t_payments :: "rent_payment list"

record rental_db =
  properties :: "int \<Rightarrow> rental_property"
  tenancies :: "int \<rightharpoonup> tenancy"
  next_tenancy :: int
  now_date :: date
  posted :: "(int \<times> string) list"

type_synonym 'a rop = "(rental_db, exn, 'a) opn"

definition refuse :: "string \<Rightarrow> 'a rop" where
  "refuse t = raise (UserError (Text t))"

definition on_tenancy :: "int \<Rightarrow> (tenancy \<Rightarrow> 'a rop) \<Rightarrow> 'a rop" where
  "on_tenancy n f s = (case tenancies s n of None \<Rightarrow> (Inl (Py KeyError), s) | Some t \<Rightarrow> f t s)"

definition upd_tenancy :: "int \<Rightarrow> (tenancy \<Rightarrow> tenancy) \<Rightarrow> unit rop" where
  "upd_tenancy n g = modify (\<lambda>s. s\<lparr>tenancies := (tenancies s)(n := map_option g (tenancies s n))\<rparr>)"

definition upd_property :: "int \<Rightarrow> (rental_property \<Rightarrow> rental_property) \<Rightarrow> unit rop" where
  "upd_property p g = modify (\<lambda>s. s\<lparr>properties := (properties s)(p := g (properties s p))\<rparr>)"

definition post_note :: "int \<Rightarrow> string \<Rightarrow> unit rop" where
  "post_note n t = modify (\<lambda>s. s\<lparr>posted := posted s @ [(n, t)]\<rparr>)"

section \<open>Dates\<close>

text \<open>The onchange of the form, with \<open>relativedelta\<close> as the argument \<open>add_months\<close>.\<close>

definition onchange_end_date :: "(int \<Rightarrow> date \<Rightarrow> date) \<Rightarrow> tenancy \<Rightarrow> tenancy" where
  "onchange_end_date add_months t =
     (if t_duration t = 0 then t
      else if t_in_years t then t\<lparr>t_end := Some (add_months (12 * t_duration t) (t_start t))\<rparr>
      else t\<lparr>t_end := Some (add_months (t_duration t) (t_start t))\<rparr>)"

definition check_tenancy_dates :: "tenancy \<Rightarrow> bool" where
  "check_tenancy_dates t = (case t_end t of None \<Rightarrow> True | Some e \<Rightarrow> \<not> e < t_start t)"

section \<open>State machine\<close>

definition confirm_tenancy :: "int \<Rightarrow> unit rop" where
  "confirm_tenancy n = on_tenancy n (\<lambda>t.
     if t_state t \<noteq> TDraft then refuse ''only a draft can be confirmed''
     else if t_end t = None then refuse ''the dates are missing''
     else upd_tenancy n (\<lambda>t. t\<lparr>t_state := TConfirm\<rparr>))"

definition start_tenancy :: "int \<Rightarrow> unit rop" where
  "start_tenancy n = on_tenancy n (\<lambda>t.
     if t_state t \<notin> {TConfirm, TDraft} then refuse ''only a confirmed tenancy can be started''
     else
       andthen (upd_tenancy n (\<lambda>t. t\<lparr>t_state := TRunning\<rparr>))
       (\<lambda>s. (if pp_state (properties s (t_property t)) = Available
             then upd_property (t_property t) (\<lambda>p. p\<lparr>pp_state := OnRent, pp_tenant := Some (t_partner t)\<rparr>)
             else ret ()) s))"

definition free_property :: "int \<Rightarrow> unit rop" where
  "free_property p s =
     (if pp_state (properties s p) = OnRent
      then upd_property p (\<lambda>p. p\<lparr>pp_state := Available, pp_tenant := None\<rparr>)
      else ret ()) s"

definition close_tenancy :: "int \<Rightarrow> unit rop" where
  "close_tenancy n = on_tenancy n (\<lambda>t.
     andthen (upd_tenancy n (\<lambda>t. t\<lparr>t_state := TClosed\<rparr>)) (free_property (t_property t)))"

definition cancel_tenancy :: "int \<Rightarrow> unit rop" where
  "cancel_tenancy n = on_tenancy n (\<lambda>t.
     andthen (upd_tenancy n (\<lambda>t. t\<lparr>t_state := TCancelled\<rparr>)) (free_property (t_property t)))"

definition draft_tenancy :: "int \<Rightarrow> unit rop" where
  "draft_tenancy n = upd_tenancy n (\<lambda>t. t\<lparr>t_state := TDraft\<rparr>)"

section \<open>Renewal\<close>

text \<open>The constraint on the rent increase: no increase on a property under the rent freeze.\<close>

definition check_rent_freeze :: "rental_property \<Rightarrow> tenancy \<Rightarrow> bool" where
  "check_rent_freeze p t \<longleftrightarrow> \<not> (t_increase t > 0 \<and> pp_freeze p)"

text \<open>The warning of the form: rent above the last registered one, under the freeze.\<close>

definition rent_freeze_flag :: "rental_property \<Rightarrow> tenancy \<Rightarrow> bool" where
  "rent_freeze_flag p t \<longleftrightarrow> pp_freeze p \<and> pp_last_rent p \<noteq> 0 \<and> t_rent t > pp_last_rent p"

definition or_int :: "int \<Rightarrow> int \<Rightarrow> int" where
  "or_int a b = (if a \<noteq> 0 then a else b)"

text \<open>
  The values of the new tenancy; what is not copied has its default. The start is
  \<open>(new_start or end + 1) if end else today\<close>.
\<close>

definition build_renewal ::
  "(int \<Rightarrow> date \<Rightarrow> date) \<Rightarrow> date \<Rightarrow> rental_property \<Rightarrow> int \<Rightarrow> tenancy
   \<Rightarrow> rat option \<Rightarrow> int \<Rightarrow> date option \<Rightarrow> tenancy" where
  "build_renewal add_months today p n t new_rent period_months new_start =
     (let period = or_int period_months (or_int (t_renew_months t) 12);
          start = (case t_end t of None \<Rightarrow> today
                   | Some e \<Rightarrow> (case new_start of Some d \<Rightarrow> d | None \<Rightarrow> e + 1));
          increase = (if pp_freeze p then 0 else t_increase t);
          rent = (case new_rent of Some r \<Rightarrow> r | None \<Rightarrow> t_rent t * (1 + increase / 100))
      in \<lparr>t_property = t_property t, t_partner = t_partner t, t_start = start,
          t_end = Some (add_months period start - 1), t_duration = period, t_in_years = False,
          t_rent = rent, t_deposit = t_deposit t, t_method = t_method t, t_state = TDraft,
          t_cycle = CDraft, t_contract_type = ''residential'', t_schedule = ''annual'',
          t_tenant_nid = None, t_auto_renew = t_auto_renew t, t_renew_months = t_renew_months t,
          t_increase = t_increase t, t_notice = t_notice t, t_renewed_to = None,
          t_renewed_from = Some n, t_deposit_paid_on = None, t_deposit_state = NotPaid,
          t_returned = 0, t_forfeited = 0, t_payments = []\<rparr>)"

text \<open>\<open>create\<close>: the row is inserted, then the constraints are checked.\<close>

definition create_tenancy :: "tenancy \<Rightarrow> int rop" where
  "create_tenancy t s =
     (let n = next_tenancy s;
          s' = s\<lparr>tenancies := (tenancies s)(n \<mapsto> t), next_tenancy := n + 1\<rparr> in
      if \<not> check_tenancy_dates t then (Inl (OrmValidation (Text ''the end date is before the start date'')), s')
      else if \<not> check_rent_freeze (properties s (t_property t)) t
      then (Inl (UserError (Text ''no rent increase under the freeze'')), s')
      else (Inr n, s'))"

definition do_renewal ::
  "(int \<Rightarrow> date \<Rightarrow> date) \<Rightarrow> int \<Rightarrow> rat option \<Rightarrow> int \<Rightarrow> date option \<Rightarrow> int rop" where
  "do_renewal add_months n new_rent period_months new_start = on_tenancy n (\<lambda>t.
     if t_renewed_to t \<noteq> None then refuse ''already renewed''
     else (\<lambda>s.
       bind (create_tenancy (build_renewal add_months (now_date s) (properties s (t_property t)) n t
              new_rent period_months new_start)) (\<lambda>m.
       andthen (upd_tenancy n (\<lambda>t. t\<lparr>t_renewed_to := Some m, t_cycle := CRenewed\<rparr>))
       (andthen (post_note n ''renewed'')
       (andthen (post_note m ''created by renewal'') (ret m)))) s))"

definition renewal_candidate :: "tenancy \<Rightarrow> bool" where
  "renewal_candidate t \<longleftrightarrow> t_state t = TRunning \<and> t_auto_renew t \<and> t_renewed_to t = None \<and> t_end t \<noteq> None"

definition renewal_due :: "date \<Rightarrow> tenancy \<Rightarrow> bool" where
  "renewal_due today t =
     (let days_left = the (t_end t) - today in
      \<not> (days_left > or_int (t_notice t) 30 \<or> days_left < 0))"

definition renew_if_due :: "(int \<Rightarrow> date \<Rightarrow> date) \<Rightarrow> int \<Rightarrow> unit rop" where
  "renew_if_due add_months n = on_tenancy n (\<lambda>t s.
     if \<not> renewal_due (now_date s) t then (Inr (), s)
     else catch (andthen (do_renewal add_months n None 0 None) (ret ()))
            (\<lambda>_. post_note n ''automatic renewal failed'') s)"

text \<open>The order of the model: latest start first, then latest record.\<close>

definition newest_first :: "rental_db \<Rightarrow> int list" where
  "newest_first s =
     rev (sort_key (\<lambda>n. case tenancies s n of None \<Rightarrow> 0 | Some t \<Rightarrow> t_start t) [1..next_tenancy s - 1])"

definition cron_auto_renew :: "(int \<Rightarrow> date \<Rightarrow> date) \<Rightarrow> unit rop" where
  "cron_auto_renew add_months s =
     for_each (renew_if_due add_months)
       (filter (\<lambda>n. case tenancies s n of None \<Rightarrow> False | Some t \<Rightarrow> renewal_candidate t)
         (newest_first s)) s"

text \<open>The wizard: the rent proposed with the default increase can be edited before confirming.\<close>

record renewal_wizard =
  rw_start :: "date option"
  rw_period :: int
  rw_increase :: rat
  rw_rent :: rat
  rw_notes :: char_field

definition default_renewal_wizard :: "date \<Rightarrow> rental_property \<Rightarrow> tenancy \<Rightarrow> renewal_wizard" where
  "default_renewal_wizard today p t =
     (let pct = (if pp_freeze p then 0 else t_increase t) in
      \<lparr>rw_start = Some (case t_end t of Some e \<Rightarrow> e + 1 | None \<Rightarrow> today),
       rw_period = or_int (t_renew_months t) 12, rw_increase = pct,
       rw_rent = t_rent t * (1 + pct / 100), rw_notes = None\<rparr>)"

definition action_renew :: "(int \<Rightarrow> date \<Rightarrow> date) \<Rightarrow> int \<Rightarrow> renewal_wizard \<Rightarrow> int rop" where
  "action_renew add_months n w = on_tenancy n (\<lambda>t s.
     (if pp_freeze (properties s (t_property t)) \<and> rw_increase w > 0
      then refuse ''no rent increase under the freeze''
      else if rw_rent w \<le> 0 then refuse ''the new rent is not valid''
      else if rw_start w = None \<or> rw_period w = 0 then refuse ''start date and period are missing''
      else
        bind (do_renewal add_months n (Some (rw_rent w)) (rw_period w) (rw_start w)) (\<lambda>m.
          andthen (if is_set (rw_notes w) then post_note m (the (rw_notes w)) else ret ()) (ret m))) s)"


section \<open>Evaluation\<close>

lemma on_tenancy_run [op_simps]: "tenancies s n = Some t \<Longrightarrow> on_tenancy n f s = f t s"
  by (simp add: on_tenancy_def)

lemma updates_run [op_simps]:
  "upd_tenancy n g s = (Inr (), s\<lparr>tenancies := (tenancies s)(n := map_option g (tenancies s n))\<rparr>)"
  "upd_property p h s = (Inr (), s\<lparr>properties := (properties s)(p := h (properties s p))\<rparr>)"
  "post_note n u s = (Inr (), s\<lparr>posted := posted s @ [(n, u)]\<rparr>)"
  "refuse u s = (Inl (UserError (Text u)), s)"
  by (simp_all add: upd_tenancy_def upd_property_def post_note_def refuse_def op_simps)

lemma free_property_run:
  "free_property p s = (Inr (), s\<lparr>properties := (properties s)(p :=
     (if pp_state (properties s p) = OnRent then (properties s p)\<lparr>pp_state := Available, pp_tenant := None\<rparr>
      else properties s p))\<rparr>)"
  by (simp add: free_property_def op_simps)

lemma close_run:
  assumes "tenancies s n = Some t"
  shows "close_tenancy n s = (Inr (), snd (free_property (t_property t)
     (s\<lparr>tenancies := (tenancies s)(n \<mapsto> t\<lparr>t_state := TClosed\<rparr>)\<rparr>)))"
  using assms by (simp add: close_tenancy_def op_simps free_property_run andthen_def bind_def)

lemma start_run:
  assumes "tenancies s n = Some t" and "t_state t \<in> {TConfirm, TDraft}"
  shows "start_tenancy n s = (Inr (), s\<lparr>tenancies := (tenancies s)(n \<mapsto> t\<lparr>t_state := TRunning\<rparr>),
     properties := (properties s)(t_property t :=
       (if pp_state (properties s (t_property t)) = Available
        then (properties s (t_property t))\<lparr>pp_state := OnRent, pp_tenant := Some (t_partner t)\<rparr>
        else properties s (t_property t)))\<rparr>)"
  using assms by (auto simp: start_tenancy_def op_simps andthen_def bind_def)

section \<open>One property, two tenancies\<close>

text \<open>
  Nothing stops two tenancies of one property from running together, and then closing
  either gives the property back as available, without a tenant, while the other one still runs.
\<close>

theorem shared_property_freed:
  assumes "a \<noteq> b" and "tenancies s a = Some ta" and "tenancies s b = Some tb"
    and "t_property ta = p" and "t_property tb = p" and "pp_state (properties s p) = Available"
    and "t_state ta \<in> {TDraft, TConfirm}" and "t_state tb \<in> {TDraft, TConfirm}"
  shows "case andthen (start_tenancy a) (andthen (start_tenancy b) (close_tenancy a)) s of (r, s') \<Rightarrow>
    r = Inr () \<and> map_option t_state (tenancies s' a) = Some TClosed
    \<and> map_option t_state (tenancies s' b) = Some TRunning
    \<and> pp_state (properties s' p) = Available \<and> pp_tenant (properties s' p) = None"
proof -
  obtain s1 where 1: "start_tenancy a s = (Inr (), s1)" "tenancies s1 a = Some (ta\<lparr>t_state := TRunning\<rparr>)"
    "tenancies s1 b = Some tb" "pp_state (properties s1 p) = OnRent"
    using assms start_run [OF assms(2)] by auto
  obtain s2 where 2: "start_tenancy b s1 = (Inr (), s2)" "tenancies s2 a = Some (ta\<lparr>t_state := TRunning\<rparr>)"
    "tenancies s2 b = Some (tb\<lparr>t_state := TRunning\<rparr>)" "pp_state (properties s2 p) = OnRent"
    using assms 1 start_run [OF 1(3)] by auto
  show ?thesis
    using assms(1,4) close_run [OF 2(2)] 2
    by (simp add: andthen_def bind_def 1(1) free_property_run)
qed

definition sample_tenancy :: tenancy where
  "sample_tenancy = \<lparr>t_property = 1, t_partner = 5, t_start = 738886, t_end = Some 739251, t_duration = 12,
     t_in_years = False, t_rent = 1000, t_deposit = 2000, t_method = Some ''cash'', t_state = TDraft,
     t_cycle = CDraft, t_contract_type = ''residential'', t_schedule = ''monthly'', t_tenant_nid = None,
     t_auto_renew = True, t_renew_months = 12, t_increase = 5, t_notice = 30, t_renewed_to = None,
     t_renewed_from = None, t_deposit_paid_on = None, t_deposit_state = Held, t_returned = 0,
     t_forfeited = 0, t_payments = []\<rparr>"

definition sample_db :: rental_db where
  "sample_db = \<lparr>properties = (\<lambda>_. \<lparr>pp_state = Available, pp_tenant = None, pp_freeze = True,
       pp_last_rent = 0, pp_deed = None\<rparr>),
     tenancies = [1 \<mapsto> sample_tenancy, 2 \<mapsto> sample_tenancy\<lparr>t_partner := 6\<rparr>], next_tenancy = 3,
     now_date = 739240, posted = []\<rparr>"

theorem shared_property_freed_witness:
  "pp_state (properties (snd (andthen (start_tenancy 1) (andthen (start_tenancy 2) (close_tenancy 1))
     sample_db)) 1) = Available"
  using shared_property_freed [of 1 2 sample_db sample_tenancy "sample_tenancy\<lparr>t_partner := 6\<rparr>" 1]
  by (simp add: sample_db_def sample_tenancy_def split_beta)

section \<open>Properties of the renewal\<close>

lemma create_run:
  assumes "check_tenancy_dates t" and "check_rent_freeze (properties s (t_property t)) t"
  shows "create_tenancy t s = (Inr (next_tenancy s),
     s\<lparr>tenancies := (tenancies s)(next_tenancy s \<mapsto> t), next_tenancy := next_tenancy s + 1\<rparr>)"
  using assms by (simp add: create_tenancy_def Let_def)

lemma renewal_dates:
  assumes "month_steps add_months between" and "0 < or_int period (or_int (t_renew_months t) 12)"
  shows "check_tenancy_dates (build_renewal add_months today p n t new_rent period new_start)"
proof -
  have "d \<le> add_months (or_int period (or_int (t_renew_months t) 12)) d - 1" for d
    using month_steps.add_later [OF assms, of d] by simp
  then show ?thesis by (simp add: check_tenancy_dates_def build_renewal_def Let_def not_less)
qed

lemma do_renewal_run:
  assumes "tenancies s n = Some t" and "t_renewed_to t = None" and "n \<noteq> next_tenancy s"
    and "month_steps add_months between" and "0 < or_int period (or_int (t_renew_months t) 12)"
    and "\<not> (t_increase t > 0 \<and> pp_freeze (properties s (t_property t)))"
  shows "do_renewal add_months n new_rent period new_start s = (Inr (next_tenancy s),
     s\<lparr>tenancies := (tenancies s)
         (next_tenancy s \<mapsto> build_renewal add_months (now_date s) (properties s (t_property t)) n t
            new_rent period new_start,
          n \<mapsto> t\<lparr>t_renewed_to := Some (next_tenancy s), t_cycle := CRenewed\<rparr>),
       next_tenancy := next_tenancy s + 1,
       posted := posted s @ [(n, ''renewed''), (next_tenancy s, ''created by renewal'')]\<rparr>)"
proof -
  let ?b = "build_renewal add_months (now_date s) (properties s (t_property t)) n t new_rent period new_start"
  have "t_property ?b = t_property t" "t_increase ?b = t_increase t"
    by (simp_all add: build_renewal_def Let_def)
  then have freeze: "check_rent_freeze (properties s (t_property ?b)) ?b"
    using assms(6) by (simp add: check_rent_freeze_def)
  show ?thesis
    using assms(1-3) create_run [OF renewal_dates [OF assms(4,5)] freeze]
    by (simp add: do_renewal_def op_simps andthen_def bind_def)
qed

text \<open>
  Property C18. A renewal without a rent freeze in the way continues the tenancy: the new one starts the
  day after the old one ends and runs for the whole period, at the rent raised by the agreed
  percentage; the two are linked, everyone else's tenancy is untouched, and the tenancy
  cannot be renewed again.
\<close>

theorem renewal_continues:
  assumes "month_steps add_months between" and "tenancies s n = Some t" and "n < next_tenancy s"
    and "t_renewed_to t = None" and "t_end t = Some e" and "0 < t_renew_months t"
    and "\<not> pp_freeze (properties s (t_property t))"
  shows "case do_renewal add_months n None 0 None s of (r, s') \<Rightarrow>
    r = Inr (next_tenancy s)
    \<and> (\<exists>new. tenancies s' (next_tenancy s) = Some new \<and> t_start new = e + 1
        \<and> t_end new = Some (add_months (t_renew_months t) (e + 1) - 1)
        \<and> t_rent new = t_rent t * (1 + t_increase t / 100) \<and> t_renewed_from new = Some n
        \<and> t_property new = t_property t \<and> t_state new = TDraft)
    \<and> (\<exists>old. tenancies s' n = Some old \<and> t_renewed_to old = Some (next_tenancy s))
    \<and> (\<forall>k. k = n \<or> k = next_tenancy s \<or> tenancies s' k = tenancies s k)
    \<and> do_renewal add_months n None 0 None s' = (Inl (UserError (Text ''already renewed'')), s')"
proof -
  have "0 < or_int 0 (or_int (t_renew_months t) 12)" using assms(6) by (simp add: or_int_def)
  from do_renewal_run [OF assms(2,4) _ assms(1) this] assms(3,7)
  have run: "do_renewal add_months n None 0 None s = (Inr (next_tenancy s),
     s\<lparr>tenancies := (tenancies s)
         (next_tenancy s \<mapsto> build_renewal add_months (now_date s) (properties s (t_property t)) n t None 0 None,
          n \<mapsto> t\<lparr>t_renewed_to := Some (next_tenancy s), t_cycle := CRenewed\<rparr>),
       next_tenancy := next_tenancy s + 1,
       posted := posted s @ [(n, ''renewed''), (next_tenancy s, ''created by renewal'')]\<rparr>)"
    by simp
  show ?thesis
    unfolding run using assms(3,5,6,7)
    by (auto simp: build_renewal_def Let_def or_int_def do_renewal_def op_simps)
qed

theorem renewal_continues_witness:
  "fst (do_renewal civil_add_months 1 None 0 None
     (sample_db\<lparr>properties := (\<lambda>_. \<lparr>pp_state = OnRent, pp_tenant = None, pp_freeze = False, pp_last_rent = 0,
       pp_deed = None\<rparr>)\<rparr>)) = Inr 3"
  using renewal_continues [OF civil.month_steps_axioms,
    of "sample_db\<lparr>properties := (\<lambda>_. \<lparr>pp_state = OnRent, pp_tenant = None, pp_freeze = False, pp_last_rent = 0,
       pp_deed = None\<rparr>)\<rparr>" 1 sample_tenancy 739251]
  by (simp add: sample_db_def sample_tenancy_def split_beta)

text \<open>A renewal the rent freeze refuses.\<close>

lemma frozen_renewal_run:
  assumes "tenancies s n = Some t" and "t_renewed_to t = None"
    and "month_steps add_months between" and "0 < or_int 0 (or_int (t_renew_months t) 12)"
    and "t_increase t > 0" and "pp_freeze (properties s (t_property t))"
  shows "do_renewal add_months n None 0 None s = (Inl (UserError (Text ''no rent increase under the freeze'')),
     s\<lparr>tenancies := (tenancies s)(next_tenancy s \<mapsto>
         build_renewal add_months (now_date s) (properties s (t_property t)) n t None 0 None),
       next_tenancy := next_tenancy s + 1\<rparr>)"
proof -
  let ?b = "build_renewal add_months (now_date s) (properties s (t_property t)) n t None 0 None"
  have "t_property ?b = t_property t" "t_increase ?b = t_increase t"
    by (simp_all add: build_renewal_def Let_def)
  then have "\<not> check_rent_freeze (properties s (t_property ?b)) ?b"
    using assms(5,6) by (simp add: check_rent_freeze_def)
  then show ?thesis
    using assms(1,2) renewal_dates [OF assms(3,4)]
    by (simp add: do_renewal_def op_simps andthen_def bind_def create_tenancy_def Let_def)
qed

text \<open>
  Under the rent freeze an automatic renewal with a configured increase never succeeds,
  although the renewal computes the rent without it: the copied percentage breaks the constraint of the new
  tenancy. Each daily round leaves the refused row behind, and the tenancy due as before.
\<close>

theorem frozen_renewal_accumulates:
  assumes "month_steps add_months between" and "tenancies s n = Some t" and "n < next_tenancy s"
    and "renewal_candidate t" and "renewal_due (now_date s) t" and "0 < t_renew_months t"
    and "0 < t_increase t" and "pp_freeze (properties s (t_property t))"
  shows "case renew_if_due add_months n s of (r, s') \<Rightarrow>
    r = Inr () \<and> tenancies s' n = Some t \<and> next_tenancy s' = next_tenancy s + 1
    \<and> (\<exists>new. tenancies s' (next_tenancy s) = Some new \<and> t_renewed_from new = Some n
        \<and> t_rent new = t_rent t \<and> t_state new = TDraft)"
proof -
  have "0 < or_int 0 (or_int (t_renew_months t) 12)" using assms(6) by (simp add: or_int_def)
  moreover have "t_renewed_to t = None" using assms(4) by (simp add: renewal_candidate_def)
  ultimately have run: "do_renewal add_months n None 0 None s =
     (Inl (UserError (Text ''no rent increase under the freeze'')),
      s\<lparr>tenancies := (tenancies s)(next_tenancy s \<mapsto>
         build_renewal add_months (now_date s) (properties s (t_property t)) n t None 0 None),
       next_tenancy := next_tenancy s + 1\<rparr>)"
    using frozen_renewal_run [OF assms(2) _ assms(1) _ assms(7,8)] by blast
  show ?thesis
    using assms(2,3,5,8)
    by (simp add: renew_if_due_def op_simps catch_def andthen_def bind_def run)
      (simp add: build_renewal_def Let_def)
qed

theorem frozen_renewal_accumulates_witness:
  "next_tenancy (snd (renew_if_due civil_add_months 1
     (sample_db\<lparr>tenancies := [1 \<mapsto> sample_tenancy\<lparr>t_state := TRunning\<rparr>]\<rparr>))) = 4"
  using frozen_renewal_accumulates [OF civil.month_steps_axioms,
    of "sample_db\<lparr>tenancies := [1 \<mapsto> sample_tenancy\<lparr>t_state := TRunning\<rparr>]\<rparr>" 1
       "sample_tenancy\<lparr>t_state := TRunning\<rparr>"]
  by (simp add: sample_db_def sample_tenancy_def split_beta renewal_candidate_def renewal_due_def or_int_def)

text \<open>
  The wizard checks the freeze on the percentage only: with the percentage at zero any rent
  entered is accepted for a property under the freeze, and the new tenancy is one the form would warn of.
\<close>

theorem wizard_bypasses_freeze:
  assumes "month_steps add_months between" and "tenancies s n = Some t" and "n < next_tenancy s"
    and "t_renewed_to t = None" and "pp_freeze (properties s (t_property t))" and "t_increase t = 0"
    and "rw_increase w = 0" and "rw_start w = Some d" and "0 < rw_period w"
    and "0 < pp_last_rent (properties s (t_property t))"
    and "pp_last_rent (properties s (t_property t)) < rw_rent w"
  shows "case action_renew add_months n w s of (r, s') \<Rightarrow>
    r = Inr (next_tenancy s) \<and> properties s' = properties s
    \<and> (\<exists>new. tenancies s' (next_tenancy s) = Some new \<and> t_rent new = rw_rent w
        \<and> t_renewed_from new = Some n \<and> rent_freeze_flag (properties s' (t_property new)) new)"
proof -
  have "0 < or_int (rw_period w) (or_int (t_renew_months t) 12)" using assms(9) by (simp add: or_int_def)
  from do_renewal_run [OF assms(2,4) _ assms(1) this] assms(3,6)
  have run: "do_renewal add_months n (Some (rw_rent w)) (rw_period w) (rw_start w) s = (Inr (next_tenancy s),
     s\<lparr>tenancies := (tenancies s)
         (next_tenancy s \<mapsto> build_renewal add_months (now_date s) (properties s (t_property t)) n t
            (Some (rw_rent w)) (rw_period w) (rw_start w),
          n \<mapsto> t\<lparr>t_renewed_to := Some (next_tenancy s), t_cycle := CRenewed\<rparr>),
       next_tenancy := next_tenancy s + 1,
       posted := posted s @ [(n, ''renewed''), (next_tenancy s, ''created by renewal'')]\<rparr>)"
    by simp
  have "0 < rw_rent w" using assms(10,11) by simp
  then show ?thesis
    using assms(2,3,5,7-11)
    by (cases "is_set (rw_notes w)")
      (simp_all add: action_renew_def op_simps andthen_def bind_def run [unfolded assms(8)]
        build_renewal_def Let_def rent_freeze_flag_def)
qed

theorem wizard_bypasses_freeze_witness:
  "fst (action_renew civil_add_months 1 \<lparr>rw_start = Some 739252, rw_period = 12, rw_increase = 0,
       rw_rent = 5000, rw_notes = None\<rparr>
     (sample_db\<lparr>properties := (\<lambda>_. \<lparr>pp_state = OnRent, pp_tenant = None, pp_freeze = True,
         pp_last_rent = 1000, pp_deed = None\<rparr>),
        tenancies := [1 \<mapsto> sample_tenancy\<lparr>t_increase := 0\<rparr>]\<rparr>)) = Inr 3"
  using wizard_bypasses_freeze [OF civil.month_steps_axioms,
    of "sample_db\<lparr>properties := (\<lambda>_. \<lparr>pp_state = OnRent, pp_tenant = None, pp_freeze = True,
         pp_last_rent = 1000, pp_deed = None\<rparr>),
        tenancies := [1 \<mapsto> sample_tenancy\<lparr>t_increase := 0\<rparr>]\<rparr>" 1 "sample_tenancy\<lparr>t_increase := 0\<rparr>"
       "\<lparr>rw_start = Some 739252, rw_period = 12, rw_increase = 0, rw_rent = 5000, rw_notes = None\<rparr>" 739252]
  by (simp add: sample_db_def sample_tenancy_def split_beta)

end
