(* ===== verification/RentPayment.thy ===== *)
theory RentPayment
  imports Tenancy
begin

text \<open>
  Rent payments: \<^verbatim>\<open>sa_rental_cycle/models/sa_rent_payment.py\<close> (payments, invoices,
  the schedule of a tenancy) and the payment wizard \<^verbatim>\<open>wizard/sa_payment_wizard.py\<close>.
  The accounting module of Odoo is not part of the repository: which journals and taxes exist,
  whether posting succeeds, the total of an invoice and the state the reconciliation gives it are
  arguments.
\<close>

section \<open>Computed fields\<close>

definition days_overdue :: "date \<Rightarrow> rent_payment \<Rightarrow> int" where
  "days_overdue today p =
     (if rp_state p \<in> {Pending, Partial} \<and> rp_due p < today then today - rp_due p else 0)"

definition penalty_amount :: "date \<Rightarrow> rent_payment \<Rightarrow> rat" where
  "penalty_amount today p =
     (if days_overdue today p > 0 then rp_amount p * (2 / 100 / 30) * of_int (days_overdue today p) else 0)"

definition balance :: "rent_payment \<Rightarrow> rat" where
  "balance p = rp_amount p - rp_amount_paid p"

text \<open>The rent payments that count, and the totals of a tenancy.\<close>

definition counted :: "tenancy \<Rightarrow> rent_payment list" where
  "counted t = filter (\<lambda>p. rp_state p \<noteq> Cancelled \<and> rp_type p = Rent) (t_payments t)"

definition total_due :: "tenancy \<Rightarrow> rat" where
  "total_due t = sum_list (map rp_amount (counted t))"

definition total_paid :: "tenancy \<Rightarrow> rat" where
  "total_paid t = sum_list (map rp_amount_paid (counted t))"

definition total_balance :: "tenancy \<Rightarrow> rat" where
  "total_balance t = total_due t - total_paid t"

definition overdue_count :: "tenancy \<Rightarrow> nat" where
  "overdue_count t = length (filter (\<lambda>p. rp_state p = Overdue) (counted t))"

definition paid_count :: "tenancy \<Rightarrow> nat" where
  "paid_count t = length (filter (\<lambda>p. rp_state p = Paid) (counted t))"

definition days_to_expiry :: "date \<Rightarrow> tenancy \<Rightarrow> int" where
  "days_to_expiry today t = (case t_end t of Some e \<Rightarrow> e - today | None \<Rightarrow> 0)"

section \<open>Actions on a payment\<close>

definition mark_paid :: "date \<Rightarrow> (rent_payment, exn, unit) opn" where
  "mark_paid today p =
     (if rp_state p = Cancelled then raise (UserError (Text ''a cancelled payment cannot be paid''))
      else modify (\<lambda>p. p\<lparr>rp_state := Paid, rp_paid_on := Some today, rp_amount_paid := rp_amount p\<rparr>)) p"

definition cancel_payment :: "rent_payment \<Rightarrow> rent_payment" where
  "cancel_payment p = p\<lparr>rp_state := Cancelled\<rparr>"

text \<open>The cron: the payments found, all written at once; the number found is returned.\<close>

definition falls_overdue :: "date \<Rightarrow> rent_payment \<Rightarrow> bool" where
  "falls_overdue today p \<longleftrightarrow> rp_state p \<in> {Pending, Partial} \<and> rp_due p < today"

definition mark_overdue :: "date \<Rightarrow> rent_payment list \<Rightarrow> nat \<times> rent_payment list" where
  "mark_overdue today ps =
     (length (filter (falls_overdue today) ps),
      map (\<lambda>p. if falls_overdue today p then p\<lparr>rp_state := Overdue\<rparr> else p) ps)"

section \<open>Accounting\<close>

record tax =
  tx_amount :: rat
  tx_use :: string
  tx_active :: bool
  tx_name :: string

record accounting =
  taxes :: "tax list"
  has_sale_journal :: bool
  money_journals :: "string list"
  amount_total :: "rat \<Rightarrow> tax option \<Rightarrow> rat"
  invoice_posts :: bool
  payment_posts :: "rat \<Rightarrow> bool"
  settled_state :: "rat list \<Rightarrow> rat \<Rightarrow> string"

definition sale_tax :: "rat \<Rightarrow> tax \<Rightarrow> bool" where
  "sale_tax r x \<longleftrightarrow> tx_amount x = r \<and> tx_use x = ''sale'' \<and> tx_active x"

text \<open>\<open>ilike\<close> with a plain ASCII pattern: a substring, letters compared without case.\<close>

definition fold_char :: "char \<Rightarrow> char" where
  "fold_char c = (if 65 \<le> code c \<and> code c \<le> 90 then char_of (code c + 32) else c)"

definition ilike :: "string \<Rightarrow> string \<Rightarrow> bool" where
  "ilike s p \<longleftrightarrow>
     list_ex (\<lambda>n. starts_with (map fold_char (drop n s)) (map fold_char p)) [0..<Suc (length s)]"

definition tax_for_tenancy :: "accounting \<Rightarrow> string \<Rightarrow> tax option" where
  "tax_for_tenancy A contract_type =
     (if contract_type = ''commercial'' then List.find (sale_tax 15) (taxes A)
      else (case List.find (\<lambda>x. sale_tax 0 x \<and> ilike (tx_name x) ''EX S'') (taxes A) of
          Some x \<Rightarrow> Some x
        | None \<Rightarrow> List.find (\<lambda>x. sale_tax 0 x \<and> ilike (tx_name x) ''EX'') (taxes A)))"

text \<open>The invoice date is never in the future.\<close>

definition invoice_date :: "date \<Rightarrow> rent_payment \<Rightarrow> date" where
  "invoice_date today p = (if rp_due p > today then today else rp_due p)"

definition create_invoice :: "accounting \<Rightarrow> string \<Rightarrow> (rent_payment, exn, unit) opn" where
  "create_invoice A contract_type p =
     (if (case rp_invoice p of None \<Rightarrow> False | Some i \<Rightarrow> inv_state i \<noteq> ''cancel'')
      then raise (UserError (Text ''the invoice exists already''))
      else if \<not> has_sale_journal A then raise (UserError (Text ''no sales journal''))
      else
        let total = amount_total A (rp_amount p) (tax_for_tenancy A contract_type) in
        if invoice_posts A
        then modify (\<lambda>p. p\<lparr>rp_invoice := Some \<lparr>inv_state = ''posted'', inv_payment_state = ''not_paid'',
               inv_total = total\<rparr>\<rparr>)
        else andthen (modify (\<lambda>p. p\<lparr>rp_invoice := Some \<lparr>inv_state = ''draft'',
               inv_payment_state = ''not_paid'', inv_total = total\<rparr>\<rparr>))
             (raise (UserError (Text ''posting failed'')))) p"

definition payment_journal :: "accounting \<Rightarrow> char_field \<Rightarrow> string option" where
  "payment_journal A pay_method =
     (let jtype = (if or_str pay_method ''bank_transfer'' = ''cash'' then ''cash'' else ''bank'') in
      case List.find (\<lambda>j. j = jtype) (money_journals A) of
        Some j \<Rightarrow> Some j
      | None \<Rightarrow> List.find (\<lambda>j. j = ''bank'' \<or> j = ''cash'') (money_journals A))"

definition receipt_amount :: "rent_payment \<Rightarrow> invoice \<Rightarrow> rat" where
  "receipt_amount p i =
     (let paid = rp_amount_paid p; total = (if inv_total i \<noteq> 0 then inv_total i else paid) in
      if rp_amount p > 0 then total * (paid / rp_amount p) else paid)"

definition reconcile :: "accounting \<Rightarrow> rent_payment \<Rightarrow> rent_payment" where
  "reconcile A p =
     (case rp_invoice p of
        None \<Rightarrow> p
      | Some i \<Rightarrow>
          if inv_state i \<noteq> ''posted'' then p
          else if inv_payment_state i \<in> {''paid'', ''in_payment'', ''reversed''} then p
          else if rp_amount_paid p \<le> 0 then p
          else if payment_journal A (rp_method p) = None then p
          else if \<not> payment_posts A (receipt_amount p i) then p
          else
            let receipts = rp_receipts p @ [receipt_amount p i] in
            p\<lparr>rp_receipts := receipts,
              rp_invoice := Some (i\<lparr>inv_payment_state := settled_state A receipts (inv_total i)\<rparr>)\<rparr>)"

definition create_invoice_and_reconcile :: "accounting \<Rightarrow> string \<Rightarrow> (rent_payment, exn, unit) opn" where
  "create_invoice_and_reconcile A contract_type =
     andthen (create_invoice A contract_type)
       (modify (\<lambda>p. if rp_state p \<in> {Paid, Partial} \<and> rp_amount_paid p \<noteq> 0 then reconcile A p else p))"

section \<open>The payment wizard\<close>

record payment_wizard =
  pw_amount :: rat
  pw_date :: date
  pw_method :: string
  pw_reference :: char_field
  pw_create_invoice :: bool

definition record_payment :: "payment_wizard \<Rightarrow> rent_payment \<Rightarrow> rent_payment" where
  "record_payment w p =
     (let total = rp_amount_paid p + pw_amount w;
          p = p\<lparr>rp_paid_on := Some (pw_date w), rp_method := Some (pw_method w), rp_amount_paid := total,
                rp_state := (if total \<ge> rp_amount p then Paid else Partial)\<rparr>
      in if pw_method w = ''sadad'' then p\<lparr>rp_sadad := pw_reference w\<rparr>
         else if pw_method w = ''cheque'' then p\<lparr>rp_cheque := pw_reference w\<rparr>
         else if pw_method w = ''bank_transfer'' then p\<lparr>rp_bank_ref := pw_reference w\<rparr>
         else p)"

definition register_payment :: "accounting \<Rightarrow> string \<Rightarrow> payment_wizard \<Rightarrow> (rent_payment, exn, unit) opn" where
  "register_payment A contract_type w p =
     (if pw_amount w \<le> 0 then raise (UserError (Text ''the amount has to be positive''))
      else
        andthen (modify (record_payment w))
        (andthen (\<lambda>p. (if pw_create_invoice w \<and> rp_invoice p = None \<and> rp_type p = Rent
                   then catch (create_invoice A contract_type) (\<lambda>_. ret ()) else ret ()) p)
          (modify (\<lambda>p. case rp_invoice p of
             None \<Rightarrow> p
           | Some i \<Rightarrow>
               if inv_state i = ''posted'' \<and> rp_amount_paid p \<noteq> 0
                  \<and> inv_payment_state i \<notin> {''paid'', ''in_payment''}
               then reconcile A p else p)))) p"

section \<open>The schedule\<close>

text \<open>The loop over the periods; \<open>None\<close> stands for a loop that does not end.\<close>

partial_function (option) due_dates :: "(date \<Rightarrow> date) \<Rightarrow> date \<Rightarrow> date \<Rightarrow> date list option" where
  "due_dates step current last_day =
     (if current \<le> last_day
      then Option.bind (due_dates step (step current) last_day) (\<lambda>ds. Some (current # ds))
      else Some [])"

definition period_months :: "string \<Rightarrow> int" where
  "period_months schedule =
     (if schedule = ''quarterly'' then 3 else if schedule = ''semi_annual'' then 6
      else if schedule = ''annual'' then 12 else 1)"

definition period_amount :: "string \<Rightarrow> tenancy \<Rightarrow> rat" where
  "period_amount schedule t =
     (if schedule = ''quarterly'' then t_rent t * 3 else if schedule = ''semi_annual'' then t_rent t * 6
      else if schedule = ''annual'' then t_rent t * 12 else t_rent t)"

definition total_months :: "(date \<Rightarrow> date \<Rightarrow> int) \<Rightarrow> tenancy \<Rightarrow> int" where
  "total_months months_between t = (case t_end t of Some e \<Rightarrow> months_between e (t_start t) + 1 | None \<Rightarrow> 12)"

definition new_payment :: "date \<Rightarrow> rat \<Rightarrow> payment_type \<Rightarrow> rent_payment" where
  "new_payment due amount ty =
     \<lparr>rp_due = due, rp_amount = amount, rp_type = ty, rp_state = Pending, rp_paid_on = None,
      rp_method = None, rp_amount_paid = 0, rp_sadad = None, rp_cheque = None, rp_bank_ref = None,
      rp_invoice = None, rp_receipts = []\<rparr>"

definition scheduled_rent ::
  "(int \<Rightarrow> date \<Rightarrow> date) \<Rightarrow> (date \<Rightarrow> date \<Rightarrow> int) \<Rightarrow> date \<Rightarrow> tenancy \<Rightarrow> rent_payment list option" where
  "scheduled_rent add_months months_between e t =
     (let schedule = (if t_schedule t = [] then ''monthly'' else t_schedule t) in
      if schedule = ''one_time''
      then Some [new_payment (t_start t) (t_rent t * of_int (total_months months_between t)) Rent]
      else Option.bind (due_dates (add_months (period_months schedule)) (t_start t) e) (\<lambda>ds.
             Some (map (\<lambda>d. new_payment d (period_amount schedule t) Rent) ds)))"

text \<open>
  Deleting rent payments: \<^verbatim>\<open>sa_security/models/audit_log.py\<close> refuses to delete one whose
  invoice is posted, and then none is deleted.
\<close>

definition has_posted_invoice :: "rent_payment \<Rightarrow> bool" where
  "has_posted_invoice p \<longleftrightarrow> (case rp_invoice p of Some i \<Rightarrow> inv_state i = ''posted'' | None \<Rightarrow> False)"

definition unlink_payments :: "rent_payment list \<Rightarrow> exn + unit" where
  "unlink_payments ps =
     (if list_ex has_posted_invoice ps
      then Inl (UserError (Text ''a payment with a posted invoice cannot be deleted'')) else Inr ())"

definition generate_schedule ::
  "(int \<Rightarrow> date \<Rightarrow> date) \<Rightarrow> (date \<Rightarrow> date \<Rightarrow> int) \<Rightarrow> tenancy \<Rightarrow> (exn + tenancy) option" where
  "generate_schedule add_months months_between t =
     (case t_end t of
        None \<Rightarrow> Some (Inl (UserError (Text ''start and end date are missing'')))
      | Some e \<Rightarrow>
          if t_rent t = 0 then Some (Inl (UserError (Text ''the rent is missing'')))
          else (case unlink_payments (filter (\<lambda>p. rp_state p \<in> {Pending, Overdue}) (t_payments t)) of
            Inl x \<Rightarrow> Some (Inl x)
          | Inr _ \<Rightarrow>
            Option.bind (scheduled_rent add_months months_between e t) (\<lambda>rents.
              let kept = filter (\<lambda>p. rp_state p \<notin> {Pending, Overdue}) (t_payments t);
                  deposit = (if t_deposit t \<noteq> 0 then [new_payment (t_start t) (t_deposit t) Deposit] else [])
              in Some (Inr (t\<lparr>t_payments := kept @ deposit @ rents, t_cycle := CConfirmed\<rparr>)))))"

text \<open>\<open>self.tenancy_id\<close> does not exist on a tenancy.\<close>

definition send_to_ejar_full :: "rental_property \<Rightarrow> tenancy \<Rightarrow> exn" where
  "send_to_ejar_full p t =
     (if \<not> is_set (t_tenant_nid t) then UserError (Text ''the national id of the tenant is missing'')
      else if \<not> is_set (pp_deed p) then UserError (Text ''the deed number is missing'')
      else Py AttributeError)"

section \<open>The schedule of a tenancy\<close>

context month_steps begin

lemma due_dates_simps [simp]:
  "e < d \<Longrightarrow> due_dates step d e = Some []"
  "d \<le> e \<Longrightarrow> due_dates step d e = map_option (Cons d) (due_dates step (step d) e)"
  by (simp_all add: due_dates.simps [of step d e] map_option_case bind_eq_Some_conv split: option.split)

text \<open>
  The loop ends: each step moves the date. The dates advance by the period, and the day of the month
  can only get smaller, since each date is computed from the one before.
\<close>

lemma due_dates_total:
  assumes "0 < k"
  shows "\<exists>ds. due_dates (add_months k) d e = Some ds \<and> (ds = [] \<longleftrightarrow> e < d)
    \<and> (\<forall>x\<in>set ds. d \<le> x \<and> x \<le> e \<and> day_index x \<le> day_index d)
    \<and> sorted_wrt (\<lambda>x y. x < y \<and> day_index y \<le> day_index x) ds
    \<and> map month_index ds = map (\<lambda>i. month_index d + k * int i) [0..<length ds]"
proof (induction "nat (e + 1 - d)" arbitrary: d rule: less_induct)
  case less
  show ?case
  proof (cases "d \<le> e")
    case True
    let ?d = "add_months k d"
    have step: "d < ?d" "day_index ?d \<le> day_index d" "month_index ?d = month_index d + k"
      using add_later [OF assms] by (simp_all add: add_indices)
    then have "nat (e + 1 - ?d) < nat (e + 1 - d)" using True by simp
    from less [OF this] obtain ds where
      ds: "due_dates (add_months k) ?d e = Some ds" "\<forall>x\<in>set ds. ?d \<le> x \<and> x \<le> e \<and> day_index x \<le> day_index ?d"
        "sorted_wrt (\<lambda>x y. x < y \<and> day_index y \<le> day_index x) ds"
        "map month_index ds = map (\<lambda>i. month_index ?d + k * int i) [0..<length ds]"
      by blast
    have "map month_index (d # ds) = map (\<lambda>i. month_index d + k * int i) [0..<length (d # ds)]"
      using ds(4) step(3)
      by (simp add: upt_conv_Cons map_Suc_upt [symmetric] algebra_simps comp_def del: upt_Suc)
    then show ?thesis using True ds(1-3) step(1,2) by (auto intro!: exI [of _ "d # ds"])
  qed simp
qed

text \<open>From a day every month has, the dates are exactly the start and its whole periods.\<close>

lemma due_dates_regular:
  assumes "0 < k" and "day_index d \<le> 27" and "add_months (k * int m) d \<le> e" and "e < add_months (k * int m + k) d"
  shows "due_dates (add_months k) d e = Some (map (\<lambda>i. add_months (k * int i) d) [0..<Suc m])"
  using assms(2-)
proof (induction m arbitrary: d)
  case (Suc m)
  let ?d = "add_months k d"
  have "0 \<le> k * int (Suc m)" using assms(1) by simp
  then have d: "d \<le> e" using add_le_iff [of 0 d "k * int (Suc m)"] Suc.prems(2) by simp
  have later: "add_months (k * i) ?d = add_months (k * (i + 1)) d" for i
    using Suc.prems(1) by (simp add: add_add algebra_simps)
  have "due_dates (add_months k) ?d e = Some (map (\<lambda>i. add_months (k * int i) ?d) [0..<Suc m])"
  proof (rule Suc.IH)
    show "day_index ?d \<le> 27" using Suc.prems(1) by (simp add: add_regular)
    show "add_months (k * int m) ?d \<le> e" using Suc.prems(2) later [of "int m"] by (simp add: add.commute)
    show "e < add_months (k * int m + k) ?d"
      using Suc.prems(3) later [of "int m + 1"] by (simp add: algebra_simps)
  qed
  then have "due_dates (add_months k) d e = Some (d # map (\<lambda>i. add_months (k * (int i + 1)) d) [0..<Suc m])"
    using d by (simp add: later)
  also have "d # map (\<lambda>i. add_months (k * (int i + 1)) d) [0..<Suc m]
      = map (\<lambda>i. add_months (k * int i) d) [0..<Suc (Suc m)]"
    by (rule nth_equalityI) (auto simp: nth_Cons algebra_simps simp del: upt_Suc split: nat.split)
  finally show ?case .
qed simp

end

lemma period_months_pos [simp]: "0 < period_months schedule"
  by (simp add: period_months_def)

text \<open>The values a scheduled payment starts with.\<close>

lemma new_payment_fields [simp]:
  "rp_due (new_payment d a ty) = d" "rp_amount (new_payment d a ty) = a" "rp_type (new_payment d a ty) = ty"
  "rp_state (new_payment d a ty) = Pending" "rp_amount_paid (new_payment d a ty) = 0"
  by (simp_all add: new_payment_def)

definition in_order :: "date \<Rightarrow> rent_payment \<Rightarrow> rent_payment \<Rightarrow> bool" where
  "in_order e p q \<longleftrightarrow> rp_due p < rp_due q \<and> rp_due q \<le> e \<and> day_index (rp_due q) \<le> day_index (rp_due p)"

lemma scheduled_rent_total:
  assumes "month_steps add_months between" and "t_start t \<le> e"
  shows "\<exists>rents. scheduled_rent add_months between e t = Some rents \<and> rents \<noteq> []
    \<and> rp_due (hd rents) = t_start t \<and> sorted_wrt (in_order e) rents"
proof (cases "t_schedule t = ''one_time''")
  case False
  let ?schedule = "if t_schedule t = [] then ''monthly'' else t_schedule t"
  obtain ds where ds: "due_dates (add_months (period_months ?schedule)) (t_start t) e = Some ds"
    "ds = [] \<longleftrightarrow> e < t_start t" "\<forall>x\<in>set ds. t_start t \<le> x \<and> x \<le> e"
    "sorted_wrt (\<lambda>x y. x < y \<and> day_index y \<le> day_index x) ds"
    using month_steps.due_dates_total [OF assms(1) period_months_pos, of ?schedule "t_start t" e] by blast
  let ?rents = "map (\<lambda>d. new_payment d (period_amount ?schedule t) Rent) ds"
  have run: "scheduled_rent add_months between e t = Some ?rents"
    using False ds(1) by (simp add: scheduled_rent_def Let_def)
  have hd: "ds \<noteq> []" "hd ds = t_start t"
    using ds(1,2) assms(2) month_steps.due_dates_simps(2) [OF assms] by auto
  have "sorted_wrt (\<lambda>x y. x < y \<and> y \<le> e \<and> day_index y \<le> day_index x) ds"
    by (rule sorted_wrt_mono_rel [OF _ ds(4)]) (use ds(3) in blast)
  then have "sorted_wrt (in_order e) ?rents"
    by (simp add: sorted_wrt_map in_order_def)
  then show ?thesis using run hd by (intro exI [of _ ?rents]) (simp add: hd_map)
qed (simp add: scheduled_rent_def Let_def)

text \<open>
  Property C16. Generating the schedule of a tenancy with a rent and an end date that is not before the
  start always ends. When a pending or overdue payment has a posted invoice it is refused with a user
  error, and nothing is changed. Otherwise the payments already paid (also in part) and the cancelled
  ones are kept, all pending and overdue ones are replaced, and the deposit is asked for again whatever
  was paid of it. The new rent payments start at the start date, lie within the term in strictly
  increasing order, and their day of the month never grows: after a short month it stays smaller.
\<close>

theorem schedule_generated:
  assumes "month_steps add_months between" and "t_end t = Some e" and "check_tenancy_dates t"
    and "t_rent t \<noteq> 0"
  shows "if \<exists>p \<in> set (t_payments t). rp_state p \<in> {Pending, Overdue}
           \<and> (\<exists>i. rp_invoice p = Some i \<and> inv_state i = ''posted'')
    then \<exists>m. generate_schedule add_months between t = Some (Inl (UserError m))
    else \<exists>rents. generate_schedule add_months between t = Some (Inr
      (t\<lparr>t_payments := filter (\<lambda>p. rp_state p \<in> {Paid, Partial, Cancelled}) (t_payments t)
           @ (if t_deposit t = 0 then [] else [new_payment (t_start t) (t_deposit t) Deposit]) @ rents,
         t_cycle := CConfirmed\<rparr>))
      \<and> rents \<noteq> [] \<and> rp_due (hd rents) = t_start t \<and> sorted_wrt (in_order e) rents"
    (is "if _ then _ else ?else")
proof -
  have "t_start t \<le> e" using assms(2,3) by (simp add: check_tenancy_dates_def)
  from scheduled_rent_total [OF assms(1) this] obtain rents where
    rents: "scheduled_rent add_months between e t = Some rents" "rents \<noteq> []"
      "rp_due (hd rents) = t_start t" "sorted_wrt (in_order e) rents" by blast
  have kept: "(rp_state p \<noteq> Pending \<and> rp_state p \<noteq> Overdue)
      = (rp_state p = Paid \<or> rp_state p = Partial \<or> rp_state p = Cancelled)" for p :: rent_payment
    by (cases "rp_state p") simp_all
  define blocked where "blocked \<longleftrightarrow> (\<exists>p \<in> set (t_payments t). rp_state p \<in> {Pending, Overdue}
    \<and> (\<exists>i. rp_invoice p = Some i \<and> inv_state i = ''posted''))"
  have "list_ex has_posted_invoice (filter (\<lambda>p. rp_state p \<in> {Pending, Overdue}) (t_payments t)) = blocked"
    unfolding blocked_def list_ex_iff has_posted_invoice_def
    by (auto split: option.splits)
  then have unlink: "unlink_payments (filter (\<lambda>p. rp_state p \<in> {Pending, Overdue}) (t_payments t)) =
    (if blocked then Inl (UserError (Text ''a payment with a posted invoice cannot be deleted'')) else Inr ())"
    by (simp add: unlink_payments_def)
  show ?thesis
    unfolding blocked_def [symmetric]
  proof (cases blocked)
    case True
    then show "if blocked then \<exists>m. generate_schedule add_months between t = Some (Inl (UserError m)) else ?else"
      using assms(2,4) by (simp add: generate_schedule_def unlink [simplified])
  next
    case False
    then have "?else"
      using assms(2,4) rents
      by (intro exI [of _ rents]) (simp add: generate_schedule_def unlink [simplified] Let_def kept)
    with False show "if blocked then \<exists>m. generate_schedule add_months between t = Some (Inl (UserError m)) else ?else"
      by simp
  qed
qed

text \<open>A monthly tenancy from 31 January 2023: the second payment falls on 28 February, and so do the later ones.\<close>

theorem schedule_generated_witness:
  "\<exists>t'. generate_schedule civil_add_months civil_months_between sample_tenancy = Some (Inr t')
    \<and> t_cycle t' = CConfirmed"
  using schedule_generated [OF civil.month_steps_axioms, of sample_tenancy 739251]
  by (auto simp: sample_tenancy_def check_tenancy_dates_def)

definition billed :: "(int \<Rightarrow> date \<Rightarrow> date) \<Rightarrow> (date \<Rightarrow> date \<Rightarrow> int) \<Rightarrow> tenancy \<Rightarrow> rat option" where
  "billed add_months between t =
     (case t_end t of None \<Rightarrow> None
      | Some e \<Rightarrow> map_option (\<lambda>rents. sum_list (map rp_amount rents)) (scheduled_rent add_months between e t))"

lemma period_amount_months:
  "schedule \<in> {''monthly'', ''quarterly'', ''semi_annual'', ''annual''} \<Longrightarrow>
   period_amount schedule t = t_rent t * of_int (period_months schedule)"
  by (auto simp: period_amount_def period_months_def)

lemma billed_regular:
  assumes "month_steps add_months between" and "day_index (t_start t) \<le> 27" and "t_end t = Some e"
    and "t_schedule t = schedule" and "schedule \<in> {''monthly'', ''quarterly'', ''semi_annual'', ''annual''}"
    and "add_months (period_months schedule * int m) (t_start t) \<le> e"
    and "e < add_months (period_months schedule * int m + period_months schedule) (t_start t)"
  shows "billed add_months between t = Some (t_rent t * of_int (period_months schedule * int (Suc m)))"
proof -
  have "schedule \<noteq> []" "schedule \<noteq> ''one_time''" using assms(5) by auto
  then show ?thesis
    using assms(3,4) month_steps.due_dates_regular [OF assms(1) period_months_pos assms(2,6,7)]
    by (simp add: billed_def scheduled_rent_def Let_def comp_def sum_list_triv period_amount_months [OF assms(5)]
        algebra_simps del: upt_Suc)
qed

text \<open>
  Property C17. The term the form proposes for \<open>n\<close> months ends on the day one period later starts, and that
  day counts as due: from a day of the month up to 28 the schedule of a term of \<open>m\<close> periods has \<open>m + 1\<close> payments, so
  the tenant is billed one whole period more than the term. A term that ends a day earlier, as a
  renewal sets it, is billed exactly.
\<close>

theorem default_term_overbilled:
  assumes "month_steps add_months between" and "day_index (t_start t) \<le> 27"
    and "t_schedule t \<in> {''monthly'', ''quarterly'', ''semi_annual'', ''annual''}"
    and "t_duration t = period_months (t_schedule t) * int (Suc m)" and "\<not> t_in_years t"
  shows "billed add_months between (onchange_end_date add_months t)
      = Some (t_rent t * of_int (t_duration t + period_months (t_schedule t)))
    \<and> billed add_months between (t\<lparr>t_end := Some (add_months (t_duration t) (t_start t) - 1)\<rparr>)
      = Some (t_rent t * of_int (t_duration t))"
proof (rule conjI)
  let ?k = "period_months (t_schedule t)"
  note steps = month_steps.add_less_iff [OF assms(1)] month_steps.add_le_iff [OF assms(1)]
  have k: "0 < ?k" by simp
  have "0 \<le> ?k * int m" by (intro mult_nonneg_nonneg less_imp_le [OF period_months_pos]) simp
  moreover have n: "t_duration t = ?k * int m + ?k" using assms(4) by (simp add: algebra_simps)
  ultimately have n': "t_duration t \<noteq> 0" using k by linarith
  show "billed add_months between (onchange_end_date add_months t)
      = Some (t_rent t * of_int (t_duration t + ?k))"
    using billed_regular [OF assms(1), of "onchange_end_date add_months t" _ "t_schedule t" "Suc m"]
      assms(2-5) n n' k
    by (simp add: onchange_end_date_def steps algebra_simps)
  let ?u = "t\<lparr>t_end := Some (add_months (t_duration t) (t_start t) - 1)\<rparr>"
  have last: "add_months (?k * int m) (t_start t) \<le> add_months (t_duration t) (t_start t) - 1"
    "add_months (t_duration t) (t_start t) - 1 < add_months (?k * int m + ?k) (t_start t)"
    using month_steps.add_strict [OF assms(1), of "?k * int m" "t_duration t" "t_start t"] k n
    by simp_all
  show "billed add_months between ?u = Some (t_rent t * of_int (t_duration t))"
    using billed_regular [OF assms(1), of ?u _ "t_schedule t" m] assms(2,3) last n
    by (simp add: algebra_simps)
qed

lemma sample_start: "day_index (t_start sample_tenancy) = 0"
  by code_simp

theorem default_term_overbilled_witness:
  "billed civil_add_months civil_months_between (onchange_end_date civil_add_months sample_tenancy)
     = Some 13000"
proof -
  have t: "t_schedule sample_tenancy = ''monthly''" "t_duration sample_tenancy = 12"
    "\<not> t_in_years sample_tenancy" "t_rent sample_tenancy = 1000"
    by (simp_all add: sample_tenancy_def)
  then show ?thesis
    using default_term_overbilled [OF civil.month_steps_axioms, of sample_tenancy 11] sample_start
    by (simp add: period_months_def)
qed

section \<open>Overdue payments\<close>

lemma penalty_zero: "penalty_amount today p = 0 \<longleftrightarrow> days_overdue today p = 0 \<or> rp_amount p = 0"
  by (auto simp: penalty_amount_def days_overdue_def)

lemma falls_overdue_days: "falls_overdue today = (\<lambda>p. 0 < days_overdue today p)"
  by (auto simp: falls_overdue_def days_overdue_def)

text \<open>
  The daily round marks exactly the payments with days overdue, changes nothing else of any
  payment, and a second round on that day finds none. But days and penalty are only computed for pending and
  partial payments: after the round not one payment is overdue by a day or carries a penalty.
\<close>

theorem overdue_erases_penalty:
  "case mark_overdue today ps of (n, qs) \<Rightarrow>
     n = length (filter (\<lambda>p. 0 < days_overdue today p) ps)
     \<and> qs = map (\<lambda>p. if 0 < days_overdue today p then p\<lparr>rp_state := Overdue\<rparr> else p) ps
     \<and> list_all (\<lambda>p. days_overdue today p = 0 \<and> penalty_amount today p = 0) qs
     \<and> mark_overdue today qs = (0, qs)"
proof -
  have gone: "\<not> falls_overdue today (if falls_overdue today p then p\<lparr>rp_state := Overdue\<rparr> else p)" for p
    by (simp add: falls_overdue_def)
  have zero: "days_overdue today p = 0" if "\<not> falls_overdue today p" for p
    using that by (auto simp: falls_overdue_def days_overdue_def)
  have "list_all (\<lambda>p. days_overdue today p = 0 \<and> penalty_amount today p = 0) (snd (mark_overdue today ps))"
    using zero by (auto simp: mark_overdue_def list_all_iff penalty_zero days_overdue_def [of _ "_\<lparr>rp_state := Overdue\<rparr>"])
  moreover have "mark_overdue today (snd (mark_overdue today ps)) = (0, snd (mark_overdue today ps))"
    using gone by (simp add: mark_overdue_def filter_empty_conv)
  ultimately show ?thesis
    unfolding split_beta by (simp add: mark_overdue_def falls_overdue_days)
qed

section \<open>Registering payments\<close>

lemma record_payment_fields [simp]:
  "rp_amount (record_payment w p) = rp_amount p" "rp_type (record_payment w p) = rp_type p"
  "rp_invoice (record_payment w p) = rp_invoice p" "rp_receipts (record_payment w p) = rp_receipts p"
  "rp_amount_paid (record_payment w p) = rp_amount_paid p + pw_amount w"
  "rp_method (record_payment w p) = Some (pw_method w)"
  "rp_state (record_payment w p) = (if rp_amount p \<le> rp_amount_paid p + pw_amount w then Paid else Partial)"
  by (simp_all add: record_payment_def Let_def)

lemma reconcile_fields [simp]:
  "rp_amount (reconcile A p) = rp_amount p" "rp_amount_paid (reconcile A p) = rp_amount_paid p"
  "rp_state (reconcile A p) = rp_state p" "rp_due (reconcile A p) = rp_due p"
  by (simp_all add: reconcile_def Let_def split: option.split)

lemma create_invoice_fields:
  "snd (create_invoice A c p) = p\<lparr>rp_invoice := rp_invoice (snd (create_invoice A c p))\<rparr>"
  by (simp add: create_invoice_def op_simps Let_def andthen_def bind_def raise_def modify_def)

lemma catch_unit_run: "catch f (\<lambda>_. ret ()) p = (Inr (), snd (f p))" for f :: "('s, exn, unit) opn"
  by (cases "f p") (auto simp: catch_def ret_def split: sum.split)

lemma register_run:
  assumes "0 < pw_amount w"
  shows "register_payment A c w p = (Inr (),
    let q = record_payment w p;
        q = (if pw_create_invoice w \<and> rp_invoice q = None \<and> rp_type q = Rent
             then snd (create_invoice A c q) else q)
    in case rp_invoice q of None \<Rightarrow> q
       | Some i \<Rightarrow> if inv_state i = ''posted'' \<and> rp_amount_paid q \<noteq> 0
                     \<and> inv_payment_state i \<notin> {''paid'', ''in_payment''} then reconcile A q else q)"
  using assms
  by (simp add: register_payment_def op_simps Let_def andthen_def bind_def modify_def catch_unit_run ret_def)

text \<open>
  Registering a positive amount always succeeds, also on a cancelled or fully paid payment and
  when the invoice or its settlement fails: the amount is added to what was paid, and the payment is paid
  when that reaches what is due, otherwise partly paid.
\<close>

theorem register_payment_adds:
  "case register_payment A c w p of (r, q) \<Rightarrow>
     (if pw_amount w \<le> 0 then r = Inl (UserError (Text ''the amount has to be positive'')) \<and> q = p
      else r = Inr () \<and> rp_amount q = rp_amount p \<and> rp_due q = rp_due p
        \<and> rp_amount_paid q = rp_amount_paid p + pw_amount w
        \<and> rp_state q = (if rp_amount p \<le> rp_amount_paid p + pw_amount w then Paid else Partial))"
proof (cases "pw_amount w \<le> 0")
  case False
  let ?q = "record_payment w p"
  have due: "rp_due ?q = rp_due p" by (simp add: record_payment_def Let_def)
  have inv: "rp_amount (snd (create_invoice A c ?q)) = rp_amount ?q"
    "rp_amount_paid (snd (create_invoice A c ?q)) = rp_amount_paid ?q"
    "rp_state (snd (create_invoice A c ?q)) = rp_state ?q" "rp_due (snd (create_invoice A c ?q)) = rp_due ?q"
    by (subst create_invoice_fields, simp)+
  show ?thesis
    using False register_run [of w A c p] by (simp add: Let_def inv due split: option.split)
qed (simp add: register_payment_def op_simps)

text \<open>What it takes for invoices and receipts to be posted.\<close>

definition books_open :: "accounting \<Rightarrow> string \<Rightarrow> bool" where
  "books_open A m \<longleftrightarrow> has_sale_journal A \<and> invoice_posts A \<and> payment_posts A = (\<lambda>_. True)
     \<and> payment_journal A (Some m) \<noteq> None"

lemma create_invoice_run:
  assumes "books_open A m" and "rp_invoice p = None"
  shows "create_invoice A c p = (Inr (), p\<lparr>rp_invoice := Some \<lparr>inv_state = ''posted'',
     inv_payment_state = ''not_paid'', inv_total = amount_total A (rp_amount p) (tax_for_tenancy A c)\<rparr>\<rparr>)"
  using assms by (simp add: create_invoice_def books_open_def op_simps Let_def)

lemma reconcile_run:
  assumes "books_open A m" and "rp_invoice p = Some i" and "inv_state i = ''posted''"
    and "inv_payment_state i \<notin> {''paid'', ''in_payment'', ''reversed''}" and "0 < rp_amount_paid p"
    and "rp_method p = Some m" and "0 < rp_amount p" and "inv_total i \<noteq> 0"
  shows "reconcile A p =
    (let receipts = rp_receipts p @ [inv_total i * (rp_amount_paid p / rp_amount p)] in
     p\<lparr>rp_receipts := receipts,
       rp_invoice := Some (i\<lparr>inv_payment_state := settled_state A receipts (inv_total i)\<rparr>)\<rparr>)"
  using assms by (auto simp: reconcile_def books_open_def receipt_amount_def Let_def)

text \<open>
  A rent payment settled in two instalments \<open>a\<close> and \<open>b\<close> through the wizard: the receipt of the second
  one is computed from everything paid so far. The books show a receipt for the share of \<open>a\<close>
  and one for the whole invoice, more than the invoice.
\<close>

theorem instalments_double_counted:
  assumes "books_open A m" and "0 < a" and "0 < b" and "rp_amount p = a + b" and "rp_amount_paid p = 0"
    and "rp_invoice p = None" and "rp_receipts p = []" and "rp_type p = Rent"
    and "amount_total A (a + b) (tax_for_tenancy A c) = v" and "0 < v"
    and "settled_state A [v * (a / (a + b))] v \<notin> {''paid'', ''in_payment'', ''reversed''}"
    and "pw_amount w = a" and "pw_method w = m" and "pw_create_invoice w"
    and "pw_amount w' = b" and "pw_method w' = m"
  shows "case andthen (register_payment A c w) (register_payment A c w') p of (r, q) \<Rightarrow>
    r = Inr () \<and> rp_state q = Paid \<and> rp_receipts q = [v * (a / (a + b)), v] \<and> v < sum_list (rp_receipts q)"
proof -
  let ?i = "\<lparr>inv_state = ''posted'', inv_payment_state = settled_state A [v * (a / (a + b))] v, inv_total = v\<rparr>"
  have pos: "0 < a + b" "a + b \<noteq> 0" using assms(2,3) by simp_all
  obtain q where q: "register_payment A c w p = (Inr (), q)" "rp_amount q = a + b" "rp_amount_paid q = a"
    "rp_receipts q = [v * (a / (a + b))]" "rp_invoice q = Some ?i"
    using assms pos by (simp add: register_run Let_def create_invoice_run reconcile_run)
  obtain q' where q': "register_payment A c w' q = (Inr (), q')" "rp_state q' = Paid"
    "rp_receipts q' = [v * (a / (a + b)), v]"
    using assms pos q(2-5) by (simp add: register_run Let_def reconcile_run add.commute)
  have "0 < v * (a / (a + b))" using assms(2,10) pos(1) by simp
  then show ?thesis by (simp add: andthen_def bind_def q(1) q')
qed

definition sample_books :: accounting where
  "sample_books = \<lparr>taxes = [], has_sale_journal = True, money_journals = [''bank''],
     amount_total = (\<lambda>a _. a), invoice_posts = True, payment_posts = (\<lambda>_. True),
     settled_state = (\<lambda>rs v. if sum_list rs < v then ''partial'' else ''paid'')\<rparr>"

definition sample_payment :: payment_wizard where
  "sample_payment = \<lparr>pw_amount = 400, pw_date = 738900, pw_method = ''mada'', pw_reference = None,
     pw_create_invoice = True\<rparr>"

theorem instalments_double_counted_witness:
  "rp_receipts (snd (andthen (register_payment sample_books ''residential'' sample_payment)
     (register_payment sample_books ''residential'' (sample_payment\<lparr>pw_amount := 600\<rparr>))
     (new_payment 738886 1000 Rent))) = [400, 1000]"
proof -
  have "books_open sample_books ''mada''"
    by (simp add: books_open_def sample_books_def payment_journal_def or_str_def Let_def)
  from instalments_double_counted [OF this, of 400 600 "new_payment 738886 1000 Rent" "''residential''" 1000
      sample_payment "sample_payment\<lparr>pw_amount := 600\<rparr>"]
  show ?thesis by (simp add: sample_books_def sample_payment_def new_payment_def split_beta)
qed

end
