(* ===== verification/TenancyEnd.thy ===== *)
theory TenancyEnd
  imports RentPayment
begin

text \<open>
  The end of a tenancy: the deposit (\<^verbatim>\<open>sa_rental_cycle/models/sa_tenancy_deposit.py\<close>),
  the inspections (\<^verbatim>\<open>sa_property_base/models/property_inspection.py\<close>), the wizard that
  settles the deposit (\<^verbatim>\<open>sa_rental_cycle/wizard/sa_end_tenancy_wizard.py\<close>) and the alerts
  before the term ends (\<^verbatim>\<open>sa_rental_cycle/models/sa_rental_alert.py\<close>).
\<close>

section \<open>The deposit\<close>

definition deposit_remaining :: "tenancy \<Rightarrow> rat" where
  "deposit_remaining t = t_deposit t - t_returned t - t_forfeited t"

text \<open>The button that opens the payment form: its checks.\<close>

definition register_deposit_receipt :: "int \<Rightarrow> unit rop" where
  "register_deposit_receipt n = on_tenancy n (\<lambda>t.
     if t_deposit t = 0 then refuse ''the deposit is missing''
     else if t_deposit_state t \<noteq> NotPaid then refuse ''the deposit is recorded already''
     else ret ())"

definition mark_deposit_held :: "int \<Rightarrow> unit rop" where
  "mark_deposit_held n = on_tenancy n (\<lambda>t s.
     (if t_deposit t = 0 then refuse ''no deposit of zero can be held''
      else upd_tenancy n (\<lambda>t. t\<lparr>t_deposit_state := Held,
             t_deposit_paid_on := (case t_deposit_paid_on t of None \<Rightarrow> Some (now_date s) | d \<Rightarrow> d)\<rparr>)) s)"

text \<open>A payment of the accounting module that was posted, with the link to a tenancy.\<close>

record deposit_payment =
  dp_inbound :: bool
  dp_date :: "date option"
  dp_amount :: rat
  dp_tenancy :: "int option"

definition deposit_posted :: "deposit_payment \<Rightarrow> unit rop" where
  "deposit_posted pay s =
     (case dp_tenancy pay of
        None \<Rightarrow> ret () s
      | Some n \<Rightarrow> on_tenancy n (\<lambda>t s.
          (if dp_inbound pay \<and> t_deposit_state t = NotPaid
           then andthen (upd_tenancy n (\<lambda>t. t\<lparr>t_deposit_state := Held,
                  t_deposit_paid_on := (case dp_date pay of None \<Rightarrow> Some (now_date s) | d \<Rightarrow> d)\<rparr>))
                (post_note n ''deposit received'')
           else ret ()) s) s)"

section \<open>Inspections\<close>

datatype inspection_type = MoveIn | MoveOut | Interim
datatype inspection_state = IDraft | ICompleted | ISigned | ICancelled

record inspection_line =
  il_id :: int
  il_room :: string
  il_item :: char_field
  il_condition :: string
  il_cost :: rat

record inspection =
  ins_type :: inspection_type
  ins_state :: inspection_state
  ins_property :: "int option"
  ins_lines :: "inspection_line list"

definition total_damages :: "inspection \<Rightarrow> rat" where
  "total_damages i = sum_list (map il_cost (ins_lines i))"

definition onchange_inspection_tenancy :: "tenancy option \<Rightarrow> inspection \<Rightarrow> inspection" where
  "onchange_inspection_tenancy t i =
     (case t of None \<Rightarrow> i | Some t \<Rightarrow> i\<lparr>ins_property := Some (t_property t)\<rparr>)"

definition complete_inspection :: "(inspection, exn, unit) opn" where
  "complete_inspection i =
     (if ins_lines i = [] then raise (UserError (Text ''a line is needed''))
      else modify (\<lambda>i. i\<lparr>ins_state := ICompleted\<rparr>)) i"

definition sign_inspection :: "(inspection, exn, unit) opn" where
  "sign_inspection i =
     (if ins_state i \<noteq> ICompleted then raise (UserError (Text ''the inspection is not completed''))
      else modify (\<lambda>i. i\<lparr>ins_state := ISigned\<rparr>)) i"

definition cancel_inspection :: "(inspection, exn, unit) opn" where
  "cancel_inspection = modify (\<lambda>i. i\<lparr>ins_state := ICancelled\<rparr>)"

definition draft_inspection :: "(inspection, exn, unit) opn" where
  "draft_inspection = modify (\<lambda>i. i\<lparr>ins_state := IDraft\<rparr>)"

text \<open>The type proposed for the next inspection of a tenancy.\<close>

definition default_inspection_type :: "inspection list \<Rightarrow> tenancy \<Rightarrow> inspection_type" where
  "default_inspection_type existing t =
     (if existing = [] then MoveIn else if t_state t = TClosed then MoveOut else Interim)"

section \<open>The wizard\<close>

record deduction_line =
  dl_description :: string
  dl_category :: string
  dl_amount :: rat
  dl_source :: "int option"

record end_wizard =
  ew_lines :: "deduction_line list"
  ew_forfeit :: bool
  ew_refund_payment :: bool
  ew_deduction_invoice :: bool
  ew_inspection :: "inspection option"

definition total_deductions :: "end_wizard \<Rightarrow> rat" where
  "total_deductions w = sum_list (map dl_amount (ew_lines w))"

definition refund_amount :: "tenancy \<Rightarrow> end_wizard \<Rightarrow> rat" where
  "refund_amount t w = (if ew_forfeit w then 0 else max (t_deposit t - total_deductions w) 0)"

text \<open>Lines with a cost become deductions; the description is an argument, it is only shown.\<close>

definition import_line :: "(inspection_line \<Rightarrow> string) \<Rightarrow> inspection_line \<Rightarrow> deduction_line" where
  "import_line describe l =
     \<lparr>dl_description = describe l, dl_category = ''damage'', dl_amount = il_cost l, dl_source = Some (il_id l)\<rparr>"

definition import_from_inspection :: "(inspection_line \<Rightarrow> string) \<Rightarrow> (end_wizard, exn, unit) opn" where
  "import_from_inspection describe w =
     (case ew_inspection w of
        None \<Rightarrow> raise (UserError (Text ''choose an inspection first''))
      | Some i \<Rightarrow>
          let manual = filter (\<lambda>l. dl_source l = None) (ew_lines w);
              fresh = map (import_line describe) (filter (\<lambda>l. \<not> il_cost l \<le> 0) (ins_lines i))
          in andthen (modify (\<lambda>w. w\<lparr>ew_lines := manual\<rparr>))
               (if fresh = [] then raise (UserError (Text ''no damages in the inspection''))
                else modify (\<lambda>w. w\<lparr>ew_lines := ew_lines w @ fresh\<rparr>))) w"

definition settled_deposit :: "tenancy \<Rightarrow> end_wizard \<Rightarrow> deposit_state" where
  "settled_deposit t w =
     (if t_deposit t \<le> 0 then t_deposit_state t
      else if ew_forfeit w \<and> total_deductions w \<le> 0 then Forfeited
      else if refund_amount t w \<ge> t_deposit t then Returned
      else if refund_amount t w \<le> 0 then Forfeited
      else PartiallyReturned)"

text \<open>
  What the accounting receives: the lines of the invoice for the deductions, the amount of the
  refund. Posting them may fail, which the code ignores.
\<close>

definition deduction_invoice :: "accounting \<Rightarrow> end_wizard \<Rightarrow> rat list option rop" where
  "deduction_invoice A w =
     (if ew_deduction_invoice w \<and> total_deductions w > 0
      then if has_sale_journal A then ret (Some (map dl_amount (ew_lines w)))
           else refuse ''no sales journal''
      else ret None)"

definition refund_payment :: "accounting \<Rightarrow> tenancy \<Rightarrow> end_wizard \<Rightarrow> rat option rop" where
  "refund_payment A t w =
     (if ew_refund_payment w \<and> refund_amount t w > 0
      then if List.find (\<lambda>j. j = ''bank'' \<or> j = ''cash'') (money_journals A) \<noteq> None
           then ret (Some (refund_amount t w)) else refuse ''no bank or cash journal''
      else ret None)"

definition end_tenancy :: "accounting \<Rightarrow> int \<Rightarrow> end_wizard \<Rightarrow> (rat list option \<times> rat option) rop" where
  "end_tenancy A n w = on_tenancy n (\<lambda>t.
     if total_balance t > 0 then refuse ''rent is still due''
     else if total_deductions w > t_deposit t then refuse ''the deductions exceed the deposit''
     else
       bind (deduction_invoice A w) (\<lambda>inv.
       bind (refund_payment A t w) (\<lambda>refund.
       andthen (upd_tenancy n (\<lambda>t. t\<lparr>t_state := TClosed, t_cycle := CEnded,
                  t_returned := t_returned t + refund_amount t w,
                  t_forfeited := t_forfeited t + total_deductions w,
                  t_deposit_state := settled_deposit t w\<rparr>))
       (andthen (\<lambda>s. (if pp_state (properties s (t_property t)) = OnRent
                  then upd_property (t_property t) (\<lambda>p. p\<lparr>pp_state := Available\<rparr>) else ret ()) s)
       (andthen (post_note n ''tenancy ended'') (ret (inv, refund)))))))"

section \<open>Alerts\<close>

datatype alert_type = Expiry30 | Expiry14 | OverdueAlert | EjarExpire

record rental_alert =
  al_tenancy :: int
  al_type :: alert_type
  al_active :: bool
  al_resolved :: "date option"

definition resolve_alert :: "date \<Rightarrow> rental_alert \<Rightarrow> rental_alert" where
  "resolve_alert today a = a\<lparr>al_active := False, al_resolved := Some today\<rparr>"

definition expiry_alert_type :: "date \<Rightarrow> tenancy \<Rightarrow> alert_type option" where
  "expiry_alert_type today t =
     (case t_end t of None \<Rightarrow> None
      | Some e \<Rightarrow> if t_state t \<noteq> TRunning then None
                  else if e - today = 30 then Some Expiry30
                  else if e - today = 14 then Some Expiry14 else None)"

definition alert_tenancy :: "date \<Rightarrow> int \<Rightarrow> tenancy \<Rightarrow> rental_alert list \<Rightarrow> rental_alert list" where
  "alert_tenancy today n t as =
     (case expiry_alert_type today t of None \<Rightarrow> as
      | Some ty \<Rightarrow>
          if list_ex (\<lambda>a. al_tenancy a = n \<and> al_type a = ty \<and> al_active a) as then as
          else as @ [\<lparr>al_tenancy = n, al_type = ty, al_active = True, al_resolved = None\<rparr>])"

text \<open>The daily round: alerts for every tenancy, then the overdue payments.\<close>

definition check_expiry_alerts :: "rental_db \<times> rental_alert list \<Rightarrow> rental_db \<times> rental_alert list" where
  "check_expiry_alerts = (\<lambda>(s, as).
     (s\<lparr>tenancies := (\<lambda>n. map_option (\<lambda>t. t\<lparr>t_payments := snd (mark_overdue (now_date s) (t_payments t))\<rparr>)
          (tenancies s n))\<rparr>,
      fold (\<lambda>n as. case tenancies s n of None \<Rightarrow> as | Some t \<Rightarrow> alert_tenancy (now_date s) n t as)
        (newest_first s) as))"

section \<open>Settling the deposit\<close>

text \<open>What the wizard relies on: no rent due, deductions within the deposit, the journals it may need.\<close>

definition can_end :: "accounting \<Rightarrow> tenancy \<Rightarrow> end_wizard \<Rightarrow> bool" where
  "can_end A t w \<longleftrightarrow> total_balance t \<le> 0 \<and> total_deductions w \<le> t_deposit t \<and> has_sale_journal A
     \<and> List.find (\<lambda>j. j = ''bank'' \<or> j = ''cash'') (money_journals A) \<noteq> None"

definition ended :: "end_wizard \<Rightarrow> tenancy \<Rightarrow> tenancy" where
  "ended w t = t\<lparr>t_state := TClosed, t_cycle := CEnded, t_returned := t_returned t + refund_amount t w,
     t_forfeited := t_forfeited t + total_deductions w, t_deposit_state := settled_deposit t w\<rparr>"

lemma accounting_run:
  assumes "can_end A t w"
  shows "deduction_invoice A w s =
      (Inr (if ew_deduction_invoice w \<and> total_deductions w > 0 then Some (map dl_amount (ew_lines w)) else None), s)"
    and "refund_payment A t w s =
      (Inr (if ew_refund_payment w \<and> refund_amount t w > 0 then Some (refund_amount t w) else None), s)"
  using assms by (simp_all add: deduction_invoice_def refund_payment_def can_end_def op_simps)

lemma end_tenancy_run:
  assumes "tenancies s n = Some t" and "can_end A t w"
  shows "\<exists>inv. end_tenancy A n w s =
    (Inr (inv, if ew_refund_payment w \<and> refund_amount t w > 0 then Some (refund_amount t w) else None),
     s\<lparr>tenancies := (tenancies s)(n \<mapsto> ended w t),
       properties := (properties s)(t_property t :=
         (if pp_state (properties s (t_property t)) = OnRent
          then (properties s (t_property t))\<lparr>pp_state := Available\<rparr> else properties s (t_property t))),
       posted := posted s @ [(n, ''tenancy ended'')]\<rparr>)"
  using assms accounting_run [OF assms(2)]
  by (auto simp: end_tenancy_def on_tenancy_def op_simps andthen_def bind_def ended_def can_end_def)

lemma refund_without_forfeit:
  "total_deductions w \<le> t_deposit t \<Longrightarrow> \<not> ew_forfeit w \<Longrightarrow> refund_amount t w = t_deposit t - total_deductions w"
  by (simp add: refund_amount_def max_def)

lemma ended_fields [simp]:
  "t_property (ended w t) = t_property t" "t_deposit (ended w t) = t_deposit t"
  "t_payments (ended w t) = t_payments t" "t_state (ended w t) = TClosed"
  "t_returned (ended w t) = t_returned t + refund_amount t w"
  "t_forfeited (ended w t) = t_forfeited t + total_deductions w"
  "t_deposit_state (ended w t) = settled_deposit t w"
  by (simp_all add: ended_def)

lemma ended_same_totals [simp]:
  "total_balance (ended w t) = total_balance t" "refund_amount (ended w' t) w = refund_amount t w"
  by (simp_all add: total_balance_def total_due_def total_paid_def counted_def refund_amount_def)

text \<open>
  Property C19. Ending a tenancy through the wizard, in whatever state it is, when no rent is due, the
  deposit is positive, the deductions are within it, and a sale journal and a bank or cash journal
  exist: it is closed, and the deposit is accounted for. Without forfeiture, what is refunded and what is
  deducted add up to the whole deposit, and the state says which of the two happened; with forfeiture only
  the deductions are booked, and the rest stays open in the state ``forfeited''. So the first ending, with
  nothing returned or forfeited before, leaves nothing open (without forfeiture), while every further
  ending takes the whole deposit off what is open once more: nothing prevents it. A rented property
  becomes available again but, unlike after closing, keeps its tenant.
\<close>

theorem deposit_settlement:
  assumes "tenancies s n = Some t" and "can_end A t w" and "0 < t_deposit t"
  shows "case end_tenancy A n w s of (r, s') \<Rightarrow>
    (\<exists>inv. r = Inr (inv, if ew_refund_payment w \<and> refund_amount t w > 0 then Some (refund_amount t w) else None))
    \<and> (\<exists>t'. tenancies s' n = Some t' \<and> t_state t' = TClosed
        \<and> deposit_remaining t' = deposit_remaining t - (if ew_forfeit w then total_deductions w else t_deposit t)
        \<and> (t_returned t = 0 \<and> t_forfeited t = 0 \<longrightarrow>
             deposit_remaining t' = (if ew_forfeit w then t_deposit t - total_deductions w else 0))
        \<and> (if ew_forfeit w then t_deposit_state t' = Forfeited
           else if total_deductions w \<le> 0 then t_deposit_state t' = Returned
           else if total_deductions w = t_deposit t then t_deposit_state t' = Forfeited
           else t_deposit_state t' = PartiallyReturned))
    \<and> pp_state (properties s' (t_property t)) =
        (if pp_state (properties s (t_property t)) = OnRent then Available
         else pp_state (properties s (t_property t)))
    \<and> pp_tenant (properties s' (t_property t)) = pp_tenant (properties s (t_property t))"
proof -
  have le: "total_deductions w \<le> t_deposit t" using assms(2) by (simp add: can_end_def)
  let ?pp = "properties s (t_property t)"
  obtain inv where run: "end_tenancy A n w s =
    (Inr (inv, if ew_refund_payment w \<and> refund_amount t w > 0 then Some (refund_amount t w) else None),
     s\<lparr>tenancies := (tenancies s)(n \<mapsto> ended w t),
       properties := (properties s)(t_property t :=
         (if pp_state ?pp = OnRent then ?pp\<lparr>pp_state := Available\<rparr> else ?pp)),
       posted := posted s @ [(n, ''tenancy ended'')]\<rparr>)"
    using end_tenancy_run [OF assms(1,2)] by blast
  show ?thesis
    unfolding run using assms(3) le
    by (auto simp: deposit_remaining_def settled_deposit_def refund_amount_def max_def)
qed

text \<open>
  The wizard does not look at the state of the tenancy: run twice, it succeeds twice and
  refunds the deposit a second time, so that more than the deposit was given back.
\<close>

theorem ending_twice_refunds_twice:
  assumes "tenancies s n = Some t" and "can_end A t w" and "t_returned t = 0" and "t_forfeited t = 0"
    and "\<not> ew_forfeit w" and "ew_refund_payment w" and "total_deductions w < t_deposit t"
  shows "case andthen (end_tenancy A n w) (end_tenancy A n w) s of (r, s') \<Rightarrow>
    (\<exists>inv. r = Inr (inv, Some (t_deposit t - total_deductions w)))
    \<and> (\<exists>t'. tenancies s' n = Some t' \<and> deposit_remaining t' = - t_deposit t)"
proof -
  have refund: "refund_amount t w = t_deposit t - total_deductions w"
    using assms(5,7) by (simp add: refund_without_forfeit)
  obtain inv s1 where 1: "end_tenancy A n w s = (Inr inv, s1)" "tenancies s1 n = Some (ended w t)"
    using end_tenancy_run [OF assms(1,2)] by force
  have "can_end A (ended w t) w" using assms(2) by (simp add: can_end_def)
  from end_tenancy_run [OF 1(2) this] obtain inv' s2 where
    2: "end_tenancy A n w s1 = (Inr (inv', Some (t_deposit t - total_deductions w)), s2)"
      "tenancies s2 n = Some (ended w (ended w t))"
    using assms(6,7) refund by force
  show ?thesis
    using assms(3,4) refund by (simp add: andthen_def bind_def 1(1) 2 deposit_remaining_def)
qed

definition sample_ending :: end_wizard where
  "sample_ending = \<lparr>ew_lines = [\<lparr>dl_description = ''door'', dl_category = ''damage'', dl_amount = 300,
       dl_source = None\<rparr>],
     ew_forfeit = False, ew_refund_payment = True, ew_deduction_invoice = False, ew_inspection = None\<rparr>"

lemma sample_can_end: "can_end sample_books sample_tenancy sample_ending"
  by (simp add: can_end_def sample_books_def sample_tenancy_def sample_ending_def total_balance_def
      total_due_def total_paid_def counted_def total_deductions_def)

theorem deposit_settlement_witness:
  "pp_state (properties (snd (end_tenancy sample_books 1 sample_ending
     (sample_db\<lparr>properties := (\<lambda>_. \<lparr>pp_state = OnRent, pp_tenant = None, pp_freeze = False,
        pp_last_rent = 0, pp_deed = None\<rparr>)\<rparr>))) 1) = Available"
  using deposit_settlement [OF _ sample_can_end,
    of "sample_db\<lparr>properties := (\<lambda>_. \<lparr>pp_state = OnRent, pp_tenant = None, pp_freeze = False,
        pp_last_rent = 0, pp_deed = None\<rparr>)\<rparr>" 1]
  by (simp add: sample_db_def split_beta) (simp add: sample_tenancy_def)

theorem ending_twice_refunds_twice_witness:
  "map_option deposit_remaining (tenancies (snd (andthen (end_tenancy sample_books 1 sample_ending)
     (end_tenancy sample_books 1 sample_ending) sample_db)) 1) = Some (- 2000)"
proof -
  have "tenancies sample_db 1 = Some sample_tenancy" by (simp add: sample_db_def)
  from ending_twice_refunds_twice [OF this sample_can_end] show ?thesis
    by (auto simp: split_beta sample_ending_def sample_tenancy_def total_deductions_def)
qed

section \<open>Deductions from an inspection\<close>

text \<open>
  Importing an inspection keeps the lines entered by hand, replaces the ones imported
  before, and adds the damages with a cost: doing it again changes nothing, and the total is that of the manual
  lines plus the costs above zero. Without a damage it is refused.
\<close>

theorem import_idempotent:
  "case ew_inspection w of
     None \<Rightarrow> import_from_inspection describe w = (Inl (UserError (Text ''choose an inspection first'')), w)
   | Some i \<Rightarrow>
      (case import_from_inspection describe w of (r, w') \<Rightarrow>
       if list_ex (\<lambda>l. 0 < il_cost l) (ins_lines i)
       then r = Inr () \<and> import_from_inspection describe w' = (Inr (), w')
         \<and> total_deductions w' = sum_list (map dl_amount (filter (\<lambda>l. dl_source l = None) (ew_lines w)))
             + sum_list (map il_cost (filter (\<lambda>l. 0 < il_cost l) (ins_lines i)))
       else r = Inl (UserError (Text ''no damages in the inspection'')))"
proof -
  have none: "filter (\<lambda>l. \<not> il_cost l \<le> 0) ls = [] \<longleftrightarrow> \<not> list_ex (\<lambda>l. 0 < il_cost l) ls" for ls :: "inspection_line list"
    by (auto simp: filter_empty_conv list_ex_iff not_le)
  have fresh: "filter (\<lambda>l. dl_source l = None) (map (import_line describe) ls) = []" for ls :: "inspection_line list"
    by (simp add: import_line_def filter_empty_conv)
  show ?thesis
  proof (cases "ew_inspection w")
    case (Some i)
    then show ?thesis using none [of "ins_lines i"]
      by (simp add: import_from_inspection_def Let_def op_simps andthen_def bind_def modify_def fresh
          total_deductions_def comp_def import_line_def not_le)
  qed (simp add: import_from_inspection_def op_simps)
qed

end
