(* ===== verification/Sadad.thy ===== *)
theory Sadad
  imports RentPayment
begin

text \<open>
  SADAD invoices for rent payments: \<^verbatim>\<open>sa_sadad/models/sa_sadad_invoice.py\<close>,
  \<^verbatim>\<open>sa_sadad/models/sa_rent_payment.py\<close> and the webhook
  \<^verbatim>\<open>sa_sadad/controllers/sadad_webhook.py\<close>. The picture of the QR code is left out, its text is
  modelled.
\<close>

section \<open>The bill number\<close>

definition digit_of :: "char \<Rightarrow> nat option" where
  "digit_of c = (if is_decimal c then Some (code c - 48) else None)"

text \<open>
  The sum of the check digit. A character that is not a digit is a \<open>ValueError\<close> (\<open>None\<close>); the number of
  characters from one to the end is its position counted from the right.
\<close>

definition luhn_weight :: "nat \<Rightarrow> nat \<Rightarrow> nat" where
  "luhn_weight position d =
     (if position mod 2 = 0 then (let d = d * 2 in if d > 9 then d - 9 else d) else d)"

fun luhn_sum :: "string \<Rightarrow> nat option" where
  "luhn_sum [] = Some 0"
| "luhn_sum (c # cs) =
     Option.bind (digit_of c) (\<lambda>d.
       map_option (\<lambda>rest. luhn_weight (length (c # cs)) d + rest) (luhn_sum cs))"

definition luhn_check_digit :: "string \<Rightarrow> nat option" where
  "luhn_check_digit payload = map_option (\<lambda>s. (10 - s mod 10) mod 10) (luhn_sum payload)"

definition bill_base :: "char_field \<Rightarrow> nat \<Rightarrow> nat \<Rightarrow> string" where
  "bill_base biller_code payment tenant =
     take 4 (pad_zero 4 (or_str biller_code ''9999''))
     @ take 10 (pad_zero 5 (str_nat payment) @ pad_zero 5 (str_nat tenant))"

definition bill_number :: "char_field \<Rightarrow> nat \<Rightarrow> nat \<Rightarrow> py_error + string" where
  "bill_number biller_code payment tenant =
     (let base = bill_base biller_code payment tenant in
      case luhn_check_digit base of
        None \<Rightarrow> Inl ValueError
      | Some check \<Rightarrow> Inr (base @ str_nat check))"

definition qr_payload :: "string \<Rightarrow> string \<Rightarrow> string" where
  "qr_payload base_url bill = base_url @ ''/sadad/pay/'' @ bill"

section \<open>Invoices\<close>

datatype sadad_state = SPending | SPaid | SCancelled | SExpired

record sadad_invoice =
  si_payment :: nat
  si_bill :: string
  si_qr :: string
  si_issue :: date
  si_expiry :: date
  si_state :: sadad_state
  si_ref :: string
  si_channel :: string

record sadad_db =
  sd_payments :: "nat \<rightharpoonup> rent_payment"
  sd_tenant :: "nat \<Rightarrow> nat"
  sd_contract_type :: "nat \<Rightarrow> string"
  sd_invoices :: "nat \<rightharpoonup> sadad_invoice"
  sd_next :: nat
  sd_books :: accounting
  sd_today :: date
  sd_biller :: string
  sd_expiry_days :: "int option"
  sd_base_url :: string
  sd_token :: string
  sd_log :: "(nat \<times> string) list"

type_synonym 'a sop = "(sadad_db, exn, 'a) opn"

definition on_invoice :: "nat \<Rightarrow> (sadad_invoice \<Rightarrow> 'a sop) \<Rightarrow> 'a sop" where
  "on_invoice k f s = (case sd_invoices s k of None \<Rightarrow> (Inl (Py KeyError), s) | Some i \<Rightarrow> f i s)"

definition upd_invoice :: "nat \<Rightarrow> (sadad_invoice \<Rightarrow> sadad_invoice) \<Rightarrow> unit sop" where
  "upd_invoice k g = modify (\<lambda>s. s\<lparr>sd_invoices := (sd_invoices s)(k := map_option g (sd_invoices s k))\<rparr>)"

definition sadad_refuse :: "string \<Rightarrow> 'a sop" where
  "sadad_refuse t = raise (UserError (Text t))"

text \<open>The invoices that are there, latest issue date first, then latest record.\<close>

definition invoice_ids :: "sadad_db \<Rightarrow> nat list" where
  "invoice_ids s =
     rev (sort_key (\<lambda>k. case sd_invoices s k of None \<Rightarrow> 0 | Some i \<Rightarrow> si_issue i)
       (filter (\<lambda>k. sd_invoices s k \<noteq> None) [0..<sd_next s]))"

text \<open>\<open>create\<close>: the record, its number, its expiry (the setting has to be a number), the text of its code.\<close>

definition create_sadad :: "nat \<Rightarrow> nat sop" where
  "create_sadad payment s =
     (let k = sd_next s in
      case bill_number (Some (sd_biller s)) payment (sd_tenant s payment) of
        Inl e \<Rightarrow> (Inl (Py e), s)
      | Inr bill \<Rightarrow>
          (case sd_expiry_days s of
             None \<Rightarrow> (Inl (Py ValueError), s)
           | Some days \<Rightarrow> (Inr k, s\<lparr>
               sd_invoices := (sd_invoices s)(k \<mapsto> \<lparr>si_payment = payment, si_bill = bill,
                 si_qr = qr_payload (sd_base_url s) bill, si_issue = sd_today s,
                 si_expiry = sd_today s + days, si_state = SPending, si_ref = [], si_channel = []\<rparr>),
               sd_next := k + 1\<rparr>)))"

definition has_active_sadad :: "sadad_db \<Rightarrow> nat \<Rightarrow> bool" where
  "has_active_sadad s payment =
     list_ex (\<lambda>k. case sd_invoices s k of None \<Rightarrow> False
        | Some i \<Rightarrow> si_payment i = payment \<and> si_state i = SPending) (invoice_ids s)"

definition generate_sadad :: "nat \<Rightarrow> nat sop" where
  "generate_sadad payment s =
     (case sd_payments s payment of
        None \<Rightarrow> (Inl (Py KeyError), s)
      | Some p \<Rightarrow>
          (if rp_state p \<in> {Paid, Cancelled} then sadad_refuse ''the payment is paid or cancelled''
           else if has_active_sadad s payment then sadad_refuse ''there is an active invoice''
           else create_sadad payment) s)"

text \<open>\<open>_mark_paid\<close>: what happens to the rent payment, with the invoice and its settlement tried.\<close>

definition settle_rent :: "accounting \<Rightarrow> string \<Rightarrow> date \<Rightarrow> string \<Rightarrow> string \<Rightarrow> rent_payment \<Rightarrow> rent_payment" where
  "settle_rent A contract_type today bill ref p =
     (if rp_state p \<in> {Pending, Overdue, Partial}
      then snd (create_invoice_and_reconcile A contract_type
             (p\<lparr>rp_state := Paid, rp_amount_paid := rp_amount p, rp_paid_on := Some today,
                rp_method := Some ''sadad'', rp_sadad := Some bill, rp_bank_ref := Some ref\<rparr>))
      else p)"

definition mark_sadad_paid :: "string \<Rightarrow> string \<Rightarrow> nat \<Rightarrow> unit sop" where
  "mark_sadad_paid ref channel k = on_invoice k (\<lambda>i.
     if si_state i = SPaid then ret ()
     else
       andthen (upd_invoice k (\<lambda>i. i\<lparr>si_state := SPaid, si_ref := ref, si_channel := channel\<rparr>))
       (andthen (modify (\<lambda>s. s\<lparr>sd_payments := (sd_payments s)(si_payment i :=
            map_option (settle_rent (sd_books s) (sd_contract_type s (si_payment i)) (sd_today s) (si_bill i) ref)
              (sd_payments s (si_payment i)))\<rparr>))
          (modify (\<lambda>s. s\<lparr>sd_log := sd_log s @ [(k, channel)]\<rparr>))))"

definition cancel_sadad :: "nat \<Rightarrow> unit sop" where
  "cancel_sadad k = on_invoice k (\<lambda>i.
     if si_state i = SPaid then sadad_refuse ''a paid invoice cannot be cancelled''
     else upd_invoice k (\<lambda>i. i\<lparr>si_state := SCancelled\<rparr>))"

definition simulate_payment :: "nat \<Rightarrow> unit sop" where
  "simulate_payment k = on_invoice k (\<lambda>i.
     if si_state i \<noteq> SPending then sadad_refuse ''the invoice is not pending''
     else mark_sadad_paid (''SIM-'' @ str_nat k) ''Simulation'' k)"

definition regenerate_qr :: "nat \<Rightarrow> unit sop" where
  "regenerate_qr k s = upd_invoice k (\<lambda>i. i\<lparr>si_qr := qr_payload (sd_base_url s) (si_bill i)\<rparr>) s"

definition expire_sadad :: "nat sop" where
  "expire_sadad s =
     (let late = filter (\<lambda>k. case sd_invoices s k of None \<Rightarrow> False
                   | Some i \<Rightarrow> si_state i = SPending \<and> si_expiry i < sd_today s) (invoice_ids s)
      in (Inr (length late), s\<lparr>sd_invoices := (\<lambda>k. if k \<in> set late
             then map_option (\<lambda>i. i\<lparr>si_state := SExpired\<rparr>) (sd_invoices s k) else sd_invoices s k)\<rparr>))"

section \<open>The webhook\<close>

datatype wire_amount = NoAmount | Number rat | BadAmount

record sadad_body =
  sb_bill :: char_field
  sb_amount :: wire_amount
  sb_ref :: string
  sb_channel :: string

datatype sadad_answer =
  InvalidToken | MissingBill | BillNotFound | AlreadyPaid | InvoiceCancelled | PaidNow rat

definition find_bill :: "sadad_db \<Rightarrow> string \<Rightarrow> nat option" where
  "find_bill s bill =
     List.find (\<lambda>k. case sd_invoices s k of None \<Rightarrow> False | Some i \<Rightarrow> si_bill i = bill) (invoice_ids s)"

definition invoice_amount :: "sadad_db \<Rightarrow> sadad_invoice \<Rightarrow> rat" where
  "invoice_amount s i = (case sd_payments s (si_payment i) of None \<Rightarrow> 0 | Some p \<Rightarrow> rp_amount p)"

text \<open>A different amount is only logged; \<open>float\<close> of something else than a number fails.\<close>

definition sadad_webhook :: "string \<Rightarrow> sadad_body \<Rightarrow> sadad_answer sop" where
  "sadad_webhook token body s =
     (if token \<noteq> sd_token s then ret InvalidToken
      else if \<not> is_set (sb_bill body) then ret MissingBill
      else case find_bill s (the (sb_bill body)) of
        None \<Rightarrow> ret BillNotFound
      | Some k \<Rightarrow> on_invoice k (\<lambda>i.
          if si_state i = SPaid then ret AlreadyPaid
          else if si_state i = SCancelled then ret InvoiceCancelled
          else if sb_amount body = BadAmount then raise (Py ValueError)
          else andthen (mark_sadad_paid (sb_ref body) (sb_channel body) k)
                 (ret (PaidNow (invoice_amount s i))))) s"

text \<open>The page behind the code: no token, only a pending invoice is paid; it says whether it was.\<close>

definition sadad_pay_confirm :: "string \<Rightarrow> bool sop" where
  "sadad_pay_confirm bill s =
     (case find_bill s bill of
        None \<Rightarrow> ret False
      | Some k \<Rightarrow> on_invoice k (\<lambda>i.
          if si_state i \<noteq> SPending then ret False
          else andthen (mark_sadad_paid (''SIM-WEB-'' @ str_nat k) ''Web Simulator'' k) (ret True))) s"

section \<open>The check digit\<close>

lemma digit_of_decimal: "is_decimal c \<Longrightarrow> \<exists>d. digit_of c = Some d \<and> d < 10"
  by (auto simp: digit_of_def is_decimal_def)

lemma digit_of_inject: "digit_of a = Some m \<Longrightarrow> digit_of b = Some n \<Longrightarrow> m = n \<longleftrightarrow> a = b"
  by (auto simp: digit_of_def is_decimal_def eq_diff_iff split: if_splits)

lemma luhn_sum_total: "list_all is_decimal ds \<Longrightarrow> \<exists>n. luhn_sum ds = Some n"
  by (induction ds) (auto dest: digit_of_decimal)

text \<open>Each weight is a permutation of the digits.\<close>

lemma luhn_weight_inject:
  "m < 10 \<Longrightarrow> n < 10 \<Longrightarrow> luhn_weight k m mod 10 = luhn_weight k n mod 10 \<longleftrightarrow> m = n"
  by (auto simp: luhn_weight_def Let_def) presburger+

lemma nat_add_mod_cancel: "(a + x) mod 10 = (b + x) mod 10 \<longleftrightarrow> a mod 10 = b mod (10 :: nat)"
proof -
  have "int ((a + x) mod 10) = int ((b + x) mod 10) \<longleftrightarrow> int (a mod 10) = int (b mod 10)"
    unfolding zmod_int by (simp add: mod_eq_dvd_iff)
  then show ?thesis by simp
qed

lemma check_digit_inject: "(10 - a mod 10) mod 10 = (10 - b mod 10) mod 10 \<longleftrightarrow> a mod 10 = b mod (10 :: nat)"
  by (cases "a mod 10 = 0"; cases "b mod 10 = 0") auto

lemma luhn_sum_update:
  assumes "list_all is_decimal ds" and "i < length ds" and "is_decimal c"
    and "luhn_sum ds = Some a" and "luhn_sum (ds[i := c]) = Some b"
  shows "a mod 10 = b mod 10 \<longleftrightarrow> ds ! i = c"
  using assms
proof (induction ds arbitrary: i a b)
  case (Cons d ds)
  obtain m where m: "digit_of d = Some m" "m < 10" using Cons.prems(1) digit_of_decimal by auto
  show ?case
  proof (cases i)
    case 0
    obtain n where n: "digit_of c = Some n" "n < 10" using Cons.prems(3) digit_of_decimal by auto
    show ?thesis
      using Cons.prems(4,5) m n luhn_weight_inject [OF m(2) n(2)] digit_of_inject [OF m(1) n(1)]
      by (auto simp: 0 nat_add_mod_cancel)
  next
    case (Suc j)
    obtain a' where a': "luhn_sum ds = Some a'" "a = luhn_weight (length (d # ds)) m + a'"
      using Cons.prems(4) m by auto
    obtain b' where b': "luhn_sum (ds[j := c]) = Some b'" "b = luhn_weight (length (d # ds)) m + b'"
      using Cons.prems(5) m by (auto simp: Suc)
    have "a' mod 10 = b' mod 10 \<longleftrightarrow> ds ! j = c"
      using Cons.prems(1-3) by (intro Cons.IH) (auto simp: Suc a' b')
    then show ?thesis
      unfolding a'(2) b'(2) using nat_add_mod_cancel [of a' "luhn_weight (length (d # ds)) m" b']
      by (simp add: Suc add.commute [of "luhn_weight (Suc (length ds)) m"])
  qed
qed simp

text \<open>
  The check digit notices every mistyped digit: two numbers that differ in one digit have
  different check digits, and every number of digits has one.
\<close>

theorem check_digit_detects:
  assumes "list_all is_decimal ds" and "i < length ds" and "is_decimal c" and "c \<noteq> ds ! i"
  shows "\<exists>m n. luhn_check_digit ds = Some m \<and> luhn_check_digit (ds[i := c]) = Some n \<and> m < 10 \<and> n < 10 \<and> m \<noteq> n"
proof -
  have "list_all is_decimal (ds[i := c])"
    using assms(1,3) by (auto simp: list_all_iff dest: set_update_subset_insert [THEN subsetD])
  then obtain a b where ab: "luhn_sum ds = Some a" "luhn_sum (ds[i := c]) = Some b"
    using luhn_sum_total assms(1) by metis
  show ?thesis
    using luhn_sum_update [OF assms(1-3) ab] assms(4) ab
    by (auto simp: luhn_check_digit_def check_digit_inject)
qed

theorem check_digit_detects_witness:
  "\<exists>m n. luhn_check_digit ''99990000100002'' = Some m \<and> luhn_check_digit (''99990000100002''[9 := CHR ''7'']) = Some n
     \<and> m < 10 \<and> n < 10 \<and> m \<noteq> n"
  by (rule check_digit_detects) (simp_all add: is_decimal_def)

section \<open>What a bill number identifies\<close>

lemma str_nat_length: "n < 10 ^ Suc k \<Longrightarrow> length (str_nat n) \<le> Suc k"
proof (induction k arbitrary: n)
  case 0
  then show ?case by (simp add: str_nat.simps)
next
  case (Suc k)
  show ?case
  proof (cases "n < 10")
    case False
    have "n div 10 < 10 ^ Suc k" using Suc.prems by (simp add: less_mult_imp_div_less)
    from Suc.IH [OF this] show ?thesis using False by (subst str_nat.simps) simp
  qed (simp add: str_nat.simps)
qed

lemma str_nat_length_ge: "10 ^ k \<le> n \<Longrightarrow> Suc k \<le> length (str_nat n)"
proof (induction k arbitrary: n)
  case 0
  then show ?case by (simp add: Suc_le_eq str_nat_nonempty)
next
  case (Suc k)
  have "10 ^ k \<le> n div 10" using Suc.prems by (simp add: less_eq_div_iff_mult_less_eq mult.commute)
  from Suc.IH [OF this] have "Suc k \<le> length (str_nat (n div 10))" .
  moreover have "10 * 1 \<le> 10 * (10 :: nat) ^ k" by (rule mult_le_mono2) simp
  then have "\<not> n < 10" using Suc.prems unfolding power_Suc by linarith
  ultimately show ?case by (subst str_nat.simps) simp
qed

lemma take_ten:
  "length a = 5 \<Longrightarrow> length q = 4 \<Longrightarrow> take 10 ((a @ [z]) @ q @ [l]) = a @ z # q"
  "length a = 5 \<Longrightarrow> length q = 4 \<Longrightarrow> take 10 (a @ z # q) = a @ z # q"
  by simp_all

lemma digit_zero: "n mod 10 = 0 \<Longrightarrow> digit_char n = CHR ''0''"
proof -
  have "digit_char 0 = CHR ''0''" by code_simp
  then show "n mod 10 = 0 \<Longrightarrow> digit_char n = CHR ''0''" by (simp add: digit_char_def)
qed

lemma str_nat_small: "n < 10 \<Longrightarrow> str_nat n = [digit_char n]"
  by (subst str_nat.simps) simp

lemma str_nat_large: "10 \<le> n \<Longrightarrow> str_nat n = str_nat (n div 10) @ [digit_char n]"
  by (subst str_nat.simps) simp

lemma pad_zero_last: "\<exists>c. pad_zero 5 (str_nat n) = pad_zero 4 (str_nat (n div 10)) @ [c]"
proof (cases "n < 10")
  case True
  then have "pad_zero 5 (str_nat n) = ''000'' @ [CHR ''0''] @ [digit_char n]"
    by (simp add: str_nat_small pad_zero_def eval_nat_numeral)
  moreover have "pad_zero 4 (str_nat (n div 10)) = ''000'' @ [CHR ''0'']"
  proof -
    have "n div 10 = 0" using True by simp
    then have zero: "str_nat (n div 10) = [CHR ''0'']" using str_nat_small [of 0] digit_zero [of 0] by simp
    show ?thesis unfolding pad_zero_def zero by (simp add: eval_nat_numeral)
  qed
  ultimately show ?thesis by simp
next
  case False
  then have "str_nat n = str_nat (n div 10) @ [digit_char n]" by (intro str_nat_large) simp
  then show ?thesis by (simp add: pad_zero_def)
qed

lemma pad_zero_length: "length s \<le> k \<Longrightarrow> length (pad_zero k s) = k"
  by (simp add: pad_zero_def)

lemma pad_zero_decimal: "list_all is_decimal s \<Longrightarrow> list_all is_decimal (pad_zero k s)"
  by (auto simp: pad_zero_def list_all_iff is_decimal_def split: if_splits)

lemma read_pad_zero [simp]: "read_nat (pad_zero k s) = read_nat s"
proof -
  have "read_nat (replicate n (CHR ''0'') @ s) = read_nat s" for n
    by (induction n) (simp_all add: read_nat_def)
  then show ?thesis by (simp add: pad_zero_def)
qed

text \<open>A biller code of four digits.\<close>

definition biller_code :: "string \<Rightarrow> bool" where
  "biller_code b \<longleftrightarrow> length b = 4 \<and> list_all is_decimal b"

lemma bill_base_small:
  assumes "biller_code b" and "payment < 100000" and "tenant < 100000"
  shows "bill_base (Some b) payment tenant = b @ pad_zero 5 (str_nat payment) @ pad_zero 5 (str_nat tenant)"
    and "length (pad_zero 5 (str_nat payment)) = 5" and "length (pad_zero 5 (str_nat tenant)) = 5"
proof -
  show l: "length (pad_zero 5 (str_nat payment)) = 5" "length (pad_zero 5 (str_nat tenant)) = 5"
    using assms(2,3) str_nat_length [of payment 4] str_nat_length [of tenant 4]
    by (simp_all add: pad_zero_length)
  have "pad_zero 4 b = b" "b \<noteq> []" using assms(1) by (auto simp: biller_code_def pad_zero_def)
  then show "bill_base (Some b) payment tenant = b @ pad_zero 5 (str_nat payment) @ pad_zero 5 (str_nat tenant)"
    using assms(1) l by (simp add: bill_base_def biller_code_def)
qed

lemma bill_base_decimal: "list_all is_decimal b \<Longrightarrow> list_all is_decimal (bill_base (Some b) payment tenant)"
  using pad_zero_decimal [OF str_nat_decimal, of 5]
  by (auto simp: bill_base_def list_all_iff or_str_def pad_zero_def is_decimal_def
      dest!: in_set_takeD split: if_splits)

text \<open>
  Property C22. With a biller code of four digits and record ids below 100000, a bill number has 15 digits,
  and payment and tenant can be read back from it. From 100000 on the ids are cut: the payment
  \<open>10 p\<close> of a tenant has the bill number of payment \<open>p\<close> of the tenant with a tenth of the id.
\<close>

theorem bill_number_roundtrip:
  assumes "biller_code b" and "payment < 100000" and "tenant < 100000"
  shows "(\<exists>bill. bill_number (Some b) payment tenant = Inr bill \<and> length bill = 15 \<and> list_all is_decimal bill
      \<and> take 4 bill = b \<and> read_nat (take 5 (drop 4 bill)) = payment \<and> read_nat (take 5 (drop 9 bill)) = tenant)
    \<and> (if 10000 \<le> payment
       then bill_number (Some b) (10 * payment) tenant = bill_number (Some b) payment (tenant div 10) else True)"
proof (rule conjI)
  note base = bill_base_small [OF assms]
  have dec: "list_all is_decimal (bill_base (Some b) payment tenant)"
    using assms(1) by (simp add: biller_code_def bill_base_decimal)
  then obtain c where c: "luhn_check_digit (bill_base (Some b) payment tenant) = Some c" "c < 10"
    using luhn_sum_total by (force simp: luhn_check_digit_def)
  then have "length (str_nat c) = 1" by (simp add: str_nat.simps)
  then show "\<exists>bill. bill_number (Some b) payment tenant = Inr bill \<and> length bill = 15 \<and> list_all is_decimal bill
      \<and> take 4 bill = b \<and> read_nat (take 5 (drop 4 bill)) = payment \<and> read_nat (take 5 (drop 9 bill)) = tenant"
    using assms(1) base c dec str_nat_decimal [of c]
    by (simp add: bill_number_def Let_def biller_code_def)
next
  show "if 10000 \<le> payment
       then bill_number (Some b) (10 * payment) tenant = bill_number (Some b) payment (tenant div 10) else True"
  proof (cases "10000 \<le> payment")
    case True
    have five: "length (str_nat payment) = 5"
      using True assms(2) str_nat_length [of payment 4] str_nat_length_ge [of 4 payment] by simp
    have shift: "str_nat (10 * payment) = str_nat payment @ ''0''"
      using True str_nat_large [of "10 * payment"] by (simp add: digit_zero)
    have short: "length (str_nat (tenant div 10)) \<le> 4"
      using assms(3) str_nat_length [of "tenant div 10" 3] by (simp add: less_mult_imp_div_less)
    obtain last where last: "pad_zero 5 (str_nat tenant) = pad_zero 4 (str_nat (tenant div 10)) @ [last]"
      using pad_zero_last by blast
    have lead: "pad_zero 5 (str_nat (tenant div 10)) = CHR ''0'' # pad_zero 4 (str_nat (tenant div 10))"
    proof -
      have "5 - length (str_nat (tenant div 10)) = Suc (4 - length (str_nat (tenant div 10)))"
        using short by simp
      then show ?thesis by (simp add: pad_zero_def)
    qed
    have "pad_zero 5 (str_nat payment) = str_nat payment" "pad_zero 5 (str_nat payment @ ''0'') = str_nat payment @ ''0''"
      using five by (simp_all add: pad_zero_def)
    then have "bill_base (Some b) (10 * payment) tenant = bill_base (Some b) payment (tenant div 10)"
      unfolding bill_base_def last lead shift
      by (simp only: take_ten [OF five pad_zero_length [OF short]])
    then show ?thesis by (simp add: bill_number_def Let_def)
  qed simp
qed

theorem bill_number_roundtrip_witness:
  "bill_number (Some ''9999'') 123450 67 = bill_number (Some ''9999'') 12345 6"
  using bill_number_roundtrip [of "''9999''" 12345 67] by (simp add: biller_code_def is_decimal_def)

text \<open>The number of the textbooks for Luhn's algorithm, whose check digit there is 3.\<close>

lemma textbook_number: "luhn_check_digit ''7992739871'' = Some 4"
  by code_simp

section \<open>Paying an invoice\<close>

lemma on_invoice_run [op_simps]: "sd_invoices s k = Some i \<Longrightarrow> on_invoice k f s = f i s"
  by (simp add: on_invoice_def)

lemma upd_invoice_run [op_simps]:
  "upd_invoice k g s = (Inr (), s\<lparr>sd_invoices := (sd_invoices s)(k := map_option g (sd_invoices s k))\<rparr>)"
  "sadad_refuse t s = (Inl (UserError (Text t)), s)"
  by (simp_all add: upd_invoice_def sadad_refuse_def op_simps)

lemma mark_paid_run:
  assumes "sd_invoices s k = Some i" and "si_state i \<noteq> SPaid"
  shows "mark_sadad_paid ref channel k s = (Inr (),
    s\<lparr>sd_invoices := (sd_invoices s)(k \<mapsto> i\<lparr>si_state := SPaid, si_ref := ref, si_channel := channel\<rparr>),
      sd_payments := (sd_payments s)(si_payment i :=
        map_option (settle_rent (sd_books s) (sd_contract_type s (si_payment i)) (sd_today s) (si_bill i) ref)
          (sd_payments s (si_payment i))),
      sd_log := sd_log s @ [(k, channel)]\<rparr>)"
  using assms by (simp add: mark_sadad_paid_def op_simps andthen_def bind_def)

text \<open>Changing the state of an invoice does not change what a search finds.\<close>

lemma invoice_ids_change:
  assumes "sd_invoices s k = Some i" and "sd_invoices s' = (sd_invoices s)(k \<mapsto> j)"
    and "si_issue j = si_issue i" and "sd_next s' = sd_next s"
  shows "invoice_ids s' = invoice_ids s"
proof -
  have "(\<lambda>m. sd_invoices s' m \<noteq> None) = (\<lambda>m. sd_invoices s m \<noteq> None)"
    "(\<lambda>m. case sd_invoices s' m of None \<Rightarrow> 0 | Some i \<Rightarrow> si_issue i)
       = (\<lambda>m. case sd_invoices s m of None \<Rightarrow> 0 | Some i \<Rightarrow> si_issue i)"
    using assms by auto
  then show ?thesis using assms(4) by (simp add: invoice_ids_def)
qed

lemma find_bill_change:
  assumes "sd_invoices s k = Some i" and "sd_invoices s' = (sd_invoices s)(k \<mapsto> j)"
    and "si_issue j = si_issue i" and "si_bill j = si_bill i" and "sd_next s' = sd_next s"
  shows "find_bill s' b = find_bill s b"
proof -
  have "(\<lambda>m. case sd_invoices s' m of None \<Rightarrow> False | Some i \<Rightarrow> si_bill i = b)
      = (\<lambda>m. case sd_invoices s m of None \<Rightarrow> False | Some i \<Rightarrow> si_bill i = b)"
    using assms by auto
  then show ?thesis using invoice_ids_change [OF assms(1-3,5)] by (simp add: find_bill_def)
qed

lemma settle_rent_paid:
  assumes "rp_state p \<in> {Pending, Overdue, Partial}"
  shows "rp_state (settle_rent A c today b ref p) = Paid"
    and "rp_amount_paid (settle_rent A c today b ref p) = rp_amount p"
proof -
  have inv: "rp_state (snd (create_invoice A c q)) = rp_state q"
    "rp_amount_paid (snd (create_invoice A c q)) = rp_amount_paid q" for q
    by (subst create_invoice_fields, simp)+
  have "rp_state (snd (create_invoice_and_reconcile A c q)) = rp_state q
      \<and> rp_amount_paid (snd (create_invoice_and_reconcile A c q)) = rp_amount_paid q" for q
    using inv [of q]
    by (cases "create_invoice A c q")
      (auto simp: create_invoice_and_reconcile_def andthen_def bind_def modify_def split: sum.split)
  then show "rp_state (settle_rent A c today b ref p) = Paid"
    "rp_amount_paid (settle_rent A c today b ref p) = rp_amount p"
    using assms by (simp_all add: settle_rent_def)
qed

text \<open>
  Property C20. A request with the token for the bill of an invoice that is neither paid nor cancelled (an
  expired one too), whose rent payment is pending, overdue or paid in part: whatever number the request
  names as amount, and when it names none, the rent payment is settled in full; no other payment or invoice
  changes, and the same request again is answered as already paid and changes nothing. (An amount that is a
  text without a number ends the request with an error, and a cancelled rent payment is left as it is.)
\<close>

theorem webhook_settles:
  assumes "sb_bill body = Some b" and "b \<noteq> []" and "find_bill s b = Some k" and "sd_invoices s k = Some i"
    and "si_state i \<in> {SPending, SExpired}" and "sb_amount body \<noteq> BadAmount"
    and "sd_payments s (si_payment i) = Some p" and "rp_state p \<in> {Pending, Overdue, Partial}"
  shows "case sadad_webhook (sd_token s) body s of (r, s') \<Rightarrow>
    r = Inr (PaidNow (rp_amount p))
    \<and> (\<exists>q. sd_payments s' (si_payment i) = Some q \<and> rp_state q = Paid \<and> rp_amount_paid q = rp_amount p)
    \<and> (\<forall>j. j = si_payment i \<or> sd_payments s' j = sd_payments s j)
    \<and> (\<forall>j. j = k \<or> sd_invoices s' j = sd_invoices s j)
    \<and> sadad_webhook (sd_token s) body s' = (Inr AlreadyPaid, s')"
proof -
  let ?j = "i\<lparr>si_state := SPaid, si_ref := sb_ref body, si_channel := sb_channel body\<rparr>"
  have unpaid: "si_state i \<noteq> SPaid" "si_state i \<noteq> SCancelled" using assms(5) by auto
  obtain s' where s': "mark_sadad_paid (sb_ref body) (sb_channel body) k s = (Inr (), s')"
    "sd_invoices s' = (sd_invoices s)(k \<mapsto> ?j)" "sd_next s' = sd_next s" "sd_token s' = sd_token s"
    "sd_payments s' = (sd_payments s)(si_payment i \<mapsto> settle_rent (sd_books s)
       (sd_contract_type s (si_payment i)) (sd_today s) (si_bill i) (sb_ref body) p)"
    using mark_paid_run [OF assms(4) unpaid(1)] assms(7) by simp
  have "sadad_webhook (sd_token s) body s = (Inr (PaidNow (rp_amount p)), s')"
    using assms(1-4,6,7) unpaid s'(1)
    by (simp add: sadad_webhook_def op_simps andthen_def bind_def invoice_amount_def)
  moreover have "find_bill s' b = Some k"
    using find_bill_change [OF assms(4) s'(2) _ _ s'(3)] assms(3) by simp
  then have "sadad_webhook (sd_token s) body s' = (Inr AlreadyPaid, s')"
    using assms(1,2) s'(2,4) by (simp add: sadad_webhook_def op_simps)
  ultimately show ?thesis using s'(2,5) settle_rent_paid [OF assms(8)] by auto
qed

text \<open>
  Every other request leaves the database as it is: a wrong token, a missing, unknown,
  paid or cancelled bill, an amount that is no number.
\<close>

theorem webhook_guarded:
  "case sadad_webhook token body s of (r, s') \<Rightarrow>
     (case r of Inr (PaidNow a) \<Rightarrow> token = sd_token s | _ \<Rightarrow> s' = s)"
proof (cases "token = sd_token s \<and> is_set (sb_bill body)")
  case True
  show ?thesis
  proof (cases "find_bill s (the (sb_bill body))")
    case (Some k)
    show ?thesis
    proof (cases "sd_invoices s k")
      case i: (Some i)
      show ?thesis
        using True Some i mark_paid_run [OF i]
        by (cases "si_state i = SPaid") (simp_all add: sadad_webhook_def op_simps andthen_def bind_def)
    qed (use True Some in \<open>simp add: sadad_webhook_def on_invoice_def\<close>)
  qed (use True in \<open>simp add: sadad_webhook_def op_simps\<close>)
qed (auto simp: sadad_webhook_def op_simps)

definition sample_sadad :: sadad_db where
  "sample_sadad = \<lparr>sd_payments = [1 \<mapsto> new_payment 738886 1000 Rent], sd_tenant = (\<lambda>_. 5),
     sd_contract_type = (\<lambda>_. ''residential''), sd_invoices = Map.empty, sd_next = 1,
     sd_books = sample_books, sd_today = 738890, sd_biller = ''9999'', sd_expiry_days = Some 30,
     sd_base_url = ''http://localhost:8069'', sd_token = ''secret'', sd_log = []\<rparr>"

definition sample_sadad_invoiced :: sadad_db where
  "sample_sadad_invoiced = snd (generate_sadad 1 sample_sadad)"

lemma sample_sadad_invoice:
  "sample_sadad_invoiced = sample_sadad\<lparr>sd_invoices := [1 \<mapsto> \<lparr>si_payment = 1, si_bill = ''999900001000057'',
     si_qr = ''http://localhost:8069/sadad/pay/999900001000057'', si_issue = 738890, si_expiry = 738920,
     si_state = SPending, si_ref = [], si_channel = []\<rparr>], sd_next := 2\<rparr>"
proof -
  have "bill_number (Some ''9999'') 1 5 = Inr ''999900001000057''" by code_simp
  then show ?thesis
    by (simp add: sample_sadad_invoiced_def generate_sadad_def sample_sadad_def new_payment_def
        has_active_sadad_def invoice_ids_def create_sadad_def Let_def op_simps qr_payload_def)
qed

theorem webhook_settles_witness:
  "fst (sadad_webhook ''secret'' \<lparr>sb_bill = Some ''999900001000057'', sb_amount = Number 1, sb_ref = ''R'',
     sb_channel = ''ATM''\<rparr> sample_sadad_invoiced) = Inr (PaidNow 1000)"
proof -
  have "find_bill sample_sadad_invoiced ''999900001000057'' = Some 1" "sd_token sample_sadad_invoiced = ''secret''"
    by (simp_all add: find_bill_def invoice_ids_def sample_sadad_invoice sample_sadad_def upt_rec)
  with webhook_settles [of "\<lparr>sb_bill = Some ''999900001000057'', sb_amount = Number 1, sb_ref = ''R'',
     sb_channel = ''ATM''\<rparr>" "''999900001000057''" sample_sadad_invoiced 1]
  show ?thesis by (simp add: sample_sadad_invoice sample_sadad_def split_beta new_payment_def)
qed

section \<open>One active invoice per payment\<close>

definition one_active :: "sadad_db \<Rightarrow> bool" where
  "one_active s \<longleftrightarrow> (\<forall>k i. sd_invoices s k = Some i \<longrightarrow> k < sd_next s)
     \<and> (\<forall>k l i j. sd_invoices s k = Some i \<and> sd_invoices s l = Some j \<and> si_state i = SPending
          \<and> si_state j = SPending \<and> si_payment i = si_payment j \<longrightarrow> k = l)"

text \<open>What the operations do: the users' buttons, the daily round, the webhook and the page; the day
  passes and rent payments change in their own ways.\<close>

inductive sadad_reachable :: "sadad_db \<Rightarrow> bool" where
  fresh: "sd_invoices s = Map.empty \<Longrightarrow> sadad_reachable s"
| generate: "sadad_reachable s \<Longrightarrow> sadad_reachable (snd (generate_sadad p s))"
| simulate: "sadad_reachable s \<Longrightarrow> sadad_reachable (snd (simulate_payment k s))"
| cancelled: "sadad_reachable s \<Longrightarrow> sadad_reachable (snd (cancel_sadad k s))"
| redraw: "sadad_reachable s \<Longrightarrow> sadad_reachable (snd (regenerate_qr k s))"
| expired: "sadad_reachable s \<Longrightarrow> sadad_reachable (snd (expire_sadad s))"
| webhook: "sadad_reachable s \<Longrightarrow> sadad_reachable (snd (sadad_webhook token body s))"
| confirm: "sadad_reachable s \<Longrightarrow> sadad_reachable (snd (sadad_pay_confirm bill s))"
| others: "sadad_reachable s \<Longrightarrow> sadad_reachable (s\<lparr>sd_today := d, sd_payments := ps, sd_books := books\<rparr>)"

text \<open>Operations that make no invoice pending and none for another payment.\<close>

definition only_closes :: "sadad_db \<Rightarrow> sadad_db \<Rightarrow> bool" where
  "only_closes s s' \<longleftrightarrow> sd_next s' = sd_next s \<and> (\<forall>k i'. sd_invoices s' k = Some i' \<longrightarrow>
     (\<exists>i. sd_invoices s k = Some i \<and> si_payment i' = si_payment i \<and> (si_state i' = SPending \<longrightarrow> si_state i = SPending)))"

lemma only_closes_one_active: "only_closes s s' \<Longrightarrow> one_active s \<Longrightarrow> one_active s'"
  unfolding only_closes_def one_active_def by metis

lemma only_closes_refl [simp]: "only_closes s s"
  by (simp add: only_closes_def)

lemma only_closes_upd:
  "(\<And>i. si_payment (g i) = si_payment i \<and> (si_state (g i) = SPending \<longrightarrow> si_state i = SPending))
   \<Longrightarrow> only_closes s (snd (upd_invoice k g s))"
  by (auto simp: upd_invoice_def modify_def only_closes_def)

lemma only_closes_mark [simp]: "only_closes s (snd (mark_sadad_paid ref channel k s))"
proof (cases "sd_invoices s k")
  case (Some i)
  then show ?thesis
    using mark_paid_run [OF Some]
    by (cases "si_state i = SPaid") (auto simp: mark_sadad_paid_def op_simps only_closes_def)
qed (simp add: mark_sadad_paid_def on_invoice_def)

lemma andthen_ret_state: "snd (andthen m (ret x) s) = snd (m s)"
  by (cases "m s") (auto simp: andthen_def bind_def ret_def split: sum.split)

lemma only_closes_ops:
  "only_closes s (snd (simulate_payment k s))" "only_closes s (snd (cancel_sadad k s))"
  "only_closes s (snd (regenerate_qr k s))" "only_closes s (snd (expire_sadad s))"
  "only_closes s (snd (sadad_webhook token body s))" "only_closes s (snd (sadad_pay_confirm bill s))"
proof -
  have cancel: "only_closes s (snd (upd_invoice k (\<lambda>i. i\<lparr>si_state := SCancelled\<rparr>) s))"
    by (rule only_closes_upd) simp
  have redraw: "only_closes s (snd (upd_invoice k (\<lambda>i. i\<lparr>si_qr := q i\<rparr>) s))" for q
    by (rule only_closes_upd) simp
  show "only_closes s (snd (simulate_payment k s))"
    by (cases "sd_invoices s k") (simp_all add: simulate_payment_def on_invoice_def upd_invoice_run)
  show "only_closes s (snd (cancel_sadad k s))"
    using cancel by (cases "sd_invoices s k") (simp_all add: cancel_sadad_def on_invoice_def upd_invoice_run(2))
  show "only_closes s (snd (regenerate_qr k s))" unfolding regenerate_qr_def by (rule redraw)
  show "only_closes s (snd (expire_sadad s))"
    by (auto simp: expire_sadad_def Let_def only_closes_def split: if_splits)
  show "only_closes s (snd (sadad_webhook token body s))"
    by (auto simp: sadad_webhook_def on_invoice_def op_evals andthen_ret_state split: option.splits)
  show "only_closes s (snd (sadad_pay_confirm bill s))"
    by (auto simp: sadad_pay_confirm_def on_invoice_def op_evals andthen_ret_state split: option.splits)
qed

lemma generate_one_active:
  assumes "one_active s"
  shows "one_active (snd (generate_sadad p s))"
proof -
  have ids: "set (invoice_ids s) = {k. sd_invoices s k \<noteq> None}"
    using assms by (auto simp: invoice_ids_def one_active_def)
  show ?thesis
  proof (cases "fst (generate_sadad p s)")
    case (Inr k)
    then have none: "\<not> has_active_sadad s p"
      by (auto simp: generate_sadad_def upd_invoice_run split: option.splits if_splits)
    have new: "si_payment i \<noteq> p \<or> si_state i \<noteq> SPending" if "sd_invoices s l = Some i" for l i
    proof -
      have "l \<in> set (invoice_ids s)" using that ids by simp
      with none have "\<not> (si_payment i = p \<and> si_state i = SPending)"
        unfolding has_active_sadad_def list_ex_iff by (auto dest!: bspec simp: that)
      then show ?thesis by simp
    qed
    obtain bill days where made: "snd (generate_sadad p s) =
        s\<lparr>sd_invoices := (sd_invoices s)(sd_next s \<mapsto> \<lparr>si_payment = p, si_bill = bill,
            si_qr = qr_payload (sd_base_url s) bill, si_issue = sd_today s, si_expiry = sd_today s + days,
            si_state = SPending, si_ref = [], si_channel = []\<rparr>), sd_next := sd_next s + 1\<rparr>"
      using Inr by (force simp: generate_sadad_def create_sadad_def Let_def upd_invoice_run
          split: option.splits if_splits sum.splits)
    show ?thesis unfolding made using assms new unfolding one_active_def by (auto simp: less_Suc_eq)
  next
    case (Inl e)
    then have "snd (generate_sadad p s) = s"
      by (auto simp: generate_sadad_def create_sadad_def Let_def upd_invoice_run
          split: option.splits if_splits sum.splits)
    then show ?thesis using assms by simp
  qed
qed

text \<open>
  Property C21. Whatever the buttons, the webhook, the page and the daily round do in any order, a rent
  payment never has two pending SADAD invoices.
\<close>

theorem one_active_invoice:
  assumes "sadad_reachable s"
  shows "one_active s"
  using assms
proof (induction rule: sadad_reachable.induct)
  case (fresh s)
  then show ?case by (simp add: one_active_def)
next
  case (generate s p)
  then show ?case by (simp add: generate_one_active)
next
  case (others s d ps books)
  then show ?case by (simp add: one_active_def)
qed (blast intro: only_closes_one_active only_closes_ops)+

theorem one_active_invoice_witness:
  "one_active sample_sadad_invoiced"
  unfolding sample_sadad_invoiced_def
  by (intro one_active_invoice sadad_reachable.generate sadad_reachable.fresh) (simp add: sample_sadad_def)

end
