(* ===== verification/Crm.thy ===== *)
theory Crm
  imports Tenancy EjarContract
begin

text \<open>
  The CRM: leads (\<^verbatim>\<open>sa_crm/models/sa_crm_lead.py\<close>), reservations
  (\<^verbatim>\<open>sa_crm/models/sa_crm_reservation.py\<close>) and the recommendation of properties
  (\<^verbatim>\<open>sa_crm_ai_match/models/sa_crm_lead_match.py\<close>). Records are numbered; searches come in
  the order of their model, which for users and properties is an argument.
\<close>

section \<open>Records\<close>

datatype lead_category = CLead | COpportunity | CDeal
datatype lead_state = LOpen | LWon | LLost
datatype reservation_state = RDraft | RActive | RExpired | RCancelled | RConverted

record crm_property =
  cp_type :: string
  cp_state :: property_state
  cp_reserved :: bool
  cp_reservation :: "nat option"
  cp_region :: "int option"
  cp_rooms :: int
  cp_bathrooms :: int
  cp_area :: rat
  cp_rent :: rat
  cp_price :: rat
  cp_parking :: int
  cp_pool :: bool
  cp_garden :: bool
  cp_elevator :: bool
  cp_furnished :: char_field
  cp_ejar :: eproperty

record lead =
  ld_partner :: partner
  ld_category :: lead_category
  ld_type :: string
  ld_property_type :: char_field
  ld_budget_max :: rat
  ld_region :: "int option"
  ld_rooms_min :: int
  ld_rooms_max :: int
  ld_bathrooms_min :: int
  ld_area_min :: rat
  ld_area_max :: rat
  ld_furnished :: char_field
  ld_parking :: bool
  ld_pool :: bool
  ld_garden :: bool
  ld_elevator :: bool
  ld_stage :: nat
  ld_state :: lead_state
  ld_active :: bool
  ld_user :: "nat option"
  ld_property :: "nat option"
  ld_opened :: "date option"
  ld_recommended :: "nat list"

record reservation =
  rs_lead :: nat
  rs_property :: nat
  rs_state :: reservation_state
  rs_start :: date
  rs_end :: date
  rs_deposit :: rat

record crm_user =
  us_eligible :: bool
  us_active :: bool
  us_groups :: "string list"

record crm =
  crm_leads :: "nat \<rightharpoonup> lead"
  next_lead :: nat
  reservations :: "nat \<rightharpoonup> reservation"
  next_reservation :: nat
  crm_properties :: "nat \<rightharpoonup> crm_property"
  property_order :: "nat list"
  stages :: "(nat \<times> bool) list"
  users :: "(nat \<times> crm_user) list"
  crm_groups :: "string list"
  crm_today :: date

type_synonym 'a cop = "(crm, exn, 'a) opn"

definition crm_refuse :: "string \<Rightarrow> 'a cop" where
  "crm_refuse t = raise (UserError (Text t))"

definition on_lead :: "nat \<Rightarrow> (lead \<Rightarrow> 'a cop) \<Rightarrow> 'a cop" where
  "on_lead n f s = (case crm_leads s n of None \<Rightarrow> (Inl (Py KeyError), s) | Some l \<Rightarrow> f l s)"

definition on_reservation :: "nat \<Rightarrow> (reservation \<Rightarrow> 'a cop) \<Rightarrow> 'a cop" where
  "on_reservation n f s = (case reservations s n of None \<Rightarrow> (Inl (Py KeyError), s) | Some r \<Rightarrow> f r s)"

definition upd_lead :: "nat \<Rightarrow> (lead \<Rightarrow> lead) \<Rightarrow> unit cop" where
  "upd_lead n g = modify (\<lambda>s. s\<lparr>crm_leads := (crm_leads s)(n := map_option g (crm_leads s n))\<rparr>)"

definition upd_reservation :: "nat \<Rightarrow> (reservation \<Rightarrow> reservation) \<Rightarrow> unit cop" where
  "upd_reservation n g = modify (\<lambda>s. s\<lparr>reservations := (reservations s)(n := map_option g (reservations s n))\<rparr>)"

section \<open>Assignment by load\<close>

text \<open>The eligible agents, in the order of the search; the two groups may be missing.\<close>

definition eligible_agents :: "crm \<Rightarrow> nat list" where
  "eligible_agents s =
     (if ''agent'' \<notin> set (crm_groups s) then []
      else map fst (filter (\<lambda>(_, u). us_eligible u \<and> ''agent'' \<in> set (us_groups u) \<and> us_active u
             \<and> \<not> (''manager'' \<in> set (crm_groups s) \<and> ''manager'' \<in> set (us_groups u))) (users s)))"

definition open_leads :: "crm \<Rightarrow> nat \<Rightarrow> nat" where
  "open_leads s a =
     length (filter (\<lambda>n. case crm_leads s n of None \<Rightarrow> False | Some l \<Rightarrow> ld_user l = Some a \<and> ld_state l = LOpen)
       [0..<next_lead s])"

text \<open>\<open>min\<close> with a key: the first of the smallest.\<close>

fun first_min :: "('a \<Rightarrow> nat) \<Rightarrow> 'a list \<Rightarrow> 'a option" where
  "first_min f [] = None"
| "first_min f (x # xs) =
     (case first_min f xs of None \<Rightarrow> Some x | Some m \<Rightarrow> if f x \<le> f m then Some x else Some m)"

definition least_loaded_agent :: "crm \<Rightarrow> nat option" where
  "least_loaded_agent s = first_min (open_leads s) (eligible_agents s)"

text \<open>
  \<open>create\<close> with a list of values: all agents are chosen before the first record is there.
\<close>

definition with_agent :: "crm \<Rightarrow> lead \<Rightarrow> lead" where
  "with_agent s l = (case ld_user l of None \<Rightarrow> l\<lparr>ld_user := least_loaded_agent s\<rparr> | Some _ \<Rightarrow> l)"

fun insert_leads :: "lead list \<Rightarrow> crm \<Rightarrow> crm" where
  "insert_leads [] s = s"
| "insert_leads (l # ls) s =
     insert_leads ls (s\<lparr>crm_leads := (crm_leads s)(next_lead s \<mapsto> l), next_lead := next_lead s + 1\<rparr>)"

definition create_leads :: "lead list \<Rightarrow> crm \<Rightarrow> crm" where
  "create_leads ls s = insert_leads (map (with_agent s) ls) s"

text \<open>
  The cron over the unassigned leads. The count is a query of its own: whether it sees the assignments
  the loop has made so far depends on the ORM and is the argument \<open>seen\<close>.
\<close>

definition unassigned_leads :: "crm \<Rightarrow> nat list" where
  "unassigned_leads s =
     filter (\<lambda>n. case crm_leads s n of None \<Rightarrow> False | Some l \<Rightarrow> ld_user l = None \<and> ld_state l = LOpen \<and> ld_active l)
       [0..<next_lead s]"

definition assign_lead :: "(crm \<Rightarrow> crm) \<Rightarrow> nat \<Rightarrow> crm \<Rightarrow> crm" where
  "assign_lead seen n s =
     (case least_loaded_agent (seen s) of None \<Rightarrow> s
      | Some a \<Rightarrow> s\<lparr>crm_leads := (crm_leads s)(n := map_option (\<lambda>l. l\<lparr>ld_user := Some a\<rparr>) (crm_leads s n))\<rparr>)"

definition cron_auto_assign :: "(crm \<Rightarrow> crm \<Rightarrow> crm) \<Rightarrow> crm \<Rightarrow> crm" where
  "cron_auto_assign seen s = fold (assign_lead (seen s)) (unassigned_leads s) s"

section \<open>The pipeline\<close>

definition qualify_opportunity :: "nat \<Rightarrow> unit cop" where
  "qualify_opportunity n s = upd_lead n (\<lambda>l.
     l\<lparr>ld_category := COpportunity,
       ld_stage := (case stages s of (a, _) # (b, _) # _ \<Rightarrow> if ld_stage l = a then b else ld_stage l
          | _ \<Rightarrow> ld_stage l)\<rparr>) s"

definition mark_won :: "nat \<Rightarrow> unit cop" where
  "mark_won n s = upd_lead n (\<lambda>l.
     l\<lparr>ld_state := LWon, ld_category := CDeal,
       ld_stage := (case List.find snd (stages s) of None \<Rightarrow> ld_stage l | Some (a, _) \<Rightarrow> a)\<rparr>) s"

definition mark_lost :: "nat \<Rightarrow> unit cop" where
  "mark_lost n = upd_lead n (\<lambda>l. l\<lparr>ld_state := LLost, ld_active := False\<rparr>)"

definition reopen_lead :: "nat \<Rightarrow> unit cop" where
  "reopen_lead n = upd_lead n (\<lambda>l. l\<lparr>ld_state := LOpen, ld_active := True,
     ld_category := (if ld_category l = CDeal then COpportunity else ld_category l)\<rparr>)"

definition days_open :: "date \<Rightarrow> lead \<Rightarrow> int" where
  "days_open today l = (case ld_opened l of None \<Rightarrow> 0 | Some d \<Rightarrow> today - d)"

section \<open>Reservations\<close>

definition reservation_ids :: "crm \<Rightarrow> nat list" where
  "reservation_ids s = filter (\<lambda>k. reservations s k \<noteq> None) [0..<next_reservation s]"

definition reservation_of :: "crm \<Rightarrow> (reservation \<Rightarrow> bool) \<Rightarrow> nat option" where
  "reservation_of s P =
     List.find (\<lambda>k. case reservations s k of None \<Rightarrow> False | Some r \<Rightarrow> P r)
       (rev (sort_key (\<lambda>k. case reservations s k of None \<Rightarrow> 0 | Some r \<Rightarrow> rs_start r) (reservation_ids s)))"

definition active_for :: "nat \<Rightarrow> reservation \<Rightarrow> bool" where
  "active_for p r \<longleftrightarrow> rs_property r = p \<and> rs_state r = RActive"

text \<open>\<open>_compute_is_reserved\<close> of a property.\<close>

definition compute_reserved :: "nat \<Rightarrow> unit cop" where
  "compute_reserved p = modify (\<lambda>s. s\<lparr>crm_properties := (crm_properties s)(p :=
     map_option (\<lambda>x. x\<lparr>cp_reserved := (reservation_of s (active_for p) \<noteq> None),
       cp_reservation := reservation_of s (active_for p)\<rparr>) (crm_properties s p))\<rparr>)"

definition create_reservation :: "nat \<Rightarrow> nat \<Rightarrow> date \<Rightarrow> date \<Rightarrow> rat \<Rightarrow> nat cop" where
  "create_reservation n p d e deposit s =
     (Inr (next_reservation s),
      s\<lparr>reservations := (reservations s)(next_reservation s \<mapsto> \<lparr>rs_lead = n, rs_property = p,
          rs_state = RDraft, rs_start = d, rs_end = e, rs_deposit = deposit\<rparr>),
        next_reservation := next_reservation s + 1\<rparr>)"

definition reservation_days :: "reservation \<Rightarrow> int" where
  "reservation_days r = rs_end r - rs_start r"

definition days_remaining :: "date \<Rightarrow> reservation \<Rightarrow> int" where
  "days_remaining today r = (if rs_state r = RActive then rs_end r - today else 0)"

definition activate_reservation :: "nat \<Rightarrow> unit cop" where
  "activate_reservation k = on_reservation k (\<lambda>r s.
     (if list_ex (\<lambda>j. j \<noteq> k \<and> (case reservations s j of None \<Rightarrow> False | Some r' \<Rightarrow> active_for (rs_property r) r'))
           (reservation_ids s)
      then crm_refuse ''the property is reserved already''
      else
        andthen (upd_reservation k (\<lambda>r. r\<lparr>rs_state := RActive\<rparr>))
        (andthen (upd_lead (rs_lead r) (\<lambda>l. l\<lparr>ld_category := COpportunity\<rparr>))
                 (compute_reserved (rs_property r)))) s)"

definition cancel_reservation :: "nat \<Rightarrow> unit cop" where
  "cancel_reservation k = on_reservation k (\<lambda>r.
     andthen (upd_reservation k (\<lambda>r. r\<lparr>rs_state := RCancelled\<rparr>)) (compute_reserved (rs_property r)))"

definition convert_reservation :: "nat \<Rightarrow> unit cop" where
  "convert_reservation k = on_reservation k (\<lambda>r.
     andthen (upd_reservation k (\<lambda>r. r\<lparr>rs_state := RConverted\<rparr>))
     (andthen (mark_won (rs_lead r)) (compute_reserved (rs_property r))))"

definition expire_reservation :: "date \<Rightarrow> reservation \<Rightarrow> reservation" where
  "expire_reservation today r =
     (if rs_state r = RActive \<and> rs_end r < today then r\<lparr>rs_state := RExpired\<rparr> else r)"

definition expire_reservations :: "unit cop" where
  "expire_reservations s =
     (let expired = filter (\<lambda>k. case reservations s k of None \<Rightarrow> False
            | Some r \<Rightarrow> rs_state r = RActive \<and> rs_end r < crm_today s) (reservation_ids s)
      in andthen (modify (\<lambda>s. s\<lparr>reservations := (\<lambda>k. map_option (expire_reservation (crm_today s)) (reservations s k))\<rparr>))
           (for_each compute_reserved
              (map (\<lambda>k. case reservations s k of None \<Rightarrow> 0 | Some r \<Rightarrow> rs_property r) expired)) s)"

text \<open>The buttons of the lead.\<close>

definition lead_reservation :: "crm \<Rightarrow> nat \<Rightarrow> reservation_state \<Rightarrow> nat option" where
  "lead_reservation s n st = reservation_of s (\<lambda>r. rs_lead r = n \<and> rs_state r = st)"

definition confirm_reservation :: "nat \<Rightarrow> unit cop" where
  "confirm_reservation n s =
     (case lead_reservation s n RDraft of
        None \<Rightarrow> crm_refuse ''no draft reservation''
      | Some k \<Rightarrow> activate_reservation k) s"

definition convert_to_deal :: "nat \<Rightarrow> unit cop" where
  "convert_to_deal n s =
     (case lead_reservation s n RActive of
        None \<Rightarrow> crm_refuse ''no active reservation''
      | Some k \<Rightarrow> convert_reservation k) s"

section \<open>Matching\<close>

text \<open>The domain of the search; a requirement of zero or unset is none.\<close>

definition matches :: "lead \<Rightarrow> crm_property \<Rightarrow> bool" where
  "matches l p \<longleftrightarrow> cp_state p = Available \<and> \<not> cp_reserved p
     \<and> (is_set (ld_property_type l) \<longrightarrow> ld_property_type l = Some (cp_type p))
     \<and> (ld_region l \<noteq> None \<longrightarrow> cp_region p = ld_region l)
     \<and> (ld_rooms_min l \<noteq> 0 \<longrightarrow> cp_rooms p \<ge> ld_rooms_min l)
     \<and> (ld_rooms_max l \<noteq> 0 \<longrightarrow> cp_rooms p \<le> ld_rooms_max l)
     \<and> (ld_bathrooms_min l \<noteq> 0 \<longrightarrow> cp_bathrooms p \<ge> ld_bathrooms_min l)
     \<and> (ld_area_min l \<noteq> 0 \<longrightarrow> cp_area p \<ge> ld_area_min l)
     \<and> (ld_area_max l \<noteq> 0 \<longrightarrow> cp_area p \<le> ld_area_max l)
     \<and> (ld_budget_max l \<noteq> 0 \<longrightarrow>
          (if ld_type l = ''rent'' then cp_rent p \<le> ld_budget_max l
           else if ld_type l = ''buy'' then cp_price p \<le> ld_budget_max l else True))
     \<and> (ld_parking l \<longrightarrow> cp_parking p > 0)
     \<and> (ld_pool l \<longrightarrow> cp_pool p)
     \<and> (ld_garden l \<longrightarrow> cp_garden p)
     \<and> (ld_elevator l \<longrightarrow> cp_elevator p)
     \<and> (is_set (ld_furnished l) \<and> ld_furnished l \<noteq> Some ''any'' \<longrightarrow> cp_furnished p = ld_furnished l)"

definition matching_properties :: "crm \<Rightarrow> lead \<Rightarrow> nat list" where
  "matching_properties s l =
     filter (\<lambda>p. case crm_properties s p of None \<Rightarrow> False | Some x \<Rightarrow> matches l x) (property_order s)"

definition matching_count :: "crm \<Rightarrow> lead \<Rightarrow> nat" where
  "matching_count s l = length (matching_properties s l)"

text \<open>The score: the parts in the order of the code. The parking spaces, a number, are compared with \<open>True\<close>.\<close>

definition near_count :: "int \<Rightarrow> int \<Rightarrow> rat" where
  "near_count want have =
     (if want \<noteq> 0 \<and> have \<noteq> 0 then min 10 (max 0 (10 - of_int \<bar>have - want\<bar>)) else 0)"

definition near_amount :: "rat \<Rightarrow> rat \<Rightarrow> rat" where
  "near_amount want have = 10 - \<bar>have - want\<bar> / max 1 want * 10"

definition score_parts :: "lead \<Rightarrow> crm_property \<Rightarrow> rat list" where
  "score_parts l p =
     [if is_set (ld_property_type l) \<and> ld_property_type l = Some (cp_type p) then 20 else 0,
      if ld_region l \<noteq> None \<and> cp_region p = ld_region l then 20 else 0,
      near_count (ld_rooms_min l) (cp_rooms p),
      near_count (ld_bathrooms_min l) (cp_bathrooms p),
      if ld_area_min l \<noteq> 0 \<and> cp_area p \<noteq> 0 then min 10 (max 0 (near_amount (ld_area_min l) (cp_area p))) else 0,
      if ld_area_max l \<noteq> 0 \<and> cp_area p \<noteq> 0 \<and> cp_area p \<le> ld_area_max l then 5 else 0,
      if ld_budget_max l \<noteq> 0
      then (if ld_type l = ''rent'' then max 0 (near_amount (ld_budget_max l) (cp_rent p))
            else if ld_type l = ''buy'' then max 0 (near_amount (ld_budget_max l) (cp_price p)) else 0)
      else 0,
      if is_set (ld_furnished l) \<and> ld_furnished l \<noteq> Some ''any'' \<and> cp_furnished p = ld_furnished l then 5 else 0,
      if ld_parking l \<and> cp_parking p = 1 then 5 else 0,
      if ld_pool l \<and> cp_pool p then 5 else 0,
      if ld_garden l \<and> cp_garden p then 5 else 0,
      if ld_elevator l \<and> cp_elevator p then 5 else 0]"

definition score_property :: "lead \<Rightarrow> crm_property \<Rightarrow> int" where
  "score_property l p = \<lceil>sum_list (score_parts l p)\<rceil>"

text \<open>\<open>sorted\<close> with \<open>reverse=True\<close> keeps the order of equal keys.\<close>

definition sorted_down :: "('a \<Rightarrow> int) \<Rightarrow> 'a list \<Rightarrow> 'a list" where
  "sorted_down f xs = rev (sort_key f (rev xs))"

definition property_score :: "crm \<Rightarrow> lead \<Rightarrow> nat \<Rightarrow> int" where
  "property_score s l p = (case crm_properties s p of None \<Rightarrow> 0 | Some x \<Rightarrow> score_property l x)"

definition recommended :: "crm \<Rightarrow> lead \<Rightarrow> nat list" where
  "recommended s l = take 8 (sorted_down (property_score s l) (matching_properties s l))"

definition recommend_properties :: "nat \<Rightarrow> nat list cop" where
  "recommend_properties n = on_lead n (\<lambda>l s.
     andthen (upd_lead n (\<lambda>l. l\<lparr>ld_recommended := recommended s l\<rparr>)) (ret (recommended s l)) s)"

section \<open>The contract of a lead\<close>

text \<open>
  The tenancy and the Ejar contract made from a lead; \<open>pt_id_expiry\<close> of the partner and the company's
  defaults of the contract are arguments. The property is the one of the lead or of its converted
  reservation; the model of the tenancy requires one.
\<close>

definition contract_property :: "crm \<Rightarrow> nat \<Rightarrow> lead \<Rightarrow> nat option" where
  "contract_property s n l =
     (case ld_property l of Some p \<Rightarrow> Some p
      | None \<Rightarrow> (case lead_reservation s n RConverted of None \<Rightarrow> None
          | Some k \<Rightarrow> map_option rs_property (reservations s k)))"

definition lead_rents :: "lead \<Rightarrow> crm_property option \<Rightarrow> rat \<times> rat" where
  "lead_rents l p =
     (let monthly = (case p of None \<Rightarrow> 0 | Some x \<Rightarrow> cp_rent x);
          annual = (case p of None \<Rightarrow> 0 | Some x \<Rightarrow> cp_rent x * 12);
          annual = (if annual = 0 then ld_budget_max l else annual)
      in (if monthly = 0 then annual / 12 else monthly, annual))"

definition lead_id_type :: "char_field \<Rightarrow> string" where
  "lead_id_type t =
     (if t = Some ''iqama'' then ''iqama'' else if t = Some ''passport'' then ''passport''
      else if t = Some ''gcc'' then ''gcc_id'' else ''national_id'')"

definition lead_party :: "partner \<Rightarrow> date option \<Rightarrow> party" where
  "lead_party pt expiry =
     (let known = is_set (pt_national_id pt) in
      \<lparr>p_role = ''tenant'', p_entity_type = ''individual'', p_partner = Some pt,
       p_id_number = (if known then pt_national_id pt else None),
       p_id_type = (if known then Some (lead_id_type (pt_id_type pt)) else Some ''national_id''),
       p_id_expiry = (if known then expiry else None), p_nationality = Some ''SA'',
       p_mobile = Some (or_str (pt_mobile pt) (or_str (pt_phone pt) [])),
       p_email = Some (or_str (pt_email pt) []), p_full_name_ar = Some (or_str (pt_name pt) []),
       p_cr_number = None, p_unified_number = None, p_iban = None, p_proxy_doc = None,
       p_proxy_doc_filename = None, p_proxy_doc_type = None, p_entity_id = None, p_party_id = None,
       p_proxy_doc_id = None, p_sync_state = ''pending''\<rparr>)"

definition lead_unit_type :: "char_field \<Rightarrow> string" where
  "lead_unit_type t =
     (if t = Some ''commercial'' then ''office'' else if t = Some ''industrial'' then ''warehouse''
      else if t = Some ''land'' then ''land'' else ''apartment'')"

definition lead_unit :: "crm_property \<Rightarrow> unit_line" where
  "lead_unit p =
     \<lparr>u_property = Some (cp_ejar p), u_unit_number = pr_name (cp_ejar p),
      u_unit_type = Some (lead_unit_type (pr_ejar_unit_type (cp_ejar p))), u_area = cp_area p,
      u_floor_number = 0, u_bedrooms = cp_rooms p, u_bathrooms = cp_bathrooms p, u_finishing = None,
      u_furnishing = None, u_direction = None, u_ejar_property_id = None, u_ejar_unit_id = None,
      u_contract_unit_id = None, u_sync_state = ''pending''\<rparr>"

definition lead_contract :: "contract \<Rightarrow> date option \<Rightarrow> date \<Rightarrow> lead \<Rightarrow> crm_property \<Rightarrow> contract" where
  "lead_contract defaults expiry today l p =
     defaults\<lparr>c_start := today, c_end := today + 365, c_rent := snd (lead_rents l (Some p)),
       c_contract_type := Some (if ld_property_type l \<in> {Some ''residential'', Some ''land''}
          then ''residential'' else ''commercial''),
       c_payment_schedule := Some ''monthly'',
       c_parties := [lead_party (ld_partner l) expiry], c_units := [lead_unit p]\<rparr>"

definition lead_tenancy :: "tenancy \<Rightarrow> date \<Rightarrow> nat \<Rightarrow> lead \<Rightarrow> crm_property \<Rightarrow> tenancy" where
  "lead_tenancy defaults today pid l p =
     defaults\<lparr>t_property := int pid, t_start := today, t_end := Some (today + 365),
       t_rent := fst (lead_rents l (Some p)), t_method := Some ''bank_transfer'',
       t_tenant_nid := (if is_set (pt_national_id (ld_partner l)) then pt_national_id (ld_partner l)
          else t_tenant_nid defaults)\<rparr>"

definition create_lead_contract ::
  "tenancy \<Rightarrow> contract \<Rightarrow> date option \<Rightarrow> nat \<Rightarrow> (tenancy \<times> contract) cop" where
  "create_lead_contract t0 c0 expiry n = on_lead n (\<lambda>l s.
     (case contract_property s n l of
        None \<Rightarrow> raise (OrmValidation (Text ''a tenancy needs a property''))
      | Some pid \<Rightarrow>
          (case crm_properties s pid of
             None \<Rightarrow> raise (Py KeyError)
           | Some p \<Rightarrow>
               let t = lead_tenancy t0 (crm_today s) pid l p; c = lead_contract c0 expiry (crm_today s) l p in
               if \<not> check_tenancy_dates t then raise (OrmValidation (Text ''the end date is before the start date''))
               else bind (lift_result (check_dates c)) (\<lambda>_.
                    bind (lift_result (check_id_number (lead_party (ld_partner l) expiry))) (\<lambda>_. ret (t, c))))) s)"

section \<open>Reservations are exclusive\<close>

definition active_on :: "crm \<Rightarrow> nat \<Rightarrow> nat \<Rightarrow> bool" where
  "active_on s p k = (case reservations s k of None \<Rightarrow> False | Some r \<Rightarrow> active_for p r)"

text \<open>
  The state of the reservations: their numbers are below the next one, a property has at most one active
  reservation, and the two stored fields of a property say whether there is one and which.
\<close>

definition numbered :: "crm \<Rightarrow> bool" where
  "numbered s \<longleftrightarrow> (\<forall>k r. reservations s k = Some r \<longrightarrow> k < next_reservation s)"

definition exclusive :: "crm \<Rightarrow> bool" where
  "exclusive s \<longleftrightarrow> (\<forall>p j k. active_on s p j \<and> active_on s p k \<longrightarrow> j = k)"

definition flagged :: "crm \<Rightarrow> nat \<Rightarrow> bool" where
  "flagged s p \<longleftrightarrow> (\<forall>x. crm_properties s p = Some x \<longrightarrow>
     cp_reserved x = (cp_reservation x \<noteq> None) \<and> (\<forall>k. cp_reservation x = Some k \<longleftrightarrow> active_on s p k))"

lemma reservation_of_set:
  assumes "numbered s"
  shows "reservation_of s P = Some k \<Longrightarrow> \<exists>r. reservations s k = Some r \<and> P r"
    and "reservation_of s P = None \<Longrightarrow> reservations s k = Some r \<Longrightarrow> \<not> P r"
proof -
  have ids: "set (reservation_ids s) = {k. reservations s k \<noteq> None}"
    using assms by (auto simp: reservation_ids_def numbered_def)
  show "reservation_of s P = Some k \<Longrightarrow> \<exists>r. reservations s k = Some r \<and> P r"
    by (auto simp: reservation_of_def find_Some_iff split: option.splits)
  show "reservation_of s P = None \<Longrightarrow> reservations s k = Some r \<Longrightarrow> \<not> P r"
  proof -
    assume none: "reservation_of s P = None" and r: "reservations s k = Some r"
    have "\<not> (case reservations s k of None \<Rightarrow> False | Some r \<Rightarrow> P r)"
      using none ids r unfolding reservation_of_def find_None_iff by (auto dest: spec [of _ k])
    then show "\<not> P r" using r by simp
  qed
qed

lemma reservation_of_active:
  assumes "numbered s" and "exclusive s"
  shows "reservation_of s (active_for p) = Some k \<longleftrightarrow> active_on s p k"
proof (cases "reservation_of s (active_for p)")
  case None
  then show ?thesis
    using reservation_of_set(2) [OF assms(1) None] by (auto simp: active_on_def split: option.splits)
next
  case (Some j)
  then have "active_on s p j" using reservation_of_set(1) [OF assms(1)] by (force simp: active_on_def)
  then show ?thesis using Some assms(2) by (auto simp: exclusive_def)
qed

text \<open>Recomputing one property, and a list of them.\<close>

lemma compute_reserved_run [op_simps]:
  "compute_reserved p s = (Inr (), s\<lparr>crm_properties := (crm_properties s)(p :=
     map_option (\<lambda>x. x\<lparr>cp_reserved := (reservation_of s (active_for p) \<noteq> None),
       cp_reservation := reservation_of s (active_for p)\<rparr>) (crm_properties s p))\<rparr>)"
  by (simp add: compute_reserved_def op_simps)

lemma active_on_properties [simp]: "active_on (s\<lparr>crm_properties := x\<rparr>) p k = active_on s p k"
  by (simp add: active_on_def)

lemma compute_reserved_frame:
  "reservations (snd (compute_reserved p s)) = reservations s"
  "next_reservation (snd (compute_reserved p s)) = next_reservation s"
  by (simp_all add: compute_reserved_run)

lemma compute_reserved_flags:
  assumes "numbered s" and "exclusive s"
  shows "flagged (snd (compute_reserved p s)) p"
    and "q \<noteq> p \<Longrightarrow> flagged (snd (compute_reserved p s)) q = flagged s q"
  by (auto simp: flagged_def compute_reserved_run reservation_of_active [OF assms])

lemma numbered_exclusive_frame:
  assumes "reservations s' = reservations s" and "next_reservation s' = next_reservation s"
  shows "numbered s' = numbered s" and "exclusive s' = exclusive s"
  using assms by (simp_all add: numbered_def exclusive_def active_on_def)

lemma compute_all_flags:
  assumes "numbered s" and "exclusive s"
  shows "\<exists>s'. for_each compute_reserved ps s = (Inr (), s') \<and> reservations s' = reservations s
    \<and> next_reservation s' = next_reservation s \<and> (\<forall>q. q \<in> set ps \<or> flagged s q \<longrightarrow> flagged s' q)"
  using assms
proof (induction ps arbitrary: s)
  case (Cons p ps)
  let ?s = "snd (compute_reserved p s)"
  note frame = compute_reserved_frame [of p s]
  have "numbered ?s" "exclusive ?s" using Cons.prems numbered_exclusive_frame [OF frame] by simp_all
  from Cons.IH [OF this] obtain s' where s': "for_each compute_reserved ps ?s = (Inr (), s')"
    "reservations s' = reservations s" "next_reservation s' = next_reservation s"
    "\<forall>q. q \<in> set ps \<or> flagged ?s q \<longrightarrow> flagged s' q"
    using frame by auto
  have "for_each compute_reserved (p # ps) s = (Inr (), s')"
    using s'(1) by (simp add: andthen_def bind_def compute_reserved_run)
  moreover have "\<forall>q. q \<in> set (p # ps) \<or> flagged s q \<longrightarrow> flagged s' q"
  proof (intro allI impI)
    fix q
    assume "q \<in> set (p # ps) \<or> flagged s q"
    then show "flagged s' q"
      using s'(4) compute_reserved_flags(1) [OF Cons.prems, of p] compute_reserved_flags(2) [OF Cons.prems, of q p]
      by (cases "q = p") auto
  qed
  ultimately show ?case using s'(2,3) by blast
qed (simp add: ret_def)

definition crm_ok :: "crm \<Rightarrow> bool" where
  "crm_ok s \<longleftrightarrow> numbered s \<and> exclusive s \<and> (\<forall>p. flagged s p)"

text \<open>A change of one reservation, followed by its property.\<close>

lemma change_reservation_ok:
  assumes "crm_ok s" and "reservations s k = Some r" and "reservations s' = (reservations s)(k \<mapsto> r')"
    and "next_reservation s' = next_reservation s" and "crm_properties s' = crm_properties s"
    and "rs_property r' = rs_property r"
    and "\<And>j. rs_state r' = RActive \<Longrightarrow> active_on s (rs_property r) j \<Longrightarrow> j = k"
  shows "crm_ok (snd (compute_reserved (rs_property r) s'))"
proof -
  let ?p = "rs_property r"
  have ok: "numbered s" "exclusive s" "flagged s q" for q using assms(1) by (simp_all add: crm_ok_def)
  have n: "numbered s'" using ok(1) assms(2-4) by (auto simp: numbered_def)
  have on: "active_on s' q j = (if j = k then q = ?p \<and> rs_state r' = RActive else active_on s q j)" for q j
    using assms(3,6) by (auto simp: active_on_def active_for_def)
  have e: "exclusive s'"
    using ok(2) assms(7) unfolding exclusive_def on by (metis (full_types))
  have other: "flagged s' q" if "q \<noteq> ?p" for q
  proof -
    have "active_on s' q = active_on s q"
      using on [of q] that assms(2) by (auto simp: active_on_def active_for_def fun_eq_iff)
    then show ?thesis using ok(3) [of q] assms(5) by (simp add: flagged_def)
  qed
  let ?t = "snd (compute_reserved ?p s')"
  have "flagged ?t q" for q
    using compute_reserved_flags(1) [OF n e, of ?p] compute_reserved_flags(2) [OF n e, of q ?p] other
    by (cases "q = ?p") auto
  then show ?thesis
    using n e numbered_exclusive_frame [OF compute_reserved_frame] by (simp add: crm_ok_def)
qed

lemma updates_run_crm [op_simps]:
  "upd_lead n g s = (Inr (), s\<lparr>crm_leads := (crm_leads s)(n := map_option g (crm_leads s n))\<rparr>)"
  "upd_reservation k h s = (Inr (), s\<lparr>reservations := (reservations s)(k := map_option h (reservations s k))\<rparr>)"
  "crm_refuse u s = (Inl (UserError (Text u)), s)"
  by (simp_all add: upd_lead_def upd_reservation_def crm_refuse_def op_simps)

lemma on_reservation_run [op_simps]: "reservations s k = Some r \<Longrightarrow> on_reservation k f s = f r s"
  by (simp add: on_reservation_def)

lemma mark_won_run: "\<exists>l. mark_won n s = (Inr (), s\<lparr>crm_leads := l\<rparr>)"
  by (simp add: mark_won_def updates_run_crm) blast

text \<open>The guard of the activation.\<close>

definition conflicting :: "crm \<Rightarrow> nat \<Rightarrow> nat \<Rightarrow> bool" where
  "conflicting s k p = list_ex (\<lambda>j. j \<noteq> k \<and> active_on s p j) (reservation_ids s)"

lemma activate_run:
  assumes "reservations s k = Some r"
  shows "activate_reservation k s =
    (if conflicting s k (rs_property r) then (Inl (UserError (Text ''the property is reserved already'')), s)
     else compute_reserved (rs_property r)
       (s\<lparr>reservations := (reservations s)(k \<mapsto> r\<lparr>rs_state := RActive\<rparr>),
          crm_leads := (crm_leads s)(rs_lead r := map_option (\<lambda>l. l\<lparr>ld_category := COpportunity\<rparr>) (crm_leads s (rs_lead r)))\<rparr>))"
  using assms
  by (simp add: activate_reservation_def conflicting_def active_on_def op_simps andthen_def bind_def)

lemma activate_ok:
  assumes "crm_ok s"
  shows "crm_ok (snd (activate_reservation k s))"
proof (cases "reservations s k")
  case (Some r)
  show ?thesis
  proof (cases "conflicting s k (rs_property r)")
    case False
    have ids: "set (reservation_ids s) = {k. reservations s k \<noteq> None}"
      using assms by (auto simp: reservation_ids_def crm_ok_def numbered_def)
    have "j = k" if "active_on s (rs_property r) j" for j
      using False that ids by (auto simp: conflicting_def list_ex_iff active_on_def split: option.splits)
    then show ?thesis
      using change_reservation_ok [OF assms Some, where r' = "r\<lparr>rs_state := RActive\<rparr>"] False
      by (simp add: activate_run [OF Some])
  qed (simp add: activate_run [OF Some] assms)
qed (simp add: activate_reservation_def on_reservation_def assms)

lemma cancel_ok:
  assumes "crm_ok s"
  shows "crm_ok (snd (cancel_reservation k s))"
proof (cases "reservations s k")
  case (Some r)
  then show ?thesis
    using change_reservation_ok [OF assms Some, where r' = "r\<lparr>rs_state := RCancelled\<rparr>"
        and s' = "s\<lparr>reservations := (reservations s)(k \<mapsto> r\<lparr>rs_state := RCancelled\<rparr>)\<rparr>"]
    by (simp add: cancel_reservation_def op_simps andthen_def bind_def)
qed (simp add: cancel_reservation_def on_reservation_def assms)

lemma convert_run:
  assumes "reservations s k = Some r"
  shows "\<exists>l. convert_reservation k s = compute_reserved (rs_property r)
    (s\<lparr>reservations := (reservations s)(k \<mapsto> r\<lparr>rs_state := RConverted\<rparr>), crm_leads := l\<rparr>)"
  using assms mark_won_run [of "rs_lead r" "s\<lparr>reservations := (reservations s)(k \<mapsto> r\<lparr>rs_state := RConverted\<rparr>)\<rparr>"]
  by (auto simp: convert_reservation_def op_simps andthen_def bind_def)

lemma convert_ok:
  assumes "crm_ok s"
  shows "crm_ok (snd (convert_reservation k s))"
proof (cases "reservations s k")
  case (Some r)
  obtain l where "convert_reservation k s = compute_reserved (rs_property r)
    (s\<lparr>reservations := (reservations s)(k \<mapsto> r\<lparr>rs_state := RConverted\<rparr>), crm_leads := l\<rparr>)"
    using convert_run [OF Some] by blast
  then show ?thesis
    using change_reservation_ok [OF assms Some, where r' = "r\<lparr>rs_state := RConverted\<rparr>"] by simp
qed (simp add: convert_reservation_def on_reservation_def assms)

lemma expire_ok:
  assumes "crm_ok s"
  shows "crm_ok (snd (expire_reservations s))"
proof -
  let ?s = "s\<lparr>reservations := (\<lambda>k. map_option (expire_reservation (crm_today s)) (reservations s k))\<rparr>"
  let ?late = "\<lambda>k. case reservations s k of None \<Rightarrow> False | Some r \<Rightarrow> rs_state r = RActive \<and> rs_end r < crm_today s"
  let ?ps = "map (\<lambda>k. case reservations s k of None \<Rightarrow> 0 | Some r \<Rightarrow> rs_property r) (filter ?late (reservation_ids s))"
  have ids: "set (reservation_ids s) = {k. reservations s k \<noteq> None}"
    using assms by (auto simp: reservation_ids_def crm_ok_def numbered_def)
  have on: "active_on ?s p k \<longleftrightarrow> active_on s p k \<and> \<not> ?late k" for p k
    by (auto simp: active_on_def active_for_def expire_reservation_def split: option.splits)
  have n: "numbered ?s" using assms by (auto simp: crm_ok_def numbered_def)
  have e: "exclusive ?s" using assms unfolding crm_ok_def exclusive_def on by blast
  have "flagged ?s p" if "p \<notin> set ?ps" for p
  proof -
    have "\<not> ?late k" if active: "active_on s p k" for k
    proof
      assume late: "?late k"
      obtain r where r: "reservations s k = Some r" "rs_property r = p"
        using active by (auto simp: active_on_def active_for_def split: option.splits)
      then have "k \<in> set (filter ?late (reservation_ids s))" using late ids by simp
      then have "p \<in> set ?ps" using r unfolding set_map by (intro rev_image_eqI [of k]) simp_all
      then show False using \<open>p \<notin> set ?ps\<close> by simp
    qed
    then have "active_on ?s p k = active_on s p k" for k using on by blast
    then show ?thesis using assms by (simp add: crm_ok_def flagged_def)
  qed
  moreover obtain s' where s': "for_each compute_reserved ?ps ?s = (Inr (), s')"
    "reservations s' = reservations ?s" "next_reservation s' = next_reservation ?s"
    "\<forall>q. q \<in> set ?ps \<or> flagged ?s q \<longrightarrow> flagged s' q"
    using compute_all_flags [OF n e, of ?ps] by blast
  ultimately have "flagged s' q" for q by blast
  moreover have "numbered s'" "exclusive s'" using n e numbered_exclusive_frame [OF s'(2,3)] by blast+
  ultimately have "crm_ok s'" by (simp add: crm_ok_def)
  moreover have "expire_reservations s = (Inr (), s')"
    using s'(1) unfolding expire_reservations_def Let_def andthen_def bind_def modify_def by simp
  ultimately show ?thesis by simp
qed

lemma reserve_ok:
  assumes "crm_ok s"
  shows "crm_ok (snd (create_reservation n p d e x s))"
proof -
  let ?s = "snd (create_reservation n p d e x s)"
  have "reservations s (next_reservation s) = None"
    using assms by (cases "reservations s (next_reservation s)") (auto simp: crm_ok_def numbered_def)
  then have "active_on ?s q k = active_on s q k" for q k
    by (auto simp: active_on_def create_reservation_def active_for_def)
  then show ?thesis
    using assms by (auto simp: crm_ok_def exclusive_def flagged_def numbered_def create_reservation_def less_Suc_eq)
qed

text \<open>Runs of the CRM: whatever else happens to leads, users, stages and the date.\<close>

inductive crm_reachable :: "crm \<Rightarrow> bool" where
  fresh: "reservations s = Map.empty \<Longrightarrow>
    (\<And>p x. crm_properties s p = Some x \<Longrightarrow> \<not> cp_reserved x \<and> cp_reservation x = None) \<Longrightarrow> crm_reachable s"
| reserve: "crm_reachable s \<Longrightarrow> crm_reachable (snd (create_reservation n p d e x s))"
| activate: "crm_reachable s \<Longrightarrow> crm_reachable (snd (activate_reservation k s))"
| cancel: "crm_reachable s \<Longrightarrow> crm_reachable (snd (cancel_reservation k s))"
| convert: "crm_reachable s \<Longrightarrow> crm_reachable (snd (convert_reservation k s))"
| expire: "crm_reachable s \<Longrightarrow> crm_reachable (snd (expire_reservations s))"
| confirm: "crm_reachable s \<Longrightarrow> crm_reachable (snd (confirm_reservation n s))"
| deal: "crm_reachable s \<Longrightarrow> crm_reachable (snd (convert_to_deal n s))"
| others: "crm_reachable s \<Longrightarrow>
    crm_reachable (s\<lparr>crm_leads := l, next_lead := m, users := u, stages := st, crm_today := today\<rparr>)"

text \<open>
  Property C23. In every run a property has at most one active reservation, and its stored fields tell
  the truth: it counts as reserved exactly while a reservation of it is active, and points to that one.
\<close>

theorem reservations_exclusive:
  assumes "crm_reachable s"
  shows "crm_ok s"
  using assms
proof (induction rule: crm_reachable.induct)
  case (fresh s)
  then show ?case by (auto simp: crm_ok_def numbered_def exclusive_def flagged_def active_on_def)
next
  case (confirm s n)
  then show ?case
    by (cases "lead_reservation s n RDraft") (simp_all add: confirm_reservation_def updates_run_crm activate_ok)
next
  case (deal s n)
  then show ?case
    by (cases "lead_reservation s n RActive") (simp_all add: convert_to_deal_def updates_run_crm convert_ok)
next
  case (others s l m u st today)
  then show ?case by (simp add: crm_ok_def numbered_def exclusive_def flagged_def active_on_def)
qed (simp_all add: activate_ok cancel_ok convert_ok expire_ok reserve_ok)

section \<open>Properties of the matching\<close>

lemma sorted_down_set [simp]: "set (sorted_down f xs) = set xs"
  by (simp add: sorted_down_def)

lemma sorted_down_sorted: "sorted_wrt (\<lambda>x y. f y \<le> f x) (sorted_down f xs)"
  using sorted_sort_key [of f "rev xs"]
  by (simp add: sorted_down_def sorted_wrt_rev sorted_map)

text \<open>The parts of a score are never negative, and each has its maximum.\<close>

lemma near_bounds:
  "0 \<le> near_count want have" "near_count want have \<le> 10" "near_amount w h \<le> 10"
  by (simp_all add: near_count_def near_amount_def zero_le_divide_iff)

lemma part_bounds: "0 \<le> x \<Longrightarrow> x \<le> bound \<Longrightarrow> 0 \<le> (if c then x else 0) \<and> (if c then x else 0) \<le> (bound :: rat)"
  by simp

lemma score_parts_bounds:
  "list_all2 (\<lambda>x bound. 0 \<le> x \<and> x \<le> bound) (score_parts l p) [20, 20, 10, 10, 10, 5, 10, 5, 5, 5, 5, 5]"
  unfolding score_parts_def
  by (intro list.rel_intros part_bounds conjI near_bounds) (simp_all add: near_bounds)

lemma sum_list_bounds:
  "list_all2 (\<lambda>x bound. 0 \<le> x \<and> x \<le> (bound :: rat)) xs bs \<Longrightarrow> 0 \<le> sum_list xs \<and> sum_list xs \<le> sum_list bs"
  by (induction rule: list_all2_induct) auto

text \<open>
  A score lies between 0 and 110. The recommendation shows at most eight of the matching
  properties, in descending order of their scores, all matching ones if there are not more than eight, and leaves
  out none that scores higher than one it shows.
\<close>

theorem recommendation_best:
  "0 \<le> score_property l p \<and> score_property l p \<le> 110
   \<and> length (recommended s l) = min 8 (matching_count s l)
   \<and> sorted_wrt (\<lambda>a b. property_score s l b \<le> property_score s l a) (recommended s l)
   \<and> list_all (\<lambda>a. case crm_properties s a of None \<Rightarrow> False | Some x \<Rightarrow> matches l x) (recommended s l)
   \<and> list_all (\<lambda>b. list_all (\<lambda>a. property_score s l b \<le> property_score s l a) (recommended s l))
       (filter (\<lambda>b. b \<notin> set (recommended s l)) (matching_properties s l))"
proof -
  let ?ranked = "sorted_down (property_score s l) (matching_properties s l)"
  have sum: "0 \<le> sum_list (score_parts l p)" "sum_list (score_parts l p) \<le> 110"
    using sum_list_bounds [OF score_parts_bounds [of l p]] by simp_all
  have split: "?ranked = recommended s l @ drop 8 ?ranked"
    by (simp add: recommended_def)
  have "sorted_wrt (\<lambda>a b. property_score s l b \<le> property_score s l a) (recommended s l @ drop 8 ?ranked)"
    using sorted_down_sorted unfolding split [symmetric] by blast
  then have order: "sorted_wrt (\<lambda>a b. property_score s l b \<le> property_score s l a) (recommended s l)"
    "\<forall>a\<in>set (recommended s l). \<forall>b\<in>set (drop 8 ?ranked). property_score s l b \<le> property_score s l a"
    by (simp_all add: sorted_wrt_append)
  have members: "set (recommended s l) \<union> set (drop 8 ?ranked) = set (matching_properties s l)"
    using arg_cong [OF split, of set] by (simp add: set_append [symmetric] del: set_append)
  have "list_all (\<lambda>a. case crm_properties s a of None \<Rightarrow> False | Some x \<Rightarrow> matches l x) (recommended s l)"
    using members by (auto simp: list_all_iff matching_properties_def)
  moreover have "list_all (\<lambda>b. list_all (\<lambda>a. property_score s l b \<le> property_score s l a) (recommended s l))
       (filter (\<lambda>b. b \<notin> set (recommended s l)) (matching_properties s l))"
    using members order(2) by (auto simp: list_all_iff)
  moreover have "length (recommended s l) = min 8 (matching_count s l)"
    by (simp add: recommended_def sorted_down_def matching_count_def min.commute)
  ultimately show ?thesis
    using order(1) sum by (simp add: score_property_def le_ceiling_iff ceiling_le_iff)
qed

section \<open>Properties of the assignment\<close>

lemma first_min_least:
  "case first_min f xs of None \<Rightarrow> xs = [] | Some m \<Rightarrow> m \<in> set xs \<and> (\<forall>x\<in>set xs. f m \<le> f x)"
  by (induction xs) (auto split: option.splits)

lemma insert_leads_frame: "k < next_lead s \<Longrightarrow> crm_leads (insert_leads ls s) k = crm_leads s k"
  by (induction ls arbitrary: s) auto

lemma insert_leads_new:
  "map (\<lambda>i. crm_leads (insert_leads ls s) (next_lead s + i)) [0..<length ls] = map Some ls"
proof (induction ls arbitrary: s)
  case (Cons l ls)
  let ?s = "s\<lparr>crm_leads := (crm_leads s)(next_lead s \<mapsto> l), next_lead := next_lead s + 1\<rparr>"
  have first: "crm_leads (insert_leads ls ?s) (next_lead s) = Some l"
    using insert_leads_frame [of "next_lead s" ?s ls] by simp
  have "map (\<lambda>i. crm_leads (insert_leads (l # ls) s) (next_lead s + i)) [0..<length (l # ls)]
      = crm_leads (insert_leads ls ?s) (next_lead s)
        # map (\<lambda>i. crm_leads (insert_leads ls ?s) (next_lead ?s + i)) [0..<length ls]"
    by (simp add: upt_conv_Cons map_Suc_upt [symmetric] comp_def del: upt_Suc)
  then show ?case using Cons.IH [of ?s] first by simp
qed simp

text \<open>
  A new lead without a responsible goes to an eligible agent with the fewest open leads, when
  there is one. But all leads created in one call are distributed by the counts before it, so the whole
  batch goes to one and the same agent.
\<close>

theorem batch_one_agent:
  "map (\<lambda>i. crm_leads (create_leads ls s) (next_lead s + i)) [0..<length ls]
     = map (\<lambda>l. Some (if ld_user l = None then l\<lparr>ld_user := least_loaded_agent s\<rparr> else l)) ls
   \<and> (case least_loaded_agent s of
        None \<Rightarrow> eligible_agents s = []
      | Some a \<Rightarrow> a \<in> set (eligible_agents s)
          \<and> list_all (\<lambda>b. open_leads s a \<le> open_leads s b) (eligible_agents s))"
proof (rule conjI)
  have "(with_agent s l) = (if ld_user l = None then l\<lparr>ld_user := least_loaded_agent s\<rparr> else l)" for l
    by (simp add: with_agent_def split: option.split)
  then show "map (\<lambda>i. crm_leads (create_leads ls s) (next_lead s + i)) [0..<length ls]
     = map (\<lambda>l. Some (if ld_user l = None then l\<lparr>ld_user := least_loaded_agent s\<rparr> else l)) ls"
    using insert_leads_new [of "map (with_agent s) ls" s] by (simp add: create_leads_def comp_def)
  show "case least_loaded_agent s of
        None \<Rightarrow> eligible_agents s = []
      | Some a \<Rightarrow> a \<in> set (eligible_agents s)
          \<and> list_all (\<lambda>b. open_leads s a \<le> open_leads s b) (eligible_agents s)"
    using first_min_least [where f = "open_leads s" and xs = "eligible_agents s"]
    by (auto simp: least_loaded_agent_def list_all_iff split: option.splits)
qed

section \<open>From the lead to the contract\<close>

text \<open>
  The contract made from a lead has the lead's partner as tenant and the property as unit, a
  term of 365 days that passes the date checks of tenancy and contract, and a rent of twelve months of the
  tenancy's. It has no lessor, so it is never ready to submit as it is. Without a property
  nothing is created, although the code has a branch for that.
\<close>

theorem lead_contract_incomplete:
  "case create_lead_contract t0 c0 expiry n s of (r, s') \<Rightarrow>
     s' = s \<and>
     (case r of
        Inl e \<Rightarrow> (case crm_leads s n of None \<Rightarrow> e = Py KeyError | Some l \<Rightarrow>
          (case contract_property s n l of
             None \<Rightarrow> e = OrmValidation (Text ''a tenancy needs a property'')
           | Some pid \<Rightarrow> if crm_properties s pid = None then e = Py KeyError
               else check_id_number (lead_party (ld_partner l) expiry) = Inl e))
      | Inr (t, c) \<Rightarrow> (\<exists>l p pid. crm_leads s n = Some l \<and> contract_property s n l = Some pid
          \<and> crm_properties s pid = Some p \<and> t_property t = int pid
          \<and> map p_partner (c_parties c) = [Some (ld_partner l)] \<and> has_tenant c \<and> has_unit c
          \<and> c_start c = t_start t \<and> t_end t = Some (c_end c) \<and> c_end c = c_start c + 365
          \<and> c_rent c = 12 * t_rent t
          \<and> \<not> has_lessor c \<and> ''lessor'' \<in> set (ready_missing c) \<and> \<not> is_ready_to_submit c))"
proof (cases "crm_leads s n")
  case (Some l)
  show ?thesis
  proof (cases "contract_property s n l")
    case pid: (Some pid)
    show ?thesis
    proof (cases "crm_properties s pid")
      case p: (Some p)
      let ?c = "lead_contract c0 expiry (crm_today s) l p"
      have c: "has_tenant ?c" "has_unit ?c" "\<not> has_lessor ?c" "check_dates ?c = Inr ()"
        by (simp_all add: lead_contract_def has_tenant_def has_unit_def has_lessor_def check_dates_def
            lead_party_def Let_def)
      have rent: "snd (lead_rents l (Some p)) = 12 * fst (lead_rents l (Some p))"
        by (simp add: lead_rents_def Let_def)
      have "check_tenancy_dates (lead_tenancy t0 (crm_today s) pid l p)"
        by (simp add: check_tenancy_dates_def lead_tenancy_def)
      then show ?thesis
        using Some pid p c rent
        by (cases "check_id_number (lead_party (ld_partner l) expiry)")
          (auto simp: create_lead_contract_def on_lead_def Let_def lift_result_def bind_def ret_def raise_def
            lead_contract_def lead_tenancy_def lead_party_def ready_missing_def missing_if_def
            is_ready_to_submit_def)
    qed (use Some pid in \<open>simp add: create_lead_contract_def on_lead_def op_evals\<close>)
  qed (use Some in \<open>simp add: create_lead_contract_def on_lead_def op_evals\<close>)
qed (simp add: create_lead_contract_def on_lead_def)

section \<open>Closed reservations\<close>

lemma mark_won_state:
  "crm_leads s n = Some l \<Longrightarrow> mark_won n s = (Inr (), s\<lparr>crm_leads := (crm_leads s)(n \<mapsto>
     l\<lparr>ld_state := LWon, ld_category := CDeal,
       ld_stage := (case List.find snd (stages s) of None \<Rightarrow> ld_stage l | Some (a, _) \<Rightarrow> a)\<rparr>)\<rparr>)"
  by (simp add: mark_won_def updates_run_crm)

text \<open>
  The state of a reservation is not looked at when it is activated: one that was converted to
  a deal can be activated again. The property is then reserved, and the lead is won, but an
  opportunity instead of a deal.
\<close>

theorem converted_reactivates:
  assumes "crm_ok s" and "reservations s k = Some r" and "rs_state r = RActive" and "crm_leads s (rs_lead r) = Some l"
    and "crm_properties s (rs_property r) = Some x"
  shows "case andthen (convert_reservation k) (activate_reservation k) s of (a, s') \<Rightarrow>
    a = Inr () \<and> map_option rs_state (reservations s' k) = Some RActive
    \<and> map_option cp_reserved (crm_properties s' (rs_property r)) = Some True
    \<and> map_option (\<lambda>l. (ld_state l, ld_category l)) (crm_leads s' (rs_lead r)) = Some (LWon, COpportunity)"
proof -
  let ?won = "l\<lparr>ld_state := LWon, ld_category := CDeal,
       ld_stage := (case List.find snd (stages s) of None \<Rightarrow> ld_stage l | Some (a, _) \<Rightarrow> a)\<rparr>"
  have run: "convert_reservation k s = compute_reserved (rs_property r)
      (s\<lparr>reservations := (reservations s)(k \<mapsto> r\<lparr>rs_state := RConverted\<rparr>),
         crm_leads := (crm_leads s)(rs_lead r \<mapsto> ?won)\<rparr>)"
    using assms(2,4) by (simp add: convert_reservation_def op_simps andthen_def bind_def mark_won_state)
  define s1 where "s1 = snd (convert_reservation k s)"
  have 1: "convert_reservation k s = (Inr (), s1)"
    "reservations s1 = (reservations s)(k \<mapsto> r\<lparr>rs_state := RConverted\<rparr>)"
    "crm_leads s1 (rs_lead r) = Some ?won" "crm_properties s1 (rs_property r) \<noteq> None"
    using assms(5) by (simp_all add: s1_def run compute_reserved_run)
  have ok: "crm_ok s1" using convert_ok [OF assms(1), of k] 1(1) by simp
  have "j = k" if "active_on s (rs_property r) j" for j
  proof -
    have "active_on s (rs_property r) k" using assms(2,3) by (simp add: active_on_def active_for_def)
    then show ?thesis using assms(1) that unfolding crm_ok_def exclusive_def by blast
  qed
  then have "\<not> conflicting s1 k (rs_property r)"
    using 1(2) by (auto simp: conflicting_def list_ex_iff active_on_def active_for_def split: option.splits if_splits)
  moreover obtain l1 where l1: "crm_leads s1 (rs_lead r) = Some l1" "ld_state l1 = LWon" using 1(3) by simp
  ultimately obtain s2 where 2: "activate_reservation k s1 = (Inr (), s2)"
    "reservations s2 k = Some (r\<lparr>rs_state := RActive\<rparr>)"
    "crm_leads s2 (rs_lead r) = Some (l1\<lparr>ld_category := COpportunity\<rparr>)"
    "crm_properties s2 (rs_property r) \<noteq> None"
    using activate_run [of s1 k "r\<lparr>rs_state := RConverted\<rparr>"] 1(2,4)
    by (auto simp: compute_reserved_run)
  have "flagged s2 (rs_property r)" "active_on s2 (rs_property r) k"
    using activate_ok [OF ok, of k] 2(1,2) by (simp_all add: crm_ok_def active_on_def active_for_def)
  then have "map_option cp_reserved (crm_properties s2 (rs_property r)) = Some True"
    using 2(4) unfolding flagged_def by auto
  then show ?thesis using 1(1) 2 l1(2) by (simp add: andthen_def bind_def)
qed

text \<open>A small database for the witnesses.\<close>

definition sample_customer :: partner where
  "sample_customer = \<lparr>pt_name = Some ''Sara'', pt_mobile = Some ''0500000000'', pt_phone = None, pt_email = None,
     pt_id_type = Some ''gcc'', pt_national_id = Some ''12345'', pt_iban = None, pt_cr_number = None\<rparr>"

definition sample_flat :: crm_property where
  "sample_flat = \<lparr>cp_type = ''residential'', cp_state = Available, cp_reserved = False, cp_reservation = None,
     cp_region = Some 1, cp_rooms = 3, cp_bathrooms = 2, cp_area = 120, cp_rent = 4000, cp_price = 0,
     cp_parking = 2, cp_pool = False, cp_garden = False, cp_elevator = True, cp_furnished = Some ''fully'',
     cp_ejar = \<lparr>pr_name = Some ''A1'', pr_property_type = Some ''residential'',
       pr_ejar_unit_type = Some ''residential'', pr_deed_number = None, pr_deed_type = None,
       pr_national_address_code = None, pr_building_number = None, pr_district_ar = None, pr_district = None,
       pr_city = None, pr_region_code = None, pr_postal_code = None, pr_last_ejar_rent = 0,
       pr_rent_freeze_active = False\<rparr>\<rparr>"

definition sample_lead :: lead where
  "sample_lead = \<lparr>ld_partner = sample_customer, ld_category = CLead, ld_type = ''rent'',
     ld_property_type = Some ''residential'', ld_budget_max = 5000, ld_region = None, ld_rooms_min = 2,
     ld_rooms_max = 0, ld_bathrooms_min = 0, ld_area_min = 0, ld_area_max = 0, ld_furnished = Some ''any'',
     ld_parking = True, ld_pool = False, ld_garden = False, ld_elevator = False, ld_stage = 0, ld_state = LOpen,
     ld_active = True, ld_user = None, ld_property = Some 0, ld_opened = None, ld_recommended = []\<rparr>"

definition sample_crm :: crm where
  "sample_crm = \<lparr>crm_leads = [0 \<mapsto> sample_lead], next_lead = 1, reservations = Map.empty, next_reservation = 0,
     crm_properties = [0 \<mapsto> sample_flat], property_order = [0], stages = [(0, False), (1, True)], users = [],
     crm_groups = [], crm_today = 738886\<rparr>"

definition sample_reserved :: crm where
  "sample_reserved = snd (activate_reservation 0 (snd (create_reservation 0 0 738886 738900 500 sample_crm)))"

theorem reservations_exclusive_witness:
  "crm_ok sample_reserved"
  unfolding sample_reserved_def
  by (intro reservations_exclusive crm_reachable.activate crm_reachable.reserve crm_reachable.fresh)
    (auto simp: sample_crm_def sample_flat_def split: if_splits)

lemma sample_reserved_ok: "crm_ok sample_reserved"
proof -
  have "crm_ok sample_crm"
    by (auto simp: crm_ok_def numbered_def exclusive_def flagged_def active_on_def sample_crm_def sample_flat_def
        split: if_splits)
  then show ?thesis unfolding sample_reserved_def by (intro activate_ok reserve_ok)
qed

lemma sample_created:
  "snd (create_reservation 0 0 738886 738900 500 sample_crm) = sample_crm\<lparr>next_reservation := 1,
     reservations := [0 \<mapsto> \<lparr>rs_lead = 0, rs_property = 0, rs_state = RDraft, rs_start = 738886, rs_end = 738900,
       rs_deposit = 500\<rparr>]\<rparr>"
  by (simp add: create_reservation_def) (simp add: sample_crm_def)

lemma sample_reserved_run:
  "reservations sample_reserved = [0 \<mapsto> \<lparr>rs_lead = 0, rs_property = 0, rs_state = RActive, rs_start = 738886,
     rs_end = 738900, rs_deposit = 500\<rparr>]"
  "crm_leads sample_reserved = [0 \<mapsto> sample_lead\<lparr>ld_category := COpportunity\<rparr>]"
  "crm_properties sample_reserved 0 \<noteq> None"
proof -
  let ?s = "snd (create_reservation 0 0 738886 738900 500 sample_crm)"
  have r: "reservations ?s 0 = Some \<lparr>rs_lead = 0, rs_property = 0, rs_state = RDraft, rs_start = 738886,
      rs_end = 738900, rs_deposit = 500\<rparr>" "\<not> conflicting ?s 0 0"
    by (simp_all add: sample_created conflicting_def reservation_ids_def)
  have eq: "sample_reserved = snd (compute_reserved 0 (sample_crm\<lparr>next_reservation := 1,
     reservations := [0 \<mapsto> \<lparr>rs_lead = 0, rs_property = 0, rs_state = RActive, rs_start = 738886,
       rs_end = 738900, rs_deposit = 500\<rparr>],
     crm_leads := [0 \<mapsto> sample_lead\<lparr>ld_category := COpportunity\<rparr>]\<rparr>))"
    unfolding sample_reserved_def using activate_run [OF r(1)] r(2) unfolding sample_created
    by (simp add: sample_crm_def)
  have p: "crm_properties sample_crm 0 \<noteq> None" by (simp add: sample_crm_def)
  show "reservations sample_reserved = [0 \<mapsto> \<lparr>rs_lead = 0, rs_property = 0, rs_state = RActive,
      rs_start = 738886, rs_end = 738900, rs_deposit = 500\<rparr>]"
    "crm_leads sample_reserved = [0 \<mapsto> sample_lead\<lparr>ld_category := COpportunity\<rparr>]"
    "crm_properties sample_reserved 0 \<noteq> None"
    unfolding eq using p by (simp_all add: compute_reserved_run)
qed

theorem converted_reactivates_witness:
  "map_option (\<lambda>l. (ld_state l, ld_category l))
     (crm_leads (snd (andthen (convert_reservation 0) (activate_reservation 0) sample_reserved)) 0)
     = Some (LWon, COpportunity)"
proof -
  let ?r = "\<lparr>rs_lead = 0, rs_property = 0, rs_state = RActive, rs_start = 738886, rs_end = 738900,
     rs_deposit = 500\<rparr> :: reservation"
  obtain x where x: "crm_properties sample_reserved (rs_property ?r) = Some x"
    using sample_reserved_run(3) by auto
  have r: "reservations sample_reserved 0 = Some ?r" "rs_state ?r = RActive"
    "crm_leads sample_reserved (rs_lead ?r) = Some (sample_lead\<lparr>ld_category := COpportunity\<rparr>)"
    by (simp_all add: sample_reserved_run)
  have lead: "rs_lead ?r = 0" by simp
  show ?thesis
    using converted_reactivates [OF sample_reserved_ok r x] by (simp only: split_beta lead)
qed

text \<open>A lead that asks for a furnished unit matches none: the property calls it \<open>fully\<close>.\<close>

lemma matches_furnished:
  "matches l p \<Longrightarrow> ld_furnished l = Some v \<Longrightarrow> v \<noteq> [] \<Longrightarrow> v \<noteq> ''any'' \<Longrightarrow> cp_furnished p = Some v"
  unfolding matches_def by (elim conjE) simp

lemma furnished_matches_nothing:
  assumes "ld_furnished l = Some ''furnished''"
    and "cp_furnished p \<in> {None, Some ''unfurnished'', Some ''semi'', Some ''fully''}"
  shows "\<not> matches l p"
  using matches_furnished [OF _ assms(1)] assms(2) by fastforce

end
