(* ===== verification/Commission.thy ===== *)
theory Commission
  imports RentPayment
begin

text \<open>
  Broker commissions and the sales targets computed from them:
  \<^verbatim>\<open>sa_broker_commission/models/\<close> and
  \<^verbatim>\<open>sa_sales_target/models/sa_sales_target.py\<close>. Amounts are rationals. What the
  accounting makes of a vendor bill (whether there is a purchase journal, whether posting succeeds, the
  payment state of a new bill) is an argument.
\<close>

section \<open>Records\<close>

datatype line_state = BPending | BBilled | BLinePaid | BLineCancelled
datatype commission_state = BDraft | BConfirmed | BPartial | BPaid | BCancelled

record bill =
  bill_state :: string
  bill_payment_state :: string

record commission_line =
  bl_due :: date
  bl_amount :: rat
  bl_state :: line_state
  bl_bill :: "bill option"

record commission =
  bc_broker :: int
  bc_salesperson :: "int option"
  bc_percentage :: bool
  bc_rate :: rat
  bc_fixed :: rat
  bc_rent :: rat
  bc_duration :: int
  bc_in_years :: bool
  bc_schedule :: string
  bc_signed :: date
  bc_lines :: "commission_line list"
  bc_state :: commission_state

record vendor_books =
  has_purchase_journal :: bool
  bill_posts :: bool
  new_payment_state :: string

section \<open>The commission\<close>

definition annual_rent :: "commission \<Rightarrow> rat" where
  "annual_rent c = bc_rent c * 12"

definition commission_amount :: "commission \<Rightarrow> rat" where
  "commission_amount c = (if bc_percentage c then annual_rent c * bc_rate c / 100 else bc_fixed c)"

definition paid_line :: "commission_line \<Rightarrow> bool" where
  "paid_line l \<longleftrightarrow> bl_state l = BLinePaid"

definition paid_amount :: "commission \<Rightarrow> rat" where
  "paid_amount c = sum_list (map bl_amount (filter paid_line (bc_lines c)))"

definition remaining_amount :: "commission \<Rightarrow> rat" where
  "remaining_amount c = commission_amount c - paid_amount c"

definition new_line :: "date \<Rightarrow> rat \<Rightarrow> commission_line" where
  "new_line d a = \<lparr>bl_due = d, bl_amount = a, bl_state = BPending, bl_bill = None\<rparr>"

definition duration_months :: "commission \<Rightarrow> int" where
  "duration_months c =
     (let m = or_int (bc_duration c) 12 in if bc_in_years c then m * 12 else m)"

text \<open>The lines of a schedule; \<open>range\<close> of a negative number is empty.\<close>

definition schedule_lines :: "(int \<Rightarrow> date \<Rightarrow> date) \<Rightarrow> commission \<Rightarrow> commission_line list" where
  "schedule_lines add_months c =
     (let amount = commission_amount c in
      if bc_schedule c = ''on_signup'' then [new_line (bc_signed c) amount]
      else if bc_schedule c = ''split''
      then [new_line (bc_signed c) (amount / 2), new_line (add_months 6 (bc_signed c)) (amount / 2)]
      else if bc_schedule c = ''monthly''
      then map (\<lambda>i. new_line (add_months (int i) (bc_signed c)) (amount / of_int (duration_months c)))
             [0..<nat (duration_months c)]
      else [])"

definition generate_lines :: "(int \<Rightarrow> date \<Rightarrow> date) \<Rightarrow> commission \<Rightarrow> commission" where
  "generate_lines add_months c =
     (let kept = filter paid_line (bc_lines c) in
      if commission_amount c \<le> 0 then c\<lparr>bc_lines := kept\<rparr>
      else c\<lparr>bc_lines := kept @ schedule_lines add_months c\<rparr>)"

definition commission_refuse :: "string \<Rightarrow> (commission, exn, unit) opn" where
  "commission_refuse t = raise (UserError (Text t))"

definition confirm_commission :: "(int \<Rightarrow> date \<Rightarrow> date) \<Rightarrow> (commission, exn, unit) opn" where
  "confirm_commission add_months c =
     (if bc_state c \<noteq> BDraft then commission_refuse ''only a draft can be confirmed''
      else if commission_amount c \<le> 0 then commission_refuse ''the amount is not valid''
      else modify (\<lambda>c. (generate_lines add_months c)\<lparr>bc_state := BConfirmed\<rparr>)) c"

definition cancel_commission :: "(commission, exn, unit) opn" where
  "cancel_commission c =
     (if list_ex paid_line (bc_lines c) then commission_refuse ''there are paid lines''
      else modify (\<lambda>c. c\<lparr>bc_state := BCancelled\<rparr>)) c"

definition draft_commission :: "(commission, exn, unit) opn" where
  "draft_commission c =
     (if list_ex paid_line (bc_lines c) then commission_refuse ''a part is paid already''
      else modify (\<lambda>c. c\<lparr>bc_state := BDraft\<rparr>)) c"

definition overall_state :: "commission_line list \<Rightarrow> commission_state" where
  "overall_state ls =
     (if ls \<noteq> [] \<and> list_all paid_line ls then BPaid
      else if list_ex paid_line ls then BPartial else BConfirmed)"

definition refresh_state :: "commission \<Rightarrow> commission" where
  "refresh_state c =
     (if bc_state c \<in> {BDraft, BCancelled} then c else c\<lparr>bc_state := overall_state (bc_lines c)\<rparr>)"

section \<open>The lines\<close>

text \<open>
  Writing a line: when its bill is paid, the line becomes paid and the commission is refreshed.
\<close>

definition write_line :: "nat \<Rightarrow> (commission_line \<Rightarrow> commission_line) \<Rightarrow> commission \<Rightarrow> commission" where
  "write_line i g c =
     (let l = g (bc_lines c ! i); ls = (bc_lines c)[i := l] in
      if (case bl_bill l of None \<Rightarrow> False | Some b \<Rightarrow> bill_payment_state b = ''paid'') \<and> bl_state l \<noteq> BLinePaid
      then refresh_state (c\<lparr>bc_lines := ls[i := l\<lparr>bl_state := BLinePaid\<rparr>]\<rparr>)
      else c\<lparr>bc_lines := ls\<rparr>)"

definition on_line :: "nat \<Rightarrow> (commission_line \<Rightarrow> (commission, exn, unit) opn) \<Rightarrow> (commission, exn, unit) opn" where
  "on_line i f c = (if i < length (bc_lines c) then f (bc_lines c ! i) c else (Inl (Py KeyError), c))"

definition create_bill :: "vendor_books \<Rightarrow> nat \<Rightarrow> (commission, exn, unit) opn" where
  "create_bill B i = on_line i (\<lambda>l.
     if bl_state l = BLineCancelled then commission_refuse ''a cancelled line cannot be billed''
     else if (case bl_bill l of None \<Rightarrow> False | Some b \<Rightarrow> bill_state b \<noteq> ''cancel'')
     then commission_refuse ''the bill exists already''
     else if \<not> has_purchase_journal B then commission_refuse ''no purchase journal''
     else modify (\<lambda>c. refresh_state
       (write_line i (\<lambda>l. l\<lparr>bl_state := BBilled\<rparr>)
       (write_line i (\<lambda>l. l\<lparr>bl_bill := Some \<lparr>bill_state = (if bill_posts B then ''posted'' else ''draft''),
          bill_payment_state = new_payment_state B\<rparr>\<rparr>) c))))"

definition pay_line :: "nat \<Rightarrow> (commission, exn, unit) opn" where
  "pay_line i = on_line i (\<lambda>_.
     modify (\<lambda>c. refresh_state (write_line i (\<lambda>l. l\<lparr>bl_state := BLinePaid\<rparr>) c)))"

definition cancel_line :: "nat \<Rightarrow> (commission, exn, unit) opn" where
  "cancel_line i = on_line i (\<lambda>l.
     if (case bl_bill l of None \<Rightarrow> False | Some b \<Rightarrow> bill_state b = ''posted'')
     then commission_refuse ''reverse the bill first''
     else modify (\<lambda>c. refresh_state (write_line i (\<lambda>l. l\<lparr>bl_state := BLineCancelled\<rparr>) c)))"

text \<open>The check before the payment dialogue.\<close>

definition register_line_payment :: "nat \<Rightarrow> (commission, exn, unit) opn" where
  "register_line_payment i = on_line i (\<lambda>l.
     case bl_bill l of
       None \<Rightarrow> commission_refuse ''create the bill first''
     | Some b \<Rightarrow> if bill_state b \<noteq> ''posted'' then commission_refuse ''the bill is not posted'' else ret ())"

section \<open>Statistics and targets\<close>

definition broker_active :: "commission list \<Rightarrow> nat" where
  "broker_active cs = length (filter (\<lambda>c. bc_state c \<in> {BConfirmed, BPartial}) cs)"

definition broker_earned :: "commission list \<Rightarrow> rat" where
  "broker_earned cs = sum_list (map paid_amount cs)"

definition broker_pending :: "commission list \<Rightarrow> rat" where
  "broker_pending cs = sum_list (map remaining_amount cs)"

definition paid_between :: "date \<Rightarrow> date \<Rightarrow> commission \<Rightarrow> rat" where
  "paid_between d e c =
     sum_list (map bl_amount (filter (\<lambda>l. paid_line l \<and> d \<le> bl_due l \<and> bl_due l \<le> e) (bc_lines c)))"

definition broker_ytd :: "date \<Rightarrow> commission list \<Rightarrow> rat" where
  "broker_ytd first_of_year cs =
     sum_list (map (\<lambda>c. sum_list (map bl_amount
       (filter (\<lambda>l. paid_line l \<and> bl_due l \<ge> first_of_year) (bc_lines c)))) cs)"

text \<open>Active, earned, pending and earned this year; zeros for a partner who is not a broker.\<close>

definition broker_stats :: "bool \<Rightarrow> date \<Rightarrow> commission list \<Rightarrow> nat \<times> rat \<times> rat \<times> rat" where
  "broker_stats is_broker first_of_year cs =
     (if \<not> is_broker then (0, 0, 0, 0)
      else (broker_active cs, broker_earned cs, broker_pending cs, broker_ytd first_of_year cs))"

datatype target_scope = UserScope "int option" | TeamScope "int list option"

record sales_target =
  st_scope :: target_scope
  st_period :: string
  st_from :: date
  st_to :: date
  st_amount :: rat

definition period_length :: "string \<Rightarrow> int" where
  "period_length p = (if p = ''month'' then 1 else if p = ''quarter'' then 3 else if p = ''year'' then 12 else 0)"

definition onchange_period :: "(int \<Rightarrow> date \<Rightarrow> date) \<Rightarrow> sales_target \<Rightarrow> sales_target" where
  "onchange_period add_months t =
     (if st_period t \<in> {''month'', ''quarter'', ''year''}
      then t\<lparr>st_to := add_months (period_length (st_period t)) (st_from t) - 1\<rparr> else t)"

definition check_scope :: "sales_target \<Rightarrow> bool" where
  "check_scope t \<longleftrightarrow> st_scope t \<noteq> UserScope None \<and> st_scope t \<noteq> TeamScope None"

definition check_target :: "sales_target \<Rightarrow> bool" where
  "check_target t \<longleftrightarrow> st_from t \<le> st_to t \<and> 0 < st_amount t"

definition in_scope :: "target_scope \<Rightarrow> commission \<Rightarrow> bool" where
  "in_scope sc c \<longleftrightarrow>
     (case sc of
        UserScope u \<Rightarrow> bc_salesperson c = u
      | TeamScope m \<Rightarrow> (case (m, bc_salesperson c) of (Some ms, Some p) \<Rightarrow> p \<in> set ms | _ \<Rightarrow> False))"

definition achieved_amount :: "sales_target \<Rightarrow> commission list \<Rightarrow> rat" where
  "achieved_amount t cs =
     (if \<not> check_scope t then 0
      else sum_list (map (paid_between (st_from t) (st_to t)) (filter (in_scope (st_scope t)) cs)))"

definition achievement_pct :: "sales_target \<Rightarrow> commission list \<Rightarrow> rat" where
  "achievement_pct t cs =
     (if \<not> check_scope t \<or> st_amount t = 0 then 0 else py_round (achieved_amount t cs / st_amount t * 100) 1)"

section \<open>Properties of the commission\<close>

lemma commission_refuse_run [op_simps]: "commission_refuse u c = (Inl (UserError (Text u)), c)"
  by (simp add: commission_refuse_def op_simps)

lemma new_line_fields [simp]:
  "bl_amount (new_line d a) = a" "bl_due (new_line d a) = d" "paid_line (new_line d a) = False"
  by (simp_all add: new_line_def paid_line_def)

lemma schedule_lines_pending: "filter paid_line (schedule_lines add_months c) = []"
  by (auto simp: schedule_lines_def Let_def filter_empty_conv)

lemma schedule_lines_sum:
  assumes "bc_schedule c \<in> {''on_signup'', ''split'', ''monthly''}" and "0 \<le> bc_duration c"
  shows "sum_list (map bl_amount (schedule_lines add_months c)) = commission_amount c"
proof -
  have m: "0 < duration_months c" using assms(2) by (simp add: duration_months_def Let_def or_int_def)
  show ?thesis
    using assms(1) m
    by (auto simp: schedule_lines_def Let_def comp_def sum_list_triv)
qed

text \<open>
  Confirming a draft of a positive amount plans exactly the commission, whatever the
  schedule: the pending lines add up to it, the first falls due on the day of signing, and
  only paid lines are kept of the old ones.
\<close>

theorem confirm_plans_commission:
  assumes "bc_state c = BDraft" and "0 < commission_amount c" and "0 \<le> bc_duration c"
    and "bc_schedule c \<in> {''on_signup'', ''split'', ''monthly''}" and "month_steps add_months between"
  shows "case confirm_commission add_months c of (r, c') \<Rightarrow>
    r = Inr () \<and> bc_state c' = BConfirmed
    \<and> (\<exists>ls. bc_lines c' = filter paid_line (bc_lines c) @ ls \<and> filter paid_line ls = []
        \<and> ls \<noteq> [] \<and> bl_due (hd ls) = bc_signed c \<and> sum_list (map bl_amount ls) = commission_amount c)"
proof -
  let ?ls = "schedule_lines add_months c"
  have m: "0 < duration_months c" using assms(3) by (simp add: duration_months_def Let_def or_int_def)
  then have "?ls \<noteq> []" "bl_due (hd ?ls) = bc_signed c"
    using assms(4) month_steps.add_zero [OF assms(5)]
    by (auto simp: schedule_lines_def Let_def hd_map)
  then show ?thesis
    using assms(1,2) schedule_lines_sum [OF assms(4,3)] schedule_lines_pending
    by (simp add: confirm_commission_def op_simps generate_lines_def Let_def)
qed


lemma civil_steps: "month_steps civil_add_months civil_months_between"
  by (rule civil.month_steps_axioms)

definition sample_commission :: commission where
  "sample_commission = \<lparr>bc_broker = 7, bc_salesperson = Some 3, bc_percentage = True, bc_rate = 5, bc_fixed = 0,
     bc_rent = 4000, bc_duration = 1, bc_in_years = True, bc_schedule = ''split'', bc_signed = 738000,
     bc_lines = [], bc_state = BDraft\<rparr>"

theorem confirm_plans_commission_witness:
  "fst (confirm_commission civil_add_months sample_commission) = Inr ()
    \<and> sum_list (map bl_amount (bc_lines (snd (confirm_commission civil_add_months sample_commission)))) = 2400"
  using confirm_plans_commission [of sample_commission civil_add_months civil_months_between, OF _ _ _ _ civil_steps]
  by (auto simp: sample_commission_def commission_amount_def annual_rent_def split: prod.splits)

section \<open>The state of the commission and its lines\<close>

text \<open>
  What can happen to a commission: the buttons of the commission and of its lines, any change the
  accounting makes to a bill (it does not write the line), any edit of the other fields of a line.
\<close>

inductive commission_step :: "commission \<Rightarrow> commission \<Rightarrow> bool" where
  confirm: "commission_step c (snd (confirm_commission add_months c))"
| cancel: "commission_step c (snd (cancel_commission c))"
| draft: "commission_step c (snd (draft_commission c))"
| bill: "commission_step c (snd (create_bill B i c))"
| pay: "commission_step c (snd (pay_line i c))"
| drop: "commission_step c (snd (cancel_line i c))"
| books: "commission_step c (c\<lparr>bc_lines := (bc_lines c)[i := (bc_lines c ! i)\<lparr>bl_bill := b\<rparr>]\<rparr>)"
| edit: "(\<And>l. bl_state (g l) = bl_state l) \<Longrightarrow> commission_step c (write_line i g c)"

inductive commission_reachable :: "commission \<Rightarrow> bool" where
  fresh: "bc_state c = BDraft \<Longrightarrow> commission_reachable c"
| step: "commission_reachable c \<Longrightarrow> commission_step c c' \<Longrightarrow> commission_reachable c'"

definition truthful :: "commission \<Rightarrow> bool" where
  "truthful c \<longleftrightarrow>
     (case bc_state c of
        BPaid \<Rightarrow> bc_lines c \<noteq> [] \<and> list_all paid_line (bc_lines c)
      | BPartial \<Rightarrow> list_ex paid_line (bc_lines c) \<and> \<not> list_all paid_line (bc_lines c)
      | _ \<Rightarrow> True)"

lemma refresh_truthful:
  assumes "bc_state c \<in> {BDraft, BCancelled} \<Longrightarrow> truthful c"
  shows "truthful (refresh_state c)"
  using assms by (cases "bc_lines c") (auto simp: refresh_state_def truthful_def overall_state_def)

lemma refresh_settles: "truthful (refresh_state c)"
  by (rule refresh_truthful) (auto simp: truthful_def)

lemma same_states_truthful:
  assumes "bl_state l = bl_state (bc_lines c ! i)"
  shows "truthful (c\<lparr>bc_lines := (bc_lines c)[i := l]\<rparr>) \<longleftrightarrow> truthful c"
proof -
  have same: "map bl_state ((bc_lines c)[i := l]) = map bl_state (bc_lines c)"
    using assms list_update_id [of "map bl_state (bc_lines c)" i]
    by (cases "i < length (bc_lines c)") (simp_all add: map_update list_update_beyond)
  have "list_all paid_line ls = list_all (\<lambda>s. s = BLinePaid) (map bl_state ls)"
      "list_ex paid_line ls = list_ex (\<lambda>s. s = BLinePaid) (map bl_state ls)" for ls
    by (induction ls) (simp_all add: paid_line_def)
  note [simp] = this same
  have "(bc_lines c)[i := l] = [] \<longleftrightarrow> bc_lines c = []" by simp
  then show ?thesis by (simp add: truthful_def split: commission_state.split)
qed

lemmas line_ops = create_bill_def pay_line_def cancel_line_def on_line_def op_simps

lemma commission_step_truthful:
  assumes "commission_step c c'" and "truthful c"
  shows "truthful c'"
  using assms
proof (induction rule: commission_step.induct)
  case (confirm c add_months)
  then show ?case by (auto simp: confirm_commission_def op_simps truthful_def split: commission_state.splits)
next
  case (cancel c)
  then show ?case by (auto simp: cancel_commission_def op_simps truthful_def split: commission_state.splits)
next
  case (draft c)
  then show ?case by (auto simp: draft_commission_def op_simps truthful_def split: commission_state.splits)
next
  case (books c i b)
  then show ?case by (simp add: same_states_truthful)
next
  case (edit g c i)
  then show ?case by (simp add: write_line_def Let_def refresh_settles same_states_truthful)
qed (simp_all add: line_ops refresh_settles)

text \<open>
  Property C24. Whatever order the buttons of a commission and of its lines are used in, the
  commission is marked as paid only when it has lines and all of them are paid, and as partly paid only
  when some are and some are not.
\<close>

theorem commission_state_truthful:
  assumes "commission_reachable c"
  shows "truthful c"
  using assms
proof (induction rule: commission_reachable.induct)
  case (fresh c)
  then show ?case by (simp add: truthful_def)
next
  case (step c c')
  then show ?case by (blast intro: commission_step_truthful)
qed

definition sample_confirmed :: commission where
  "sample_confirmed = sample_commission\<lparr>bc_state := BConfirmed,
     bc_lines := schedule_lines civil_add_months sample_commission\<rparr>"

definition sample_paid :: commission where
  "sample_paid =
     snd (pay_line 0 (snd (confirm_commission civil_add_months (sample_commission\<lparr>bc_schedule := ''on_signup''\<rparr>))))"

theorem commission_state_truthful_witness: "truthful sample_paid \<and> bc_state sample_paid = BPaid"
proof
  have "commission_reachable sample_paid"
    unfolding sample_paid_def
    by (intro commission_reachable.step [OF _ commission_step.pay]
        commission_reachable.step [OF _ commission_step.confirm] commission_reachable.fresh)
      (simp add: sample_commission_def)
  then show "truthful sample_paid" by (rule commission_state_truthful)
  show "bc_state sample_paid = BPaid"
    by (simp add: sample_paid_def sample_commission_def line_ops confirm_commission_def commission_amount_def
        annual_rent_def generate_lines_def schedule_lines_def new_line_def write_line_def refresh_state_def
        overall_state_def paid_line_def)
qed

text \<open>
  The lines do not look at the state of their commission: a confirmed commission without
  paid lines can be set back to draft, a line of it paid there, and the commission confirmed again: the
  paid line stays and the whole commission is planned a second time, so that the lines exceed it by
  what was paid.
\<close>

theorem draft_payment_rebills:
  assumes "bc_state c = BConfirmed" and "\<not> list_ex paid_line (bc_lines c)" and "i < length (bc_lines c)"
    and "0 < commission_amount c" and "0 \<le> bc_duration c"
    and "bc_schedule c \<in> {''on_signup'', ''split'', ''monthly''}"
  shows "case draft_commission c of (r1, c1) \<Rightarrow>
    case pay_line i c1 of (r2, c2) \<Rightarrow>
    case confirm_commission add_months c2 of (r3, c3) \<Rightarrow>
      r1 = Inr () \<and> r2 = Inr () \<and> r3 = Inr () \<and> bc_state c3 = BConfirmed
      \<and> sum_list (map bl_amount (bc_lines c3)) = commission_amount c + bl_amount (bc_lines c ! i)"
proof -
  let ?l = "(bc_lines c ! i)\<lparr>bl_state := BLinePaid\<rparr>"
  let ?c1 = "c\<lparr>bc_state := BDraft\<rparr>"
  have draft: "draft_commission c = (Inr (), ?c1)"
    using assms(2) by (simp add: draft_commission_def op_simps)
  have pay: "pay_line i ?c1 = (Inr (), ?c1\<lparr>bc_lines := (bc_lines c)[i := ?l]\<rparr>)"
    using assms(3) by (simp add: line_ops write_line_def Let_def refresh_state_def)
  have "filter paid_line (take i (bc_lines c)) = []" "filter paid_line (drop (Suc i) (bc_lines c)) = []"
    using assms(2) by (auto simp: filter_empty_conv list_ex_iff dest: in_set_takeD in_set_dropD)
  then have kept: "filter paid_line ((bc_lines c)[i := ?l]) = [?l]"
    using assms(3) by (simp add: upd_conv_take_nth_drop paid_line_def)
  let ?c2 = "?c1\<lparr>bc_lines := (bc_lines c)[i := ?l]\<rparr>"
  have same: "commission_amount ?c2 = commission_amount c" "schedule_lines add_months ?c2 = schedule_lines add_months c"
    by (simp_all add: commission_amount_def annual_rent_def schedule_lines_def duration_months_def Let_def)
  have confirm: "confirm_commission add_months ?c2
      = (Inr (), ?c2\<lparr>bc_lines := ?l # schedule_lines add_months c, bc_state := BConfirmed\<rparr>)"
    using assms(4) kept same by (simp add: confirm_commission_def op_simps generate_lines_def)
  show ?thesis
    using schedule_lines_sum [OF assms(6,5), of add_months] by (simp add: draft pay confirm)
qed

theorem draft_payment_rebills_witness:
  "case draft_commission sample_confirmed of (r1, c1) \<Rightarrow>
   case pay_line 0 c1 of (r2, c2) \<Rightarrow>
   case confirm_commission civil_add_months c2 of (r3, c3) \<Rightarrow>
     sum_list (map bl_amount (bc_lines c3)) = 3600"
proof -
  have "\<not> list_ex paid_line (bc_lines sample_confirmed)" "length (bc_lines sample_confirmed) = 2"
      "bl_amount (bc_lines sample_confirmed ! 0) = 1200"
    by (simp_all add: sample_confirmed_def sample_commission_def schedule_lines_def commission_amount_def annual_rent_def)
  then show ?thesis
    using draft_payment_rebills [of sample_confirmed 0 civil_add_months]
    by (auto simp: sample_confirmed_def sample_commission_def commission_amount_def annual_rent_def split: prod.splits)
qed

section \<open>Targets\<close>

lemma paid_between_split:
  assumes "d \<le> m" and "m \<le> e + 1"
  shows "paid_between d e c = paid_between d (m - 1) c + paid_between m e c"
proof -
  have "sum_list (map bl_amount (filter (\<lambda>l. paid_line l \<and> d \<le> bl_due l \<and> bl_due l \<le> e) ls))
      = sum_list (map bl_amount (filter (\<lambda>l. paid_line l \<and> d \<le> bl_due l \<and> bl_due l \<le> m - 1) ls))
      + sum_list (map bl_amount (filter (\<lambda>l. paid_line l \<and> m \<le> bl_due l \<and> bl_due l \<le> e) ls))" for ls :: "commission_line list"
    using assms by (induction ls) auto
  then show ?thesis by (simp add: paid_between_def)
qed

definition with_dates :: "date \<Rightarrow> date \<Rightarrow> sales_target \<Rightarrow> sales_target" where
  "with_dates d e t = t\<lparr>st_from := d, st_to := e\<rparr>"

lemma achieved_split:
  assumes "d \<le> m" and "m \<le> e + 1"
  shows "achieved_amount (with_dates d e t) cs
      = achieved_amount (with_dates d (m - 1) t) cs + achieved_amount (with_dates m e t) cs"
proof -
  have "paid_between d e = (\<lambda>c. paid_between d (m - 1) c + paid_between m e c)"
    by (rule ext) (rule paid_between_split [OF assms])
  then show ?thesis
    by (simp add: achieved_amount_def with_dates_def check_scope_def sum_list_addf)
qed

text \<open>The targets of \<open>n\<close> consecutive periods, each with the end the form computes.\<close>

definition target_series :: "(int \<Rightarrow> date \<Rightarrow> date) \<Rightarrow> nat \<Rightarrow> sales_target \<Rightarrow> sales_target list" where
  "target_series add_months n t =
     map (\<lambda>i. onchange_period add_months
       (t\<lparr>st_from := add_months (int i * period_length (st_period t)) (st_from t)\<rparr>)) [0..<n]"

text \<open>
  The periods the form computes do not overlap and leave no gap, when the first begins on a day up to the
  28th: what is achieved over any number of consecutive months, quarters or years adds up to
  what is achieved over the whole time.
\<close>

theorem targets_partition:
  assumes "month_steps add_months between" and "day_index (st_from t) \<le> 27"
    and "st_period t \<in> {''month'', ''quarter'', ''year''}"
  shows "sum_list (map (\<lambda>u. achieved_amount u cs) (target_series add_months n t))
    = achieved_amount (t\<lparr>st_to := add_months (int n * period_length (st_period t)) (st_from t) - 1\<rparr>) cs"
proof -
  let ?L = "period_length (st_period t)"
  let ?d = "\<lambda>n. add_months (int n * ?L) (st_from t)"
  have L: "0 < ?L" using assms(3) by (auto simp: period_length_def)
  have z: "add_months 0 (st_from t) = st_from t" using month_steps.add_zero [OF assms(1)] by simp
  have mono: "?d m \<le> ?d (Suc n)" if "m \<le> Suc n" for m n
    using month_steps.add_le_iff [OF assms(1)] L that by (simp add: mult_right_mono)
  have mono0: "st_from t \<le> ?d n" for n
    using month_steps.add_le_iff [OF assms(1), of 0 "st_from t" "int n * ?L"] L by (simp add: z)
  have one: "onchange_period add_months (t\<lparr>st_from := ?d n\<rparr>) = with_dates (?d n) (?d (Suc n) - 1) t" for n
    using assms(3) month_steps.add_add [OF assms(1,2), of ?L "int n * ?L"]
    by (simp add: onchange_period_def with_dates_def algebra_simps)
  have "sum_list (map (\<lambda>u. achieved_amount u cs) (target_series add_months n t))
      = achieved_amount (with_dates (?d 0) (?d n - 1) t) cs"
  proof (induction n)
    case 0
    have "paid_between d (d - 1) = (\<lambda>c. 0)" for d
      by (rule ext) (simp add: paid_between_def)
    then show ?case by (simp add: target_series_def achieved_amount_def with_dates_def z)
  next
    case (Suc n)
    have "achieved_amount (with_dates (?d 0) (?d (Suc n) - 1) t) cs
        = achieved_amount (with_dates (?d 0) (?d n - 1) t) cs + achieved_amount (with_dates (?d n) (?d (Suc n) - 1) t) cs"
      using mono [of n n] mono0 [of n] by (intro achieved_split) (simp_all add: z)
    with Suc show ?case by (simp add: target_series_def one del: of_nat_Suc)
  qed
  moreover have "with_dates (st_from t) e t = t\<lparr>st_to := e\<rparr>" for e
    by (cases t) (simp add: with_dates_def)
  ultimately show ?thesis by (simp add: z)
qed

definition sample_target :: sales_target where
  "sample_target = \<lparr>st_scope = UserScope (Some 3), st_period = ''month'', st_from = 738156, st_to = 738186, st_amount = 5000\<rparr>"

theorem targets_partition_witness:
  "sum_list (map (\<lambda>u. achieved_amount u [sample_paid]) (target_series civil_add_months 12 sample_target))
    = achieved_amount (sample_target\<lparr>st_to := civil_add_months 12 738156 - 1\<rparr>) [sample_paid]"
proof -
  have "day_index (st_from sample_target) \<le> 27" by code_simp
  then show ?thesis
    using targets_partition [OF civil_steps, of sample_target "[sample_paid]" 12]
    by (simp add: sample_target_def period_length_def)
qed

end
