(* ===== verification/Notify.thy ===== *)
theory Notify
  imports RentPayment EjarWebhook
begin

text \<open>
  Notifications (\<^verbatim>\<open>sa_notifications/models/\<close>): the switches, the number of a
  partner, the gateway with its two providers, the daily rounds over payments and
  tenancies and the messages other models send. The HTTP requests are answered by an arbitrary
  function of what was sent before; the text of a message is a function of what it is about.
\<close>

section \<open>Settings\<close>

type_synonym parameters = "string \<rightharpoonup> string"

definition get_param :: "parameters \<Rightarrow> string \<Rightarrow> string \<Rightarrow> string" where
  "get_param c key dflt = (case c (''sa_notifications.'' @ key) of None \<Rightarrow> dflt | Some v \<Rightarrow> v)"

definition cfg :: "parameters \<Rightarrow> string \<Rightarrow> string" where
  "cfg c key = get_param c key ''''"

definition lower :: "string \<Rightarrow> string" where
  "lower s = map lower_char s"

lemma lower_True: "lower ''True'' = ''true''"
  by code_simp

definition cfg_bool :: "parameters \<Rightarrow> string \<Rightarrow> string \<Rightarrow> bool" where
  "cfg_bool c key dflt \<longleftrightarrow> lower (get_param c key dflt) \<in> {''true'', ''1'', ''yes''}"

definition is_enabled :: "parameters \<Rightarrow> string \<Rightarrow> bool" where
  "is_enabled c key \<longleftrightarrow> lower (get_param c key ''True'') \<in> {''true'', ''1'', ''yes'', ''on''}"

definition get_int :: "parameters \<Rightarrow> string \<Rightarrow> int \<Rightarrow> int" where
  "get_int c key dflt = (case py_int (get_param c key (str_int dflt)) of None \<Rightarrow> dflt | Some n \<Rightarrow> n)"

section \<open>Numbers\<close>

definition normalize_phone :: "string \<Rightarrow> string option" where
  "normalize_phone phone =
     (if phone = [] then None
      else
        (let digits = filter is_decimal phone;
             digits = (if starts_with digits ''00'' then drop 2 digits else digits);
             digits = (if starts_with digits ''0'' \<and> length digits = 10 then ''966'' @ drop 1 digits else digits);
             digits = (if \<not> starts_with digits ''966'' then ''966'' @ digits else digits)
         in if 11 \<le> length digits \<and> length digits \<le> 13 then Some digits else None))"

record contact =
  ct_email :: char_field
  ct_mobile :: char_field
  ct_phone :: char_field

definition partner_phone :: "contact \<Rightarrow> string option" where
  "partner_phone p = (if is_set (ct_mobile p) then ct_mobile p else if is_set (ct_phone p) then ct_phone p else None)"

section \<open>The gateway\<close>

datatype wire =
    SmsPost string string string string
  | WhatsAppPost string string string string
  | UltraPost string string string string

text \<open>An answer has a status and perhaps a JSON body; the request may raise instead.\<close>

datatype answer = RequestFailed | Answer int "json option"

record messenger =
  ms_wires :: "wire list"
  ms_mails :: "(string \<times> nat) list"

record gateway =
  gw_params :: parameters
  gw_net :: "wire list \<Rightarrow> wire \<Rightarrow> answer"

definition sms_accepted :: "answer \<Rightarrow> bool" where
  "sms_accepted a = (case a of Answer _ (Some (JObj d)) \<Rightarrow> truthy (dict_get d ''Success'' JNull) | _ \<Rightarrow> False)"

definition whatsapp_accepted :: "answer \<Rightarrow> bool" where
  "whatsapp_accepted a = (case a of Answer st _ \<Rightarrow> st = 200 \<or> st = 201 | _ \<Rightarrow> False)"

text \<open>\<open>str(data.get('sent', '')).lower() == 'true'\<close>.\<close>

definition ultra_accepted :: "answer \<Rightarrow> bool" where
  "ultra_accepted a =
     (case a of Answer _ (Some (JObj d)) \<Rightarrow>
        (case dict_get d ''sent'' (JStr '''') of JBool b \<Rightarrow> b | JStr s \<Rightarrow> lower s = ''true'' | _ \<Rightarrow> False)
      | _ \<Rightarrow> False)"

definition accepted :: "wire \<Rightarrow> answer \<Rightarrow> bool" where
  "accepted w = (case w of SmsPost _ _ _ _ \<Rightarrow> sms_accepted | WhatsAppPost _ _ _ _ \<Rightarrow> whatsapp_accepted
     | UltraPost _ _ _ _ \<Rightarrow> ultra_accepted)"

definition post :: "gateway \<Rightarrow> wire \<Rightarrow> messenger \<Rightarrow> bool \<times> messenger" where
  "post G w m = (accepted w (gw_net G (ms_wires m) w), m\<lparr>ms_wires := ms_wires m @ [w]\<rparr>)"

definition unifonic_send_sms :: "gateway \<Rightarrow> string \<Rightarrow> string \<Rightarrow> messenger \<Rightarrow> bool \<times> messenger" where
  "unifonic_send_sms G phone message m =
     (let app_sid = cfg (gw_params G) ''unifonic_app_sid'';
          sender = (let s = cfg (gw_params G) ''unifonic_sender_id'' in if s = [] then ''Propza'' else s)
      in if app_sid = [] then (False, m)
         else case normalize_phone phone of None \<Rightarrow> (False, m)
           | Some number \<Rightarrow> post G (SmsPost app_sid number message sender) m)"

definition unifonic_send_whatsapp :: "gateway \<Rightarrow> string \<Rightarrow> string \<Rightarrow> messenger \<Rightarrow> bool \<times> messenger" where
  "unifonic_send_whatsapp G phone message m =
     (let token = cfg (gw_params G) ''unifonic_token''; sender = cfg (gw_params G) ''unifonic_whatsapp_sender''
      in if token = [] \<or> sender = [] then (False, m)
         else case normalize_phone phone of None \<Rightarrow> (False, m)
           | Some number \<Rightarrow> post G (WhatsAppPost token sender number message) m)"

definition ultramsg_send_whatsapp :: "gateway \<Rightarrow> string \<Rightarrow> string \<Rightarrow> messenger \<Rightarrow> bool \<times> messenger" where
  "ultramsg_send_whatsapp G phone message m =
     (let inst = strip (cfg (gw_params G) ''ultramsg_instance_id''); token = strip (cfg (gw_params G) ''ultramsg_token'')
      in if inst = [] \<or> token = [] then (False, m)
         else case normalize_phone phone of None \<Rightarrow> (False, m)
           | Some number \<Rightarrow> post G (UltraPost inst token (CHR ''+'' # number) message) m)"

definition get_provider :: "parameters \<Rightarrow> string" where
  "get_provider c =
     (let provider = lower (strip (cfg c ''messaging_provider'')) in
      if provider \<in> {''unifonic'', ''ultramsg'', ''disabled''} then provider
      else if cfg_bool c ''unifonic_enabled'' ''False'' then ''unifonic'' else ''disabled'')"

definition send_whatsapp_sms :: "gateway \<Rightarrow> string \<Rightarrow> string \<Rightarrow> messenger \<Rightarrow> bool \<times> messenger" where
  "send_whatsapp_sms G phone message m =
     (let c = gw_params G; provider = get_provider c in
      if provider = ''unifonic'' then
        (case (if cfg_bool c ''whatsapp_enabled'' ''True'' then unifonic_send_whatsapp G phone message m else (False, m)) of
           (True, m1) \<Rightarrow> (True, m1)
         | (False, m1) \<Rightarrow> if cfg_bool c ''sms_enabled'' ''True'' then unifonic_send_sms G phone message m1 else (False, m1))
      else if provider = ''ultramsg'' then ultramsg_send_whatsapp G phone message m
      else (False, m))"

section \<open>What is sent\<close>

text \<open>
  \<open>_send_template\<close> swallows every error; what is recorded is the call. A contact
  without a number gets no request.
\<close>

definition send_template :: "string \<Rightarrow> nat \<Rightarrow> messenger \<Rightarrow> messenger" where
  "send_template template n m = m\<lparr>ms_mails := ms_mails m @ [(template, n)]\<rparr>"

definition send_to_phone :: "gateway \<Rightarrow> contact \<Rightarrow> string \<Rightarrow> messenger \<Rightarrow> messenger" where
  "send_to_phone G p message m =
     (case partner_phone p of None \<Rightarrow> m | Some phone \<Rightarrow> snd (send_whatsapp_sms G phone message m))"

definition notify_partner :: "gateway \<Rightarrow> string \<Rightarrow> nat \<Rightarrow> contact \<Rightarrow> string \<Rightarrow> messenger \<Rightarrow> messenger" where
  "notify_partner G template n p message m =
     send_to_phone G p message (if is_set (ct_email p) then send_template template n m else m)"

section \<open>The daily rounds\<close>

record payment_row =
  pr_id :: nat
  pr_tenant :: "contact option"
  pr_payment :: rent_payment

text \<open>One message per row with a tenant; the number of those is returned.\<close>

definition send_round :: "(payment_row \<Rightarrow> contact \<Rightarrow> messenger \<Rightarrow> messenger) \<Rightarrow> payment_row list \<Rightarrow>
    messenger \<Rightarrow> nat \<times> messenger" where
  "send_round deliver rows m =
     foldl (\<lambda>(n, m) r. case pr_tenant r of None \<Rightarrow> (n, m) | Some p \<Rightarrow> (Suc n, deliver r p m)) (0, m) rows"

definition reminder_due :: "date \<Rightarrow> int \<Rightarrow> payment_row \<Rightarrow> bool" where
  "reminder_due on_day days_before r \<longleftrightarrow>
     (let p = pr_payment r in rp_state p \<in> {Pending, Partial} \<and> rp_due p = on_day + days_before \<and> rp_type p = Rent)"

definition send_payment_reminders :: "gateway \<Rightarrow> (payment_row \<Rightarrow> string) \<Rightarrow> date \<Rightarrow> payment_row list \<Rightarrow>
    messenger \<Rightarrow> nat \<times> messenger" where
  "send_payment_reminders G txt_of on_day rows m =
     (if \<not> is_enabled (gw_params G) ''payment_reminder_enabled'' then (0, m)
      else send_round (\<lambda>r p. notify_partner G ''payment_reminder'' (pr_id r) p (txt_of r))
        (filter (reminder_due on_day (get_int (gw_params G) ''payment_reminder_days'' 7)) rows) m)"

definition MILESTONES :: "int list" where "MILESTONES = [1, 7, 14, 30]"

definition alert_due :: "date \<Rightarrow> int \<Rightarrow> payment_row \<Rightarrow> bool" where
  "alert_due on_day d r \<longleftrightarrow>
     (let p = pr_payment r in rp_state p = Overdue \<and> rp_due p = on_day - d \<and> rp_type p = Rent)"

definition send_overdue_alerts :: "gateway \<Rightarrow> (int \<Rightarrow> payment_row \<Rightarrow> string) \<Rightarrow> date \<Rightarrow> payment_row list \<Rightarrow>
    messenger \<Rightarrow> nat \<times> messenger" where
  "send_overdue_alerts G txt_of on_day rows m =
     (if \<not> is_enabled (gw_params G) ''payment_overdue_enabled'' then (0, m)
      else foldl (\<lambda>(n, m) d.
        case send_round (\<lambda>r p. notify_partner G ''payment_overdue'' (pr_id r) p (txt_of d r))
          (filter (alert_due on_day d) rows) m of (k, m') \<Rightarrow> (n + k, m')) (0, m) MILESTONES)"

record tenancy_row =
  tr_id :: nat
  tr_tenant :: contact
  tr_owner :: contact
  tr_tenancy :: tenancy

definition expiring :: "date \<Rightarrow> int \<Rightarrow> tenancy_row \<Rightarrow> bool" where
  "expiring on_day days_before r \<longleftrightarrow>
     (let t = tr_tenancy r in t_state t = TRunning \<and> t_end t = Some (on_day + days_before) \<and> t_renewed_to t = None)"

definition send_expiring_alerts :: "gateway \<Rightarrow> (tenancy_row \<Rightarrow> string) \<Rightarrow> date \<Rightarrow> tenancy_row list \<Rightarrow>
    messenger \<Rightarrow> nat \<times> messenger" where
  "send_expiring_alerts G txt_of on_day rows m =
     (if \<not> is_enabled (gw_params G) ''contract_expiring_enabled'' then (0, m)
      else
        (let due = filter (expiring on_day (get_int (gw_params G) ''contract_expiring_days'' 30)) rows in
         (length due,
          foldl (\<lambda>m r. send_to_phone G (tr_tenant r) (txt_of r)
              (if is_set (ct_email (tr_tenant r)) \<or> is_set (ct_email (tr_owner r))
               then send_template ''contract_expiring'' (tr_id r) m else m)) m due)))"

text \<open>The proposal of a renewal: a mail when either side has an address, the request to the owner.\<close>

definition propose_renewal :: "gateway \<Rightarrow> string \<Rightarrow> tenancy_row \<Rightarrow> messenger \<Rightarrow> messenger" where
  "propose_renewal G message r m =
     (if \<not> is_enabled (gw_params G) ''renewal_proposed_enabled'' then m
      else send_to_phone G (tr_owner r) message
        (if is_set (ct_email (tr_owner r)) \<or> is_set (ct_email (tr_tenant r))
         then send_template ''renewal_proposed'' (tr_id r) m else m))"

section \<open>Messages of other models\<close>

text \<open>Requests for maintenance and work orders have a switch and a mail; the CRM has neither.\<close>

definition maintenance_received :: "gateway \<Rightarrow> string \<Rightarrow> nat \<Rightarrow> contact option \<Rightarrow> messenger \<Rightarrow> messenger" where
  "maintenance_received G message n tenant m =
     (if \<not> is_enabled (gw_params G) ''maintenance_received_enabled'' then m
      else case tenant of None \<Rightarrow> m | Some p \<Rightarrow> notify_partner G ''maintenance_received'' n p message m)"

definition maintenance_completed :: "gateway \<Rightarrow> string \<Rightarrow> nat \<Rightarrow> contact option \<Rightarrow> messenger \<Rightarrow> messenger" where
  "maintenance_completed G message n tenant m =
     (if \<not> is_enabled (gw_params G) ''maintenance_completed_enabled'' then m
      else case tenant of None \<Rightarrow> m | Some p \<Rightarrow> notify_partner G ''maintenance_completed'' n p message m)"

definition maintenance_assigned :: "gateway \<Rightarrow> string \<Rightarrow> nat \<Rightarrow> contact option \<Rightarrow> messenger \<Rightarrow> messenger" where
  "maintenance_assigned G message n technician m =
     (if \<not> is_enabled (gw_params G) ''maintenance_assigned_enabled'' then m
      else case technician of None \<Rightarrow> m | Some p \<Rightarrow> notify_partner G ''maintenance_assigned'' n p message m)"

definition showing_scheduled :: "gateway \<Rightarrow> string \<Rightarrow> contact \<Rightarrow> messenger \<Rightarrow> messenger" where
  "showing_scheduled G message p = send_to_phone G p message"

definition reservation_confirmed :: "gateway \<Rightarrow> string \<Rightarrow> contact \<Rightarrow> messenger \<Rightarrow> messenger" where
  "reservation_confirmed G message p = send_to_phone G p message"

definition deal_closed :: "gateway \<Rightarrow> string \<Rightarrow> contact \<Rightarrow> messenger \<Rightarrow> messenger" where
  "deal_closed G message p = send_to_phone G p message"

section \<open>The number of a partner\<close>

lemma starts_with_digits: "starts_with d ''966'' \<Longrightarrow> \<not> starts_with d ''00'' \<and> \<not> starts_with d ''0''"
  by (cases d; cases "tl d") (auto simp: starts_with_def)

lemma decimal_digits [simp]: "is_decimal (CHR ''0'')"
  by (simp_all add: is_decimal_def)

lemma filter_decimal: "list_all is_decimal d \<Longrightarrow> filter is_decimal d = d"
  by (induction d) auto

lemma normalize_fixed:
  assumes "starts_with d ''966''" and "list_all is_decimal d" and "11 \<le> length d" and "length d \<le> 13"
  shows "normalize_phone d = Some d" and "normalize_phone (CHR ''+'' # d) = Some d"
    and "normalize_phone (''00'' @ d) = Some d"
  using assms filter_decimal [OF assms(2)] starts_with_digits [OF assms(1)]
  by (auto simp: normalize_phone_def starts_with_def)

text \<open>
  A number that is accepted comes out as 11 to 13 digits beginning with the country code 966, and
  normalising is stable: the same number with or without a plus sign or two zeros in front gives the same result.
\<close>

theorem phone_canonical:
  "case normalize_phone phone of
     None \<Rightarrow> True
   | Some d \<Rightarrow> list_all is_decimal d \<and> starts_with d ''966'' \<and> 11 \<le> length d \<and> length d \<le> 13
       \<and> normalize_phone d = Some d \<and> normalize_phone (CHR ''+'' # d) = Some d
       \<and> normalize_phone (''00'' @ d) = Some d"
proof (cases "normalize_phone phone")
  case (Some d)
  have dec: "list_all is_decimal (filter is_decimal phone)" by (simp add: list_all_iff)
  have "list_all is_decimal (drop n (filter is_decimal phone))" for n
    using dec by (auto simp: list_all_iff dest: in_set_dropD)
  with dec Some have "list_all is_decimal d \<and> starts_with d ''966'' \<and> 11 \<le> length d \<and> length d \<le> 13"
    by (auto simp: normalize_phone_def Let_def starts_with_def is_decimal_def split: if_splits)
  with normalize_fixed [of d] Some show ?thesis by simp
qed simp

text \<open>A stray zero after the country code and a ten-digit foreign number pass as Saudi numbers.\<close>

lemma wrong_numbers_pass:
  "normalize_phone ''+966 0501234567'' = Some ''9660501234567''"
  "normalize_phone ''4155550123'' = Some ''9664155550123''"
  by (simp_all add: normalize_phone_def is_decimal_def starts_with_def)

section \<open>Properties of the gateway\<close>

fun recipient :: "wire \<Rightarrow> string" where
  "recipient (SmsPost _ n _ _) = n"
| "recipient (WhatsAppPost _ _ n _) = n"
| "recipient (UltraPost _ _ n _) = n"

text \<open>
  What the gateway relies on in a provider: without a valid number nothing happens, with one it makes
  at most one request, to that number, and reports whether it was accepted.
\<close>

locale provider =
  fixes attempt :: "gateway \<Rightarrow> string \<Rightarrow> string \<Rightarrow> messenger \<Rightarrow> bool \<times> messenger"
  assumes no_number: "normalize_phone phone = None \<Longrightarrow> attempt G phone message m = (False, m)"
    and one_request: "normalize_phone phone = Some n \<Longrightarrow> attempt G phone message m = (False, m)
      \<or> (\<exists>w. recipient w \<in> {n, CHR ''+'' # n} \<and> attempt G phone message m = post G w m)"

definition sends :: "gateway \<Rightarrow> string option \<Rightarrow> nat \<Rightarrow> messenger \<Rightarrow> bool \<times> messenger \<Rightarrow> bool" where
  "sends G number k m r \<longleftrightarrow>
     (\<exists>ws. snd r = m\<lparr>ms_wires := ms_wires m @ ws\<rparr> \<and> length ws \<le> k
       \<and> fst r = (ws \<noteq> [] \<and> accepted (last ws) (gw_net G (ms_wires m @ butlast ws) (last ws)))
       \<and> (if length ws = 2 then \<not> accepted (hd ws) (gw_net G (ms_wires m) (hd ws)) else True)
       \<and> (case number of None \<Rightarrow> ws = [] | Some n \<Rightarrow> list_all (\<lambda>w. recipient w \<in> {n, CHR ''+'' # n}) ws))"

lemma sends_nothing: "sends G number k m (False, m)"
  by (auto simp: sends_def intro!: exI [of _ "[]"] split: option.split)

lemma sends_weaken: "sends G number j m r \<Longrightarrow> j \<le> k \<Longrightarrow> sends G number k m r"
  unfolding sends_def by (elim exE conjE) (rule exI, intro conjI, assumption, auto)

context provider
begin

lemma attempt_sends: "sends G (normalize_phone phone) 1 m (attempt G phone message m)"
proof (cases "normalize_phone phone")
  case None
  then show ?thesis by (simp add: no_number sends_nothing)
next
  case (Some n)
  from one_request [OF this, of G message m] show ?thesis
  proof (elim disjE exE conjE)
    fix w assume "recipient w \<in> {n, CHR ''+'' # n}" "attempt G phone message m = post G w m"
    then show ?thesis using Some by (auto simp: sends_def post_def intro!: exI [of _ "[w]"])
  qed (simp add: sends_nothing)
qed

end

locale fallback = first: provider attempt1 + second: provider attempt2
  for attempt1 attempt2
begin

lemma fallback_sends:
  "sends G (normalize_phone phone) 2 m
     (case attempt1 G phone message m of (True, m1) \<Rightarrow> (True, m1) | (False, m1) \<Rightarrow> attempt2 G phone message m1)"
proof (cases "attempt1 G phone message m")
  case (Pair ok m1)
  have first: "sends G (normalize_phone phone) 1 m (ok, m1)"
    using first.attempt_sends [of G phone m message] Pair by simp
  show ?thesis
  proof (cases ok)
    case True
    then show ?thesis using first Pair sends_weaken [of G _ 1 m _ 2] by simp
  next
    case False
    from first False obtain ws where ws: "m1 = m\<lparr>ms_wires := ms_wires m @ ws\<rparr>" "length ws \<le> 1"
        "ws = [] \<or> \<not> accepted (last ws) (gw_net G (ms_wires m @ butlast ws) (last ws))"
        "case normalize_phone phone of None \<Rightarrow> ws = [] | Some n \<Rightarrow> list_all (\<lambda>w. recipient w \<in> {n, CHR ''+'' # n}) ws"
      by (auto simp: sends_def)
    obtain us where us: "snd (attempt2 G phone message m1) = m1\<lparr>ms_wires := ms_wires m1 @ us\<rparr>" "length us \<le> 1"
        "fst (attempt2 G phone message m1) = (us \<noteq> [] \<and> accepted (last us) (gw_net G (ms_wires m1 @ butlast us) (last us)))"
        "case normalize_phone phone of None \<Rightarrow> us = [] | Some n \<Rightarrow> list_all (\<lambda>w. recipient w \<in> {n, CHR ''+'' # n}) us"
      using second.attempt_sends [of G phone m1 message] unfolding sends_def by blast
    have "butlast us = []" using us(2) by (cases us) auto
    then show ?thesis
      unfolding sends_def Pair
      using False ws us
      by (intro exI [of _ "ws @ us"]) (cases ws; cases us; auto split: option.splits)
  qed
qed

end

lemma posts_one: "recipient w \<in> {n, CHR ''+'' # n} \<Longrightarrow> \<exists>w'. recipient w' \<in> {n, CHR ''+'' # n} \<and> post G w m = post G w' m"
  by blast

lemmas provider_defs = unifonic_send_sms_def unifonic_send_whatsapp_def ultramsg_send_whatsapp_def

interpretation sms: provider unifonic_send_sms
  by unfold_locales (auto simp: provider_defs Let_def intro!: posts_one [simplified])

interpretation ultramsg: provider ultramsg_send_whatsapp
  by unfold_locales (auto simp: provider_defs Let_def intro!: posts_one [simplified])

interpretation unifonic: fallback unifonic_send_whatsapp unifonic_send_sms
  by unfold_locales (auto simp: provider_defs Let_def intro!: posts_one [simplified])

lemma sends_gateway: "sends G (normalize_phone phone) 2 m (send_whatsapp_sms G phone message m)"
  using unifonic.fallback_sends [of G phone m message]
    sends_weaken [OF unifonic.first.attempt_sends, of 2 G phone m message]
    sends_weaken [OF sms.attempt_sends, of 2 G phone m message]
    sends_weaken [OF ultramsg.attempt_sends, of 2 G phone m message]
  by (auto simp: send_whatsapp_sms_def Let_def sends_nothing split: prod.splits bool.splits)

text \<open>
  A message leads to at most two requests, all of them to the normalised number, and to none when
  messaging is switched off or the number is not valid. The second (the text message) is only
  made when the first was not accepted, and success is reported exactly when the last request was accepted.
\<close>

theorem gateway_requests:
  "case send_whatsapp_sms G phone message m of (ok, m') \<Rightarrow>
     \<exists>ws. m' = m\<lparr>ms_wires := ms_wires m @ ws\<rparr> \<and> length ws \<le> 2
       \<and> ok = (ws \<noteq> [] \<and> accepted (last ws) (gw_net G (ms_wires m @ butlast ws) (last ws)))
       \<and> (if length ws = 2 then \<not> accepted (hd ws) (gw_net G (ms_wires m) (hd ws)) else True)
       \<and> (case normalize_phone phone of None \<Rightarrow> ws = []
          | Some n \<Rightarrow> if get_provider (gw_params G) = ''disabled'' then ws = []
              else list_all (\<lambda>w. recipient w \<in> {n, CHR ''+'' # n}) ws)"
proof -
  let ?r = "send_whatsapp_sms G phone message m"
  have off: "?r = (False, m)" if "get_provider (gw_params G) = ''disabled''"
    using that by (simp add: send_whatsapp_sms_def Let_def)
  from sends_gateway [of G phone m message]
  obtain ws where ws: "snd ?r = m\<lparr>ms_wires := ms_wires m @ ws\<rparr>" "length ws \<le> 2"
      "fst ?r = (ws \<noteq> [] \<and> accepted (last ws) (gw_net G (ms_wires m @ butlast ws) (last ws)))"
      "if length ws = 2 then \<not> accepted (hd ws) (gw_net G (ms_wires m) (hd ws)) else True"
      "case normalize_phone phone of None \<Rightarrow> ws = [] | Some n \<Rightarrow> list_all (\<lambda>w. recipient w \<in> {n, CHR ''+'' # n}) ws"
    unfolding sends_def by blast
  have "ws = []" if "get_provider (gw_params G) = ''disabled''"
  proof -
    have "ms_wires (snd ?r) = ms_wires m @ ws" using ws(1) by simp
    then show ?thesis using off [OF that] by simp
  qed
  with ws show ?thesis
    by (cases ?r) (auto intro!: exI [of _ ws] split: option.splits)
qed

lemma gateway_mails: "ms_mails (snd (send_whatsapp_sms G phone message m)) = ms_mails m"
  using sends_gateway [of G phone m message] by (auto simp: sends_def)

section \<open>Alerts and the round that marks overdue payments\<close>

text \<open>The two daily rounds of the rental cycle and of this module, in either order.\<close>

definition mark_rows :: "date \<Rightarrow> payment_row list \<Rightarrow> payment_row list" where
  "mark_rows d rows = map2 (\<lambda>r p. r\<lparr>pr_payment := p\<rparr>) rows (snd (mark_overdue d (map pr_payment rows)))"

definition marked_first ::
  "gateway \<Rightarrow> (int \<Rightarrow> payment_row \<Rightarrow> string) \<Rightarrow> date \<Rightarrow> payment_row list \<times> messenger \<Rightarrow> payment_row list \<times> messenger" where
  "marked_first G txt_of d s =
     (let rows = mark_rows d (fst s) in (rows, snd (send_overdue_alerts G txt_of d rows (snd s))))"

definition alerts_first ::
  "gateway \<Rightarrow> (int \<Rightarrow> payment_row \<Rightarrow> string) \<Rightarrow> date \<Rightarrow> payment_row list \<times> messenger \<Rightarrow> payment_row list \<times> messenger" where
  "alerts_first G txt_of d s = (mark_rows d (fst s), snd (send_overdue_alerts G txt_of d (fst s) (snd s)))"

primrec daily :: "(date \<Rightarrow> 's \<Rightarrow> 's) \<Rightarrow> nat \<Rightarrow> date \<Rightarrow> 's \<Rightarrow> 's" where
  "daily f 0 d s = s"
| "daily f (Suc n) d s = daily f n (d + 1) (f d s)"

definition alerts_for :: "nat \<Rightarrow> messenger \<Rightarrow> nat" where
  "alerts_for i m = count_list (ms_mails m) (''payment_overdue'', i)"

definition mails_to :: "nat \<Rightarrow> payment_row \<Rightarrow> bool" where
  "mails_to i r \<longleftrightarrow> pr_id r = i \<and> (case pr_tenant r of None \<Rightarrow> False | Some p \<Rightarrow> is_set (ct_email p))"

lemma send_to_phone_mails [simp]: "ms_mails (send_to_phone G p message m) = ms_mails m"
proof -
  have "ms_mails (snd (send_whatsapp_sms G phone message m)) = ms_mails m" for phone
    using gateway_mails [of G phone message m] by simp
  then show ?thesis by (simp add: send_to_phone_def split: option.split)
qed

lemma alerts_of_notify:
  "alerts_for i (notify_partner G ''payment_overdue'' n p message m)
     = (if n = i \<and> is_set (ct_email p) then Suc (alerts_for i m) else alerts_for i m)"
  by (simp add: alerts_for_def notify_partner_def send_template_def)

lemma alerts_of_round:
  "alerts_for i (snd (foldl (\<lambda>(n, m) r. case pr_tenant r of None \<Rightarrow> (n, m)
       | Some p \<Rightarrow> (Suc n, notify_partner G ''payment_overdue'' (pr_id r) p (txt_of r) m)) (k, m) rows))
     = alerts_for i m + length (filter (mails_to i) rows)"
  by (induction rows arbitrary: k m)
    (auto simp: alerts_of_notify mails_to_def split: option.split)

lemma alerts_of_day:
  assumes "is_enabled (gw_params G) ''payment_overdue_enabled''"
  shows "alerts_for i (snd (send_overdue_alerts G txt_of d rows m))
     = alerts_for i m + (\<Sum>k\<leftarrow>MILESTONES. length (filter (\<lambda>r. alert_due d k r \<and> mails_to i r) rows))"
proof -
  let ?f = "\<lambda>(n, m) k. case send_round (\<lambda>r p. notify_partner G ''payment_overdue'' (pr_id r) p (txt_of k r))
      (filter (alert_due d k) rows) m of (j, m') \<Rightarrow> (n + j, m')"
  have "alerts_for i (snd (foldl ?f (n, m) ks))
     = alerts_for i m + (\<Sum>k\<leftarrow>ks. length (filter (\<lambda>r. alert_due d k r \<and> mails_to i r) rows))" for n ks
  proof (induction ks arbitrary: n m)
    case (Cons k ks)
    obtain j m' where r: "send_round (\<lambda>r p. notify_partner G ''payment_overdue'' (pr_id r) p (txt_of k r))
        (filter (alert_due d k) rows) m = (j, m')" by fastforce
    then have "alerts_for i m' = alerts_for i m + length (filter (\<lambda>r. alert_due d k r \<and> mails_to i r) rows)"
      using alerts_of_round [of i G "txt_of k" 0 m "filter (alert_due d k) rows"]
      by (simp add: send_round_def conj_commute)
    with Cons r show ?case by simp
  qed simp
  with assms show ?thesis by (simp add: send_overdue_alerts_def)
qed

text \<open>A row that is watched: a rent payment due on a day, its tenant with an address.\<close>

definition watched :: "payment_row list \<Rightarrow> nat \<Rightarrow> date \<Rightarrow> payment_state set \<Rightarrow> bool" where
  "watched rows i due sts \<longleftrightarrow> distinct (map pr_id rows)
     \<and> (\<exists>r\<in>set rows. mails_to i r \<and> rp_type (pr_payment r) = Rent \<and> rp_due (pr_payment r) = due
          \<and> rp_state (pr_payment r) \<in> sts)"

lemma mark_rows_map:
  "mark_rows d rows = map (\<lambda>r. if falls_overdue d (pr_payment r)
     then r\<lparr>pr_payment := (pr_payment r)\<lparr>rp_state := Overdue\<rparr>\<rparr> else r) rows"
  by (induction rows) (auto simp: mark_rows_def mark_overdue_def)

lemma watched_marked:
  assumes "watched rows i due sts"
  shows "watched (mark_rows d rows) i due (if due < d then sts - {Pending, Partial} \<union> {Overdue} else sts)"
proof -
  from assms obtain r where r: "r \<in> set rows" "mails_to i r" "rp_type (pr_payment r) = Rent"
      "rp_due (pr_payment r) = due" "rp_state (pr_payment r) \<in> sts" and d: "distinct (map pr_id rows)"
    unfolding watched_def by blast
  let ?g = "\<lambda>r. if falls_overdue d (pr_payment r) then r\<lparr>pr_payment := (pr_payment r)\<lparr>rp_state := Overdue\<rparr>\<rparr> else r"
  have "?g r \<in> set (mark_rows d rows)" using r(1) by (auto simp: mark_rows_map)
  moreover have "map pr_id (mark_rows d rows) = map pr_id rows" by (simp add: mark_rows_map)
  moreover have "mails_to i (?g r) \<and> rp_type (pr_payment (?g r)) = Rent \<and> rp_due (pr_payment (?g r)) = due
      \<and> rp_state (pr_payment (?g r)) \<in> (if due < d then sts - {Pending, Partial} \<union> {Overdue} else sts)"
    using r by (auto simp: mails_to_def falls_overdue_def)
  ultimately show ?thesis unfolding watched_def using d
    by (intro conjI bexI [of _ "?g r"]) simp_all
qed

lemma distinct_filter_one:
  assumes "distinct (map f xs)" and "x \<in> set xs" and "\<And>y. P y \<Longrightarrow> f y = f x"
  shows "length (filter P xs) = (if P x then 1 else 0)"
  using assms
proof (induction xs)
  case (Cons a xs)
  show ?case
  proof (cases "x = a")
    case True
    then have "\<not> P y" if "y \<in> set xs" for y
      using Cons.prems(1,3) that by (metis distinct.simps(2) image_eqI list.set_map list.simps(9))
    then have "filter P xs = []" by (simp add: filter_empty_conv)
    with True show ?thesis by simp
  next
    case False
    then have "x \<in> set xs" using Cons.prems(2) by simp
    then have "f a \<noteq> f x" using Cons.prems(1) by auto
    then have "\<not> P a" using Cons.prems(3) by blast
    with Cons \<open>x \<in> set xs\<close> show ?thesis by simp
  qed
qed simp

lemma alerts_of_watched:
  assumes "is_enabled (gw_params G) ''payment_overdue_enabled''" and "watched rows i due sts"
    and "sts = {Overdue} \<or> Overdue \<notin> sts"
  shows "alerts_for i (snd (send_overdue_alerts G txt_of d rows m))
     = alerts_for i m + (if sts = {Overdue} \<and> d - due \<in> {1, 7, 14, 30} then 1 else 0)"
proof -
  from assms(2) obtain r where r: "r \<in> set rows" "mails_to i r" "rp_type (pr_payment r) = Rent"
      "rp_due (pr_payment r) = due" "rp_state (pr_payment r) \<in> sts" and d: "distinct (map pr_id rows)"
    unfolding watched_def by blast
  have "length (filter (\<lambda>r. alert_due d k r \<and> mails_to i r) rows) = (if alert_due d k r then 1 else 0)" for k
    using distinct_filter_one [OF d r(1), of "\<lambda>r. alert_due d k r \<and> mails_to i r"] r(2) by (simp add: mails_to_def)
  moreover have "alert_due d k r \<longleftrightarrow> sts = {Overdue} \<and> d - due = k" for k
    using r assms(3) by (auto simp: alert_due_def Let_def)
  ultimately show ?thesis using assms(1) by (auto simp: alerts_of_day MILESTONES_def)
qed

lemma still_overdue: "watched rows i due {Overdue} \<Longrightarrow> watched (mark_rows d rows) i due {Overdue}"
  using watched_marked [of rows i due "{Overdue}" d] by (simp split: if_splits)

definition hits :: "date \<Rightarrow> date \<Rightarrow> nat \<Rightarrow> nat" where
  "hits due d n = length (filter (\<lambda>k. d + int k - due \<in> {1, 7, 14, 30}) [0..<n])"

lemma hits_Suc: "hits due d (Suc n) = (if d - due \<in> {1, 7, 14, 30} then 1 else 0) + hits due (d + 1) n"
proof -
  have "[0..<Suc n] = 0 # map Suc [0..<n]" by (simp add: upt_conv_Cons map_Suc_upt del: upt_Suc)
  then show ?thesis by (simp add: hits_def filter_map comp_def algebra_simps del: upt_Suc)
qed

lemma daily_overdue:
  assumes "is_enabled (gw_params G) ''payment_overdue_enabled''" and "watched rows i due {Overdue}"
    and "f = marked_first G txt_of \<or> f = alerts_first G txt_of"
  shows "alerts_for i (snd (daily f n d (rows, m))) = alerts_for i m + hits due d n"
  using assms(2)
proof (induction n arbitrary: d rows m)
  case (Suc n)
  from assms(3) show ?case
    using Suc.IH [OF still_overdue [OF Suc.prems]]
      alerts_of_watched [OF assms(1) Suc.prems] alerts_of_watched [OF assms(1) still_overdue [OF Suc.prems]]
    by (elim disjE) (simp_all add: marked_first_def alerts_first_def Let_def hits_Suc)
qed (simp add: hits_def)

lemma hits_alerts:
  "hits due (due + 2) n + 1 = length (filter (\<lambda>k. k \<in> {1, 7, 14, 30}) [0..<Suc (Suc n)])"
  "hits due (due + 2) n = length (filter (\<lambda>k. k \<in> {7, 14, 30}) [0..<Suc (Suc n)])"
proof -
  have split: "[0..<Suc (Suc n)] = 0 # 1 # map (\<lambda>k. k + 2) [0..<n]"
    by (rule nth_equalityI) (auto simp: nth_Cons nth_append split: nat.splits simp del: upt_Suc)
  have days: "due + 2 + int k - due \<in> {1, 7, 14, 30} \<longleftrightarrow> k + 2 \<in> {7, 14, 30}" for k
    by (auto simp: algebra_simps)
  show "hits due (due + 2) n + 1 = length (filter (\<lambda>k. k \<in> {1, 7, 14, 30}) [0..<Suc (Suc n)])"
    "hits due (due + 2) n = length (filter (\<lambda>k. k \<in> {7, 14, 30}) [0..<Suc (Suc n)])"
    unfolding hits_def days split by (simp_all add: filter_map comp_def)
qed

section \<open>Properties of the alerts\<close>

text \<open>
  Property C25. A rent payment that stays unpaid, in any number of days from its due date on, when the setting
  \<open>payment_overdue_enabled\<close> is on, the ids of the payments are distinct and the tenant has an e-mail
  address: if the round that marks overdue payments runs before the alerts, the tenant gets exactly one alert
  on each of the days 1, 7, 14 and 30 after the due date and none on any other day. When the alerts run
  first, the payment is still pending on day 1: that alert is never sent, and those of days 7, 14 and 30
  remain. (The count after \<open>n\<close> days is given for every \<open>n\<close>, so it says what each day adds.)
\<close>

theorem overdue_alert_schedule:
  assumes "is_enabled (gw_params G) ''payment_overdue_enabled''" and "watched rows i due {Pending, Partial}"
  shows "alerts_for i (snd (daily (marked_first G txt_of) n due (rows, m)))
      = alerts_for i m + length (filter (\<lambda>day. day \<in> {1, 7, 14, 30}) [0..<n])
    \<and> alerts_for i (snd (daily (alerts_first G txt_of) n due (rows, m)))
      = alerts_for i m + length (filter (\<lambda>day. day \<in> {7, 14, 30}) [0..<n])"
proof -
  let ?r0 = "mark_rows due rows" and ?r1 = "mark_rows (due + 1) (mark_rows due rows)"
  have w0: "watched ?r0 i due {Pending, Partial}"
    using watched_marked [OF assms(2), of due] by simp
  have w1: "watched ?r1 i due {Overdue}"
    using watched_marked [OF w0, of "due + 1"] by simp
  note count = alerts_of_watched [OF assms(1)]
  note run = daily_overdue [OF assms(1) w1 disjI1 [OF refl]] daily_overdue [OF assms(1) w1 disjI2 [OF refl]]
    marked_first_def alerts_first_def Let_def count [OF assms(2)] count [OF w0] count [OF w1]
  consider "n = 0" | "n = Suc 0" | k where "n = Suc (Suc k)" by (cases n) (auto, metis not0_implies_Suc)
  then show ?thesis
  proof cases
    case (3 k)
    show ?thesis
      unfolding 3 using hits_alerts [of due k] by (simp add: run add.assoc del: upt_Suc)
  qed (simp_all add: run)
qed

definition sample_gateway :: gateway where
  "sample_gateway = \<lparr>gw_params = Map.empty, gw_net = (\<lambda>_ _. RequestFailed)\<rparr>"

definition sample_unpaid :: rent_payment where
  "sample_unpaid = \<lparr>rp_due = 738156, rp_amount = 4000, rp_type = Rent, rp_state = Pending, rp_paid_on = None,
     rp_method = None, rp_amount_paid = 0, rp_sadad = None, rp_cheque = None, rp_bank_ref = None,
     rp_invoice = None, rp_receipts = []\<rparr>"

definition sample_rows :: "payment_row list" where
  "sample_rows = [\<lparr>pr_id = 5, pr_tenant = Some \<lparr>ct_email = Some ''a@b.sa'', ct_mobile = None, ct_phone = None\<rparr>,
     pr_payment = sample_unpaid\<rparr>]"

theorem overdue_alert_schedule_witness:
  "alerts_for 5 (snd (daily (marked_first sample_gateway (\<lambda>_ _. ''late'')) 40 (rp_due sample_unpaid)
      (sample_rows, \<lparr>ms_wires = [], ms_mails = []\<rparr>))) = 4"
proof -
  have "is_enabled (gw_params sample_gateway) ''payment_overdue_enabled''"
    by (simp add: sample_gateway_def is_enabled_def get_param_def lower_True)
  moreover have "watched sample_rows 5 (rp_due sample_unpaid) {Pending, Partial}"
    by (simp add: sample_rows_def watched_def mails_to_def sample_unpaid_def)
  ultimately show ?thesis
    using overdue_alert_schedule [of sample_gateway sample_rows 5 "rp_due sample_unpaid" "\<lambda>_ _. ''late''" 40
        "\<lparr>ms_wires = [], ms_mails = []\<rparr>"]
    by (simp add: alerts_for_def upt_rec)
qed

text \<open>
  A switch whose parameter is missing counts as on. The settings store a switch that is turned off by
  removing its parameter, so turning it off has no effect.
\<close>

lemma missing_switch_is_on: "is_enabled (c(''sa_notifications.'' @ key := None)) key"
  by (simp add: is_enabled_def get_param_def lower_True)

end
