(* ===== verification/Maintenance.thy ===== *)
theory Maintenance
  imports Notify
begin

text \<open>
  Maintenance (\<^verbatim>\<open>sa_maintenance/models/\<close>): requests, work orders, the contracts for periodic
  maintenance with their daily round, and the figures of a technician and of a tenancy. The messages sent
  on creation and completion come from \<^verbatim>\<open>sa_notifications\<close>. A record is known by its
  place in the list of its model.
\<close>

section \<open>Records\<close>

datatype request_state = QNew | QApproved | QScheduled | QInProgress | QDone | QCancelled
datatype order_state = ODraft | OScheduled | OInProgress | ODone | OCancelled
datatype upkeep_state = KDraft | KActive | KSuspended | KExpired

record request =
  rq_property :: int
  rq_tenant :: "contact option"
  rq_category :: string
  rq_priority :: nat
  rq_state :: request_state
  rq_date :: date
  rq_supplier :: "int option"
  rq_scheduled :: "datetime option"
  rq_completed :: "date option"
  rq_materials :: rat
  rq_labor :: rat
  rq_transport :: rat
  rq_bearer :: string
  rq_approved :: "(int \<times> datetime) option"
  rq_contract :: "nat option"

record work_order =
  wo_request :: nat
  wo_technician :: "contact option"
  wo_state :: order_state
  wo_scheduled :: "datetime option"
  wo_start :: "datetime option"
  wo_end :: "datetime option"
  wo_hours :: rat
  wo_materials :: rat
  wo_labor :: rat
  wo_transport :: rat

record upkeep_contract =
  mc_supplier :: int
  mc_properties :: "int list"
  mc_category :: string
  mc_frequency :: string
  mc_start :: date
  mc_end :: "date option"
  mc_last :: "date option"
  mc_active :: bool
  mc_state :: upkeep_state

record upkeep =
  up_requests :: "request list"
  up_orders :: "work_order list"
  up_contracts :: "upkeep_contract list"
  up_today :: date
  up_now :: datetime
  up_user :: int
  up_box :: messenger

type_synonym 'a uop = "(upkeep, exn, 'a) opn"

definition upkeep_refuse :: "string \<Rightarrow> 'a uop" where
  "upkeep_refuse t = raise (UserError (Text t))"

definition on_request :: "nat \<Rightarrow> (request \<Rightarrow> 'a uop) \<Rightarrow> 'a uop" where
  "on_request i f s = (if i < length (up_requests s) then f (up_requests s ! i) s else (Inl (Py KeyError), s))"

definition on_order :: "nat \<Rightarrow> (work_order \<Rightarrow> 'a uop) \<Rightarrow> 'a uop" where
  "on_order i f s = (if i < length (up_orders s) then f (up_orders s ! i) s else (Inl (Py KeyError), s))"

definition on_upkeep :: "nat \<Rightarrow> (upkeep_contract \<Rightarrow> 'a uop) \<Rightarrow> 'a uop" where
  "on_upkeep n f s = (if n < length (up_contracts s) then f (up_contracts s ! n) s else (Inl (Py KeyError), s))"

definition upd_request :: "nat \<Rightarrow> (request \<Rightarrow> request) \<Rightarrow> unit uop" where
  "upd_request i g = modify (\<lambda>s. s\<lparr>up_requests := (up_requests s)[i := g (up_requests s ! i)]\<rparr>)"

definition upd_order :: "nat \<Rightarrow> (work_order \<Rightarrow> work_order) \<Rightarrow> unit uop" where
  "upd_order i g = modify (\<lambda>s. s\<lparr>up_orders := (up_orders s)[i := g (up_orders s ! i)]\<rparr>)"

definition upd_contract :: "nat \<Rightarrow> (upkeep_contract \<Rightarrow> upkeep_contract) \<Rightarrow> unit uop" where
  "upd_contract n g = modify (\<lambda>s. s\<lparr>up_contracts := (up_contracts s)[n := g (up_contracts s ! n)]\<rparr>)"

definition tell :: "(messenger \<Rightarrow> messenger) \<Rightarrow> unit uop" where
  "tell f = modify (\<lambda>s. s\<lparr>up_box := f (up_box s)\<rparr>)"

section \<open>Requests\<close>

definition request_cost :: "request \<Rightarrow> rat" where
  "request_cost r = rq_materials r + rq_labor r + rq_transport r"

text \<open>Creation, with the confirmation sent to the tenant.\<close>

definition create_request :: "gateway \<Rightarrow> string \<Rightarrow> request \<Rightarrow> nat uop" where
  "create_request G message r s =
     (let i = length (up_requests s) in
      (Inr i, s\<lparr>up_requests := up_requests s @ [r],
         up_box := maintenance_received G message i (rq_tenant r) (up_box s)\<rparr>))"

definition approve_request :: "nat \<Rightarrow> unit uop" where
  "approve_request i = on_request i (\<lambda>_ s.
     upd_request i (\<lambda>r. r\<lparr>rq_state := QApproved, rq_approved := Some (up_user s, up_now s)\<rparr>) s)"

definition schedule_request :: "nat \<Rightarrow> unit uop" where
  "schedule_request i = on_request i (\<lambda>r.
     if rq_scheduled r = None then upkeep_refuse ''the date of the visit is missing''
     else if rq_supplier r = None then upkeep_refuse ''the technician is missing''
     else upd_request i (\<lambda>r. r\<lparr>rq_state := QScheduled\<rparr>))"

definition start_request :: "nat \<Rightarrow> unit uop" where
  "start_request i = on_request i (\<lambda>_. upd_request i (\<lambda>r. r\<lparr>rq_state := QInProgress\<rparr>))"

definition finish_request :: "gateway \<Rightarrow> string \<Rightarrow> nat \<Rightarrow> unit uop" where
  "finish_request G message i = on_request i (\<lambda>r s.
     andthen (upd_request i (\<lambda>r. r\<lparr>rq_state := QDone, rq_completed := Some (up_today s)\<rparr>))
       (tell (maintenance_completed G message i (rq_tenant r))) s)"

definition cancel_request :: "nat \<Rightarrow> unit uop" where
  "cancel_request i = on_request i (\<lambda>_. upd_request i (\<lambda>r. r\<lparr>rq_state := QCancelled\<rparr>))"

definition reset_request :: "nat \<Rightarrow> unit uop" where
  "reset_request i = on_request i (\<lambda>_. upd_request i (\<lambda>r. r\<lparr>rq_state := QNew\<rparr>))"

section \<open>Work orders\<close>

definition order_cost :: "work_order \<Rightarrow> rat" where
  "order_cost w = wo_materials w + wo_labor w + wo_transport w"

definition schedule_order :: "gateway \<Rightarrow> string \<Rightarrow> nat \<Rightarrow> unit uop" where
  "schedule_order G message i = on_order i (\<lambda>w.
     if wo_technician w = None then upkeep_refuse ''the technician is missing''
     else if wo_scheduled w = None then upkeep_refuse ''the date is missing''
     else andthen (upd_order i (\<lambda>w. w\<lparr>wo_state := OScheduled\<rparr>))
       (tell (maintenance_assigned G message i (wo_technician w))))"

definition start_order :: "nat \<Rightarrow> unit uop" where
  "start_order i = on_order i (\<lambda>_ s. upd_order i (\<lambda>w. w\<lparr>wo_state := OInProgress, wo_start := Some (up_now s)\<rparr>) s)"

definition hours_between :: "datetime \<Rightarrow> datetime \<Rightarrow> rat" where
  "hours_between a b = py_round (of_int (b - a) / 3600) 2"

definition finish_order :: "nat \<Rightarrow> unit uop" where
  "finish_order i = on_order i (\<lambda>_ s.
     upd_order i (\<lambda>w. w\<lparr>wo_state := ODone, wo_end := Some (up_now s),
       wo_hours := (case wo_start w of None \<Rightarrow> 0 | Some t \<Rightarrow> hours_between t (up_now s))\<rparr>) s)"

definition cancel_order :: "nat \<Rightarrow> unit uop" where
  "cancel_order i = on_order i (\<lambda>_. upd_order i (\<lambda>w. w\<lparr>wo_state := OCancelled\<rparr>))"

definition draft_order :: "nat \<Rightarrow> unit uop" where
  "draft_order i = on_order i (\<lambda>_. upd_order i (\<lambda>w. w\<lparr>wo_state := ODraft\<rparr>))"

section \<open>Contracts for periodic maintenance\<close>

definition frequency_months :: "string \<Rightarrow> int" where
  "frequency_months f =
     (if f = ''monthly'' then 1 else if f = ''quarterly'' then 3 else if f = ''semi_annual'' then 6 else 12)"

definition next_service :: "(int \<Rightarrow> date \<Rightarrow> date) \<Rightarrow> upkeep_contract \<Rightarrow> date" where
  "next_service add_months c =
     add_months (frequency_months (mc_frequency c)) (case mc_last c of None \<Rightarrow> mc_start c | Some d \<Rightarrow> d)"

definition activate_upkeep :: "nat \<Rightarrow> unit uop" where
  "activate_upkeep n = on_upkeep n (\<lambda>c.
     if mc_properties c = [] then upkeep_refuse ''choose a property''
     else upd_contract n (\<lambda>c. c\<lparr>mc_state := KActive\<rparr>))"

definition suspend_upkeep :: "nat \<Rightarrow> unit uop" where
  "suspend_upkeep n = on_upkeep n (\<lambda>_. upd_contract n (\<lambda>c. c\<lparr>mc_state := KSuspended\<rparr>))"

definition expire_upkeep :: "nat \<Rightarrow> unit uop" where
  "expire_upkeep n = on_upkeep n (\<lambda>_. upd_contract n (\<lambda>c. c\<lparr>mc_state := KExpired\<rparr>))"

definition contract_request :: "nat \<Rightarrow> upkeep_contract \<Rightarrow> date \<Rightarrow> int \<Rightarrow> request" where
  "contract_request n c d p =
     \<lparr>rq_property = p, rq_tenant = None, rq_category = mc_category c, rq_priority = 1, rq_state = QApproved,
      rq_date = d, rq_supplier = Some (mc_supplier c), rq_scheduled = None, rq_completed = None,
      rq_materials = 0, rq_labor = 0, rq_transport = 0, rq_bearer = ''owner'', rq_approved = None,
      rq_contract = Some n\<rparr>"

text \<open>
  One request per property, then the date of the service. A property for which the request cannot be
  created stops the loop; what was created before stays.
\<close>

definition generate_requests :: "gateway \<Rightarrow> (int \<Rightarrow> bool) \<Rightarrow> nat \<Rightarrow> upkeep_contract \<Rightarrow> date \<Rightarrow> unit uop" where
  "generate_requests G creatable n c d =
     andthen (for_each (\<lambda>p s. if creatable p
          then bind (create_request G ''received'' (contract_request n c d p)) (\<lambda>_. ret ()) s
          else raise (UserError (Text ''not created'')) s) (mc_properties c))
       (upd_contract n (\<lambda>c. c\<lparr>mc_last := Some d\<rparr>))"

definition generate_request :: "gateway \<Rightarrow> (int \<Rightarrow> bool) \<Rightarrow> nat \<Rightarrow> unit uop" where
  "generate_request G creatable n = on_upkeep n (\<lambda>c s. generate_requests G creatable n c (up_today s) s)"

definition generate_request_now :: "gateway \<Rightarrow> (int \<Rightarrow> bool) \<Rightarrow> nat \<Rightarrow> unit uop" where
  "generate_request_now G creatable n = on_upkeep n (\<lambda>c.
     if mc_state c \<noteq> KActive then upkeep_refuse ''the contract is not active'' else generate_request G creatable n)"

definition service_due :: "(int \<Rightarrow> date \<Rightarrow> date) \<Rightarrow> date \<Rightarrow> upkeep_contract \<Rightarrow> bool" where
  "service_due add_months d c \<longleftrightarrow>
     mc_active c \<and> mc_state c = KActive \<and> next_service add_months c \<le> d
     \<and> (case mc_end c of None \<Rightarrow> True | Some e \<Rightarrow> d \<le> e)"

text \<open>The search: by the date of the next service, later records first among equals.\<close>

definition due_contracts :: "(int \<Rightarrow> date \<Rightarrow> date) \<Rightarrow> upkeep \<Rightarrow> nat list" where
  "due_contracts add_months s =
     sort_key (\<lambda>n. next_service add_months (up_contracts s ! n))
       (filter (\<lambda>n. service_due add_months (up_today s) (up_contracts s ! n)) (rev [0..<length (up_contracts s)]))"

text \<open>Every error of a contract is swallowed.\<close>

definition serve_contract :: "gateway \<Rightarrow> (int \<Rightarrow> bool) \<Rightarrow> nat \<Rightarrow> unit uop" where
  "serve_contract G creatable n = catch (generate_request G creatable n) (\<lambda>_. ret ())"

definition generate_due_services :: "gateway \<Rightarrow> (int \<Rightarrow> bool) \<Rightarrow> (int \<Rightarrow> date \<Rightarrow> date) \<Rightarrow> nat uop" where
  "generate_due_services G creatable add_months s =
     (let due = due_contracts add_months s in
      bind (for_each (serve_contract G creatable) due) (\<lambda>_. ret (length due)) s)"

section \<open>Figures\<close>

definition technician_counts :: "upkeep \<Rightarrow> bool \<Rightarrow> int \<Rightarrow> nat \<times> nat" where
  "technician_counts s is_technician p =
     (if \<not> is_technician then (0, 0)
      else
        (let own = filter (\<lambda>r. rq_supplier r = Some p) (up_requests s) in
         (length (filter (\<lambda>r. rq_state r \<in> {QNew, QScheduled, QInProgress}) own), length own)))"

definition open_requests :: "request list \<Rightarrow> nat" where
  "open_requests rs = length (filter (\<lambda>r. rq_state r \<notin> {QDone, QCancelled}) rs)"

section \<open>One round of the contracts\<close>

definition visits :: "nat \<Rightarrow> upkeep \<Rightarrow> date list" where
  "visits n s = map rq_date (filter (\<lambda>r. rq_contract r = Some n) (up_requests s))"

text \<open>What a round of other contracts leaves alone.\<close>

definition untouched :: "nat \<Rightarrow> upkeep_contract \<Rightarrow> nat \<Rightarrow> date list \<Rightarrow> date \<Rightarrow> upkeep \<Rightarrow> bool" where
  "untouched n c l v d s \<longleftrightarrow>
     n < l \<and> length (up_contracts s) = l \<and> up_contracts s ! n = c \<and> visits n s = v \<and> up_today s = d"

lemma contract_request_fields [simp]:
  "rq_contract (contract_request n c d p) = Some n" "rq_date (contract_request n c d p) = d"
  "rq_supplier (contract_request n c d p) = Some (mc_supplier c)" "rq_state (contract_request n c d p) = QApproved"
  by (simp_all add: contract_request_def)

lemma keeps_on_upkeep:
  "(\<And>c t. keeps P (f c t)) \<Longrightarrow> keeps P (on_upkeep n (\<lambda>c s. f c (up_today s) s))"
  by (simp add: keeps_def on_upkeep_def)

lemma others_untouched:
  assumes "m \<noteq> n"
  shows "keeps (untouched n c l v d) (serve_contract G creatable m)"
proof -
  have "keeps (untouched n c l v d) (\<lambda>s. if creatable p
          then bind (create_request G t (contract_request m c' e p)) (\<lambda>_. ret ()) s
          else raise x s)" for c' e p x t
    using assms by (auto simp: keeps_def untouched_def create_request_def visits_def Let_def op_simps bind_def)
  moreover have "keeps (untouched n c l v d) (upd_contract m g)" for g
    using assms by (auto simp: keeps_def untouched_def upd_contract_def visits_def op_simps)
  ultimately have "keeps (untouched n c l v d) (generate_requests G creatable m c' e)" for c' e
    unfolding generate_requests_def by (intro keeps_andthen keeps_for_each)
  then show ?thesis unfolding serve_contract_def generate_request_def
    by (intro keeps_catch keeps_pure keeps_on_upkeep)
qed

lemma for_each_runs:
  assumes "\<And>x s. fst (f x s) = Inr ()"
  shows "for_each f xs s = (Inr (), foldl (\<lambda>s x. snd (f x s)) s xs)"
proof (induction xs arbitrary: s)
  case (Cons x xs)
  obtain t where "f x s = (Inr (), t)" using assms [of x s] by (cases "f x s") auto
  with Cons show ?case by (simp add: andthen_def bind_def)
qed (simp add: op_simps)

lemma serve_runs: "fst (serve_contract G creatable n s) = Inr ()"
  by (cases "generate_request G creatable n s") (auto simp: serve_contract_def catch_def op_simps split: sum.splits)

lemma generate_creates:
  assumes "n < length (up_contracts s)" and "c = up_contracts s ! n" and "list_all creatable (mc_properties c)"
  shows "\<exists>box. generate_request G creatable n s = (Inr (), s\<lparr>
     up_requests := up_requests s @ map (contract_request n c (up_today s)) (mc_properties c), up_box := box,
     up_contracts := (up_contracts s)[n := c\<lparr>mc_last := Some (up_today s)\<rparr>]\<rparr>)"
proof -
  let ?f = "\<lambda>d p s. if creatable p
      then bind (create_request G ''received'' (contract_request n c d p)) (\<lambda>_. ret ()) s
      else raise (UserError (Text ''not created'')) s"
  have "\<exists>box. for_each (?f d) ps s = (Inr (), s\<lparr>up_requests := up_requests s @ map (contract_request n c d) ps, up_box := box\<rparr>)"
    if "list_all creatable ps" for ps s d
    using that
  proof (induction ps arbitrary: s)
    case Nil
    have "s = s\<lparr>up_requests := up_requests s @ [], up_box := up_box s\<rparr>" by simp
    then show ?case by (auto simp: op_simps intro: exI [of _ "up_box s"])
  next
    case (Cons p ps)
    let ?s = "snd (create_request G ''received'' (contract_request n c d p) s)"
    from Cons.IH [of ?s] Cons.prems show ?case
      by (auto simp: op_simps bind_def andthen_def create_request_def Let_def)
  qed
  from this [OF assms(3), of "up_today s" s] show ?thesis
    using assms(1,2) by (auto simp: generate_request_def generate_requests_def on_upkeep_def andthen_def bind_def op_simps upd_contract_def)
qed

lemma due_contracts_set:
  "set (due_contracts add_months s)
     = {n. n < length (up_contracts s) \<and> service_due add_months (up_today s) (up_contracts s ! n)}"
  "distinct (due_contracts add_months s)"
  by (auto simp: due_contracts_def)

lemma round_of_others:
  assumes "n \<notin> set ms" and "untouched n c l v d s"
  shows "untouched n c l v d (foldl (\<lambda>s m. snd (serve_contract G creatable m s)) s ms)"
  using assms
proof (induction ms arbitrary: s)
  case (Cons m ms)
  then have "untouched n c l v d (snd (serve_contract G creatable m s))"
    using others_untouched [of m n c l v d G creatable] by (auto simp: keeps_def)
  with Cons show ?case by simp
qed simp

text \<open>A day of one contract, whatever the other contracts do.\<close>

lemma round_of_contract:
  assumes "untouched n c l v d s" and "list_all creatable (mc_properties c)"
  shows "untouched n (if service_due add_months d c then c\<lparr>mc_last := Some d\<rparr> else c) l
     (v @ (if service_due add_months d c then replicate (length (mc_properties c)) d else [])) d
     (snd (generate_due_services G creatable add_months s))"
proof -
  let ?g = "\<lambda>s m. snd (serve_contract G creatable m s)"
  have s: "n < length (up_contracts s)" "up_contracts s ! n = c" "up_today s = d"
    using assms(1) by (auto simp: untouched_def)
  have run: "snd (generate_due_services G creatable add_months s) = foldl ?g s (due_contracts add_months s)"
    by (simp add: generate_due_services_def Let_def bind_def for_each_runs [OF serve_runs] op_simps)
  show ?thesis
  proof (cases "service_due add_months d c")
    case False
    then have "n \<notin> set (due_contracts add_months s)" using s by (simp add: due_contracts_set)
    from round_of_others [OF this assms(1)] False show ?thesis by (simp add: run)
  next
    case True
    then have "n \<in> set (due_contracts add_months s)" using s by (simp add: due_contracts_set)
    then obtain xs ys where due: "due_contracts add_months s = xs @ n # ys" by (meson split_list)
    then have apart: "n \<notin> set xs" "n \<notin> set ys" using due_contracts_set(2) [of add_months s] by auto
    let ?s1 = "foldl ?g s xs"
    have s1: "untouched n c l v d ?s1" using round_of_others [OF apart(1) assms(1)] .
    then obtain box where "generate_request G creatable n ?s1 = (Inr (), ?s1\<lparr>
        up_requests := up_requests ?s1 @ map (contract_request n c d) (mc_properties c), up_box := box,
        up_contracts := (up_contracts ?s1)[n := c\<lparr>mc_last := Some d\<rparr>]\<rparr>)"
      using generate_creates [of n ?s1 c creatable G] assms(2) by (auto simp: untouched_def)
    then have "untouched n (c\<lparr>mc_last := Some d\<rparr>) l (v @ replicate (length (mc_properties c)) d) d (?g ?s1 n)"
      using s1 by (auto simp: untouched_def visits_def serve_contract_def catch_def comp_def filter_map map_replicate_const)
    from round_of_others [OF apart(2) this, of G creatable] True show ?thesis by (simp add: run due)
  qed
qed

section \<open>Periodic maintenance over time\<close>

primrec upkeep_days :: "gateway \<Rightarrow> (int \<Rightarrow> bool) \<Rightarrow> (int \<Rightarrow> date \<Rightarrow> date) \<Rightarrow> nat \<Rightarrow> upkeep \<Rightarrow> upkeep" where
  "upkeep_days G creatable add_months 0 s = s"
| "upkeep_days G creatable add_months (Suc k) s =
     (let s' = snd (generate_due_services G creatable add_months s)
      in upkeep_days G creatable add_months k (s'\<lparr>up_today := up_today s' + 1\<rparr>))"

lemma frequency_months_pos: "0 < frequency_months f"
  by (simp add: frequency_months_def)

lemma contract_days:
  assumes "month_steps add_months between" and "untouched n c l v d s" and "list_all creatable (mc_properties c)"
    and "mc_active c" and "mc_state c = KActive" and "mc_end c = None"
  shows "\<exists>ds. due_dates (add_months (frequency_months (mc_frequency c))) (max d (next_service add_months c)) (d + int k - 1) = Some ds
    \<and> visits n (upkeep_days G creatable add_months k s) = v @ concat (map (replicate (length (mc_properties c))) ds)"
  using assms(2-)
proof (induction k arbitrary: c v d s)
  case 0
  then show ?case
    using month_steps.due_dates_simps(1) [OF assms(1)] by (simp add: untouched_def)
next
  case (Suc k)
  let ?step = "add_months (frequency_months (mc_frequency c))"
  let ?due = "service_due add_months d c"
  let ?c = "if ?due then c\<lparr>mc_last := Some d\<rparr> else c"
  let ?s = "snd (generate_due_services G creatable add_months s)"
  have due: "?due \<longleftrightarrow> next_service add_months c \<le> d" using Suc.prems by (simp add: service_due_def)
  have "untouched n ?c l (v @ (if ?due then replicate (length (mc_properties c)) d else [])) d ?s"
    using round_of_contract [OF Suc.prems(1,2)] .
  then have day: "untouched n ?c l (v @ (if ?due then replicate (length (mc_properties c)) d else [])) (d + 1)
      (?s\<lparr>up_today := up_today ?s + 1\<rparr>)"
    by (simp add: untouched_def visits_def)
  have later: "d < ?step d"
    using month_steps.add_later [OF assms(1) frequency_months_pos] .
  have IH: "\<exists>ds. due_dates ?step (max (d + 1) (next_service add_months ?c)) (d + 1 + int k - 1) = Some ds
    \<and> visits n (upkeep_days G creatable add_months k (?s\<lparr>up_today := up_today ?s + 1\<rparr>))
      = (v @ (if ?due then replicate (length (mc_properties c)) d else [])) @ concat (map (replicate (length (mc_properties c))) ds)"
    using Suc.IH [OF day] Suc.prems by (auto split: if_splits)
  show ?case
  proof (cases ?due)
    case True
    then have "max d (next_service add_months c) = d" "max (d + 1) (next_service add_months ?c) = ?step d"
      using due later by (simp_all add: next_service_def)
    then show ?thesis
      using IH True month_steps.due_dates_simps(2) [OF assms(1), of d "d + int (Suc k) - 1" ?step]
      by (auto simp: Let_def)
  next
    case False
    then have "max d (next_service add_months c) = max (d + 1) (next_service add_months ?c)" using due by simp
    then show ?thesis using IH False by (auto simp: Let_def algebra_simps)
  qed
qed

text \<open>
  Property C26. With the daily round running every day, an open-ended active contract has one request per property on
  exactly the dates the schedule loop of the rent payments would give for its period, from the day it is due
  (or from today, if that day has passed): no date is missed and none is served twice, whatever other
  contracts do.
\<close>

theorem services_follow_schedule:
  assumes "month_steps add_months between" and "n < length (up_contracts s)" and "c = up_contracts s ! n"
    and "list_all creatable (mc_properties c)" and "mc_active c" and "mc_state c = KActive" and "mc_end c = None"
  shows "case due_dates (add_months (frequency_months (mc_frequency c)))
      (max (up_today s) (next_service add_months c)) (up_today s + int k - 1) of
      None \<Rightarrow> False
    | Some ds \<Rightarrow> visits n (upkeep_days G creatable add_months k s)
        = visits n s @ concat (map (replicate (length (mc_properties c))) ds)"
proof -
  have "untouched n c (length (up_contracts s)) (visits n s) (up_today s) s"
    using assms(2,3) by (simp add: untouched_def)
  from contract_days [OF assms(1) this assms(4-7), of k G] show ?thesis by auto
qed

definition sample_upkeep :: upkeep where
  "sample_upkeep = \<lparr>up_requests = [], up_orders = [],
     up_contracts = [\<lparr>mc_supplier = 9, mc_properties = [1, 2], mc_category = ''ac'', mc_frequency = ''quarterly'',
       mc_start = 738156, mc_end = None, mc_last = None, mc_active = True, mc_state = KActive\<rparr>],
     up_today = 738156, up_now = 0, up_user = 2, up_box = \<lparr>ms_wires = [], ms_mails = []\<rparr>\<rparr>"

theorem services_follow_schedule_witness:
  "case due_dates (civil_add_months 3) (max 738156 (civil_add_months 3 738156)) (738156 + 365 - 1) of
     None \<Rightarrow> False
   | Some ds \<Rightarrow> visits 0 (upkeep_days sample_gateway (\<lambda>_. True) civil_add_months 365 sample_upkeep)
        = concat (map (replicate 2) ds)"
  using services_follow_schedule [OF civil.month_steps_axioms, of 0 sample_upkeep "up_contracts sample_upkeep ! 0"
      "\<lambda>_. True" sample_gateway 365]
  by (simp add: sample_upkeep_def next_service_def frequency_months_def visits_def numeral_2_eq_2 split: option.splits)

text \<open>
  The requests a contract generates are approved from the start, a state the figure of running requests of
  the technician leaves out: after a round the total has grown by one per property, the running ones have
  not changed.
\<close>

theorem generated_requests_unseen:
  assumes "n < length (up_contracts s)" and "c = up_contracts s ! n" and "list_all creatable (mc_properties c)"
  shows "case generate_request G creatable n s of (r, s') \<Rightarrow>
    r = Inr ()
    \<and> fst (technician_counts s' True (mc_supplier c)) = fst (technician_counts s True (mc_supplier c))
    \<and> snd (technician_counts s' True (mc_supplier c))
      = snd (technician_counts s True (mc_supplier c)) + length (mc_properties c)"
  using generate_creates [OF assms, of G]
  by (auto simp: technician_counts_def Let_def filter_map comp_def filter_empty_conv)

theorem generated_requests_unseen_witness:
  "technician_counts (snd (generate_request sample_gateway (\<lambda>_. True) 0 sample_upkeep)) True 9 = (0, 2)"
  using generated_requests_unseen [of 0 sample_upkeep "up_contracts sample_upkeep ! 0" "\<lambda>_. True" sample_gateway]
  by (auto simp: sample_upkeep_def technician_counts_def split: prod.splits)

end
