(* ===== verification/Identity.thy ===== *)
theory Identity
  imports RentPayment EjarWebhook
begin

text \<open>
  The identity of a user (\<^verbatim>\<open>sa_user_profile\<close>: verifications, documents, the portal pages)
  and the accounts and deletion guards of \<^verbatim>\<open>sa_security\<close>. Partners are numbered, the other
  records are known by their place in the list of their model. Reading a date from a form and the
  constraints of the base model on a partner are arguments.
\<close>

section \<open>Records\<close>

datatype verification_state = VDraft | VSubmitted | VVerified | VRejected
datatype document_state = DActive | DExpiring | DExpired | DArchived

record verification =
  vf_partner :: nat
  vf_type :: string
  vf_number :: string
  vf_expiry :: "date option"
  vf_scan :: char_field
  vf_state :: verification_state
  vf_reason :: char_field
  vf_verified_on :: "datetime option"
  vf_submitted_on :: "datetime option"

record document =
  dc_partner :: nat
  dc_type :: string
  dc_name :: string
  dc_file :: char_field
  dc_expiry :: "date option"
  dc_state :: document_state

record member =
  mb_partner :: partner
  mb_id_expiry :: "date option"
  mb_verified :: bool
  mb_image :: char_field
  mb_gender :: char_field
  mb_birth :: "date option"
  mb_bio :: char_field
  mb_region :: "int option"
  mb_city :: char_field
  mb_district :: char_field
  mb_building :: char_field
  mb_unit :: char_field
  mb_additional :: char_field
  mb_postal :: char_field
  mb_address :: char_field

record identity_db =
  members :: "nat \<Rightarrow> member"
  verifs :: "verification list"
  documents :: "document list"
  id_today :: date
  id_now :: datetime

type_synonym 'a iop = "(identity_db, exn, 'a) opn"

text \<open>A request that raises is rolled back.\<close>

definition in_request :: "'a iop \<Rightarrow> 'a iop" where
  "in_request m s = (case m s of (Inl e, _) \<Rightarrow> (Inl e, s) | (Inr x, t) \<Rightarrow> (Inr x, t))"

definition upd_member :: "nat \<Rightarrow> (member \<Rightarrow> member) \<Rightarrow> unit iop" where
  "upd_member p g = modify (\<lambda>s. s\<lparr>members := (members s)(p := g (members s p))\<rparr>)"

definition upd_verif :: "nat \<Rightarrow> (verification \<Rightarrow> verification) \<Rightarrow> unit iop" where
  "upd_verif k g = modify (\<lambda>s. s\<lparr>verifs := (verifs s)[k := g (verifs s ! k)]\<rparr>)"

definition upd_document :: "nat \<Rightarrow> (document \<Rightarrow> document) \<Rightarrow> unit iop" where
  "upd_document k g = modify (\<lambda>s. s\<lparr>documents := (documents s)[k := g (documents s ! k)]\<rparr>)"

section \<open>Verification\<close>

definition id_types :: "string list" where
  "id_types = [''national_id'', ''iqama'', ''gcc'', ''passport'', ''commercial'']"

text \<open>\<open>re.sub(r'[\s\-]', '', number)\<close>.\<close>

definition cleaned :: "string \<Rightarrow> string" where
  "cleaned s = filter (\<lambda>c. \<not> is_space_char c \<and> c \<noteq> CHR ''-'') s"

definition number_errors :: "string \<Rightarrow> string \<Rightarrow> string list" where
  "number_errors ty n =
     (if ty = ''national_id'' then (if fullmatch_id (CHR ''1'') n then [] else [''national id: 10 digits, first 1''])
      else if ty = ''iqama'' then (if fullmatch_id (CHR ''2'') n then [] else [''iqama: 10 digits, first 2''])
      else if ty = ''gcc'' then (if \<not> isdigit_str n \<or> length n < 8 then [''gcc: at least 8 digits''] else [])
      else if ty = ''passport'' then (if length n < 6 then [''passport: at least 6 places''] else [])
      else if ty = ''commercial'' then (if fullmatch_digits 10 n then [] else [''commercial register: 10 digits''])
      else [])"

definition verification_errors :: "date \<Rightarrow> verification \<Rightarrow> string list" where
  "verification_errors d v =
     number_errors (vf_type v) (cleaned (vf_number v))
     @ (case vf_expiry v of None \<Rightarrow> [] | Some e \<Rightarrow> if e < d then [''the document has expired''] else [])
     @ (if is_set (vf_scan v) then [] else [''the scan is missing''])"

text \<open>
  Writing a partner's identity: the selection of the partner knows \<open>company\<close>, not \<open>commercial\<close>, and the
  constraint on national ids is checked.
\<close>

definition partner_id_types :: "string list" where
  "partner_id_types = [''national_id'', ''iqama'', ''gcc'', ''passport'', ''company'']"

definition write_identity :: "nat \<Rightarrow> verification \<Rightarrow> unit iop" where
  "write_identity p v s =
     (if vf_type v \<notin> set partner_id_types then (Inl (Py ValueError), s)
      else
        let pt = (mb_partner (members s p))\<lparr>pt_id_type := Some (vf_type v), pt_national_id := Some (vf_number v)\<rparr>
        in case check_partner_national_id pt of
             Inl e \<Rightarrow> (Inl e, s)
           | Inr _ \<Rightarrow> upd_member p (\<lambda>m. m\<lparr>mb_partner := pt, mb_id_expiry := vf_expiry v, mb_verified := True\<rparr>) s)"

definition auto_verify :: "nat \<Rightarrow> unit iop" where
  "auto_verify k s =
     (let v = verifs s ! k; errs = verification_errors (id_today s) v in
      if errs \<noteq> []
      then upd_verif k (\<lambda>v. v\<lparr>vf_state := VRejected, vf_reason := Some (join_with '' | '' errs), vf_verified_on := None\<rparr>) s
      else andthen (upd_verif k (\<lambda>v. v\<lparr>vf_state := VVerified, vf_reason := None, vf_verified_on := Some (id_now s)\<rparr>))
             (write_identity (vf_partner v) v) s)"

definition submit_action :: "nat \<Rightarrow> unit iop" where
  "submit_action k s =
     (if length (verifs s) \<le> k then (Inl (Py KeyError), s)
      else if vf_state (verifs s ! k) \<notin> {VDraft, VRejected}
      then (Inl (UserError (Text ''only a draft or a rejected request can be submitted'')), s)
      else andthen (upd_verif k (\<lambda>v. v\<lparr>vf_submitted_on := Some (id_now s)\<rparr>)) (auto_verify k) s)"

definition reset_action :: "nat \<Rightarrow> unit iop" where
  "reset_action k = upd_verif k (\<lambda>v. v\<lparr>vf_state := VDraft, vf_reason := None, vf_verified_on := None\<rparr>)"

text \<open>The state shown for a partner is that of the newest verification.\<close>

datatype shown_state = Unverified | PendingReview | Verified | Rejected

definition shown :: "verification_state \<Rightarrow> shown_state" where
  "shown v = (case v of VDraft \<Rightarrow> Unverified | VSubmitted \<Rightarrow> PendingReview | VVerified \<Rightarrow> Verified | VRejected \<Rightarrow> Rejected)"

definition partner_verification :: "identity_db \<Rightarrow> nat \<Rightarrow> shown_state" where
  "partner_verification s p =
     (case rev (filter (\<lambda>v. vf_partner v = p) (verifs s)) of [] \<Rightarrow> Unverified | v # _ \<Rightarrow> shown (vf_state v))"

section \<open>Documents and completion\<close>

definition document_due :: "date \<Rightarrow> document \<Rightarrow> document_state" where
  "document_due d x =
     (case dc_expiry x of
        None \<Rightarrow> DActive
      | Some e \<Rightarrow> if e < d then DExpired else if e - d \<le> 30 then DExpiring else DActive)"

definition compute_document :: "date \<Rightarrow> document \<Rightarrow> document" where
  "compute_document d x = (if dc_state x = DArchived then x else x\<lparr>dc_state := document_due d x\<rparr>)"

definition archive_action :: "nat \<Rightarrow> unit iop" where
  "archive_action k = upd_document k (\<lambda>x. x\<lparr>dc_state := DArchived\<rparr>)"

definition restore_action :: "nat \<Rightarrow> unit iop" where
  "restore_action k s = upd_document k (\<lambda>x. compute_document (id_today s) (x\<lparr>dc_state := DActive\<rparr>)) s"

text \<open>The twelve fields that count, as read for truth.\<close>

definition filled_fields :: "member \<Rightarrow> bool list" where
  "filled_fields m =
     (let pt = mb_partner m in
      [is_set (pt_name pt), is_set (pt_phone pt), is_set (pt_email pt), is_set (mb_image m), is_set (mb_gender m),
       mb_birth m \<noteq> None, is_set (pt_id_type pt), is_set (pt_national_id pt), mb_region m \<noteq> None, is_set (mb_city m),
       is_set (mb_district m), is_set (mb_address m)])"

definition profile_completion :: "identity_db \<Rightarrow> nat \<Rightarrow> int" where
  "profile_completion s p =
     (let filled = length (filter id (filled_fields (members s p)));
          score = \<lfloor>(of_nat filled / 12 :: rat) * 85\<rfloor>
            + (if partner_verification s p = Verified then 10 else 0)
            + (if list_ex (\<lambda>x. dc_partner x = p) (documents s) then 5 else 0)
      in min score 100)"

section \<open>The pages of the portal\<close>

type_synonym form = "string \<rightharpoonup> string"

definition form_text :: "string \<Rightarrow> char_field" where
  "form_text t = (let t = strip t in if t = [] then None else Some t)"

definition set_text :: "string \<Rightarrow> char_field \<Rightarrow> member \<Rightarrow> member" where
  "set_text f v m =
     (if f = ''name'' then m\<lparr>mb_partner := (mb_partner m)\<lparr>pt_name := v\<rparr>\<rparr>
      else if f = ''phone'' then m\<lparr>mb_partner := (mb_partner m)\<lparr>pt_phone := v\<rparr>\<rparr>
      else if f = ''email'' then m\<lparr>mb_partner := (mb_partner m)\<lparr>pt_email := v\<rparr>\<rparr>
      else if f = ''gender'' then m\<lparr>mb_gender := v\<rparr>
      else if f = ''bio'' then m\<lparr>mb_bio := v\<rparr>
      else if f = ''city'' then m\<lparr>mb_city := v\<rparr>
      else if f = ''sa_district'' then m\<lparr>mb_district := v\<rparr>
      else if f = ''sa_building_no'' then m\<lparr>mb_building := v\<rparr>
      else if f = ''sa_unit_no'' then m\<lparr>mb_unit := v\<rparr>
      else if f = ''sa_additional_no'' then m\<lparr>mb_additional := v\<rparr>
      else if f = ''sa_postal_code'' then m\<lparr>mb_postal := v\<rparr>
      else if f = ''sa_national_address'' then m\<lparr>mb_address := v\<rparr>
      else m)"

definition set_texts :: "string list \<Rightarrow> form \<Rightarrow> member \<Rightarrow> member" where
  "set_texts fs post m =
     foldl (\<lambda>m f. case post f of None \<Rightarrow> m | Some t \<Rightarrow> set_text f (form_text t) m) m fs"

text \<open>A write that the selection of the gender or the base model refuses raises.\<close>

definition write_member :: "(member \<Rightarrow> bool) \<Rightarrow> nat \<Rightarrow> member \<Rightarrow> string iop" where
  "write_member acceptable p m =
     (if is_set (mb_gender m) \<and> mb_gender m \<notin> {Some ''male'', Some ''female''} then raise (Py ValueError)
      else if \<not> acceptable m then raise (OrmValidation (Text ''refused by the base model''))
      else andthen (upd_member p (\<lambda>_. m)) (ret ''success''))"

definition update_personal :: "(member \<Rightarrow> bool) \<Rightarrow> (string \<Rightarrow> date option) \<Rightarrow> nat \<Rightarrow> form \<Rightarrow> string iop" where
  "update_personal acceptable read_date p post s =
     (let m = set_texts [''name'', ''phone'', ''email'', ''gender'', ''bio''] post (members s p) in
      case post ''date_of_birth'' of
        None \<Rightarrow> write_member acceptable p m s
      | Some t \<Rightarrow>
          if t = [] then write_member acceptable p m s
          else (case read_date t of
              None \<Rightarrow> (Inl (Py ValueError), s)
            | Some d \<Rightarrow> write_member acceptable p (m\<lparr>mb_birth := Some d\<rparr>) s))"

definition update_address :: "(member \<Rightarrow> bool) \<Rightarrow> nat \<Rightarrow> form \<Rightarrow> string iop" where
  "update_address acceptable p post s =
     (let m = set_texts [''city'', ''sa_district'', ''sa_building_no'', ''sa_unit_no'', ''sa_additional_no'',
                ''sa_postal_code'', ''sa_national_address''] post (members s p) in
      case post ''sa_region_id'' of
        None \<Rightarrow> write_member acceptable p m s
      | Some t \<Rightarrow>
          if t = [] then write_member acceptable p m s
          else (case py_int t of
              None \<Rightarrow> (Inl (Py ValueError), s)
            | Some r \<Rightarrow> write_member acceptable p (m\<lparr>mb_region := Some r\<rparr>) s))"

text \<open>An uploaded file: its bytes, or nothing.\<close>

definition file_field :: "nat list option \<Rightarrow> char_field" where
  "file_field f = (case f of None \<Rightarrow> None | Some raw \<Rightarrow> if raw = [] then None else Some (b64encode raw))"

definition new_verification :: "nat \<Rightarrow> string \<Rightarrow> string \<Rightarrow> date option \<Rightarrow> char_field \<Rightarrow> verification" where
  "new_verification p ty n expiry scan =
     \<lparr>vf_partner = p, vf_type = ty, vf_number = n, vf_expiry = expiry, vf_scan = scan, vf_state = VDraft,
      vf_reason = None, vf_verified_on = None, vf_submitted_on = None\<rparr>"

definition form_date :: "(string \<Rightarrow> date option) \<Rightarrow> char_field \<Rightarrow> exn + date option" where
  "form_date read_date t =
     (if \<not> is_set t then Inr None
      else case read_date (the t) of None \<Rightarrow> Inl (Py ValueError) | Some d \<Rightarrow> Inr (Some d))"

definition submit_verification ::
  "(string \<Rightarrow> date option) \<Rightarrow> nat \<Rightarrow> form \<Rightarrow> nat list option \<Rightarrow> string iop" where
  "submit_verification read_date p post file = in_request (\<lambda>s.
     let ty = or_str (post ''id_type'') ''''; n = strip (or_str (post ''id_number'') '''') in
     if ty = [] \<or> n = [] then (Inr ''missing_fields'', s)
     else if ty \<notin> set id_types then (Inl (Py ValueError), s)
     else case form_date read_date (post ''id_expiry'') of
         Inl e \<Rightarrow> (Inl e, s)
       | Inr expiry \<Rightarrow>
           andthen (modify (\<lambda>s. s\<lparr>verifs := verifs s @ [new_verification p ty n expiry (file_field file)]\<rparr>))
             (andthen (submit_action (length (verifs s))) (ret ''success'')) s)"

definition document_types :: "string list" where
  "document_types = [''national_id'', ''passport'', ''commercial_reg'', ''lease_contract'', ''ownership_deed'',
     ''broker_license'', ''other'']"

definition upload_document ::
  "(string \<Rightarrow> date option) \<Rightarrow> nat \<Rightarrow> form \<Rightarrow> (string \<times> nat list) option \<Rightarrow> string iop" where
  "upload_document read_date p post file = in_request (\<lambda>s.
     case file of
       None \<Rightarrow> (Inr ''no_file'', s)
     | Some (filename, raw) \<Rightarrow>
         if raw = [] then (Inr ''empty_file'', s)
         else
           let ty = (case post ''doc_type'' of None \<Rightarrow> ''other'' | Some t \<Rightarrow> t);
               name = (let t = strip (or_str (post ''doc_name'') '''') in if t = [] then filename else t)
           in (case form_date read_date (post ''expiry_date'') of
                Inl e \<Rightarrow> (Inl e, s)
              | Inr expiry \<Rightarrow>
                  if ty \<notin> set document_types then (Inl (Py ValueError), s)
                  else andthen (modify (\<lambda>s. s\<lparr>documents := documents s @ [compute_document (id_today s)
                      \<lparr>dc_partner = p, dc_type = ty, dc_name = name, dc_file = Some (b64encode raw), dc_expiry = expiry,
                       dc_state = DActive\<rparr>]\<rparr>)) (ret ''success'') s))"

definition archive_document :: "nat \<Rightarrow> nat \<Rightarrow> string iop" where
  "archive_document p k s =
     (if k < length (documents s) \<and> dc_partner (documents s ! k) = p
      then andthen (archive_action k) (ret ''success'') s else (Inr ''success'', s))"

section \<open>What a verification stands for\<close>

text \<open>A type and number that pass the checks; a commercial register never gets there.\<close>

definition identity_ok :: "string \<Rightarrow> string \<Rightarrow> bool" where
  "identity_ok ty n \<longleftrightarrow> ty \<in> {''national_id'', ''iqama'', ''gcc'', ''passport''} \<and> number_errors ty (cleaned n) = []"

definition verification_sound :: "verification \<Rightarrow> bool" where
  "verification_sound v \<longleftrightarrow>
     vf_type v \<in> set id_types \<and> (if vf_state v = VVerified then identity_ok (vf_type v) (vf_number v) \<and> is_set (vf_scan v) else True)"

definition member_sound :: "member \<Rightarrow> bool" where
  "member_sound m \<longleftrightarrow>
     (if mb_verified m
      then (case pt_id_type (mb_partner m) of None \<Rightarrow> False
        | Some ty \<Rightarrow> (case pt_national_id (mb_partner m) of None \<Rightarrow> False | Some n \<Rightarrow> identity_ok ty n))
      else True)"

definition identity_sound :: "identity_db \<Rightarrow> bool" where
  "identity_sound s \<longleftrightarrow> list_all verification_sound (verifs s) \<and> (\<forall>p. member_sound (members s p))"

lemma keeps_in_request: "(\<And>s x t. P s \<Longrightarrow> m s = (Inr x, t) \<Longrightarrow> P t) \<Longrightarrow> keeps P (in_request m)"
  by (auto simp: keeps_def in_request_def split: prod.splits sum.splits)

lemma upd_verif_sound:
  assumes "identity_sound s" and "k < length (verifs s) \<Longrightarrow> verification_sound (g (verifs s ! k))"
  shows "identity_sound (snd (upd_verif k g s))"
  using assms
  by (cases "k < length (verifs s)")
    (auto simp: identity_sound_def upd_verif_def op_simps list_all_iff list_update_beyond dest: subsetD [OF set_update_subset_insert])

lemma upd_member_sound:
  assumes "identity_sound s" and "member_sound (g (members s p))"
  shows "identity_sound (snd (upd_member p g s))"
  using assms by (auto simp: identity_sound_def upd_member_def op_simps)

lemma no_errors:
  assumes "verification_errors d v = []" and "vf_type v \<in> set id_types" and "vf_type v \<in> set partner_id_types"
  shows "identity_ok (vf_type v) (vf_number v)" and "is_set (vf_scan v)"
  using assms
  by (auto simp: verification_errors_def identity_ok_def id_types_def partner_id_types_def split: if_splits)

lemma write_identity_run:
  assumes "write_identity p v s = (Inr x, t)" and "identity_ok (vf_type v) (vf_number v)"
  shows "\<exists>g. t = snd (upd_member p g s) \<and> member_sound (g (members s p))"
proof -
  let ?g = "\<lambda>m. m\<lparr>mb_partner := (mb_partner (members s p))\<lparr>pt_id_type := Some (vf_type v), pt_national_id := Some (vf_number v)\<rparr>,
    mb_id_expiry := vf_expiry v, mb_verified := True\<rparr>"
  have "t = snd (upd_member p ?g s)"
    using assms(1) by (auto simp: write_identity_def Let_def split: if_splits sum.splits)
  moreover have "member_sound (?g (members s p))" using assms(2) by (simp add: member_sound_def)
  ultimately show ?thesis by blast
qed

text \<open>A run of the check ends in a sound state, unless it raises and is rolled back.\<close>

lemma auto_verify_sound:
  assumes "identity_sound s" and "k < length (verifs s)" and "auto_verify k s = (Inr x, t)"
  shows "identity_sound t"
proof -
  let ?v = "verifs s ! k"
  have v: "verification_sound ?v" using assms(1,2) by (simp add: identity_sound_def list_all_length)
  show ?thesis
  proof (cases "verification_errors (id_today s) ?v = []")
    case False
    let ?g = "\<lambda>v. v\<lparr>vf_state := VRejected, vf_reason := Some (join_with '' | '' (verification_errors (id_today s) ?v)),
      vf_verified_on := None\<rparr>"
    from False have "t = snd (upd_verif k ?g s)" using assms(3) by (simp add: auto_verify_def Let_def)
    moreover have "verification_sound (?g ?v)" using v by (simp add: verification_sound_def)
    ultimately show ?thesis using upd_verif_sound [OF assms(1), of k ?g] by simp
  next
    case True
    let ?g = "\<lambda>v. v\<lparr>vf_state := VVerified, vf_reason := None, vf_verified_on := Some (id_now s)\<rparr>"
    let ?s = "s\<lparr>verifs := (verifs s)[k := ?g ?v]\<rparr>"
    have run: "write_identity (vf_partner ?v) ?v ?s = (Inr x, t)"
      using assms(3) True by (simp add: auto_verify_def Let_def upd_verif_def op_simps)
    then have types: "vf_type ?v \<in> set partner_id_types" by (simp add: write_identity_def split: if_splits)
    have ok: "identity_ok (vf_type ?v) (vf_number ?v)" "is_set (vf_scan ?v)"
      using no_errors [OF True _ types] v by (auto simp: verification_sound_def)
    have "identity_sound ?s"
      using upd_verif_sound [OF assms(1), of k ?g] v ok by (simp add: upd_verif_def op_simps verification_sound_def)
    moreover have "\<exists>g. t = snd (upd_member (vf_partner ?v) g ?s) \<and> member_sound (g (members ?s (vf_partner ?v)))"
      using write_identity_run [OF run ok(1)] .
    ultimately show ?thesis using upd_member_sound by blast
  qed
qed

lemma submit_action_sound:
  assumes "identity_sound s" and "submit_action k s = (Inr x, t)"
  shows "identity_sound t"
proof -
  let ?g = "\<lambda>v. v\<lparr>vf_submitted_on := Some (id_now s)\<rparr>"
  let ?s = "snd (upd_verif k ?g s)"
  from assms(2) have k: "k < length (verifs s)" and run: "auto_verify k ?s = (Inr x, t)"
    by (auto simp: submit_action_def upd_verif_def op_simps split: if_splits)
  have "verification_sound (verifs s ! k)" using assms(1) k by (simp add: identity_sound_def list_all_length)
  then have "identity_sound ?s" by (intro upd_verif_sound [OF assms(1)]) (simp add: verification_sound_def)
  moreover have "k < length (verifs ?s)" using k by (simp add: upd_verif_def op_simps)
  ultimately show ?thesis using auto_verify_sound run by blast
qed

lemma submit_verification_sound: "keeps identity_sound (submit_verification read_date p post file)"
  unfolding submit_verification_def
proof (rule keeps_in_request)
  fix s t :: identity_db and x :: string
  let ?ty = "or_str (post ''id_type'') ''''" and ?n = "strip (or_str (post ''id_number'') '''')"
  let ?s = "\<lambda>e. s\<lparr>verifs := verifs s @ [new_verification p ?ty ?n e (file_field file)]\<rparr>"
  assume sound: "identity_sound s" and run: "(let ty = ?ty; n = ?n in
     if ty = [] \<or> n = [] then (Inr ''missing_fields'', s)
     else if ty \<notin> set id_types then (Inl (Py ValueError), s)
     else case form_date read_date (post ''id_expiry'') of
         Inl e \<Rightarrow> (Inl e, s)
       | Inr expiry \<Rightarrow>
           andthen (modify (\<lambda>s. s\<lparr>verifs := verifs s @ [new_verification p ty n expiry (file_field file)]\<rparr>))
             (andthen (submit_action (length (verifs s))) (ret ''success'')) s) = (Inr x, t)"
  have fresh: "identity_sound (?s e)" if "?ty \<in> set id_types" for e
    using sound that by (simp add: identity_sound_def verification_sound_def new_verification_def)
  consider "t = s" | e y where "submit_action (length (verifs s)) (?s e) = (Inr y, t)" and "?ty \<in> set id_types"
    using run by (auto simp: Let_def op_simps andthen_def bind_def split: if_splits sum.splits prod.splits)
  then show "identity_sound t"
    using sound fresh submit_action_sound by cases blast+
qed

lemma set_texts_identity:
  "mb_verified (set_texts fs post m) = mb_verified m"
  "pt_id_type (mb_partner (set_texts fs post m)) = pt_id_type (mb_partner m)"
  "pt_national_id (mb_partner (set_texts fs post m)) = pt_national_id (mb_partner m)"
proof -
  have "mb_verified (set_text f v m) = mb_verified m \<and> pt_id_type (mb_partner (set_text f v m)) = pt_id_type (mb_partner m)
      \<and> pt_national_id (mb_partner (set_text f v m)) = pt_national_id (mb_partner m)" for f v m
    by (simp add: set_text_def)
  then have "mb_verified (set_texts fs post m) = mb_verified m
      \<and> pt_id_type (mb_partner (set_texts fs post m)) = pt_id_type (mb_partner m)
      \<and> pt_national_id (mb_partner (set_texts fs post m)) = pt_national_id (mb_partner m)"
    unfolding set_texts_def by (induction fs arbitrary: m) (auto split: option.split)
  then show "mb_verified (set_texts fs post m) = mb_verified m"
    "pt_id_type (mb_partner (set_texts fs post m)) = pt_id_type (mb_partner m)"
    "pt_national_id (mb_partner (set_texts fs post m)) = pt_national_id (mb_partner m)" by simp_all
qed

lemma write_member_sound:
  assumes "identity_sound s" and "mb_verified m = mb_verified (members s p)"
    and "pt_id_type (mb_partner m) = pt_id_type (mb_partner (members s p))"
    and "pt_national_id (mb_partner m) = pt_national_id (mb_partner (members s p))"
  shows "identity_sound (snd (write_member acceptable p m s))"
proof -
  have "member_sound (members s p)" using assms(1) by (simp add: identity_sound_def)
  then have "member_sound m" unfolding member_sound_def assms(2-4) .
  with assms(1) show ?thesis
    by (auto simp: write_member_def andthen_def bind_def op_simps upd_member_def identity_sound_def)
qed

lemma pages_sound:
  "keeps identity_sound (update_personal acceptable read_date p post)"
  "keeps identity_sound (update_address acceptable p post)"
  unfolding keeps_def update_personal_def update_address_def Let_def
  by (auto split: option.split intro!: write_member_sound simp: set_texts_identity)

lemma documents_sound: "identity_sound (s\<lparr>documents := ds\<rparr>) \<longleftrightarrow> identity_sound s"
  by (simp add: identity_sound_def)

lemma document_pages_sound:
  "keeps identity_sound (upload_document read_date p post f)"
  "keeps identity_sound (archive_document p k)"
  "keeps identity_sound (restore_action k)"
  by (auto simp: upload_document_def in_request_def archive_document_def archive_action_def restore_action_def
      upd_document_def keeps_def documents_sound op_simps andthen_def bind_def Let_def
      split: option.splits if_splits sum.splits)

lemma reset_sound: "keeps identity_sound (reset_action k)"
  unfolding keeps_def reset_action_def
proof (intro allI impI upd_verif_sound)
  fix s assume "identity_sound s" "k < length (verifs s)"
  then show "verification_sound ((verifs s ! k)\<lparr>vf_state := VDraft, vf_reason := None, vf_verified_on := None\<rparr>)"
    by (auto simp: identity_sound_def list_all_length verification_sound_def)
qed

section \<open>Runs of the portal and the buttons\<close>

inductive identity_step :: "identity_db \<Rightarrow> identity_db \<Rightarrow> bool" where
  personal: "identity_step s (snd (update_personal acceptable read_date p post s))"
| address: "identity_step s (snd (update_address acceptable p post s))"
| verification: "identity_step s (snd (submit_verification read_date p post file s))"
| upload: "identity_step s (snd (upload_document read_date p post f s))"
| archive: "identity_step s (snd (archive_document p k s))"
| restore: "identity_step s (snd (restore_action k s))"
| submit: "identity_step s (snd (in_request (submit_action k) s))"
| reset: "identity_step s (snd (reset_action k s))"
| clock: "identity_step s (s\<lparr>id_today := d, id_now := t\<rparr>)"

inductive identity_reachable :: "identity_db \<Rightarrow> bool" where
  fresh: "verifs s = [] \<Longrightarrow> (\<And>p. \<not> mb_verified (members s p)) \<Longrightarrow> identity_reachable s"
| step: "identity_reachable s \<Longrightarrow> identity_step s t \<Longrightarrow> identity_reachable t"

lemma identity_step_sound:
  assumes "identity_step s t" and "identity_sound s"
  shows "identity_sound t"
  using assms
proof (induction rule: identity_step.induct)
  case (submit s k)
  have "keeps identity_sound (in_request (submit_action k))"
    using submit_action_sound by (rule keeps_in_request)
  with submit show ?case by (simp add: keeps_def)
next
  case (clock s d t)
  then show ?case by (simp add: identity_sound_def)
qed (use pages_sound document_pages_sound submit_verification_sound reset_sound in \<open>simp_all add: keeps_def\<close>)

text \<open>
  Property C27. Whatever users do on the portal and with the buttons, a verification is only ever in the state verified with
  a scan, a number of the form of its type and a type other than the commercial register (whose
  verification always fails); and a partner flagged as verified carries a type and number that passed these checks.
\<close>

theorem verified_identity_sound:
  assumes "identity_reachable s"
  shows "list_all verification_sound (verifs s) \<and> member_sound (members s p)"
proof -
  have "identity_sound s"
    using assms
  proof (induction rule: identity_reachable.induct)
    case (fresh s)
    then show ?case by (simp add: identity_sound_def member_sound_def)
  next
    case (step s t)
    then show ?case by (blast intro: identity_step_sound)
  qed
  then show ?thesis by (simp add: identity_sound_def)
qed

definition sample_member :: member where
  "sample_member = \<lparr>mb_partner = blank_partner, mb_id_expiry = None, mb_verified = False, mb_image = None,
     mb_gender = None, mb_birth = None, mb_bio = None, mb_region = None, mb_city = None, mb_district = None,
     mb_building = None, mb_unit = None, mb_additional = None, mb_postal = None, mb_address = None\<rparr>"

definition sample_identity :: identity_db where
  "sample_identity = \<lparr>members = (\<lambda>_. sample_member), verifs = [], documents = [], id_today = 738156, id_now = 9\<rparr>"

definition sample_form :: form where
  "sample_form = Map.empty(''id_type'' \<mapsto> ''iqama'', ''id_number'' \<mapsto> ''2123456789'')"

definition sample_verified :: identity_db where
  "sample_verified = snd (submit_verification (\<lambda>_. None) 4 sample_form (Some [7]) sample_identity)"

lemma strip_sample: "strip ''2123456789'' = ''2123456789''" "fullmatch_id (CHR ''2'') (cleaned ''2123456789'')"
  by code_simp+

lemma sample_verified_eq:
  "mb_verified (members sample_verified 4)"
  "map vf_state (verifs sample_verified) = [VVerified]"
  by (simp_all add: sample_verified_def sample_form_def sample_identity_def submit_verification_def in_request_def
      strip_sample id_types_def form_date_def andthen_def bind_def op_simps new_verification_def file_field_def
      submit_action_def upd_verif_def auto_verify_def verification_errors_def number_errors_def write_identity_def
      partner_id_types_def sample_member_def check_partner_national_id_def upd_member_def Let_def)

theorem verified_identity_sound_witness:
  "member_sound (members sample_verified 4) \<and> mb_verified (members sample_verified 4)"
proof -
  have "identity_reachable sample_verified" unfolding sample_verified_def
    by (intro identity_reachable.step [OF _ identity_step.verification] identity_reachable.fresh)
      (simp_all add: sample_identity_def sample_member_def)
  from verified_identity_sound [OF this, of 4] sample_verified_eq show ?thesis by simp
qed

text \<open>
  A new submission without a scan is rejected and changes the state shown for the partner to rejected, but a
  partner verified before keeps the flag and the identity of the earlier verification.
\<close>

theorem rejection_keeps_flag:
  assumes "or_str (post ''id_type'') '''' \<in> set id_types" and "strip (or_str (post ''id_number'') '''') \<noteq> []"
    and "\<not> is_set (post ''id_expiry'')"
  shows "case submit_verification read_date p post None s of (r, s') \<Rightarrow>
    r = Inr ''success'' \<and> partner_verification s' p = Rejected \<and> members s' = members s"
proof -
  have "or_str (post ''id_type'') '''' \<noteq> []" using assms(1) by (auto simp: id_types_def)
  then show ?thesis
    using assms
    by (simp add: submit_verification_def in_request_def form_date_def andthen_def bind_def op_simps new_verification_def
        file_field_def submit_action_def upd_verif_def auto_verify_def verification_errors_def Let_def
        partner_verification_def shown_def)
qed

theorem rejection_keeps_flag_witness:
  "case submit_verification (\<lambda>_. None) 4 sample_form None sample_verified of (r, s') \<Rightarrow>
    partner_verification s' 4 = Rejected \<and> mb_verified (members s' 4)"
  using rejection_keeps_flag [of sample_form 4 sample_verified "\<lambda>_. None"] sample_verified_eq
  by (auto simp: sample_form_def id_types_def strip_sample split: prod.splits)

definition others_records :: "nat \<Rightarrow> identity_db \<Rightarrow> (nat \<Rightarrow> member option) \<times> verification list \<times> document list" where
  "others_records p s =
     (\<lambda>q. if q = p then None else Some (members s q), filter (\<lambda>v. vf_partner v \<noteq> p) (verifs s),
      filter (\<lambda>x. dc_partner x \<noteq> p) (documents s))"


definition own :: "nat \<Rightarrow> 'a iop \<Rightarrow> bool" where
  "own p m \<longleftrightarrow> (\<forall>s. others_records p (snd (m s)) = others_records p s)"

lemma own_in_request: "own p m \<Longrightarrow> own p (in_request m)"
  unfolding own_def
proof (intro allI)
  fix s assume *: "\<forall>s. others_records p (snd (m s)) = others_records p s"
  obtain r t where "m s = (r, t)" by (cases "m s")
  with * [rule_format, of s] show "others_records p (snd (in_request m s)) = others_records p s"
    by (cases r) (simp_all add: in_request_def)
qed

lemma own_pure: "own p (\<lambda>s. (r s, s))"
  by (simp add: own_def)

lemma own_write_member: "others_records p (snd (write_member acceptable p m s)) = others_records p s"
  by (auto simp: write_member_def others_records_def upd_member_def andthen_def bind_def op_simps)

lemma filter_update:
  assumes "\<not> P (xs ! k)" and "\<not> P y"
  shows "filter P (xs[k := y]) = filter P xs"
proof (cases "k < length xs")
  case True
  have "filter P xs = filter P (take k xs @ xs ! k # drop (Suc k) xs)"
    using True by (simp add: id_take_nth_drop [symmetric])
  with assms True show ?thesis by (simp add: upd_conv_take_nth_drop)
qed (simp add: not_less list_update_beyond)

lemma new_verification_partner: "vf_partner (new_verification p ty n e scan) = p"
  by (simp add: new_verification_def)

lemma compute_document_partner: "dc_partner (compute_document d x) = dc_partner x"
  by (simp add: compute_document_def)

lemma own_auto_verify:
  assumes "vf_partner (verifs s ! k) = p"
  shows "others_records p (snd (auto_verify k s)) = others_records p s"
  using assms
  by (auto simp: auto_verify_def Let_def upd_verif_def others_records_def op_simps andthen_def bind_def
      write_identity_def upd_member_def filter_update split: sum.split)

lemma own_submit_action:
  assumes "vf_partner (verifs s ! k) = p"
  shows "others_records p (snd (submit_action k s)) = others_records p s"
proof -
  let ?s = "s\<lparr>verifs := (verifs s)[k := (verifs s ! k)\<lparr>vf_submitted_on := Some (id_now s)\<rparr>]\<rparr>"
  have "others_records p ?s = others_records p s"
    using assms by (simp add: others_records_def filter_update fun_eq_iff)
  moreover have "others_records p (snd (auto_verify k ?s)) = others_records p ?s" if "k < length (verifs s)"
    using that assms by (intro own_auto_verify) simp
  ultimately show ?thesis
    by (simp add: submit_action_def upd_verif_def andthen_def bind_def op_simps)
qed

text \<open>
  The pages of the portal only touch the user's own records: the data, verifications and documents of every other
  partner are the same after each of them, whatever was posted and whether or not it raised.
\<close>

theorem portal_own_records:
  "others_records p (snd (update_personal acceptable read_date p post s)) = others_records p s
   \<and> others_records p (snd (update_address acceptable p post s)) = others_records p s
   \<and> others_records p (snd (submit_verification read_date p post file s)) = others_records p s
   \<and> others_records p (snd (upload_document read_date p post f s)) = others_records p s
   \<and> others_records p (snd (archive_document p k s)) = others_records p s"
proof (intro conjI)
  show "others_records p (snd (update_personal acceptable read_date p post s)) = others_records p s"
    by (simp add: update_personal_def Let_def own_write_member split: option.split)
  show "others_records p (snd (update_address acceptable p post s)) = others_records p s"
    by (simp add: update_address_def Let_def own_write_member split: option.split)
  have "others_records p (snd (submit_action (length (verifs s)) (s\<lparr>verifs := verifs s @ [v]\<rparr>))) = others_records p s"
    if "vf_partner v = p" for v and s :: identity_db
    using own_submit_action [of "s\<lparr>verifs := verifs s @ [v]\<rparr>" "length (verifs s)" p] that
    by (simp add: others_records_def fun_eq_iff)
  then have "others_records p t = others_records p s"
    if "submit_action (length (verifs s)) (s\<lparr>verifs := verifs s @ [new_verification p ty n e scan]\<rparr>) = (r, t)" for s t r ty n e scan
    using that by (metis new_verification_partner snd_conv)
  then have "own p (submit_verification read_date p post file)"
    unfolding submit_verification_def
    by (intro own_in_request)
      (auto simp: own_def Let_def andthen_def bind_def op_simps split: sum.split prod.split)
  then show "others_records p (snd (submit_verification read_date p post file s)) = others_records p s"
    by (simp add: own_def)
  have add: "others_records p (s\<lparr>documents := documents s @ [compute_document d x]\<rparr>) = others_records p s"
    if "dc_partner x = p" for d x and s :: identity_db
    using that by (simp add: others_records_def compute_document_partner fun_eq_iff)
  show "others_records p (snd (upload_document read_date p post f s)) = others_records p s"
  proof (cases f)
    case (Some a)
    then show ?thesis
      by (cases a; cases "form_date read_date (post ''expiry_date'')")
        (simp_all add: upload_document_def in_request_def Let_def andthen_def bind_def op_simps add)
  qed (simp add: upload_document_def in_request_def)
  show "others_records p (snd (archive_document p k s)) = others_records p s"
    by (auto simp: archive_document_def archive_action_def upd_document_def andthen_def bind_def op_simps
        others_records_def filter_update fun_eq_iff)
qed

section \<open>Completion of a profile\<close>

text \<open>
  The completion of a profile is between 0 and 100, and it is 100 exactly when all twelve fields are filled, the
  newest verification is verified and there is a document.
\<close>

theorem completion_bounds:
  "0 \<le> profile_completion s p \<and> profile_completion s p \<le> 100
   \<and> (profile_completion s p = 100) = (list_all id (filled_fields (members s p))
        \<and> partner_verification s p = Verified \<and> list_ex (\<lambda>x. dc_partner x = p) (documents s))"
proof -
  let ?f = "filled_fields (members s p)"
  define k where "k = length (filter id ?f)"
  have len: "length ?f = 12" by (simp add: filled_fields_def Let_def)
  then have k: "k \<le> 12" unfolding k_def by (metis length_filter_le)
  have all: "list_all id ?f \<longleftrightarrow> k = 12"
    unfolding k_def using len by (metis filter_True filter_id_conv length_filter_less list_all_iff nat_neq_iff)
  have score: "\<lfloor>(of_nat k / 12 :: rat) * 85\<rfloor> = (85 * int k) div 12"
  proof -
    have "(of_nat k / 12 :: rat) * 85 = of_int (85 * int k) / of_int 12" by simp
    then show ?thesis by (simp only: floor_divide_of_int_eq)
  qed
  have low: "0 \<le> (85 * int k) div 12" by simp
  have high: "(85 * int k) div 12 \<le> 85" "k < 12 \<Longrightarrow> (85 * int k) div 12 \<le> 77" using k by linarith+
  have full: "k = 12 \<Longrightarrow> (85 * int k) div 12 = 85" by simp
  have "profile_completion s p = min ((85 * int k) div 12 + (if partner_verification s p = Verified then 10 else 0)
      + (if list_ex (\<lambda>x. dc_partner x = p) (documents s) then 5 else 0)) 100"
    unfolding profile_completion_def Let_def k_def [symmetric] score ..
  then show ?thesis
    using low high full k by (cases "k = 12") (auto simp: all)
qed

end
