(* ===== verification/Accounts.thy ===== *)
theory Accounts
  imports RentPayment
begin

text \<open>
  Accounts and deletion guards of \<^verbatim>\<open>sa_security/models/\<close>: the account of a contact, its role, the
  invitation, and the records that must not be deleted. Whether a mail goes out and what else the base
  module refuses to delete are arguments. Groups are named by the last part of their identifier.
\<close>

section \<open>Roles\<close>

record contact_roles =
  cr_email :: char_field
  cr_owner :: bool
  cr_technician :: bool
  cr_tenant :: bool

record account =
  ac_login :: string
  ac_partner :: nat
  ac_groups :: "string list"

record security =
  accounts :: "account list"
  known_groups :: "string list"
  invited :: "string list"

type_synonym 'a sop = "(security, exn, 'a) opn"

definition security_refuse :: "string \<Rightarrow> 'a sop" where
  "security_refuse t = raise (UserError (Text t))"

definition known :: "security \<Rightarrow> string \<Rightarrow> string option" where
  "known s g = (if g \<in> set (known_groups s) then Some g else None)"

text \<open>The owner comes first, the tenant last.\<close>

definition target_group :: "security \<Rightarrow> contact_roles \<Rightarrow> string option" where
  "target_group s c =
     (if cr_owner c then known s ''group_pms_owner''
      else if cr_technician c then known s ''group_pms_technician''
      else if cr_tenant c then known s ''group_pms_tenant_portal''
      else None)"

definition accounts_of :: "security \<Rightarrow> nat \<Rightarrow> account list" where
  "accounts_of s p = filter (\<lambda>a. ac_partner a = p) (accounts s)"

definition invite :: "(string \<Rightarrow> bool) \<Rightarrow> string \<Rightarrow> bool sop" where
  "invite mail_goes login =
     (if mail_goes login then andthen (modify (\<lambda>s. s\<lparr>invited := invited s @ [login]\<rparr>)) (ret True) else ret False)"

text \<open>The invitation may fail, the account stays; the result says whether it went out.\<close>

definition create_account :: "(string \<Rightarrow> bool) \<Rightarrow> nat \<Rightarrow> contact_roles \<Rightarrow> bool sop" where
  "create_account mail_goes p c s =
     (if accounts_of s p \<noteq> [] then security_refuse ''the contact has an account'' s
      else if \<not> is_set (cr_email c) then security_refuse ''the address is missing'' s
      else if \<not> (cr_owner c \<or> cr_tenant c \<or> cr_technician c) then security_refuse ''neither owner, tenant nor technician'' s
      else case target_group s c of
          None \<Rightarrow> security_refuse ''no such role'' s
        | Some g \<Rightarrow>
            let login = the (cr_email c) in
            if list_ex (\<lambda>a. ac_login a = login) (accounts s) then security_refuse ''the address is in use'' s
            else andthen (modify (\<lambda>s. s\<lparr>accounts := accounts s @ [\<lparr>ac_login = login, ac_partner = p, ac_groups = [g]\<rparr>]\<rparr>))
                   (invite mail_goes login) s)"

definition resend_invite :: "(string \<Rightarrow> bool) \<Rightarrow> nat \<Rightarrow> unit sop" where
  "resend_invite mail_goes p s =
     (case accounts_of s p of
        [] \<Rightarrow> security_refuse ''no account to invite'' s
      | a # _ \<Rightarrow> bind (invite mail_goes (ac_login a))
          (\<lambda>ok. if ok then ret () else security_refuse ''the invitation failed'') s)"

definition open_account :: "security \<Rightarrow> nat \<Rightarrow> exn + account" where
  "open_account s p =
     (case accounts_of s p of [] \<Rightarrow> Inl (UserError (Text ''no account'')) | a # _ \<Rightarrow> Inr a)"

section \<open>Labels\<close>

definition first_role :: "security \<Rightarrow> string list \<Rightarrow> account \<Rightarrow> string" where
  "first_role s roles a = (case List.find (\<lambda>g. g \<in> set (ac_groups a)) (filter (\<lambda>g. known s g \<noteq> None) roles) of
     None \<Rightarrow> '''' | Some g \<Rightarrow> g)"

text \<open>The contact's label knows three roles, and none at all if one of the three groups is missing.\<close>

definition contact_role :: "security \<Rightarrow> nat \<Rightarrow> bool \<times> string" where
  "contact_role s p =
     (let roles = [''group_pms_owner'', ''group_pms_tenant_portal'', ''group_pms_technician''] in
      case accounts_of s p of
        [] \<Rightarrow> (False, '''')
      | a # _ \<Rightarrow> (True, if list_all (\<lambda>g. known s g \<noteq> None) roles then first_role s roles a else ''''))"

definition user_role :: "security \<Rightarrow> account \<Rightarrow> string" where
  "user_role s a =
     first_role s [''group_pms_admin'', ''group_pms_manager'', ''group_pms_accountant'', ''group_pms_agent'',
       ''group_pms_owner'', ''group_pms_technician'', ''group_pms_tenant_portal''] a"

section \<open>Deletion\<close>

text \<open>All records are looked at before any is deleted; the base module may refuse as well.\<close>

definition guarded_unlink :: "('r \<Rightarrow> bool) \<Rightarrow> ('r list \<Rightarrow> bool) \<Rightarrow> nat list \<Rightarrow> ('r list, exn, unit) opn" where
  "guarded_unlink blocked base_allows ids rs =
     (let chosen = map (nth rs) (filter (\<lambda>i. i < length rs) ids) in
      if list_ex blocked chosen then (Inl (UserError (Text ''cancel it instead of deleting it'')), rs)
      else if \<not> base_allows chosen then (Inl (UserError (Text ''refused by the base module'')), rs)
      else (Inr (), nths rs (- set ids)))"

definition unlink_moves :: "(string list \<Rightarrow> bool) \<Rightarrow> nat list \<Rightarrow> (string list, exn, unit) opn" where
  "unlink_moves = guarded_unlink (\<lambda>state. state = ''posted'')"

definition unlink_account_payments :: "(string list \<Rightarrow> bool) \<Rightarrow> nat list \<Rightarrow> (string list, exn, unit) opn" where
  "unlink_account_payments = guarded_unlink (\<lambda>state. state = ''posted'')"

definition posted_invoice :: "rent_payment \<Rightarrow> bool" where
  "posted_invoice p \<longleftrightarrow> (case rp_invoice p of None \<Rightarrow> False | Some i \<Rightarrow> inv_state i = ''posted'')"

definition unlink_rent_payments :: "(rent_payment list \<Rightarrow> bool) \<Rightarrow> nat list \<Rightarrow> (rent_payment list, exn, unit) opn" where
  "unlink_rent_payments = guarded_unlink posted_invoice"

section \<open>Properties\<close>

definition accounts_distinct :: "security \<Rightarrow> bool" where
  "accounts_distinct s \<longleftrightarrow> distinct (map ac_login (accounts s)) \<and> distinct (map ac_partner (accounts s))"

lemma invite_accounts: "accounts (snd (invite mail_goes l s)) = accounts s"
  by (simp add: invite_def andthen_def bind_def op_simps)

text \<open>
  Creating accounts keeps logins and contacts unique, and gives a new account exactly one role: owner before
  technician before tenant. A failed invitation does not take the account back; a refusal changes nothing.
\<close>

theorem account_creation:
  "case create_account mail_goes p c s of (r, t) \<Rightarrow>
     (if accounts_distinct s then accounts_distinct t else True)
     \<and> (case r of
          Inl e \<Rightarrow> t = s
        | Inr sent \<Rightarrow> accounts t = accounts s @ [\<lparr>ac_login = the (cr_email c), ac_partner = p,
              ac_groups = [if cr_owner c then ''group_pms_owner'' else if cr_technician c then ''group_pms_technician''
                else ''group_pms_tenant_portal'']\<rparr>]
            \<and> invited t = (if sent then invited s @ [the (cr_email c)] else invited s)
            \<and> sent = mail_goes (the (cr_email c)))"
proof (cases "accounts_of s p \<noteq> [] \<or> \<not> is_set (cr_email c) \<or> target_group s c = None
    \<or> list_ex (\<lambda>a. ac_login a = the (cr_email c)) (accounts s)")
  case True
  then have "\<exists>e. create_account mail_goes p c s = (Inl e, s)"
    by (cases "target_group s c") (auto simp: create_account_def security_refuse_def op_simps)
  then show ?thesis by auto
next
  case False
  let ?login = "the (cr_email c)"
  from False obtain g where g: "target_group s c = Some g" by auto
  then have role: "cr_owner c \<or> cr_tenant c \<or> cr_technician c"
      "g = (if cr_owner c then ''group_pms_owner'' else if cr_technician c then ''group_pms_technician''
        else ''group_pms_tenant_portal'')"
    by (auto simp: target_group_def known_def split: if_splits)
  have new: "?login \<notin> ac_login ` set (accounts s)" "p \<notin> ac_partner ` set (accounts s)"
    using False by (auto simp: list_ex_iff accounts_of_def filter_empty_conv)
  have "create_account mail_goes p c s = (Inr (mail_goes ?login),
      s\<lparr>accounts := accounts s @ [\<lparr>ac_login = ?login, ac_partner = p, ac_groups = [g]\<rparr>],
        invited := (if mail_goes ?login then invited s @ [?login] else invited s)\<rparr>)"
    using False g role(1) by (simp add: create_account_def invite_def andthen_def bind_def op_simps Let_def)
  then show ?thesis
    using new role(2) by (auto simp: accounts_distinct_def)
qed

text \<open>
  Deleting rent payments never removes one with a posted invoice: either nothing is deleted, or what is left
  still has all of those.
\<close>

lemma posted_payments_stay:
  "filter posted_invoice (snd (unlink_rent_payments base_allows ids ps)) = filter posted_invoice ps"
proof (cases "list_ex posted_invoice (map (nth ps) (filter (\<lambda>i. i < length ps) ids))
    \<or> \<not> base_allows (map (nth ps) (filter (\<lambda>i. i < length ps) ids))")
  case False
  then have free: "\<not> posted_invoice (ps ! i)" if "i \<in> set ids" "i < length ps" for i
    using that by (auto simp: list_ex_iff)
  have nths_keeps: "filter P (nths xs A) = filter P xs" if "\<And>i. i < length xs \<Longrightarrow> i \<notin> A \<Longrightarrow> \<not> P (xs ! i)" for P A and xs :: "rent_payment list"
    using that
  proof (induction xs arbitrary: A)
    case (Cons x xs)
    have "filter P (nths xs {j. Suc j \<in> A}) = filter P xs"
      using Cons.prems by (intro Cons.IH) fastforce
    with Cons.prems [of 0] show ?case by (auto simp: nths_Cons)
  qed simp
  have "filter posted_invoice (nths ps (- set ids)) = filter posted_invoice ps"
    by (rule nths_keeps) (auto simp: free)
  with False show ?thesis by (simp add: unlink_rent_payments_def guarded_unlink_def Let_def)
qed (auto simp: unlink_rent_payments_def guarded_unlink_def Let_def)

end
