(* ===== verification/JobQueue.thy ===== *)
theory JobQueue
  imports EjarWebhook "HOL-Library.Product_Lexorder"
begin

text \<open>
  The queues of the job runner, \<^verbatim>\<open>queue_job/jobrunner/channels.py\<close>: the priority queue that supports
  removal, the jobs with their sorting key and the queue of a channel, in which jobs with an eta wait
  apart. A job object is a number; its fields are in a store, because \<open>set_no_eta\<close> changes a job
  that the rest of the runner holds. The heap of \<open>heapq\<close> is the list of its elements in ascending
  order of their key: of the heap the code only uses its first element, the push and the pop of
  the smallest. Elements with equal keys leave it in the reverse order of their arrival, an order
  that heapq leaves open; the keys of the jobs of one database differ in the sequence. Times are
  whole seconds.
\<close>

section \<open>The interface of a queue with removal\<close>

locale removable_queue =
  fixes key :: "'a \<Rightarrow> 'k::linorder"
    and empty :: 'q
    and add :: "'a \<Rightarrow> 'q \<Rightarrow> 'q"
    and remove :: "'a \<Rightarrow> 'q \<Rightarrow> 'q"
    and pop :: "'q \<Rightarrow> 'a option \<times> 'q"
    and peek :: "'q \<Rightarrow> 'a option \<times> 'q"
    and members :: "'q \<Rightarrow> 'a set"
    and invar :: "'q \<Rightarrow> bool"
  assumes empty_law: "invar empty \<and> members empty = {}"
    and finite_law: "invar q \<Longrightarrow> finite (members q)"
    and add_law: "invar q \<Longrightarrow> invar (add x q) \<and> members (add x q) = insert x (members q)"
    and remove_law: "invar q \<Longrightarrow> invar (remove x q) \<and> members (remove x q) = members q - {x}"
    and pop_law: "invar q \<Longrightarrow>
      (case pop q of
         (None, q') \<Rightarrow> members q = {} \<and> members q' = {} \<and> invar q'
       | (Some x, q') \<Rightarrow> x \<in> members q \<and> (\<forall>y\<in>members q. key x \<le> key y)
           \<and> members q' = members q - {x} \<and> invar q')"
    and peek_law: "invar q \<Longrightarrow>
      (case peek q of
         (None, q') \<Rightarrow> members q = {} \<and> members q' = {} \<and> invar q'
       | (Some x, q') \<Rightarrow> x \<in> members q \<and> (\<forall>y\<in>members q. key x \<le> key y)
           \<and> members q' = members q \<and> invar q')"
begin

lemma pop_none: "invar q \<Longrightarrow> pop q = (None, q') \<Longrightarrow> members q = {} \<and> members q' = {} \<and> invar q'"
  using pop_law [of q] by simp

lemma pop_some:
  "invar q \<Longrightarrow> pop q = (Some x, q') \<Longrightarrow>
   x \<in> members q \<and> (\<forall>y\<in>members q. key x \<le> key y) \<and> members q' = members q - {x} \<and> invar q'"
  using pop_law [of q] by simp

lemma peek_none: "invar q \<Longrightarrow> peek q = (None, q') \<Longrightarrow> members q = {} \<and> members q' = {} \<and> invar q'"
  using peek_law [of q] by simp

lemma peek_some:
  "invar q \<Longrightarrow> peek q = (Some x, q') \<Longrightarrow>
   x \<in> members q \<and> (\<forall>y\<in>members q. key x \<le> key y) \<and> members q' = members q \<and> invar q'"
  using peek_law [of q] by simp

lemma pops_ascend:
  assumes "invar q" and "pop q = (Some x, q1)" and "pop q1 = (Some y, q2)"
  shows "key x \<le> key y \<and> x \<noteq> y"
  using pop_some [OF assms(1,2)] pop_some [of q1, OF _ assms(3)] by auto

lemma removed_never_popped:
  assumes "invar q" and "pop (remove x q) = (Some y, q')"
  shows "y \<noteq> x \<and> y \<in> members q"
  using remove_law [OF assms(1), of x] pop_some [of "remove x q", OF _ assms(2)] by auto

lemma added_is_found:
  assumes "invar q"
  shows "fst (pop (add x q)) \<noteq> None"
  using add_law [OF assms, of x] pop_law [of "add x q"] by (auto split: prod.splits option.splits)

end

section \<open>The priority queue\<close>

record 'a pqueue =
  pq_heap :: "'a list"
  pq_known :: "'a set"
  pq_removed :: "'a set"

definition pq_empty :: "'a pqueue" where
  "pq_empty = \<lparr>pq_heap = [], pq_known = {}, pq_removed = {}\<rparr>"

definition pq_len :: "'a pqueue \<Rightarrow> int" where
  "pq_len q = int (card (pq_known q)) - int (card (pq_removed q))"

text \<open>\<open>__getitem__(0)\<close> drops removed elements off the top; an empty queue is an IndexError.\<close>

fun peek_loop :: "'a list \<Rightarrow> 'a set \<Rightarrow> 'a set \<Rightarrow> 'a option \<times> 'a pqueue" where
  "peek_loop [] k r = (None, \<lparr>pq_heap = [], pq_known = k, pq_removed = r\<rparr>)"
| "peek_loop (x # h) k r =
     (if x \<in> r then peek_loop h (k - {x}) (r - {x})
      else (Some x, \<lparr>pq_heap = x # h, pq_known = k, pq_removed = r\<rparr>))"

definition pq_peek :: "'a pqueue \<Rightarrow> 'a option \<times> 'a pqueue" where
  "pq_peek q = peek_loop (pq_heap q) (pq_known q) (pq_removed q)"

definition pq_contains :: "'a \<Rightarrow> 'a pqueue \<Rightarrow> bool" where
  "pq_contains x q \<longleftrightarrow> x \<in> pq_known q \<and> x \<notin> pq_removed q"

definition pq_add :: "('a \<Rightarrow> 'k::linorder) \<Rightarrow> 'a \<Rightarrow> 'a pqueue \<Rightarrow> 'a pqueue" where
  "pq_add key x q =
     (let q1 = q\<lparr>pq_removed := pq_removed q - {x}\<rparr> in
      if x \<in> pq_known q then q1
      else q1\<lparr>pq_known := insert x (pq_known q), pq_heap := insort_key key x (pq_heap q)\<rparr>)"

definition pq_remove :: "'a \<Rightarrow> 'a pqueue \<Rightarrow> 'a pqueue" where
  "pq_remove x q = (if x \<notin> pq_known q then q else q\<lparr>pq_removed := insert x (pq_removed q)\<rparr>)"

fun pop_loop :: "'a list \<Rightarrow> 'a set \<Rightarrow> 'a set \<Rightarrow> 'a option \<times> 'a pqueue" where
  "pop_loop [] k r = (None, \<lparr>pq_heap = [], pq_known = k, pq_removed = r\<rparr>)"
| "pop_loop (x # h) k r =
     (if x \<in> r then pop_loop h (k - {x}) (r - {x})
      else (Some x, \<lparr>pq_heap = h, pq_known = k - {x}, pq_removed = r\<rparr>))"

definition pq_pop :: "'a pqueue \<Rightarrow> 'a option \<times> 'a pqueue" where
  "pq_pop q = pop_loop (pq_heap q) (pq_known q) (pq_removed q)"

text \<open>The elements that are really queued, and what holds between the three parts.\<close>

definition pq_members :: "'a pqueue \<Rightarrow> 'a set" where
  "pq_members q = pq_known q - pq_removed q"

definition pq_invar :: "('a \<Rightarrow> 'k::linorder) \<Rightarrow> 'a pqueue \<Rightarrow> bool" where
  "pq_invar key q \<longleftrightarrow> distinct (pq_heap q) \<and> set (pq_heap q) = pq_known q
     \<and> pq_removed q \<subseteq> pq_known q \<and> sorted (map key (pq_heap q))"

lemma pq_members_contains: "x \<in> pq_members q \<longleftrightarrow> pq_contains x q"
  by (simp add: pq_members_def pq_contains_def)

lemma pq_invar_finite: "pq_invar key q \<Longrightarrow> finite (pq_known q) \<and> finite (pq_removed q)"
  unfolding pq_invar_def by (metis finite_set finite_subset)

lemma pq_len_members: "pq_invar key q \<Longrightarrow> pq_len q = int (card (pq_members q))"
  using pq_invar_finite [of key q] card_mono [of "pq_known q" "pq_removed q"]
  by (simp add: pq_len_def pq_members_def card_Diff_subset pq_invar_def)

lemma pq_len_zero: "pq_invar key q \<Longrightarrow> pq_len q = 0 \<longleftrightarrow> pq_members q = {}"
  using pq_invar_finite [of key q] by (simp add: pq_len_members pq_members_def)

lemma pq_empty_invar: "pq_invar key pq_empty \<and> pq_members pq_empty = {}"
  by (simp add: pq_empty_def pq_invar_def pq_members_def)

lemma pq_add_law:
  "pq_invar key q \<Longrightarrow> pq_invar key (pq_add key x q) \<and> pq_members (pq_add key x q) = insert x (pq_members q)"
  by (auto simp: pq_add_def pq_invar_def pq_members_def Let_def set_insort_key distinct_insort sorted_insort_key)

lemma pq_remove_law:
  "pq_invar key q \<Longrightarrow> pq_invar key (pq_remove x q) \<and> pq_members (pq_remove x q) = pq_members q - {x}"
  by (auto simp: pq_remove_def pq_invar_def pq_members_def)

lemma pop_loop_law:
  "distinct h \<Longrightarrow> r \<subseteq> set h \<Longrightarrow> sorted (map key h) \<Longrightarrow> k = set h \<Longrightarrow>
   (case pop_loop h k r of
      (None, q) \<Rightarrow> k - r = {} \<and> pq_members q = {} \<and> pq_invar key q
    | (Some x, q) \<Rightarrow> x \<in> k - r \<and> (\<forall>y\<in>k - r. key x \<le> key y) \<and> pq_members q = k - r - {x} \<and> pq_invar key q)"
proof (induction h k r rule: pop_loop.induct)
  case (2 x h k r)
  show ?case
  proof (cases "x \<in> r")
    case True
    then have eq: "k - {x} - (r - {x}) = k - r" by auto
    have "distinct h" "r - {x} \<subseteq> set h" "sorted (map key h)" "k - {x} = set h"
      using "2.prems" by auto
    from "2.IH" [OF True this, unfolded eq] show ?thesis using True by simp
  next
    case False
    with "2.prems" show ?thesis by (auto simp: pq_invar_def pq_members_def)
  qed
qed (simp add: pq_invar_def pq_members_def)

lemma peek_loop_law:
  "distinct h \<Longrightarrow> r \<subseteq> set h \<Longrightarrow> sorted (map key h) \<Longrightarrow> k = set h \<Longrightarrow>
   (case peek_loop h k r of
      (None, q) \<Rightarrow> k - r = {} \<and> pq_members q = {} \<and> pq_invar key q
    | (Some x, q) \<Rightarrow> x \<in> k - r \<and> (\<forall>y\<in>k - r. key x \<le> key y) \<and> pq_members q = k - r \<and> pq_invar key q)"
proof (induction h k r rule: peek_loop.induct)
  case (2 x h k r)
  show ?case
  proof (cases "x \<in> r")
    case True
    then have eq: "k - {x} - (r - {x}) = k - r" by auto
    have "distinct h" "r - {x} \<subseteq> set h" "sorted (map key h)" "k - {x} = set h"
      using "2.prems" by auto
    from "2.IH" [OF True this, unfolded eq] show ?thesis using True by simp
  next
    case False
    with "2.prems" show ?thesis by (auto simp: pq_invar_def pq_members_def)
  qed
qed (simp add: pq_invar_def pq_members_def)

interpretation pq: removable_queue key pq_empty "pq_add key" pq_remove pq_pop pq_peek pq_members "pq_invar key"
  for key :: "'a \<Rightarrow> 'k::linorder"
proof unfold_locales
  fix q :: "'a pqueue" assume q: "pq_invar key q"
  then have parts: "distinct (pq_heap q)" "pq_removed q \<subseteq> set (pq_heap q)" "sorted (map key (pq_heap q))"
      "pq_known q = set (pq_heap q)"
    by (simp_all add: pq_invar_def)
  show "finite (pq_members q)" using pq_invar_finite [OF q] by (simp add: pq_members_def)
  show "case pq_pop q of
         (None, q') \<Rightarrow> pq_members q = {} \<and> pq_members q' = {} \<and> pq_invar key q'
       | (Some x, q') \<Rightarrow> x \<in> pq_members q \<and> (\<forall>y\<in>pq_members q. key x \<le> key y)
           \<and> pq_members q' = pq_members q - {x} \<and> pq_invar key q'"
    using pop_loop_law [OF parts] by (simp add: pq_pop_def pq_members_def [of q] split: prod.splits option.splits)
  show "case pq_peek q of
         (None, q') \<Rightarrow> pq_members q = {} \<and> pq_members q' = {} \<and> pq_invar key q'
       | (Some x, q') \<Rightarrow> x \<in> pq_members q \<and> (\<forall>y\<in>pq_members q. key x \<le> key y)
           \<and> pq_members q' = pq_members q \<and> pq_invar key q'"
    using peek_loop_law [OF parts] by (simp add: pq_peek_def pq_members_def [of q] split: prod.splits option.splits)
qed (simp_all add: pq_empty_invar pq_add_law pq_remove_law)

text \<open>Both loops only ever shorten the heap.\<close>

lemma pop_loop_length:
  "pop_loop h k r = (v, q) \<Longrightarrow> length (pq_heap q) + (if v = None then 0 else 1) \<le> length h"
  by (induction h k r rule: pop_loop.induct) (auto split: if_splits)

lemma pq_pop_length:
  "pq_pop q = (v, q') \<Longrightarrow> length (pq_heap q') + (if v = None then 0 else 1) \<le> length (pq_heap q)"
  unfolding pq_pop_def by (rule pop_loop_length)

lemma peek_loop_length: "peek_loop h k r = (v, q) \<Longrightarrow> length (pq_heap q) \<le> length h"
  by (induction h k r rule: peek_loop.induct) (auto split: if_splits)

lemma pq_peek_length: "pq_peek q = (v, q') \<Longrightarrow> length (pq_heap q') \<le> length (pq_heap q)"
  unfolding pq_peek_def by (rule peek_loop_length)

lemma pq_add_length: "length (pq_heap (pq_add key x q)) \<le> Suc (length (pq_heap q))"
  by (simp add: pq_add_def Let_def)

lemma peek_pop_shorter:
  "(Some x, p) = pq_peek q \<Longrightarrow> (Some y, r) = pq_pop p \<Longrightarrow> length (pq_heap r) < length (pq_heap q)"
  using pq_peek_length [of q "Some x" p] pq_pop_length [of p "Some y" r] by simp

text \<open>The order may change for elements that are not in the heap.\<close>

lemma pq_invar_cong:
  "(\<And>x. x \<in> pq_known q \<Longrightarrow> key x = key' x) \<Longrightarrow> pq_invar key q \<Longrightarrow> pq_invar key' q"
  unfolding pq_invar_def by (metis list.map_cong0)

section \<open>Jobs and their order\<close>

record cjob =
  cj_db :: string
  cj_channel :: "string list"
  cj_uuid :: string
  cj_seq :: int
  cj_created :: int
  cj_priority :: int
  cj_eta :: "int option"

type_synonym job_store = "nat \<Rightarrow> cjob"

text \<open>
  The sorting key without the eta, and the whole key. A comparison of a job with an eta and one
  without is a TypeError; in the queues below it does not occur, since each holds one kind of job
  (\<open>cq_invar\<close>), apart from an eta at the epoch, which counts as no eta and is not meant by it.
\<close>

definition sorting_key_ignoring_eta :: "job_store \<Rightarrow> nat \<Rightarrow> int \<times> int \<times> int" where
  "sorting_key_ignoring_eta st j = (cj_priority (st j), cj_created (st j), cj_seq (st j))"

definition sorting_key :: "job_store \<Rightarrow> nat \<Rightarrow> int \<times> int \<times> int \<times> int" where
  "sorting_key st j = ((case cj_eta (st j) of None \<Rightarrow> 0 | Some e \<Rightarrow> e), sorting_key_ignoring_eta st j)"

definition set_no_eta :: "nat \<Rightarrow> job_store \<Rightarrow> job_store" where
  "set_no_eta j st = st(j := (st j)\<lparr>cj_eta := None\<rparr>)"

definition has_eta :: "job_store \<Rightarrow> nat \<Rightarrow> bool" where
  "has_eta st j \<longleftrightarrow> (case cj_eta (st j) of None \<Rightarrow> False | Some e \<Rightarrow> e \<noteq> 0)"

definition eta_of :: "job_store \<Rightarrow> nat \<Rightarrow> int" where
  "eta_of st j = (case cj_eta (st j) of None \<Rightarrow> 0 | Some e \<Rightarrow> e)"

section \<open>The queue of a channel\<close>

record cqueue =
  cq_queue :: "nat pqueue"
  cq_eta :: "nat pqueue"
  cq_sequential :: bool

definition cq_new :: "bool \<Rightarrow> cqueue" where
  "cq_new s = \<lparr>cq_queue = pq_empty, cq_eta = pq_empty, cq_sequential = s\<rparr>"

definition cq_len :: "cqueue \<Rightarrow> int" where
  "cq_len q = pq_len (cq_eta q) + pq_len (cq_queue q)"

definition cq_contains :: "nat \<Rightarrow> cqueue \<Rightarrow> bool" where
  "cq_contains j q \<longleftrightarrow> pq_contains j (cq_eta q) \<or> pq_contains j (cq_queue q)"

definition cq_add :: "job_store \<Rightarrow> nat \<Rightarrow> cqueue \<Rightarrow> cqueue" where
  "cq_add st j q =
     (if has_eta st j then q\<lparr>cq_eta := pq_add (sorting_key st) j (cq_eta q)\<rparr>
      else q\<lparr>cq_queue := pq_add (sorting_key st) j (cq_queue q)\<rparr>)"

definition cq_remove :: "nat \<Rightarrow> cqueue \<Rightarrow> cqueue" where
  "cq_remove j q = q\<lparr>cq_eta := pq_remove j (cq_eta q), cq_queue := pq_remove j (cq_queue q)\<rparr>"

text \<open>The loop that lets the jobs past their eta compete with the others.\<close>

function move_due :: "int \<Rightarrow> job_store \<Rightarrow> cqueue \<Rightarrow> job_store \<times> cqueue" where
  "move_due now st q =
     (if pq_len (cq_eta q) = 0 then (st, q)
      else (case pq_peek (cq_eta q) of
          (None, e) \<Rightarrow> (st, q\<lparr>cq_eta := e\<rparr>)
        | (Some j, e) \<Rightarrow>
            if eta_of st j \<le> now then
              (case pq_pop e of
                 (None, e') \<Rightarrow> (st, q\<lparr>cq_eta := e'\<rparr>)
               | (Some i, e') \<Rightarrow>
                   let st' = set_no_eta i st in
                   move_due now st' (q\<lparr>cq_eta := e', cq_queue := pq_add (sorting_key st') i (cq_queue q)\<rparr>))
            else (st, q\<lparr>cq_eta := e\<rparr>)))"
  by pat_completeness auto
termination
  by (relation "measure (\<lambda>(now, st, q). length (pq_heap (cq_eta q)))")
    (auto intro: peek_pop_shorter)

declare move_due.simps [simp del]

definition cq_pop :: "int \<Rightarrow> job_store \<Rightarrow> cqueue \<Rightarrow> nat option \<times> job_store \<times> cqueue" where
  "cq_pop now st0 q0 =
     (case move_due now st0 q0 of
        (st, q) \<Rightarrow>
          if cq_sequential q \<and> pq_len (cq_eta q) \<noteq> 0 \<and> pq_len (cq_queue q) \<noteq> 0 then
            (case (pq_peek (cq_eta q), pq_peek (cq_queue q)) of
               ((Some eta_job, e), (Some job, p)) \<Rightarrow>
                 if sorting_key_ignoring_eta st eta_job < sorting_key_ignoring_eta st job
                 then (None, st, q\<lparr>cq_eta := e, cq_queue := p\<rparr>)
                 else (case pq_pop p of (r, p') \<Rightarrow> (r, st, q\<lparr>cq_eta := e, cq_queue := p'\<rparr>))
             | ((_, e), (_, p)) \<Rightarrow> (None, st, q\<lparr>cq_eta := e, cq_queue := p\<rparr>))
          else (case pq_pop (cq_queue q) of (r, p') \<Rightarrow> (r, st, q\<lparr>cq_queue := p'\<rparr>)))"

definition cq_get_wakeup_time :: "job_store \<Rightarrow> int \<Rightarrow> cqueue \<Rightarrow> int \<times> cqueue" where
  "cq_get_wakeup_time st wakeup_time q =
     (if pq_len (cq_eta q) = 0 then (wakeup_time, q)
      else (case pq_peek (cq_eta q) of
          (None, e) \<Rightarrow> (wakeup_time, q\<lparr>cq_eta := e\<rparr>)
        | (Some j, e) \<Rightarrow>
            (if wakeup_time = 0 then eta_of st j else min wakeup_time (eta_of st j), q\<lparr>cq_eta := e\<rparr>)))"

text \<open>
  The heaps never grow while jobs are moved, and a job that is popped leaves them: the measure of the
  loop of a channel.
\<close>

definition cq_size :: "cqueue \<Rightarrow> nat" where
  "cq_size q = length (pq_heap (cq_eta q)) + length (pq_heap (cq_queue q))"

lemma move_due_size: "move_due now st q = (st', q') \<Longrightarrow> cq_size q' \<le> cq_size q"
proof (induction now st q arbitrary: st' q' rule: move_due.induct)
  case (1 now st q)
  obtain v e where p: "pq_peek (cq_eta q) = (v, e)" by fastforce
  obtain w e' where w: "pq_pop e = (w, e')" by fastforce
  note short = pq_peek_length [OF p] pq_pop_length [OF w]
  show ?case
  proof (cases "pq_len (cq_eta q) \<noteq> 0 \<and> v \<noteq> None \<and> eta_of st (the v) \<le> now \<and> w \<noteq> None")
    case True
    then obtain j i where v: "v = Some j" "w = Some i" by blast
    let ?st = "set_no_eta i st"
    let ?q = "q\<lparr>cq_eta := e', cq_queue := pq_add (sorting_key ?st) i (cq_queue q)\<rparr>"
    have "move_due now ?st ?q = (st', q')"
      using "1.prems" True p w v by (subst (asm) move_due.simps) (simp add: Let_def)
    then have "cq_size q' \<le> cq_size ?q"
      using "1.IH" [OF _ p [symmetric] v(1) _ w [symmetric] v(2) refl, of st' q'] True v by simp
    also have "\<dots> \<le> cq_size q"
      using short v pq_add_length [of "sorting_key ?st" i "cq_queue q"] by (simp add: cq_size_def)
    finally show ?thesis .
  next
    case False
    then show ?thesis
      using "1.prems" p w short
      by (subst (asm) move_due.simps) (auto simp: cq_size_def Let_def split: if_splits option.splits)
  qed
qed

lemma cq_pop_size:
  "cq_pop now st q = (r, st', q') \<Longrightarrow> cq_size q' + (if r = None then 0 else 1) \<le> cq_size q"
proof -
  assume pop: "cq_pop now st q = (r, st', q')"
  obtain s p where m: "move_due now st q = (s, p)" by fastforce
  obtain v e where v: "pq_peek (cq_eta p) = (v, e)" by fastforce
  obtain u h where u: "pq_peek (cq_queue p) = (u, h)" by fastforce
  obtain a b where a: "pq_pop (cq_queue p) = (a, b)" by fastforce
  obtain c d where c: "pq_pop h = (c, d)" by fastforce
  from pop m v u a c move_due_size [OF m] pq_peek_length [OF v] pq_peek_length [OF u]
    pq_pop_length [OF a] pq_pop_length [OF c]
  show ?thesis
    by (auto simp: cq_pop_def cq_size_def split: if_splits option.splits)
qed

section \<open>What a channel queue promises\<close>

definition cq_invar :: "job_store \<Rightarrow> cqueue \<Rightarrow> bool" where
  "cq_invar st q \<longleftrightarrow> pq_invar (sorting_key st) (cq_eta q) \<and> pq_invar (sorting_key st) (cq_queue q)
     \<and> (\<forall>j\<in>pq_known (cq_eta q). has_eta st j) \<and> (\<forall>j\<in>pq_known (cq_queue q). \<not> has_eta st j)"

definition cq_members :: "cqueue \<Rightarrow> nat set" where
  "cq_members q = pq_members (cq_eta q) \<union> pq_members (cq_queue q)"

definition cq_known :: "cqueue \<Rightarrow> nat set" where
  "cq_known q = pq_known (cq_eta q) \<union> pq_known (cq_queue q)"

text \<open>The jobs whose eta has come, and the store without their eta.\<close>

definition due_jobs :: "int \<Rightarrow> job_store \<Rightarrow> cqueue \<Rightarrow> nat set" where
  "due_jobs now st q = {j \<in> pq_members (cq_eta q). eta_of st j \<le> now}"

definition clear_etas :: "nat set \<Rightarrow> job_store \<Rightarrow> job_store" where
  "clear_etas D st = (\<lambda>j. if j \<in> D then (st j)\<lparr>cj_eta := None\<rparr> else st j)"

lemma clear_etas_key [simp]:
  "sorting_key_ignoring_eta (clear_etas D st) = sorting_key_ignoring_eta st"
  "j \<notin> D \<Longrightarrow> sorting_key (clear_etas D st) j = sorting_key st j"
  "has_eta (clear_etas D st) j \<longleftrightarrow> j \<notin> D \<and> has_eta st j"
  "j \<notin> D \<Longrightarrow> eta_of (clear_etas D st) j = eta_of st j"
  by (auto simp: clear_etas_def sorting_key_ignoring_eta_def sorting_key_def has_eta_def eta_of_def)

lemma set_no_eta_clear: "set_no_eta j st = clear_etas {j} st"
  by (auto simp: set_no_eta_def clear_etas_def)

lemma clear_etas_twice [simp]: "clear_etas A (clear_etas B st) = clear_etas (A \<union> B) st"
  by (auto simp: clear_etas_def)

lemma clear_etas_none [simp]: "clear_etas {} st = st"
  by (simp add: clear_etas_def)

text \<open>Clearing the eta of jobs a queue does not know leaves its order alone.\<close>

lemma pq_invar_clear:
  "pq_invar (sorting_key st) q \<Longrightarrow> D \<inter> pq_known q = {} \<Longrightarrow> pq_invar (sorting_key (clear_etas D st)) q"
  by (rule pq_invar_cong [of q "sorting_key st"]) (metis clear_etas_key(2) disjoint_iff)

lemma pq_known_add: "pq_known (pq_add key x q) = insert x (pq_known q)"
  by (auto simp: pq_add_def Let_def)

lemma pq_known_remove [simp]: "pq_known (pq_remove x q) = pq_known q"
  by (simp add: pq_remove_def)

lemma pop_loop_known:
  "pop_loop h k r = (v, q) \<Longrightarrow> distinct h \<Longrightarrow> k = set h \<Longrightarrow> pq_known q \<subseteq> k - (case v of None \<Rightarrow> {} | Some x \<Rightarrow> {x})"
proof (induction h k r rule: pop_loop.induct)
  case (2 x h k r)
  then show ?case by (cases "x \<in> r") (fastforce split: option.splits)+
qed auto

lemma pq_pop_known:
  "pq_invar key q \<Longrightarrow> pq_pop q = (v, q') \<Longrightarrow> pq_known q' \<subseteq> pq_known q - (case v of None \<Rightarrow> {} | Some x \<Rightarrow> {x})"
  unfolding pq_invar_def pq_pop_def by (elim conjE) (erule pop_loop_known, simp_all)

lemma peek_loop_known: "peek_loop h k r = (v, q) \<Longrightarrow> pq_known q \<subseteq> k"
  by (induction h k r rule: peek_loop.induct) (auto split: if_splits)

lemma pq_peek_known: "pq_peek q = (v, q') \<Longrightarrow> pq_known q' \<subseteq> pq_known q"
  unfolding pq_peek_def by (rule peek_loop_known)

text \<open>Peeking and popping choose the same element.\<close>

lemma peek_loop_pop:
  "peek_loop h k r = (Some x, q) \<Longrightarrow> \<exists>q'. pop_loop (pq_heap q) (pq_known q) (pq_removed q) = (Some x, q')"
  by (induction h k r rule: peek_loop.induct) (auto split: if_splits)

lemma peek_then_pop: "pq_peek q = (Some x, q1) \<Longrightarrow> \<exists>q2. pq_pop q1 = (Some x, q2)"
  unfolding pq_peek_def pq_pop_def by (rule peek_loop_pop)

lemma eta_of_key: "eta_of st j = fst (sorting_key st j)"
  by (simp add: eta_of_def sorting_key_def)

lemma move_due_step:
  assumes inv: "cq_invar st q" and p: "pq_peek (cq_eta q) = (Some j, e)" and w: "pq_pop e = (Some j, e')"
    and due: "eta_of st j \<le> now"
  defines "st' \<equiv> set_no_eta j st"
  defines "q' \<equiv> q\<lparr>cq_eta := e', cq_queue := pq_add (sorting_key st') j (cq_queue q)\<rparr>"
  shows "cq_invar st' q' \<and> j \<in> due_jobs now st q \<and> due_jobs now st' q' = due_jobs now st q - {j}
    \<and> pq_members (cq_eta q') = pq_members (cq_eta q) - {j} \<and> cq_known q' \<subseteq> cq_known q
    \<and> pq_members (cq_queue q') = insert j (pq_members (cq_queue q))"
proof -
  have eta: "pq_invar (sorting_key st) (cq_eta q)" and que: "pq_invar (sorting_key st) (cq_queue q)"
    and he: "\<forall>j\<in>pq_known (cq_eta q). has_eta st j" and hq: "\<forall>j\<in>pq_known (cq_queue q). \<not> has_eta st j"
    using inv by (simp_all add: cq_invar_def)
  note pk = pq.peek_some [OF eta p]
  note pp = pq.pop_some [OF conjunct2 [OF conjunct2 [OF conjunct2 [OF pk]]] w]
  have kn: "pq_known e' \<subseteq> pq_known (cq_eta q) - {j}"
    using pq_pop_known [of "sorting_key st" e "Some j" e'] pk w pq_peek_known [OF p] by auto
  have jk: "j \<in> pq_known (cq_eta q)" "j \<in> pq_members (cq_eta q)" using pk by (auto simp: pq_members_def)
  have jq: "j \<notin> pq_known (cq_queue q)" using he hq jk by blast
  have e': "pq_invar (sorting_key st') e'"
    unfolding st'_def set_no_eta_clear by (rule pq_invar_clear) (use pp kn in auto)
  have qq: "pq_invar (sorting_key st') (cq_queue q)"
    unfolding st'_def set_no_eta_clear by (rule pq_invar_clear) (use que jq in auto)
  have "cq_invar st' q'"
    using e' pq_add_law [OF qq, of j] kn he hq
    by (auto simp: cq_invar_def q'_def pq_known_add st'_def set_no_eta_clear)
  moreover have "due_jobs now st' q' = due_jobs now st q - {j}"
    using pk pp by (auto simp: due_jobs_def q'_def st'_def set_no_eta_clear)
  moreover have "cq_known q' \<subseteq> cq_known q"
    using kn jk by (auto simp: cq_known_def q'_def pq_known_add)
  moreover have "pq_members (cq_queue q') = insert j (pq_members (cq_queue q))"
    using pq_add_law [OF qq, of j] by (simp add: q'_def)
  moreover have "pq_members (cq_eta q') = pq_members (cq_eta q) - {j}"
    using pk pp by (simp add: q'_def)
  ultimately show ?thesis using due jk by (simp add: due_jobs_def)
qed

lemma move_due_spec:
  "move_due now st q = (st', q') \<Longrightarrow> cq_invar st q \<Longrightarrow>
   cq_invar st' q' \<and> st' = clear_etas (due_jobs now st q) st \<and> cq_sequential q' = cq_sequential q
   \<and> pq_members (cq_eta q') = pq_members (cq_eta q) - due_jobs now st q
   \<and> pq_members (cq_queue q') = pq_members (cq_queue q) \<union> due_jobs now st q \<and> cq_known q' \<subseteq> cq_known q"
proof (induction now st q arbitrary: st' q' rule: move_due.induct)
  case (1 now st q)
  have eta: "pq_invar (sorting_key st) (cq_eta q)" using "1.prems" by (simp add: cq_invar_def)
  obtain v e where p: "pq_peek (cq_eta q) = (v, e)" by fastforce
  consider (empty) "pq_len (cq_eta q) = 0" | (none) "pq_len (cq_eta q) \<noteq> 0" "v = None"
    | (later) j where "pq_len (cq_eta q) \<noteq> 0" "v = Some j" "\<not> eta_of st j \<le> now"
    | (due) j where "pq_len (cq_eta q) \<noteq> 0" "v = Some j" "eta_of st j \<le> now"
    by (cases v) auto
  then show ?case
  proof cases
    case empty
    then have "pq_members (cq_eta q) = {}" by (simp add: pq_len_zero [OF eta])
    with empty "1.prems" show ?thesis by (subst (asm) move_due.simps) (auto simp: due_jobs_def)
  next
    case none
    then show ?thesis using pq.peek_none [OF eta] p by (simp add: pq_len_zero [OF eta])
  next
    case (later j)
    note pk = pq.peek_some [OF eta p [unfolded later(2)]]
    have none: "due_jobs now st q = {}"
      using pk later(3) by (fastforce simp: due_jobs_def eta_of_key sorting_key_def less_eq_prod_def)
    from later p "1.prems"(1) have "st' = st" "q' = q\<lparr>cq_eta := e\<rparr>"
      by (subst (asm) move_due.simps, simp)+
    with pk none "1.prems"(2) pq_peek_known [OF p] show ?thesis by (auto simp: cq_invar_def cq_known_def)
  next
    case (due j)
    obtain e' where w: "pq_pop e = (Some j, e')" using peek_then_pop [OF p [unfolded due(2)]] by blast
    note step = move_due_step [OF "1.prems"(2) p [unfolded due(2)] w due(3)]
    let ?st = "set_no_eta j st"
    let ?q = "q\<lparr>cq_eta := e', cq_queue := pq_add (sorting_key ?st) j (cq_queue q)\<rparr>"
    have "move_due now ?st ?q = (st', q')"
      using "1.prems"(1) p w due by (subst (asm) move_due.simps) (simp add: Let_def)
    from "1.IH" [OF due(1) p [symmetric] due(2,3) w [symmetric] refl refl this] step
    show ?thesis by (auto simp: set_no_eta_clear insert_absorb)
  qed
qed

text \<open>Among jobs without an eta the key compares like the key that ignores it.\<close>

lemma no_eta_order:
  "\<not> has_eta st j \<Longrightarrow> \<not> has_eta st k \<Longrightarrow>
   sorting_key st j \<le> sorting_key st k \<longleftrightarrow> sorting_key_ignoring_eta st j \<le> sorting_key_ignoring_eta st k"
  by (auto simp: sorting_key_def has_eta_def split: option.splits)

lemma key_eta_le: "sorting_key st j \<le> sorting_key st k \<Longrightarrow> eta_of st j \<le> eta_of st k"
  by (auto simp: eta_of_key less_eq_prod_def)

definition ready_jobs :: "int \<Rightarrow> job_store \<Rightarrow> cqueue \<Rightarrow> nat set" where
  "ready_jobs now st q = pq_members (cq_queue q) \<union> due_jobs now st q"

definition waiting_jobs :: "int \<Rightarrow> job_store \<Rightarrow> cqueue \<Rightarrow> nat set" where
  "waiting_jobs now st q = pq_members (cq_eta q) - due_jobs now st q"

text \<open>The job a sequential queue looks out for: the one with the earliest eta.\<close>

definition awaited :: "int \<Rightarrow> job_store \<Rightarrow> cqueue \<Rightarrow> nat \<Rightarrow> bool" where
  "awaited now st q w \<longleftrightarrow> w \<in> waiting_jobs now st q \<and> (\<forall>k\<in>waiting_jobs now st q. eta_of st w \<le> eta_of st k)"

definition pop_outcome :: "int \<Rightarrow> job_store \<Rightarrow> cqueue \<Rightarrow> nat option \<Rightarrow> cqueue \<Rightarrow> bool" where
  "pop_outcome now st q r q' \<longleftrightarrow>
     (case r of
        None \<Rightarrow> cq_members q' = cq_members q
          \<and> (ready_jobs now st q = {}
             \<or> cq_sequential q \<and> (\<exists>w. awaited now st q w \<and> (\<forall>j\<in>ready_jobs now st q.
                 sorting_key_ignoring_eta st w < sorting_key_ignoring_eta st j)))
      | Some j \<Rightarrow> cq_members q' = cq_members q - {j} \<and> j \<in> ready_jobs now st q
          \<and> (\<forall>k\<in>ready_jobs now st q. sorting_key_ignoring_eta st j \<le> sorting_key_ignoring_eta st k)
          \<and> (cq_sequential q \<and> waiting_jobs now st q \<noteq> {} \<longrightarrow>
               (\<exists>w. awaited now st q w \<and> sorting_key_ignoring_eta st j \<le> sorting_key_ignoring_eta st w)))"

lemma pop_queue_best:
  assumes inv: "cq_invar st q" and pop: "pq_pop (cq_queue q) = (r, p)"
  shows "case r of
      None \<Rightarrow> pq_members (cq_queue q) = {} \<and> cq_invar st (q\<lparr>cq_queue := p\<rparr>) \<and> pq_members p = {}
    | Some j \<Rightarrow> j \<in> pq_members (cq_queue q) \<and> cq_invar st (q\<lparr>cq_queue := p\<rparr>)
        \<and> (\<forall>k\<in>pq_members (cq_queue q). sorting_key_ignoring_eta st j \<le> sorting_key_ignoring_eta st k)
        \<and> pq_members p = pq_members (cq_queue q) - {j}"
proof -
  have que: "pq_invar (sorting_key st) (cq_queue q)" and none: "\<forall>j\<in>pq_members (cq_queue q). \<not> has_eta st j"
    using inv by (auto simp: cq_invar_def pq_members_def)
  have kn: "pq_known p \<subseteq> pq_known (cq_queue q)" using pq_pop_known [OF que pop] by blast
  have keep: "pq_invar (sorting_key st) p \<Longrightarrow> cq_invar st (q\<lparr>cq_queue := p\<rparr>)"
    using kn inv by (auto simp: cq_invar_def)
  show ?thesis
  proof (cases r)
    case None
    with pq.pop_none [OF que] pop keep show ?thesis by simp
  next
    case (Some j)
    note s = pq.pop_some [OF que pop [unfolded Some]]
    have "\<forall>k\<in>pq_members (cq_queue q). sorting_key_ignoring_eta st j \<le> sorting_key_ignoring_eta st k"
    proof
      fix k assume k: "k \<in> pq_members (cq_queue q)"
      with s have "sorting_key st j \<le> sorting_key st k" "\<not> has_eta st j" "\<not> has_eta st k"
        using none by simp_all
      then show "sorting_key_ignoring_eta st j \<le> sorting_key_ignoring_eta st k" by (simp add: no_eta_order)
    qed
    with s keep Some show ?thesis by simp
  qed
qed

lemma eta_disjoint: "cq_invar st q \<Longrightarrow> pq_members (cq_eta q) \<inter> pq_members (cq_queue q) = {}"
  by (auto simp: cq_invar_def pq_members_def)

lemma cq_pop_moved:
  assumes m: "move_due now st q = (st1, q1)" and pop: "cq_pop now st q = (r, st', q')"
    and inv: "cq_invar st1 q1"
  shows "st' = st1 \<and> cq_invar st1 q' \<and> cq_sequential q' = cq_sequential q1
    \<and> pq_members (cq_eta q') = pq_members (cq_eta q1)
    \<and> (case r of
         None \<Rightarrow> pq_members (cq_queue q') = pq_members (cq_queue q1) \<and> (pq_members (cq_queue q1) = {}
           \<or> cq_sequential q1 \<and> (\<exists>w\<in>pq_members (cq_eta q1).
               (\<forall>k\<in>pq_members (cq_eta q1). eta_of st1 w \<le> eta_of st1 k)
               \<and> (\<forall>j\<in>pq_members (cq_queue q1). sorting_key_ignoring_eta st1 w < sorting_key_ignoring_eta st1 j)))
       | Some j \<Rightarrow> j \<in> pq_members (cq_queue q1) \<and> pq_members (cq_queue q') = pq_members (cq_queue q1) - {j}
           \<and> (\<forall>k\<in>pq_members (cq_queue q1). sorting_key_ignoring_eta st1 j \<le> sorting_key_ignoring_eta st1 k)
           \<and> (cq_sequential q1 \<and> pq_members (cq_eta q1) \<noteq> {} \<longrightarrow> (\<exists>w\<in>pq_members (cq_eta q1).
               (\<forall>k\<in>pq_members (cq_eta q1). eta_of st1 w \<le> eta_of st1 k)
               \<and> sorting_key_ignoring_eta st1 j \<le> sorting_key_ignoring_eta st1 w)))"
proof -
  have eta: "pq_invar (sorting_key st1) (cq_eta q1)" and que: "pq_invar (sorting_key st1) (cq_queue q1)"
    using inv by (simp_all add: cq_invar_def)
  show ?thesis
  proof (cases "cq_sequential q1 \<and> pq_members (cq_eta q1) \<noteq> {} \<and> pq_members (cq_queue q1) \<noteq> {}")
    case False
    obtain a b where a: "pq_pop (cq_queue q1) = (a, b)" by fastforce
    have "cq_pop now st q = (a, st1, q1\<lparr>cq_queue := b\<rparr>)"
      using m a False by (auto simp: cq_pop_def pq_len_zero [OF eta] pq_len_zero [OF que])
    with pop pop_queue_best [OF inv a] False show ?thesis by (auto split: option.splits)
  next
    case True
    obtain w e where e: "pq_peek (cq_eta q1) = (Some w, e)"
      using pq.peek_none [OF eta] True by (cases "pq_peek (cq_eta q1)", cases "fst (pq_peek (cq_eta q1))") auto
    obtain i p where p: "pq_peek (cq_queue q1) = (Some i, p)"
      using pq.peek_none [OF que] True by (cases "pq_peek (cq_queue q1)", cases "fst (pq_peek (cq_queue q1))") auto
    obtain p' where p': "pq_pop p = (Some i, p')" using peek_then_pop [OF p] by blast
    note we = pq.peek_some [OF eta e] and ip = pq.peek_some [OF que p]
    define q2 where "q2 = q1\<lparr>cq_eta := e, cq_queue := p\<rparr>"
    have inv2: "cq_invar st1 q2"
      using inv we ip pq_peek_known [OF e] pq_peek_known [OF p] by (auto simp: cq_invar_def q2_def)
    have best: "i \<in> pq_members (cq_queue q1)
        \<and> (\<forall>k\<in>pq_members (cq_queue q1). sorting_key_ignoring_eta st1 i \<le> sorting_key_ignoring_eta st1 k)
        \<and> pq_members p' = pq_members (cq_queue q1) - {i} \<and> cq_invar st1 (q2\<lparr>cq_queue := p'\<rparr>)"
      using pop_queue_best [OF inv2, of "Some i" p'] p' ip by (simp add: q2_def)
    have w: "w \<in> pq_members (cq_eta q1)" "\<forall>k\<in>pq_members (cq_eta q1). eta_of st1 w \<le> eta_of st1 k"
      using we key_eta_le by blast+
    have res: "cq_pop now st q =
        (if sorting_key_ignoring_eta st1 w < sorting_key_ignoring_eta st1 i then (None, st1, q2)
         else (Some i, st1, q2\<lparr>cq_queue := p'\<rparr>))"
      using m e p p' True by (simp add: cq_pop_def pq_len_zero [OF eta] pq_len_zero [OF que] q2_def)
    show ?thesis
    proof (cases "sorting_key_ignoring_eta st1 w < sorting_key_ignoring_eta st1 i")
      case True
      then have "\<forall>j\<in>pq_members (cq_queue q1). sorting_key_ignoring_eta st1 w < sorting_key_ignoring_eta st1 j"
        using best less_le_trans by blast
      with True res pop inv2 we ip w \<open>cq_sequential q1 \<and> _\<close> show ?thesis by (auto simp: q2_def)
    next
      case False
      with res pop best we ip w show ?thesis by (auto simp: q2_def not_less)
    qed
  qed
qed

text \<open>
  Property C29. Popping a channel queue lets the jobs past their eta compete with the jobs without
  one and hands out the first of them by priority, creation date and sequence, whatever their eta
  was; only that job leaves the queue, and only the due jobs lose their eta. A queue that is not
  sequential hands out a job whenever one is ready. A sequential queue holds back while the waiting
  job with the earliest eta comes before every ready job.
\<close>
theorem cq_pop_best:
  assumes "cq_invar st q"
  shows "case cq_pop now st q of (r, st', q') \<Rightarrow>
    cq_invar st' q' \<and> st' = clear_etas (due_jobs now st q) st \<and> cq_sequential q' = cq_sequential q
    \<and> pop_outcome now st q r q'"
proof -
  obtain st1 q1 where m: "move_due now st q = (st1, q1)" by fastforce
  obtain r st' q' where pop: "cq_pop now st q = (r, st', q')" by (metis prod_cases3)
  note mv = move_due_spec [OF m assms]
  note pp = cq_pop_moved [OF m pop conjunct1 [OF mv]]
  have sub: "due_jobs now st q \<subseteq> pq_members (cq_eta q)" by (auto simp: due_jobs_def)
  have dj: "pq_members (cq_eta q) \<inter> pq_members (cq_queue q) = {}" by (rule eta_disjoint [OF assms])
  have etas: "\<And>k. k \<in> pq_members (cq_eta q1) \<Longrightarrow> eta_of st1 k = eta_of st k" using mv by simp
  show ?thesis
  proof (cases r)
    case None
    then show ?thesis using pop pp mv etas sub
      by (auto simp: pop_outcome_def ready_jobs_def waiting_jobs_def awaited_def cq_members_def)
  next
    case (Some j)
    then show ?thesis using pop pp mv etas sub dj
      by (auto simp: pop_outcome_def ready_jobs_def waiting_jobs_def awaited_def cq_members_def)
  qed
qed

text \<open>The queue of the docstring: job 2 has an eta of 10, jobs 0 and 1 have none.\<close>

definition example_store :: job_store where
  "example_store = (\<lambda>j. \<lparr>cj_db = ''db'', cj_channel = [], cj_uuid = ''u'', cj_seq = 0,
     cj_created = (if j = 2 then 1 else if j = 0 then 2 else 3), cj_priority = 1,
     cj_eta = (if j = 2 then Some 10 else None)\<rparr>)"

definition example_queue :: cqueue where
  "example_queue = cq_add example_store 1 (cq_add example_store 0 (cq_add example_store 2 (cq_new False)))"

lemma example_queue_invar: "cq_invar example_store example_queue"
  by (simp add: example_queue_def example_store_def cq_new_def cq_add_def has_eta_def pq_add_def Let_def
      pq_empty_def cq_invar_def pq_invar_def sorting_key_def sorting_key_ignoring_eta_def less_eq_prod_def insert_commute)

lemma cq_pop_best_witness:
  "cq_invar example_store example_queue \<and>
   (case cq_pop 11 example_store example_queue of (r, st', q') \<Rightarrow>
      cq_invar st' q' \<and> st' = clear_etas (due_jobs 11 example_store example_queue) example_store
      \<and> cq_sequential q' = cq_sequential example_queue \<and> pop_outcome 11 example_store example_queue r q')"
  using example_queue_invar cq_pop_best [OF example_queue_invar, of 11] by simp

lemma example_pops:
  "map (\<lambda>now. fst (cq_pop now example_store example_queue)) [1, 11] = [Some 0, Some 2]"
  by (simp add: example_queue_def example_store_def cq_new_def cq_add_def has_eta_def pq_add_def Let_def
      pq_empty_def sorting_key_def sorting_key_ignoring_eta_def less_eq_prod_def cq_pop_def
      move_due.simps pq_len_def pq_peek_def pq_pop_def eta_of_def set_no_eta_def)

end
