(* ===== verification/JobChannels.thy ===== *)
theory JobChannels
  imports JobQueue
begin

text \<open>
  The channels and the channel manager of the job runner, \<^verbatim>\<open>queue_job/jobrunner/channels.py\<close>. A
  channel is a node of a tree; the parent pointers of the code become paths from the root, so an
  operation that climbs to the parents descends along the path. The dictionary of channels by name
  holds exactly the channels of the tree, since every channel is entered when it is made and its
  parent keeps it. An entry of the weak dictionary of jobs counts while some channel refers to the
  job. The generator \<open>get_jobs_to_run\<close> is consumed to its end by its caller, so it is a list.
\<close>

section \<open>Channels\<close>

record channel =
  ch_name :: string
  ch_queue :: cqueue
  ch_running :: "nat set"
  ch_failed :: "nat set"
  ch_pause :: int
  ch_capacity :: "int option"
  ch_throttle :: int

datatype ctree = Chan (ct_node: channel) (ct_children: "ctree list")

datatype runner_error =
    MissingName
  | InvalidCapacity string
  | IncorrectItem string
  | DuplicateKey string
  | BadNumber
  | SequentialCapacity
  | ChannelNotFound string
  | AssertionFailed

definition new_channel :: "string \<Rightarrow> int option \<Rightarrow> channel" where
  "new_channel n cap = \<lparr>ch_name = n, ch_queue = cq_new False, ch_running = {}, ch_failed = {},
     ch_pause = 0, ch_capacity = cap, ch_throttle = 0\<rparr>"

text \<open>The subchannel with a name: names are keys of the dictionary \<open>children\<close>.\<close>

definition get_subchannel_by_name :: "ctree \<Rightarrow> string \<Rightarrow> ctree option" where
  "get_subchannel_by_name t n = List.find (\<lambda>k. ch_name (ct_node k) = n) (ct_children t)"

fun find_node :: "string list \<Rightarrow> ctree \<Rightarrow> channel option" where
  "find_node [] t = Some (ct_node t)"
| "find_node (n # p) t =
     (case get_subchannel_by_name t n of None \<Rightarrow> None | Some k \<Rightarrow> find_node p k)"

text \<open>An operation on the channel at a path (\<open>f\<close>) and one on all those above it (\<open>g\<close>).\<close>

fun along :: "(channel \<Rightarrow> channel) \<Rightarrow> (channel \<Rightarrow> channel) \<Rightarrow> string list \<Rightarrow> ctree \<Rightarrow> ctree" where
  "along f g [] (Chan c ks) = Chan (f c) ks"
| "along f g (n # p) (Chan c ks) =
     Chan (g c) (map (\<lambda>k. if ch_name (ct_node k) = n then along f g p k else k) ks)"

subsection \<open>States of a job in a channel\<close>

definition drop_job :: "nat \<Rightarrow> channel \<Rightarrow> channel" where
  "drop_job j c = c\<lparr>ch_queue := cq_remove j (ch_queue c), ch_running := ch_running c - {j},
     ch_failed := ch_failed c - {j}\<rparr>"

definition channel_remove :: "nat \<Rightarrow> string list \<Rightarrow> ctree \<Rightarrow> ctree" where
  "channel_remove j p t = along (drop_job j) (drop_job j) p t"

definition channel_set_done :: "nat \<Rightarrow> string list \<Rightarrow> ctree \<Rightarrow> ctree" where
  "channel_set_done j p t = channel_remove j p t"

definition queue_job_in :: "job_store \<Rightarrow> nat \<Rightarrow> channel \<Rightarrow> channel" where
  "queue_job_in st j c = c\<lparr>ch_queue := cq_add st j (ch_queue c), ch_running := ch_running c - {j},
     ch_failed := ch_failed c - {j}\<rparr>"

definition channel_set_pending :: "job_store \<Rightarrow> nat \<Rightarrow> string list \<Rightarrow> ctree \<Rightarrow> ctree" where
  "channel_set_pending st j p t =
     (case find_node p t of
        None \<Rightarrow> t
      | Some c \<Rightarrow> if cq_contains j (ch_queue c) then t else along (queue_job_in st j) (drop_job j) p t)"

definition run_job_in :: "nat \<Rightarrow> channel \<Rightarrow> channel" where
  "run_job_in j c = c\<lparr>ch_queue := cq_remove j (ch_queue c), ch_running := insert j (ch_running c),
     ch_failed := ch_failed c - {j}\<rparr>"

text \<open>
  \<open>set_running\<close> climbs as long as the job was not yet running: the parents whose child changed.
\<close>

fun climbs :: "nat \<Rightarrow> string list \<Rightarrow> ctree \<Rightarrow> bool" where
  "climbs j [] t \<longleftrightarrow> j \<notin> ch_running (ct_node t)"
| "climbs j (n # p) t \<longleftrightarrow> j \<notin> ch_running (ct_node t)
     \<and> (case get_subchannel_by_name t n of None \<Rightarrow> False | Some k \<Rightarrow> climbs j p k)"

fun channel_set_running :: "nat \<Rightarrow> string list \<Rightarrow> ctree \<Rightarrow> ctree" where
  "channel_set_running j [] (Chan c ks) =
     (if climbs j [] (Chan c ks) then Chan (run_job_in j c) ks else Chan c ks)"
| "channel_set_running j (n # p) (Chan c ks) =
     Chan (if climbs j (n # p) (Chan c ks) then run_job_in j c else c)
       (map (\<lambda>k. if ch_name (ct_node k) = n then channel_set_running j p k else k) ks)"

definition fail_job_in :: "nat \<Rightarrow> channel \<Rightarrow> channel" where
  "fail_job_in j c = c\<lparr>ch_queue := cq_remove j (ch_queue c), ch_running := ch_running c - {j},
     ch_failed := insert j (ch_failed c)\<rparr>"

definition channel_set_failed :: "nat \<Rightarrow> string list \<Rightarrow> ctree \<Rightarrow> ctree" where
  "channel_set_failed j p t =
     (case find_node p t of
        None \<Rightarrow> t
      | Some c \<Rightarrow> if j \<in> ch_failed c then t else along (fail_job_in j) (drop_job j) p t)"

subsection \<open>Choosing the jobs to run\<close>

definition has_capacity :: "channel \<Rightarrow> bool" where
  "has_capacity c \<longleftrightarrow>
     (if cq_sequential (ch_queue c) \<and> ch_failed c \<noteq> {} then False
      else (case ch_capacity c of
          None \<Rightarrow> True
        | Some n \<Rightarrow> if n = 0 then True else int (card (ch_running c)) < n))"

text \<open>The loop that marks jobs as running, until the capacity or the throttle ends it.\<close>

function yield_jobs :: "int \<Rightarrow> job_store \<Rightarrow> channel \<Rightarrow> nat list \<times> job_store \<times> channel" where
  "yield_jobs now st c =
     (if \<not> has_capacity c then ([], st, c)
      else (case cq_pop now st (ch_queue c) of
          (None, st', q') \<Rightarrow> ([], st', c\<lparr>ch_queue := q'\<rparr>)
        | (Some j, st', q') \<Rightarrow>
            let c' = c\<lparr>ch_queue := q', ch_running := insert j (ch_running c)\<rparr> in
            if ch_throttle c' \<noteq> 0 then ([j], st', c'\<lparr>ch_pause := now + ch_throttle c'\<rparr>)
            else (case yield_jobs now st' c' of (js, st'', c'') \<Rightarrow> (j # js, st'', c''))))"
  by pat_completeness auto
termination
  by (relation "measure (\<lambda>(now, st, c). cq_size (ch_queue c))") (auto dest!: sym [of "(_, _, _)"] cq_pop_size)

declare yield_jobs.simps [simp del]

definition enqueue_all :: "job_store \<Rightarrow> nat list \<Rightarrow> channel \<Rightarrow> channel" where
  "enqueue_all st js c = c\<lparr>ch_queue := foldl (\<lambda>q j. cq_add st j q) (ch_queue c) js\<rparr>"

definition paused :: "int \<Rightarrow> channel \<Rightarrow> bool" where
  "paused now c \<longleftrightarrow> ch_throttle c \<noteq> 0 \<and> ch_pause c \<noteq> 0 \<and> now < ch_pause c"

definition unpause :: "channel \<Rightarrow> channel" where
  "unpause c = (if ch_throttle c \<noteq> 0 \<and> ch_pause c \<noteq> 0 then c\<lparr>ch_pause := 0\<rparr> else c)"

fun channel_jobs_to_run :: "int \<Rightarrow> job_store \<Rightarrow> ctree \<Rightarrow> nat list \<times> job_store \<times> ctree"
  and children_jobs :: "int \<Rightarrow> job_store \<Rightarrow> channel \<Rightarrow> ctree list \<Rightarrow> job_store \<times> channel \<times> ctree list" where
  "channel_jobs_to_run now st (Chan c ks) =
     (case children_jobs now st c ks of
        (st1, c1, ks1) \<Rightarrow>
          if paused now c1 then ([], st1, Chan c1 ks1)
          else (case yield_jobs now st1 (unpause c1) of (js, st2, c2) \<Rightarrow> (js, st2, Chan c2 ks1)))"
| "children_jobs now st c [] = (st, c, [])"
| "children_jobs now st c (k # ks) =
     (case channel_jobs_to_run now st k of
        (js, st1, k1) \<Rightarrow>
          (case children_jobs now st1 (enqueue_all st1 js c) ks of (st2, c2, ks2) \<Rightarrow> (st2, c2, k1 # ks2)))"

fun channel_wakeup_time :: "job_store \<Rightarrow> int \<Rightarrow> ctree \<Rightarrow> int \<times> ctree"
  and children_wakeup :: "job_store \<Rightarrow> int \<Rightarrow> ctree list \<Rightarrow> int \<times> ctree list" where
  "channel_wakeup_time st w (Chan c ks) =
     (if \<not> has_capacity c then (w, Chan c ks)
      else if ch_pause c \<noteq> 0 then
        (if w = 0 then ch_pause c else min w (ch_pause c), Chan c ks)
      else (case cq_get_wakeup_time st w (ch_queue c) of
          (w1, q) \<Rightarrow> (case children_wakeup st w1 ks of (w2, ks2) \<Rightarrow> (w2, Chan (c\<lparr>ch_queue := q\<rparr>) ks2))))"
| "children_wakeup st w [] = (w, [])"
| "children_wakeup st w (k # ks) =
     (case channel_wakeup_time st w k of
        (w1, k1) \<Rightarrow> (case children_wakeup st w1 ks of (w2, ks2) \<Rightarrow> (w2, k1 # ks2)))"

section \<open>The configuration string\<close>

fun split_char :: "char \<Rightarrow> string \<Rightarrow> string list" where
  "split_char d [] = [[]]"
| "split_char d (c # s) =
     (if c = d then [] # split_char d s
      else (case split_char d s of [] \<Rightarrow> [[c]] | w # ws \<Rightarrow> (c # w) # ws))"

definition split_strip :: "string \<Rightarrow> char \<Rightarrow> string list" where
  "split_strip s d = map strip (split_char d s)"

text \<open>The items after the capacity; a key without a value has the value True, here None.\<close>

record channel_config =
  cf_name :: string
  cf_capacity :: int
  cf_items :: "(string \<times> string option) list"

fun parse_items :: "string list \<Rightarrow> (string \<times> string option) list \<Rightarrow> runner_error + (string \<times> string option) list" where
  "parse_items [] acc = Inr acc"
| "parse_items (item # rest) acc =
     (case (case split_strip item (CHR ''='') of
              [k] \<Rightarrow> Inr (k, None)
            | [k, v] \<Rightarrow> Inr (k, Some v)
            | _ \<Rightarrow> Inl (IncorrectItem item)) of
        Inl e \<Rightarrow> Inl e
      | Inr (k, v) \<Rightarrow>
          if k \<in> {''name'', ''capacity''} \<union> fst ` set acc then Inl (DuplicateKey k)
          else parse_items rest (acc @ [(k, v)]))"

definition parse_channel :: "string \<Rightarrow> runner_error + channel_config" where
  "parse_channel s =
     (case split_strip s (CHR '':'') of
        [] \<Rightarrow> Inl MissingName
      | name # rest \<Rightarrow>
          if name = [] then Inl MissingName
          else (case rest of
              [] \<Rightarrow> Inr \<lparr>cf_name = name, cf_capacity = 1, cf_items = []\<rparr>
            | capacity # items \<Rightarrow>
                (case py_int capacity of
                   None \<Rightarrow> Inl (InvalidCapacity capacity)
                 | Some n \<Rightarrow>
                     (case parse_items items [] of
                        Inl e \<Rightarrow> Inl e
                      | Inr its \<Rightarrow> Inr \<lparr>cf_name = name, cf_capacity = n, cf_items = its\<rparr>))))"

fun parse_channels :: "string list \<Rightarrow> runner_error + channel_config list" where
  "parse_channels [] = Inr []"
| "parse_channels (s # rest) =
     (if s = [] then parse_channels rest
      else (case parse_channel s of
          Inl e \<Rightarrow> Inl e
        | Inr c \<Rightarrow> map_sum id (Cons c) (parse_channels rest)))"

definition parse_simple_config :: "string \<Rightarrow> runner_error + channel_config list" where
  "parse_simple_config s =
     parse_channels (split_strip (map (\<lambda>c. if c = CHR 0x0A then CHR '','' else c) s) (CHR '',''))"

section \<open>Finding and configuring channels\<close>

definition ROOT_NAME :: string where "ROOT_NAME = ''root''"

text \<open>The path below the root: \<open>sub\<close> and \<open>root.sub\<close> are the same channel.\<close>

definition channel_path :: "string \<Rightarrow> string list" where
  "channel_path name =
     (if name = [] \<or> name = ROOT_NAME then []
      else tl (split_char (CHR ''.'') (if starts_with name (ROOT_NAME @ ''.'') then name else ROOT_NAME @ ''.'' @ name)))"

definition fullname :: "string list \<Rightarrow> string" where
  "fullname p = join_with ''.'' (ROOT_NAME # p)"

text \<open>The first configured channel above a path, or the root.\<close>

function fallback_parent :: "ctree \<Rightarrow> string list \<Rightarrow> string list" where
  "fallback_parent t p =
     (let q = butlast p in if q = [] then [] else if find_node q t \<noteq> None then q else fallback_parent t q)"
  by pat_completeness auto
termination
proof (relation "measure (\<lambda>(t, p). length p)")
  fix t :: ctree and p q :: "string list"
  assume "q = butlast p" "q \<noteq> []"
  then show "((t, q), t, p) \<in> measure (\<lambda>(t, p). length p)" by (cases p) simp_all
qed simp

declare fallback_parent.simps [simp del]

text \<open>Missing subchannels are made with unlimited capacity.\<close>

fun ensure_path :: "string list \<Rightarrow> ctree \<Rightarrow> ctree" where
  "ensure_path [] t = t"
| "ensure_path (n # p) (Chan c ks) =
     (if n \<in> (\<lambda>k. ch_name (ct_node k)) ` set ks
      then Chan c (map (\<lambda>k. if ch_name (ct_node k) = n then ensure_path p k else k) ks)
      else Chan c (ks @ [ensure_path p (Chan (new_channel n None) [])]))"

fun ensure_below :: "string list \<Rightarrow> string list \<Rightarrow> ctree \<Rightarrow> ctree" where
  "ensure_below [] p t = ensure_path p t"
| "ensure_below (n # q) p (Chan c ks) =
     Chan c (map (\<lambda>k. if ch_name (ct_node k) = n then ensure_below q p k else k) ks)"

text \<open>
  With the fallback the whole path is hung below the channel that was found, as the docstring shows:
  \<open>root.sub.not.configured\<close> becomes \<open>root.sub.sub.not.configured\<close>.
\<close>

definition get_channel_by_name :: "bool \<Rightarrow> bool \<Rightarrow> string \<Rightarrow> ctree \<Rightarrow> runner_error + (string list \<times> ctree)" where
  "get_channel_by_name autocreate parent_fallback name t =
     (let p = channel_path name in
      if p = [] then Inr ([], t)
      else if find_node p t \<noteq> None then Inr (p, t)
      else if \<not> autocreate \<and> \<not> parent_fallback then Inl (ChannelNotFound name)
      else let q = (if parent_fallback then fallback_parent t p else []) in
           Inr (q @ p, ensure_below q p t))"

definition configure :: "channel_config \<Rightarrow> channel \<Rightarrow> runner_error + channel" where
  "configure cf c =
     (let sequential = (case map_of (cf_items cf) ''sequential'' of
                          None \<Rightarrow> False | Some None \<Rightarrow> True | Some (Some v) \<Rightarrow> v \<noteq> []) in
      case (case map_of (cf_items cf) ''throttle'' of
              None \<Rightarrow> Some 0 | Some None \<Rightarrow> Some 1 | Some (Some v) \<Rightarrow> py_int v) of
        None \<Rightarrow> Inl BadNumber
      | Some n \<Rightarrow>
          if sequential \<and> cf_capacity cf \<noteq> 1 then Inl SequentialCapacity
          else Inr (c\<lparr>ch_capacity := Some (cf_capacity cf),
                      ch_queue := (ch_queue c)\<lparr>cq_sequential := sequential\<rparr>, ch_throttle := n\<rparr>))"

text \<open>
  A wrong configuration ends in a ValueError; the manager under construction is lost with it, so what
  had been configured by then is not kept.
\<close>

definition get_channel_from_config :: "channel_config \<Rightarrow> ctree \<Rightarrow> runner_error + ctree" where
  "get_channel_from_config cf t =
     (case get_channel_by_name True False (cf_name cf) t of
        Inl e \<Rightarrow> Inl e
      | Inr (p, t1) \<Rightarrow>
          if \<not> ends_with (fullname p) (cf_name cf) then Inl AssertionFailed
          else (case find_node p t1 of
              None \<Rightarrow> Inl (ChannelNotFound (cf_name cf))
            | Some c \<Rightarrow> map_sum id (\<lambda>c'. along (\<lambda>_. c') (\<lambda>x. x) p t1) (configure cf c)))"

fun configure_all :: "channel_config list \<Rightarrow> ctree \<Rightarrow> runner_error + ctree" where
  "configure_all [] t = Inr t"
| "configure_all (cf # cfs) t =
     (case get_channel_from_config cf t of Inl e \<Rightarrow> Inl e | Inr t1 \<Rightarrow> configure_all cfs t1)"

definition simple_configure :: "string \<Rightarrow> ctree \<Rightarrow> runner_error + ctree" where
  "simple_configure s t =
     (case parse_simple_config s of Inl e \<Rightarrow> Inl e | Inr cfs \<Rightarrow> configure_all cfs t)"

section \<open>The channel manager\<close>

record manager =
  m_store :: job_store
  m_next :: nat
  m_jobs :: "(string \<times> nat) list"
  m_root :: ctree

definition no_job :: cjob where
  "no_job = \<lparr>cj_db = [], cj_channel = [], cj_uuid = [], cj_seq = 0, cj_created = 0, cj_priority = 0, cj_eta = None\<rparr>"

definition new_manager :: manager where
  "new_manager = \<lparr>m_store = (\<lambda>_. no_job), m_next = 0, m_jobs = [],
     m_root = Chan (new_channel ROOT_NAME (Some 1)) []\<rparr>"

definition channel_refers :: "nat \<Rightarrow> channel \<Rightarrow> bool" where
  "channel_refers j c \<longleftrightarrow> j \<in> set (pq_heap (cq_eta (ch_queue c))) \<or> j \<in> set (pq_heap (cq_queue (ch_queue c)))
     \<or> j \<in> ch_running c \<or> j \<in> ch_failed c"

fun tree_refers :: "nat \<Rightarrow> ctree \<Rightarrow> bool" where
  "tree_refers j (Chan c ks) \<longleftrightarrow> channel_refers j c \<or> list_ex (tree_refers j) ks"

definition job_by_uuid :: "manager \<Rightarrow> string \<Rightarrow> nat option" where
  "job_by_uuid m u =
     (case map_of (m_jobs m) u of
        None \<Rightarrow> None
      | Some j \<Rightarrow> if tree_refers j (m_root m) then Some j else None)"

definition drop_from_channel :: "nat \<Rightarrow> manager \<Rightarrow> manager" where
  "drop_from_channel j m =
     m\<lparr>m_root := channel_remove j (cj_channel (m_store m j)) (m_root m),
       m_jobs := filter (\<lambda>(u, _). u \<noteq> cj_uuid (m_store m j)) (m_jobs m)\<rparr>"

definition remove_job :: "string \<Rightarrow> manager \<Rightarrow> manager" where
  "remove_job u m = (case job_by_uuid m u of None \<Rightarrow> m | Some j \<Rightarrow> drop_from_channel j m)"

definition remove_db :: "string \<Rightarrow> manager \<Rightarrow> manager" where
  "remove_db db m =
     foldl (\<lambda>m' j. if cj_db (m_store m' j) = db then drop_from_channel j m' else m') m
       (filter (\<lambda>j. tree_refers j (m_root m)) (map snd (m_jobs m)))"

definition make_job :: "cjob \<Rightarrow> manager \<Rightarrow> nat \<times> manager" where
  "make_job job m =
     (m_next m, m\<lparr>m_store := (m_store m)(m_next m := job), m_next := Suc (m_next m),
        m_jobs := (cj_uuid job, m_next m) # filter (\<lambda>(u, _). u \<noteq> cj_uuid job) (m_jobs m)\<rparr>)"

definition to_state :: "string \<Rightarrow> nat \<Rightarrow> manager \<Rightarrow> manager" where
  "to_state js j m =
     (let p = cj_channel (m_store m j); t = m_root m in
      if js = [] \<or> js = ''done'' \<or> js = ''cancelled'' then m\<lparr>m_root := channel_set_done j p t\<rparr>
      else if js = ''pending'' then m\<lparr>m_root := channel_set_pending (m_store m) j p t\<rparr>
      else if js = ''enqueued'' \<or> js = ''started'' then m\<lparr>m_root := channel_set_running j p t\<rparr>
      else if js = ''failed'' then m\<lparr>m_root := channel_set_failed j p t\<rparr>
      else m)"

text \<open>
  The properties of a job as they come from its row. The database and the creation date of a known
  job must not differ (assertions).
\<close>

definition notify :: "string \<Rightarrow> string \<Rightarrow> string \<Rightarrow> int \<Rightarrow> int \<Rightarrow> int \<Rightarrow> int option \<Rightarrow> string \<Rightarrow> manager
    \<Rightarrow> (runner_error + unit) \<times> manager" where
  "notify db name u seq created priority eta js m =
     (case get_channel_by_name False True name (m_root m) of
        Inl e \<Rightarrow> (Inl e, m)
      | Inr (p, t) \<Rightarrow>
          let m1 = m\<lparr>m_root := t\<rparr>;
              job = \<lparr>cj_db = db, cj_channel = p, cj_uuid = u, cj_seq = seq, cj_created = created,
                     cj_priority = priority, cj_eta = eta\<rparr> in
          (case job_by_uuid m1 u of
            None \<Rightarrow> (case make_job job m1 of (j, m2) \<Rightarrow> (Inr (), to_state js j m2))
          | Some j \<Rightarrow>
              let old = m_store m1 j in
              if cj_db old \<noteq> db \<or> cj_created old \<noteq> created then (Inl AssertionFailed, m1)
              else if seq \<noteq> cj_seq old \<or> priority \<noteq> cj_priority old \<or> eta \<noteq> cj_eta old \<or> p \<noteq> cj_channel old
              then (case make_job job (remove_job u m1) of (i, m2) \<Rightarrow> (Inr (), to_state js i m2))
              else (Inr (), to_state js j m1)))"

definition get_jobs_to_run :: "int \<Rightarrow> manager \<Rightarrow> nat list \<times> manager" where
  "get_jobs_to_run now m =
     (case channel_jobs_to_run now (m_store m) (m_root m) of
        (run, st, t) \<Rightarrow> (run, m\<lparr>m_store := st, m_root := t\<rparr>))"

definition get_wakeup_time :: "manager \<Rightarrow> int \<times> manager" where
  "get_wakeup_time m =
     (case channel_wakeup_time (m_store m) 0 (m_root m) of (w, t) \<Rightarrow> (w, m\<lparr>m_root := t\<rparr>))"

section \<open>The capacity is respected\<close>

text \<open>
  A channel before and after a round: the configuration and the failed jobs stay, running jobs stay
  running, and those added are within the capacity; none are added to a sequential channel with a
  failed job, and at most one to a channel with a throttle.
\<close>

definition round_of :: "channel \<Rightarrow> channel \<Rightarrow> bool" where
  "round_of c c' \<longleftrightarrow> ch_name c' = ch_name c \<and> ch_capacity c' = ch_capacity c \<and> ch_throttle c' = ch_throttle c
     \<and> cq_sequential (ch_queue c') = cq_sequential (ch_queue c) \<and> ch_failed c' = ch_failed c
     \<and> ch_running c \<subseteq> ch_running c'
     \<and> (case ch_capacity c of
          None \<Rightarrow> True
        | Some n \<Rightarrow> n = 0 \<or> int (card (ch_running c')) \<le> max n (int (card (ch_running c))))
     \<and> (cq_sequential (ch_queue c) \<and> ch_failed c \<noteq> {} \<longrightarrow> ch_running c' = ch_running c)
     \<and> (ch_throttle c \<noteq> 0 \<longrightarrow> card (ch_running c' - ch_running c) \<le> 1)"

fun tree_round :: "ctree \<Rightarrow> ctree \<Rightarrow> bool" where
  "tree_round (Chan c ks) (Chan c' ks') \<longleftrightarrow> round_of c c' \<and> list_all2 tree_round ks ks'"

lemma add_sequential [simp]: "cq_sequential (cq_add st j q) = cq_sequential q"
  by (simp add: cq_add_def)

lemma enqueue_all_simps [simp]:
  "ch_running (enqueue_all st js c) = ch_running c" "ch_failed (enqueue_all st js c) = ch_failed c"
  "ch_name (enqueue_all st js c) = ch_name c" "ch_capacity (enqueue_all st js c) = ch_capacity c"
  "ch_throttle (enqueue_all st js c) = ch_throttle c" "ch_pause (enqueue_all st js c) = ch_pause c"
  "cq_sequential (ch_queue (enqueue_all st js c)) = cq_sequential (ch_queue c)"
  by (simp_all add: enqueue_all_def) (induction js arbitrary: c rule: rev_induct, simp_all)

lemma unpause_simps [simp]:
  "ch_running (unpause c) = ch_running c" "ch_failed (unpause c) = ch_failed c" "ch_queue (unpause c) = ch_queue c"
  "ch_name (unpause c) = ch_name c" "ch_capacity (unpause c) = ch_capacity c" "ch_throttle (unpause c) = ch_throttle c"
  "has_capacity (unpause c) = has_capacity c"
  by (auto simp: unpause_def has_capacity_def split: option.splits)

lemma move_due_sequential: "move_due now st q = (st', q') \<Longrightarrow> cq_sequential q' = cq_sequential q"
proof (induction now st q arbitrary: st' q' rule: move_due.induct)
  case (1 now st q)
  obtain v e where p: "pq_peek (cq_eta q) = (v, e)" by fastforce
  obtain w e' where w: "pq_pop e = (w, e')" by fastforce
  show ?case
  proof (cases "pq_len (cq_eta q) \<noteq> 0 \<and> v \<noteq> None \<and> eta_of st (the v) \<le> now \<and> w \<noteq> None")
    case True
    then obtain j i where v: "v = Some j" "w = Some i" by blast
    have "move_due now (set_no_eta i st)
        (q\<lparr>cq_eta := e', cq_queue := pq_add (sorting_key (set_no_eta i st)) i (cq_queue q)\<rparr>) = (st', q')"
      using "1.prems" True p w v by (subst (asm) move_due.simps) (simp add: Let_def)
    from "1.IH" [OF _ p [symmetric] v(1) _ w [symmetric] v(2) refl this] True v show ?thesis by simp
  next
    case False
    then show ?thesis
      using "1.prems" p w by (subst (asm) move_due.simps) (auto simp: Let_def split: if_splits option.splits)
  qed
qed

lemma cq_pop_sequential: "cq_pop now st q = (r, st', q') \<Longrightarrow> cq_sequential q' = cq_sequential q"
  by (auto simp: cq_pop_def dest!: move_due_sequential split: if_splits option.splits prod.splits)

text \<open>Induction over the rounds of the loop, with what its four exits give.\<close>

lemma yield_jobs_cases:
  assumes "yield_jobs now st c = (js, st', c')"
  obtains (full) "\<not> has_capacity c" "js = []" "st' = st" "c' = c"
    | (idle) q' where "has_capacity c" "cq_pop now st (ch_queue c) = (None, st', q')" "js = []"
        "c' = c\<lparr>ch_queue := q'\<rparr>"
    | (single) j q' where "has_capacity c" "cq_pop now st (ch_queue c) = (Some j, st', q')" "js = [j]"
        "ch_throttle c \<noteq> 0"
        "c' = c\<lparr>ch_queue := q', ch_running := insert j (ch_running c), ch_pause := now + ch_throttle c\<rparr>"
    | (more) j st1 q' js' where "has_capacity c" "cq_pop now st (ch_queue c) = (Some j, st1, q')"
        "ch_throttle c = 0" "js = j # js'"
        "yield_jobs now st1 (c\<lparr>ch_queue := q', ch_running := insert j (ch_running c)\<rparr>) = (js', st', c')"
  using assms by (subst (asm) yield_jobs.simps) (auto simp: Let_def split: if_splits option.splits prod.splits)

lemma yield_jobs_induct [consumes 1, case_names full idle single more]:
  assumes "yield_jobs now st c = (js, st', c')"
    and "\<And>st c. \<not> has_capacity c \<Longrightarrow> P st c [] st c"
    and "\<And>st c q' st'. has_capacity c \<Longrightarrow> cq_pop now st (ch_queue c) = (None, st', q') \<Longrightarrow>
           P st c [] st' (c\<lparr>ch_queue := q'\<rparr>)"
    and "\<And>st c j q' st'. has_capacity c \<Longrightarrow> cq_pop now st (ch_queue c) = (Some j, st', q') \<Longrightarrow>
           ch_throttle c \<noteq> 0 \<Longrightarrow>
           P st c [j] st' (c\<lparr>ch_queue := q', ch_running := insert j (ch_running c), ch_pause := now + ch_throttle c\<rparr>)"
    and "\<And>st c j q' st1 js st' c'. has_capacity c \<Longrightarrow> cq_pop now st (ch_queue c) = (Some j, st1, q') \<Longrightarrow>
           ch_throttle c = 0 \<Longrightarrow> P st1 (c\<lparr>ch_queue := q', ch_running := insert j (ch_running c)\<rparr>) js st' c' \<Longrightarrow>
           P st c (j # js) st' c'"
  shows "P st c js st' c'"
  using assms(1)
proof (induction "cq_size (ch_queue c)" arbitrary: st c js st' c' rule: less_induct)
  case less
  from less.prems show ?case
  proof (cases rule: yield_jobs_cases)
    case (more j st1 q' js')
    have "cq_size q' < cq_size (ch_queue c)" using cq_pop_size [OF more(2)] by simp
    then show ?thesis using less.hyps [of "c\<lparr>ch_queue := q', ch_running := insert j (ch_running c)\<rparr>"] more assms(5)
      by simp
  qed (simp_all add: assms(2-4))
qed

lemma round_refl: "round_of c c"
  by (cases "ch_capacity c") (simp_all add: round_of_def)

lemma round_queue: "cq_sequential q = cq_sequential (ch_queue c) \<Longrightarrow> round_of c (c\<lparr>ch_queue := q\<rparr>)"
  by (cases "ch_capacity c") (simp_all add: round_of_def)

lemma card_insert_int: "int (card (insert x A)) \<le> int (card A) + 1"
  using card_insert_le_m1 [of "Suc (card A)" A x] card_insert_if [of A x] by (cases "finite A") (auto simp: card_insert_if)

lemma round_yield: "yield_jobs now st c = (js, st', c') \<Longrightarrow>
   round_of c c' \<and> ch_running c' = ch_running c \<union> set js"
proof (induction rule: yield_jobs_induct)
  case (full st c) then show ?case by (simp add: round_refl)
next
  case (idle st c q' st') then show ?case by (simp add: round_queue cq_pop_sequential)
next
  case (single st c j q' st')
  have "card (insert j (ch_running c) - ch_running c) \<le> card {j}" by (rule card_mono) auto
  with single show ?case using card_insert_int [of j "ch_running c"] cq_pop_sequential [OF single(2)]
    by (cases "ch_capacity c") (auto simp: round_of_def has_capacity_def split: if_splits)
next
  case (more st c j q' st1 js st' c')
  then show ?case using card_insert_int [of j "ch_running c"] cq_pop_sequential [OF more(2)]
    by (cases "ch_capacity c") (auto simp: round_of_def has_capacity_def split: if_splits)
qed

lemma round_trans_enqueue: "round_of (enqueue_all st js c) c' \<Longrightarrow> round_of c c'"
  by (cases "ch_capacity c") (simp_all add: round_of_def)

lemma round_unpause: "round_of (unpause c) c' \<Longrightarrow> round_of c c'"
  by (cases "ch_capacity c") (simp_all add: round_of_def)

lemma children_keep:
  "children_jobs now st c ks = (st1, c1, ks1) \<Longrightarrow>
   ch_name c1 = ch_name c \<and> ch_running c1 = ch_running c \<and> ch_failed c1 = ch_failed c
   \<and> ch_pause c1 = ch_pause c \<and> ch_capacity c1 = ch_capacity c \<and> ch_throttle c1 = ch_throttle c
   \<and> cq_sequential (ch_queue c1) = cq_sequential (ch_queue c)"
proof (induction ks arbitrary: st c st1 c1 ks1)
  case (Cons k ks)
  obtain js s k1 where k: "channel_jobs_to_run now st k = (js, s, k1)" by (metis prod_cases3)
  obtain s2 c2 ks2 where r: "children_jobs now s (enqueue_all s js c) ks = (s2, c2, ks2)" by (metis prod_cases3)
  from Cons.IH [OF r] Cons.prems k r show ?case by simp
qed simp

text \<open>
  A round of \<open>get_jobs_to_run\<close> keeps every channel of the tree within its bounds. The jobs
  running in a channel grow up to its capacity and no further (a capacity of None or 0 is no bound, and
  a channel already above it, after a restart or a new configuration, gets no job). A sequential
  channel with a failed job, and a channel paused by its throttle, start nothing; a channel with a
  throttle starts at most one job. Names, configuration and failed jobs of the channels stay, and the
  jobs handed out are those that the root channel newly counts as running.
\<close>
theorem capacity_respected:
  "case channel_jobs_to_run now st t of (js, st', t') \<Rightarrow>
     tree_round t t' \<and> ch_running (ct_node t') = ch_running (ct_node t) \<union> set js
     \<and> (if paused now (ct_node t) then js = [] else True)"
proof -
  have "channel_jobs_to_run now st t = (js, st', t') \<Longrightarrow>
      tree_round t t' \<and> ch_running (ct_node t') = ch_running (ct_node t) \<union> set js
      \<and> (if paused now (ct_node t) then js = [] else True)"
    and "children_jobs now st c ks = (st1, c1, ks1) \<Longrightarrow> list_all2 tree_round ks ks1"
    for now st t js st' t' c ks st1 c1 ks1
  proof (induction now st t and now st c ks arbitrary: js st' t' and st1 c1 ks1
      rule: channel_jobs_to_run_children_jobs.induct)
    case (1 now st c ks)
    obtain s1 c1 ks1 where k: "children_jobs now st c ks = (s1, c1, ks1)" by (metis prod_cases3)
    note keep = children_keep [OF k]
    obtain l s2 c2 where y: "yield_jobs now s1 (unpause c1) = (l, s2, c2)" by (metis prod_cases3)
    have p: "paused now c1 = paused now c" using keep by (simp add: paused_def)
    have r: "round_of c c1" using keep by (cases "ch_capacity c") (simp_all add: round_of_def)
    have c2: "round_of c c2"
      using conjunct1 [OF round_yield [OF y]] keep by (cases "ch_capacity c") (simp_all add: round_of_def)
    have "ch_running c2 = ch_running c \<union> set l" using round_yield [OF y] keep by simp
    with c2 r p k y keep "1.IH" [OF k] "1.prems" show ?case by (cases "paused now c") auto
  next
    case (3 now st c k ks)
    obtain l s k1 where k: "channel_jobs_to_run now st k = (l, s, k1)" by (metis prod_cases3)
    obtain s2 c2 ks2 where r: "children_jobs now s (enqueue_all s l c) ks = (s2, c2, ks2)" by (metis prod_cases3)
    from "3.IH"(1) [OF k] "3.IH"(2) [OF k [symmetric] refl r] "3.prems" k r show ?case by auto
  qed simp
  then show ?thesis by (auto split: prod.split)
qed

end
