(* ===== verification/JobHierarchy.thy ===== *)
theory JobHierarchy
  imports JobChannels
begin

text \<open>
  The invariant of the channels of the job runner: every channel has a job in at most one state, a
  parent channel holds exactly the jobs that are running in its children, and there is one object per
  job. All operations of the channel manager keep it.
\<close>

section \<open>The invariant of the tree\<close>

definition held :: "channel \<Rightarrow> nat set" where
  "held c = cq_members (ch_queue c) \<union> ch_running c"

definition known_in :: "channel \<Rightarrow> nat set" where
  "known_in c = cq_known (ch_queue c) \<union> ch_running c \<union> ch_failed c"

definition node_ok :: "job_store \<Rightarrow> string list \<Rightarrow> channel \<Rightarrow> bool" where
  "node_ok st p c \<longleftrightarrow> cq_invar st (ch_queue c)
     \<and> cq_members (ch_queue c) \<inter> ch_running c = {}
     \<and> ch_failed c \<inter> held c = {}
     \<and> (\<forall>j\<in>ch_failed c. cj_channel (st j) = p)
     \<and> (\<forall>j\<in>cq_known (ch_queue c). has_eta st j \<longrightarrow> cj_channel (st j) = p)"

definition kid_name :: "ctree \<Rightarrow> string" where "kid_name k = ch_name (ct_node k)"

definition kid_running :: "ctree \<Rightarrow> nat set" where "kid_running k = ch_running (ct_node k)"

definition passed_on :: "job_store \<Rightarrow> string list \<Rightarrow> channel \<Rightarrow> nat set" where
  "passed_on st p c = {j \<in> held c. cj_channel (st j) \<noteq> p}"

fun tree_ok :: "job_store \<Rightarrow> string list \<Rightarrow> ctree \<Rightarrow> bool" where
  "tree_ok st p (Chan c ks) \<longleftrightarrow> node_ok st p c \<and> distinct (map kid_name ks)
     \<and> passed_on st p c = (\<Union>k\<in>set ks. kid_running k)
     \<and> list_all (\<lambda>k. tree_ok st (p @ [kid_name k]) k) ks"

fun tree_jobs :: "ctree \<Rightarrow> nat set" where
  "tree_jobs (Chan c ks) = held c \<union> ch_failed c \<union> (\<Union>k\<in>set ks. tree_jobs k)"

fun tree_known :: "ctree \<Rightarrow> nat set" where
  "tree_known (Chan c ks) = known_in c \<union> (\<Union>k\<in>set ks. tree_known k)"

lemma tree_induct [case_names Chan]:
  "(\<And>c ks. (\<And>k. k \<in> set ks \<Longrightarrow> P k) \<Longrightarrow> P (Chan c ks)) \<Longrightarrow> P t"
  by (induction t) blast

lemma cq_members_known: "cq_members q \<subseteq> cq_known q"
  by (auto simp: cq_members_def cq_known_def pq_members_def)

lemma jobs_known: "tree_jobs t \<subseteq> tree_known t"
proof (induction t rule: tree_induct)
  case (Chan c ks)
  have "held c \<union> ch_failed c \<subseteq> known_in c" using cq_members_known by (auto simp: held_def known_in_def)
  with Chan show ?case by fastforce
qed

text \<open>Every job of a subtree belongs to a channel of that subtree.\<close>

lemma job_below:
  "tree_ok st p t \<Longrightarrow> j \<in> tree_jobs t \<Longrightarrow> \<exists>q. cj_channel (st j) = p @ q"
proof (induction t arbitrary: p rule: tree_induct)
  case (Chan c ks)
  have kid: "\<exists>q. cj_channel (st j) = p @ q" if "k \<in> set ks" "j \<in> tree_jobs k" for k
    using Chan.IH [OF that(1), of "p @ [kid_name k]"] Chan.prems(1) that by (auto simp: list_all_iff)
  show ?case
  proof (cases "cj_channel (st j) = p")
    case False
    then consider "j \<in> passed_on st p c" | k where "k \<in> set ks" "j \<in> tree_jobs k"
      using Chan.prems by (auto simp: node_ok_def passed_on_def)
    then show ?thesis
    proof cases
      case 1
      then obtain k where "k \<in> set ks" "j \<in> kid_running k" using Chan.prems(1) by auto
      moreover from this(2) have "j \<in> tree_jobs k" by (cases k) (simp add: kid_running_def held_def)
      ultimately show ?thesis using kid by blast
    qed (rule kid)
  qed simp
qed

lemma kid_job_below:
  assumes "tree_ok st p (Chan c ks)" and "k \<in> set ks" and "j \<in> tree_jobs k"
  shows "\<exists>q. cj_channel (st j) = p @ kid_name k # q"
  using job_below [of st "p @ [kid_name k]" k j] assms by (auto simp: list_all_iff)

lemma running_job: "kid_running k \<subseteq> tree_jobs k"
  by (cases k) (auto simp: kid_running_def held_def)

text \<open>The job of a channel below the first child is in no other child.\<close>

lemma other_kid:
  assumes "tree_ok st p (Chan c ks)" and "cj_channel (st j) = p @ n # q" and "k \<in> set ks" and "kid_name k \<noteq> n"
  shows "j \<notin> tree_jobs k"
  using kid_job_below [OF assms(1,3), of j] assms(2,4) by auto

lemma own_not_in_kids:
  assumes "tree_ok st p (Chan c ks)" and "cj_channel (st j) = p" and "k \<in> set ks"
  shows "j \<notin> tree_jobs k"
  using kid_job_below [OF assms(1,3), of j] assms(2) by auto

lemma find_kid:
  assumes "tree_ok st p (Chan c ks)" and "find_node (n # q) (Chan c ks) = Some d"
  shows "\<exists>k\<in>set ks. kid_name k = n \<and> find_node q k = Some d
    \<and> get_subchannel_by_name (Chan c ks) n = Some k \<and> (\<forall>k'\<in>set ks. kid_name k' = n \<longrightarrow> k' = k)"
proof -
  from assms(2) obtain k where k: "List.find (\<lambda>k. ch_name (ct_node k) = n) ks = Some k" "find_node q k = Some d"
    by (auto simp: get_subchannel_by_name_def split: option.splits)
  then have kin: "k \<in> set ks" "kid_name k = n" by (auto simp: find_Some_iff kid_name_def)
  have "k' = k" if "k' \<in> set ks" "kid_name k' = n" for k'
  proof -
    have "inj_on kid_name (set ks)" using assms(1) by (simp add: distinct_map)
    then show ?thesis using kin that by (simp add: inj_on_def)
  qed
  moreover have "get_subchannel_by_name (Chan c ks) n = Some k" using k(1) by (simp add: get_subchannel_by_name_def)
  ultimately show ?thesis using kin k(2) by blast
qed

section \<open>Changing the store\<close>

lemma node_ok_clear:
  assumes "node_ok st p c" and "\<And>j. j \<in> D \<Longrightarrow> has_eta st j \<and> cj_channel (st j) \<noteq> p"
  shows "node_ok (clear_etas D st) p c"
proof -
  have D: "D \<inter> cq_known (ch_queue c) = {}" using assms unfolding node_ok_def by blast
  then have "cq_invar (clear_etas D st) (ch_queue c)"
    using assms(1) by (auto simp: node_ok_def cq_invar_def cq_known_def intro!: pq_invar_clear)
  moreover have "cj_channel (clear_etas D st j) = cj_channel (st j)" for j by (simp add: clear_etas_def)
  ultimately show ?thesis using assms(1) by (simp add: node_ok_def)
qed

lemma clear_channel [simp]: "cj_channel (clear_etas D st j) = cj_channel (st j)"
  by (simp add: clear_etas_def)

lemma tree_ok_clear:
  "tree_ok st p t \<Longrightarrow> (\<And>j. j \<in> D \<Longrightarrow> has_eta st j \<and> (\<nexists>q. cj_channel (st j) = p @ q)) \<Longrightarrow>
   tree_ok (clear_etas D st) p t"
proof (induction t arbitrary: p rule: tree_induct)
  case (Chan c ks)
  have "node_ok (clear_etas D st) p c"
    by (rule node_ok_clear) (use Chan.prems in force)+
  moreover have "tree_ok (clear_etas D st) (p @ [kid_name k]) k" if "k \<in> set ks" for k
    by (rule Chan.IH [OF that]) (use Chan.prems that in \<open>auto simp: list_all_iff\<close>)
  moreover have "passed_on (clear_etas D st) p c = passed_on st p c" by (simp add: passed_on_def)
  ultimately show ?case using Chan.prems(1) by (simp add: list_all_iff)
qed

lemma store_irrelevant:
  "tree_ok st p t \<Longrightarrow> (\<And>j. j \<in> tree_known t \<Longrightarrow> st' j = st j) \<Longrightarrow> tree_ok st' p t"
proof (induction t arbitrary: p rule: tree_induct)
  case (Chan c ks)
  have eq: "st' j = st j" if "j \<in> known_in c" for j using Chan.prems(2) that by simp
  have kn: "cq_known (ch_queue c) \<union> held c \<union> ch_failed c \<subseteq> known_in c"
    using cq_members_known by (auto simp: known_in_def held_def)
  have "pq_invar (sorting_key st') (cq_eta (ch_queue c))" "pq_invar (sorting_key st') (cq_queue (ch_queue c))"
    using Chan.prems(1) eq kn
    by (auto simp: node_ok_def cq_invar_def cq_known_def sorting_key_def sorting_key_ignoring_eta_def
        elim!: pq_invar_cong [rotated])
  moreover have "has_eta st' j = has_eta st j" if "j \<in> cq_known (ch_queue c)" for j
    using eq [of j] that kn by (auto simp: has_eta_def)
  ultimately have "node_ok st' p c"
    using Chan.prems(1) eq kn by (auto simp: node_ok_def cq_invar_def cq_known_def)
  moreover have "passed_on st' p c = passed_on st p c"
    using eq kn by (auto simp: passed_on_def)
  moreover have "tree_ok st' (p @ [kid_name k]) k" if "k \<in> set ks" for k
    by (rule Chan.IH [OF that]) (use Chan.prems that in \<open>auto simp: list_all_iff\<close>)
  ultimately show ?case using Chan.prems(1) by (simp add: list_all_iff)
qed

section \<open>Operations on one job\<close>

lemma cq_remove_ok:
  "cq_invar st q \<Longrightarrow> cq_invar st (cq_remove j q) \<and> cq_members (cq_remove j q) = cq_members q - {j}
     \<and> cq_known (cq_remove j q) = cq_known q"
  using pq_remove_law [of "sorting_key st" "cq_eta q" j] pq_remove_law [of "sorting_key st" "cq_queue q" j]
  by (auto simp: cq_invar_def cq_remove_def cq_members_def cq_known_def)

lemma cq_add_ok:
  "cq_invar st q \<Longrightarrow> cq_invar st (cq_add st j q) \<and> cq_members (cq_add st j q) = insert j (cq_members q)
     \<and> cq_known (cq_add st j q) = insert j (cq_known q)"
  using pq_add_law [of "sorting_key st" "cq_eta q" j] pq_add_law [of "sorting_key st" "cq_queue q" j]
  by (auto simp: cq_invar_def cq_add_def cq_members_def cq_known_def pq_known_add)

lemma cq_contains_members: "cq_contains j q \<longleftrightarrow> j \<in> cq_members q"
  by (auto simp: cq_contains_def cq_members_def pq_members_contains)

lemma drop_job_ok:
  assumes "node_ok st p c"
  shows "node_ok st p (drop_job j c) \<and> held (drop_job j c) = held c - {j}
    \<and> ch_running (drop_job j c) = ch_running c - {j} \<and> ch_failed (drop_job j c) = ch_failed c - {j}
    \<and> known_in (drop_job j c) \<subseteq> known_in c \<and> ch_name (drop_job j c) = ch_name c"
  using assms cq_remove_ok [of st "ch_queue c" j]
  by (auto simp: node_ok_def drop_job_def held_def known_in_def)

lemma queue_job_ok:
  assumes "node_ok st p c" and "cj_channel (st j) = p"
  shows "node_ok st p (queue_job_in st j c) \<and> held (queue_job_in st j c) = insert j (held c)
    \<and> ch_running (queue_job_in st j c) = ch_running c - {j} \<and> ch_failed (queue_job_in st j c) = ch_failed c - {j}
    \<and> known_in (queue_job_in st j c) \<subseteq> insert j (known_in c) \<and> ch_name (queue_job_in st j c) = ch_name c"
  using assms cq_add_ok [of st "ch_queue c" j]
  by (auto simp: node_ok_def queue_job_in_def held_def known_in_def)

lemma fail_job_ok:
  assumes "node_ok st p c" and "cj_channel (st j) = p"
  shows "node_ok st p (fail_job_in j c) \<and> held (fail_job_in j c) = held c - {j}
    \<and> ch_running (fail_job_in j c) = ch_running c - {j} \<and> ch_failed (fail_job_in j c) = insert j (ch_failed c)
    \<and> known_in (fail_job_in j c) \<subseteq> insert j (known_in c) \<and> ch_name (fail_job_in j c) = ch_name c"
  using assms cq_remove_ok [of st "ch_queue c" j]
  by (auto simp: node_ok_def fail_job_in_def held_def known_in_def)

lemma run_job_ok:
  assumes "node_ok st p c" and "cj_channel (st j) = p \<or> j \<notin> ch_failed c"
  shows "node_ok st p (run_job_in j c) \<and> held (run_job_in j c) = insert j (held c)
    \<and> ch_running (run_job_in j c) = insert j (ch_running c) \<and> ch_failed (run_job_in j c) = ch_failed c - {j}
    \<and> known_in (run_job_in j c) \<subseteq> insert j (known_in c) \<and> ch_name (run_job_in j c) = ch_name c"
  using assms cq_remove_ok [of st "ch_queue c" j]
  by (auto simp: node_ok_def run_job_in_def held_def known_in_def)

lemma tree_ok_kids:
  assumes "tree_ok st p (Chan c ks)" and "node_ok st p c'"
    and "\<And>k. k \<in> set ks \<Longrightarrow> kid_name (h k) = kid_name k \<and> tree_ok st (p @ [kid_name k]) (h k)"
    and "passed_on st p c' = (\<Union>k\<in>set ks. kid_running (h k))"
  shows "tree_ok st p (Chan c' (map h ks))"
proof -
  have eq: "map (kid_name \<circ> h) ks = map kid_name ks" using assms(3) by simp
  have "distinct (map (kid_name \<circ> h) ks)" unfolding eq using assms(1) by simp
  then show ?thesis using assms by (simp add: list_all_iff)
qed

lemma along_ok:
  assumes "tree_ok st p t" and "cj_channel (st j) = p @ q" and "find_node q t = Some d"
    and "node_ok st (p @ q) (f d)" and "held (f d) - {j} = held d - {j}"
    and "ch_running (f d) = ch_running d - {j}" and "ch_name (f d) = ch_name d"
  shows "tree_ok st p (along f (drop_job j) q t) \<and> kid_name (along f (drop_job j) q t) = kid_name t
    \<and> kid_running (along f (drop_job j) q t) = kid_running t - {j}"
  using assms
proof (induction q arbitrary: p t)
  case Nil
  obtain c ks where t: "t = Chan c ks" by (cases t)
  have "passed_on st p (f d) = passed_on st p d" using Nil by (auto simp: passed_on_def)
  with Nil t show ?case by (simp add: kid_name_def kid_running_def)
next
  case (Cons n q)
  obtain c ks where t: "t = Chan c ks" by (cases t)
  obtain k where k: "k \<in> set ks" "kid_name k = n" "find_node q k = Some d"
    and only: "\<And>k'. k' \<in> set ks \<Longrightarrow> kid_name k' = n \<Longrightarrow> k' = k"
    using find_kid [of st p c ks n q d] Cons.prems t by blast
  let ?g = "along f (drop_job j) q"
  let ?h = "\<lambda>k'. if ch_name (ct_node k') = n then ?g k' else k'"
  have IH: "tree_ok st (p @ [n]) (?g k) \<and> kid_name (?g k) = n \<and> kid_running (?g k) = kid_running k - {j}"
    using Cons.IH [of "p @ [n]" k] Cons.prems k t by (auto simp: list_all_iff)
  have kids: "kid_name (?h k') = kid_name k' \<and> tree_ok st (p @ [kid_name k']) (?h k')
      \<and> kid_running (?h k') = kid_running k' - {j}" if "k' \<in> set ks" for k'
  proof (cases "kid_name k' = n")
    case True
    with only [OF that] k IH show ?thesis by (simp add: kid_name_def)
  next
    case False
    then have "j \<notin> kid_running k'"
      using other_kid [of st p c ks j n q k'] Cons.prems(1,2) that t running_job by blast
    with False that Cons.prems(1) t show ?thesis by (auto simp: kid_name_def list_all_iff)
  qed
  have c: "node_ok st p c" using Cons.prems(1) t by simp
  have "passed_on st p (drop_job j c) = (\<Union>k\<in>set ks. kid_running k) - {j}"
    using Cons.prems(1) t drop_job_ok [OF c, of j] by (auto simp: passed_on_def)
  also have "\<dots> = (\<Union>k\<in>set ks. kid_running (?h k))" using kids by blast
  finally have "tree_ok st p (Chan (drop_job j c) (map ?h ks))"
    using tree_ok_kids [of st p c ks "drop_job j c" ?h] Cons.prems(1) t drop_job_ok [OF c, of j] kids by blast
  with t drop_job_ok [OF c, of j] show ?case by (simp add: kid_name_def kid_running_def)
qed

text \<open>After the removal the job is nowhere; the other operations leave it at most once more.\<close>

lemma along_jobs:
  assumes "tree_ok st p t" and "cj_channel (st j) = p @ q" and "find_node q t = Some d"
    and "held (f d) \<union> ch_failed (f d) \<subseteq> X \<union> ((held d \<union> ch_failed d) - {j})"
  shows "tree_jobs (along f (drop_job j) q t) \<subseteq> X \<union> (tree_jobs t - {j})"
  using assms
proof (induction q arbitrary: p t)
  case Nil
  obtain c ks where t: "t = Chan c ks" by (cases t)
  have "j \<notin> tree_jobs k" if "k \<in> set ks" for k
    using own_not_in_kids [of st p c ks j k] Nil t that by simp
  with Nil t show ?case by auto
next
  case (Cons n q)
  obtain c ks where t: "t = Chan c ks" by (cases t)
  have c: "node_ok st p c" using Cons.prems(1) t by simp
  obtain k where k: "k \<in> set ks" "kid_name k = n" "find_node q k = Some d"
    and only: "\<And>k'. k' \<in> set ks \<Longrightarrow> kid_name k' = n \<Longrightarrow> k' = k"
    using find_kid [of st p c ks n q d] Cons.prems t by blast
  have IH: "tree_jobs (along f (drop_job j) q k) \<subseteq> X \<union> (tree_jobs k - {j})"
    using Cons.IH [of "p @ [n]" k] Cons.prems k t by (auto simp: list_all_iff)
  have kids: "tree_jobs (if ch_name (ct_node k') = n then along f (drop_job j) q k' else k') \<subseteq> X \<union> (tree_jobs k' - {j})"
    if "k' \<in> set ks" for k'
  proof (cases "kid_name k' = n")
    case True
    with only [OF that] IH show ?thesis by (simp add: kid_name_def)
  next
    case False
    then show ?thesis
      using other_kid [of st p c ks j n q k'] Cons.prems(1,2) that t by (simp add: kid_name_def)
  qed
  then show ?case using t drop_job_ok [OF c, of j] by fastforce
qed

lemma along_known:
  assumes "tree_ok st p t" and "find_node q t = Some d" and "known_in (f d) \<subseteq> insert j (known_in d)"
  shows "tree_known (along f (drop_job j) q t) \<subseteq> insert j (tree_known t)"
  using assms
proof (induction q arbitrary: p t)
  case Nil
  then show ?case by (cases t) auto
next
  case (Cons n q)
  obtain c ks where t: "t = Chan c ks" by (cases t)
  have c: "node_ok st p c" using Cons.prems(1) t by simp
  obtain k where k: "k \<in> set ks" "kid_name k = n" "find_node q k = Some d"
    and only: "\<And>k'. k' \<in> set ks \<Longrightarrow> kid_name k' = n \<Longrightarrow> k' = k"
    using find_kid [of st p c ks n q d] Cons.prems t by blast
  have IH: "tree_known (along f (drop_job j) q k) \<subseteq> insert j (tree_known k)"
    using Cons.IH [of "p @ [n]" k] Cons.prems k t by (auto simp: list_all_iff)
  have kids: "tree_known (if ch_name (ct_node k') = n then along f (drop_job j) q k' else k') \<subseteq> insert j (tree_known k')"
    if "k' \<in> set ks" for k'
    using only [OF that] IH by (auto simp: kid_name_def)
  then show ?case using t drop_job_ok [OF c, of j] by fastforce
qed

lemma jobs_kids:
  assumes "\<And>k. k \<in> set ks \<Longrightarrow> tree_jobs (h k) \<subseteq> insert j (tree_jobs k)"
    and "held c' \<union> ch_failed c' \<subseteq> insert j (held c \<union> ch_failed c)"
  shows "tree_jobs (Chan c' (map h ks)) \<subseteq> insert j (tree_jobs (Chan c ks))"
proof -
  have "(\<Union>k\<in>set ks. tree_jobs (h k)) \<subseteq> insert j (\<Union>k\<in>set ks. tree_jobs k)" using assms(1) by blast
  with assms(2) show ?thesis by auto
qed

lemma known_kids:
  assumes "\<And>k. k \<in> set ks \<Longrightarrow> tree_known (h k) \<subseteq> insert j (tree_known k)"
    and "known_in c' \<subseteq> insert j (known_in c)"
  shows "tree_known (Chan c' (map h ks)) \<subseteq> insert j (tree_known (Chan c ks))"
proof -
  have "(\<Union>k\<in>set ks. tree_known (h k)) \<subseteq> insert j (\<Union>k\<in>set ks. tree_known k)" using assms(1) by blast
  with assms(2) show ?thesis by auto
qed

lemma climbs_not_running: "climbs j q t \<Longrightarrow> j \<notin> kid_running t"
  by (cases q) (auto simp: kid_running_def)

lemma held_from_kid:
  assumes "tree_ok st p (Chan c ks)" and "cj_channel (st j) = p @ n # q" and "j \<in> held c"
  shows "\<exists>k\<in>set ks. kid_name k = n \<and> j \<in> kid_running k"
proof -
  have "j \<in> passed_on st p c" using assms(2,3) by (simp add: passed_on_def)
  moreover have "passed_on st p c = (\<Union>k\<in>set ks. kid_running k)" using assms(1) by simp
  ultimately obtain k where k: "k \<in> set ks" "j \<in> kid_running k" by blast
  then have "kid_name k = n" using other_kid [OF assms(1,2) k(1)] running_job by blast
  with k show ?thesis by blast
qed

lemma set_running_ok:
  assumes "tree_ok st p t" and "cj_channel (st j) = p @ q" and "find_node q t = Some d"
  shows "tree_ok st p (channel_set_running j q t) \<and> kid_name (channel_set_running j q t) = kid_name t
    \<and> (if climbs j q t then kid_running (channel_set_running j q t) = insert j (kid_running t)
       else channel_set_running j q t = t)
    \<and> tree_jobs (channel_set_running j q t) \<subseteq> insert j (tree_jobs t)
    \<and> tree_known (channel_set_running j q t) \<subseteq> insert j (tree_known t)"
  using assms
proof (induction q arbitrary: p t)
  case Nil
  obtain c ks where t: "t = Chan c ks" by (cases t)
  note r = run_job_ok [of st p c j]
  have "passed_on st p (run_job_in j c) = passed_on st p c" if "node_ok st p c"
    using Nil r that by (auto simp: passed_on_def)
  with Nil t r show ?case by (auto simp: kid_name_def kid_running_def)
next
  case (Cons n q)
  obtain c ks where t: "t = Chan c ks" by (cases t)
  have ok: "tree_ok st p (Chan c ks)" and c: "node_ok st p c" using Cons.prems(1) t by simp_all
  obtain k where k: "k \<in> set ks" "kid_name k = n" "find_node q k = Some d"
      "get_subchannel_by_name (Chan c ks) n = Some k"
    and only: "\<And>k'. k' \<in> set ks \<Longrightarrow> kid_name k' = n \<Longrightarrow> k' = k"
    using find_kid [of st p c ks n q d] Cons.prems t by blast
  let ?g = "channel_set_running j q"
  let ?h = "\<lambda>k'. if ch_name (ct_node k') = n then ?g k' else k'"
  have IH: "tree_ok st (p @ [n]) (?g k) \<and> kid_name (?g k) = n
      \<and> (if climbs j q k then kid_running (?g k) = insert j (kid_running k) else ?g k = k)
      \<and> tree_jobs (?g k) \<subseteq> insert j (tree_jobs k) \<and> tree_known (?g k) \<subseteq> insert j (tree_known k)"
    using Cons.IH [of "p @ [n]" k] Cons.prems k t by (auto simp: list_all_iff)
  have h: "?h k' = (if k' = k then ?g k else k')" if "k' \<in> set ks" for k'
  proof (cases "k' = k")
    case True
    then show ?thesis using k(2) by (simp add: kid_name_def)
  next
    case False
    then have "kid_name k' \<noteq> n" using only [OF that] by blast
    with False show ?thesis by (simp add: kid_name_def)
  qed
  show ?case
  proof (cases "climbs j q k")
    case False
    then have "?h k' = k'" if "k' \<in> set ks" for k' using h [OF that] IH by simp
    then have same: "map ?h ks = ks" by (rule map_idI)
    have no: "\<not> climbs j (n # q) (Chan c ks)" using False k by simp
    have "channel_set_running j (n # q) t = t" unfolding t channel_set_running.simps same using no by (simp only: if_False)
    then show ?thesis using Cons.prems(1) no t by (simp only: if_False simp_thms subset_insertI)
  next
    case True
    have nh: "j \<notin> held c"
      using held_from_kid [OF ok Cons.prems(2)] climbs_not_running [OF True] only by blast
    have climb: "climbs j (n # q) (Chan c ks)" using nh True k by (simp add: held_def)
    have nf: "j \<notin> ch_failed c" using c Cons.prems(2) by (auto simp: node_ok_def)
    note r = run_job_ok [OF c disjI2 [OF nf]]
    have kids: "kid_name (?h k') = kid_name k' \<and> tree_ok st (p @ [kid_name k']) (?h k')" if "k' \<in> set ks" for k'
      using h [OF that] IH k ok that by (auto simp: list_all_iff)
    have runs: "kid_running (?h k') = kid_running k' \<union> (if k' = k then {j} else {})" if "k' \<in> set ks" for k'
      using h [OF that] IH True by auto
    have "passed_on st p (run_job_in j c) = insert j (passed_on st p c)"
      using r nf Cons.prems(2) by (auto simp: passed_on_def)
    also have "\<dots> = insert j (\<Union>k\<in>set ks. kid_running k)" using ok by simp
    also have "\<dots> = (\<Union>k\<in>set ks. kid_running (?h k))" using runs k(1) by (auto simp: split: if_splits)
    finally have "tree_ok st p (Chan (run_job_in j c) (map ?h ks))"
      using tree_ok_kids [OF ok, of "run_job_in j c" ?h] r nf kids by blast
    moreover have "tree_jobs (Chan (run_job_in j c) (map ?h ks)) \<subseteq> insert j (tree_jobs (Chan c ks))"
    proof (rule jobs_kids)
      show "tree_jobs (?h k') \<subseteq> insert j (tree_jobs k')" if "k' \<in> set ks" for k'
        using h [OF that] IH by (simp add: subset_insertI)
    qed (use r in auto)
    moreover have "tree_known (Chan (run_job_in j c) (map ?h ks)) \<subseteq> insert j (tree_known (Chan c ks))"
    proof (rule known_kids)
      show "tree_known (?h k') \<subseteq> insert j (tree_known k')" if "k' \<in> set ks" for k'
        using h [OF that] IH by (simp add: subset_insertI)
    qed (use r in auto)
    moreover have "channel_set_running j (n # q) t = Chan (run_job_in j c) (map ?h ks)"
      unfolding t channel_set_running.simps using climb by (simp only: if_True)
    moreover have "climbs j (n # q) t" using climb t by simp
    ultimately show ?thesis using t r nf
      by (simp only: kid_name_def kid_running_def ctree.sel if_True)
  qed
qed

section \<open>A round keeps the invariant\<close>

lemma pop_loop_known_sub: "pop_loop h k r = (v, q) \<Longrightarrow> pq_known q \<subseteq> k"
  by (induction h k r rule: pop_loop.induct) (auto split: if_splits)

lemma pq_pop_known_sub: "pq_pop q = (v, q') \<Longrightarrow> pq_known q' \<subseteq> pq_known q"
  unfolding pq_pop_def by (rule pop_loop_known_sub)

lemma cq_pop_known:
  assumes "cq_invar st q" and pop: "cq_pop now st q = (r, st', q')"
  shows "cq_known q' \<subseteq> cq_known q"
proof -
  obtain s p where m: "move_due now st q = (s, p)" by fastforce
  obtain v e where v: "pq_peek (cq_eta p) = (v, e)" by fastforce
  obtain u h where u: "pq_peek (cq_queue p) = (u, h)" by fastforce
  obtain a b where a: "pq_pop (cq_queue p) = (a, b)" by fastforce
  obtain c d where c: "pq_pop h = (c, d)" by fastforce
  have "cq_known p \<subseteq> cq_known q" using move_due_spec [OF m assms(1)] by blast
  moreover have "cq_known q' \<subseteq> cq_known p"
    using pop m v u a c pq_peek_known [OF v] pq_peek_known [OF u] pq_pop_known_sub [OF a] pq_pop_known_sub [OF c]
    by (auto simp: cq_pop_def cq_known_def split: if_splits option.splits)
  ultimately show ?thesis by blast
qed

text \<open>One pop in a channel.\<close>

lemma pop_node_ok:
  assumes ok: "node_ok st p c" and pop: "cq_pop now st (ch_queue c) = (r, st', q')"
  defines "D \<equiv> due_jobs now st (ch_queue c)"
  shows "st' = clear_etas D st \<and> (\<forall>j\<in>D. has_eta st j \<and> cj_channel (st j) = p) \<and> cq_known q' \<subseteq> cq_known (ch_queue c)
    \<and> cq_invar st' q'
    \<and> (case r of
         None \<Rightarrow> cq_members q' = cq_members (ch_queue c)
       | Some j \<Rightarrow> j \<in> cq_members (ch_queue c) \<and> j \<notin> ch_running c \<and> \<not> has_eta st' j
           \<and> cq_members q' = cq_members (ch_queue c) - {j})"
proof -
  have inv: "cq_invar st (ch_queue c)" using ok by (simp add: node_ok_def)
  have best: "cq_invar st' q' \<and> st' = clear_etas D st \<and> pop_outcome now st (ch_queue c) r q'"
    using cq_pop_best [OF inv, of now, unfolded pop prod.case] unfolding D_def by blast
  have D: "D \<subseteq> pq_known (cq_eta (ch_queue c))" by (auto simp: D_def due_jobs_def pq_members_def)
  then have own: "\<forall>j\<in>D. has_eta st j \<and> cj_channel (st j) = p"
    using ok by (auto simp: node_ok_def cq_invar_def cq_known_def)
  have "\<forall>j\<in>ready_jobs now st (ch_queue c). \<not> has_eta (clear_etas D st) j \<and> j \<in> cq_members (ch_queue c)"
    using inv by (auto simp: ready_jobs_def cq_members_def due_jobs_def D_def cq_invar_def pq_members_def)
  then show ?thesis
    using best own cq_pop_known [OF inv pop] ok by (cases r) (auto simp: pop_outcome_def node_ok_def)
qed

definition cleared_own :: "job_store \<Rightarrow> string list \<Rightarrow> job_store \<Rightarrow> bool" where
  "cleared_own st p st' \<longleftrightarrow>
     (\<exists>D. st' = clear_etas D st \<and> (\<forall>j\<in>D. has_eta st j \<and> (\<exists>q. cj_channel (st j) = p @ q)))"

lemma cleared_refl: "cleared_own st p st"
  unfolding cleared_own_def by (rule exI [of _ "{}"]) simp

lemma cleared_trans: "cleared_own st p st1 \<Longrightarrow> cleared_own st1 p st2 \<Longrightarrow> cleared_own st p st2"
  unfolding cleared_own_def by (elim exE conjE, rule_tac x = "Da \<union> D" in exI) auto

lemma cleared_deeper: "cleared_own st (p @ q) st' \<Longrightarrow> cleared_own st p st'"
  unfolding cleared_own_def by fastforce

lemma cleared_channel: "cleared_own st p st' \<Longrightarrow> cj_channel (st' j) = cj_channel (st j)"
  by (auto simp: cleared_own_def)

definition cleared_at :: "job_store \<Rightarrow> string list \<Rightarrow> job_store \<Rightarrow> bool" where
  "cleared_at st p st' \<longleftrightarrow> (\<exists>D. st' = clear_etas D st \<and> (\<forall>j\<in>D. has_eta st j \<and> cj_channel (st j) = p))"

lemma cleared_at_refl: "cleared_at st p st"
  unfolding cleared_at_def by (rule exI [of _ "{}"]) simp

lemma cleared_at_trans: "cleared_at st p st1 \<Longrightarrow> cleared_at st1 p st2 \<Longrightarrow> cleared_at st p st2"
  unfolding cleared_at_def by (elim exE conjE, rule_tac x = "Da \<union> D" in exI) auto

lemma cleared_at_own: "cleared_at st p st' \<Longrightarrow> cleared_own st p st'"
  unfolding cleared_at_def cleared_own_def by (metis append_Nil2)

lemma node_after_pop:
  assumes ok: "node_ok st p c" and pop: "cq_pop now st (ch_queue c) = (r, st', q')"
    and R: "R = (case r of None \<Rightarrow> ch_running c | Some j \<Rightarrow> insert j (ch_running c))"
  shows "node_ok st' p (c\<lparr>ch_queue := q', ch_running := R, ch_pause := x\<rparr>)
    \<and> held (c\<lparr>ch_queue := q', ch_running := R, ch_pause := x\<rparr>) = held c
    \<and> known_in (c\<lparr>ch_queue := q', ch_running := R, ch_pause := x\<rparr>) \<subseteq> known_in c
    \<and> cleared_at st p st'"
proof -
  note q = pop_node_ok [OF ok pop]
  have ch: "cj_channel (st' j) = cj_channel (st j)" for j using q by simp
  have he: "has_eta st' j \<longrightarrow> has_eta st j" for j using q by simp
  have cl: "cleared_at st p st'" unfolding cleared_at_def
    using q by (intro exI [of _ "due_jobs now st (ch_queue c)"]) simp
  show ?thesis
  proof (cases r)
    case None
    with q ok ch he R cl show ?thesis by (auto simp: node_ok_def held_def known_in_def)
  next
    case (Some j)
    have "j \<in> cq_known (ch_queue c)" using q Some cq_members_known by (simp add: subset_iff)
    with Some q ok ch he R cl show ?thesis by (auto simp: node_ok_def held_def known_in_def)
  qed
qed

lemma yield_ok:
  "yield_jobs now st c = (js, st', c') \<Longrightarrow> node_ok st p c \<Longrightarrow>
   node_ok st' p c' \<and> held c' = held c \<and> known_in c' \<subseteq> known_in c \<and> cleared_at st p st'
   \<and> set js \<inter> ch_running c = {} \<and> distinct js \<and> set js \<subseteq> held c \<and> (\<forall>j\<in>set js. \<not> has_eta st' j)"
proof (induction rule: yield_jobs_induct)
  case (full st c) then show ?case by (simp add: cleared_at_refl)
next
  case (idle st c q' st')
  have "c\<lparr>ch_queue := q'\<rparr> = c\<lparr>ch_queue := q', ch_running := ch_running c, ch_pause := ch_pause c\<rparr>" by simp
  with node_after_pop [OF idle(3,2), of "ch_running c" "ch_pause c"] show ?case by simp
next
  case (single st c j q' st')
  with node_after_pop [OF single(4,2), of "insert j (ch_running c)" "now + ch_throttle c"]
    pop_node_ok [OF single(4,2)]
  show ?case by (auto simp: held_def)
next
  case (more st c j q' st1 js st' c')
  let ?c = "c\<lparr>ch_queue := q', ch_running := insert j (ch_running c)\<rparr>"
  have "?c = c\<lparr>ch_queue := q', ch_running := insert j (ch_running c), ch_pause := ch_pause c\<rparr>" by simp
  with node_after_pop [OF more(5,2), of "insert j (ch_running c)" "ch_pause c"]
  have n: "node_ok st1 p ?c" "held ?c = held c" "known_in ?c \<subseteq> known_in c" "cleared_at st p st1" by simp_all
  note q = pop_node_ok [OF more(5,2)]
  note IH = more(4) [OF n(1)]
  have "\<not> has_eta st' j" using q IH by (auto simp: cleared_at_def)
  with n q IH cleared_at_trans [OF n(4)] show ?case by (auto simp: held_def)
qed

definition queue_ok :: "job_store \<Rightarrow> string list \<Rightarrow> cqueue \<Rightarrow> bool" where
  "queue_ok st p q \<longleftrightarrow> cq_invar st q \<and> (\<forall>j\<in>cq_known q. has_eta st j \<longrightarrow> cj_channel (st j) = p)"

lemma enqueue_ok:
  "cq_invar st q \<Longrightarrow> cq_invar st (foldl (\<lambda>q j. cq_add st j q) q js)
   \<and> cq_members (foldl (\<lambda>q j. cq_add st j q) q js) = cq_members q \<union> set js
   \<and> cq_known (foldl (\<lambda>q j. cq_add st j q) q js) = cq_known q \<union> set js"
proof (induction js arbitrary: q)
  case (Cons j js)
  from Cons.IH [OF conjunct1 [OF cq_add_ok [OF Cons.prems, of j]]] cq_add_ok [OF Cons.prems, of j]
  show ?case by auto
qed simp

definition cleared_below :: "job_store \<Rightarrow> string list \<Rightarrow> string set \<Rightarrow> job_store \<Rightarrow> bool" where
  "cleared_below st p N st' \<longleftrightarrow>
     (\<exists>D. st' = clear_etas D st \<and> (\<forall>j\<in>D. has_eta st j \<and> (\<exists>n\<in>N. \<exists>q. cj_channel (st j) = p @ n # q)))"

lemma cleared_below_refl: "cleared_below st p N st"
  unfolding cleared_below_def by (rule exI [of _ "{}"]) simp

lemma cleared_below_trans:
  "cleared_below st p M st1 \<Longrightarrow> cleared_below st1 p N st2 \<Longrightarrow> cleared_below st p (M \<union> N) st2"
  unfolding cleared_below_def by (elim exE conjE, rule_tac x = "Da \<union> D" in exI) auto

lemma cleared_own_below: "cleared_own st (p @ [n]) st' \<Longrightarrow> cleared_below st p {n} st'"
  by (auto simp: cleared_own_def cleared_below_def)

lemma cleared_below_own: "cleared_below st p N st' \<Longrightarrow> cleared_own st p st'"
  unfolding cleared_below_def cleared_own_def by blast

lemma queue_ok_cleared:
  assumes "queue_ok st p q" and "cleared_below st p N st'"
  shows "queue_ok st' p q"
proof -
  obtain D where D: "st' = clear_etas D st" "\<And>j. j \<in> D \<Longrightarrow> has_eta st j \<and> cj_channel (st j) \<noteq> p"
    using assms(2) by (auto simp: cleared_below_def)
  have "D \<inter> cq_known q = {}" using assms(1) D(2) unfolding queue_ok_def by blast
  then have "cq_invar st' q"
    using assms(1) D(1) by (auto simp: queue_ok_def cq_invar_def cq_known_def intro!: pq_invar_clear)
  with assms(1) D show ?thesis by (auto simp: queue_ok_def)
qed

lemma tree_ok_cleared_below:
  assumes "tree_ok st (p @ [n]) k" and "cleared_below st p N st'" and "n \<notin> N"
  shows "tree_ok st' (p @ [n]) k"
proof -
  obtain D where "st' = clear_etas D st"
    "\<And>j. j \<in> D \<Longrightarrow> has_eta st j \<and> (\<nexists>q. cj_channel (st j) = (p @ [n]) @ q)"
    using assms(2,3) by (fastforce simp: cleared_below_def)
  with tree_ok_clear [OF assms(1)] show ?thesis by blast
qed

definition kids_ok :: "job_store \<Rightarrow> string list \<Rightarrow> ctree list \<Rightarrow> bool" where
  "kids_ok st p ks \<longleftrightarrow> distinct (map kid_name ks) \<and> list_all (\<lambda>k. tree_ok st (p @ [kid_name k]) k) ks"

text \<open>What a round does to a channel and to the children of one.\<close>

definition round_ok :: "job_store \<Rightarrow> string list \<Rightarrow> ctree \<Rightarrow> nat list \<Rightarrow> job_store \<Rightarrow> ctree \<Rightarrow> bool" where
  "round_ok st p t js st' t' \<longleftrightarrow> tree_ok st' p t' \<and> kid_name t' = kid_name t
     \<and> kid_running t' = kid_running t \<union> set js \<and> set js \<inter> kid_running t = {} \<and> distinct js
     \<and> set js \<subseteq> tree_jobs t \<and> (\<forall>j\<in>set js. \<not> has_eta st' j) \<and> cleared_own st p st'
     \<and> tree_jobs t' = tree_jobs t \<and> tree_known t' \<subseteq> tree_known t"

definition kids_round :: "job_store \<Rightarrow> string list \<Rightarrow> channel \<Rightarrow> ctree list \<Rightarrow> job_store \<Rightarrow> channel \<Rightarrow> ctree list
    \<Rightarrow> nat set \<Rightarrow> bool" where
  "kids_round st p c ks st' c' ks' J \<longleftrightarrow> kids_ok st' p ks' \<and> queue_ok st' p (ch_queue c')
     \<and> cq_members (ch_queue c') = cq_members (ch_queue c) \<union> J \<and> cq_known (ch_queue c') = cq_known (ch_queue c) \<union> J
     \<and> map kid_name ks' = map kid_name ks
     \<and> (\<Union>k\<in>set ks'. kid_running k) = (\<Union>k\<in>set ks. kid_running k) \<union> J \<and> J \<inter> (\<Union>k\<in>set ks. kid_running k) = {}
     \<and> J \<subseteq> (\<Union>k\<in>set ks. tree_jobs k) \<and> (\<forall>j\<in>J. \<not> has_eta st' j) \<and> cleared_below st p (kid_name ` set ks) st'
     \<and> (\<Union>k\<in>set ks'. tree_jobs k) = (\<Union>k\<in>set ks. tree_jobs k)
     \<and> (\<Union>k\<in>set ks'. tree_known k) \<subseteq> (\<Union>k\<in>set ks. tree_known k)"

lemma cleared_no_eta: "cleared_below st p N st' \<Longrightarrow> \<not> has_eta st j \<Longrightarrow> \<not> has_eta st' j"
  by (auto simp: cleared_below_def)

lemma kids_disjoint:
  assumes "kids_ok st p (k # ks)" and "j \<in> tree_jobs k" and "k' \<in> set ks"
  shows "j \<notin> tree_jobs k'"
proof
  assume "j \<in> tree_jobs k'"
  then have "kid_name k = kid_name k'"
    using job_below [of st "p @ [kid_name k]" k j] job_below [of st "p @ [kid_name k']" k' j] assms
    by (auto simp: kids_ok_def list_all_iff)
  then show False using assms(1,3) by (auto simp: kids_ok_def)
qed

lemma apart:
  "A \<subseteq> K \<Longrightarrow> A \<inter> R = {} \<Longrightarrow> J \<subseteq> L \<Longrightarrow> J \<inter> S = {} \<Longrightarrow> K \<inter> L = {} \<Longrightarrow> R \<subseteq> K \<Longrightarrow> S \<subseteq> L \<Longrightarrow>
   (A \<union> J) \<inter> (R \<union> S) = {}"
  by blast

lemma kids_round_cons:
  assumes ok: "kids_ok st p (k # ks)" and q: "queue_ok st p (ch_queue c)"
    and r: "round_ok st (p @ [kid_name k]) k js st1 k1"
    and rest: "kids_ok st1 p ks \<Longrightarrow> queue_ok st1 p (ch_queue (enqueue_all st1 js c)) \<Longrightarrow>
      kids_round st1 p (enqueue_all st1 js c) ks st2 c2 ks2 J"
  shows "kids_round st p c (k # ks) st2 c2 (k1 # ks2) (set js \<union> J)"
proof -
  have new: "kid_name k \<notin> kid_name ` set ks" using ok by (auto simp: kids_ok_def)
  have c1: "cleared_below st p {kid_name k} st1" using r cleared_own_below by (auto simp: round_ok_def)
  have ks1: "kids_ok st1 p ks"
    using ok tree_ok_cleared_below [OF _ c1] new by (auto simp: kids_ok_def list_all_iff image_iff)
  have qc: "queue_ok st1 p (ch_queue c)" by (rule queue_ok_cleared [OF q c1])
  note en = enqueue_ok [of st1 "ch_queue c" js]
  have qe: "queue_ok st1 p (ch_queue (enqueue_all st1 js c))"
    using qc en r by (auto simp: queue_ok_def enqueue_all_def round_ok_def)
  note R = rest [OF ks1 qe, unfolded kids_round_def]
  have k1: "tree_ok st2 (p @ [kid_name k1]) k1"
    using tree_ok_cleared_below [of st1 p "kid_name k" k1] R new r by (auto simp: round_ok_def)
  have kr: "kid_running k \<subseteq> tree_jobs k" "kid_running k' \<subseteq> tree_jobs k'" for k' by (rule running_job)+
  have dis: "tree_jobs k \<inter> (\<Union>k\<in>set ks. tree_jobs k) = {}" using kids_disjoint [OF ok] by blast
  have kr_ks: "(\<Union>k\<in>set ks. kid_running k) \<subseteq> (\<Union>k\<in>set ks. tree_jobs k)" using running_job by blast
  have "kids_ok st2 p (k1 # ks2)"
    using R k1 r new by (auto simp: kids_ok_def round_ok_def image_iff dest: arg_cong [of "map kid_name ks2" _ set])
  moreover have "cq_members (ch_queue c2) = cq_members (ch_queue c) \<union> (set js \<union> J)"
      "cq_known (ch_queue c2) = cq_known (ch_queue c) \<union> (set js \<union> J)"
    using R en qc by (auto simp: enqueue_all_def queue_ok_def)
  moreover have "(set js \<union> J) \<inter> (\<Union>k\<in>set (k # ks). kid_running k) = {}"
  proof -
    have "set js \<subseteq> tree_jobs k" "set js \<inter> kid_running k = {}" using r by (simp_all add: round_ok_def)
    moreover have "J \<subseteq> (\<Union>k\<in>set ks. tree_jobs k)" "J \<inter> (\<Union>k\<in>set ks. kid_running k) = {}" using R by simp_all
    ultimately show ?thesis unfolding list.set UN_insert using dis kr(1) kr_ks by (rule apart)
  qed
  moreover have "cleared_below st p (kid_name ` set (k # ks)) st2"
    using cleared_below_trans [OF c1, of "kid_name ` set ks" st2] R by simp
  moreover have "\<forall>j\<in>set js \<union> J. \<not> has_eta st2 j"
    using R r cleared_no_eta [of st1 p _ st2] by (auto simp: round_ok_def)
  moreover have "(\<Union>k\<in>set (k1 # ks2). kid_running k) = (\<Union>k\<in>set (k # ks). kid_running k) \<union> (set js \<union> J)"
      "(\<Union>k\<in>set (k1 # ks2). tree_jobs k) = (\<Union>k\<in>set (k # ks). tree_jobs k)"
      "map kid_name (k1 # ks2) = map kid_name (k # ks)" "queue_ok st2 p (ch_queue c2)"
    using R r by (auto simp: round_ok_def)
  moreover have "(\<Union>k\<in>set (k1 # ks2). tree_known k) \<subseteq> (\<Union>k\<in>set (k # ks). tree_known k)"
      "set js \<union> J \<subseteq> (\<Union>k\<in>set (k # ks). tree_jobs k)"
    using R r by (auto simp: round_ok_def)
  ultimately show ?thesis unfolding kids_round_def by (intro conjI)
qed

lemma cleared_at_kids:
  assumes "cleared_at st p st'" and "kids_ok st p ks"
  shows "kids_ok st' p ks"
proof -
  obtain D where D: "st' = clear_etas D st" "\<And>j. j \<in> D \<Longrightarrow> has_eta st j \<and> cj_channel (st j) = p"
    using assms(1) by (auto simp: cleared_at_def)
  then have "tree_ok st' (p @ [n]) k" if "tree_ok st (p @ [n]) k" for n k
    using tree_ok_clear [OF that, of D] by simp
  with assms(2) show ?thesis by (auto simp: kids_ok_def list_all_iff)
qed

lemma tree_ok_parts:
  "tree_ok st p (Chan c ks) \<longleftrightarrow> node_ok st p c \<and> passed_on st p c = (\<Union>k\<in>set ks. kid_running k) \<and> kids_ok st p ks"
  by (auto simp: kids_ok_def)

declare tree_ok.simps [simp del]

text \<open>The node once its children have been asked: the jobs they hand down wait in its queue.\<close>

lemma node_after_kids:
  assumes ok: "tree_ok st p (Chan c ks)" and ch: "children_jobs now st c ks = (st1, c1, ks1)"
    and r: "kids_round st p c ks st1 c1 ks1 J"
  shows "tree_ok st1 p (Chan c1 ks1) \<and> held c1 = held c \<union> J \<and> known_in c1 = known_in c \<union> J \<and> ch_failed c1 = ch_failed c
    \<and> ch_running c1 = ch_running c \<and> ch_name c1 = ch_name c \<and> cleared_own st p st1"
proof -
  note keep = children_keep [OF ch] and R = r [unfolded kids_round_def]
  have node: "node_ok st p c" and pass: "passed_on st p c = (\<Union>k\<in>set ks. kid_running k)"
    using ok by (simp_all add: tree_ok_parts)
  have "cleared_below st p (kid_name ` set ks) st1" using R by simp
  then have cl: "cleared_own st p st1" by (rule cleared_below_own)
  have far: "cj_channel (st j) \<noteq> p" if "j \<in> J" for j
    using own_not_in_kids [OF ok] R that by (auto simp: subset_iff)
  have fresh: "j \<notin> ch_running c" if "j \<in> J" for j
  proof
    assume "j \<in> ch_running c"
    then have "j \<in> passed_on st p c" using far [OF that] by (simp add: passed_on_def held_def)
    moreover have "J \<inter> (\<Union>k\<in>set ks. kid_running k) = {}" using R by simp
    ultimately show False using pass that by blast
  qed
  have ch1: "cj_channel (st1 j) = cj_channel (st j)" for j using cleared_channel [OF cl] .
  have held: "held c1 = held c \<union> J" using R keep by (auto simp: held_def)
  have "node_ok st1 p c1"
  proof -
    have q: "queue_ok st1 p (ch_queue c1)" "cq_members (ch_queue c1) = cq_members (ch_queue c) \<union> J" using R by simp_all
    have "J \<inter> ch_running c = {}" using fresh by blast
    moreover have "J \<inter> ch_failed c = {}" using far node unfolding node_ok_def by blast
    ultimately show ?thesis using node q keep ch1 held by (auto simp: node_ok_def queue_ok_def)
  qed
  moreover have "passed_on st1 p c1 = passed_on st p c \<union> J" using held far ch1 by (auto simp: passed_on_def)
  ultimately show ?thesis using R keep held pass cl by (auto simp: tree_ok_parts known_in_def)
qed

lemma round_tree:
  "channel_jobs_to_run now st t = (js, st', t') \<Longrightarrow> tree_ok st p t \<Longrightarrow> round_ok st p t js st' t'"
  and round_kids: "children_jobs now st c ks = (st2, c2, ks2) \<Longrightarrow> kids_ok st p ks \<Longrightarrow> queue_ok st p (ch_queue c) \<Longrightarrow>
    \<exists>J. kids_round st p c ks st2 c2 ks2 J"
proof (induction now st t and now st c ks arbitrary: p js st' t' and p st2 c2 ks2
    rule: channel_jobs_to_run_children_jobs.induct)
  case (1 now st c ks)
  obtain st1 c1 ks1 where k: "children_jobs now st c ks = (st1, c1, ks1)" by (metis prod_cases3)
  obtain J where J: "kids_round st p c ks st1 c1 ks1 J"
  proof -
    have "kids_ok st p ks" "queue_ok st p (ch_queue c)"
      using "1.prems"(2) by (simp_all add: tree_ok_parts queue_ok_def node_ok_def)
    from "1.IH" [OF k this] that show thesis by blast
  qed
  note n = node_after_kids [OF "1.prems"(2) k J] and R = J [unfolded kids_round_def]
  have jobs: "tree_jobs (Chan c1 ks1) = tree_jobs (Chan c ks)" using n R by auto
  have "(\<Union>k\<in>set ks. tree_jobs k) \<subseteq> (\<Union>k\<in>set ks. tree_known k)" by (rule UN_mono) (simp_all add: jobs_known)
  moreover have "J \<subseteq> (\<Union>k\<in>set ks. tree_jobs k)" using R by simp
  ultimately have kin: "J \<subseteq> (\<Union>k\<in>set ks. tree_known k)" by (rule order_trans [rotated])
  have known: "tree_known (Chan c1 ks1) \<subseteq> tree_known (Chan c ks)" using n R kin by auto
  show ?case
  proof (cases "paused now c1")
    case True
    with "1.prems" k have "js = []" "st' = st1" "t' = Chan c1 ks1" by simp_all
    with n jobs known show ?thesis by (simp add: round_ok_def kid_name_def kid_running_def)
  next
    case False
    obtain l s2 d where y: "yield_jobs now st1 (unpause c1) = (l, s2, d)" by (metis prod_cases3)
    with False "1.prems" k have res: "js = l" "st' = s2" "t' = Chan d ks1" by simp_all
    have same: "node_ok st1 p (unpause c1) = node_ok st1 p c1" by (simp add: node_ok_def held_def)
    have u: "node_ok st1 p (unpause c1)" "held (unpause c1) = held c1" "known_in (unpause c1) = known_in c1"
      using n unfolding tree_ok_parts same by (simp_all add: held_def known_in_def)
    note Y = yield_ok [OF y u(1)]
    have run: "ch_running d = ch_running c \<union> set l" "ch_failed d = ch_failed c" "ch_name d = ch_name c"
      using round_yield [OF y] n by (simp_all add: round_of_def)
    have cl: "cleared_own st p s2" using n Y cleared_at_own cleared_trans by blast
    have pass: "passed_on s2 p d = passed_on st1 p c1"
      using Y u cleared_channel [OF cleared_at_own, of st1 p s2] by (simp add: passed_on_def)
    have "tree_ok s2 p (Chan d ks1)"
      using n Y pass cleared_at_kids [of st1 p s2 ks1] by (simp add: tree_ok_parts)
    moreover have "tree_jobs (Chan d ks1) = tree_jobs (Chan c ks)" unfolding jobs [symmetric] using Y u run n by simp
    moreover have "tree_known (Chan d ks1) \<subseteq> tree_known (Chan c1 ks1)" using Y u by auto
    then have "tree_known (Chan d ks1) \<subseteq> tree_known (Chan c ks)" using known by (rule order_trans)
    moreover have "set l \<subseteq> tree_jobs (Chan c ks)" "set l \<inter> ch_running c = {}"
      "distinct l" "\<forall>j\<in>set l. \<not> has_eta s2 j"
      using Y u n unfolding jobs [symmetric] by auto
    ultimately show ?thesis using run cl n
      unfolding res round_ok_def kid_name_def kid_running_def ctree.sel by (simp del: tree_jobs.simps tree_known.simps)
  qed
next
  case (2 now st c)
  then show ?case by (intro exI [of _ "{}"]) (simp add: kids_round_def cleared_below_refl)
next
  case (3 now st c k ks)
  obtain js st1 k1 where k: "channel_jobs_to_run now st k = (js, st1, k1)" by (metis prod_cases3)
  obtain st3 c3 ks3 where r: "children_jobs now st1 (enqueue_all st1 js c) ks = (st3, c3, ks3)" by (metis prod_cases3)
  have "round_ok st (p @ [kid_name k]) k js st1 k1"
    using "3.IH"(1) [OF k] "3.prems"(2) by (simp add: kids_ok_def)
  note step = kids_round_cons [OF "3.prems"(2,3) this]
  have ks: "kids_ok st1 p ks \<and> queue_ok st1 p (ch_queue (enqueue_all st1 js c)) \<longrightarrow>
      (\<exists>J. kids_round st1 p (enqueue_all st1 js c) ks st3 c3 ks3 J)"
    using "3.IH"(2) [OF k [symmetric] refl r] by blast
  have res: "st2 = st3" "c2 = c3" "ks2 = k1 # ks3" using "3.prems"(1) k r by simp_all
  show ?case
  proof (cases "kids_ok st1 p ks \<and> queue_ok st1 p (ch_queue (enqueue_all st1 js c))")
    case True
    with ks step res show ?thesis by blast
  next
    case False
    then show ?thesis using step res by blast
  qed
qed

section \<open>The channels that exist\<close>

fun tree_paths :: "ctree \<Rightarrow> string list set" where
  "tree_paths (Chan c ks) = insert [] (\<Union>k\<in>set ks. (#) (kid_name k) ` tree_paths k)"

lemma root_path [simp]: "[] \<in> tree_paths t"
  by (cases t) simp

lemma find_node_paths: "tree_ok st p t \<Longrightarrow> q \<in> tree_paths t \<longleftrightarrow> (\<exists>d. find_node q t = Some d)"
proof (induction q arbitrary: p t)
  case (Cons n q)
  obtain c ks where t: "t = Chan c ks" by (cases t)
  have ok: "kids_ok st p ks" using Cons.prems t by (simp add: tree_ok_parts)
  have IH: "q \<in> tree_paths k \<longleftrightarrow> (\<exists>d. find_node q k = Some d)" if "k \<in> set ks" for k
    using Cons.IH [of "p @ [kid_name k]" k] ok that by (auto simp: kids_ok_def list_all_iff)
  show ?case
  proof
    assume "n # q \<in> tree_paths t"
    then obtain k where k: "k \<in> set ks" "kid_name k = n" "q \<in> tree_paths k" using t by auto
    obtain k' where k': "List.find (\<lambda>k. ch_name (ct_node k) = n) ks = Some k'"
      using k by (cases "List.find (\<lambda>k. ch_name (ct_node k) = n) ks") (auto simp: find_None_iff kid_name_def)
    then have "k' \<in> set ks" "kid_name k' = n" by (auto simp: find_Some_iff kid_name_def)
    moreover have "inj_on kid_name (set ks)" using ok by (simp add: kids_ok_def distinct_map)
    ultimately have "k' = k" using k by (simp add: inj_on_def)
    with k k' IH show "\<exists>d. find_node (n # q) t = Some d" using t by (simp add: get_subchannel_by_name_def)
  next
    assume "\<exists>d. find_node (n # q) t = Some d"
    then obtain k where "List.find (\<lambda>k. ch_name (ct_node k) = n) ks = Some k" "\<exists>d. find_node q k = Some d"
      using t by (auto simp: get_subchannel_by_name_def split: option.splits)
    moreover from this(1) have "k \<in> set ks" "kid_name k = n" by (auto simp: find_Some_iff kid_name_def)
    ultimately show "n # q \<in> tree_paths t" using IH t by auto
  qed
qed simp

lemma paths_kids:
  assumes "\<And>k. k \<in> set ks \<Longrightarrow> kid_name (h k) = kid_name k \<and> tree_paths (h k) = tree_paths k"
  shows "tree_paths (Chan c' (map h ks)) = tree_paths (Chan c ks)"
  using assms by simp

lemma along_paths:
  "(\<And>d. ch_name (f d) = ch_name d) \<Longrightarrow> (\<And>d. ch_name (g d) = ch_name d) \<Longrightarrow>
   kid_name (along f g q t) = kid_name t \<and> tree_paths (along f g q t) = tree_paths t"
proof (induction f g q t rule: along.induct)
  case (2 f g n p c ks)
  then have "kid_name (if ch_name (ct_node k) = n then along f g p k else k) = kid_name k
      \<and> tree_paths (if ch_name (ct_node k) = n then along f g p k else k) = tree_paths k" if "k \<in> set ks" for k
    using that by simp
  from paths_kids [OF this] show ?case using 2 by (simp add: kid_name_def del: tree_paths.simps)
qed (auto simp: kid_name_def)

lemma set_running_paths:
  "kid_name (channel_set_running j q t) = kid_name t \<and> tree_paths (channel_set_running j q t) = tree_paths t"
proof (induction j q t rule: channel_set_running.induct)
  case (2 j n p c ks)
  then have "kid_name (if ch_name (ct_node k) = n then channel_set_running j p k else k) = kid_name k
      \<and> tree_paths (if ch_name (ct_node k) = n then channel_set_running j p k else k) = tree_paths k"
    if "k \<in> set ks" for k using that by simp
  from paths_kids [OF this] show ?case by (simp add: kid_name_def run_job_in_def del: tree_paths.simps climbs.simps)
qed (simp add: kid_name_def run_job_in_def)

lemma round_paths: "tree_round t t' \<Longrightarrow> kid_name t' = kid_name t \<and> tree_paths t' = tree_paths t"
proof (induction t arbitrary: t' rule: tree_induct)
  case (Chan c ks)
  obtain c' ks' where t': "t' = Chan c' ks'" by (cases t')
  then have all: "list_all2 tree_round ks ks'" and name: "ch_name c' = ch_name c"
    using Chan.prems by (simp_all add: round_of_def)
  from all have "list_all2 (\<lambda>k k'. kid_name k' = kid_name k \<and> tree_paths k' = tree_paths k) ks ks'"
    using Chan.IH by (auto simp: list_all2_conv_all_nth)
  then have "(\<Union>k\<in>set ks'. (#) (kid_name k) ` tree_paths k) = (\<Union>k\<in>set ks. (#) (kid_name k) ` tree_paths k)"
    by (induction rule: list_all2_induct) auto
  with t' name show ?case by (simp add: kid_name_def)
qed

section \<open>Making channels\<close>

lemma new_channel_ok: "node_ok st p (new_channel n cap) \<and> held (new_channel n cap) = {} \<and> known_in (new_channel n cap) = {}
    \<and> ch_failed (new_channel n cap) = {} \<and> ch_running (new_channel n cap) = {} \<and> ch_name (new_channel n cap) = n"
  using pq_empty_invar [of "sorting_key st"]
  by (auto simp: node_ok_def new_channel_def held_def known_in_def cq_new_def cq_invar_def cq_members_def cq_known_def
      pq_empty_def pq_members_def)

text \<open>What both ways of making channels keep.\<close>

definition extends :: "job_store \<Rightarrow> string list \<Rightarrow> ctree \<Rightarrow> ctree \<Rightarrow> bool" where
  "extends st p t t' \<longleftrightarrow> tree_ok st p t' \<and> kid_name t' = kid_name t \<and> kid_running t' = kid_running t
     \<and> tree_jobs t' = tree_jobs t \<and> tree_known t' = tree_known t \<and> tree_paths t \<subseteq> tree_paths t'"

lemma extends_kids:
  assumes ok: "tree_ok st p (Chan c ks)"
    and h: "\<And>k. k \<in> set ks \<Longrightarrow> extends st (p @ [kid_name k]) k (h k)"
  shows "extends st p (Chan c ks) (Chan c (map h ks))"
proof -
  have n: "kid_name (h k) = kid_name k" "kid_running (h k) = kid_running k" "tree_jobs (h k) = tree_jobs k"
    "tree_known (h k) = tree_known k" "tree_paths k \<subseteq> tree_paths (h k)" if "k \<in> set ks" for k
    using h [OF that] by (simp_all add: extends_def)
  have eq: "map (kid_name \<circ> h) ks = map kid_name ks" using n by simp
  have "distinct (map kid_name (map h ks))" unfolding map_map eq using ok by (simp add: tree_ok_parts kids_ok_def)
  then have "tree_ok st p (Chan c (map h ks))"
    using ok h n by (auto simp: tree_ok_parts kids_ok_def list_all_iff extends_def)
  moreover have "tree_paths (Chan c ks) \<subseteq> tree_paths (Chan c (map h ks))" using n by fastforce
  ultimately show ?thesis using n by (auto simp: extends_def kid_name_def kid_running_def)
qed

lemma extends_refl: "tree_ok st p t \<Longrightarrow> extends st p t t"
  by (simp add: extends_def)

lemma ensure_path_ok:
  "tree_ok st p t \<Longrightarrow> extends st p t (ensure_path q t) \<and> q \<in> tree_paths (ensure_path q t)"
proof (induction q t arbitrary: p rule: ensure_path.induct)
  case (1 t)
  then show ?case by (simp add: extends_refl)
next
  case (2 n q c ks)
  show ?case
  proof (cases "n \<in> kid_name ` set ks")
    case True
    then have eq: "ensure_path (n # q) (Chan c ks) = Chan c (map (\<lambda>k. if kid_name k = n then ensure_path q k else k) ks)"
      by (simp add: kid_name_def)
    have each: "extends st (p @ [kid_name k]) k (ensure_path q k) \<and> q \<in> tree_paths (ensure_path q k)"
      if "k \<in> set ks" "kid_name k = n" for k
      using "2.IH"(1) [of k "p @ [kid_name k]"] "2.prems" that True
      by (auto simp: tree_ok_parts kids_ok_def list_all_iff kid_name_def)
    obtain k where k: "k \<in> set ks" "kid_name k = n" using True by auto
    then have "kid_name (ensure_path q k) = n" using each by (auto simp: extends_def)
    then have "n # q \<in> tree_paths (ensure_path (n # q) (Chan c ks))"
      unfolding eq using each k by (auto intro!: bexI [of _ k])
    moreover have "extends st p (Chan c ks) (ensure_path (n # q) (Chan c ks))" unfolding eq
      by (rule extends_kids [OF "2.prems"]) (use each "2.prems" in \<open>auto simp: tree_ok_parts kids_ok_def list_all_iff extends_refl\<close>)
    ultimately show ?thesis by blast
  next
    case False
    let ?new = "Chan (new_channel n None) []"
    have eq: "ensure_path (n # q) (Chan c ks) = Chan c (ks @ [ensure_path q ?new])"
      using False by (simp add: kid_name_def)
    have "tree_ok st (p @ [n]) ?new" using new_channel_ok [of st "p @ [n]" n None]
      by (simp add: tree_ok_parts kids_ok_def passed_on_def)
    then have e: "extends st (p @ [n]) ?new (ensure_path q ?new)" "q \<in> tree_paths (ensure_path q ?new)"
      using "2.IH"(2) False by (simp_all add: kid_name_def)
    note v = new_channel_ok [of st "p @ [n]" n None]
    have new: "kid_name (ensure_path q ?new) = n" "kid_running (ensure_path q ?new) = {}"
      "tree_jobs (ensure_path q ?new) = {}" "tree_known (ensure_path q ?new) = {}"
      "tree_ok st (p @ [n]) (ensure_path q ?new)"
      using e v by (auto simp: extends_def kid_name_def kid_running_def)
    then have "tree_ok st p (Chan c (ks @ [ensure_path q ?new]))"
      using "2.prems" False by (auto simp: tree_ok_parts kids_ok_def)
    with new e(2) show ?thesis unfolding eq by (auto simp: extends_def kid_name_def kid_running_def)
  qed
qed

lemma ensure_below_ok:
  "tree_ok st p t \<Longrightarrow> r \<in> tree_paths t \<Longrightarrow> extends st p t (ensure_below r q t) \<and> r @ q \<in> tree_paths (ensure_below r q t)"
proof (induction r q t arbitrary: p rule: ensure_below.induct)
  case (1 q t)
  then show ?case using ensure_path_ok [of st p t q] by simp
next
  case (2 n r q c ks)
  have eq: "ensure_below (n # r) q (Chan c ks) = Chan c (map (\<lambda>k. if kid_name k = n then ensure_below r q k else k) ks)"
    by (simp add: kid_name_def)
  obtain k where k: "k \<in> set ks" "kid_name k = n" "r \<in> tree_paths k" using "2.prems"(2) by auto
  have "inj_on kid_name (set ks)" using "2.prems"(1) by (simp add: tree_ok_parts kids_ok_def distinct_map)
  then have only: "k' = k" if "k' \<in> set ks" "kid_name k' = n" for k' using k that by (simp add: inj_on_def)
  have each: "extends st (p @ [kid_name k]) k (ensure_below r q k) \<and> r @ q \<in> tree_paths (ensure_below r q k)"
    using "2.IH" [of k "p @ [kid_name k]"] "2.prems" k by (auto simp: tree_ok_parts kids_ok_def list_all_iff kid_name_def)
  then have "kid_name (ensure_below r q k) = n" using k by (auto simp: extends_def)
  then have "(n # r) @ q \<in> tree_paths (ensure_below (n # r) q (Chan c ks))"
    unfolding eq using each k by (auto intro!: bexI [of _ k])
  moreover have "extends st p (Chan c ks) (ensure_below (n # r) q (Chan c ks))" unfolding eq
  proof (rule extends_kids [OF "2.prems"(1)])
    fix k' assume k': "k' \<in> set ks"
    then show "extends st (p @ [kid_name k']) k' (if kid_name k' = n then ensure_below r q k' else k')"
      using only [OF k'] each "2.prems"(1) by (auto simp: tree_ok_parts kids_ok_def list_all_iff extends_refl)
  qed
  ultimately show ?case by simp
qed

lemma fallback_exists: "tree_ok st p0 t \<Longrightarrow> fallback_parent t q \<in> tree_paths t"
proof (induction t q rule: fallback_parent.induct)
  case (1 t q)
  then show ?case by (subst fallback_parent.simps) (auto simp: Let_def find_node_paths)
qed

lemma get_channel_ok:
  assumes "tree_ok st [] t" and "get_channel_by_name a b name t = Inr (p, t')"
  shows "extends st [] t t' \<and> p \<in> tree_paths t'"
  using assms fallback_exists [OF assms(1)] ensure_below_ok [OF assms(1)] ensure_path_ok [OF assms(1)]
  by (auto simp: get_channel_by_name_def Let_def extends_refl find_node_paths split: if_splits)

end
