(* ===== verification/JobManager.thy ===== *)
theory JobManager
  imports JobHierarchy
begin

text \<open>
  The channel manager of the job runner keeps the invariant of its channels, whatever sequence of
  notifications, removals, rounds and questions for the next wake-up it sees.
\<close>

section \<open>The invariant of the manager\<close>

definition manager_ok :: "manager \<Rightarrow> bool" where
  "manager_ok m \<longleftrightarrow> tree_ok (m_store m) [] (m_root m)
     \<and> (\<forall>j\<in>tree_known (m_root m). j < m_next m)
     \<and> (\<forall>j\<in>tree_jobs (m_root m). map_of (m_jobs m) (cj_uuid (m_store m j)) = Some j)
     \<and> distinct (map fst (m_jobs m))
     \<and> (\<forall>(u, j)\<in>set (m_jobs m). cj_uuid (m_store m j) = u \<and> j < m_next m
          \<and> cj_channel (m_store m j) \<in> tree_paths (m_root m))"

lemma manager_parts:
  assumes "manager_ok m"
  shows "tree_ok (m_store m) [] (m_root m)" "\<And>j. j \<in> tree_known (m_root m) \<Longrightarrow> j < m_next m"
    "\<And>j. j \<in> tree_jobs (m_root m) \<Longrightarrow> map_of (m_jobs m) (cj_uuid (m_store m j)) = Some j"
    "distinct (map fst (m_jobs m))"
    "\<And>u j. (u, j) \<in> set (m_jobs m) \<Longrightarrow> cj_uuid (m_store m j) = u \<and> j < m_next m
          \<and> cj_channel (m_store m j) \<in> tree_paths (m_root m)"
  using assms unfolding manager_ok_def by auto

lemma manager_okI:
  assumes "tree_ok (m_store m) [] (m_root m)" "\<And>j. j \<in> tree_known (m_root m) \<Longrightarrow> j < m_next m"
    "\<And>j. j \<in> tree_jobs (m_root m) \<Longrightarrow> map_of (m_jobs m) (cj_uuid (m_store m j)) = Some j"
    "distinct (map fst (m_jobs m))"
    "\<And>u j. (u, j) \<in> set (m_jobs m) \<Longrightarrow> cj_uuid (m_store m j) = u \<and> j < m_next m
          \<and> cj_channel (m_store m j) \<in> tree_paths (m_root m)"
  shows "manager_ok m"
  using assms unfolding manager_ok_def by auto

text \<open>A change of the tree that adds at most one job, which the manager has on its list.\<close>

lemma manager_tree_ok:
  assumes m: "manager_ok m" and t: "tree_ok (m_store m) [] t" and kn: "tree_known t \<subseteq> insert j (tree_known (m_root m))"
    and jobs: "tree_jobs t \<subseteq> insert j (tree_jobs (m_root m))"
    and entry: "(cj_uuid (m_store m j), j) \<in> set (m_jobs m)" and paths: "tree_paths (m_root m) \<subseteq> tree_paths t"
  shows "manager_ok (m\<lparr>m_root := t\<rparr>)"
proof -
  note M = manager_parts [OF m]
  have "map_of (m_jobs m) (cj_uuid (m_store m j)) = Some j" using M(4) entry by simp
  moreover have "j < m_next m" using M(5) [OF entry] by blast
  ultimately show ?thesis using M t kn jobs paths unfolding manager_ok_def by (auto simp: subset_iff)
qed

lemma along_manager_ok:
  assumes m: "manager_ok m" and entry: "(cj_uuid (m_store m j), j) \<in> set (m_jobs m)"
    and ok: "\<And>p d. node_ok (m_store m) p d \<Longrightarrow> cj_channel (m_store m j) = p \<Longrightarrow>
      node_ok (m_store m) p (f d) \<and> held (f d) - {j} = held d - {j} \<and> ch_running (f d) = ch_running d - {j}
      \<and> ch_failed (f d) - {j} = ch_failed d - {j} \<and> known_in (f d) \<subseteq> insert j (known_in d)"
    and name: "\<And>d. ch_name (f d) = ch_name d"
    and node: "find_node (cj_channel (m_store m j)) (m_root m) = Some d" "node_ok (m_store m) (cj_channel (m_store m j)) d"
  shows "manager_ok (m\<lparr>m_root := along f (drop_job j) (cj_channel (m_store m j)) (m_root m)\<rparr>)"
proof -
  note M = manager_parts [OF m] and F = ok [OF node(2) refl]
  let ?p = "cj_channel (m_store m j)"
  have tr: "tree_ok (m_store m) [] (along f (drop_job j) ?p (m_root m))"
    using along_ok [OF M(1), of j ?p d f] node F name by simp
  have jb: "tree_jobs (along f (drop_job j) ?p (m_root m)) \<subseteq> {j} \<union> (tree_jobs (m_root m) - {j})"
    using along_jobs [OF M(1), of j ?p d f "{j}"] node(1) F by auto
  have kn: "tree_known (along f (drop_job j) ?p (m_root m)) \<subseteq> insert j (tree_known (m_root m))"
    using along_known [OF M(1) node(1), of f j] F by simp
  have "tree_paths (along f (drop_job j) ?p (m_root m)) = tree_paths (m_root m)"
    using along_paths [of f "drop_job j" ?p "m_root m"] name by (simp add: drop_job_def)
  with manager_tree_ok [OF m tr kn _ entry] jb show ?thesis by auto
qed

lemma find_node_ok: "tree_ok st p t \<Longrightarrow> find_node q t = Some d \<Longrightarrow> node_ok st (p @ q) d"
proof (induction q arbitrary: p t)
  case Nil
  then show ?case by (cases t) (simp add: tree_ok_parts)
next
  case (Cons n q)
  obtain c ks where t: "t = Chan c ks" by (cases t)
  obtain k where k: "k \<in> set ks" "kid_name k = n" "find_node q k = Some d"
    using find_kid [of st p c ks n q d] Cons.prems t by blast
  with Cons.IH [of "p @ [n]" k] Cons.prems(1) t show ?case by (auto simp: tree_ok_parts kids_ok_def list_all_iff)
qed

lemma entry_node:
  assumes m: "manager_ok m" and entry: "(cj_uuid (m_store m j), j) \<in> set (m_jobs m)"
  shows "\<exists>d. find_node (cj_channel (m_store m j)) (m_root m) = Some d
    \<and> node_ok (m_store m) (cj_channel (m_store m j)) d"
proof -
  note M = manager_parts [OF m]
  have "cj_channel (m_store m j) \<in> tree_paths (m_root m)" using M(5) [OF entry] by blast
  then obtain d where d: "find_node (cj_channel (m_store m j)) (m_root m) = Some d"
    using find_node_paths [OF M(1)] by blast
  with find_node_ok [OF M(1) d] show ?thesis by simp
qed

section \<open>The operations\<close>

lemma to_state_ok:
  assumes m: "manager_ok m" and entry: "(cj_uuid (m_store m j), j) \<in> set (m_jobs m)"
  shows "manager_ok (to_state js j m)"
proof -
  obtain d where d: "find_node (cj_channel (m_store m j)) (m_root m) = Some d"
      "node_ok (m_store m) (cj_channel (m_store m j)) d"
    using entry_node [OF assms] by blast
  have names: "ch_name (drop_job j c) = ch_name c" "ch_name (queue_job_in st j c) = ch_name c"
    "ch_name (fail_job_in j c) = ch_name c" for c st
    by (simp_all add: drop_job_def queue_job_in_def fail_job_in_def)
  have "manager_ok (m\<lparr>m_root := channel_set_done j (cj_channel (m_store m j)) (m_root m)\<rparr>)"
    unfolding channel_set_done_def channel_remove_def
    by (rule along_manager_ok [OF m entry _ _ d]) (use drop_job_ok [of "m_store m" _ _ j] names in \<open>auto\<close>)
  moreover have "manager_ok (m\<lparr>m_root := channel_set_pending (m_store m) j (cj_channel (m_store m j)) (m_root m)\<rparr>)"
  proof (cases "cq_contains j (ch_queue d)")
    case True
    with d(1) m show ?thesis by (simp add: channel_set_pending_def)
  next
    case False
    have "manager_ok (m\<lparr>m_root := along (queue_job_in (m_store m) j) (drop_job j) (cj_channel (m_store m j)) (m_root m)\<rparr>)"
      by (rule along_manager_ok [OF m entry _ _ d]) (use queue_job_ok [of "m_store m" _ _ j] names in \<open>auto\<close>)
    with d(1) False show ?thesis by (simp add: channel_set_pending_def)
  qed
  moreover have "manager_ok (m\<lparr>m_root := channel_set_failed j (cj_channel (m_store m j)) (m_root m)\<rparr>)"
  proof (cases "j \<in> ch_failed d")
    case True
    with d(1) m show ?thesis by (simp add: channel_set_failed_def)
  next
    case False
    have "manager_ok (m\<lparr>m_root := along (fail_job_in j) (drop_job j) (cj_channel (m_store m j)) (m_root m)\<rparr>)"
      by (rule along_manager_ok [OF m entry _ _ d]) (use fail_job_ok [of "m_store m" _ _ j] names in \<open>auto\<close>)
    with d(1) False show ?thesis by (simp add: channel_set_failed_def)
  qed
  moreover have "manager_ok (m\<lparr>m_root := channel_set_running j (cj_channel (m_store m j)) (m_root m)\<rparr>)"
  proof -
    have "cj_channel (m_store m j) = [] @ cj_channel (m_store m j)" by simp
    note r = set_running_ok [OF manager_parts(1) [OF m] this d(1)]
    show ?thesis by (rule manager_tree_ok [OF m _ _ _ entry]) (use r set_running_paths in auto)
  qed
  ultimately show ?thesis using m by (simp add: to_state_def Let_def)
qed

text \<open>Dropping a job that has no rival on the list.\<close>

definition droppable :: "nat \<Rightarrow> manager \<Rightarrow> bool" where
  "droppable j m \<longleftrightarrow> j < m_next m \<and> cj_channel (m_store m j) \<in> tree_paths (m_root m)
     \<and> (\<forall>i. (cj_uuid (m_store m j), i) \<in> set (m_jobs m) \<longrightarrow> i = j)"

lemma entry_droppable:
  assumes "manager_ok m" and "(u, j) \<in> set (m_jobs m)"
  shows "droppable j m"
proof -
  note M = manager_parts [OF assms(1)]
  have u: "cj_uuid (m_store m j) = u" "j < m_next m" "cj_channel (m_store m j) \<in> tree_paths (m_root m)"
    using M(5) [OF assms(2)] by auto
  have "i = j" if "(u, i) \<in> set (m_jobs m)" for i
    using eq_key_imp_eq_value [OF M(4) that assms(2)] .
  with u show ?thesis by (simp add: droppable_def)
qed

lemma drop_ok:
  assumes m: "manager_ok m" and d: "droppable j m"
  shows "manager_ok (drop_from_channel j m) \<and> tree_jobs (m_root (drop_from_channel j m)) \<subseteq> tree_jobs (m_root m) - {j}
    \<and> tree_paths (m_root (drop_from_channel j m)) = tree_paths (m_root m)"
proof -
  note M = manager_parts [OF m]
  let ?p = "cj_channel (m_store m j)" and ?u = "cj_uuid (m_store m j)"
  obtain c where c: "find_node ?p (m_root m) = Some c"
    using find_node_paths [OF M(1), of ?p] d by (auto simp: droppable_def)
  have "node_ok (m_store m) ?p c" using find_node_ok [OF M(1) c] by simp
  note D = drop_job_ok [OF this, of j]
  let ?t = "channel_remove j ?p (m_root m)"
  have tr: "tree_ok (m_store m) [] ?t" unfolding channel_remove_def
    using along_ok [OF M(1), of j ?p c "drop_job j"] c D by simp
  have jb: "tree_jobs ?t \<subseteq> tree_jobs (m_root m) - {j}" unfolding channel_remove_def
    using along_jobs [OF M(1), of j ?p c "drop_job j" "{}"] c D by auto
  have kn: "tree_known ?t \<subseteq> insert j (tree_known (m_root m))" unfolding channel_remove_def
    using along_known [OF M(1) c, of "drop_job j" j] D by auto
  have pt: "tree_paths ?t = tree_paths (m_root m)" unfolding channel_remove_def
    by (rule conjunct2 [OF along_paths]) (simp_all add: drop_job_def)
  let ?l = "filter (\<lambda>(u, _). u \<noteq> ?u) (m_jobs m)"
  have dis: "distinct (map fst ?l)" using M(4) by (rule distinct_map_filter)
  have look: "map_of ?l (cj_uuid (m_store m i)) = Some i" if "i \<in> tree_jobs ?t" for i
  proof -
    have i: "i \<in> tree_jobs (m_root m)" "i \<noteq> j" using jb that by auto
    have e: "(cj_uuid (m_store m i), i) \<in> set (m_jobs m)" using map_of_SomeD [OF M(3) [OF i(1)]] .
    then have "cj_uuid (m_store m i) \<noteq> ?u" using d i(2) by (auto simp: droppable_def)
    with e dis show ?thesis by simp
  qed
  have "manager_ok (drop_from_channel j m)"
    using tr look dis kn d M(2,5) pt unfolding manager_ok_def
    by (fastforce simp: drop_from_channel_def droppable_def)
  with jb pt show ?thesis by (simp add: drop_from_channel_def)
qed

lemma lookup_entry: "job_by_uuid m u = Some j \<Longrightarrow> (u, j) \<in> set (m_jobs m)"
  by (auto simp: job_by_uuid_def map_of_SomeD split: option.splits if_splits)

lemma remove_job_ok:
  "manager_ok m \<Longrightarrow> manager_ok (remove_job u m) \<and> tree_paths (m_root (remove_job u m)) = tree_paths (m_root m)"
  using drop_ok [OF _ entry_droppable [OF _ lookup_entry]] by (auto simp: remove_job_def split: option.splits)

lemma drop_simps [simp]:
  "m_store (drop_from_channel j m) = m_store m" "m_next (drop_from_channel j m) = m_next m"
  "m_jobs (drop_from_channel j m) = filter (\<lambda>(u, _). u \<noteq> cj_uuid (m_store m j)) (m_jobs m)"
  by (simp_all add: drop_from_channel_def)

lemma remove_db_ok:
  assumes "manager_ok m"
  shows "manager_ok (remove_db db m)"
proof -
  have "manager_ok (foldl (\<lambda>m' j. if cj_db (m_store m' j) = db then drop_from_channel j m' else m') m js)"
    if "manager_ok m" "list_all (\<lambda>j. droppable j m) js" for js
    using that
  proof (induction js arbitrary: m)
    case (Cons j js)
    have "droppable i (drop_from_channel j m)" if "i \<in> set js" for i
      using Cons.prems that drop_ok [OF Cons.prems(1), of j] by (auto simp: droppable_def list_all_iff)
    with Cons.prems drop_ok [OF Cons.prems(1), of j]
      Cons.IH [of "drop_from_channel j m"] Cons.IH [of m]
    show ?case by (auto simp: list_all_iff)
  qed simp
  moreover have "list_all (\<lambda>j. droppable j m) (filter (\<lambda>j. tree_refers j (m_root m)) (map snd (m_jobs m)))"
    using entry_droppable [OF assms] by (auto simp: list_all_iff)
  ultimately show ?thesis using assms by (simp add: remove_db_def)
qed

lemma make_job_ok:
  assumes m: "manager_ok m" and mk: "make_job job m = (j, m')"
    and ch: "cj_channel job \<in> tree_paths (m_root m)"
    and fresh: "\<And>i. i \<in> tree_jobs (m_root m) \<Longrightarrow> cj_uuid (m_store m i) \<noteq> cj_uuid job"
  shows "manager_ok m' \<and> (cj_uuid (m_store m' j), j) \<in> set (m_jobs m')"
proof -
  note M = manager_parts [OF m]
  have j: "j = m_next m" and m': "m' = m\<lparr>m_store := (m_store m)(j := job), m_next := Suc j,
      m_jobs := (cj_uuid job, j) # filter (\<lambda>(u, _). u \<noteq> cj_uuid job) (m_jobs m)\<rparr>"
    using mk by (auto simp: make_job_def)
  have old: "((m_store m)(j := job)) i = m_store m i" if "i < m_next m" for i using that j by simp
  have tree: "tree_ok (m_store m') [] (m_root m)"
    by (rule store_irrelevant [OF M(1)]) (use m' old M(2) in auto)
  have look: "map_of (m_jobs m') (cj_uuid (m_store m' i)) = Some i" if "i \<in> tree_jobs (m_root m)" for i
  proof -
    have i: "i < m_next m" using that jobs_known M(2) by blast
    have e: "(cj_uuid (m_store m i), i) \<in> set (m_jobs m)" using map_of_SomeD [OF M(3) [OF that]] .
    have "map_of (filter (\<lambda>(u, _). u \<noteq> cj_uuid job) (m_jobs m)) (cj_uuid (m_store m i)) = Some i"
      using e fresh [OF that] distinct_map_filter [OF M(4)] by simp
    then show ?thesis using old [OF i] fresh [OF that] m' by simp
  qed
  have dis: "distinct (map fst (m_jobs m'))" using distinct_map_filter [OF M(4)] m' by auto
  have entries: "cj_uuid (m_store m' i) = u \<and> i < m_next m' \<and> cj_channel (m_store m' i) \<in> tree_paths (m_root m')"
    if e: "(u, i) \<in> set (m_jobs m')" for u i
  proof (cases "i = j")
    case True
    have "(u, i) \<notin> set (m_jobs m)" using M(5) [of u i] j True by auto
    with e True m' ch show ?thesis by auto
  next
    case False
    with e have "(u, i) \<in> set (m_jobs m)" using m' by auto
    with M(5) [OF this] old False m' j show ?thesis by auto
  qed
  have less: "i < m_next m'" if "i \<in> tree_known (m_root m')" for i
    using M(2) [of i] that m' j by auto
  have "manager_ok m'"
    by (rule manager_okI) (use tree look dis entries less m' in \<open>simp_all del: map_of.simps\<close>)
  then show ?thesis using m' by simp
qed

lemma jobs_referred: "tree_ok st p t \<Longrightarrow> j \<in> tree_jobs t \<Longrightarrow> tree_refers j t"
proof (induction t arbitrary: p rule: tree_induct)
  case (Chan c ks)
  have "channel_refers j c" if "j \<in> held c \<union> ch_failed c"
    using Chan.prems(1) that
    by (auto simp: tree_ok_parts node_ok_def cq_invar_def pq_invar_def channel_refers_def held_def cq_members_def
        pq_members_def)
  moreover have "tree_refers j k" if "k \<in> set ks" "j \<in> tree_jobs k" for k
    using Chan.IH [OF that(1), of "p @ [kid_name k]"] Chan.prems that
    by (auto simp: tree_ok_parts kids_ok_def list_all_iff)
  ultimately show ?case using Chan.prems(2) by (auto simp: list_ex_iff)
qed

lemma make_then_state:
  assumes "manager_ok m" and "cj_channel job \<in> tree_paths (m_root m)"
    and "\<And>i. i \<in> tree_jobs (m_root m) \<Longrightarrow> cj_uuid (m_store m i) \<noteq> cj_uuid job"
  shows "manager_ok (case make_job job m of (j, m') \<Rightarrow> to_state js j m')"
proof -
  obtain j m' where mk: "make_job job m = (j, m')" by fastforce
  from make_job_ok [OF assms(1) mk assms(2,3)] to_state_ok [of m' j js] mk show ?thesis by simp
qed

lemma no_rival:
  assumes "manager_ok m" and "job_by_uuid m u = None" and "i \<in> tree_jobs (m_root m)"
  shows "cj_uuid (m_store m i) \<noteq> u"
  using manager_parts(3) [OF assms(1,3)] jobs_referred [OF manager_parts(1) [OF assms(1)] assms(3)] assms(2)
  by (auto simp: job_by_uuid_def)

lemma removed_lookup: "job_by_uuid m u = Some j \<Longrightarrow> manager_ok m \<Longrightarrow> job_by_uuid (remove_job u m) u = None"
  using manager_parts(5) [of m u j] lookup_entry [of m u j]
  by (auto simp: remove_job_def job_by_uuid_def split: option.splits dest!: map_of_SomeD)

lemma notify_ok:
  assumes m: "manager_ok m"
  shows "manager_ok (snd (notify db name u seq created priority eta js m))"
proof (cases "get_channel_by_name False True name (m_root m)")
  case (Inl e)
  with m show ?thesis by (simp add: notify_def)
next
  case (Inr pt)
  obtain p t where pt: "pt = (p, t)" by fastforce
  note M = manager_parts [OF m]
  have ex: "extends (m_store m) [] (m_root m) t" and p: "p \<in> tree_paths t"
    using get_channel_ok [OF M(1)] Inr pt by blast+
  define m1 where "m1 = m\<lparr>m_root := t\<rparr>"
  have m1: "manager_ok m1" using m ex unfolding manager_ok_def m1_def extends_def by auto
  have p1: "p \<in> tree_paths (m_root m1)" using p by (simp add: m1_def)
  let ?job = "\<lparr>cj_db = db, cj_channel = p, cj_uuid = u, cj_seq = seq, cj_created = created,
                     cj_priority = priority, cj_eta = eta\<rparr>"
  have new: "manager_ok (case make_job ?job m' of (j, m2) \<Rightarrow> to_state js j m2)"
    if "manager_ok m'" "job_by_uuid m' u = None" "p \<in> tree_paths (m_root m')" for m'
    by (rule make_then_state [OF that(1)]) (use that no_rival in auto)
  show ?thesis
  proof (cases "job_by_uuid m1 u")
    case None
    with Inr pt new [OF m1 None p1] show ?thesis by (simp add: notify_def m1_def Let_def split: prod.splits)
  next
    case (Some j)
    have e: "(cj_uuid (m_store m1 j), j) \<in> set (m_jobs m1)"
      using lookup_entry [OF Some] manager_parts(5) [OF m1, of u j] by simp
    have "manager_ok (case make_job ?job (remove_job u m1) of (j, m2) \<Rightarrow> to_state js j m2)"
      by (rule new) (use remove_job_ok [OF m1] removed_lookup [OF Some m1] p1 in auto)
    with Inr pt Some to_state_ok [OF m1 e, of js] m1 show ?thesis
      by (simp add: notify_def Let_def m1_def [symmetric] split: prod.splits)
  qed
qed

section \<open>Rounds and wake-ups\<close>

lemma round_manager_ok:
  assumes m: "manager_ok m" and r: "get_jobs_to_run now m = (js, m')"
  shows "manager_ok m' \<and> round_ok (m_store m) [] (m_root m) js (m_store m') (m_root m')"
proof -
  note M = manager_parts [OF m]
  obtain st t where c: "channel_jobs_to_run now (m_store m) (m_root m) = (js, st, t)"
      and m': "m' = m\<lparr>m_store := st, m_root := t\<rparr>"
    using r by (auto simp: get_jobs_to_run_def split: prod.splits)
  note R = round_tree [OF c M(1)]
  have cl: "cleared_own (m_store m) [] st" using R by (simp add: round_ok_def)
  have same: "cj_uuid (st j) = cj_uuid (m_store m j)" "cj_channel (st j) = cj_channel (m_store m j)" for j
    using cl by (auto simp: cleared_own_def clear_etas_def)
  have pt: "tree_paths t = tree_paths (m_root m)"
    using capacity_respected [where now = now and st = "m_store m" and t = "m_root m"] c round_paths by simp
  have "manager_ok m'"
    by (rule manager_okI) (use R M same pt m' in \<open>auto simp: round_ok_def\<close>)
  with R m' show ?thesis by simp
qed

lemma round_manager_snd: "manager_ok m \<Longrightarrow> manager_ok (snd (get_jobs_to_run now m))"
  using round_manager_ok [of m now] by (cases "get_jobs_to_run now m") simp

lemma wakeup_queue_ok:
  "cq_get_wakeup_time st w q = (w', q') \<Longrightarrow> cq_invar st q \<Longrightarrow>
   cq_invar st q' \<and> cq_members q' = cq_members q \<and> cq_known q' \<subseteq> cq_known q"
  using pq.peek_law [of "sorting_key st" "cq_eta q"]
  by (auto simp: cq_get_wakeup_time_def cq_invar_def cq_members_def cq_known_def dest!: pq_peek_known
      split: if_splits prod.splits option.splits)

lemma wakeup_node:
  assumes "node_ok st p c" and "cq_invar st q" "cq_members q = cq_members (ch_queue c)" "cq_known q \<subseteq> cq_known (ch_queue c)"
  shows "node_ok st p (c\<lparr>ch_queue := q\<rparr>) \<and> held (c\<lparr>ch_queue := q\<rparr>) = held c \<and> known_in (c\<lparr>ch_queue := q\<rparr>) \<subseteq> known_in c"
  using assms by (auto simp: node_ok_def held_def known_in_def)

definition slims :: "job_store \<Rightarrow> string list \<Rightarrow> ctree \<Rightarrow> ctree \<Rightarrow> bool" where
  "slims st p t t' \<longleftrightarrow> tree_ok st p t' \<and> kid_name t' = kid_name t \<and> kid_running t' = kid_running t
     \<and> tree_jobs t' = tree_jobs t \<and> tree_known t' \<subseteq> tree_known t \<and> tree_paths t' = tree_paths t"

lemma slims_kids:
  "list_all2 (\<lambda>k k'. slims st (p @ [kid_name k]) k k') ks ks' \<Longrightarrow>
   map kid_name ks' = map kid_name ks \<and> (\<Union>k\<in>set ks'. kid_running k) = (\<Union>k\<in>set ks. kid_running k)
   \<and> (\<Union>k\<in>set ks'. tree_jobs k) = (\<Union>k\<in>set ks. tree_jobs k) \<and> (\<Union>k\<in>set ks'. tree_known k) \<subseteq> (\<Union>k\<in>set ks. tree_known k)
   \<and> (\<Union>k\<in>set ks'. (#) (kid_name k) ` tree_paths k) = (\<Union>k\<in>set ks. (#) (kid_name k) ` tree_paths k)
   \<and> list_all (\<lambda>k. tree_ok st (p @ [kid_name k]) k) ks'"
  by (induction rule: list_all2_induct) (auto simp: slims_def)

lemma wakeup_tree:
  "channel_wakeup_time st w t = (w', t') \<Longrightarrow> tree_ok st p t \<Longrightarrow> slims st p t t'"
  and "children_wakeup st w ks = (w1, ks') \<Longrightarrow> list_all (\<lambda>k. tree_ok st (p @ [kid_name k]) k) ks \<Longrightarrow>
    list_all2 (\<lambda>k k'. slims st (p @ [kid_name k]) k k') ks ks'"
proof (induction st w t and st w ks arbitrary: p w' t' and p w1 ks' rule: channel_wakeup_time_children_wakeup.induct)
  case (1 st w c ks)
  show ?case
  proof (cases "has_capacity c \<and> ch_pause c = 0")
    case False
    with "1.prems" have "t' = Chan c ks" by (auto split: if_splits)
    with "1.prems"(2) show ?thesis by (simp add: slims_def)
  next
    case True
    obtain v q where q: "cq_get_wakeup_time st w (ch_queue c) = (v, q)" by fastforce
    obtain v' ks1 where k: "children_wakeup st v ks = (v', ks1)" by fastforce
    have t': "t' = Chan (c\<lparr>ch_queue := q\<rparr>) ks1" using "1.prems"(1) True q k by simp
    have P: "node_ok st p c" "kids_ok st p ks" "passed_on st p c = (\<Union>k\<in>set ks. kid_running k)"
      using "1.prems"(2) by (simp_all add: tree_ok_parts)
    have "list_all2 (\<lambda>k k'. slims st (p @ [kid_name k]) k k') ks ks1"
      using "1.IH" True q k P(2) by (auto simp: kids_ok_def)
    note S = slims_kids [OF this]
    note N = wakeup_node [OF P(1), of q] wakeup_queue_ok [OF q]
    have inv: "cq_invar st (ch_queue c)" using P(1) by (simp add: node_ok_def)
    have "passed_on st p (c\<lparr>ch_queue := q\<rparr>) = passed_on st p c" using N inv by (simp add: passed_on_def)
    moreover have "kids_ok st p ks1" using S P(2) by (simp add: kids_ok_def)
    ultimately have "tree_ok st p t'" using N inv S P t' by (simp add: tree_ok_parts)
    moreover have "tree_known t' \<subseteq> tree_known (Chan c ks)" using N inv S t' by auto
    moreover have "tree_jobs t' = tree_jobs (Chan c ks)" using N inv S t' by simp
    moreover have "tree_paths t' = tree_paths (Chan c ks)" using S t' by simp
    ultimately show ?thesis using t' by (simp add: slims_def kid_name_def kid_running_def)
  qed
next
  case (3 st w k ks)
  obtain v k1 where k: "channel_wakeup_time st w k = (v, k1)" by fastforce
  obtain v' ks1 where r: "children_wakeup st v ks = (v', ks1)" by fastforce
  from "3.IH"(1) [OF k] "3.IH"(2) [OF k [symmetric] r] "3.prems" k r show ?case by auto
qed simp

lemma wakeup_manager_ok:
  assumes m: "manager_ok m"
  shows "manager_ok (snd (get_wakeup_time m))"
proof -
  note M = manager_parts [OF m]
  obtain w t where c: "channel_wakeup_time (m_store m) 0 (m_root m) = (w, t)" by fastforce
  have "slims (m_store m) [] (m_root m) t" by (rule wakeup_tree(1) [OF c M(1)])
  then have "manager_ok (m\<lparr>m_root := t\<rparr>)"
    by (intro manager_okI) (use M in \<open>auto simp: slims_def\<close>)
  with c show ?thesis by (simp add: get_wakeup_time_def)
qed

section \<open>Configuration\<close>

lemma along_config:
  assumes "tree_ok st p t" and "find_node q t = Some d" and "node_ok st (p @ q) c'"
    and "held c' = held d" "ch_running c' = ch_running d" "ch_failed c' = ch_failed d" "known_in c' = known_in d"
    and "ch_name c' = ch_name d"
  shows "extends st p t (along (\<lambda>_. c') (\<lambda>x. x) q t)"
  using assms
proof (induction q arbitrary: p t)
  case Nil
  obtain c ks where t: "t = Chan c ks" by (cases t)
  have "passed_on st p c' = passed_on st p d" using Nil by (simp add: passed_on_def)
  with Nil t show ?case by (auto simp: extends_def tree_ok_parts kid_name_def kid_running_def)
next
  case (Cons n q)
  obtain c ks where t: "t = Chan c ks" by (cases t)
  obtain k where k: "k \<in> set ks" "kid_name k = n" "find_node q k = Some d"
      and only: "\<And>k'. k' \<in> set ks \<Longrightarrow> kid_name k' = n \<Longrightarrow> k' = k"
    using find_kid [of st p c ks n q d] Cons.prems t by blast
  have kids: "tree_ok st (p @ [kid_name k']) k'" if "k' \<in> set ks" for k'
    using Cons.prems(1) t that by (simp add: tree_ok_parts kids_ok_def list_all_iff)
  have IH: "extends st (p @ [n]) k (along (\<lambda>_. c') (\<lambda>x. x) q k)"
    by (rule Cons.IH [OF _ k(3)]) (use Cons.prems(3-) k kids [OF k(1)] in simp_all)
  have "extends st p (Chan c ks) (Chan c (map (\<lambda>k. if kid_name k = n then along (\<lambda>_. c') (\<lambda>x. x) q k else k) ks))"
  proof (rule extends_kids)
    show "tree_ok st p (Chan c ks)" using Cons.prems(1) t by simp
    fix k' assume k': "k' \<in> set ks"
    show "extends st (p @ [kid_name k']) k' (if kid_name k' = n then along (\<lambda>_. c') (\<lambda>x. x) q k' else k')"
      using IH only [OF k'] k(2) extends_refl [OF kids [OF k']] by (cases "kid_name k' = n") auto
  qed
  then show ?case using t by (simp add: kid_name_def)
qed

lemma configure_ok:
  assumes "configure cf c = Inr c'" and "node_ok st p c"
  shows "node_ok st p c' \<and> held c' = held c \<and> ch_running c' = ch_running c \<and> ch_failed c' = ch_failed c
    \<and> known_in c' = known_in c \<and> ch_name c' = ch_name c"
proof -
  obtain s n where "c' = c\<lparr>ch_capacity := Some (cf_capacity cf),
      ch_queue := (ch_queue c)\<lparr>cq_sequential := s\<rparr>, ch_throttle := n\<rparr>"
    using assms(1) by (auto simp: configure_def Let_def split: option.splits if_splits)
  with assms(2) show ?thesis
    by (simp add: node_ok_def held_def known_in_def cq_invar_def cq_members_def cq_known_def)
qed

lemma extends_trans: "extends st p t t1 \<Longrightarrow> extends st p t1 t2 \<Longrightarrow> extends st p t t2"
  by (auto simp: extends_def)

lemma configure_all_ok: "tree_ok st [] t \<Longrightarrow> configure_all cfs t = Inr t' \<Longrightarrow> extends st [] t t'"
proof (induction cfs arbitrary: t)
  case Nil then show ?case by (simp add: extends_refl)
next
  case (Cons cf cfs)
  obtain p t1 d c' where g: "get_channel_by_name True False (cf_name cf) t = Inr (p, t1)"
      and d: "find_node p t1 = Some d" and c': "configure cf d = Inr c'"
      and rest: "configure_all cfs (along (\<lambda>_. c') (\<lambda>x. x) p t1) = Inr t'"
    using Cons.prems(2)
    by (auto simp: get_channel_from_config_def map_sum_def split: sum.splits prod.splits if_splits option.splits)
  have e1: "extends st [] t t1" using get_channel_ok [OF Cons.prems(1) g] by blast
  then have t1: "tree_ok st [] t1" by (simp add: extends_def)
  have "node_ok st p d" using find_node_ok [OF t1 d] by simp
  then have e2: "extends st [] t1 (along (\<lambda>_. c') (\<lambda>x. x) p t1)"
    using along_config [OF t1 d, of c'] configure_ok [OF c'] by simp
  then have "tree_ok st [] (along (\<lambda>_. c') (\<lambda>x. x) p t1)" by (simp add: extends_def)
  from Cons.IH [OF this rest] e1 e2 show ?case using extends_trans by blast
qed

lemma configured_manager_ok:
  assumes "simple_configure s (m_root new_manager) = Inr t"
  shows "manager_ok (new_manager\<lparr>m_root := t\<rparr>)"
proof -
  let ?r = "m_root new_manager"
  have r: "tree_ok st [] ?r" for st
    using new_channel_ok [of st "[]" ROOT_NAME "Some 1"]
    by (simp add: new_manager_def tree_ok_parts kids_ok_def passed_on_def)
  have none: "tree_known ?r = {}" using new_channel_ok [of "\<lambda>_. no_job" "[]" ROOT_NAME "Some 1"] by (simp add: new_manager_def)
  have "extends (\<lambda>_. no_job) [] ?r t"
    using configure_all_ok [OF r] assms by (auto simp: simple_configure_def split: sum.splits)
  then show ?thesis
    using none jobs_known [of ?r] by (auto simp: manager_ok_def extends_def new_manager_def)
qed

section \<open>Every sequence of events\<close>

datatype runner_event =
    Notified string string string int int int "int option" string
  | Gone string
  | Closed string
  | Round int
  | AskWakeup

fun runner_step :: "runner_event \<Rightarrow> manager \<Rightarrow> manager" where
  "runner_step (Notified db name u seq created priority eta js) m =
     snd (notify db name u seq created priority eta js m)"
| "runner_step (Gone u) m = remove_job u m"
| "runner_step (Closed db) m = remove_db db m"
| "runner_step (Round now) m = snd (get_jobs_to_run now m)"
| "runner_step AskWakeup m = snd (get_wakeup_time m)"

definition run_events :: "runner_event list \<Rightarrow> manager \<Rightarrow> manager" where
  "run_events es m = foldl (\<lambda>m e. runner_step e m) m es"

lemma runner_step_ok: "manager_ok m \<Longrightarrow> manager_ok (runner_step e m)"
  by (cases e) (simp_all add: notify_ok remove_job_ok remove_db_ok wakeup_manager_ok round_manager_snd)

lemma run_events_ok: "manager_ok m \<Longrightarrow> manager_ok (run_events es m)"
  unfolding run_events_def by (induction es arbitrary: m) (simp_all add: runner_step_ok)

text \<open>
  Property C28. However the runner is configured and whatever comes in afterwards (notifications with
  any state and any changed property, jobs and databases that go away, rounds that hand out jobs),
  the channels stay consistent: in each channel a job is waiting, running or failed but never two of
  them; a channel holds, besides its own jobs, exactly the jobs that run in its subchannels, so none is
  lost on the way down and none is passed on twice; and no two jobs of the tree have the same uuid, so
  a changed job has not left its old object behind.
\<close>
theorem channels_stay_consistent:
  assumes "simple_configure s (m_root new_manager) = Inr t"
  shows "manager_ok (run_events es (new_manager\<lparr>m_root := t\<rparr>))
    \<and> inj_on (\<lambda>j. cj_uuid (m_store (run_events es (new_manager\<lparr>m_root := t\<rparr>)) j))
        (tree_jobs (m_root (run_events es (new_manager\<lparr>m_root := t\<rparr>))))"
proof -
  have ok: "manager_ok (run_events es (new_manager\<lparr>m_root := t\<rparr>))"
    by (rule run_events_ok [OF configured_manager_ok [OF assms]])
  with manager_parts(3) [OF ok] show ?thesis by (auto intro!: inj_onI) (metis option.inject)
qed

lemma channels_stay_consistent_witness:
  "\<exists>t. simple_configure ''root:4,A:2'' (m_root new_manager) = Inr t \<and>
     manager_ok (run_events [Notified ''db'' ''A'' ''u'' 1 0 10 None ''pending'', Round 100] (new_manager\<lparr>m_root := t\<rparr>))"
proof -
  have "case simple_configure ''root:4,A:2'' (m_root new_manager) of Inl _ \<Rightarrow> False | Inr _ \<Rightarrow> True" by code_simp
  then have "\<exists>t. simple_configure ''root:4,A:2'' (m_root new_manager) = Inr t" by (simp split: sum.splits)
  then show ?thesis using channels_stay_consistent by blast
qed

section \<open>The jobs a round hands out\<close>

text \<open>A job runs in all channels from the root down to its own.\<close>

definition runs_along :: "nat \<Rightarrow> manager \<Rightarrow> bool" where
  "runs_along j m \<longleftrightarrow> list_all (\<lambda>n. case find_node (take n (cj_channel (m_store m j))) (m_root m) of
       None \<Rightarrow> False | Some c \<Rightarrow> j \<in> ch_running c) [0..<Suc (length (cj_channel (m_store m j)))]"

lemma running_down:
  "tree_ok st p t \<Longrightarrow> j \<in> kid_running t \<Longrightarrow> cj_channel (st j) = p @ r @ s \<Longrightarrow>
   \<exists>d. find_node r t = Some d \<and> j \<in> ch_running d"
proof (induction r arbitrary: p t)
  case Nil then show ?case by (simp add: kid_running_def)
next
  case (Cons n r)
  obtain c ks where t: "t = Chan c ks" by (cases t)
  have ok: "tree_ok st p (Chan c ks)" using Cons.prems(1) t by simp
  have "j \<in> held c" using Cons.prems(2) t by (simp add: kid_running_def held_def)
  then obtain k where k: "k \<in> set ks" "kid_name k = n" "j \<in> kid_running k"
    using held_from_kid [OF ok, of j n "r @ s"] Cons.prems(3) by auto
  then have kn: "List.find (\<lambda>k. ch_name (ct_node k) = n) ks = Some k"
  proof -
    obtain k' where k': "List.find (\<lambda>k. ch_name (ct_node k) = n) ks = Some k'"
      using k by (cases "List.find (\<lambda>k. ch_name (ct_node k) = n) ks") (auto simp: find_None_iff kid_name_def)
    then have "k' \<in> set ks" "kid_name k' = n" by (auto simp: find_Some_iff kid_name_def)
    moreover have "inj_on kid_name (set ks)" using ok by (simp add: tree_ok_parts kids_ok_def distinct_map)
    ultimately have "k' = k" using k by (simp add: inj_on_def)
    with k' show ?thesis by simp
  qed
  have "tree_ok st (p @ [n]) k" using ok k by (auto simp: tree_ok_parts kids_ok_def list_all_iff)
  from Cons.IH [OF this k(3)] Cons.prems(3) kn t show ?case by (simp add: get_subchannel_by_name_def)
qed

text \<open>
  A round hands out jobs that were waiting or on their way and not yet running in the
  root channel; no job and no uuid twice, and every job it hands out counts as running in each channel
  from its own down to the root, so it uses up the capacity of all of them.
\<close>
theorem jobs_handed_out:
  assumes "simple_configure s (m_root new_manager) = Inr t"
    and "get_jobs_to_run now (run_events es (new_manager\<lparr>m_root := t\<rparr>)) = (js, m')"
  shows "distinct (map (\<lambda>j. cj_uuid (m_store m' j)) js)
    \<and> list_all (\<lambda>j. j \<in> tree_jobs (m_root (run_events es (new_manager\<lparr>m_root := t\<rparr>)))
          \<and> j \<notin> ch_running (ct_node (m_root (run_events es (new_manager\<lparr>m_root := t\<rparr>))))
          \<and> runs_along j m') js"
proof -
  let ?m = "run_events es (new_manager\<lparr>m_root := t\<rparr>)"
  have ok: "manager_ok ?m" by (rule run_events_ok [OF configured_manager_ok [OF assms(1)]])
  have ok': "manager_ok m'" and r: "round_ok (m_store ?m) [] (m_root ?m) js (m_store m') (m_root m')"
    using round_manager_ok [OF ok assms(2)] by blast+
  have sub: "set js \<subseteq> tree_jobs (m_root m')" using r by (simp add: round_ok_def)
  have inj: "inj_on (\<lambda>j. cj_uuid (m_store m' j)) (tree_jobs (m_root m'))"
    using manager_parts(3) [OF ok'] by (auto intro!: inj_onI) (metis option.inject)
  have "distinct (map (\<lambda>j. cj_uuid (m_store m' j)) js)"
    using r inj_on_subset [OF inj sub] by (simp add: distinct_map round_ok_def)
  moreover have "runs_along j m'" if "j \<in> set js" for j
    unfolding runs_along_def list_all_iff
  proof
    fix n
    let ?p = "cj_channel (m_store m' j)"
    have "j \<in> kid_running (m_root m')" using r that by (simp add: round_ok_def)
    from running_down [OF manager_parts(1) [OF ok'] this, of "take n ?p" "drop n ?p"]
    show "case find_node (take n ?p) (m_root m') of None \<Rightarrow> False | Some c \<Rightarrow> j \<in> ch_running c" by auto
  qed
  ultimately show ?thesis using r by (auto simp: round_ok_def list_all_iff kid_running_def)
qed

lemma jobs_handed_out_witness:
  "\<exists>t js m'. simple_configure ''root:4,A:2'' (m_root new_manager) = Inr t \<and>
     get_jobs_to_run 100 (run_events [Notified ''db'' ''A'' ''u'' 1 0 10 None ''pending''] (new_manager\<lparr>m_root := t\<rparr>))
       = (js, m') \<and> list_all (\<lambda>j. runs_along j m') js \<and> length js = 1"
proof -
  let ?es = "[Notified ''db'' ''A'' ''u'' 1 0 10 None ''pending'']"
  have one: "case simple_configure ''root:4,A:2'' (m_root new_manager) of Inl _ \<Rightarrow> False
      | Inr t \<Rightarrow> length (fst (get_jobs_to_run 100 (run_events ?es (new_manager\<lparr>m_root := t\<rparr>)))) = 1" by code_simp
  then obtain t where t: "simple_configure ''root:4,A:2'' (m_root new_manager) = Inr t" by (simp split: sum.splits)
  obtain js m' where g: "get_jobs_to_run 100 (run_events ?es (new_manager\<lparr>m_root := t\<rparr>)) = (js, m')" by fastforce
  have "list_all (\<lambda>j. runs_along j m') js" using jobs_handed_out [OF t g] by (simp add: list_all_iff)
  with t g one show ?thesis by (simp del: run_events_def)
qed

end
