(* ===== verification/JobGraph.thy ===== *)
theory JobGraph
  imports Prelude
begin

text \<open>
  The job graphs of \<^verbatim>\<open>queue_job/delay.py\<close>: the class \<^verbatim>\<open>Graph\<close> with its topological order, and the
  delayables (single jobs, chains, groups) whose graphs \<^verbatim>\<open>DelayableGraph\<close> connects into one graph
  of jobs. A dict of sets is an association list of lists without duplicates; the order in which
  Python walks a set is the list's. Delayables are mutable objects that refer to each other, so they
  live in a heap and are named by their address, which also names the graph each of them owns.
\<close>

section \<open>Graphs\<close>

type_synonym 'v graph = "('v \<times> 'v list) list"

definition set_union :: "'v list \<Rightarrow> 'v list \<Rightarrow> 'v list" where
  "set_union xs ys = xs @ filter (\<lambda>y. y \<notin> set xs) (remdups ys)"

text \<open>\<open>graph.setdefault(v, set()).update(ns)\<close>\<close>

fun graph_add :: "'v \<Rightarrow> 'v list \<Rightarrow> 'v graph \<Rightarrow> 'v graph" where
  "graph_add v ns [] = [(v, remdups ns)]"
| "graph_add v ns ((w, xs) # g) =
     (if v = w then (w, set_union xs ns) # g else (w, xs) # graph_add v ns g)"

definition add_vertex :: "'v \<Rightarrow> 'v graph \<Rightarrow> 'v graph" where
  "add_vertex v g = graph_add v [] g"

definition add_edge :: "'v \<Rightarrow> 'v \<Rightarrow> 'v graph \<Rightarrow> 'v graph" where
  "add_edge parent child g = graph_add parent [child] (add_vertex child g)"

definition vertices :: "'v graph \<Rightarrow> 'v list" where
  "vertices g = map fst g"

definition edges :: "'v graph \<Rightarrow> ('v \<times> 'v) list" where
  "edges g = concat (map (\<lambda>(v, ns). map (Pair v) ns) g)"

definition root_vertices :: "'v graph \<Rightarrow> 'v list" where
  "root_vertices g = filter (\<lambda>v. v \<notin> set (concat (map snd g))) (vertices g)"

definition children :: "'v graph \<Rightarrow> 'v \<Rightarrow> 'v list" where
  "children g v = (case map_of g v of None \<Rightarrow> [] | Some ns \<Rightarrow> ns)"

text \<open>A graph built by the methods: one entry per vertex, no edge twice, and edges between vertices.\<close>

definition graph_ok :: "'v graph \<Rightarrow> bool" where
  "graph_ok g \<longleftrightarrow> distinct (vertices g) \<and> list_all (\<lambda>(v, ns). distinct ns) g
     \<and> set (map snd (edges g)) \<subseteq> set (vertices g)"

lemma set_union_set [simp]: "set (set_union xs ys) = set xs \<union> set ys"
  by (auto simp: set_union_def)

lemma distinct_set_union [simp]: "distinct (set_union xs ys) \<longleftrightarrow> distinct xs"
  by (auto simp: set_union_def)

lemma edges_Cons [simp]: "set (edges ((v, ns) # g)) = Pair v ` set ns \<union> set (edges g)"
  by (auto simp: edges_def)

lemma edges_Nil [simp]: "edges [] = []" by (simp add: edges_def)

lemma vertices_Nil [simp]: "vertices [] = []" by (simp add: vertices_def)

lemma vertices_Cons: "vertices ((v, ns) # g) = v # vertices g" by (simp add: vertices_def)

lemma vertices_add [simp]: "set (vertices (graph_add v ns g)) = insert v (set (vertices g))"
  by (induction v ns g rule: graph_add.induct) (auto simp: vertices_def)

lemma edges_add [simp]: "set (edges (graph_add v ns g)) = Pair v ` set ns \<union> set (edges g)"
  by (induction v ns g rule: graph_add.induct) auto

lemma distinct_add: "distinct (vertices g) \<Longrightarrow> distinct (vertices (graph_add v ns g))"
proof (induction v ns g rule: graph_add.induct)
  case (2 v ns w xs g)
  then show ?case using vertices_add[of v ns g] by (auto simp: vertices_def)
qed (simp add: vertices_def)

lemma distinct_children_add:
  "list_all (\<lambda>(v, ns). distinct ns) g \<Longrightarrow> list_all (\<lambda>(v, ns). distinct ns) (graph_add v ns g)"
  by (induction v ns g rule: graph_add.induct) auto

lemma graph_ok_add:
  assumes "graph_ok g" "set ns \<subseteq> insert v (set (vertices g))"
  shows "graph_ok (graph_add v ns g)"
  using assms distinct_add[of g v ns] distinct_children_add[of g v ns]
  by (auto simp: graph_ok_def image_subset_iff)

lemma graph_ok_Nil [simp]: "graph_ok []" by (simp add: graph_ok_def vertices_def)

lemma add_simps [simp]:
  "set (vertices (add_vertex v g)) = insert v (set (vertices g))"
  "set (edges (add_vertex v g)) = set (edges g)"
  "set (vertices (add_edge p c g)) = {p, c} \<union> set (vertices g)"
  "set (edges (add_edge p c g)) = insert (p, c) (set (edges g))"
  by (auto simp: add_vertex_def add_edge_def)

lemma graph_ok_build: "graph_ok g \<Longrightarrow> graph_ok (add_vertex v g) \<and> graph_ok (add_edge p c g)"
  by (simp add: add_vertex_def add_edge_def graph_ok_add)

lemma edge_iff: "distinct (vertices g) \<Longrightarrow> (u, v) \<in> set (edges g) \<longleftrightarrow> v \<in> set (children g u)"
proof (induction g)
  case (Cons e g)
  obtain w ns where e: "e = (w, ns)" by (cases e)
  have "u \<notin> set (vertices g) \<Longrightarrow> (u, v) \<notin> set (edges g)" for v
    by (force simp: edges_def vertices_def)
  with Cons e show ?case by (auto simp: children_def vertices_def image_iff)
qed (simp add: children_def)

lemma map_of_vertex: "v \<in> set (vertices g) \<Longrightarrow> map_of g v = Some (children g v)"
  by (cases "map_of g v") (auto simp: children_def vertices_def map_of_eq_None_iff)

lemma graph_ok_children:
  assumes "graph_ok g"
  shows "distinct (children g v)" "set (children g v) \<subseteq> set (vertices g)"
proof -
  show "distinct (children g v)"
    using assms by (auto simp: children_def graph_ok_def list_all_iff split: option.split dest: map_of_SomeD)
  show "set (children g v) \<subseteq> set (vertices g)"
    using assms edge_iff[of g v] by (force simp: graph_ok_def)
qed

section \<open>The topological order\<close>

definition depends_per_node :: "'v graph \<Rightarrow> 'v \<Rightarrow> int" where
  "depends_per_node g = fold (\<lambda>(_, t) d. d(t := d t + 1)) (edges g) (\<lambda>_. 0)"

fun resolve :: "'v list \<Rightarrow> ('v \<Rightarrow> int) \<Rightarrow> 'v list \<Rightarrow> ('v \<Rightarrow> int) \<times> 'v list" where
  "resolve [] d q = (d, q)"
| "resolve (n # ns) d q =
     (let d' = d(n := d n - 1) in resolve ns d' (if d' n = 0 then q @ [n] else q))"

definition unresolved :: "'v graph \<Rightarrow> ('v \<Rightarrow> int) \<Rightarrow> 'v set" where
  "unresolved g d = {n \<in> set (concat (map snd g)). 0 < d n}"

lemma finite_unresolved [simp]: "finite (unresolved g d)" by (simp add: unresolved_def)

lemma resolve_measure:
  assumes "set ns \<subseteq> set (concat (map snd g))" "resolve ns d q = (d', q')"
  shows "length q' + card (unresolved g d') \<le> length q + card (unresolved g d)"
  using assms
proof (induction ns d q rule: resolve.induct)
  case (2 n ns d q)
  let ?d = "d(n := d n - 1)"
  have drop: "unresolved g ?d = (if d n \<le> 1 then unresolved g d - {n} else unresolved g d)"
    by (auto simp: unresolved_def)
  have "n \<in> unresolved g d" if "d n = 1" using that 2(2) by (auto simp: unresolved_def)
  then have "length (if ?d n = 0 then q @ [n] else q) + card (unresolved g ?d)
      \<le> length q + card (unresolved g d)"
    using card_Suc_Diff1[of "unresolved g d" n] card_Diff1_le[of "unresolved g d" n]
    by (auto simp: drop)
  moreover have "length q' + card (unresolved g d')
      \<le> length (if ?d n = 0 then q @ [n] else q) + card (unresolved g ?d)"
    using 2(1)[OF refl] 2(2,3) by (simp add: Let_def del: fun_upd_apply)
  ultimately show ?case by linarith
qed simp

text \<open>
  The generator as the list it yields; a vertex that is no key of the dict raises \<^verbatim>\<open>KeyError\<close>.
  It always ends: every turn takes a vertex off the queue, and each vertex it adds had a positive count.
\<close>

function topo_loop :: "'v graph \<Rightarrow> ('v \<Rightarrow> int) \<Rightarrow> 'v list \<Rightarrow> py_error + 'v list" where
  "topo_loop g d [] = Inr []"
| "topo_loop g d (v # q) = (case map_of g v of
      None \<Rightarrow> Inl KeyError
    | Some ns \<Rightarrow> ebind (topo_loop g (fst (resolve ns d q)) (snd (resolve ns d q))) (\<lambda>xs. Inr (v # xs)))"
  by pat_completeness auto
termination
proof (relation "measure (\<lambda>(g, d, q). length q + card (unresolved g d))", goal_cases)
  case (2 g d v q ns)
  have "set ns \<subseteq> set (concat (map snd g))" using map_of_SomeD[OF 2] by force
  from resolve_measure[OF this, of d q] show ?case by (simp add: le_imp_less_Suc split: prod.split)
qed simp

definition topological_sort :: "'v graph \<Rightarrow> py_error + 'v list" where
  "topological_sort g = topo_loop g (depends_per_node g) (root_vertices g)"


text \<open>Edges into a vertex from vertices that were not yielded yet.\<close>

definition pending_in :: "'v graph \<Rightarrow> 'v set \<Rightarrow> 'v \<Rightarrow> int" where
  "pending_in g D n = int (card {u \<in> set (vertices g). u \<notin> D \<and> n \<in> set (children g u)})"

lemma depends_fold:
  "fold (\<lambda>(_, t) d. d(t := d t + 1)) es d n = d n + int (length (filter (\<lambda>e. snd e = n) es))" for d :: "'v \<Rightarrow> int"
  by (induction es arbitrary: d) auto

lemma distinct_edges: "distinct (vertices g) \<Longrightarrow> list_all (\<lambda>(v, ns). distinct ns) g \<Longrightarrow> distinct (edges g)"
proof (induction g)
  case (Cons e g)
  obtain w ns where e: "e = (w, ns)" by (cases e)
  have "w \<notin> set (vertices g)" using Cons.prems e by (auto simp: vertices_def)
  then have "(w, n) \<notin> set (edges g)" for n by (force simp: edges_def vertices_def)
  moreover have "edges (e # g) = map (Pair w) ns @ edges g" by (simp add: e edges_def)
  ultimately show ?case using Cons e by (auto simp: distinct_map inj_on_def vertices_def)
qed simp

lemma edge_vertex: "(u, n) \<in> set (edges g) \<Longrightarrow> u \<in> set (vertices g)"
  by (force simp: edges_def vertices_def)

lemma depends_count:
  assumes "graph_ok g" shows "depends_per_node g n = pending_in g {} n"
proof -
  have dv: "distinct (vertices g)" and de: "distinct (edges g)"
    using assms distinct_edges by (auto simp: graph_ok_def)
  have "set (filter (\<lambda>e. snd e = n) (edges g))
      = (\<lambda>u. (u, n)) ` {u \<in> set (vertices g). n \<in> set (children g u)}"
    using edge_iff[OF dv, of _ n] edge_vertex[of _ n g] by (auto simp: image_iff)
  moreover have "distinct (filter (\<lambda>e. snd e = n) (edges g))" using de by simp
  ultimately have "length (filter (\<lambda>e. snd e = n) (edges g))
      = card ((\<lambda>u. (u, n)) ` {u \<in> set (vertices g). n \<in> set (children g u)})"
    by (metis distinct_card)
  also have "\<dots> = card {u \<in> set (vertices g). n \<in> set (children g u)}"
    by (rule card_image) (simp add: inj_on_def)
  finally show ?thesis by (simp add: depends_per_node_def depends_fold pending_in_def)
qed

lemma pending_in_insert:
  assumes "v \<in> set (vertices g)" "v \<notin> D"
  shows "pending_in g (insert v D) n = pending_in g D n - (if n \<in> set (children g v) then 1 else 0)"
proof -
  let ?A = "{u \<in> set (vertices g). u \<notin> D \<and> n \<in> set (children g u)}"
  have minus: "{u \<in> set (vertices g). u \<notin> insert v D \<and> n \<in> set (children g u)} = ?A - {v}" by auto
  show ?thesis
  proof (cases "n \<in> set (children g v)")
    case True
    then have "v \<in> ?A" using assms by simp
    then have "card ?A = Suc (card (?A - {v}))" by (intro card_Suc_Diff1[symmetric]) simp_all
    then show ?thesis using True by (simp only: pending_in_def minus) simp
  next
    case False
    then have "?A - {v} = ?A" by simp
    then show ?thesis using False by (simp only: pending_in_def minus) simp
  qed
qed

lemma pending_in_zero: "pending_in g D n = 0 \<longleftrightarrow> (\<forall>u\<in>set (vertices g) - D. n \<notin> set (children g u))"
  by (auto simp: pending_in_def)

lemma resolve_parts:
  "distinct ns \<Longrightarrow> resolve ns d q
     = (\<lambda>n. d n - (if n \<in> set ns then 1 else 0), q @ filter (\<lambda>n. d n = 1) ns)"
proof (induction ns d q rule: resolve.induct)
  case (2 n ns d q)
  have "filter (\<lambda>m. (d(n := d n - 1)) m = 1) ns = filter (\<lambda>m. d m = 1) ns"
    using 2(2) by (intro filter_cong) auto
  moreover have "(\<lambda>m. (d(n := d n - 1)) m - (if m \<in> set ns then 1 else 0))
      = (\<lambda>m. d m - (if m \<in> set (n # ns) then 1 else 0))"
    using 2(2) by auto
  ultimately show ?case
    using 2(1)[OF refl] 2(2) by (simp only: resolve.simps Let_def distinct.simps) simp
qed simp

text \<open>A list yields no vertex twice, and none before all vertices it depends on.\<close>

fun resolved_from :: "'v graph \<Rightarrow> 'v set \<Rightarrow> 'v list \<Rightarrow> bool" where
  "resolved_from g D [] = True"
| "resolved_from g D (x # xs) \<longleftrightarrow> x \<in> set (vertices g) \<and> x \<notin> D \<and> pending_in g D x = 0
     \<and> resolved_from g (insert x D) xs"

definition queue_ok :: "'v graph \<Rightarrow> 'v set \<Rightarrow> ('v \<Rightarrow> int) \<Rightarrow> 'v list \<Rightarrow> bool" where
  "queue_ok g D d q \<longleftrightarrow> d = pending_in g D \<and> distinct q
     \<and> set q = {n \<in> set (vertices g). n \<notin> D \<and> pending_in g D n = 0}
     \<and> (\<forall>n\<in>D. pending_in g D n = 0)"

lemma queue_ok_step:
  assumes g: "graph_ok g" and q: "queue_ok g D d (v # q)"
  shows "queue_ok g (insert v D) (fst (resolve (children g v) d q)) (snd (resolve (children g v) d q))"
proof -
  note C = graph_ok_children[OF g, of v]
  have v: "v \<in> set (vertices g)" "v \<notin> D" and d: "d = pending_in g D" and dq: "distinct (v # q)"
    and sq: "insert v (set q) = {n \<in> set (vertices g). n \<notin> D \<and> pending_in g D n = 0}"
    and D: "\<forall>n\<in>D. pending_in g D n = 0"
    using q by (auto simp: queue_ok_def)
  have kids: "pending_in g D n \<noteq> 0" if "n \<in> set (children g v)" for n
    using that v by (auto simp: pending_in_zero)
  have ge: "pending_in g D n \<ge> 0" for n by (simp add: pending_in_def)
  show ?thesis
    unfolding queue_ok_def resolve_parts[OF C(1)]
  proof (intro conjI)
    show "fst (\<lambda>n. d n - (if n \<in> set (children g v) then 1 else 0), q @ filter (\<lambda>n. d n = 1) (children g v))
        = pending_in g (insert v D)"
      by (simp add: pending_in_insert[OF v] d fun_eq_iff)
    show "distinct (snd (\<lambda>n. d n - (if n \<in> set (children g v) then 1 else 0 :: int), q @ filter (\<lambda>n. d n = 1) (children g v)))"
      using dq C(1) kids sq by (auto simp: d)
    show "set (snd (\<lambda>n. d n - (if n \<in> set (children g v) then 1 else 0 :: int), q @ filter (\<lambda>n. d n = 1) (children g v)))
        = {n \<in> set (vertices g). n \<notin> insert v D \<and> pending_in g (insert v D) n = 0}" (is "?L = ?R")
    proof (rule set_eqI)
      fix n
      have "n \<in> set q \<longleftrightarrow> n \<noteq> v \<and> n \<in> set (vertices g) \<and> n \<notin> D \<and> pending_in g D n = 0"
        using sq dq by auto
      then show "n \<in> ?L \<longleftrightarrow> n \<in> ?R"
        using kids[of n] C(2) D q v by (auto simp: pending_in_insert[OF v] d queue_ok_def)
    qed
    show "\<forall>n\<in>insert v D. pending_in g (insert v D) n = 0"
      using D kids sq by (auto simp: pending_in_insert[OF v])
  qed
qed

lemma topo_loop_resolves:
  assumes "graph_ok g" "queue_ok g D d q"
  shows "\<exists>xs. topo_loop g d q = Inr xs \<and> resolved_from g D xs
    \<and> (\<forall>n\<in>set (vertices g) - (D \<union> set xs). pending_in g (D \<union> set xs) n \<noteq> 0)"
  using assms
proof (induction g d q arbitrary: D rule: topo_loop.induct)
  case (1 g d)
  then show ?case by (auto simp: queue_ok_def)
next
  case (2 g d v q)
  have v: "v \<in> set (vertices g)" "v \<notin> D" "pending_in g D v = 0" using 2(3) by (auto simp: queue_ok_def)
  note m = map_of_vertex[OF v(1)]
  obtain xs where "topo_loop g (fst (resolve (children g v) d q)) (snd (resolve (children g v) d q)) = Inr xs"
    "resolved_from g (insert v D) xs"
    "\<forall>n\<in>set (vertices g) - (insert v D \<union> set xs). pending_in g (insert v D \<union> set xs) n \<noteq> 0"
    using 2(1)[OF m 2(2) queue_ok_step[OF 2(2,3)]] by blast
  then show ?case using v m by auto
qed

lemma resolved_from_order:
  "resolved_from g D xs \<Longrightarrow> distinct xs \<and> set xs \<subseteq> set (vertices g) - D
     \<and> sorted_wrt (\<lambda>x y. x \<notin> set (children g y)) xs"
proof (induction g D xs rule: resolved_from.induct)
  case (2 g D x xs)
  then have "distinct xs" "set xs \<subseteq> set (vertices g) - insert x D"
    "sorted_wrt (\<lambda>x y. x \<notin> set (children g y)) xs" "pending_in g D x = 0" "x \<in> set (vertices g)" "x \<notin> D"
    by auto
  then show ?case by (auto simp: pending_in_zero)
qed simp


definition position :: "'v list \<Rightarrow> 'v \<Rightarrow> nat" where
  "position xs u = length (takeWhile (\<lambda>w. w \<noteq> u) xs)"

lemma nth_position: "u \<in> set xs \<Longrightarrow> position xs u < length xs \<and> xs ! position xs u = u"
  by (induction xs) (auto simp: position_def)

lemma no_self_loop: "resolved_from g D xs \<Longrightarrow> x \<in> set xs \<Longrightarrow> x \<notin> set (children g x)"
  by (induction g D xs rule: resolved_from.induct) (auto simp: pending_in_zero)

lemma ordered_acyclic:
  assumes "graph_ok g" "resolved_from g D xs" "set xs = set (vertices g)"
  shows "acyclic (set (edges g))"
proof (rule acyclic_subset[OF wf_acyclic[OF wf_inv_image[OF wf_less_than]]])
  note srt = conjunct2[OF conjunct2[OF resolved_from_order[OF assms(2)]]]
  show "set (edges g) \<subseteq> inv_image less_than (position xs)"
  proof clarify
    fix u v assume e: "(u, v) \<in> set (edges g)"
    have "v \<in> set (vertices g)" using assms(1) e by (force simp: graph_ok_def)
    then have uv: "u \<in> set xs" "v \<in> set xs" "v \<in> set (children g u)"
      using assms e edge_iff[of g u v] edge_vertex[OF e] by (auto simp: graph_ok_def)
    have "\<not> position xs v < position xs u"
      using sorted_wrt_nth_less[OF srt, of "position xs v" "position xs u"] uv
        nth_position[OF uv(1)] nth_position[OF uv(2)] by auto
    moreover have "position xs v \<noteq> position xs u"
      using no_self_loop[OF assms(2) uv(1)] uv nth_position[OF uv(1)] nth_position[OF uv(2)] by metis
    ultimately show "(u, v) \<in> inv_image less_than (position xs)" by simp
  qed
qed

lemma acyclic_all_resolved:
  assumes "graph_ok g" "acyclic (set (edges g))"
    "\<forall>n\<in>set (vertices g) - S. pending_in g S n \<noteq> 0"
  shows "set (vertices g) \<subseteq> S"
proof (rule ccontr)
  assume "\<not> set (vertices g) \<subseteq> S"
  then obtain x where x: "x \<in> set (vertices g) - S" by blast
  have "wf (set (edges g))" using assms(2) by (simp add: finite_acyclic_wf)
  from wfE_min[OF this x] obtain z where z: "z \<in> set (vertices g) - S"
    "\<And>y. (y, z) \<in> set (edges g) \<Longrightarrow> y \<notin> set (vertices g) - S" by blast
  obtain u where "u \<in> set (vertices g) - S" "z \<in> set (children g u)"
    using assms(3) z(1) by (auto simp: pending_in_zero)
  then show False using z(2)[of u] edge_iff[of g u z] assms(1) by (auto simp: graph_ok_def)
qed

text \<open>
  Property C32. The topological order of a job graph always ends without an error; it yields vertices
  of the graph, none twice and none before a vertex it depends on, and it yields all of them exactly
  if the graph has no cycle: on a cycle it silently leaves vertices out.
\<close>

theorem topological_order:
  assumes "graph_ok g"
  shows "\<exists>xs. topological_sort g = Inr xs \<and> distinct xs \<and> set xs \<subseteq> set (vertices g)
    \<and> sorted_wrt (\<lambda>x y. (y, x) \<notin> set (edges g)) xs
    \<and> (set xs = set (vertices g) \<longleftrightarrow> acyclic (set (edges g)))"
proof -
  have dv: "distinct (vertices g)" using assms by (simp add: graph_ok_def)
  have roots: "set (root_vertices g) = {n \<in> set (vertices g). pending_in g {} n = 0}"
  proof -
    have "n \<in> set (concat (map snd g)) \<longleftrightarrow> (\<exists>u. (u, n) \<in> set (edges g))" for n
      by (force simp: edges_def)
    then show ?thesis
      using edge_iff[OF dv] edge_vertex[of _ _ g] by (auto simp: root_vertices_def pending_in_zero)
  qed
  have "queue_ok g {} (depends_per_node g) (root_vertices g)"
    using dv roots depends_count[OF assms] by (auto simp: queue_ok_def root_vertices_def)
  then obtain xs where xs: "topological_sort g = Inr xs" "resolved_from g {} xs"
    and rest: "\<forall>n\<in>set (vertices g) - set xs. pending_in g (set xs) n \<noteq> 0"
    using topo_loop_resolves[OF assms] by (force simp: topological_sort_def)
  note o1 = resolved_from_order[OF xs(2)]
  have "set xs = set (vertices g)" if "acyclic (set (edges g))"
    using acyclic_all_resolved[OF assms that rest] o1 by auto
  then have "set xs = set (vertices g) \<longleftrightarrow> acyclic (set (edges g))"
    using ordered_acyclic[OF assms xs(2)] by blast
  then show ?thesis using xs(1) o1 by (auto simp: edge_iff[OF dv])
qed

definition diamond :: "nat graph" where
  "diamond = add_edge 3 4 (add_edge 2 4 (add_edge 1 3 (add_edge 1 2 [])))"

theorem topological_order_witness:
  "topological_sort diamond = Inr [1, 2, 3, 4]
   \<and> (\<exists>xs. topological_sort diamond = Inr xs \<and> sorted_wrt (\<lambda>x y. (y, x) \<notin> set (edges diamond)) xs)"
proof -
  have "graph_ok diamond" by (simp add: diamond_def graph_ok_build)
  moreover have "topological_sort diamond = Inr [1, 2, 3, 4]" by code_simp
  ultimately show ?thesis using topological_order[of diamond] by auto
qed


section \<open>Delayables\<close>

datatype delayable_kind = Single | Chain nat nat | Group "nat list"

record delayable =
  d_kind :: delayable_kind
  d_graph :: "nat graph"

type_synonym dheap = "delayable list"

definition graph_of :: "dheap \<Rightarrow> nat \<Rightarrow> nat graph" where
  "graph_of h a = (if a < length h then d_graph (h ! a) else [])"

definition update_graph :: "nat \<Rightarrow> (nat graph \<Rightarrow> nat graph) \<Rightarrow> dheap \<Rightarrow> dheap" where
  "update_graph a f h = h[a := (h ! a)\<lparr>d_graph := f (d_graph (h ! a))\<rparr>]"

text \<open>The constructors return the heap with the new object, whose address is the old length.\<close>

definition new_delayable :: "dheap \<Rightarrow> dheap" where
  "new_delayable h = h @ [\<lparr>d_kind = Single, d_graph = add_vertex (length h) []\<rparr>]"

fun chain_links :: "nat \<Rightarrow> nat list \<Rightarrow> nat graph \<Rightarrow> nat graph" where
  "chain_links prev [] g = g"
| "chain_links prev (n # ns) g = chain_links n ns (add_edge prev n g)"

text \<open>An empty chain raises \<^verbatim>\<open>StopIteration\<close>.\<close>

definition new_chain :: "nat list \<Rightarrow> dheap \<Rightarrow> dheap option" where
  "new_chain ds h = (case ds of
      [] \<Rightarrow> None
    | d # ns \<Rightarrow> Some (h @ [\<lparr>d_kind = Chain d (last ds), d_graph = chain_links d ns (add_vertex d [])\<rparr>]))"

definition new_group :: "nat list \<Rightarrow> dheap \<Rightarrow> dheap" where
  "new_group ds h = h @ [\<lparr>d_kind = Group (remdups ds), d_graph = fold add_vertex ds []\<rparr>]"

definition on_done :: "nat \<Rightarrow> nat list \<Rightarrow> dheap \<Rightarrow> dheap" where
  "on_done a ds h = (case d_kind (h ! a) of
      Single \<Rightarrow> update_graph a (fold (add_edge a) ds) h
    | Chain first final \<Rightarrow> update_graph a (fold (add_edge final) ds) h
    | Group members \<Rightarrow> update_graph a (fold (\<lambda>parent. fold (add_edge parent) ds) members) h)"

text \<open>
  The jobs a delayable begins and ends with, \<open>_head\<close> and \<open>_tail\<close> in one function. The members of a
  chain or group are created before it, so the recursion goes to smaller addresses; the guards only
  state that.
\<close>

function ends :: "dheap \<Rightarrow> bool \<Rightarrow> nat \<Rightarrow> nat list" where
  "ends h front a = (if length h \<le> a then [] else case d_kind (h ! a) of
      Single \<Rightarrow> [a]
    | Chain first final \<Rightarrow>
        (if front then (if first < a then ends h False first else [])
         else (if final < a then ends h True final else []))
    | Group members \<Rightarrow> concat (map (\<lambda>m. if m < a then ends h front m else []) members))"
  by pat_completeness auto
termination by (relation "measure (\<lambda>(h, front, a). a)") auto

declare ends.simps [simp del]

definition head_of :: "dheap \<Rightarrow> nat \<Rightarrow> nat list" where "head_of h = ends h True"
definition tail_of :: "dheap \<Rightarrow> nat \<Rightarrow> nat list" where "tail_of h = ends h False"

text \<open>\<open>_merge_graph\<close>: the tails of a vertex are connected with the heads of its neighbours.\<close>

definition merge_vertex :: "dheap \<Rightarrow> nat \<times> nat list \<Rightarrow> nat graph \<Rightarrow> nat graph" where
  "merge_vertex h = (\<lambda>(v, ns). fold (\<lambda>t. graph_add t (concat (map (head_of h) ns))) (tail_of h v))"

definition merge_graph :: "dheap \<Rightarrow> nat graph \<Rightarrow> nat graph \<Rightarrow> nat graph" where
  "merge_graph h g acc = fold (merge_vertex h) g acc"

definition visit :: "dheap \<Rightarrow> nat \<Rightarrow> nat graph \<Rightarrow> nat graph" where
  "visit h a acc = fold (\<lambda>v. merge_graph h (graph_of h v)) (vertices (graph_of h a)) acc"

text \<open>
  The breadth-first walk over the graphs that the vertices own. Every turn takes a graph off the
  queue and either sees it for the first time or only shortens the queue, so it ends even when
  \<open>on_done\<close> has made the delayables refer to each other in a circle.
\<close>

definition unseen :: "dheap \<Rightarrow> nat list \<Rightarrow> nat" where
  "unseen h seen = card ({..<length h} - set seen)"

lemma unseen_less: "a \<notin> set seen \<Longrightarrow> a < length h \<Longrightarrow> unseen h (a # seen) < unseen h seen"
  unfolding unseen_def by (rule psubset_card_mono) auto

function connect_loop :: "dheap \<Rightarrow> nat list \<Rightarrow> nat list \<Rightarrow> nat graph \<Rightarrow> nat graph" where
  "connect_loop h seen [] acc = acc"
| "connect_loop h seen (a # q) acc =
     (if a \<in> set seen \<or> length h \<le> a then connect_loop h seen q acc
      else connect_loop h (a # seen) (q @ vertices (graph_of h a)) (visit h a acc))"
  by pat_completeness auto
termination
  by (relation "measures [\<lambda>(h, seen, q, acc). unseen h seen, \<lambda>(h, seen, q, acc). length q]")
    (auto simp: unseen_less)

definition connect_graphs :: "dheap \<Rightarrow> nat \<Rightarrow> nat graph" where
  "connect_graphs h a = connect_loop h [] [a] (merge_graph h (graph_of h a) [])"


section \<open>What the connected graph is\<close>

definition owns :: "dheap \<Rightarrow> (nat \<times> nat) set" where
  "owns h = {(a, b). b \<in> set (vertices (graph_of h a))}"

definition reached :: "dheap \<Rightarrow> nat \<Rightarrow> nat set" where
  "reached h a = (owns h)\<^sup>* `` {a}"

text \<open>The jobs and dependencies that the graphs of a set of delayables stand for.\<close>

definition jobs_in :: "dheap \<Rightarrow> nat set \<Rightarrow> nat set" where
  "jobs_in h A = {x. \<exists>a\<in>A. \<exists>v\<in>set (vertices (graph_of h a)). x \<in> set (tail_of h v)}"

definition deps_in :: "dheap \<Rightarrow> nat set \<Rightarrow> (nat \<times> nat) set" where
  "deps_in h A = {(x, y). \<exists>a\<in>A. \<exists>(v, n)\<in>set (edges (graph_of h a)). x \<in> set (tail_of h v) \<and> y \<in> set (head_of h n)}"

lemma in_Un [simp]:
  "jobs_in h (A \<union> B) = jobs_in h A \<union> jobs_in h B" "deps_in h (A \<union> B) = deps_in h A \<union> deps_in h B"
  "jobs_in h {} = {}" "deps_in h {} = {}"
  by (auto simp: jobs_in_def deps_in_def)

lemma fold_add:
  "set (edges (fold (\<lambda>t. graph_add t hs) ts acc)) = set ts \<times> set hs \<union> set (edges acc)"
  "set (vertices (fold (\<lambda>t. graph_add t hs) ts acc)) = set ts \<union> set (vertices acc)"
  by (induction ts arbitrary: acc) auto

lemma merge_fold:
  "set (edges (fold (merge_vertex h) g acc)) = {(x, y). \<exists>(v, n)\<in>set (edges g). x \<in> set (tail_of h v) \<and> y \<in> set (head_of h n)} \<union> set (edges acc)
   \<and> set (vertices (fold (merge_vertex h) g acc)) = {x. \<exists>v\<in>set (vertices g). x \<in> set (tail_of h v)} \<union> set (vertices acc)"
proof (induction g arbitrary: acc)
  case (Cons e g)
  obtain v ns where e: "e = (v, ns)" by (cases e)
  show ?case
    unfolding e fold_simps comp_def conjunct1[OF Cons] conjunct2[OF Cons] edges_Cons vertices_Cons
    by (simp add: merge_vertex_def fold_add) blast
qed simp

lemma merge_graph_sets:
  "set (edges (merge_graph h (graph_of h a) acc)) = deps_in h {a} \<union> set (edges acc)"
  "set (vertices (merge_graph h (graph_of h a) acc)) = jobs_in h {a} \<union> set (vertices acc)"
  by (simp_all add: merge_graph_def merge_fold deps_in_def jobs_in_def)

lemma merge_all:
  "set (edges (fold (\<lambda>v. merge_graph h (graph_of h v)) vs acc)) = deps_in h (set vs) \<union> set (edges acc)
   \<and> set (vertices (fold (\<lambda>v. merge_graph h (graph_of h v)) vs acc)) = jobs_in h (set vs) \<union> set (vertices acc)"
proof (induction vs arbitrary: acc)
  case (Cons v vs)
  have "set (v # vs) = {v} \<union> set vs" by simp
  then have ins: "deps_in h (set (v # vs)) = deps_in h {v} \<union> deps_in h (set vs)"
    "jobs_in h (set (v # vs)) = jobs_in h {v} \<union> jobs_in h (set vs)" by (simp_all only: in_Un)
  show ?case
    unfolding ins fold_simps comp_def conjunct1[OF Cons] conjunct2[OF Cons] merge_graph_sets by auto
qed simp

definition owned_by :: "dheap \<Rightarrow> nat set \<Rightarrow> nat set" where
  "owned_by h S = (\<Union>a\<in>S. set (vertices (graph_of h a)))"

lemma owned_simps [simp]: "owned_by h (insert a S) = set (vertices (graph_of h a)) \<union> owned_by h S" "owned_by h {} = {}"
  by (simp_all add: owned_by_def)

lemma reach_queue:
  "S \<subseteq> (owns h)\<^sup>* `` set (q @ vertices (graph_of h a)) \<Longrightarrow> insert a S \<subseteq> (owns h)\<^sup>* `` set (a # q)"
proof clarify
  fix x assume S: "S \<subseteq> (owns h)\<^sup>* `` set (q @ vertices (graph_of h a))" "x \<in> insert a S"
  have "(a, x) \<in> (owns h)\<^sup>*" if "v \<in> set (vertices (graph_of h a))" "(v, x) \<in> (owns h)\<^sup>*" for v
    using that by (intro converse_rtrancl_into_rtrancl[of a v]) (auto simp: owns_def)
  with S show "x \<in> (owns h)\<^sup>* `` set (a # q)" by auto
qed

lemma connect_loop_sets:
  assumes "owned_by h (set seen) \<subseteq> set seen \<union> set q \<union> {a. length h \<le> a}"
  shows "\<exists>S. set (edges (connect_loop h seen q acc)) = deps_in h (owned_by h S) \<union> set (edges acc)
    \<and> set (vertices (connect_loop h seen q acc)) = jobs_in h (owned_by h S) \<union> set (vertices acc)
    \<and> S \<subseteq> (owns h)\<^sup>* `` set q
    \<and> set q \<subseteq> set seen \<union> S \<union> {a. length h \<le> a}
    \<and> owned_by h (set seen \<union> S) \<subseteq> set seen \<union> S \<union> {a. length h \<le> a}"
  using assms
proof (induction h seen q acc rule: connect_loop.induct)
  case (1 h seen acc)
  then show ?case by (intro exI[of _ "{}"]) simp
next
  case (2 h seen a q acc)
  show ?case
  proof (cases "a \<in> set seen \<or> length h \<le> a")
    case True
    have "owned_by h (set seen) \<subseteq> set seen \<union> set q \<union> {a. length h \<le> a}" using 2(3) True by auto
    from 2(1)[OF True this] show ?thesis using True by fastforce
  next
    case False
    have "owned_by h (set (a # seen)) \<subseteq> set (a # seen) \<union> set (q @ vertices (graph_of h a)) \<union> {a. length h \<le> a}"
      using 2(3) by auto
    from 2(2)[OF False this] obtain S where S:
      "set (edges (connect_loop h (a # seen) (q @ vertices (graph_of h a)) (visit h a acc))) = deps_in h (owned_by h S) \<union> set (edges (visit h a acc))"
      "set (vertices (connect_loop h (a # seen) (q @ vertices (graph_of h a)) (visit h a acc))) = jobs_in h (owned_by h S) \<union> set (vertices (visit h a acc))"
      "S \<subseteq> (owns h)\<^sup>* `` set (q @ vertices (graph_of h a))"
      "set (q @ vertices (graph_of h a)) \<subseteq> set (a # seen) \<union> S \<union> {a. length h \<le> a}"
      "owned_by h (set (a # seen) \<union> S) \<subseteq> set (a # seen) \<union> S \<union> {a. length h \<le> a}" by blast
    show ?thesis
    proof (intro exI[of _ "insert a S"] conjI)
      show "set (edges (connect_loop h seen (a # q) acc)) = deps_in h (owned_by h (insert a S)) \<union> set (edges acc)"
        using False by (simp only: connect_loop.simps if_False S(1)) (auto simp: visit_def merge_all)
      show "set (vertices (connect_loop h seen (a # q) acc)) = jobs_in h (owned_by h (insert a S)) \<union> set (vertices acc)"
        using False by (simp only: connect_loop.simps if_False S(2)) (auto simp: visit_def merge_all)
      show "insert a S \<subseteq> (owns h)\<^sup>* `` set (a # q)" by (rule reach_queue[OF S(3)])
      show "set (a # q) \<subseteq> set seen \<union> insert a S \<union> {a. length h \<le> a}" using S(4) by auto
      show "owned_by h (set seen \<union> insert a S) \<subseteq> set seen \<union> insert a S \<union> {a. length h \<le> a}" using S(5) by simp
    qed
  qed
qed

text \<open>The connected graph is exactly what the graphs reachable from the delayed object stand for.\<close>

lemma connect_graphs_sets:
  "set (edges (connect_graphs h a)) = deps_in h (reached h a)"
  "set (vertices (connect_graphs h a)) = jobs_in h (reached h a)"
proof -
  obtain S where S:
    "set (edges (connect_graphs h a)) = deps_in h (owned_by h S) \<union> deps_in h {a}"
    "set (vertices (connect_graphs h a)) = jobs_in h (owned_by h S) \<union> jobs_in h {a}"
    "S \<subseteq> reached h a" "a \<in> S \<union> {a. length h \<le> a}" "owned_by h S \<subseteq> S \<union> {a. length h \<le> a}"
    using connect_loop_sets[of h "[]" "[a]" "merge_graph h (graph_of h a) []"]
    unfolding connect_graphs_def merge_graph_sets reached_def by (auto simp del: connect_loop.simps)
  have none: "set (vertices (graph_of h b)) = {}" if "length h \<le> b" for b
    using that by (simp add: graph_of_def vertices_def)
  have sub: "b \<in> insert a (owned_by h S)" if "(a, b) \<in> (owns h)\<^sup>*" for b
    using that
  proof (induction rule: rtrancl_induct)
    case (step b c)
    have c: "c \<in> set (vertices (graph_of h b))" using step(2) by (simp add: owns_def)
    then have "b < length h" using none[of b] by force
    then have "b \<in> S" using step(3) S(4,5) by auto
    then show ?case using c by (auto simp: owned_by_def)
  qed simp
  have "owned_by h S \<subseteq> reached h a"
  proof
    fix x assume "x \<in> owned_by h S"
    then obtain b where "b \<in> S" "(b, x) \<in> owns h" by (auto simp: owned_by_def owns_def)
    then show "x \<in> reached h a" using S(3) unfolding reached_def by (meson Image_singleton_iff rtrancl.rtrancl_into_rtrancl subsetD)
  qed
  then have "reached h a = owned_by h S \<union> {a}" using sub by (auto simp: reached_def)
  then show "set (edges (connect_graphs h a)) = deps_in h (reached h a)"
    "set (vertices (connect_graphs h a)) = jobs_in h (reached h a)" using S(1,2) by (simp_all only: in_Un)
qed


section \<open>Well-formed heaps\<close>

definition kind_ok :: "nat \<Rightarrow> delayable \<Rightarrow> bool" where
  "kind_ok a d \<longleftrightarrow> (case d_kind d of
      Single \<Rightarrow> a \<in> set (vertices (d_graph d))
    | Chain first final \<Rightarrow> first < a \<and> final < a \<and> {first, final} \<subseteq> set (vertices (d_graph d))
    | Group members \<Rightarrow> set members \<subseteq> {..<a} \<inter> set (vertices (d_graph d)))"

definition obj_ok :: "nat \<Rightarrow> nat \<Rightarrow> delayable \<Rightarrow> bool" where
  "obj_ok n a d \<longleftrightarrow> graph_ok (d_graph d) \<and> set (vertices (d_graph d)) \<subseteq> {..<n} \<and> kind_ok a d"

definition heap_ok :: "dheap \<Rightarrow> bool" where
  "heap_ok h \<longleftrightarrow> (\<forall>a<length h. obj_ok (length h) a (h ! a))"

lemma obj_ok_Suc: "obj_ok n a d \<Longrightarrow> obj_ok (Suc n) a d"
  by (simp add: obj_ok_def lessThan_Suc subset_insertI2)

lemma heap_ok_append:
  assumes "heap_ok h" "obj_ok (Suc (length h)) (length h) d" shows "heap_ok (h @ [d])"
  using assms by (auto simp: heap_ok_def nth_append less_Suc_eq intro: obj_ok_Suc)

lemma graph_ok_adds:
  "graph_ok g \<Longrightarrow> graph_ok (fold add_vertex ds g) \<and> set (vertices (fold add_vertex ds g)) = set ds \<union> set (vertices g)"
  by (induction ds arbitrary: g) (auto simp: graph_ok_build)

lemma graph_ok_edges:
  "graph_ok g \<Longrightarrow> graph_ok (fold (add_edge p) ds g)
     \<and> set (vertices (fold (add_edge p) ds g)) = (if ds = [] then {} else insert p (set ds)) \<union> set (vertices g)"
  by (induction ds arbitrary: g) (auto simp: graph_ok_build)

lemma graph_ok_group:
  "graph_ok g \<Longrightarrow> graph_ok (fold (\<lambda>p. fold (add_edge p) ds) ms g)
     \<and> set (vertices (fold (\<lambda>p. fold (add_edge p) ds) ms g)) \<subseteq> set ms \<union> set ds \<union> set (vertices g)
     \<and> set (vertices g) \<subseteq> set (vertices (fold (\<lambda>p. fold (add_edge p) ds) ms g))"
proof (induction ms arbitrary: g)
  case (Cons m ms)
  from Cons.IH[of "fold (add_edge m) ds g"] graph_ok_edges[OF Cons.prems, of m ds]
  show ?case by (auto split: if_splits)
qed simp

lemma chain_links_ok:
  "graph_ok g \<Longrightarrow> graph_ok (chain_links prev ns g)
     \<and> set (vertices (chain_links prev ns g)) = (if ns = [] then {} else insert prev (set ns)) \<union> set (vertices g)"
  by (induction prev ns g rule: chain_links.induct) (auto simp: graph_ok_build)

lemma heap_ok_update:
  assumes "heap_ok h" "a < length h" "graph_ok (f (d_graph (h ! a)))"
    "set (vertices (d_graph (h ! a))) \<subseteq> set (vertices (f (d_graph (h ! a))))"
    "set (vertices (f (d_graph (h ! a)))) \<subseteq> {..<length h}"
  shows "heap_ok (update_graph a f h)"
proof -
  have "kind_ok a (h ! a)" using assms by (auto simp: heap_ok_def obj_ok_def)
  then have "kind_ok a ((h ! a)\<lparr>d_graph := f (d_graph (h ! a))\<rparr>)"
    using assms(4) by (auto simp: kind_ok_def split: delayable_kind.splits)
  then show ?thesis using assms by (auto simp: heap_ok_def obj_ok_def update_graph_def nth_list_update)
qed

text \<open>The constructors and \<open>on_done\<close>, applied to objects of the heap, keep it well-formed.\<close>

lemma heap_ok_new:
  assumes "heap_ok h"
  shows "heap_ok (new_delayable h)"
    "set ds \<subseteq> {..<length h} \<Longrightarrow> heap_ok (new_group ds h)"
    "set ds \<subseteq> {..<length h} \<Longrightarrow> new_chain ds h = Some h' \<Longrightarrow> heap_ok h'"
proof -
  show "heap_ok (new_delayable h)"
    unfolding new_delayable_def
    by (rule heap_ok_append[OF assms]) (simp add: obj_ok_def kind_ok_def graph_ok_build)
  show "heap_ok (new_group ds h)" if "set ds \<subseteq> {..<length h}"
    unfolding new_group_def
    using that graph_ok_adds[OF graph_ok_Nil, of ds]
    by (intro heap_ok_append[OF assms]) (auto simp: obj_ok_def kind_ok_def)
  show "heap_ok h'" if d: "set ds \<subseteq> {..<length h}" "new_chain ds h = Some h'"
  proof (cases ds)
    case (Cons d ns)
    have g: "graph_ok (add_vertex d [])" by (simp add: graph_ok_build)
    have "last ds = (if ns = [] then d else last ns)" "ns \<noteq> [] \<Longrightarrow> last ns \<in> set ns" using Cons by simp_all
    then show ?thesis
      using d Cons chain_links_ok[OF g, of d ns]
      by (auto simp: new_chain_def intro!: heap_ok_append[OF assms]) (auto simp: obj_ok_def kind_ok_def split: if_splits)
  qed (use d in \<open>simp add: new_chain_def\<close>)
qed

lemma heap_ok_on_done:
  assumes "heap_ok h" "a < length h" "set ds \<subseteq> {..<length h}"
  shows "heap_ok (on_done a ds h)"
proof -
  have n: "graph_ok (d_graph (h ! a))" "set (vertices (d_graph (h ! a))) \<subseteq> {..<length h}" "kind_ok a (h ! a)"
    using assms by (auto simp: heap_ok_def obj_ok_def)
  show ?thesis
  proof (cases "d_kind (h ! a)")
    case Single
    then show ?thesis using n(2) assms graph_ok_edges[OF n(1), of a ds]
      by (auto simp: on_done_def intro!: heap_ok_update split: if_splits)
  next
    case (Chain f l)
    then show ?thesis using n(2,3) assms graph_ok_edges[OF n(1), of l ds]
      by (auto simp: on_done_def kind_ok_def intro!: heap_ok_update split: if_splits)
  next
    case (Group ms)
    then show ?thesis using n(2,3) assms graph_ok_group[OF n(1), of ds ms]
      by (fastforce simp: on_done_def kind_ok_def intro!: heap_ok_update)
  qed
qed

lemma ends_reached:
  "heap_ok h \<Longrightarrow> x \<in> set (ends h front a) \<Longrightarrow> x < length h \<and> d_kind (h ! x) = Single \<and> (a, x) \<in> (owns h)\<^sup>*"
proof (induction h front a rule: ends.induct)
  case (1 h front a)
  have a: "a < length h" using 1(5) by (auto simp: ends.simps[of h front a] split: if_splits)
  have k: "kind_ok a (h ! a)" using 1(4) a by (auto simp: heap_ok_def obj_ok_def)
  have own: "(a, b) \<in> owns h" if "b \<in> set (vertices (d_graph (h ! a)))" for b
    using that a by (simp add: owns_def graph_of_def)
  note na = leD[OF _ , of _ "length h"]
  show ?case
  proof (cases "d_kind (h ! a)")
    case Single
    then show ?thesis using 1(5) a by (auto simp: ends.simps[of h front a])
  next
    case (Chain f l)
    have fl: "f < a" "l < a" "(a, f) \<in> owns h" "(a, l) \<in> owns h" using k Chain own by (auto simp: kind_ok_def)
    consider "front" "x \<in> set (ends h False f)" | "\<not> front" "x \<in> set (ends h True l)"
      using 1(5) a Chain fl by (auto simp: ends.simps[of h front a] split: if_splits)
    then show ?thesis
    proof cases
      case 1
      with "1.IH"(1)[OF _ Chain _ fl(1)] a fl show ?thesis using \<open>heap_ok h\<close>
        by (meson converse_rtrancl_into_rtrancl leD)
    next
      case 2
      with "1.IH"(2)[OF _ Chain _ fl(2)] a fl show ?thesis using \<open>heap_ok h\<close>
        by (meson converse_rtrancl_into_rtrancl leD)
    qed
  next
    case (Group ms)
    obtain m where m: "m \<in> set ms" "m < a" "x \<in> set (ends h front m)"
      using 1(5) a Group by (auto simp: ends.simps[of h front a] split: if_splits)
    have "(a, m) \<in> owns h" using k Group m own by (auto simp: kind_ok_def)
    then show ?thesis using "1.IH"(3)[OF _ Group m(1,2) \<open>heap_ok h\<close> m(3)] a
      by (meson converse_rtrancl_into_rtrancl leD)
  qed
qed

text \<open>No vertex and no edge is stored twice.\<close>

definition built :: "'v graph \<Rightarrow> bool" where
  "built g \<longleftrightarrow> distinct (vertices g) \<and> list_all (\<lambda>(v, ns). distinct ns) g"

lemma fold_keeps: "P acc \<Longrightarrow> (\<And>x acc. P acc \<Longrightarrow> P (f x acc)) \<Longrightarrow> P (fold f xs acc)"
  by (induction xs arbitrary: acc) auto

lemma built_add: "built g \<Longrightarrow> built (graph_add v ns g)"
  by (simp add: built_def distinct_add distinct_children_add)

lemma built_merge: "built acc \<Longrightarrow> built (merge_graph h g acc)"
  unfolding merge_graph_def
  by (rule fold_keeps[where P = built])
    (auto simp: merge_vertex_def split: prod.split intro: fold_keeps[where P = built] built_add)

lemma built_connect: "built acc \<Longrightarrow> built (connect_loop h seen q acc)"
proof (induction h seen q acc rule: connect_loop.induct)
  case (2 h seen a q acc)
  have "built (visit h a acc)" unfolding visit_def by (rule fold_keeps[where P = built, OF 2(3)]) (rule built_merge)
  with 2 show ?case by simp
qed simp


definition single_jobs :: "dheap \<Rightarrow> nat \<Rightarrow> nat set" where
  "single_jobs h a = {x \<in> reached h a. x < length h \<and> d_kind (h ! x) = Single}"

lemma ends_single [simp]: "a < length h \<Longrightarrow> d_kind (h ! a) = Single \<Longrightarrow> ends h front a = [a]"
  by (simp add: ends.simps[of h front a])

lemma reached_trans: "b \<in> reached h a \<Longrightarrow> (b, c) \<in> (owns h)\<^sup>* \<Longrightarrow> c \<in> reached h a"
  by (auto simp: reached_def)

lemma jobs_in_single: "heap_ok h \<Longrightarrow> jobs_in h (reached h a) = single_jobs h a"
proof (intro equalityI subsetI)
  assume h: "heap_ok h"
  fix x
  show "x \<in> single_jobs h a" if j: "x \<in> jobs_in h (reached h a)"
  proof -
    obtain b v where b: "b \<in> reached h a" "v \<in> set (vertices (graph_of h b))" "x \<in> set (ends h False v)"
      using j by (auto simp: jobs_in_def tail_of_def)
    have "v \<in> reached h a" by (rule reached_trans[OF b(1)]) (use b(2) in \<open>auto simp: owns_def\<close>)
    then show ?thesis using ends_reached[OF h b(3)] by (auto simp: single_jobs_def dest: reached_trans)
  qed
  show "x \<in> jobs_in h (reached h a)" if "x \<in> single_jobs h a"
  proof -
    have x: "x \<in> reached h a" "x < length h" "d_kind (h ! x) = Single" using that by (auto simp: single_jobs_def)
    then have "x \<in> set (vertices (graph_of h x))"
      using h by (auto simp: heap_ok_def obj_ok_def kind_ok_def graph_of_def)
    then show ?thesis using x by (auto simp: jobs_in_def tail_of_def intro!: bexI[of _ x])
  qed
qed

lemma connected_graph_sets:
  assumes "heap_ok h"
  shows "graph_ok (connect_graphs h a) \<and> set (vertices (connect_graphs h a)) = single_jobs h a
    \<and> set (edges (connect_graphs h a)) = deps_in h (reached h a)"
proof -
  have "built (connect_graphs h a)"
    unfolding connect_graphs_def by (intro built_connect built_merge) (simp add: built_def)
  moreover have "y \<in> single_jobs h a" if "(x, y) \<in> deps_in h (reached h a)" for x y
  proof -
    have "\<exists>b\<in>reached h a. \<exists>v n. (v, n) \<in> set (edges (graph_of h b)) \<and> y \<in> set (ends h True n)"
      using that unfolding deps_in_def head_of_def by fast
    then obtain b v n where b: "b \<in> reached h a" "(v, n) \<in> set (edges (graph_of h b))" "y \<in> set (ends h True n)"
      by blast
    have "b < length h" using b(2) by (auto simp: graph_of_def split: if_splits)
    then have "n \<in> set (vertices (graph_of h b))"
      using b(2) assms by (force simp: heap_ok_def obj_ok_def graph_ok_def graph_of_def)
    then have "n \<in> reached h a" by (intro reached_trans[OF b(1)]) (auto simp: owns_def)
    with ends_reached[OF assms b(3)] show ?thesis by (auto simp: single_jobs_def dest: reached_trans)
  qed
  ultimately show ?thesis
    using connect_graphs_sets[of h a] jobs_in_single[OF assms, of a] by (auto simp: graph_ok_def built_def)
qed

lemma connected_graph_ok: "heap_ok h \<Longrightarrow> graph_ok (connect_graphs h a)"
  using connected_graph_sets by blast

text \<open>A group that depends on a group: every job of the second one waits for all jobs of the first.\<close>

definition two_groups :: dheap where
  "two_groups = on_done 2 [5] (new_group [3, 4] (new_delayable (new_delayable
     (new_group [0, 1] (new_delayable (new_delayable []))))))"

lemma two_groups_ok: "heap_ok two_groups"
proof -
  let ?h = "new_group [0, 1] (new_delayable (new_delayable []))"
  have new: "heap_ok (new_delayable (new_delayable h)) \<and> length (new_delayable (new_delayable h)) = Suc (Suc (length h))"
    if "heap_ok h" for h
    using heap_ok_new(1)[OF heap_ok_new(1)[OF that]] by (simp add: new_delayable_def)
  have grp: "heap_ok (new_group ds h) \<and> length (new_group ds h) = Suc (length h)"
    if "heap_ok h" "set ds \<subseteq> {..<length h}" for h ds using that heap_ok_new(2) by (simp add: new_group_def)
  have "heap_ok []" by (simp add: heap_ok_def)
  then have h: "heap_ok ?h" "length ?h = 3" using new[of "[]"] grp[of "new_delayable (new_delayable [])" "[0, 1]"] by simp_all
  then have "heap_ok (new_group [3, 4] (new_delayable (new_delayable ?h)))"
    "length (new_group [3, 4] (new_delayable (new_delayable ?h))) = 6"
    using new[of ?h] grp[of "new_delayable (new_delayable ?h)" "[3, 4]"] by simp_all
  then show ?thesis unfolding two_groups_def by (intro heap_ok_on_done) simp_all
qed

text \<open>
  A chain begins with the tails of its first member and ends with the heads of its last one. With a
  chain as first member that is the wrong end: after
  \<^verbatim>\<open>x.on_done(chain(chain(a, b), c))\<close> only the job \<open>b\<close> waits for \<open>x\<close>, and \<open>a\<close> is a root.
\<close>

definition nested_chain :: dheap where
  "nested_chain = on_done 5 [4] (new_delayable (the (new_chain [2, 3] (new_delayable (the
     (new_chain [0, 1] (new_delayable (new_delayable []))))))))"

lemma nested_chain_starts_early:
  "edges (connect_graphs nested_chain 5) = [(5, 1), (1, 3), (0, 1)] \<and> root_vertices (connect_graphs nested_chain 5) = [5, 0]"
  by (rule conjI; code_simp)

section \<open>Splitting a recordset\<close>

text \<open>
  \<open>split\<close>: the batches \<open>recordset[index : index + size]\<close>; \<open>range\<close> with the step 0 raises.
\<close>

definition split_batches :: "'r list \<Rightarrow> nat \<Rightarrow> py_error + 'r list list" where
  "split_batches rs k = (if k = 0 then Inl ValueError
     else Inr (map (\<lambda>i. take k (drop (i * k) rs)) [0..<(length rs + k - 1) div k]))"

lemma batches_prefix:
  "concat (map (\<lambda>i. take k (drop (i * k) rs)) [0..<n]) = take (n * k) rs"
  by (induction n) (simp_all add: take_add[symmetric] add.commute)

lemma split_partitions:
  assumes "0 < k"
  shows "\<exists>bs. split_batches rs k = Inr bs \<and> concat bs = rs \<and> list_all (\<lambda>b. b \<noteq> [] \<and> length b \<le> k) bs"
proof -
  let ?n = "(length rs + k - 1) div k"
  have "length rs \<le> ?n * k"
    using assms div_mult_mod_eq[of "length rs + k - 1" k] mod_less_divisor[OF assms, of "length rs + k - 1"] by linarith
  moreover have "i * k < length rs" if "i < ?n" for i
  proof -
    have "Suc i * k \<le> ?n * k" using that by (intro mult_le_mono1) simp
    also have "\<dots> \<le> length rs + k - 1" by (rule div_times_less_eq_dividend)
    finally show ?thesis using assms by simp
  qed
  ultimately show ?thesis
    using assms by (intro exI[of _ "map (\<lambda>i. take k (drop (i * k) rs)) [0..<?n]"])
      (auto simp: split_batches_def batches_prefix list_all_iff not_le)
qed

end
