(* ===== verification/JobWaits.thy ===== *)
theory JobWaits
  imports JobGraph
begin

text \<open>
  What the jobs of a delayed graph wait for, said of the calls of a program (\<^verbatim>\<open>delayable\<close>, \<^verbatim>\<open>chain\<close>,
  \<^verbatim>\<open>group\<close>, \<^verbatim>\<open>on_done\<close>) and not of the graphs that the objects of \<^verbatim>\<open>queue_job/delay.py\<close> keep:
  the members of a chain follow each other, and what is handed to \<open>on_done\<close> follows the object. The
  theorem says when the connected graph of \<^verbatim>\<open>JobGraph\<close> is just that.
\<close>

section \<open>Programs that build a graph\<close>

text \<open>Objects are named in the order of their creation; a call can only name objects that exist.\<close>

datatype build_step = MakeJob | MakeChain "nat list" | MakeGroup "nat list" | OnDone nat "nat list"

definition build :: "build_step \<Rightarrow> dheap \<Rightarrow> dheap option" where
  "build e h = (case e of
      MakeJob \<Rightarrow> Some (new_delayable h)
    | MakeChain ds \<Rightarrow> if list_all (\<lambda>d. d < length h) ds then new_chain ds h else None
    | MakeGroup ds \<Rightarrow> if list_all (\<lambda>d. d < length h) ds then Some (new_group ds h) else None
    | OnDone a ds \<Rightarrow> if list_all (\<lambda>d. d < length h) (a # ds) then Some (on_done a ds h) else None)"

fun build_all :: "build_step list \<Rightarrow> dheap \<Rightarrow> dheap option" where
  "build_all [] h = Some h"
| "build_all (e # es) h = (case build e h of None \<Rightarrow> None | Some h1 \<Rightarrow> build_all es h1)"

lemma build_all_snoc:
  "build_all (es @ [e]) h = (case build_all es h of None \<Rightarrow> None | Some h1 \<Rightarrow> build e h1)"
  by (induction es arbitrary: h) (simp_all split: option.split)

section \<open>What the calls declare\<close>

definition makes :: "build_step \<Rightarrow> bool" where
  "makes e = (case e of OnDone a ds \<Rightarrow> False | _ \<Rightarrow> True)"

definition made :: "build_step list \<Rightarrow> build_step list" where
  "made es = filter makes es"

definition followers :: "build_step list \<Rightarrow> nat \<Rightarrow> nat list" where
  "followers es b = concat (map (\<lambda>e. case e of OnDone a ds \<Rightarrow> if a = b then ds else [] | _ \<Rightarrow> []) es)"

definition members :: "build_step \<Rightarrow> nat list" where
  "members e = (case e of MakeChain ds \<Rightarrow> ds | MakeGroup ds \<Rightarrow> ds | _ \<Rightarrow> [])"

text \<open>The jobs an object starts with and the jobs it ends with.\<close>

inductive first_job :: "build_step list \<Rightarrow> nat \<Rightarrow> nat \<Rightarrow> bool" for es where
  "b < length (made es) \<Longrightarrow> made es ! b = MakeJob \<Longrightarrow> first_job es b b"
| "b < length (made es) \<Longrightarrow> made es ! b = MakeChain ds \<Longrightarrow> first_job es (hd ds) x \<Longrightarrow> first_job es b x"
| "b < length (made es) \<Longrightarrow> made es ! b = MakeGroup ds \<Longrightarrow> d \<in> set ds \<Longrightarrow> first_job es d x \<Longrightarrow> first_job es b x"

inductive last_job :: "build_step list \<Rightarrow> nat \<Rightarrow> nat \<Rightarrow> bool" for es where
  "b < length (made es) \<Longrightarrow> made es ! b = MakeJob \<Longrightarrow> last_job es b b"
| "b < length (made es) \<Longrightarrow> made es ! b = MakeChain ds \<Longrightarrow> last_job es (last ds) x \<Longrightarrow> last_job es b x"
| "b < length (made es) \<Longrightarrow> made es ! b = MakeGroup ds \<Longrightarrow> d \<in> set ds \<Longrightarrow> last_job es d x \<Longrightarrow> last_job es b x"

text \<open>An object that is a chain or a group with a chain inside.\<close>

inductive holds_chain :: "build_step list \<Rightarrow> nat \<Rightarrow> bool" for es where
  "b < length (made es) \<Longrightarrow> made es ! b = MakeChain ds \<Longrightarrow> holds_chain es b"
| "b < length (made es) \<Longrightarrow> made es ! b = MakeGroup ds \<Longrightarrow> d \<in> set ds \<Longrightarrow> holds_chain es d \<Longrightarrow> holds_chain es b"

inductive_simps first_job_simps: "first_job es b x"
inductive_simps last_job_simps: "last_job es b x"
inductive_simps holds_chain_simps: "holds_chain es b"

text \<open>No chain begins or ends with a chain, and no group is empty.\<close>

definition plain :: "build_step list \<Rightarrow> bool" where
  "plain es \<longleftrightarrow> list_all (\<lambda>e. case e of
      MakeChain ds \<Rightarrow> \<not> holds_chain es (hd ds) \<and> \<not> holds_chain es (last ds)
    | MakeGroup ds \<Rightarrow> ds \<noteq> []
    | _ \<Rightarrow> True) (made es)"

definition parts :: "build_step list \<Rightarrow> (nat \<times> nat) set" where
  "parts es = {(b, d). b < length (made es) \<and> d \<in> set (members (made es ! b)) \<union> set (followers es b)}"

definition involved :: "build_step list \<Rightarrow> nat \<Rightarrow> nat set" where
  "involved es a = (parts es)\<^sup>* `` {a}"

text \<open>\<open>y\<close> waits for \<open>x\<close> because of the object \<open>b\<close>.\<close>

definition waits :: "build_step list \<Rightarrow> nat \<Rightarrow> nat \<Rightarrow> nat \<Rightarrow> bool" where
  "waits es b x y \<longleftrightarrow>
     (b < length (made es)
      \<and> (\<exists>ds. made es ! b = MakeChain ds \<and> (\<exists>(c, d)\<in>set (zip ds (tl ds)). last_job es c x \<and> first_job es d y)))
     \<or> (\<exists>d\<in>set (followers es b). last_job es b x \<and> first_job es d y)"

section \<open>The heap keeps what was declared\<close>

definition built_as :: "build_step \<Rightarrow> nat \<Rightarrow> nat set \<Rightarrow> delayable \<Rightarrow> bool" where
  "built_as e b T d = (case e of
      MakeJob \<Rightarrow> d_kind d = Single
        \<and> set (vertices (d_graph d)) = insert b T \<and> set (edges (d_graph d)) = {b} \<times> T
    | MakeChain ds \<Rightarrow> d_kind d = Chain (hd ds) (last ds) \<and> ds \<noteq> [] \<and> set ds \<subseteq> {..<b}
        \<and> set (vertices (d_graph d)) = set ds \<union> T \<and> set (edges (d_graph d)) = set (zip ds (tl ds)) \<union> {last ds} \<times> T
    | MakeGroup ds \<Rightarrow> d_kind d = Group (remdups ds) \<and> set ds \<subseteq> {..<b}
        \<and> set (vertices (d_graph d)) = set ds \<union> (if ds = [] then {} else T)
        \<and> set (edges (d_graph d)) = set ds \<times> T
    | OnDone a ds \<Rightarrow> False)"

definition heap_as :: "build_step list \<Rightarrow> dheap \<Rightarrow> bool" where
  "heap_as es h \<longleftrightarrow> heap_ok h \<and> length h = length (made es)
     \<and> (\<forall>b. length h \<le> b \<longrightarrow> followers es b = [])
     \<and> (\<forall>b<length h. built_as (made es ! b) b (set (followers es b)) (h ! b))"

lemma edges_links:
  "set (edges (chain_links p ns g)) = set (zip (p # ns) ns) \<union> set (edges g)"
  "set (vertices (chain_links p ns g)) = (if ns = [] then {} else insert p (set ns)) \<union> set (vertices g)"
  by (induction p ns g rule: chain_links.induct) auto

lemma adds_sets:
  "set (edges (fold add_vertex ds g)) = set (edges g)"
  "set (vertices (fold add_vertex ds g)) = set ds \<union> set (vertices g)"
  by (induction ds arbitrary: g) auto

lemma add_edges_sets:
  "set (edges (fold (add_edge p) ds g)) = {p} \<times> set ds \<union> set (edges g)"
  "set (vertices (fold (add_edge p) ds g)) = (if ds = [] then {} else insert p (set ds)) \<union> set (vertices g)"
  by (induction ds arbitrary: g) auto

lemma add_group_sets:
  "set (edges (fold (\<lambda>p. fold (add_edge p) ds) ms g)) = set ms \<times> set ds \<union> set (edges g)"
  "set (vertices (fold (\<lambda>p. fold (add_edge p) ds) ms g))
     = (if ms = [] \<or> ds = [] then {} else set ms \<union> set ds) \<union> set (vertices g)"
proof -
  show "set (edges (fold (\<lambda>p. fold (add_edge p) ds) ms g)) = set ms \<times> set ds \<union> set (edges g)"
    by (induction ms arbitrary: g) (auto simp: add_edges_sets)
  show "set (vertices (fold (\<lambda>p. fold (add_edge p) ds) ms g))
     = (if ms = [] \<or> ds = [] then {} else set ms \<union> set ds) \<union> set (vertices g)"
    by (induction ms arbitrary: g) (auto simp: add_edges_sets)
qed

lemma followers_snoc:
  "followers (es @ [e]) b = followers es b @ (case e of OnDone a ds \<Rightarrow> if a = b then ds else [] | _ \<Rightarrow> [])"
  by (simp add: followers_def)

lemma made_snoc: "made (es @ [e]) = made es @ (if makes e then [e] else [])"
  by (simp add: made_def)

text \<open>A new object joins the heap, without followers.\<close>

lemma heap_as_new:
  assumes "heap_as es h" and "makes e" and "heap_ok (h @ [d])" and "built_as e (length h) {} d"
  shows "heap_as (es @ [e]) (h @ [d])"
proof -
  have same: "followers (es @ [e]) b = followers es b" for b
    using assms(2) by (simp add: followers_snoc makes_def split: build_step.splits)
  show ?thesis
    using assms unfolding heap_as_def same made_snoc by (auto simp: nth_append less_Suc_eq)
qed

lemma built_as_on_done:
  assumes "built_as e b T d" and "d_kind d = k"
    and "g = (case k of Single \<Rightarrow> fold (add_edge b) ds (d_graph d)
      | Chain first final \<Rightarrow> fold (add_edge final) ds (d_graph d)
      | Group ms \<Rightarrow> fold (\<lambda>p. fold (add_edge p) ds) ms (d_graph d))"
  shows "built_as e b (T \<union> set ds) (d\<lparr>d_graph := g\<rparr>)"
proof (cases e)
  case (MakeChain cs)
  then have "last cs \<in> set cs" using assms(1) by (simp add: built_as_def)
  with assms MakeChain show ?thesis by (auto simp: built_as_def add_edges_sets)
next
  case (MakeGroup ms)
  with assms show ?thesis by (auto simp: built_as_def add_group_sets)
qed (use assms in \<open>auto simp: built_as_def add_edges_sets\<close>)

lemma heap_as_on_done:
  assumes "heap_as es h" and "a < length h" and "set ds \<subseteq> {..<length h}"
  shows "heap_as (es @ [OnDone a ds]) (on_done a ds h)"
proof -
  let ?h = "on_done a ds h"
  have len: "length ?h = length h" by (simp add: on_done_def update_graph_def split: delayable_kind.split)
  have ok: "heap_ok ?h" using assms by (simp add: heap_as_def heap_ok_on_done)
  have at: "built_as (made es ! b) b (set (followers (es @ [OnDone a ds]) b)) (?h ! b)" if "b < length h" for b
  proof (cases "b = a")
    case True
    have "built_as (made es ! a) a (set (followers es a)) (h ! a)" using assms by (simp add: heap_as_def)
    from built_as_on_done [OF this refl refl, of ds] True assms(2) show ?thesis
      by (cases "d_kind (h ! a)") (simp_all add: followers_snoc on_done_def update_graph_def)
  next
    case False
    then have "?h ! b = h ! b" by (simp add: on_done_def update_graph_def split: delayable_kind.split)
    with False that assms(1) show ?thesis by (simp add: heap_as_def followers_snoc)
  qed
  show ?thesis
    using ok at assms unfolding heap_as_def len by (auto simp: made_snoc makes_def followers_snoc)
qed

lemma build_heap_as:
  assumes "heap_as es h" and "build e h = Some h'"
  shows "heap_as (es @ [e]) h'"
proof -
  have h: "heap_ok h" using assms(1) by (simp add: heap_as_def)
  show ?thesis
  proof (cases e)
    case MakeJob
    have "heap_ok (h @ [\<lparr>d_kind = Single, d_graph = add_vertex (length h) []\<rparr>])"
      using heap_ok_new(1) [OF h] by (simp add: new_delayable_def)
    from heap_as_new [OF assms(1) _ this, of e]
    have "heap_as (es @ [e]) (h @ [\<lparr>d_kind = Single, d_graph = add_vertex (length h) []\<rparr>])"
      by (simp add: MakeJob makes_def built_as_def)
    then show ?thesis using assms(2) MakeJob by (simp add: build_def new_delayable_def)
  next
    case (MakeChain ds)
    have d: "set ds \<subseteq> {..<length h}" "new_chain ds h = Some h'"
      using assms(2) MakeChain by (auto simp: build_def list_all_iff split: if_splits)
    then obtain c cs where ds: "ds = c # cs" by (cases ds) (simp_all add: new_chain_def)
    let ?d = "\<lparr>d_kind = Chain c (last ds), d_graph = chain_links c cs (add_vertex c [])\<rparr>"
    have h': "h' = h @ [?d]" using d(2) ds by (simp add: new_chain_def)
    have "heap_as (es @ [e]) (h @ [?d])"
    proof (rule heap_as_new [OF assms(1)])
      show "makes e" by (simp add: MakeChain makes_def)
      show "heap_ok (h @ [?d])" using heap_ok_new(3) [OF h d] by (simp add: h')
      show "built_as e (length h) {} ?d"
        using d(1) ds MakeChain by (simp add: built_as_def edges_links)
    qed
    then show ?thesis by (simp add: h')
  next
    case (MakeGroup ds)
    have d: "set ds \<subseteq> {..<length h}" "h' = new_group ds h"
      using assms(2) MakeGroup by (auto simp: build_def list_all_iff split: if_splits)
    let ?d = "\<lparr>d_kind = Group (remdups ds), d_graph = fold add_vertex ds []\<rparr>"
    have "heap_as (es @ [e]) (h @ [?d])"
    proof (rule heap_as_new [OF assms(1)])
      show "makes e" by (simp add: MakeGroup makes_def)
      show "heap_ok (h @ [?d])" using heap_ok_new(2) [OF h d(1)] by (simp add: new_group_def)
      show "built_as e (length h) {} ?d" using d(1) MakeGroup by (auto simp: built_as_def adds_sets)
    qed
    then show ?thesis by (simp add: d(2) new_group_def)
  next
    case (OnDone a ds)
    then have "a < length h" "set ds \<subseteq> {..<length h}" "h' = on_done a ds h"
      using assms(2) by (auto simp: build_def list_all_iff split: if_splits)
    then show ?thesis using heap_as_on_done [OF assms(1)] OnDone by simp
  qed
qed

lemma build_all_heap_as: "build_all es [] = Some h \<Longrightarrow> heap_as es h"
proof (induction es arbitrary: h rule: rev_induct)
  case Nil
  then show ?case by (simp add: heap_as_def heap_ok_def made_def followers_def)
next
  case (snoc e es)
  then show ?case using build_heap_as by (auto simp: build_all_snoc split: option.splits)
qed

section \<open>Starts and ends\<close>

lemma made_at: "heap_as es h \<Longrightarrow> b < length h \<Longrightarrow> built_as (made es ! b) b (set (followers es b)) (h ! b)"
  by (simp add: heap_as_def)

lemma ends_made:
  assumes "heap_as es h" and "b < length h"
  shows "ends h front b = (case made es ! b of
      MakeJob \<Rightarrow> [b]
    | MakeChain ds \<Rightarrow> if front then ends h False (hd ds) else ends h True (last ds)
    | MakeGroup ds \<Rightarrow> concat (map (ends h front) (remdups ds))
    | OnDone a ds \<Rightarrow> [])"
proof (cases "made es ! b")
  case (MakeChain ds)
  then have "ds \<noteq> []" "set ds \<subseteq> {..<b}" using made_at [OF assms] by (auto simp: built_as_def)
  then have "hd ds < b" "last ds < b" by (auto simp: subset_iff)
  then show ?thesis using made_at [OF assms] assms(2) MakeChain by (simp add: built_as_def ends.simps [of h front b])
next
  case (MakeGroup ds)
  then have g: "d_kind (h ! b) = Group (remdups ds)" "set ds \<subseteq> {..<b}" using made_at [OF assms] by (auto simp: built_as_def)
  have "map (\<lambda>m. if m < b then ends h front m else []) (remdups ds) = map (ends h front) (remdups ds)"
    using g(2) by (auto simp: subset_iff)
  from arg_cong [OF this, of concat] show ?thesis
    using g(1) assms(2) MakeGroup by (simp only: ends.simps [of h front b]) simp
qed (use made_at [OF assms] assms(2) in \<open>simp_all add: built_as_def ends.simps [of h front b]\<close>)

lemma made_before:
  assumes "heap_as es h" and "b < length h"
  shows "made es ! b = MakeChain ds \<Longrightarrow> hd ds < b \<and> last ds < b" and "made es ! b = MakeGroup ds \<Longrightarrow> set ds \<subseteq> {..<b}"
  using made_at [OF assms] by (auto simp: built_as_def subset_iff)

lemma ends_chain_free:
  assumes "heap_as es h"
  shows "b < length h \<Longrightarrow> \<not> holds_chain es b \<Longrightarrow> ends h True b = ends h False b"
proof (induction b rule: less_induct)
  case (less b)
  have len: "length h = length (made es)" using assms by (simp add: heap_as_def)
  show ?case
  proof (cases "made es ! b")
    case (MakeChain ds)
    then show ?thesis using less(2,3) len holds_chain.intros(1) [of b es ds] by simp
  next
    case (MakeGroup ds)
    have "ends h True d = ends h False d" if "d \<in> set ds" for d
    proof (rule less.IH)
      show "d < b" using made_before(2) [OF assms less(2) MakeGroup] that by auto
      then show "d < length h" using less(2) by simp
      show "\<not> holds_chain es d" using less(2,3) that MakeGroup len holds_chain.intros(2) [of b es ds d] by auto
    qed
    then have "map (ends h True) (remdups ds) = map (ends h False) (remdups ds)" by simp
    from arg_cong [OF this, of concat] show ?thesis by (simp only: ends_made [OF assms less(2)] MakeGroup build_step.case)
  qed (simp_all add: ends_made [OF assms less(2)])
qed

lemma ends_declared:
  assumes "heap_as es h" and "plain es"
  shows "b < length h \<Longrightarrow> (first_job es b x \<longleftrightarrow> x \<in> set (head_of h b)) \<and> (last_job es b x \<longleftrightarrow> x \<in> set (tail_of h b))"
proof (induction b rule: less_induct)
  case (less b)
  have b: "b < length (made es)" using assms(1) less(2) by (simp add: heap_as_def)
  note E = ends_made [OF assms(1) less(2)]
  show ?case
  proof (cases "made es ! b")
    case MakeJob
    then show ?thesis using b by (simp add: first_job_simps [of es b] last_job_simps [of es b] head_of_def tail_of_def E)
  next
    case (MakeChain ds)
    have lt: "hd ds < b" "last ds < b" using made_before(1) [OF assms(1) less(2) MakeChain] by auto
    then have lth: "hd ds < length h" "last ds < length h" using less(2) by auto
    have "MakeChain ds \<in> set (made es)" using b MakeChain nth_mem [of b "made es"] by simp
    then have "\<not> holds_chain es (hd ds)" "\<not> holds_chain es (last ds)"
      using assms(2) by (auto simp: plain_def list_all_iff)
    then have "head_of h b = head_of h (hd ds)" "tail_of h b = tail_of h (last ds)"
      using ends_chain_free [OF assms(1)] lth by (simp_all add: head_of_def tail_of_def E MakeChain)
    then show ?thesis
      using b MakeChain less.IH [OF lt(1) lth(1)] less.IH [OF lt(2) lth(2)]
      by (simp add: first_job_simps [of es b] last_job_simps [of es b])
  next
    case (MakeGroup ds)
    have "d < b \<and> d < length h" if "d \<in> set ds" for d
      using made_before(2) [OF assms(1) less(2) MakeGroup] that less(2) by auto
    then have IH: "(first_job es d x \<longleftrightarrow> x \<in> set (head_of h d)) \<and> (last_job es d x \<longleftrightarrow> x \<in> set (tail_of h d))"
      if "d \<in> set ds" for d using less.IH that by blast
    have "x \<in> set (head_of h b) \<longleftrightarrow> (\<exists>d\<in>set ds. x \<in> set (head_of h d))"
      "x \<in> set (tail_of h b) \<longleftrightarrow> (\<exists>d\<in>set ds. x \<in> set (tail_of h d))"
      by (simp_all add: head_of_def tail_of_def E MakeGroup)
    then show ?thesis
      using b MakeGroup IH by (auto simp: first_job_simps [of es b] last_job_simps [of es b])
  next
    case (OnDone a ds)
    then show ?thesis using made_at [OF assms(1) less(2)] by (simp add: built_as_def)
  qed
qed

section \<open>The connected graph is what was declared\<close>

lemma owns_parts:
  assumes "heap_as es h" and "plain es"
  shows "reached h a = involved es a"
proof -
  have len: "length h = length (made es)" using assms(1) by (simp add: heap_as_def)
  have own: "(b, d) \<in> owns h \<longleftrightarrow> (b, d) \<in> parts es \<or> b = d \<and> b < length h \<and> made es ! b = MakeJob" for b d
  proof (cases "b < length h")
    case True
    have "made es ! b = MakeGroup ds \<Longrightarrow> ds \<noteq> []" for ds
      using assms(2) True len nth_mem [of b "made es"] by (auto simp: plain_def list_all_iff)
    then show ?thesis
      using made_at [OF assms(1) True] True len
      by (cases "made es ! b") (auto simp: owns_def graph_of_def parts_def members_def built_as_def)
  next
    case False
    then show ?thesis using len by (simp add: owns_def graph_of_def parts_def vertices_def)
  qed
  have "(owns h)\<^sup>* = (parts es)\<^sup>*"
    by (rule rtrancl_subset) (auto simp: own)
  then show ?thesis by (simp add: reached_def involved_def)
qed

lemma part_made:
  assumes "heap_as es h" and "(c, d) \<in> set (edges (graph_of h b))"
  shows "b < length h \<and> c < length h \<and> d < length h"
proof -
  have b: "b < length h" using assms(2) by (auto simp: graph_of_def split: if_splits)
  then have "obj_ok (length h) b (h ! b)" using assms(1) unfolding heap_as_def heap_ok_def by blast
  then have o: "graph_ok (graph_of h b)" "set (vertices (graph_of h b)) \<subseteq> {..<length h}"
    using b by (simp_all add: obj_ok_def graph_of_def)
  then have "d \<in> set (vertices (graph_of h b))" using assms(2) by (force simp: graph_ok_def)
  moreover have "c \<in> set (vertices (graph_of h b))" using assms(2) by (rule edge_vertex)
  ultimately show ?thesis using b o(2) by auto
qed

lemma declared_deps:
  assumes "heap_as es h" and "plain es"
  shows "(x, y) \<in> deps_in h {b} \<longleftrightarrow> waits es b x y"
proof (cases "b < length h")
  case False
  then have "followers es b = []" using assms(1) by (simp add: heap_as_def)
  moreover have "\<not> b < length (made es)" using False assms(1) by (simp add: heap_as_def)
  ultimately show ?thesis using False by (simp add: deps_in_def waits_def graph_of_def)
next
  case True
  have len: "length h = length (made es)" using assms(1) by (simp add: heap_as_def)
  have "(x, y) \<in> deps_in h {b} \<longleftrightarrow> (\<exists>c d. (c, d) \<in> set (edges (graph_of h b)) \<and> x \<in> set (tail_of h c) \<and> y \<in> set (head_of h d))"
    by (auto simp: deps_in_def)
  also have "\<dots> \<longleftrightarrow> (\<exists>c d. (c, d) \<in> set (edges (graph_of h b)) \<and> last_job es c x \<and> first_job es d y)"
    using ends_declared [OF assms] part_made [OF assms(1)] by blast
  also have "\<dots> \<longleftrightarrow> waits es b x y"
  proof (cases "made es ! b")
    case (MakeChain ds)
    have "(\<exists>c d. (c, d) \<in> set (zip ds (tl ds)) \<union> {last ds} \<times> F \<and> last_job es c x \<and> first_job es d y)
        \<longleftrightarrow> (\<exists>(c, d)\<in>set (zip ds (tl ds)). last_job es c x \<and> first_job es d y)
          \<or> (\<exists>d\<in>F. last_job es (last ds) x \<and> first_job es d y)" for F
      by blast
    then show ?thesis
      using made_at [OF assms(1) True] True len MakeChain
      by (simp add: waits_def graph_of_def built_as_def last_job_simps [of es b])
  next
    case (MakeGroup ms)
    then show ?thesis using made_at [OF assms(1) True] True len
      by (simp add: waits_def graph_of_def built_as_def last_job_simps [of es b]) blast
  qed (use made_at [OF assms(1) True] True len in
      \<open>simp_all add: waits_def graph_of_def built_as_def last_job_simps [of es b], blast?\<close>)
  finally show ?thesis .
qed

text \<open>
  Property C33. What a graph of jobs, chains and groups makes wait for what, when it is delayed. For a
  program that builds it by the constructors and \<open>on_done\<close>, in whatever order, where no chain begins or
  ends with a chain (not even inside a group) and no group is empty: the connected graph has exactly the
  jobs that the delayed object involves through members and \<open>on_done\<close>; and a job waits for exactly
  those jobs that end the member before its own in a chain, or that end an object which the object it
  starts was handed to by \<open>on_done\<close>, a group starting and ending with all its members, a chain starting
  with its first member and ending with its last one. The graph is well-formed.
\<close>

theorem delayed_jobs_wait:
  assumes "build_all es [] = Some h" and "plain es"
  shows "set (vertices (connect_graphs h a)) = {x \<in> involved es a. x < length (made es) \<and> made es ! x = MakeJob}
    \<and> set (edges (connect_graphs h a)) = {(x, y). \<exists>b\<in>involved es a. waits es b x y}
    \<and> graph_ok (connect_graphs h a)"
proof -
  have h: "heap_as es h" by (rule build_all_heap_as [OF assms(1)])
  then have ok: "heap_ok h" and len: "length h = length (made es)" by (simp_all add: heap_as_def)
  have single: "d_kind (h ! x) = Single \<longleftrightarrow> made es ! x = MakeJob" if "x < length h" for x
    using made_at [OF h that] by (cases "made es ! x") (auto simp: built_as_def)
  have "single_jobs h a = {x \<in> involved es a. x < length (made es) \<and> made es ! x = MakeJob}"
    using single len by (auto simp: single_jobs_def owns_parts [OF h assms(2)])
  moreover have "deps_in h (reached h a) = {(x, y). \<exists>b\<in>involved es a. waits es b x y}"
  proof -
    have "(x, y) \<in> deps_in h A \<longleftrightarrow> (\<exists>b\<in>A. (x, y) \<in> deps_in h {b})" for x y A by (auto simp: deps_in_def)
    then show ?thesis using declared_deps [OF h assms(2)] by (auto simp: owns_parts [OF h assms(2)])
  qed
  ultimately show ?thesis using connected_graph_sets [OF ok, of a] by simp
qed

text \<open>A job before a chain that starts with a group of two jobs, and a last job after the chain.\<close>

definition sample_build :: "build_step list" where
  "sample_build = [MakeJob, MakeJob, MakeJob, MakeGroup [1, 2], MakeJob, MakeChain [3, 4], OnDone 0 [5],
     MakeJob, OnDone 5 [6]]"

lemma sample_made: "made sample_build = [MakeJob, MakeJob, MakeJob, MakeGroup [1, 2], MakeJob, MakeChain [3, 4], MakeJob]"
  by code_simp

lemma delayed_jobs_wait_witness:
  "\<exists>h. build_all sample_build [] = Some h
     \<and> set (edges (connect_graphs h 0)) = {(0, 1), (0, 2), (1, 4), (2, 4), (4, 6)}
     \<and> {(x, y). \<exists>b\<in>involved sample_build 0. waits sample_build b x y} = {(0, 1), (0, 2), (1, 4), (2, 4), (4, 6)}"
proof -
  obtain h where h: "build_all sample_build [] = Some h"
    and e: "set (edges (connect_graphs h 0)) = {(0, 1), (0, 2), (1, 4), (2, 4), (4, 6)}"
  proof -
    have "build_all sample_build [] \<noteq> None
        \<and> set (edges (connect_graphs (the (build_all sample_build [])) 0)) = {(0, 1), (0, 2), (1, 4), (2, 4), (4, 6)}"
      by (rule conjI; code_simp)
    then show ?thesis using that by auto
  qed
  have job: "\<not> holds_chain sample_build n" if "n \<in> {1, 2, 4}" for n
    using that by (subst holds_chain_simps) (auto simp: sample_made)
  have "\<not> holds_chain sample_build 3"
    by (subst holds_chain_simps) (use job in \<open>auto simp: sample_made\<close>)
  with job have "plain sample_build" by (simp add: plain_def sample_made)
  from delayed_jobs_wait [OF h this, of 0] h e show ?thesis by auto
qed

text \<open>The empty group: what is handed to its \<open>on_done\<close> is not part of the graph and never enqueued.\<close>

lemma empty_group_loses_followers:
  "(case build_all [MakeGroup [], MakeJob, OnDone 0 [1]] [] of None \<Rightarrow> [] | Some h \<Rightarrow> vertices (connect_graphs h 0)) = []"
  by code_simp

end
