(* ===== verification/JobLife.thy ===== *)
theory JobLife
  imports EjarJobs JobGraph
begin

text \<open>
  The life of a stored job: the class \<^verbatim>\<open>Job\<close> of \<^verbatim>\<open>queue_job/job.py\<close>, the buttons and the clean-up
  of \<^verbatim>\<open>models/queue_job.py\<close>, a worker that runs a job (\<^verbatim>\<open>controllers/main.py\<close>), the statements of
  the job runner that change the table (\<^verbatim>\<open>jobrunner/runner.py\<close>) and the storing of a job graph
  (\<^verbatim>\<open>DelayableGraph.delay\<close>). The \<^verbatim>\<open>Job\<close> object and its row have the same fields; an empty string is
  \<open>None\<close>. Every step is a transaction that sees the latest committed state; two transactions that
  write the same row at once, where PostgreSQL makes one of them fail, are not modelled. An Odoo integer
  field is never NULL.
\<close>

section \<open>Jobs\<close>

record job_row =
  r_uuid :: string
  r_graph :: "string option"
  r_state :: job_state
  r_priority :: int
  r_retry :: nat
  r_max :: nat
  r_created :: datetime
  r_enqueued :: "datetime option"
  r_started :: "datetime option"
  r_done :: "datetime option"
  r_cancelled :: "datetime option"
  r_exec_time :: "int option"
  r_result :: string
  r_exc_name :: string
  r_exc_message :: string
  r_exc_info :: string
  r_eta :: "datetime option"
  r_channel :: string
  r_identity :: string
  r_pid :: "nat option"
  r_depends :: "string list"
  r_children :: "string list"

definition DEFAULT_PRIORITY :: int where "DEFAULT_PRIORITY = 10"
definition DEFAULT_MAX_RETRIES :: nat where "DEFAULT_MAX_RETRIES = 5"
definition PG_RETRY :: int where "PG_RETRY = 5"

text \<open>What \<open>with_delay\<close> and \<open>delayable\<close> are told about a job.\<close>

record job_options =
  o_uuid :: string
  o_priority :: "int option"
  o_max :: "nat option"
  o_eta :: "datetime option"
  o_channel :: string
  o_identity :: string

definition new_job :: "datetime \<Rightarrow> job_options \<Rightarrow> job_row" where
  "new_job now opts = \<lparr>r_uuid = o_uuid opts, r_graph = None, r_state = Pending,
     r_priority = (case o_priority opts of None \<Rightarrow> DEFAULT_PRIORITY | Some p \<Rightarrow> p), r_retry = 0,
     r_max = (case o_max opts of None \<Rightarrow> DEFAULT_MAX_RETRIES | Some m \<Rightarrow> m), r_created = now,
     r_enqueued = None, r_started = None, r_done = None, r_cancelled = None, r_exec_time = None,
     r_result = [], r_exc_name = [], r_exc_message = [], r_exc_info = [], r_eta = o_eta opts,
     r_channel = o_channel opts, r_identity = o_identity opts, r_pid = None, r_depends = [], r_children = []\<rparr>"

type_synonym job_table = "job_row list"

definition find_row :: "string \<Rightarrow> job_table \<Rightarrow> job_row option" where
  "find_row u T = List.find (\<lambda>r. r_uuid r = u) T"

definition rows_of :: "string list \<Rightarrow> job_table \<Rightarrow> job_table" where
  "rows_of us T = filter (\<lambda>r. r_uuid r \<in> set us) T"

text \<open>
  \<open>_load_from_db_record\<close> does not read the name and the message of the last exception, and the jobs it
  depends on are looked up when they are needed: those that no longer exist are dropped.
\<close>

definition load_job :: "job_table \<Rightarrow> job_row \<Rightarrow> job_row" where
  "load_job T r = r\<lparr>r_exc_name := [], r_exc_message := [],
     r_depends := map r_uuid (rows_of (r_depends r) T), r_children := map r_uuid (rows_of (r_children r) T)\<rparr>"

definition exec_time :: "job_row \<Rightarrow> int option" where
  "exec_time j = (case (r_done j, r_started j) of
      (Some d, Some s) \<Rightarrow> if d = s then None else Some (d - s)
    | _ \<Rightarrow> None)"

text \<open>\<open>store\<close> writes the row of the job, or creates it when there is none.\<close>

definition store_job :: "job_row \<Rightarrow> job_table \<Rightarrow> job_table" where
  "store_job j T = (let r = j\<lparr>r_exec_time := exec_time j\<rparr> in
     if r_uuid j \<in> set (map r_uuid T) then map (\<lambda>x. if r_uuid x = r_uuid j then r else x) T else T @ [r])"

section \<open>State changes\<close>

definition with_result :: "string option \<Rightarrow> job_row \<Rightarrow> job_row" where
  "with_result res j = (case res of None \<Rightarrow> j | Some x \<Rightarrow> j\<lparr>r_result := x\<rparr>)"

definition set_pending :: "job_state list \<Rightarrow> string option \<Rightarrow> bool \<Rightarrow> job_row \<Rightarrow> job_row" where
  "set_pending parents res reset_retry j =
     with_result res (j\<lparr>r_state := (if \<exists>s\<in>set parents. s \<noteq> Done then WaitDependencies else Pending),
       r_enqueued := None, r_started := None, r_done := None, r_pid := None, r_cancelled := None,
       r_retry := (if reset_retry then 0 else r_retry j)\<rparr>)"

definition set_enqueued :: "datetime \<Rightarrow> job_row \<Rightarrow> job_row" where
  "set_enqueued now j = j\<lparr>r_state := Enqueued, r_enqueued := Some now, r_started := None, r_pid := None\<rparr>"

definition set_started :: "datetime \<Rightarrow> nat \<Rightarrow> job_row \<Rightarrow> job_row" where
  "set_started now pid j = j\<lparr>r_state := Started, r_started := Some now, r_pid := Some pid\<rparr>"

definition set_done :: "datetime \<Rightarrow> string option \<Rightarrow> job_row \<Rightarrow> job_row" where
  "set_done now res j =
     with_result res (j\<lparr>r_state := Done, r_exc_name := [], r_exc_info := [], r_done := Some now\<rparr>)"

definition set_cancelled :: "datetime \<Rightarrow> string option \<Rightarrow> job_row \<Rightarrow> job_row" where
  "set_cancelled now res j = with_result res (j\<lparr>r_state := JobCancelled, r_cancelled := Some now\<rparr>)"

definition set_failed :: "string \<Rightarrow> string \<Rightarrow> string \<Rightarrow> job_row \<Rightarrow> job_row" where
  "set_failed info name msg j =
     j\<lparr>r_state := JobFailed, r_exc_info := info, r_exc_name := name, r_exc_message := msg\<rparr>"

definition postpone :: "(nat \<times> nat) list \<Rightarrow> datetime \<Rightarrow> string \<Rightarrow> int option \<Rightarrow> job_row \<Rightarrow> job_row" where
  "postpone patt now res seconds j = j\<lparr>r_eta := Some (now + retry_seconds patt (r_retry j) seconds),
     r_exc_name := [], r_exc_info := [], r_result := res\<rparr>"

text \<open>\<open>retry_postpone\<close>\<close>

definition retry_postpone ::
  "(nat \<times> nat) list \<Rightarrow> datetime \<Rightarrow> string \<Rightarrow> int option \<Rightarrow> job_state list \<Rightarrow> job_row \<Rightarrow> job_row" where
  "retry_postpone patt now msg seconds parents j =
     set_pending parents None False (postpone patt now msg seconds j)"

lemma with_result_fields [simp]:
  "r_uuid (with_result res j) = r_uuid j" "r_state (with_result res j) = r_state j"
  "r_graph (with_result res j) = r_graph j" "r_depends (with_result res j) = r_depends j"
  "r_done (with_result res j) = r_done j" "r_cancelled (with_result res j) = r_cancelled j"
  "r_retry (with_result res j) = r_retry j" "r_max (with_result res j) = r_max j"
  by (simp_all add: with_result_def split: option.split)

section \<open>Dependencies in the table\<close>

text \<open>
  \<open>_get_common_dependent_jobs_query\<close>: the waiting children of a job in the same graph whose parents
  all have one state. A job outside a graph has a NULL graph and no children; a child none of whose
  parents exists any more is in no group of the join.
\<close>

definition parents_in :: "job_table \<Rightarrow> string option \<Rightarrow> job_row \<Rightarrow> job_table" where
  "parents_in T g c = filter (\<lambda>p. r_graph p = g \<and> r_uuid p \<in> set (r_depends c)) T"

definition is_dependent :: "job_table \<Rightarrow> job_row \<Rightarrow> job_state \<Rightarrow> job_row \<Rightarrow> bool" where
  "is_dependent T j s c \<longleftrightarrow> r_graph j \<noteq> None \<and> r_graph c = r_graph j \<and> r_uuid c \<in> set (r_children j)
     \<and> parents_in T (r_graph j) c \<noteq> [] \<and> list_all (\<lambda>p. r_state p = s) (parents_in T (r_graph j) c)
     \<and> r_state c = WaitDependencies"

definition update_dependents :: "job_state \<Rightarrow> string \<Rightarrow> job_state \<Rightarrow> job_table \<Rightarrow> job_table" where
  "update_dependents new u s T = (case find_row u T of
      None \<Rightarrow> T
    | Some j \<Rightarrow> map (\<lambda>c. if is_dependent T j s c then c\<lparr>r_state := new\<rparr> else c) T)"

definition enqueue_waiting :: "string \<Rightarrow> job_table \<Rightarrow> job_table" where
  "enqueue_waiting u = update_dependents Pending u Done"

definition cancel_dependent_jobs :: "string \<Rightarrow> job_table \<Rightarrow> job_table" where
  "cancel_dependent_jobs u = update_dependents JobCancelled u JobCancelled"

section \<open>Buttons\<close>

definition change_job_state :: "datetime \<Rightarrow> job_state \<Rightarrow> string option \<Rightarrow> string \<Rightarrow> job_table \<Rightarrow> py_error + job_table" where
  "change_job_state now s res u T = (case find_row u T of
      None \<Rightarrow> Inr T
    | Some r \<Rightarrow>
        let j = load_job T r in
        if s = Done then Inr (enqueue_waiting u (store_job (set_done now res j) T))
        else if s = Pending then
          Inr (store_job (set_pending (map r_state (rows_of (r_depends r) T)) res True j) T)
        else if s = JobCancelled then Inr (cancel_dependent_jobs u (store_job (set_cancelled now res j) T))
        else Inl ValueError)"

definition apply_state :: "datetime \<Rightarrow> job_state \<Rightarrow> string option \<Rightarrow> string \<Rightarrow> job_table \<Rightarrow> job_table" where
  "apply_state now s res u T = (case change_job_state now s res u T of Inl _ \<Rightarrow> T | Inr T' \<Rightarrow> T')"

definition button_done :: "datetime \<Rightarrow> string \<Rightarrow> string list \<Rightarrow> job_table \<Rightarrow> job_table" where
  "button_done now user us = fold (apply_state now Done (Some (''Manually set to done by '' @ user))) us"

definition button_cancelled :: "datetime \<Rightarrow> string \<Rightarrow> string list \<Rightarrow> job_table \<Rightarrow> job_table" where
  "button_cancelled now user us = fold (apply_state now JobCancelled (Some (''Cancelled by '' @ user))) us"

text \<open>The jobs a button acts on are chosen before the first of them changes.\<close>

definition in_states :: "job_state list \<Rightarrow> job_table \<Rightarrow> string \<Rightarrow> bool" where
  "in_states ss T u = (case find_row u T of None \<Rightarrow> False | Some r \<Rightarrow> r_state r \<in> set ss)"

definition requeue :: "datetime \<Rightarrow> string list \<Rightarrow> job_table \<Rightarrow> job_table" where
  "requeue now us T = fold (apply_state now Pending None)
     (filter (\<lambda>u. \<not> in_states [WaitDependencies] T u) us) T"

text \<open>The wizard that cancels a selection of jobs.\<close>

definition cancel_selected :: "datetime \<Rightarrow> string \<Rightarrow> string list \<Rightarrow> job_table \<Rightarrow> job_table" where
  "cancel_selected now user us T = button_cancelled now user
     (filter (in_states [WaitDependencies, Pending, JobFailed, Enqueued] T) us) T"

text \<open>\<open>autovacuum\<close> for one channel; its loop deletes thousand jobs at a time until none is left.\<close>

definition before :: "datetime option \<Rightarrow> datetime \<Rightarrow> bool" where
  "before d deadline = (case d of None \<Rightarrow> False | Some t \<Rightarrow> t \<le> deadline)"

definition vacuum_channel :: "datetime \<Rightarrow> string \<times> nat \<Rightarrow> job_table \<Rightarrow> job_table" where
  "vacuum_channel now = (\<lambda>(name, days). filter (\<lambda>r.
     \<not> ((before (r_done r) (now - 86400 * int days) \<or> before (r_cancelled r) (now - 86400 * int days))
        \<and> r_channel r = name)))"

definition autovacuum :: "datetime \<Rightarrow> (string \<times> nat) list \<Rightarrow> job_table \<Rightarrow> job_table" where
  "autovacuum now chans T = fold (vacuum_channel now) chans T"

section \<open>The job runner\<close>

text \<open>A job found dead: enqueued or started, enqueued more than ten seconds ago, and locked by no worker.\<close>

definition too_many_retries :: "job_row \<Rightarrow> bool" where
  "too_many_retries r \<longleftrightarrow> r_max r \<noteq> 0 \<and> r_max r < r_retry r"

definition requeue_dead :: "job_row \<Rightarrow> job_row" where
  "requeue_dead r = r\<lparr>r_state := (if too_many_retries r then JobFailed else Pending),
     r_retry := (if r_state r = Started then r_retry r + 1 else r_retry r),
     r_exc_name := (if too_many_retries r then ''JobFoundDead'' else r_exc_name r),
     r_exc_info := (if too_many_retries r then ''Job found dead after too many retries'' else r_exc_info r)\<rparr>"

definition found_dead :: "datetime \<Rightarrow> string list \<Rightarrow> string list \<Rightarrow> job_row \<Rightarrow> bool" where
  "found_dead now lock_rows locked r \<longleftrightarrow> r_state r \<in> {Enqueued, Started}
     \<and> (case r_enqueued r of None \<Rightarrow> False | Some t \<Rightarrow> t < now - 10)
     \<and> ((r_uuid r \<in> set lock_rows \<and> r_uuid r \<notin> set locked) \<or> r_uuid r \<notin> set lock_rows)"

definition requeue_dead_jobs :: "datetime \<Rightarrow> string list \<Rightarrow> string list \<Rightarrow> job_table \<Rightarrow> job_table" where
  "requeue_dead_jobs now lock_rows locked T =
     map (\<lambda>r. if found_dead now lock_rows locked r then requeue_dead r else r) T"

definition set_job_enqueued :: "datetime \<Rightarrow> string \<Rightarrow> job_table \<Rightarrow> job_table" where
  "set_job_enqueued now u T =
     map (\<lambda>r. if r_uuid r = u then r\<lparr>r_state := Enqueued, r_enqueued := Some now\<rparr> else r) T"


section \<open>Storing a job graph\<close>

text \<open>\<open>child.add_depends({parent})\<close>, on the jobs that were built for a graph.\<close>

definition link_job :: "bool \<Rightarrow> string \<Rightarrow> string \<Rightarrow> job_row \<Rightarrow> job_row" where
  "link_job waits parent child r =
     (if r_uuid r = child then r\<lparr>r_depends := set_union (r_depends r) [parent],
        r_state := (if waits then WaitDependencies else r_state r)\<rparr>
      else if r_uuid r = parent then r\<lparr>r_children := set_union (r_children r) [child]\<rparr> else r)"

definition add_depends :: "string \<Rightarrow> string \<Rightarrow> job_table \<Rightarrow> py_error + job_table" where
  "add_depends parent child jobs = (if parent = child then Inl ValueError
     else Inr (map (link_job (list_ex (\<lambda>p. r_uuid p = parent \<and> r_state p \<noteq> Done) jobs) parent child) jobs))"

fun link_all :: "(string \<times> string) list \<Rightarrow> job_table \<Rightarrow> py_error + job_table" where
  "link_all [] jobs = Inr jobs"
| "link_all ((p, c) # es) jobs = ebind (add_depends p c jobs) (link_all es)"

definition ensure_same_graph_uuid :: "string \<Rightarrow> job_table \<Rightarrow> py_error + job_table" where
  "ensure_same_graph_uuid fresh jobs =
     (if jobs = [] then Inl ValueError
      else if length jobs = 1 then (if list_ex (\<lambda>j. r_graph j \<noteq> None) jobs then Inl ValueError else Inr jobs)
      else case remdups (filter (\<lambda>g. g \<noteq> None) (map r_graph jobs)) of
          [] \<Rightarrow> Inr (map (\<lambda>j. j\<lparr>r_graph := Some fresh\<rparr>) jobs)
        | [g] \<Rightarrow> Inr (map (\<lambda>j. j\<lparr>r_graph := g\<rparr>) jobs)
        | _ \<Rightarrow> Inl ValueError)"

definition same_identity :: "job_table \<Rightarrow> string \<Rightarrow> job_row option" where
  "same_identity T key = List.find (\<lambda>r. r_identity r = key \<and> r_state r \<in> {WaitDependencies, Pending, Enqueued}) T"

text \<open>
  What \<open>delay\<close> does: run the jobs at once (a test mode), find that every job with an identity key is
  already waiting to be run, or store all jobs. When all are found it replaces only the first vertex's
  job by the existing one, because the \<^verbatim>\<open>return\<close> stands inside the loop.
\<close>

datatype delayed = RunDirectly "nat list" | AlreadyThere nat string | Stored job_table

definition keyed :: "(nat \<Rightarrow> job_options) \<Rightarrow> nat list \<Rightarrow> nat list" where
  "keyed opts vs = filter (\<lambda>v. o_identity (opts v) \<noteq> []) vs"

definition delay_graph ::
  "bool \<Rightarrow> datetime \<Rightarrow> string \<Rightarrow> (nat \<Rightarrow> job_options) \<Rightarrow> dheap \<Rightarrow> nat \<Rightarrow> job_table \<Rightarrow> py_error + delayed" where
  "delay_graph direct now fresh opts h a T =
     (let g = connect_graphs h a; vs = vertices g; name = (\<lambda>v. o_uuid (opts v)) in
      ebind (ensure_same_graph_uuid fresh (map (\<lambda>v. new_job now (opts v)) vs)) (\<lambda>jobs.
        if direct then ebind (topological_sort g) (\<lambda>xs. Inr (RunDirectly xs))
        else ebind (link_all (map (\<lambda>(p, c). (name p, name c)) (edges g)) jobs) (\<lambda>jobs.
          case keyed opts vs of
            v # ks \<Rightarrow>
              (if list_all (\<lambda>k. same_identity T (o_identity (opts k)) \<noteq> None) (v # ks)
               then Inr (AlreadyThere v (r_uuid (the (same_identity T (o_identity (opts v))))))
               else Inr (Stored (fold store_job jobs T)))
          | [] \<Rightarrow> Inr (Stored (fold store_job jobs T)))))"

text \<open>The job that is stored for a vertex.\<close>

definition links :: "(string \<times> string) list \<Rightarrow> job_row \<Rightarrow> job_row" where
  "links es r = fold (\<lambda>(p, c). link_job True p c) es r"

lemma links_simps: "links [] r = r" "links ((p, c) # es) r = links es (link_job True p c r)"
  by (simp_all add: links_def)

lemma link_fields [simp]:
  "r_uuid (link_job b p c r) = r_uuid r" "r_graph (link_job b p c r) = r_graph r"
  "r_done (link_job b p c r) = r_done r" "r_cancelled (link_job b p c r) = r_cancelled r"
  "r_started (link_job b p c r) = r_started r" "r_exec_time (link_job b p c r) = r_exec_time r"
  by (simp_all add: link_job_def)

lemma links_fields [simp]:
  "r_uuid (links es r) = r_uuid r" "r_graph (links es r) = r_graph r"
  "r_done (links es r) = r_done r" "r_cancelled (links es r) = r_cancelled r" "r_started (links es r) = r_started r"
  "r_exec_time (links es r) = r_exec_time r"
  by (induction es arbitrary: r) (auto simp: links_simps)

lemma links_deps:
  "list_all (\<lambda>(p, c). p \<noteq> c) es \<Longrightarrow> set (r_depends (links es r)) = set (r_depends r) \<union> {p. (p, r_uuid r) \<in> set es}
   \<and> set (r_children (links es r)) = set (r_children r) \<union> {c. (r_uuid r, c) \<in> set es}
   \<and> r_state (links es r) = (if r_uuid r \<in> snd ` set es then WaitDependencies else r_state r)"
proof (induction es arbitrary: r)
  case (Cons e es)
  obtain p c where e: "e = (p, c)" by (cases e)
  have "p \<noteq> c" and es: "list_all (\<lambda>(p, c). p \<noteq> c) es" using Cons.prems e by auto
  note IH = Cons.IH[OF es, of "link_job True p c r"]
  show ?case
    using IH \<open>p \<noteq> c\<close> by (auto simp: e links_simps link_job_def)
qed (simp add: links_simps)

lemma add_depends_parts:
  assumes "p \<noteq> c" "p \<in> r_uuid ` set jobs" "list_all (\<lambda>r. r_state r \<noteq> Done) jobs"
  shows "add_depends p c jobs = Inr (map (link_job True p c) jobs)"
proof -
  have "list_ex (\<lambda>j. r_uuid j = p \<and> r_state j \<noteq> Done) jobs"
    using assms(2,3) by (auto simp: list_ex_iff list_all_iff)
  then show ?thesis using assms(1) by (simp add: add_depends_def)
qed

lemma link_all_parts:
  assumes "list_all (\<lambda>(p, c). p \<noteq> c \<and> p \<in> r_uuid ` set jobs) es" "list_all (\<lambda>r. r_state r \<noteq> Done) jobs"
  shows "link_all es jobs = Inr (map (links es) jobs)"
  using assms
proof (induction es arbitrary: jobs)
  case (Cons e es)
  obtain p c where e: "e = (p, c)" by (cases e)
  have "list_all (\<lambda>r. r_state r \<noteq> Done) (map (link_job True p c) jobs)"
    using Cons.prems(2) by (auto simp: list_all_iff link_job_def)
  moreover have "r_uuid ` set (map (link_job True p c) jobs) = r_uuid ` set jobs" by (simp add: image_image)
  ultimately show ?case
    using Cons.IH[of "map (link_job True p c) jobs"] Cons.prems
    by (simp add: e add_depends_parts links_simps o_def)
qed (simp add: links_simps map_idI)

lemma store_fresh:
  "distinct (map r_uuid jobs) \<Longrightarrow> r_uuid ` set jobs \<inter> r_uuid ` set T = {}
   \<Longrightarrow> fold store_job jobs T = T @ map (\<lambda>j. j\<lparr>r_exec_time := exec_time j\<rparr>) jobs"
  by (induction jobs arbitrary: T) (auto simp: store_job_def Let_def)

lemma new_job_fields [simp]:
  "r_uuid (new_job now x) = o_uuid x" "r_graph (new_job now x) = None" "r_state (new_job now x) = Pending"
  "r_done (new_job now x) = None" "r_cancelled (new_job now x) = None" "r_depends (new_job now x) = []"
  "r_children (new_job now x) = []" "r_retry (new_job now x) = 0" "r_started (new_job now x) = None"
  by (simp_all add: new_job_def)

lemma same_graph_new:
  assumes "vs \<noteq> []"
  shows "ensure_same_graph_uuid fresh (map (\<lambda>v. new_job now (opts v)) vs)
    = Inr (map (\<lambda>v. (new_job now (opts v))\<lparr>r_graph := (if length vs = 1 then None else Some fresh)\<rparr>) vs)"
proof -
  have "filter (\<lambda>g. g \<noteq> None) (map r_graph (map (\<lambda>v. new_job now (opts v)) vs)) = []"
    by (simp add: filter_empty_conv)
  then show ?thesis using assms by (auto simp: ensure_same_graph_uuid_def list_ex_iff new_job_def)
qed

text \<open>
  A job graph of distinct fresh jobs none of which depends on itself is stored as it is: every job
  names the jobs it depends on and those that depend on it, and only the roots are pending.
\<close>

definition graph_row :: "datetime \<Rightarrow> string \<Rightarrow> (nat \<Rightarrow> job_options) \<Rightarrow> nat graph \<Rightarrow> nat \<Rightarrow> job_row" where
  "graph_row now fresh opts g v = (let es = map (\<lambda>(p, c). (o_uuid (opts p), o_uuid (opts c))) (edges g) in
     links es ((new_job now (opts v))\<lparr>r_graph := (if length (vertices g) = 1 then None else Some fresh)\<rparr>))"

lemma list_all_pairs:
  "(\<And>p c. (p, c) \<in> set es \<Longrightarrow> P (f p) (f c)) \<Longrightarrow> list_all (\<lambda>(p, c). P p c) (map (\<lambda>(p, c). (f p, f c)) es)"
  by (auto simp: list_all_iff)

lemma delay_stores:
  assumes "heap_ok h" "vertices (connect_graphs h a) \<noteq> []"
    "list_all (\<lambda>(p, c). p \<noteq> c) (edges (connect_graphs h a))"
    "inj_on (\<lambda>v. o_uuid (opts v)) (set (vertices (connect_graphs h a)))"
    "(\<lambda>v. o_uuid (opts v)) ` set (vertices (connect_graphs h a)) \<inter> r_uuid ` set T = {}"
    "delay_graph False now fresh opts h a T = Inr r"
  shows "(\<exists>v u. r = AlreadyThere v u) \<or> r = Stored (T @ map (graph_row now fresh opts (connect_graphs h a)) (vertices (connect_graphs h a)))"
proof -
  let ?g = "connect_graphs h a" let ?vs = "vertices ?g" let ?u = "\<lambda>v. o_uuid (opts v)"
  let ?es = "map (\<lambda>(p, c). (?u p, ?u c)) (edges ?g)"
  let ?base = "\<lambda>v. (new_job now (opts v))\<lparr>r_graph := (if length ?vs = 1 then None else Some fresh)\<rparr>"
  have g: "graph_ok ?g" using connected_graph_ok[OF assms(1)] .
  have ends: "p \<in> set ?vs \<and> c \<in> set ?vs" if "(p, c) \<in> set (edges ?g)" for p c
    using g edge_vertex[OF that] that by (force simp: graph_ok_def)
  have "?u p \<noteq> ?u c \<and> ?u p \<in> r_uuid ` set (map ?base ?vs)" if e: "(p, c) \<in> set (edges ?g)" for p c
  proof -
    note pc = ends[OF e]
    have "p \<noteq> c" using assms(3) e by (auto simp: list_all_iff)
    then have "?u p \<noteq> ?u c" using inj_onD[OF assms(4)] pc by blast
    moreover have "?u p \<in> r_uuid ` set (map ?base ?vs)" using pc by force
    ultimately show ?thesis by blast
  qed
  then have "list_all (\<lambda>(p, c). p \<noteq> c \<and> p \<in> r_uuid ` set (map ?base ?vs)) ?es"
    by (rule list_all_pairs)
  from link_all_parts[OF this] have l: "link_all ?es (map ?base ?vs) = Inr (map (links ?es) (map ?base ?vs))"
    by (simp add: list_all_iff)
  have stored: "fold store_job (map (links ?es) (map ?base ?vs)) T
      = T @ map (\<lambda>j. j\<lparr>r_exec_time := exec_time j\<rparr>) (map (links ?es) (map ?base ?vs))"
  proof (rule store_fresh)
    have names: "map r_uuid (map (links ?es) (map ?base ?vs)) = map ?u ?vs" by simp
    show "distinct (map r_uuid (map (links ?es) (map ?base ?vs)))"
      unfolding names distinct_map using assms(4) g by (simp add: graph_ok_def)
    have "r_uuid ` set (map (links ?es) (map ?base ?vs)) = ?u ` set ?vs"
      using arg_cong[OF names, of set] by (simp only: set_map)
    then show "r_uuid ` set (map (links ?es) (map ?base ?vs)) \<inter> r_uuid ` set T = {}" using assms(5) by simp
  qed
  have same: "map (\<lambda>j. j\<lparr>r_exec_time := exec_time j\<rparr>) (map (links ?es) (map ?base ?vs))
      = map (links ?es) (map ?base ?vs)"
  proof (rule map_idI)
    fix j assume "j \<in> set (map (links ?es) (map ?base ?vs))"
    then obtain v where "j = links ?es (?base v)" by auto
    then have "r_exec_time j = None" "exec_time j = None" by (simp_all add: exec_time_def new_job_def)
    then show "j\<lparr>r_exec_time := exec_time j\<rparr> = j" by simp
  qed
  have rows: "map (links ?es) (map ?base ?vs) = map (graph_row now fresh opts ?g) ?vs" by (simp add: graph_row_def Let_def)
  note base = same_graph_new[OF assms(2), of fresh now opts]
  show ?thesis
    using assms(6) unfolding delay_graph_def Let_def base ebind_simps l rows
    using stored[unfolded same, unfolded rows] by (auto split: list.splits if_splits)
qed

end
