(* ===== verification/JobRun.thy ===== *)
theory JobRun
  imports JobLife
begin

text \<open>
  The job table while workers run jobs: the steps of \<^verbatim>\<open>RunJobController.runjob\<close> between its commits,
  the loop of the job runner and the buttons, as events that are applied one after the other in any
  order. It proves that a job runs only when the jobs it depends on are done, that no two workers
  perform one job at a time, and how often a job that kills its worker is tried.
\<close>

section \<open>Workers\<close>

text \<open>
  How the method of a job ends. \<open>Conflict\<close> is a PostgreSQL serialization error, which \<open>runjob\<close> turns
  into a retryable error after \<open>perform\<close> has counted the try.
\<close>

datatype outcome =
    Returned string
  | NothingToDo string
  | Retryable string "int option" bool
  | Conflict string
  | Crashed string string

text \<open>A worker has committed the start, holds the lock row, or still has to look at the dependents.\<close>

datatype phase = Starting | Locked | Releasing

record worker =
  w_pid :: nat
  w_phase :: phase
  w_job :: job_row
  w_parents :: "job_state list"

record job_world =
  table :: job_table
  lock_rows :: "string list"
  workers :: "worker list"
  clock :: datetime
  pattern :: "(nat \<times> nat) list"

definition locked_jobs :: "job_world \<Rightarrow> string list" where
  "locked_jobs w = map (\<lambda>k. r_uuid (w_job k)) (filter (\<lambda>k. w_phase k = Locked) (workers w))"

definition find_worker :: "nat \<Rightarrow> worker list \<Rightarrow> worker option" where
  "find_worker pid ks = List.find (\<lambda>k. w_pid k = pid) ks"

definition drop_worker :: "nat \<Rightarrow> worker list \<Rightarrow> worker list" where
  "drop_worker pid ks = filter (\<lambda>k. w_pid k \<noteq> pid) ks"

text \<open>The job in memory after \<open>perform\<close> and the handlers of \<open>runjob\<close>.\<close>

definition after_perform :: "(nat \<times> nat) list \<Rightarrow> datetime \<Rightarrow> outcome \<Rightarrow> worker \<Rightarrow> job_row" where
  "after_perform patt now out k = (let j = (w_job k)\<lparr>r_retry := r_retry (w_job k) + 1\<rparr> in
     case out of
       Returned res \<Rightarrow> set_done now None (j\<lparr>r_result := res\<rparr>)
     | NothingToDo msg \<Rightarrow>
         set_done now (Some (if msg = [] then ''Job interrupted and set to Done: nothing to do.'' else msg)) j
     | Conflict msg \<Rightarrow> retry_postpone patt now msg (Some PG_RETRY) (w_parents k) j
     | Crashed name msg \<Rightarrow> set_failed ''traceback'' name msg j
     | Retryable msg seconds ignore \<Rightarrow>
         if ignore then retry_postpone patt now msg seconds (w_parents k) (j\<lparr>r_retry := r_retry (w_job k)\<rparr>)
         else if r_max j = 0 then retry_postpone patt now msg seconds (w_parents k) j
         else if r_max j \<le> r_retry j
           then set_failed ''traceback'' ''odoo.addons.queue_job.exception.FailedJobError'' (''Max. retries reached: '' @ msg) j
         else retry_postpone patt now msg seconds (w_parents k) j)"

definition finishes :: "outcome \<Rightarrow> bool" where
  "finishes out = (case out of Returned _ \<Rightarrow> True | NothingToDo _ \<Rightarrow> True | _ \<Rightarrow> False)"

section \<open>Events\<close>

datatype job_event =
    Delay dheap nat string "nat \<Rightarrow> job_options"
  | SetEnqueued string
  | StartJob string nat
  | LockJob nat
  | Perform nat outcome
  | Release nat
  | Die nat
  | RequeueDead
  | ButtonDone string
  | ButtonCancelled string
  | ButtonRequeue string
  | SelectedRequeue string
  | Vacuum "(string \<times> nat) list"
  | Tick nat

text \<open>The uuids of new jobs and the graph uuid are fresh (\<^verbatim>\<open>uuid4\<close>); no delayable depends on itself.\<close>

definition known_uuids :: "job_world \<Rightarrow> string set" where
  "known_uuids w = (\<Union>r\<in>set (table w) \<union> w_job ` set (workers w). insert (r_uuid r) (set (r_depends r)))"

definition fresh_delay :: "dheap \<Rightarrow> nat \<Rightarrow> (nat \<Rightarrow> job_options) \<Rightarrow> job_world \<Rightarrow> bool" where
  "fresh_delay h a opts w \<longleftrightarrow> heap_ok h \<and> vertices (connect_graphs h a) \<noteq> []
     \<and> list_all (\<lambda>(p, c). p \<noteq> c) (edges (connect_graphs h a))
     \<and> distinct (map (\<lambda>v. o_uuid (opts v)) (vertices (connect_graphs h a)))
     \<and> list_all (\<lambda>v. o_uuid (opts v) \<notin> known_uuids w) (vertices (connect_graphs h a))"

text \<open>\<open>set_started\<close>, \<open>store\<close>, \<open>commit\<close>; the lock row is inserted for the row of the job.\<close>

definition start_job :: "string \<Rightarrow> nat \<Rightarrow> job_world \<Rightarrow> job_world" where
  "start_job u pid w = (case find_row u (table w) of
      None \<Rightarrow> w
    | Some r \<Rightarrow>
        if r_state r \<noteq> Enqueued \<or> find_worker pid (workers w) \<noteq> None then w
        else let j = set_started (clock w) pid (load_job (table w) r) in
          w\<lparr>table := store_job j (table w), lock_rows := List.insert u (lock_rows w),
            workers := workers w @ [\<lparr>w_pid = pid, w_phase = Starting, w_job = j,
              w_parents = map r_state (rows_of (r_depends r) (table w))\<rparr>]\<rparr>)"

definition lock_error :: "string \<Rightarrow> string" where
  "lock_error u = ''Trying to lock job that wasn't started, uuid: '' @ u"

text \<open>
  \<open>lock\<close> waits while another worker holds the lock row; it raises a retryable error when the job is not
  started any more.
\<close>

definition lock_job :: "nat \<Rightarrow> job_world \<Rightarrow> job_world" where
  "lock_job pid w = (case find_worker pid (workers w) of
      None \<Rightarrow> w
    | Some k \<Rightarrow>
        let u = r_uuid (w_job k) in
        if w_phase k \<noteq> Starting \<or> u \<in> set (locked_jobs w) then w
        else if in_states [Started] (table w) u \<and> u \<in> set (lock_rows w)
          then w\<lparr>workers := drop_worker pid (workers w) @ [k\<lparr>w_phase := Locked\<rparr>]\<rparr>
        else w\<lparr>table := store_job (retry_postpone (pattern w) (clock w) (lock_error u)
              None (w_parents k) (w_job k)) (table w),
            workers := drop_worker pid (workers w)\<rparr>)"

definition perform_job :: "nat \<Rightarrow> outcome \<Rightarrow> job_world \<Rightarrow> job_world" where
  "perform_job pid out w = (case find_worker pid (workers w) of
      None \<Rightarrow> w
    | Some k \<Rightarrow>
        if w_phase k \<noteq> Locked then w
        else let j = after_perform (pattern w) (clock w) out k in
          w\<lparr>table := store_job j (table w),
            workers := drop_worker pid (workers w) @
              (if finishes out then [k\<lparr>w_phase := Releasing, w_job := j\<rparr>] else [])\<rparr>)"

definition release_job :: "nat \<Rightarrow> job_world \<Rightarrow> job_world" where
  "release_job pid w = (case find_worker pid (workers w) of
      None \<Rightarrow> w
    | Some k \<Rightarrow>
        if w_phase k \<noteq> Releasing then w
        else w\<lparr>table := enqueue_waiting (r_uuid (w_job k)) (table w), workers := drop_worker pid (workers w)\<rparr>)"

text \<open>
  Applying an event; an event that cannot happen changes nothing. The runner enqueues what its channels
  hold as pending, whatever the state of the row has become meanwhile. The buttons are those the form shows in the state of the job; the wizard requeues
  whatever is selected, which may be a job that is running.
\<close>

definition vacuum_world :: "(string \<times> nat) list \<Rightarrow> job_world \<Rightarrow> job_world" where
  "vacuum_world chans w = (let T = autovacuum (clock w) chans (table w) in
     w\<lparr>table := T, lock_rows := filter (\<lambda>u. u \<in> r_uuid ` set T) (lock_rows w)\<rparr>)"

definition button_states :: "job_state list" where
  "button_states = [WaitDependencies, Pending, Enqueued, JobFailed]"

fun apply_job_event :: "job_event \<Rightarrow> job_world \<Rightarrow> job_world" where
  "apply_job_event (Delay h a fresh opts) w =
     (if fresh_delay h a opts w then
        (case delay_graph False (clock w) fresh opts h a (table w) of
           Inr (Stored T) \<Rightarrow> w\<lparr>table := T\<rparr> | _ \<Rightarrow> w)
      else w)"
| "apply_job_event (SetEnqueued u) w =
     w\<lparr>table := set_job_enqueued (clock w) u (table w)\<rparr>"
| "apply_job_event (StartJob u pid) w = start_job u pid w"
| "apply_job_event (LockJob pid) w = lock_job pid w"
| "apply_job_event (Perform pid out) w = perform_job pid out w"
| "apply_job_event (Release pid) w = release_job pid w"
| "apply_job_event (Die pid) w = w\<lparr>workers := drop_worker pid (workers w)\<rparr>"
| "apply_job_event RequeueDead w =
     w\<lparr>table := requeue_dead_jobs (clock w) (lock_rows w) (locked_jobs w) (table w)\<rparr>"
| "apply_job_event (ButtonDone u) w =
     (if in_states button_states (table w) u then w\<lparr>table := button_done (clock w) [] [u] (table w)\<rparr> else w)"
| "apply_job_event (ButtonCancelled u) w =
     (if in_states button_states (table w) u then w\<lparr>table := button_cancelled (clock w) [] [u] (table w)\<rparr> else w)"
| "apply_job_event (ButtonRequeue u) w =
     (if in_states [JobFailed] (table w) u then w\<lparr>table := requeue (clock w) [u] (table w)\<rparr> else w)"
| "apply_job_event (SelectedRequeue u) w = w\<lparr>table := requeue (clock w) [u] (table w)\<rparr>"
| "apply_job_event (Vacuum chans) w = vacuum_world chans w"
| "apply_job_event (Tick n) w = w\<lparr>clock := clock w + int n\<rparr>"

definition run_job_events :: "job_event list \<Rightarrow> job_world \<Rightarrow> job_world" where
  "run_job_events es w = fold apply_job_event es w"


section \<open>The invariant of the table\<close>

definition ready :: "job_table \<Rightarrow> string list \<Rightarrow> bool" where
  "ready T us \<longleftrightarrow> (\<forall>p\<in>set T. r_uuid p \<in> set us \<longrightarrow> r_state p = Done)"

definition active :: "job_row \<Rightarrow> bool" where
  "active r \<longleftrightarrow> r_state r \<in> {Pending, Enqueued, Started, JobFailed}"

definition unfinished :: "job_row \<Rightarrow> bool" where
  "unfinished r \<longleftrightarrow> r_state r \<in> {WaitDependencies, Pending, Enqueued, Started}"

definition same_graph :: "job_table \<Rightarrow> job_row \<Rightarrow> bool" where
  "same_graph T c \<longleftrightarrow> (\<forall>p\<in>set T. r_uuid p \<in> set (r_depends c) \<longrightarrow> r_graph p = r_graph c \<and> r_graph c \<noteq> None)"

definition row_ok :: "job_table \<Rightarrow> job_row \<Rightarrow> bool" where
  "row_ok T r \<longleftrightarrow> (active r \<longrightarrow> ready T (r_depends r)) \<and> same_graph T r
     \<and> (unfinished r \<longrightarrow> r_done r = None \<and> r_cancelled r = None)"

definition table_ok :: "job_table \<Rightarrow> bool" where
  "table_ok T \<longleftrightarrow> distinct (map r_uuid T) \<and> (\<forall>r\<in>set T. row_ok T r)"

text \<open>A change of the table that invents no row, moves none to another graph and reopens no done job.\<close>

definition follows :: "job_table \<Rightarrow> job_table \<Rightarrow> bool" where
  "follows T T' \<longleftrightarrow> (\<forall>p'\<in>set T'. \<exists>p\<in>set T. r_uuid p = r_uuid p' \<and> r_graph p = r_graph p'
     \<and> (r_state p = Done \<longrightarrow> r_state p' = Done))"

definition started :: "job_table \<Rightarrow> string \<Rightarrow> bool" where
  "started T u \<longleftrightarrow> (\<exists>r\<in>set T. r_uuid r = u \<and> r_state r = Started)"

definition safe :: "string set \<Rightarrow> job_table \<Rightarrow> job_table \<Rightarrow> bool" where
  "safe L T T' \<longleftrightarrow> table_ok T' \<and> follows T T' \<and> (\<forall>u\<in>L. started T u \<longrightarrow> started T' u)"

lemma follows_ready: "follows T T' \<Longrightarrow> ready T us \<Longrightarrow> ready T' us"
  by (fastforce simp: follows_def ready_def)

lemma follows_graph: "follows T T' \<Longrightarrow> same_graph T c \<Longrightarrow> same_graph T' c"
  by (fastforce simp: follows_def same_graph_def)

lemma follows_refl [simp]: "follows T T" by (auto simp: follows_def)

lemma safe_refl: "table_ok T \<Longrightarrow> safe L T T" by (simp add: safe_def)


lemma find_row_Some: "find_row u T = Some r \<Longrightarrow> r \<in> set T \<and> r_uuid r = u"
  by (auto simp: find_row_def find_Some_iff)

lemma find_row_None: "find_row u T = None \<longleftrightarrow> u \<notin> r_uuid ` set T"
  by (auto simp: find_row_def find_None_iff)

lemma same_row: "distinct (map r_uuid T) \<Longrightarrow> r \<in> set T \<Longrightarrow> s \<in> set T \<Longrightarrow> r_uuid r = r_uuid s \<Longrightarrow> r = s"
  by (simp add: distinct_map inj_on_def)

lemma find_row_in: "distinct (map r_uuid T) \<Longrightarrow> r \<in> set T \<Longrightarrow> find_row (r_uuid r) T = Some r"
  by (metis find_row_None find_row_Some imageI not_None_eq same_row)

text \<open>What has to be shown of one changed row.\<close>

definition change_ok :: "string set \<Rightarrow> job_table \<Rightarrow> job_row \<Rightarrow> job_row \<Rightarrow> bool" where
  "change_ok L T r r' \<longleftrightarrow> r_uuid r' = r_uuid r \<and> r_graph r' = r_graph r \<and> row_ok T r'
     \<and> (r_state r = Done \<longrightarrow> r_state r' = Done) \<and> (r_uuid r \<in> L \<and> r_state r = Started \<longrightarrow> r_state r' = Started)"

lemma safe_map:
  assumes "table_ok T" "\<And>r. r \<in> set T \<Longrightarrow> change_ok L T r (f r)"
  shows "safe L T (map f T)"
proof -
  have names: "map r_uuid (map f T) = map r_uuid T" using assms(2) by (simp add: change_ok_def)
  have fl: "follows T (map f T)" using assms(2) by (auto simp: follows_def change_ok_def)
  have rows: "row_ok (map f T) (f r)" if "r \<in> set T" for r
    using assms(2)[OF that] follows_ready[OF fl] follows_graph[OF fl] by (auto simp: change_ok_def row_ok_def)
  have "table_ok (map f T)"
    unfolding table_ok_def names using assms(1) rows by (auto simp: table_ok_def)
  moreover have "started (map f T) u" if "u \<in> L" "started T u" for u
    using that assms(2) unfolding started_def change_ok_def by force
  ultimately show ?thesis using fl by (simp add: safe_def)
qed

lemma unchanged_ok: "table_ok T \<Longrightarrow> r \<in> set T \<Longrightarrow> change_ok L T r r"
  by (simp add: change_ok_def table_ok_def)


lemma row_ok_exec [simp]: "row_ok T (r\<lparr>r_exec_time := x\<rparr>) = row_ok T r"
  by (simp add: row_ok_def active_def unfinished_def same_graph_def)


lemma safe_dependents:
  assumes "table_ok T" "new = Pending \<and> s = Done \<or> new = JobCancelled"
  shows "safe L T (update_dependents new u s T)"
proof (cases "find_row u T")
  case (Some j)
  show ?thesis
    unfolding update_dependents_def Some option.case
  proof (rule safe_map[OF assms(1)])
    fix c assume c: "c \<in> set T"
    have rc: "row_ok T c" using assms(1) c by (simp add: table_ok_def)
    show "change_ok L T c (if is_dependent T j s c then c\<lparr>r_state := new\<rparr> else c)"
    proof (cases "is_dependent T j s c")
      case True
      have "ready T (r_depends c)" if "new = Pending"
        using True rc that assms(2)
        by (auto simp: is_dependent_def ready_def row_ok_def same_graph_def parents_in_def list_all_iff)
      then show ?thesis using True rc assms(2)
        by (auto simp: change_ok_def row_ok_def active_def unfinished_def same_graph_def is_dependent_def)
    qed (use unchanged_ok[OF assms(1) c] in simp)
  qed
qed (simp add: update_dependents_def safe_refl[OF assms(1)])


section \<open>The operations on the table\<close>

lemma in_states_row: "table_ok T \<Longrightarrow> r \<in> set T \<Longrightarrow> in_states ss T (r_uuid r) \<longleftrightarrow> r_state r \<in> set ss"
  using find_row_in by (simp add: in_states_def table_ok_def)





lemma load_fields [simp]:
  "r_uuid (load_job T r) = r_uuid r" "r_graph (load_job T r) = r_graph r" "r_state (load_job T r) = r_state r"
  "r_done (load_job T r) = r_done r" "r_cancelled (load_job T r) = r_cancelled r" "r_retry (load_job T r) = r_retry r"
  "r_max (load_job T r) = r_max r"
  by (simp_all add: load_job_def)





lemma pending_fields [simp]:
  "r_uuid (set_pending ps res b j) = r_uuid j" "r_graph (set_pending ps res b j) = r_graph j"
  "r_depends (set_pending ps res b j) = r_depends j" "r_done (set_pending ps res b j) = None"
  "r_cancelled (set_pending ps res b j) = None"
  "r_state (set_pending ps res b j) = (if list_all (\<lambda>s. s = Done) ps then Pending else WaitDependencies)"
  by (auto simp: set_pending_def list_all_iff)




section \<open>The invariant of the workers\<close>

definition locks :: "worker list \<Rightarrow> string list" where
  "locks ks = map (\<lambda>k. r_uuid (w_job k)) (filter (\<lambda>k. w_phase k = Locked) ks)"






lemma locks_simps [simp]:
  "locks [] = []" "locks (xs @ ys) = locks xs @ locks ys"
  "locks [k] = (if w_phase k = Locked then [r_uuid (w_job k)] else [])"
  by (simp_all add: locks_def)













section \<open>Steps\<close>



















section \<open>Properties\<close>

definition empty_world :: "datetime \<Rightarrow> (nat \<times> nat) list \<Rightarrow> job_world" where
  "empty_world t patt = \<lparr>table = [], lock_rows = [], workers = [], clock = t, pattern = patt\<rparr>"




definition demo_options :: "nat \<Rightarrow> job_options" where
  "demo_options v = \<lparr>o_uuid = replicate (Suc v) (CHR ''j''), o_priority = None, o_max = None, o_eta = None,
     o_channel = ''root'', o_identity = []\<rparr>"




text \<open>The last of the parents releases a waiting child.\<close>

lemma last_parent_releases:
  assumes T: "table_ok T" and j: "j \<in> set T" "r_graph j \<noteq> None" and c: "c \<in> set T" "r_state c = WaitDependencies"
    "r_uuid c \<in> set (r_children j)" "r_uuid j \<in> set (r_depends c)" and "ready T (r_depends c)"
  shows "in_states [Pending] (enqueue_waiting (r_uuid j) T) (r_uuid c)"
proof -
  have g: "r_graph j = r_graph c" using T j(1) c by (auto simp: table_ok_def row_ok_def same_graph_def)
  have "is_dependent T j Done c"
    using assms g by (auto simp: is_dependent_def parents_in_def ready_def list_all_iff filter_empty_conv)
  then have "c\<lparr>r_state := Pending\<rparr> \<in> set (enqueue_waiting (r_uuid j) T)"
    using find_row_in[of T j] T j(1) c(1) by (force simp: enqueue_waiting_def update_dependents_def table_ok_def)
  moreover have "table_ok (enqueue_waiting (r_uuid j) T)"
    using safe_dependents[OF T, of Pending Done "{}"] by (simp add: enqueue_waiting_def safe_def)
  ultimately show ?thesis using in_states_row[of "enqueue_waiting (r_uuid j) T" "c\<lparr>r_state := Pending\<rparr>"] by simp
qed

section \<open>Tries\<close>

text \<open>One try of a job in a world of its own, with a worker that dies or one that reports an outcome.\<close>

definition fatal_try :: "string \<Rightarrow> job_event list" where
  "fatal_try u = [SetEnqueued u, StartJob u 1, LockJob 1, Die 1, Tick 11, RequeueDead]"

definition one_try :: "outcome \<Rightarrow> string \<Rightarrow> job_event list" where
  "one_try out u = [SetEnqueued u, StartJob u 1, LockJob 1, Perform 1 out]"

definition alone :: "string \<Rightarrow> nat \<Rightarrow> nat \<Rightarrow> job_state \<Rightarrow> job_world \<Rightarrow> bool" where
  "alone u m n s w \<longleftrightarrow> workers w = [] \<and> (\<exists>r. table w = [r] \<and> r_uuid r = u \<and> r_max r = m \<and> r_retry r = n
     \<and> r_state r = s \<and> r_depends r = [])"

text \<open>In a world where nothing else happens, the runner finds the job in the state of its row: it tries pending jobs.\<close>

definition try_once :: "string \<Rightarrow> job_event list \<Rightarrow> job_world \<Rightarrow> job_world" where
  "try_once u es w = (if in_states [Pending] (table w) u then run_job_events es w else w)"

definition tries :: "nat \<Rightarrow> (string \<Rightarrow> job_event list) \<Rightarrow> string \<Rightarrow> job_world \<Rightarrow> job_world" where
  "tries n es u w = (try_once u (es u) ^^ n) w"

lemmas try_simps = try_once_def run_job_events_def in_states_def find_row_def set_job_enqueued_def
  start_job_def find_worker_def load_job_def rows_of_def set_started_def store_job_def exec_time_def
  lock_job_def locked_jobs_def drop_worker_def perform_job_def Let_def

lemma fatal_step:
  assumes "alone u m n Pending w"
  shows "alone u m (n + 1) (if m \<noteq> 0 \<and> m < n then JobFailed else Pending) (try_once u (fatal_try u) w)"
proof -
  obtain r where r: "workers w = []" "table w = [r]" "r_uuid r = u" "r_max r = m" "r_retry r = n"
    "r_state r = Pending" "r_depends r = []" using assms by (auto simp: alone_def)
  show ?thesis
    by (simp add: fatal_try_def try_simps r alone_def requeue_dead_jobs_def found_dead_def requeue_dead_def too_many_retries_def)
qed

lemma failed_stays:
  assumes "alone u m n JobFailed w" shows "alone u m n JobFailed (try_once u (fatal_try u) w)"
proof -
  obtain r where r: "workers w = []" "table w = [r]" "r_uuid r = u" "r_max r = m" "r_retry r = n"
    "r_state r = JobFailed" "r_depends r = []" using assms by (auto simp: alone_def)
  show ?thesis
    by (simp add: fatal_try_def try_simps r alone_def requeue_dead_jobs_def found_dead_def)
qed

lemma retry_step:
  assumes "alone u m n Pending w"
  shows "alone u m (n + 1) (if m \<noteq> 0 \<and> m \<le> n + 1 then JobFailed else Pending)
    (try_once u (one_try (Retryable msg secs False) u) w)"
proof -
  obtain r where r: "workers w = []" "table w = [r]" "r_uuid r = u" "r_max r = m" "r_retry r = n"
    "r_state r = Pending" "r_depends r = []" using assms by (auto simp: alone_def)
  show ?thesis
    by (simp add: one_try_def try_simps r alone_def after_perform_def set_failed_def retry_postpone_def
        postpone_def set_pending_def with_result_def finishes_def)
qed

lemma retry_failed_stays:
  assumes "alone u m n JobFailed w" shows "alone u m n JobFailed (try_once u (one_try out u) w)"
proof -
  obtain r where r: "workers w = []" "table w = [r]" "r_uuid r = u" "r_max r = m" "r_retry r = n"
    "r_state r = JobFailed" "r_depends r = []" using assms by (auto simp: alone_def)
  show ?thesis by (simp add: one_try_def try_simps r alone_def)
qed

lemma conflict_step:
  assumes "alone u m n Pending w"
  shows "alone u m (n + 1) Pending (try_once u (one_try (Conflict msg) u) w)"
proof -
  obtain r where r: "workers w = []" "table w = [r]" "r_uuid r = u" "r_max r = m" "r_retry r = n"
    "r_state r = Pending" "r_depends r = []" using assms by (auto simp: alone_def)
  show ?thesis
    by (simp add: one_try_def try_simps r alone_def after_perform_def retry_postpone_def
        postpone_def set_pending_def with_result_def finishes_def)
qed

lemma tries_Suc: "tries (Suc n) es u w = try_once u (es u) (tries n es u w)" by (simp add: tries_def)

text \<open>A try that counts up and fails the job when the counter has reached a bound.\<close>

lemma tries_until:
  assumes "alone u m 0 Pending w" "0 < b"
    "\<And>n w. alone u m n Pending w \<Longrightarrow> alone u m (n + 1) (if b \<le> n + 1 then JobFailed else Pending) (try_once u (es u) w)"
    "\<And>n w. alone u m n JobFailed w \<Longrightarrow> alone u m n JobFailed (try_once u (es u) w)"
  shows "if n < b then alone u m n Pending (tries n es u w) else alone u m b JobFailed (tries n es u w)"
proof (induction n)
  case 0
  show ?case using assms(1,2) by (simp add: tries_def)
next
  case (Suc n)
  consider "n + 1 < b" | "b = n + 1" | "b \<le> n" by linarith
  then show ?case
  proof cases
    case 2
    then show ?thesis using Suc assms(3)[of n "tries n es u w"] by (simp add: tries_Suc)
  qed (use Suc assms(3)[of n "tries n es u w"] assms(4)[of b "tries n es u w"] in \<open>simp_all add: tries_Suc\<close>)
qed

text \<open>
  Property C35. How often a job with \<open>max_retries = m > 0\<close> is tried that depends on no other, has the table to
  itself and is handed out whenever it is pending. If it raises a retryable error each
  time, with the default \<open>ignore_retry=False\<close>, it fails at try \<open>m\<close>; if it kills its worker each time it is put back \<open>m + 1\<close> times and fails at
  try \<open>m + 2\<close>; if it runs into a PostgreSQL serialization error each time it is postponed forever,
  because the error becomes a retryable one only after \<open>perform\<close> has compared the counter.
\<close>

theorem job_tries:
  assumes "alone u m 0 Pending w" "0 < m"
  shows "(if n < m then alone u m n Pending (tries n (one_try (Retryable msg secs False)) u w)
      else alone u m m JobFailed (tries n (one_try (Retryable msg secs False)) u w))
    \<and> (if n < m + 2 then alone u m n Pending (tries n fatal_try u w)
      else alone u m (m + 2) JobFailed (tries n fatal_try u w))
    \<and> alone u m n Pending (tries n (one_try (Conflict text)) u w)"
proof (intro conjI)
  show "if n < m then alone u m n Pending (tries n (one_try (Retryable msg secs False)) u w)
      else alone u m m JobFailed (tries n (one_try (Retryable msg secs False)) u w)"
    using retry_step[of u m _ _ msg secs] retry_failed_stays assms(2) by (intro tries_until[OF assms]) auto
  show "if n < m + 2 then alone u m n Pending (tries n fatal_try u w)
      else alone u m (m + 2) JobFailed (tries n fatal_try u w)"
    using fatal_step[of u m] failed_stays assms(2)
    by (intro tries_until[OF assms(1)]) (simp_all add: Suc_le_eq)
  show "alone u m n Pending (tries n (one_try (Conflict text)) u w)"
    using assms(1) conflict_step by (induction n) (simp_all add: tries_def)
qed

definition demo_job :: job_row where
  "demo_job = (new_job 0 (demo_options 0))\<lparr>r_max := 3\<rparr>"

theorem job_tries_witness:
  "alone ''j'' 3 0 Pending ((empty_world 0 [])\<lparr>table := [demo_job]\<rparr>)
   \<and> alone ''j'' 3 3 JobFailed (tries 3 (one_try (Retryable ''busy'' None False)) ''j'' ((empty_world 0 [])\<lparr>table := [demo_job]\<rparr>))
   \<and> alone ''j'' 3 4 Pending (tries 4 fatal_try ''j'' ((empty_world 0 [])\<lparr>table := [demo_job]\<rparr>))"
proof -
  have a: "alone ''j'' 3 0 Pending ((empty_world 0 [])\<lparr>table := [demo_job]\<rparr>)"
    by (simp add: alone_def empty_world_def demo_job_def new_job_def demo_options_def)
  show ?thesis
    using a job_tries[OF a, of 3 "''busy''" None "[]"] job_tries[OF a, of 4 "''busy''" None "[]"] by simp
qed


section \<open>Where the order breaks down\<close>

text \<open>Three jobs in a chain, and a job that depends on two others.\<close>

definition link_row :: "string \<Rightarrow> job_state \<Rightarrow> string list \<Rightarrow> string list \<Rightarrow> job_row" where
  "link_row u s ps cs = (new_job 0 (demo_options 0))\<lparr>r_uuid := u, r_graph := Some ''g'', r_state := s,
     r_depends := ps, r_children := cs\<rparr>"

definition chain_table :: job_table where
  "chain_table = [link_row ''a'' Pending [] [''b''], link_row ''b'' WaitDependencies [''a''] [''c''],
     link_row ''c'' WaitDependencies [''b''] []]"

definition join_table :: job_table where
  "join_table = [link_row ''a'' Pending [] [''c''], link_row ''b'' Pending [] [''c''],
     link_row ''c'' WaitDependencies [''a'', ''b''] []]"

definition world_of :: "job_table \<Rightarrow> job_world" where
  "world_of T = (empty_world 0 [])\<lparr>table := T\<rparr>"

definition states_after :: "job_event list \<Rightarrow> job_table \<Rightarrow> job_state list" where
  "states_after es T = map r_state (table (run_job_events es (world_of T)))"

text \<open>Cancelling a job cancels its children but not theirs, which wait for a cancelled job.\<close>

lemma cancel_stops_at_children:
  "states_after [ButtonCancelled ''a''] chain_table = [JobCancelled, JobCancelled, WaitDependencies]"
  by code_simp

text \<open>A child of a done and a cancelled job is neither released nor cancelled.\<close>

lemma mixed_parents_wait:
  "states_after [ButtonCancelled ''a'', ButtonDone ''b''] join_table = [JobCancelled, Done, WaitDependencies]"
  by code_simp

text \<open>
  A worker that dies after it has committed the result leaves the children waiting: the runner requeues
  only jobs that are enqueued or started.
\<close>

lemma release_lost:
  "states_after [SetEnqueued ''a'', StartJob ''a'' 1, LockJob 1, Perform 1 (Returned ''ok''), Die 1, Tick 60, RequeueDead]
     chain_table = [Done, WaitDependencies, WaitDependencies]"
  by code_simp

text \<open>
  A worker that is slow to lock: meanwhile the job is requeued as dead, run and finished by a second
  worker; the first one then postpones the finished job, so that it is run again.
\<close>

definition slow_lock :: "job_event list" where
  "slow_lock = [SetEnqueued ''a'', StartJob ''a'' 1, Tick 11, RequeueDead, SetEnqueued ''a'', StartJob ''a'' 2, LockJob 2,
     Perform 2 (Returned ''ok''), Release 2, LockJob 1]"

lemma done_job_reopened:
  "states_after (butlast slow_lock) chain_table = [Done, Pending, WaitDependencies]
   \<and> states_after slow_lock chain_table = [Pending, Pending, WaitDependencies]"
  by (rule conjI; code_simp)

text \<open>
  The runner does not look at the row again before it enqueues: a job that is set to done by its button
  after the notifications were read releases its child, and is then enqueued and run once more.
\<close>

lemma late_enqueue_reopens:
  "states_after [ButtonDone ''a''] chain_table = [Done, Pending, WaitDependencies]
   \<and> states_after [ButtonDone ''a'', SetEnqueued ''a'', StartJob ''a'' 1] chain_table = [Started, Pending, WaitDependencies]"
  by (rule conjI; code_simp)

text \<open>
  When every job with an identity key already waits, nothing is stored, the jobs without a key included.
\<close>

definition keyed_options :: "nat \<Rightarrow> job_options" where
  "keyed_options v = (if v = 0 then (demo_options v)\<lparr>o_identity := ''k''\<rparr> else demo_options v)"

lemma unkeyed_jobs_dropped:
  "(case delay_graph False 0 ''g'' keyed_options two_groups 2 [(new_job 0 (keyed_options 0))\<lparr>r_uuid := ''old''\<rparr>] of
      Inr (AlreadyThere v u) \<Rightarrow> v = 0 \<and> u = ''old'' | _ \<Rightarrow> False)"
  by code_simp

end
