(* ===== verification/JobRunner.thy ===== *)
theory JobRunner
  imports JobManager JobRun
begin

text \<open>
  The loop of \<^verbatim>\<open>queue_job/jobrunner/runner.py\<close> for one database: the job table with its workers, the
  channels, and the notifications by which the trigger of \<^verbatim>\<open>post_init_hook.py\<close> keeps the channels
  informed. A cycle (requeue dead jobs, process notifications, run jobs) is one step; when an
  assertion of the channel manager fails it ends in an error, and the recovery by a new connection is
  not modelled. The main theorem is that the capacity of the root channel bounds the number of rows that
  are enqueued or started, whatever happens to the table in between.
\<close>

section \<open>The loop\<close>

record runner_site =
  s_manager :: manager
  s_world :: job_world
  s_notes :: "string list"

fun state_name :: "job_state \<Rightarrow> string" where
  "state_name WaitDependencies = ''wait_dependencies''"
| "state_name Pending = ''pending''"
| "state_name Enqueued = ''enqueued''"
| "state_name Started = ''started''"
| "state_name Done = ''done''"
| "state_name JobFailed = ''failed''"
| "state_name JobCancelled = ''cancelled''"

definition NOT_DONE :: "job_state list" where
  "NOT_DONE = [WaitDependencies, Pending, Enqueued, Started, JobFailed]"

text \<open>\<open>select_jobs\<close> and \<open>notify\<close>: the columns of a row, \<open>ids\<close> being its database id.\<close>

definition notify_row :: "string \<Rightarrow> (string \<Rightarrow> int) \<Rightarrow> job_row \<Rightarrow> manager \<Rightarrow> (runner_error + unit) \<times> manager" where
  "notify_row db ids r = notify db (r_channel r) (r_uuid r) (ids (r_uuid r)) (r_created r) (r_priority r) (r_eta r)
     (state_name (r_state r))"

fun notify_rows :: "string \<Rightarrow> (string \<Rightarrow> int) \<Rightarrow> job_table \<Rightarrow> manager \<Rightarrow> runner_error + manager" where
  "notify_rows db ids [] m = Inr m"
| "notify_rows db ids (r # rs) m = (case notify_row db ids r m of
      (Inl e, _) \<Rightarrow> Inl e
    | (Inr _, m') \<Rightarrow> notify_rows db ids rs m')"

definition initialize_database :: "string \<Rightarrow> (string \<Rightarrow> int) \<Rightarrow> job_table \<Rightarrow> manager \<Rightarrow> runner_error + manager" where
  "initialize_database db ids T = notify_rows db ids (filter (\<lambda>r. r_state r \<in> set NOT_DONE) T)"

text \<open>The notifications are taken from the end of the list.\<close>

fun process_notes :: "string \<Rightarrow> (string \<Rightarrow> int) \<Rightarrow> job_table \<Rightarrow> string list \<Rightarrow> manager \<Rightarrow> runner_error + manager" where
  "process_notes db ids T [] m = Inr m"
| "process_notes db ids T (u # us) m = (case find_row u T of
      None \<Rightarrow> process_notes db ids T us (remove_job u m)
    | Some r \<Rightarrow> (case notify_row db ids r m of
        (Inl e, _) \<Rightarrow> Inl e
      | (Inr _, m') \<Rightarrow> process_notes db ids T us m'))"

definition process_notifications :: "string \<Rightarrow> (string \<Rightarrow> int) \<Rightarrow> job_table \<Rightarrow> string list \<Rightarrow> manager \<Rightarrow> runner_error + manager" where
  "process_notifications db ids T notifies m = process_notes db ids T (rev notifies) m"

definition run_jobs :: "datetime \<Rightarrow> job_table \<Rightarrow> manager \<Rightarrow> job_table \<times> manager" where
  "run_jobs now T m = (case get_jobs_to_run now m of
      (js, m') \<Rightarrow> (fold (set_job_enqueued now) (map (\<lambda>j. cj_uuid (m_store m' j)) js) T, m'))"

text \<open>What the trigger reports of a change; deleted jobs that are done are left out.\<close>

definition trigger :: "job_table \<Rightarrow> job_table \<Rightarrow> string list" where
  "trigger T T' = map r_uuid (filter (\<lambda>r. r \<notin> set T) T')
     @ map r_uuid (filter (\<lambda>r. r_uuid r \<notin> r_uuid ` set T' \<and> r_state r \<noteq> Done) T)"

definition run_cycle :: "string \<Rightarrow> (string \<Rightarrow> int) \<Rightarrow> runner_site \<Rightarrow> runner_error + runner_site" where
  "run_cycle db ids s =
     (let w = s_world s; w1 = apply_job_event RequeueDead w; T1 = table w1 in
      case process_notifications db ids T1 (s_notes s @ trigger (table w) T1) (s_manager s) of
        Inl e \<Rightarrow> Inl e
      | Inr m1 \<Rightarrow> (case run_jobs (clock w) T1 m1 of
          (T2, m2) \<Rightarrow> Inr (s\<lparr>s_manager := m2, s_world := w1\<lparr>table := T2\<rparr>, s_notes := trigger T1 T2\<rparr>)))"

text \<open>Everything else that happens to the table; only the runner enqueues jobs.\<close>

definition change_table :: "job_event \<Rightarrow> runner_site \<Rightarrow> runner_site" where
  "change_table e s = (case e of
      SetEnqueued _ \<Rightarrow> s
    | _ \<Rightarrow> let w' = apply_job_event e (s_world s) in
        s\<lparr>s_world := w', s_notes := s_notes s @ trigger (table (s_world s)) (table w')\<rparr>)"

datatype site_event = Change job_event | Cycle

fun run_site :: "string \<Rightarrow> (string \<Rightarrow> int) \<Rightarrow> site_event list \<Rightarrow> runner_site \<Rightarrow> runner_error + runner_site" where
  "run_site db ids [] s = Inr s"
| "run_site db ids (Change e # es) s = run_site db ids es (change_table e s)"
| "run_site db ids (Cycle # es) s = ebind (run_cycle db ids s) (run_site db ids es)"

definition start_runner :: "string \<Rightarrow> (string \<Rightarrow> int) \<Rightarrow> string \<Rightarrow> job_world \<Rightarrow> runner_error + runner_site" where
  "start_runner db ids config w = ebind (simple_configure config (m_root new_manager)) (\<lambda>t.
     ebind (initialize_database db ids (table w) (new_manager\<lparr>m_root := t\<rparr>)) (\<lambda>m.
       Inr \<lparr>s_manager = m, s_world = w, s_notes = []\<rparr>))"

section \<open>Jobs that are enqueued or started\<close>

definition hot_row :: "job_row \<Rightarrow> bool" where
  "hot_row r \<longleftrightarrow> r_state r = Enqueued \<or> r_state r = Started"

definition hot :: "job_table \<Rightarrow> string set" where
  "hot T = r_uuid ` {r \<in> set T. hot_row r}"

text \<open>No event but the enqueueing makes a job hot.\<close>

lemma hot_map:
  assumes "\<And>r. r \<in> set T \<Longrightarrow> r_uuid (f r) = r_uuid r" "\<And>r. r \<in> set T \<Longrightarrow> hot_row (f r) \<Longrightarrow> hot_row r"
  shows "hot (map f T) \<subseteq> hot T"
  using assms by (force simp: hot_def)

lemma hot_filter: "hot (filter P T) \<subseteq> hot T" by (auto simp: hot_def)

lemma hot_append: "hot (T @ T') = hot T \<union> hot T'" by (auto simp: hot_def)

lemma hot_store:
  assumes "hot_row j \<Longrightarrow> r_uuid j \<in> hot T"
  shows "hot (store_job j T) \<subseteq> hot T"
proof
  fix u assume "u \<in> hot (store_job j T)"
  then obtain r where r: "r \<in> set (store_job j T)" "r_uuid r = u" "hot_row r" by (auto simp: hot_def)
  have "r \<in> set T \<or> r = j\<lparr>r_exec_time := exec_time j\<rparr>"
    using r(1) by (auto simp: store_job_def Let_def split: if_splits)
  then show "u \<in> hot T" using r(2,3) assms by (auto simp: hot_def hot_row_def)
qed

lemma hot_dependents:
  assumes "new \<in> {Pending, JobCancelled}" shows "hot (update_dependents new u s T) \<subseteq> hot T"
proof (cases "find_row u T")
  case (Some j)
  have "hot (map (\<lambda>c. if is_dependent T j s c then c\<lparr>r_state := new\<rparr> else c) T) \<subseteq> hot T"
    by (rule hot_map) (use assms in \<open>auto simp: hot_row_def split: if_splits\<close>)
  then show ?thesis by (simp add: update_dependents_def Some)
qed (simp add: update_dependents_def)

lemma hot_apply: "s \<in> {Done, Pending, JobCancelled} \<Longrightarrow> hot (apply_state now s res u T) \<subseteq> hot T"
proof -
  assume s: "s \<in> {Done, Pending, JobCancelled}"
  have cold: "\<not> hot_row (set_done now res j)" "\<not> hot_row (set_cancelled now res j)" "\<not> hot_row (set_pending ps res b j)"
    for j ps b by (auto simp: hot_row_def set_done_def set_cancelled_def)
  have st: "hot (store_job j T) \<subseteq> hot T" if "\<not> hot_row j" for j using hot_store that by blast
  show ?thesis
    using s st[OF cold(1)] st[OF cold(2)] st[OF cold(3)]
      hot_dependents[of Pending u Done] hot_dependents[of JobCancelled u JobCancelled]
    by (auto simp: apply_state_def change_job_state_def Let_def enqueue_waiting_def cancel_dependent_jobs_def
        split: option.split) blast+
qed


lemma hot_fold_apply:
  "s \<in> {Done, Pending, JobCancelled} \<Longrightarrow> hot (fold (apply_state now s res) us T) \<subseteq> hot T"
proof (induction us arbitrary: T)
  case (Cons u us)
  then show ?case using hot_apply[OF Cons.prems, of now res u T] by (auto dest!: Cons.IH[OF Cons.prems, THEN subsetD])
qed simp

lemma cold_performed: "\<not> hot_row (after_perform patt now out k)"
  by (auto simp: after_perform_def Let_def set_done_def set_failed_def retry_postpone_def hot_row_def split: outcome.split)

lemma cold_links: "\<not> hot_row r \<Longrightarrow> \<not> hot_row (links es r)"
proof (induction es arbitrary: r)
  case (Cons e es)
  obtain p c where e: "e = (p, c)" by (cases e)
  have "\<not> hot_row (link_job True p c r)" using Cons.prems by (simp add: link_job_def hot_row_def)
  then show ?case using Cons.IH by (simp add: e links_simps)
qed (simp add: links_simps)

lemma cold_graph: "\<not> hot_row (graph_row now fresh opts g v)"
  unfolding graph_row_def Let_def by (rule cold_links) (simp add: hot_row_def)

lemma hot_delay:
  assumes "fresh_delay h a opts w" "delay_graph False now fresh opts h a (table w) = Inr (Stored T')"
  shows "hot T' \<subseteq> hot (table w)"
proof -
  let ?vs = "vertices (connect_graphs h a)" let ?name = "\<lambda>v. o_uuid (opts v)"
  have f: "heap_ok h" "?vs \<noteq> []" "list_all (\<lambda>(p, c). p \<noteq> c) (edges (connect_graphs h a))" "inj_on ?name (set ?vs)"
    and new: "\<And>v. v \<in> set ?vs \<Longrightarrow> ?name v \<notin> known_uuids w"
    using assms(1) by (auto simp: fresh_delay_def list_all_iff distinct_map)
  have "r_uuid ` set (table w) \<subseteq> known_uuids w" by (auto simp: known_uuids_def)
  then have "?name ` set ?vs \<inter> r_uuid ` set (table w) = {}" using new by blast
  from delay_stores[OF f this assms(2)]
  have "T' = table w @ map (graph_row now fresh opts (connect_graphs h a)) ?vs" by simp
  moreover have "hot (map (graph_row now fresh opts (connect_graphs h a)) ?vs) = {}"
    using cold_graph by (auto simp: hot_def)
  ultimately show ?thesis by (simp add: hot_append)
qed

lemma hot_vacuum: "hot (autovacuum now chans T) \<subseteq> hot T"
  unfolding autovacuum_def
proof (induction chans arbitrary: T)
  case (Cons c chans)
  have "hot (vacuum_channel now c T) \<subseteq> hot T" unfolding vacuum_channel_def case_prod_beta by (rule hot_filter)
  then show ?case using Cons.IH[of "vacuum_channel now c T"] by auto
qed simp

lemma hot_dead: "hot (requeue_dead_jobs now lr ls T) \<subseteq> hot T"
  unfolding requeue_dead_jobs_def
  by (rule hot_map) (auto simp: requeue_dead_def hot_row_def split: if_splits)

lemma hot_start: "hot (table (start_job u pid w)) \<subseteq> hot (table w)"
proof (cases "find_row u (table w)")
  case (Some r)
  have r: "r \<in> set (table w)" "r_uuid r = u" using find_row_Some[OF Some] by auto
  have "hot (store_job (set_started (clock w) pid (load_job (table w) r)) (table w)) \<subseteq> hot (table w)" if "r_state r = Enqueued"
    by (rule hot_store) (use r that in \<open>auto simp: set_started_def hot_def hot_row_def\<close>)
  then show ?thesis by (auto simp: start_job_def Some Let_def)
qed (simp add: start_job_def)

lemma hot_step:
  assumes "\<And>u. e \<noteq> SetEnqueued u"
  shows "hot (table (apply_job_event e w)) \<subseteq> hot (table w)"
proof -
  have cold: "hot (store_job j T) \<subseteq> hot T" if "\<not> hot_row j" for j T using hot_store that by blast
  show ?thesis
    using assms
  proof (induction e w rule: apply_job_event.induct)
    case (1 h a fresh opts w)
    then show ?case using hot_delay[of h a opts w] by (auto split: sum.split delayed.split)
  next
    case (2 u w)
    then show ?case by blast
  next
    case (3 u pid w)
    then show ?case using hot_start by simp
  next
    case (4 pid w)
    have "\<not> hot_row (retry_postpone patt now msg secs ps j)" for patt now msg secs ps j
      by (simp add: hot_row_def retry_postpone_def)
    then show ?case using cold by (auto simp: lock_job_def Let_def split: option.split)
  next
    case (5 pid out w)
    then show ?case using cold[OF cold_performed] by (auto simp: perform_job_def Let_def split: option.split)
  next
    case (6 pid w)
    then show ?case using hot_dependents[of Pending _ Done] by (auto simp: release_job_def enqueue_waiting_def split: option.split)
  next
    case (9 u w)
    then show ?case using hot_apply by (simp add: button_done_def)
  next
    case (10 u w)
    then show ?case using hot_apply by (simp add: button_cancelled_def)
  next
    case (11 u w)
    then show ?case using hot_fold_apply by (simp add: requeue_def)
  next
    case (12 u w)
    then show ?case using hot_fold_apply by (simp add: requeue_def)
  qed (simp_all add: hot_dead hot_vacuum vacuum_world_def Let_def)
qed

lemma hot_enqueued: "hot (fold (set_job_enqueued now) us T) \<subseteq> hot T \<union> set us"
proof (induction us arbitrary: T)
  case (Cons u us)
  have "hot (set_job_enqueued now u T) \<subseteq> hot T \<union> {u}"
    by (auto simp: hot_def set_job_enqueued_def hot_row_def)
  then show ?case using Cons.IH[of "set_job_enqueued now u T"] by auto
qed simp

section \<open>Jobs that run in the root channel\<close>

definition rooted :: "manager \<Rightarrow> nat set" where
  "rooted m = kid_running (m_root m)"

definition rooted_uuids :: "manager \<Rightarrow> string set" where
  "rooted_uuids m = (\<lambda>j. cj_uuid (m_store m j)) ` rooted m"

definition root_capacity :: "manager \<Rightarrow> int option" where
  "root_capacity m = ch_capacity (ct_node (m_root m))"

lemma along_root:
  "kid_running (along f (drop_job j) q t) = (if q = [] then ch_running (f (ct_node t)) else kid_running t - {j})
   \<and> ct_node (along f (drop_job j) q t) = (if q = [] then f (ct_node t) else drop_job j (ct_node t))"
  by (cases t; cases q) (simp_all add: kid_running_def drop_job_def)

lemma op_capacity [simp]:
  "ch_capacity (drop_job j c) = ch_capacity c" "ch_capacity (queue_job_in st j c) = ch_capacity c"
  "ch_capacity (fail_job_in j c) = ch_capacity c" "ch_capacity (run_job_in j c) = ch_capacity c"
  by (simp_all add: drop_job_def queue_job_in_def fail_job_in_def run_job_in_def)

lemma op_running [simp]:
  "ch_running (drop_job j c) = ch_running c - {j}" "ch_running (queue_job_in st j c) = ch_running c - {j}"
  "ch_running (fail_job_in j c) = ch_running c - {j}"
  by (simp_all add: drop_job_def queue_job_in_def fail_job_in_def)

lemma set_running_capacity: "ch_capacity (ct_node (channel_set_running j q t)) = ch_capacity (ct_node t)"
  by (induction j q t rule: channel_set_running.induct) simp_all

lemma to_state_root:
  "root_capacity (to_state js j m) = root_capacity m \<and> m_store (to_state js j m) = m_store m \<and> m_jobs (to_state js j m) = m_jobs m
   \<and> (js \<noteq> ''enqueued'' \<and> js \<noteq> ''started'' \<longrightarrow> rooted (to_state js j m) \<subseteq> rooted m \<and> rooted m - {j} \<subseteq> rooted (to_state js j m))"
  by (auto simp: to_state_def Let_def root_capacity_def rooted_def channel_set_done_def channel_remove_def
      channel_set_pending_def channel_set_failed_def along_root set_running_capacity kid_running_def split: option.split)

lemma to_state_running:
  assumes m: "manager_ok m" and entry: "(cj_uuid (m_store m j), j) \<in> set (m_jobs m)" and js: "js = ''enqueued'' \<or> js = ''started''"
  shows "j \<in> rooted m \<Longrightarrow> rooted (to_state js j m) = rooted m"
    "j \<notin> tree_jobs (m_root m) \<Longrightarrow> rooted (to_state js j m) = insert j (rooted m)"
proof -
  let ?p = "cj_channel (m_store m j)"
  obtain d where d: "find_node ?p (m_root m) = Some d" using entry_node[OF m entry] by blast
  have "to_state js j m = m\<lparr>m_root := channel_set_running j ?p (m_root m)\<rparr>" using js by (auto simp: to_state_def Let_def)
  then have r: "rooted (to_state js j m) = (if climbs j ?p (m_root m) then insert j (rooted m) else rooted m)"
    using set_running_ok[OF manager_parts(1)[OF m], of j ?p d] d by (auto simp: rooted_def)
  show "j \<in> rooted m \<Longrightarrow> rooted (to_state js j m) = rooted m" using r by (auto simp: insert_absorb)
  have fresh: "j \<notin> tree_jobs t \<Longrightarrow> find_node q t = Some e \<Longrightarrow> climbs j q t" for q t e
  proof (induction q arbitrary: t)
    case Nil
    then show ?case using running_job[of t] by (auto simp: kid_running_def)
  next
    case (Cons n q)
    obtain c ks where t: "t = Chan c ks" by (cases t)
    obtain k where k: "get_subchannel_by_name t n = Some k" "find_node q k = Some e"
      using Cons.prems(2) by (auto split: option.splits)
    have "k \<in> set ks" using k(1) t by (auto simp: get_subchannel_by_name_def find_Some_iff)
    then have "j \<notin> tree_jobs k" using Cons.prems(1) t by auto
    then show ?case using Cons.IH[of k] k Cons.prems(1) running_job[of t] by (auto simp: kid_running_def)
  qed
  show "j \<notin> tree_jobs (m_root m) \<Longrightarrow> rooted (to_state js j m) = insert j (rooted m)" using r fresh[OF _ d] by simp
qed


definition limited :: "int \<Rightarrow> string set \<Rightarrow> manager \<Rightarrow> bool" where
  "limited n H m \<longleftrightarrow> manager_ok m \<and> root_capacity m = Some n \<and> int (card (rooted m)) \<le> n \<and> H \<subseteq> rooted_uuids m"

lemma rooted_jobs: "rooted m \<subseteq> tree_jobs (m_root m)" using running_job by (simp add: rooted_def)

lemma finite_rooted: "manager_ok m \<Longrightarrow> finite (rooted m)"
  using manager_parts(2)[of m] rooted_jobs[of m] jobs_known[of "m_root m"]
  by (intro finite_subset[of "rooted m" "{..<m_next m}"]) auto

lemma same_uuid:
  "manager_ok m \<Longrightarrow> i \<in> tree_jobs (m_root m) \<Longrightarrow> j \<in> tree_jobs (m_root m)
   \<Longrightarrow> cj_uuid (m_store m i) = cj_uuid (m_store m j) \<Longrightarrow> i = j"
  using manager_parts(3)[of m] by (metis option.inject)

lemma limited_shrink:
  assumes "limited n H m" "manager_ok m'" "root_capacity m' = root_capacity m" "rooted m' \<subseteq> rooted m" "rooted m - {j} \<subseteq> rooted m'"
    "\<And>i. i \<in> rooted m \<Longrightarrow> cj_uuid (m_store m' i) = cj_uuid (m_store m i)" "j \<in> rooted m \<Longrightarrow> cj_uuid (m_store m j) \<notin> H"
  shows "limited n H m'"
proof -
  have "card (rooted m') \<le> card (rooted m)"
    using assms(1,4) finite_rooted by (intro card_mono) (auto simp: limited_def)
  moreover have "u \<in> rooted_uuids m'" if u: "u \<in> H" for u
  proof -
    obtain i where i: "i \<in> rooted m" "u = cj_uuid (m_store m i)" using assms(1) u by (auto simp: limited_def rooted_uuids_def)
    then have "i \<noteq> j" using assms(7) u by blast
    then have "i \<in> rooted m'" using assms(5) i by blast
    then show ?thesis unfolding rooted_uuids_def by (rule image_eqI[rotated]) (simp add: assms(6)[OF i(1)] i(2))
  qed
  ultimately show ?thesis using assms(1-3) by (auto simp: limited_def)
qed

lemma drop_root:
  "rooted (drop_from_channel j m) = rooted m - {j} \<and> root_capacity (drop_from_channel j m) = root_capacity m"
  by (simp add: drop_from_channel_def rooted_def root_capacity_def channel_remove_def along_root kid_running_def)

lemma limited_remove:
  assumes "limited n H m" "u \<notin> H" shows "limited n H (remove_job u m)"
proof (cases "job_by_uuid m u")
  case (Some j)
  have m: "manager_ok m" using assms by (simp add: limited_def)
  have u: "cj_uuid (m_store m j) = u" using manager_parts(5)[OF m lookup_entry[OF Some]] by simp
  have "manager_ok (drop_from_channel j m)" using remove_job_ok[OF m, of u] Some by (simp add: remove_job_def)
  then have "limited n H (drop_from_channel j m)"
    by (rule limited_shrink[OF assms(1)]) (use drop_root u assms(2) in auto)
  then show ?thesis by (simp add: remove_job_def Some)
qed (use assms in \<open>simp add: remove_job_def\<close>)

lemma make_root:
  assumes m: "manager_ok m" and mk: "make_job job m = (i, m2)" and ch: "cj_channel job \<in> tree_paths (m_root m)"
    and fresh: "\<And>k. k \<in> tree_jobs (m_root m) \<Longrightarrow> cj_uuid (m_store m k) \<noteq> cj_uuid job"
  shows "manager_ok m2" "(cj_uuid (m_store m2 i), i) \<in> set (m_jobs m2)" "i \<notin> tree_jobs (m_root m2)" "rooted m2 = rooted m"
    "root_capacity m2 = root_capacity m" "cj_uuid (m_store m2 i) = cj_uuid job"
    "k \<in> tree_jobs (m_root m) \<Longrightarrow> m_store m2 k = m_store m k"
proof -
  show "manager_ok m2" "(cj_uuid (m_store m2 i), i) \<in> set (m_jobs m2)" using make_job_ok[OF m mk ch fresh] by auto
  have i: "i = m_next m" "m_root m2 = m_root m" "m_store m2 = (m_store m)(m_next m := job)" using mk by (auto simp: make_job_def)
  have lt: "k < m_next m" if "k \<in> tree_jobs (m_root m)" for k using manager_parts(2)[OF m] jobs_known that by blast
  show "i \<notin> tree_jobs (m_root m2)" using i lt by auto
  show "k \<in> tree_jobs (m_root m) \<Longrightarrow> m_store m2 k = m_store m k" using i lt[of k] by auto
  show "rooted m2 = rooted m" "root_capacity m2 = root_capacity m" "cj_uuid (m_store m2 i) = cj_uuid job"
    using i by (simp_all add: rooted_def root_capacity_def)
qed

lemma limited_make:
  assumes l: "limited n H m" and mk: "make_job job m = (i, m2)" and ch: "cj_channel job \<in> tree_paths (m_root m)"
    and fresh: "\<And>k. k \<in> tree_jobs (m_root m) \<Longrightarrow> cj_uuid (m_store m k) \<noteq> cj_uuid job"
  shows "limited n H m2" "js \<noteq> ''enqueued'' \<and> js \<noteq> ''started'' \<Longrightarrow> limited n H (to_state js i m2)"
    "js = ''enqueued'' \<or> js = ''started'' \<Longrightarrow> int (card (rooted m)) < n \<Longrightarrow> limited n (insert (cj_uuid job) H) (to_state js i m2)"
proof -
  have m: "manager_ok m" using l by (simp add: limited_def)
  note mr = make_root[OF m mk ch fresh]
  show l2: "limited n H m2"
  proof (rule limited_shrink[OF l mr(1,5), of "m_next m2"])
    have "m_next m2 \<notin> rooted m2"
      using manager_parts(2)[OF mr(1)] jobs_known[of "m_root m2"] rooted_jobs[of m2] by blast
    then show "m_next m2 \<in> rooted m \<Longrightarrow> cj_uuid (m_store m (m_next m2)) \<notin> H" using mr(4) by simp
    show "cj_uuid (m_store m2 k) = cj_uuid (m_store m k)" if "k \<in> rooted m" for k
      using mr(7) rooted_jobs[of m] that by auto
  qed (use mr(4) in auto)
  note ok = to_state_ok[OF mr(1,2), of js] and ts = to_state_root[of js i m2]
  have ni: "i \<notin> rooted m2" using mr(3) rooted_jobs by blast
  show "limited n H (to_state js i m2)" if "js \<noteq> ''enqueued'' \<and> js \<noteq> ''started''"
    by (rule limited_shrink[OF l2 ok, of i]) (use ts that ni in auto)
  show "limited n (insert (cj_uuid job) H) (to_state js i m2)"
    if h: "js = ''enqueued'' \<or> js = ''started''" and c: "int (card (rooted m)) < n"
  proof -
    have r: "rooted (to_state js i m2) = insert i (rooted m2)" by (rule to_state_running(2)[OF mr(1,2) h mr(3)])
    have "int (card (insert i (rooted m2))) \<le> n" using c mr(4) ni finite_rooted[OF mr(1)] by simp
    then show ?thesis using l2 ok ts r mr(6) by (auto simp: limited_def rooted_uuids_def)
  qed
qed

lemma ensure_root: "ct_node (ensure_path p t) = ct_node t" "ct_node (ensure_below q p t) = ct_node t"
proof -
  show p: "ct_node (ensure_path p t) = ct_node t" for p t by (cases t; cases p) auto
  show "ct_node (ensure_below q p t) = ct_node t" by (cases t; cases q) (auto simp: p)
qed

lemma limited_notify:
  assumes l: "limited n H m" and nt: "notify db name u seq created priority eta js m = (Inr x, m')"
    and H: "if js = ''enqueued'' \<or> js = ''started'' then u \<in> H else u \<notin> H"
  shows "limited n H m'"
proof -
  have m: "manager_ok m" using l by (simp add: limited_def)
  obtain p t where pt: "get_channel_by_name False True name (m_root m) = Inr (p, t)"
    using nt by (cases "get_channel_by_name False True name (m_root m)") (auto simp: notify_def)
  have ex: "extends (m_store m) [] (m_root m) t" and p: "p \<in> tree_paths t"
    using get_channel_ok[OF manager_parts(1)[OF m] pt] by blast+
  have cap: "ch_capacity (ct_node t) = ch_capacity (ct_node (m_root m))"
    using pt by (auto simp: get_channel_by_name_def Let_def ensure_root split: if_splits)
  define m1 where "m1 = m\<lparr>m_root := t\<rparr>"
  have m1: "manager_ok m1" using m ex unfolding manager_ok_def m1_def extends_def by auto
  have l1: "limited n H m1"
    using l ex cap m1 by (auto simp: limited_def m1_def rooted_def rooted_uuids_def root_capacity_def extends_def)
  let ?job = "\<lparr>cj_db = db, cj_channel = p, cj_uuid = u, cj_seq = seq, cj_created = created,
                     cj_priority = priority, cj_eta = eta\<rparr>"
  have p1: "cj_channel ?job \<in> tree_paths (m_root m1)" using p by (simp add: m1_def)
  show ?thesis
  proof (cases "job_by_uuid m1 u")
    case None
    have fresh: "cj_uuid (m_store m1 k) \<noteq> cj_uuid ?job" if "k \<in> tree_jobs (m_root m1)" for k
      using no_rival[OF m1 None that] by simp
    then have "u \<notin> rooted_uuids m1" using rooted_jobs[of m1] by (auto simp: rooted_uuids_def)
    then have "u \<notin> H" using l1 by (auto simp: limited_def)
    then have js: "js \<noteq> ''enqueued'' \<and> js \<noteq> ''started''" using H by (auto split: if_splits)
    obtain i m2 where mk: "make_job ?job m1 = (i, m2)" by fastforce
    have "m' = to_state js i m2" using nt pt None mk by (simp add: notify_def Let_def m1_def[symmetric])
    then show ?thesis using limited_make(2)[OF l1 mk p1 fresh js] by simp
  next
    case (Some j)
    have entry: "(u, j) \<in> set (m_jobs m1)" by (rule lookup_entry[OF Some])
    have u: "cj_uuid (m_store m1 j) = u" using manager_parts(5)[OF m1 entry] by simp
    have jr: "j \<in> rooted m1" if "u \<in> H"
    proof -
      obtain i where i: "i \<in> rooted m1" "cj_uuid (m_store m1 i) = u" using l1 \<open>u \<in> H\<close> by (auto simp: limited_def rooted_uuids_def)
      then have "map_of (m_jobs m1) u = Some i" using manager_parts(3)[OF m1] rooted_jobs by blast
      then show ?thesis using Some i by (auto simp: job_by_uuid_def split: option.splits if_splits)
    qed
    let ?same = "seq = cj_seq (m_store m1 j) \<and> priority = cj_priority (m_store m1 j) \<and> eta = cj_eta (m_store m1 j) \<and> p = cj_channel (m_store m1 j)"
    obtain i m2 where mk: "make_job ?job (remove_job u m1) = (i, m2)" by fastforce
    have m': "m' = (if ?same then to_state js j m1 else to_state js i m2)"
      using nt pt Some mk by (auto simp: notify_def Let_def m1_def[symmetric] split: if_splits)
    have e1: "(cj_uuid (m_store m1 j), j) \<in> set (m_jobs m1)" using entry u by simp
    show ?thesis
    proof (cases ?same)
      case True
      note ok = to_state_ok[OF m1 e1, of js] and ts = to_state_root[of js j m1]
      have "limited n H (to_state js j m1)"
      proof (cases "js = ''enqueued'' \<or> js = ''started''")
        case hotjs: True
        then have "rooted (to_state js j m1) = rooted m1" using to_state_running(1)[OF m1 e1 hotjs] jr H by simp
        then show ?thesis by (intro limited_shrink[OF l1 ok, of "m_next m1"])
          (use ts manager_parts(2)[OF m1] rooted_jobs[of m1] jobs_known[of "m_root m1"] in auto)
      next
        case False
        then show ?thesis by (intro limited_shrink[OF l1 ok, of j]) (use ts u H in auto)
      qed
      then show ?thesis using m' True by simp
    next
      case False
      let ?r = "remove_job u m1"
      have r: "?r = drop_from_channel j m1" by (simp add: remove_job_def Some)
      have "limited n (H - {u}) m1" using l1 by (auto simp: limited_def)
      then have lr: "limited n (H - {u}) ?r" by (rule limited_remove) simp
      have rok: "manager_ok ?r" and paths: "tree_paths (m_root ?r) = tree_paths (m_root m1)" using remove_job_ok[OF m1] by auto
      have fresh: "cj_uuid (m_store ?r k) \<noteq> cj_uuid ?job" if "k \<in> tree_jobs (m_root ?r)" for k
        using no_rival[OF rok removed_lookup[OF Some m1] that] by simp
      have pr: "cj_channel ?job \<in> tree_paths (m_root ?r)" using p1 paths by simp
      note lm = limited_make[OF lr mk pr fresh, simplified]
      have "limited n H (to_state js i m2)"
      proof (cases "js = ''enqueued'' \<or> js = ''started''")
        case hotjs: True
        have "card (rooted ?r) < card (rooted m1)"
        proof -
          have "u \<in> H" using H hotjs by (simp split: if_splits)
          then show ?thesis using drop_root[of j m1] r card_Diff1_less[OF finite_rooted[OF m1] jr] by simp
        qed
        then have "limited n (insert u (H - {u})) (to_state js i m2)"
          using lm(3)[OF hotjs] l1 by (simp add: limited_def)
        then show ?thesis using H hotjs by (simp add: insert_absorb)
      next
        case cold: False
        then have "H - {u} = H" using H by auto
        then show ?thesis using lm(2)[of js] cold by simp
      qed
      then show ?thesis using m' False by simp
    qed
  qed
qed

section \<open>The capacity of the root channel\<close>

lemma state_name_hot: "state_name s = ''enqueued'' \<or> state_name s = ''started'' \<longleftrightarrow> s = Enqueued \<or> s = Started"
  by (cases s) simp_all

lemma limited_row:
  assumes "limited n H m" "notify_row db ids r m = (Inr x, m')" "if hot_row r then r_uuid r \<in> H else r_uuid r \<notin> H"
  shows "limited n H m'"
  by (rule limited_notify[OF assms(1) assms(2)[unfolded notify_row_def]]) (use assms(3) in \<open>simp add: state_name_hot hot_row_def\<close>)

lemma limited_process:
  assumes "distinct (map r_uuid T)" "limited n (hot T) m" "process_notes db ids T us m = Inr m'"
  shows "limited n (hot T) m'"
  using assms(2,3)
proof (induction us arbitrary: m)
  case (Cons u us)
  show ?case
  proof (cases "find_row u T")
    case None
    then have "u \<notin> hot T" by (auto simp: find_row_None hot_def)
    then show ?thesis using Cons.IH[OF limited_remove[OF Cons.prems(1)]] Cons.prems(2) None by simp
  next
    case (Some r)
    have r: "r \<in> set T" "r_uuid r = u" using find_row_Some[OF Some] by auto
    have "if hot_row r then r_uuid r \<in> hot T else r_uuid r \<notin> hot T"
      using same_row[OF assms(1) r(1)] r(1) by (auto simp: hot_def)
    note lr = limited_row[OF Cons.prems(1) _ this]
    obtain z m1 where "notify_row db ids r m = (z, m1)" by fastforce
    then show ?thesis using Cons.IH[OF lr] Cons.prems(2) Some by (cases z) auto
  qed
qed simp

lemma limited_init:
  assumes "hot T = {}" "limited n {} m" "notify_rows db ids rs m = Inr m'" "set rs \<subseteq> set T"
  shows "limited n {} m'"
  using assms(2-4)
proof (induction rs arbitrary: m)
  case (Cons r rs)
  have "\<not> hot_row r" using Cons.prems(3) assms(1) by (auto simp: hot_def)
  then have "if hot_row r then r_uuid r \<in> {} else r_uuid r \<notin> {}" by simp
  note lr = limited_row[OF Cons.prems(1) _ this]
  obtain z m1 where "notify_row db ids r m = (z, m1)" by fastforce
  then show ?case using Cons.IH[OF lr] Cons.prems(2,3) by (cases z) auto
qed simp

lemma limited_round:
  assumes l: "limited n H m" and g: "get_jobs_to_run now m = (js, m')" and n: "0 < n"
  shows "limited n (H \<union> set (map (\<lambda>j. cj_uuid (m_store m' j)) js)) m'"
proof -
  have m: "manager_ok m" using l by (simp add: limited_def)
  obtain st t where c: "channel_jobs_to_run now (m_store m) (m_root m) = (js, st, t)" and m': "m' = m\<lparr>m_store := st, m_root := t\<rparr>"
    using g by (auto simp: get_jobs_to_run_def split: prod.splits)
  have ok: "manager_ok m'" and r: "round_ok (m_store m) [] (m_root m) js (m_store m') (m_root m')"
    using round_manager_ok[OF m g] by blast+
  have root: "rooted m' = rooted m \<union> set js" using r by (simp add: round_ok_def rooted_def)
  have uu: "cj_uuid (m_store m' k) = cj_uuid (m_store m k)" for k
    using r by (auto simp: round_ok_def cleared_own_def clear_etas_def)
  have "tree_round (m_root m) (m_root m')" using capacity_respected[where now = now and st = "m_store m" and t = "m_root m"] c m' by simp
  then have rd: "round_of (ct_node (m_root m)) (ct_node (m_root m'))"
    by (cases "m_root m"; cases "m_root m'") simp
  have cap: "ch_capacity (ct_node (m_root m)) = Some n" "int (card (rooted m)) \<le> n" using l by (auto simp: limited_def root_capacity_def)
  have "int (card (rooted m')) \<le> n" "root_capacity m' = Some n"
    using rd cap n by (auto simp: round_of_def rooted_def kid_running_def root_capacity_def)
  then show ?thesis using ok l root uu by (auto simp: limited_def rooted_uuids_def)
qed


text \<open>No two rows get the same uuid.\<close>

definition names_ok :: "job_table \<Rightarrow> bool" where "names_ok T \<longleftrightarrow> distinct (map r_uuid T)"

lemma names_map: "names_ok T \<Longrightarrow> (\<And>r. r \<in> set T \<Longrightarrow> r_uuid (f r) = r_uuid r) \<Longrightarrow> names_ok (map f T)"
proof -
  assume "names_ok T" "\<And>r. r \<in> set T \<Longrightarrow> r_uuid (f r) = r_uuid r"
  moreover from this(2) have "map r_uuid (map f T) = map r_uuid T" by simp
  ultimately show ?thesis by (simp only: names_ok_def)
qed

lemma names_store: "names_ok T \<Longrightarrow> names_ok (store_job j T)"
proof -
  assume T: "names_ok T"
  have "names_ok (map (\<lambda>x. if r_uuid x = r_uuid j then j\<lparr>r_exec_time := exec_time j\<rparr> else x) T)"
    by (rule names_map[OF T]) simp
  then show ?thesis using T by (auto simp: store_job_def Let_def names_ok_def)
qed

lemma names_dependents: "names_ok T \<Longrightarrow> names_ok (update_dependents new u s T)"
proof (cases "find_row u T")
  case (Some j)
  assume T: "names_ok T"
  have "names_ok (map (\<lambda>c. if is_dependent T j s c then c\<lparr>r_state := new\<rparr> else c) T)"
    by (rule names_map[OF T]) simp
  then show ?thesis by (simp add: update_dependents_def Some)
qed (simp add: update_dependents_def)

lemma names_apply: "names_ok T \<Longrightarrow> names_ok (apply_state now s res u T)"
  by (auto simp: apply_state_def change_job_state_def Let_def enqueue_waiting_def cancel_dependent_jobs_def
      intro: names_store names_dependents split: option.split)

lemma names_fold: "names_ok T \<Longrightarrow> names_ok (fold (apply_state now s res) us T)"
  by (induction us arbitrary: T) (simp_all add: names_apply)

lemma names_filter: "names_ok T \<Longrightarrow> names_ok (filter P T)"
  by (simp add: names_ok_def distinct_map_filter)

lemma names_vacuum: "names_ok T \<Longrightarrow> names_ok (autovacuum now chans T)"
  unfolding autovacuum_def
  by (induction chans arbitrary: T) (auto simp: vacuum_channel_def intro: names_filter)

lemma names_enqueued: "names_ok T \<Longrightarrow> names_ok (fold (set_job_enqueued now) us T)"
proof (induction us arbitrary: T)
  case (Cons u us)
  have "names_ok (set_job_enqueued now u T)" unfolding set_job_enqueued_def by (rule names_map[OF Cons.prems]) simp
  then show ?case using Cons.IH by simp
qed simp

lemma names_step: "names_ok (table w) \<Longrightarrow> names_ok (table (apply_job_event e w))"
proof (induction e w rule: apply_job_event.induct)
  case (1 h a fresh opts w)
  show ?case
  proof (cases "fresh_delay h a opts w \<and> (\<exists>T'. delay_graph False (clock w) fresh opts h a (table w) = Inr (Stored T'))")
    case True
    then obtain T' where fd: "fresh_delay h a opts w" and T': "delay_graph False (clock w) fresh opts h a (table w) = Inr (Stored T')" by blast
    obtain jobs where "T' = fold store_job jobs (table w)"
      using T' by (auto simp: delay_graph_def Let_def ebind_def split: sum.splits list.splits if_splits)
    moreover have "names_ok (fold store_job jobs T)" if "names_ok T" for T using that
      by (induction jobs arbitrary: T) (simp_all add: names_store)
    ultimately show ?thesis using fd T' 1 by simp
  qed (use 1 in \<open>auto split: sum.split delayed.split\<close>)
next
  case (2 u w)
  then show ?case using names_enqueued[of "table w" "clock w" "[u]"] by simp
next
  case (3 u pid w)
  then show ?case by (auto simp: start_job_def Let_def names_store split: option.split)
next
  case (4 pid w)
  then show ?case by (auto simp: lock_job_def Let_def names_store split: option.split)
next
  case (5 pid out w)
  then show ?case by (auto simp: perform_job_def Let_def names_store split: option.split)
next
  case (6 pid w)
  then show ?case by (auto simp: release_job_def enqueue_waiting_def names_dependents split: option.split)
next
  case (8 w)
  then show ?case by (auto simp: requeue_dead_jobs_def requeue_dead_def intro!: names_map)
qed (simp_all add: button_done_def button_cancelled_def requeue_def names_apply names_fold names_vacuum vacuum_world_def Let_def)

definition site_ok :: "int \<Rightarrow> runner_site \<Rightarrow> bool" where
  "site_ok n s \<longleftrightarrow> names_ok (table (s_world s)) \<and> limited n (hot (table (s_world s))) (s_manager s)"

lemma limited_mono: "limited n H m \<Longrightarrow> H' \<subseteq> H \<Longrightarrow> limited n H' m" by (auto simp: limited_def)

lemma site_change: "site_ok n s \<Longrightarrow> site_ok n (change_table e s)"
proof -
  assume s: "site_ok n s"
  have "site_ok n (s\<lparr>s_world := apply_job_event e (s_world s), s_notes := x\<rparr>)" if "\<And>u. e \<noteq> SetEnqueued u" for x
    using s hot_step[OF that, of "s_world s"] names_step limited_mono by (auto simp: site_ok_def)
  then show ?thesis using s by (auto simp: change_table_def Let_def split: job_event.split)
qed

lemma site_cycle:
  assumes s: "site_ok n s" and c: "run_cycle db ids s = Inr s'" and n: "0 < n"
  shows "site_ok n s'"
proof -
  let ?w = "s_world s" let ?w1 = "apply_job_event RequeueDead ?w" let ?T1 = "table ?w1"
  obtain m1 where m1: "process_notifications db ids ?T1 (s_notes s @ trigger (table ?w) ?T1) (s_manager s) = Inr m1"
    using c by (auto simp: run_cycle_def Let_def split: sum.splits)
  obtain js m2 where g: "get_jobs_to_run (clock ?w) m1 = (js, m2)" by fastforce
  let ?us = "map (\<lambda>j. cj_uuid (m_store m2 j)) js"
  let ?T2 = "fold (set_job_enqueued (clock ?w)) ?us ?T1"
  have s': "s' = s\<lparr>s_manager := m2, s_world := ?w1\<lparr>table := ?T2\<rparr>, s_notes := trigger ?T1 ?T2\<rparr>"
    using c m1 g by (simp add: run_cycle_def Let_def run_jobs_def)
  have names: "names_ok ?T1" using s names_step[of ?w RequeueDead] by (simp only: site_ok_def)
  have "limited n (hot ?T1) (s_manager s)"
    using s hot_step[of RequeueDead ?w] limited_mono by (auto simp: site_ok_def)
  then have "limited n (hot ?T1) m1"
    using limited_process names m1 unfolding process_notifications_def names_ok_def by blast
  from limited_round[OF this g n] have "limited n (hot ?T1 \<union> set ?us) m2" .
  then have "limited n (hot ?T2) m2" by (rule limited_mono) (rule hot_enqueued)
  then show ?thesis using names_enqueued[OF names] by (simp add: s' site_ok_def)
qed

lemma site_run: "site_ok n s \<Longrightarrow> 0 < n \<Longrightarrow> run_site db ids es s = Inr s' \<Longrightarrow> site_ok n s'"
proof (induction db ids es s rule: run_site.induct)
  case (3 db ids es s)
  then obtain s1 where s1: "run_cycle db ids s = Inr s1" by (cases "run_cycle db ids s") auto
  have "site_ok n s1" by (rule site_cycle[OF 3(2) s1 3(3)])
  then show ?case using 3(1)[of s1] 3(3,4) s1 by simp
qed (simp_all add: site_change)

lemma configured_idle: "simple_configure config (m_root new_manager) = Inr t \<Longrightarrow> kid_running t = {}"
proof -
  assume c: "simple_configure config (m_root new_manager) = Inr t"
  have new: "tree_ok (\<lambda>_. no_job) [] (m_root new_manager)" "kid_running (m_root new_manager) = {}"
    using new_channel_ok[of "\<lambda>_. no_job" "[]" ROOT_NAME "Some 1"]
    by (simp_all add: new_manager_def tree_ok_parts kids_ok_def passed_on_def kid_running_def)
  have "extends (\<lambda>_. no_job) [] (m_root new_manager) t"
    using configure_all_ok[OF new(1)] c by (auto simp: simple_configure_def split: sum.splits)
  then show ?thesis using new(2) by (simp add: extends_def)
qed

lemma start_ok:
  assumes "simple_configure config (m_root new_manager) = Inr t" "ch_capacity (ct_node t) = Some n" "0 < n"
    "hot (table w) = {}" "names_ok (table w)" "start_runner db ids config w = Inr s"
  shows "site_ok n s"
proof -
  let ?m = "new_manager\<lparr>m_root := t\<rparr>"
  have ok: "manager_ok ?m" by (rule configured_manager_ok[OF assms(1)])
  obtain m where i: "initialize_database db ids (table w) ?m = Inr m" and s: "s = \<lparr>s_manager = m, s_world = w, s_notes = []\<rparr>"
    using assms(1,6) by (auto simp: start_runner_def ebind_eq_Inr)
  have "rooted ?m = {}" using configured_idle[OF assms(1)] by (simp add: rooted_def)
  then have "limited n {} ?m" using ok assms(2,3) by (simp add: limited_def root_capacity_def)
  then have "limited n {} m"
    using limited_init[OF assms(4) _ i[unfolded initialize_database_def]] by auto
  then show ?thesis using assms(4,5) by (simp add: s site_ok_def)
qed

text \<open>
  Property C36. The root channel limits the whole database: if it is configured with a capacity
  \<open>n > 0\<close> and the runner starts when no job is enqueued or started, then never more than \<open>n\<close> rows of
  the table are enqueued or started at once. This holds for every sequence of runner cycles, new job
  graphs, starting, finishing and dying workers, buttons, wizards and clean-ups in between, and for every
  delay between a change and the notification of it.
\<close>

theorem enqueued_within_capacity:
  assumes "simple_configure config (m_root new_manager) = Inr t" "ch_capacity (ct_node t) = Some n" "0 < n"
    "hot (table w) = {}" "names_ok (table w)" "start_runner db ids config w = Inr s" "run_site db ids es s = Inr s'"
  shows "int (card (hot (table (s_world s')))) \<le> n"
proof -
  have "site_ok n s'" by (rule site_run[OF start_ok[OF assms(1-6)] assms(3,7)])
  then have l: "limited n (hot (table (s_world s'))) (s_manager s')" by (simp add: site_ok_def)
  have fin: "finite (rooted (s_manager s'))" using l finite_rooted by (simp add: limited_def)
  have "card (hot (table (s_world s'))) \<le> card (rooted_uuids (s_manager s'))"
    using l fin by (intro card_mono) (auto simp: limited_def rooted_uuids_def)
  also have "\<dots> \<le> card (rooted (s_manager s'))" unfolding rooted_uuids_def by (rule card_image_le[OF fin])
  finally show ?thesis using l by (simp add: limited_def)
qed

definition row_number :: "string \<Rightarrow> int" where "row_number u = int (length u)"

definition three_jobs :: job_world where
  "three_jobs = world_of (map (\<lambda>v. new_job 0 (demo_options v)) [0, 1, 2])"

definition busy_events :: "site_event list" where
  "busy_events = [Cycle, Change (StartJob ''j'' 1), Change (LockJob 1), Change (Perform 1 (Returned ''ok'')), Change (Tick 1), Cycle]"

theorem enqueued_within_capacity_witness:
  "case ebind (start_runner ''db'' row_number ''root:2'' three_jobs) (run_site ''db'' row_number busy_events) of
     Inl _ \<Rightarrow> False
   | Inr s' \<Rightarrow> card (hot (table (s_world s'))) \<le> 2 \<and> map r_state (table (s_world s')) = [Done, Enqueued, Enqueued]"
proof -
  have cfg: "case simple_configure ''root:2'' (m_root new_manager) of Inl _ \<Rightarrow> False | Inr t \<Rightarrow> ch_capacity (ct_node t) = Some 2"
    by code_simp
  then obtain t where t: "simple_configure ''root:2'' (m_root new_manager) = Inr t" "ch_capacity (ct_node t) = Some 2"
    by (auto split: sum.splits)
  have states: "case ebind (start_runner ''db'' row_number ''root:2'' three_jobs) (run_site ''db'' row_number busy_events) of
     Inl _ \<Rightarrow> False | Inr s' \<Rightarrow> map r_state (table (s_world s')) = [Done, Enqueued, Enqueued]" by code_simp
  then obtain s s' where s: "start_runner ''db'' row_number ''root:2'' three_jobs = Inr s" "run_site ''db'' row_number busy_events s = Inr s'"
    by (auto simp: ebind_def split: sum.splits)
  have "hot (table three_jobs) = {}" by (auto simp: hot_def hot_row_def three_jobs_def world_of_def)
  moreover have "names_ok (table three_jobs)" by code_simp
  ultimately have "int (card (hot (table (s_world s')))) \<le> 2"
    using enqueued_within_capacity[OF t(1,2) _ _ _ s] by simp
  then show ?thesis using states s by (simp add: ebind_def)
qed

section \<open>Stale channels\<close>

definition states_of :: "runner_error + runner_site \<Rightarrow> job_state list" where
  "states_of r = (case r of Inl _ \<Rightarrow> [] | Inr s \<Rightarrow> map r_state (table (s_world s)))"

text \<open>
  A pending job that is set back to wait for a requeued parent stays in the queue of its channel, because
  \<open>notify\<close> ignores that state: the next cycle enqueues it together with the parent.
\<close>

lemma waiting_job_enqueued:
  "states_of (ebind (start_runner ''db'' row_number ''root:2'' (world_of
       [link_row ''a'' Done [] [''b''], link_row ''b'' Pending [''a''] []]))
     (run_site ''db'' row_number [Change (SelectedRequeue ''a''), Change (SelectedRequeue ''b''), Cycle])) = [Enqueued, Enqueued]
   \<and> states_of (ebind (start_runner ''db'' row_number ''root:2'' (world_of
       [link_row ''a'' Done [] [''b''], link_row ''b'' Pending [''a''] []]))
     (run_site ''db'' row_number [Change (SelectedRequeue ''a''), Change (SelectedRequeue ''b'')])) = [Pending, WaitDependencies]"
  by (rule conjI; code_simp)

text \<open>The update that enqueues a job does not look at its state: a job cancelled in between is revived.\<close>

lemma cancelled_job_enqueued:
  "(case notify_rows ''db'' row_number [link_row ''a'' Pending [] []] new_manager of
      Inl _ \<Rightarrow> False
    | Inr m \<Rightarrow> map r_state (fst (run_jobs 0 [link_row ''a'' JobCancelled [] []] m)) = [Enqueued])"
  by code_simp

end
