(* ===== verification/JobFields.thy ===== *)
theory JobFields
  imports Prelude
begin

text \<open>
  What a job stores of the call it stands for: the field type \<^verbatim>\<open>JobSerialized\<close> with its encoder and
  decoder (\<^verbatim>\<open>queue_job/fields.py\<close>), the context that is kept and the methods that delay themselves
  (\<^verbatim>\<open>queue_job/models/base.py\<close>, \<^verbatim>\<open>queue_job/utils.py\<close>), and the class \<^verbatim>\<open>Job\<close> between storing and
  performing (\<^verbatim>\<open>queue_job/job.py\<close>). The text of the column is represented by the JSON value it denotes;
  of a key that occurs twice in an object the later value counts, as \<open>json.loads\<close> has it. Datetimes are whole seconds without a
  time zone. Arguments are what belongs to Odoo and to libraries: switching the environment to a user,
  the registry of models, \<open>dateutil.parser\<close>, \<open>lxml\<close>, \<open>repr\<close> of a float.
\<close>

section \<open>Values\<close>

datatype pyval =
    PNone
  | PBool bool
  | PInt int
  | PFloat rat
  | PStr string
  | PTuple "pyval list"
  | PList "pyval list"
  | PDict "(pyval \<times> pyval) list"
  | PRecords string "int list" int bool "(string \<times> pyval) list"
  | PDatetime datetime
  | PDate date
  | PElement string
  | PLazy pyval
  | PObject

text \<open>The arguments of \<open>PRecords\<close>: the model, the ids, and user, superuser mode and context of the environment.\<close>

fun ptruthy :: "pyval \<Rightarrow> bool" where
  "ptruthy PNone = False"
| "ptruthy (PBool b) = b"
| "ptruthy (PInt n) = (n \<noteq> 0)"
| "ptruthy (PFloat r) = (r \<noteq> 0)"
| "ptruthy (PStr s) = (s \<noteq> [])"
| "ptruthy (PTuple xs) = (xs \<noteq> [])"
| "ptruthy (PList xs) = (xs \<noteq> [])"
| "ptruthy (PDict kvs) = (kvs \<noteq> [])"
| "ptruthy (PRecords m ids uid su ctx) = (ids \<noteq> [])"
| "ptruthy (PLazy v) = ptruthy v"
| "ptruthy _ = True"

record denv =
  en_uid :: int
  en_su :: bool
  en_context :: "(string \<times> pyval) list"

record platform =
  pf_switch :: "denv \<Rightarrow> int option \<Rightarrow> bool option \<Rightarrow> denv"
  pf_models :: "string list"
  pf_parse :: "string \<Rightarrow> datetime option"
  pf_tostring :: "string \<Rightarrow> string"
  pf_fromstring :: "string \<Rightarrow> string option"
  pf_float :: "rat \<Rightarrow> string"
  pf_loads :: "string \<Rightarrow> json option"

definition with_context :: "denv \<Rightarrow> (string \<times> pyval) list \<Rightarrow> denv" where
  "with_context e c = e\<lparr>en_context := fold (\<lambda>(k, v). dict_set k v) c (en_context e)\<rparr>"

definition CONTEXT_KEYS :: "string list" where
  "CONTEXT_KEYS = [''tz'', ''lang'', ''allowed_company_ids'', ''force_company'', ''active_test'']"

definition prepare_context :: "(string \<times> pyval) list \<Rightarrow> (string \<times> pyval) list" where
  "prepare_context c = filter (\<lambda>(k, v). k \<in> set CONTEXT_KEYS) c"

text \<open>\<open>date.isoformat\<close> is \<open>date_str\<close>; \<open>datetime.isoformat\<close>:\<close>

definition iso_datetime :: "datetime \<Rightarrow> string" where
  "iso_datetime t = (let s = t mod 86400 in
     date_str (t div 86400 + 719163) @ ''T'' @ pad_zero 2 (str_int (s div 3600)) @ '':''
       @ pad_zero 2 (str_int (s mod 3600 div 60)) @ '':'' @ pad_zero 2 (str_int (s mod 60)))"

definition day_start :: "date \<Rightarrow> datetime" where "day_start d = (d - 719163) * 86400"

section \<open>The encoder\<close>

fun key_text :: "platform \<Rightarrow> pyval \<Rightarrow> py_error + string" where
  "key_text pf (PStr s) = Inr s"
| "key_text pf (PInt n) = Inr (str_int n)"
| "key_text pf (PFloat r) = Inr (pf_float pf r)"
| "key_text pf (PBool b) = Inr (if b then ''true'' else ''false'')"
| "key_text pf PNone = Inr ''null''"
| "key_text pf _ = Inl TypeError"

text \<open>An object whose text starts with the given entry: of two entries for one key the later one counts.\<close>

definition put_front :: "string \<Rightarrow> 'v \<Rightarrow> (string \<times> 'v) list \<Rightarrow> (string \<times> 'v) list" where
  "put_front k v d = (k, dict_get d k v) # filter (\<lambda>p. fst p \<noteq> k) d"

definition tagged :: "string \<Rightarrow> string \<Rightarrow> json" where
  "tagged t x = JObj [(''_type'', JStr t), (''value'', JStr x)]"

fun encode :: "platform \<Rightarrow> pyval \<Rightarrow> py_error + json"
  and encode_list :: "platform \<Rightarrow> pyval list \<Rightarrow> py_error + json list"
  and encode_items :: "platform \<Rightarrow> (pyval \<times> pyval) list \<Rightarrow> py_error + (string \<times> json) list"
  and encode_context :: "platform \<Rightarrow> (string \<times> pyval) list \<Rightarrow> py_error + (string \<times> json) list" where
  "encode pf PNone = Inr JNull"
| "encode pf (PBool b) = Inr (JBool b)"
| "encode pf (PInt n) = Inr (JInt n)"
| "encode pf (PFloat r) = Inr (JNum r)"
| "encode pf (PStr s) = Inr (JStr s)"
| "encode pf (PTuple xs) = ebind (encode_list pf xs) (\<lambda>js. Inr (JList js))"
| "encode pf (PList xs) = ebind (encode_list pf xs) (\<lambda>js. Inr (JList js))"
| "encode pf (PDict kvs) = ebind (encode_items pf kvs) (\<lambda>d. Inr (JObj d))"
| "encode pf (PRecords m ids uid su ctx) = ebind (encode_context pf ctx) (\<lambda>c.
     Inr (JObj [(''_type'', JStr ''odoo_recordset''), (''model'', JStr m), (''ids'', JList (map JInt ids)),
       (''uid'', JInt uid), (''su'', JBool su), (''context'', JObj c)]))"
| "encode pf (PDatetime t) = Inr (tagged ''datetime_isoformat'' (iso_datetime t))"
| "encode pf (PDate d) = Inr (tagged ''date_isoformat'' (date_str d))"
| "encode pf (PElement x) = Inr (tagged ''etree_element'' (pf_tostring pf x))"
| "encode pf (PLazy v) = encode pf v"
| "encode pf PObject = Inl TypeError"
| "encode_list pf [] = Inr []"
| "encode_list pf (x # xs) = ebind (encode pf x) (\<lambda>j. ebind (encode_list pf xs) (\<lambda>js. Inr (j # js)))"
| "encode_items pf [] = Inr []"
| "encode_items pf ((k, v) # d) = ebind (key_text pf k) (\<lambda>s. ebind (encode pf v) (\<lambda>j.
     ebind (encode_items pf d) (\<lambda>r. Inr (put_front s j r))))"
| "encode_context pf [] = Inr []"
| "encode_context pf ((k, v) # c) =
     (if k \<in> set CONTEXT_KEYS
      then ebind (encode pf v) (\<lambda>j. ebind (encode_context pf c) (\<lambda>r. Inr ((k, j) # r)))
      else encode_context pf c)"

section \<open>The decoder\<close>

definition as_dict :: "(string \<times> pyval) list \<Rightarrow> pyval" where
  "as_dict d = PDict (map (\<lambda>(k, v). (PStr k, v)) d)"

fun int_value :: "pyval \<Rightarrow> int option" where
  "int_value (PInt n) = Some n"
| "int_value _ = None"

fun int_values :: "pyval list \<Rightarrow> int list option" where
  "int_values [] = Some []"
| "int_values (x # xs) = (case (int_value x, int_values xs) of (Some n, Some ns) \<Rightarrow> Some (n # ns) | _ \<Rightarrow> None)"

fun entries :: "(pyval \<times> pyval) list \<Rightarrow> (string \<times> pyval) list option" where
  "entries [] = Some []"
| "entries ((PStr k, v) # d) = (case entries d of None \<Rightarrow> None | Some r \<Rightarrow> Some ((k, v) # r))"
| "entries _ = None"

text \<open>
  The three optional entries of a recordset. What Odoo makes of a user, a mode or ids of another type is
  not part of the code; it counts as a \<open>TypeError\<close>.
\<close>

definition read_uid :: "(string \<times> pyval) list \<Rightarrow> py_error + int option" where
  "read_uid d = (case map_of d ''uid'' of
      None \<Rightarrow> Inr None | Some PNone \<Rightarrow> Inr None | Some (PInt n) \<Rightarrow> Inr (Some n) | Some _ \<Rightarrow> Inl TypeError)"

definition read_su :: "(string \<times> pyval) list \<Rightarrow> py_error + bool option" where
  "read_su d = (case map_of d ''su'' of
      None \<Rightarrow> Inr None | Some PNone \<Rightarrow> Inr None | Some (PBool b) \<Rightarrow> Inr (Some b) | Some _ \<Rightarrow> Inl TypeError)"

definition read_context :: "(string \<times> pyval) list \<Rightarrow> denv \<Rightarrow> py_error + denv" where
  "read_context d e = (case map_of d ''context'' of
      None \<Rightarrow> Inr e
    | Some c \<Rightarrow> if \<not> ptruthy c then Inr e
        else (case c of
            PDict kvs \<Rightarrow> (case entries kvs of None \<Rightarrow> Inl TypeError | Some x \<Rightarrow> Inr (with_context e x))
          | _ \<Rightarrow> Inl TypeError))"

definition read_records :: "platform \<Rightarrow> denv \<Rightarrow> (string \<times> pyval) list \<Rightarrow> py_error + pyval" where
  "read_records pf env d = ebind (read_uid d) (\<lambda>uid. ebind (read_su d) (\<lambda>su.
     case map_of d ''model'' of
       Some (PStr m) \<Rightarrow>
         (if m \<notin> set (pf_models pf) then Inl KeyError
          else ebind (read_context d (pf_switch pf env uid su)) (\<lambda>e.
            case map_of d ''ids'' of
              None \<Rightarrow> Inl KeyError
            | Some (PList xs) \<Rightarrow> (case int_values xs of
                None \<Rightarrow> Inl TypeError
              | Some ids \<Rightarrow> Inr (PRecords m ids (en_uid e) (en_su e) (en_context e)))
            | Some _ \<Rightarrow> Inl TypeError))
     | _ \<Rightarrow> Inl KeyError))"

definition text_entry :: "(string \<times> pyval) list \<Rightarrow> (string \<Rightarrow> pyval option) \<Rightarrow> py_error + pyval" where
  "text_entry d f = (case map_of d ''value'' of
      None \<Rightarrow> Inl KeyError
    | Some (PStr s) \<Rightarrow> (case f s of None \<Rightarrow> Inl ValueError | Some v \<Rightarrow> Inr v)
    | Some _ \<Rightarrow> Inl TypeError)"

definition object_hook :: "platform \<Rightarrow> denv \<Rightarrow> (string \<times> pyval) list \<Rightarrow> py_error + pyval" where
  "object_hook pf env d = (case map_of d ''_type'' of
      None \<Rightarrow> Inr (as_dict d)
    | Some t \<Rightarrow>
        if t = PStr ''odoo_recordset'' then read_records pf env d
        else if t = PStr ''datetime_isoformat'' then text_entry d (\<lambda>s. map_option PDatetime (pf_parse pf s))
        else if t = PStr ''date_isoformat''
          then text_entry d (\<lambda>s. map_option (\<lambda>x. PDate (x div 86400 + 719163)) (pf_parse pf s))
        else if t = PStr ''etree_element'' then text_entry d (\<lambda>s. map_option PElement (pf_fromstring pf s))
        else Inr (as_dict d))"

fun decode :: "platform \<Rightarrow> denv \<Rightarrow> json \<Rightarrow> py_error + pyval"
  and decode_list :: "platform \<Rightarrow> denv \<Rightarrow> json list \<Rightarrow> py_error + pyval list"
  and decode_items :: "platform \<Rightarrow> denv \<Rightarrow> (string \<times> json) list \<Rightarrow> py_error + (string \<times> pyval) list" where
  "decode pf env JNull = Inr PNone"
| "decode pf env (JBool b) = Inr (PBool b)"
| "decode pf env (JInt n) = Inr (PInt n)"
| "decode pf env (JNum r) = Inr (PFloat r)"
| "decode pf env (JStr s) = Inr (PStr s)"
| "decode pf env (JList js) = ebind (decode_list pf env js) (\<lambda>xs. Inr (PList xs))"
| "decode pf env (JObj d) = ebind (decode_items pf env d) (object_hook pf env)"
| "decode_list pf env [] = Inr []"
| "decode_list pf env (j # js) = ebind (decode pf env j) (\<lambda>x. ebind (decode_list pf env js) (\<lambda>xs. Inr (x # xs)))"
| "decode_items pf env [] = Inr []"
| "decode_items pf env ((k, j) # d) = ebind (decode pf env j) (\<lambda>x. ebind (decode_items pf env d) (\<lambda>r. Inr ((k, x) # r)))"

section \<open>What comes back\<close>

text \<open>
  The value a reader gets: tuples become lists, the keys of a dict become strings, a lazy value its
  value; a recordset keeps model, ids, user and mode, and the kept part of its context overrides the
  reader's.
\<close>

fun restored :: "platform \<Rightarrow> denv \<Rightarrow> pyval \<Rightarrow> pyval"
  and restored_list :: "platform \<Rightarrow> denv \<Rightarrow> pyval list \<Rightarrow> pyval list"
  and restored_items :: "platform \<Rightarrow> denv \<Rightarrow> (pyval \<times> pyval) list \<Rightarrow> (string \<times> pyval) list"
  and restored_context :: "platform \<Rightarrow> denv \<Rightarrow> (string \<times> pyval) list \<Rightarrow> (string \<times> pyval) list" where
  "restored pf env (PTuple xs) = PList (restored_list pf env xs)"
| "restored pf env (PList xs) = PList (restored_list pf env xs)"
| "restored pf env (PDict kvs) = as_dict (restored_items pf env kvs)"
| "restored pf env (PRecords m ids uid su ctx) =
     (let e = with_context (pf_switch pf env (Some uid) (Some su)) (restored_context pf env ctx)
      in PRecords m ids (en_uid e) (en_su e) (en_context e))"
| "restored pf env (PLazy v) = restored pf env v"
| "restored pf env PNone = PNone"
| "restored pf env (PBool b) = PBool b"
| "restored pf env (PInt n) = PInt n"
| "restored pf env (PFloat r) = PFloat r"
| "restored pf env (PStr s) = PStr s"
| "restored pf env (PDatetime t) = PDatetime t"
| "restored pf env (PDate d) = PDate d"
| "restored pf env (PElement x) = PElement x"
| "restored pf env PObject = PObject"
| "restored_list pf env [] = []"
| "restored_list pf env (x # xs) = restored pf env x # restored_list pf env xs"
| "restored_items pf env [] = []"
| "restored_items pf env ((k, v) # d) =
     (case key_text pf k of
        Inl _ \<Rightarrow> restored_items pf env d
      | Inr s \<Rightarrow> put_front s (restored pf env v) (restored_items pf env d))"
| "restored_context pf env [] = []"
| "restored_context pf env ((k, v) # c) =
     (if k \<in> set CONTEXT_KEYS then (k, restored pf env v) # restored_context pf env c else restored_context pf env c)"

text \<open>
  What can be stored: no foreign objects, no unusual keys, no dict with the key \<open>_type\<close>, models of the
  registry, and dates and elements that their library reads back.
\<close>

fun storable :: "platform \<Rightarrow> pyval \<Rightarrow> bool"
  and storable_items :: "platform \<Rightarrow> (pyval \<times> pyval) list \<Rightarrow> bool"
  and storable_context :: "platform \<Rightarrow> (string \<times> pyval) list \<Rightarrow> bool"
  and storable_list :: "platform \<Rightarrow> pyval list \<Rightarrow> bool" where
  "storable pf (PTuple xs) = storable_list pf xs"
| "storable pf (PList xs) = storable_list pf xs"
| "storable pf (PDict kvs) = storable_items pf kvs"
| "storable pf (PRecords m ids uid su ctx) = (m \<in> set (pf_models pf) \<and> storable_context pf ctx)"
| "storable pf (PDatetime t) = (pf_parse pf (iso_datetime t) = Some t)"
| "storable pf (PDate d) = (pf_parse pf (date_str d) = Some (day_start d))"
| "storable pf (PElement x) = (pf_fromstring pf (pf_tostring pf x) = Some x)"
| "storable pf (PLazy v) = storable pf v"
| "storable pf PObject = False"
| "storable pf _ = True"
| "storable_items pf [] = True"
| "storable_items pf ((k, v) # d) =
     ((case key_text pf k of Inl _ \<Rightarrow> False | Inr s \<Rightarrow> s \<noteq> ''_type'') \<and> storable pf v \<and> storable_items pf d)"
| "storable_context pf [] = True"
| "storable_context pf ((k, v) # c) = ((k \<in> set CONTEXT_KEYS \<longrightarrow> storable pf v) \<and> storable_context pf c)"
| "storable_list pf [] = True"
| "storable_list pf (x # xs) = (storable pf x \<and> storable_list pf xs)"

section \<open>The round trip\<close>

lemma encode_kept_context: "encode_context pf ctx = encode_context pf (prepare_context ctx)"
  by (induction ctx) (auto simp: prepare_context_def)

lemma decode_items_keys: "decode_items pf env d = Inr r \<Longrightarrow> map fst r = map fst d"
  by (induction d arbitrary: r) (auto simp: ebind_eq_Inr)

lemma decode_items_lookup:
  "decode_items pf env d = Inr r \<Longrightarrow>
   (case map_of d k of None \<Rightarrow> map_of r k = None | Some j \<Rightarrow> (\<exists>v. decode pf env j = Inr v \<and> map_of r k = Some v))"
proof (induction d arbitrary: r)
  case (Cons e d)
  obtain k' j where e: "e = (k', j)" by (cases e)
  from Cons.prems obtain x r' where "decode pf env j = Inr x" "decode_items pf env d = Inr r'" "r = (k', x) # r'"
    by (auto simp: e ebind_eq_Inr)
  then show ?case using Cons.IH[of r'] by (cases "k = k'") (auto simp: e split: option.splits)
qed simp

lemma decode_items_filter:
  "decode_items pf env d = Inr r \<Longrightarrow>
   decode_items pf env (filter (\<lambda>p. fst p \<noteq> k) d) = Inr (filter (\<lambda>p. fst p \<noteq> k) r)"
  by (induction d arbitrary: r) (auto simp: ebind_eq_Inr)

lemma decode_put_front:
  assumes "decode pf env j = Inr v" "decode_items pf env d = Inr r"
  shows "decode_items pf env (put_front k j d) = Inr (put_front k v r)"
proof -
  have "decode pf env (dict_get d k j) = Inr (dict_get r k v)"
    using decode_items_lookup[OF assms(2), of k] assms(1) by (auto simp: dict_get_def split: option.splits)
  then show ?thesis using decode_items_filter[OF assms(2), of k] by (simp add: put_front_def)
qed

lemma put_front_keys: "set (map fst (put_front k v d)) \<subseteq> insert k (set (map fst d))"
  by (auto simp: put_front_def)

lemma map_of_put_front: "map_of (put_front k v d) k' = (if k' = k then Some (dict_get d k v) else map_of d k')"
proof -
  have "map_of (filter (\<lambda>p. fst p \<noteq> k) d) k' = map_of d k'" if "k' \<noteq> k" using that by (induction d) auto
  then show ?thesis by (simp add: put_front_def)
qed

lemma encode_items_untyped:
  "storable_items pf d \<Longrightarrow> encode_items pf d = Inr r \<Longrightarrow> map_of r ''_type'' = None"
proof (induction d arbitrary: r)
  case (Cons e d)
  obtain k v where e: "e = (k, v)" by (cases e)
  with Cons.prems obtain s j r' where *: "key_text pf k = Inr s" "s \<noteq> ''_type''" "encode_items pf d = Inr r'" "r = put_front s j r'"
    by (auto simp: ebind_eq_Inr split: sum.splits)
  have "map_of r' ''_type'' = None" using Cons.IH[of r'] Cons.prems e * by simp
  then show ?case using * by (simp add: map_of_put_front)
qed simp

lemma encode_context_keys: "encode_context pf c = Inr r \<Longrightarrow> set (map fst r) \<subseteq> set CONTEXT_KEYS"
proof (induction c arbitrary: r)
  case (Cons e c)
  obtain k v where e: "e = (k, v)" by (cases e)
  show ?case
  proof (cases "k \<in> set CONTEXT_KEYS")
    case True
    with Cons.prems obtain j r' where "encode_context pf c = Inr r'" "r = (k, j) # r'" by (auto simp: e ebind_eq_Inr)
    then show ?thesis using Cons.IH[of r'] True by simp
  qed (use Cons in \<open>simp add: e\<close>)
qed simp

lemma type_not_kept: "''_type'' \<notin> set CONTEXT_KEYS" by (simp add: CONTEXT_KEYS_def)

lemma decode_ints: "decode_list pf env (map JInt ids) = Inr (map PInt ids)"
  by (induction ids) simp_all

lemma int_values_ints [simp]: "int_values (map PInt ids) = Some ids"
  by (induction ids) simp_all

lemma entries_as_dict [simp]: "entries (map (\<lambda>(k, v). (PStr k, v)) d) = Some d"
  by (induction d) auto

lemma untyped_object:
  assumes "decode_items pf env d = Inr r" "map_of d ''_type'' = None"
  shows "decode pf env (JObj d) = Inr (as_dict r)"
  using decode_items_lookup[OF assms(1), of "''_type''"] assms by (simp add: object_hook_def)

lemma context_object:
  assumes "encode_context pf ctx = Inr c" "decode_items pf env c = Inr r"
  shows "decode pf env (JObj c) = Inr (as_dict r)"
proof (rule untyped_object[OF assms(2)])
  have "''_type'' \<notin> fst ` set c" using encode_context_keys[OF assms(1)] type_not_kept by auto
  then show "map_of c ''_type'' = None" by (simp add: map_of_eq_None_iff)
qed

lemma records_object:
  assumes "encode_context pf ctx = Inr c" "decode_items pf env c = Inr r" "m \<in> set (pf_models pf)"
  shows "decode pf env (JObj [(''_type'', JStr ''odoo_recordset''), (''model'', JStr m), (''ids'', JList (map JInt ids)),
       (''uid'', JInt uid), (''su'', JBool su), (''context'', JObj c)])
     = Inr (let e = with_context (pf_switch pf env (Some uid) (Some su)) r in PRecords m ids (en_uid e) (en_su e) (en_context e))"
proof -
  have c: "decode pf env (JObj c) = Inr (as_dict r)" by (rule context_object[OF assms(1,2)])
  have "with_context e [] = e" for e by (simp add: with_context_def)
  then show ?thesis using assms(3)
    by (auto simp: decode_ints c[simplified] object_hook_def read_records_def read_uid_def read_su_def read_context_def as_dict_def Let_def)
qed

lemma tagged_object [simp]:
  "decode pf env (tagged t s) = object_hook pf env [(''_type'', PStr t), (''value'', PStr s)]"
  by (simp add: tagged_def)

lemma encode_decode:
  "storable pf v \<Longrightarrow> \<exists>j. encode pf v = Inr j \<and> decode pf env j = Inr (restored pf env v)"
  "storable_list pf vs \<Longrightarrow> \<exists>js. encode_list pf vs = Inr js \<and> decode_list pf env js = Inr (restored_list pf env vs)"
  "storable_items pf kvs \<Longrightarrow> \<exists>d. encode_items pf kvs = Inr d \<and> decode_items pf env d = Inr (restored_items pf env kvs)"
  "storable_context pf ctx \<Longrightarrow>
     \<exists>c. encode_context pf ctx = Inr c \<and> decode_items pf env c = Inr (restored_context pf env ctx)"
proof (induction pf v and pf vs and pf kvs and pf ctx rule: encode_encode_list_encode_items_encode_context.induct)
  case (8 pf kvs)
  then obtain d where d: "encode_items pf kvs = Inr d" "decode_items pf env d = Inr (restored_items pf env kvs)" by auto
  have "map_of d ''_type'' = None" using encode_items_untyped 8 d(1) by simp
  from untyped_object[OF d(2) this] d(1) show ?case by simp
next
  case (9 pf m ids uid su ctx)
  then obtain c where c: "encode_context pf ctx = Inr c" "decode_items pf env c = Inr (restored_context pf env ctx)" by auto
  show ?case using records_object[OF c, of m ids uid su] 9 c(1) by (simp add: Let_def del: decode.simps)
next
  case (18 pf k v d)
  then obtain s where s: "key_text pf k = Inr s" by (auto split: sum.splits)
  with 18 obtain j r where "encode pf v = Inr j" "decode pf env j = Inr (restored pf env v)"
    "encode_items pf d = Inr r" "decode_items pf env r = Inr (restored_items pf env d)" by auto
  then show ?case using s decode_put_front by simp
qed (auto simp: object_hook_def text_entry_def day_start_def)

section \<open>Fields\<close>

datatype base_type = DictBase | ListBase | TupleBase | RecordBase

text \<open>The content of a column: nothing, the text of a JSON value, or another value handed to the field as it is.\<close>

datatype column = NoText | JsonText json | OtherText pyval

definition instance_of :: "base_type \<Rightarrow> pyval \<Rightarrow> bool" where
  "instance_of b v = (case v of
      PDict _ \<Rightarrow> b = DictBase
    | PList _ \<Rightarrow> b = ListBase
    | PTuple _ \<Rightarrow> b = TupleBase
    | PRecords _ _ _ _ _ \<Rightarrow> b = RecordBase
    | _ \<Rightarrow> False)"

definition base_type_default_json :: "base_type \<Rightarrow> denv \<Rightarrow> json" where
  "base_type_default_json b env = (case b of
      DictBase \<Rightarrow> JObj []
    | RecordBase \<Rightarrow> JObj [(''_type'', JStr ''odoo_recordset''), (''model'', JStr ''base''), (''ids'', JList []), (''uid'', JInt (en_uid env))]
    | _ \<Rightarrow> JList [])"

definition convert_to_cache :: "platform \<Rightarrow> base_type \<Rightarrow> pyval \<Rightarrow> py_error + column" where
  "convert_to_cache pf b v =
     (if instance_of b v then ebind (encode pf v) (\<lambda>j. Inr (JsonText j))
      else Inr (if ptruthy v then OtherText v else NoText))"

definition convert_to_record :: "platform \<Rightarrow> base_type \<Rightarrow> denv \<Rightarrow> column \<Rightarrow> py_error + pyval" where
  "convert_to_record pf b env c = (case c of
      NoText \<Rightarrow> decode pf env (base_type_default_json b env)
    | JsonText j \<Rightarrow> decode pf env j
    | OtherText (PStr s) \<Rightarrow> (case pf_loads pf s of None \<Rightarrow> Inl ValueError | Some j \<Rightarrow> decode pf env j)
    | OtherText _ \<Rightarrow> Inl TypeError)"

lemma field_roundtrip:
  assumes "storable pf v" "instance_of b v"
  shows "\<exists>c. convert_to_cache pf b v = Inr c \<and> convert_to_record pf b env c = Inr (restored pf env v)"
  using encode_decode(1)[OF assms(1), of env] assms(2) by (auto simp: convert_to_cache_def convert_to_record_def)

section \<open>The call of a job\<close>

record job_call =
  jc_records :: pyval
  jc_method :: string
  jc_args :: "pyval list"
  jc_kwargs :: "(pyval \<times> pyval) list"

text \<open>The columns of the call in \<open>_store_values\<close>, and \<open>_load_from_db_record\<close> with \<open>__init__\<close> on the stored row.\<close>

record call_columns =
  cc_records :: column
  cc_method :: string
  cc_args :: column
  cc_kwargs :: column

definition store_call :: "platform \<Rightarrow> job_call \<Rightarrow> py_error + call_columns" where
  "store_call pf c =
     ebind (convert_to_cache pf RecordBase (jc_records c)) (\<lambda>r.
     ebind (convert_to_cache pf TupleBase (PTuple (jc_args c))) (\<lambda>a.
     ebind (convert_to_cache pf DictBase (PDict (jc_kwargs c))) (\<lambda>k.
       Inr \<lparr>cc_records = r, cc_method = jc_method c, cc_args = a, cc_kwargs = k\<rparr>)))"

definition load_call :: "platform \<Rightarrow> denv \<Rightarrow> call_columns \<Rightarrow> py_error + job_call" where
  "load_call pf env cs =
     ebind (convert_to_record pf TupleBase env (cc_args cs)) (\<lambda>a.
     ebind (convert_to_record pf DictBase env (cc_kwargs cs)) (\<lambda>k.
     ebind (convert_to_record pf RecordBase env (cc_records cs)) (\<lambda>r.
       (case r of
          PRecords m ids uid su ctx \<Rightarrow>
            (case (case a of PList xs \<Rightarrow> Some xs | PTuple xs \<Rightarrow> Some xs | _ \<Rightarrow> None, k) of
               (Some xs, PDict kvs) \<Rightarrow> Inr \<lparr>jc_records = r, jc_method = cc_method cs, jc_args = xs, jc_kwargs = kvs\<rparr>
             | _ \<Rightarrow> Inl TypeError)
        | _ \<Rightarrow> Inl TypeError))))"

text \<open>\<open>func\<close>: the recordset a job is performed on knows the uuid of the job.\<close>

definition job_func :: "string \<Rightarrow> job_call \<Rightarrow> job_call" where
  "job_func uuid c = (case jc_records c of
      PRecords m ids uid su ctx \<Rightarrow> c\<lparr>jc_records := PRecords m ids uid su (dict_set ''job_uuid'' (PStr uuid) ctx)\<rparr>
    | _ \<Rightarrow> c)"

section \<open>Methods that delay themselves\<close>

definition env_set :: "(string \<times> string) list \<Rightarrow> string \<Rightarrow> bool" where
  "env_set vars k = (case map_of vars k of None \<Rightarrow> False | Some s \<Rightarrow> s \<noteq> [])"

definition ctx_true :: "(string \<times> pyval) list \<Rightarrow> string \<Rightarrow> bool" where
  "ctx_true c k = (case map_of c k of None \<Rightarrow> False | Some v \<Rightarrow> ptruthy v)"

definition must_run_without_delay :: "(string \<times> string) list \<Rightarrow> (string \<times> pyval) list \<Rightarrow> bool" where
  "must_run_without_delay vars c \<longleftrightarrow>
     env_set vars ''TEST_QUEUE_JOB_NO_DELAY'' \<or> env_set vars ''QUEUE_JOB__NO_DELAY''
     \<or> list_ex (ctx_true c) [''_job_force_sync'', ''test_queue_job_no_delay'', ''queue_job__no_delay'']"

definition PROPERTIES :: "string list" where
  "PROPERTIES = [''priority'', ''eta'', ''max_retries'', ''description'', ''channel'', ''identity_key'']"

datatype called = RunNow job_call | DelayCall job_call "(string \<times> pyval) list"

text \<open>
  \<open>auto_delay_wrapper\<close>: the method is called directly, or a job for the same call is delayed with the
  options the model's \<open>_job_options\<close> method gives, none when there is no such method.
\<close>

definition auto_delay :: "(string \<times> string) list \<Rightarrow> string option
    \<Rightarrow> (job_call \<Rightarrow> (string \<times> pyval) list) option \<Rightarrow> job_call \<Rightarrow> py_error + called" where
  "auto_delay vars key options c = (case jc_records c of
      PRecords m ids uid su ctx \<Rightarrow>
        let context_delay = (case key of None \<Rightarrow> True | Some k \<Rightarrow> k = [] \<or> ctx_true ctx k) in
        if ctx_true ctx ''job_uuid'' \<or> \<not> context_delay \<or> must_run_without_delay vars ctx then Inr (RunNow c)
        else let opts = (case options of None \<Rightarrow> [] | Some f \<Rightarrow> f c) in
          if list_all (\<lambda>(k, _). k \<in> set PROPERTIES) opts then Inr (DelayCall c opts) else Inl TypeError
    | _ \<Rightarrow> Inl AttributeError)"

section \<open>The stored call is the call\<close>

lemma context_sets: "map_of (fold (\<lambda>(k, v). dict_set k v) c d) k = (case map_of (rev c) k of None \<Rightarrow> map_of d k | Some v \<Rightarrow> Some v)"
  by (induction c arbitrary: d) (auto simp: map_add_def split: option.split)

lemma map_of_rev: "distinct (map fst d) \<Longrightarrow> map_of (rev d) k = map_of d k"
proof (induction d)
  case (Cons e d)
  then have "map_of (rev d) (fst e) = None" by (simp add: map_of_eq_None_iff)
  then show ?case using Cons by (cases e) (auto simp: map_add_def split: option.split)
qed simp

lemma restored_list_map: "restored_list pf env xs = map (restored pf env) xs"
  by (induction xs) simp_all

lemma restored_context_lookup:
  "map_of (restored_context pf env ctx) k =
     (if k \<in> set CONTEXT_KEYS then map_option (restored pf env) (map_of ctx k) else None)"
  by (induction ctx) auto

lemma restored_context_keys: "fst ` set (restored_context pf env ctx) \<subseteq> fst ` set ctx"
proof (induction ctx)
  case (Cons e ctx)
  obtain k v where "e = (k, v)" by (cases e)
  then show ?case using Cons by auto
qed simp

lemma restored_context_distinct: "distinct (map fst ctx) \<Longrightarrow> distinct (map fst (restored_context pf env ctx))"
proof (induction ctx)
  case (Cons e ctx)
  obtain k v where "e = (k, v)" by (cases e)
  then show ?case using Cons restored_context_keys[of pf env ctx] by auto
qed simp

text \<open>
  Property C37. A job makes the call it was created for. If what the call mentions can be stored, then
  loading the stored row in any environment gives the same method on the same records of the same model,
  with the same user and superuser mode, and the same arguments except that nested tuples have become
  lists and the keys of dicts strings. Of the context the language, the time zone, the companies and the
  test for archived records are those of the caller; every other key has the value of the environment
  that loads the job. Hypotheses: \<open>with_user\<close> gives the user and the mode asked for.
\<close>

theorem job_call_roundtrip:
  assumes "jc_records c = PRecords m ids uid su ctx" "distinct (map fst ctx)" "storable pf (jc_records c)"
    "storable_list pf (jc_args c)" "storable_items pf (jc_kwargs c)"
    "en_uid (pf_switch pf env (Some uid) (Some su)) = uid" "en_su (pf_switch pf env (Some uid) (Some su)) = su"
  shows "\<exists>cs c' ctx'. store_call pf c = Inr cs \<and> load_call pf env cs = Inr c' \<and> jc_method c' = jc_method c
    \<and> jc_records c' = PRecords m ids uid su ctx' \<and> jc_args c' = map (restored pf env) (jc_args c)
    \<and> PDict (jc_kwargs c') = restored pf env (PDict (jc_kwargs c))
    \<and> (\<forall>k. map_of ctx' k = (case map_of (prepare_context ctx) k of
         Some v \<Rightarrow> Some (restored pf env v) | None \<Rightarrow> map_of (en_context (pf_switch pf env (Some uid) (Some su))) k))"
proof -
  let ?rc = "restored_context pf env ctx" and ?e = "pf_switch pf env (Some uid) (Some su)"
  obtain r where r: "convert_to_cache pf RecordBase (jc_records c) = Inr r"
      "convert_to_record pf RecordBase env r = Inr (PRecords m ids uid su (en_context (with_context ?e ?rc)))"
    using field_roundtrip[OF assms(3), of RecordBase env] assms(1,6,7) by (auto simp: Let_def with_context_def instance_of_def)
  obtain a where a: "convert_to_cache pf TupleBase (PTuple (jc_args c)) = Inr a"
      "convert_to_record pf TupleBase env a = Inr (PList (map (restored pf env) (jc_args c)))"
    using field_roundtrip[of pf "PTuple (jc_args c)" TupleBase env] assms(4) by (auto simp: restored_list_map instance_of_def)
  obtain k where k: "convert_to_cache pf DictBase (PDict (jc_kwargs c)) = Inr k"
      "convert_to_record pf DictBase env k = Inr (as_dict (restored_items pf env (jc_kwargs c)))"
    using field_roundtrip[of pf "PDict (jc_kwargs c)" DictBase env] assms(5) by (auto simp: instance_of_def)
  have kept: "map_of (prepare_context ctx) x = (if x \<in> set CONTEXT_KEYS then map_of ctx x else None)" for x
    unfolding prepare_context_def by (induction ctx) auto
  have "map_of (rev ?rc) x = map_of ?rc x" for x
    using map_of_rev[OF restored_context_distinct[OF assms(2)]] .
  then have ctx: "map_of (en_context (with_context ?e ?rc)) x = (case map_of (prepare_context ctx) x of
      Some v \<Rightarrow> Some (restored pf env v) | None \<Rightarrow> map_of (en_context ?e) x)" for x
    by (auto simp: with_context_def context_sets restored_context_lookup kept split: option.split)
  have stored: "store_call pf c = Inr \<lparr>cc_records = r, cc_method = jc_method c, cc_args = a, cc_kwargs = k\<rparr>"
    by (simp add: store_call_def r a k)
  show ?thesis unfolding stored using ctx by (simp add: load_call_def r a k as_dict_def)
qed

text \<open>A concrete platform: two models, environments as Odoo has them, and a parser of ISO dates.\<close>

definition read_field :: "string \<Rightarrow> nat \<Rightarrow> nat \<Rightarrow> int" where
  "read_field s i n = int (read_nat (take n (drop i s)))"

definition read_iso :: "string \<Rightarrow> datetime option" where
  "read_iso s = (if length s < 10 then None else
     let y = read_field s 0 4; m = read_field s 5 2;
         leap = y mod 4 = 0 \<and> (y mod 100 \<noteq> 0 \<or> y mod 400 = 0);
         day = 365 * (y - 1) + (y - 1) div 4 - (y - 1) div 100 + (y - 1) div 400
           + days_before_month m + (if 2 < m \<and> leap then 1 else 0) + read_field s 8 2
     in Some (day_start day + read_field s 11 2 * 3600 + read_field s 14 2 * 60 + read_field s 17 2))"

definition odoo_like :: platform where
  "odoo_like = \<lparr>pf_switch = (\<lambda>e u s. e\<lparr>en_uid := (case u of None \<Rightarrow> en_uid e | Some n \<Rightarrow> n),
       en_su := (case s of None \<Rightarrow> u = None \<and> en_su e | Some b \<Rightarrow> b)\<rparr>),
     pf_models = [''base'', ''res.partner'', ''ejar.contract''], pf_parse = read_iso, pf_tostring = (\<lambda>s. s),
     pf_fromstring = Some, pf_float = (\<lambda>r. ''1.5''), pf_loads = (\<lambda>s. None)\<rparr>"

definition runner_env :: denv where
  "runner_env = \<lparr>en_uid = 1, en_su = True, en_context = [(''lang'', PStr ''en_US'')]\<rparr>"

definition demo_call :: job_call where
  "demo_call = \<lparr>jc_records = PRecords ''ejar.contract'' [4, 5] 7 False
       [(''lang'', PStr ''ar_001''), (''allowed_company_ids'', PList [PInt 2]), (''default_name'', PStr ''x'')],
     jc_method = ''poll_status'', jc_args = [PTuple [PInt 1, PDate 738000], PDatetime 1700000000],
     jc_kwargs = [(PInt 3, PStr ''x''), (PStr ''p'', PRecords ''res.partner'' [9] 7 False [])]\<rparr>"

theorem job_call_roundtrip_witness:
  "\<exists>cs c' ctx'. store_call odoo_like demo_call = Inr cs \<and> load_call odoo_like runner_env cs = Inr c'
     \<and> jc_records c' = PRecords ''ejar.contract'' [4, 5] 7 False ctx'
     \<and> map_of ctx' ''lang'' = Some (PStr ''ar_001'')"
proof -
  have d: "jc_records demo_call = PRecords ''ejar.contract'' [4, 5] 7 False
       [(''lang'', PStr ''ar_001''), (''allowed_company_ids'', PList [PInt 2]), (''default_name'', PStr ''x'')]"
    by (simp add: demo_call_def)
  have s: "storable odoo_like (jc_records demo_call)" "storable_list odoo_like (jc_args demo_call)"
    "storable_items odoo_like (jc_kwargs demo_call)"
    by code_simp+
  have k: "distinct (map fst [(''lang'', PStr ''ar_001''), (''allowed_company_ids'', PList [PInt 2]), (''default_name'', PStr ''x'')])"
    by simp
  have e: "en_uid (pf_switch odoo_like runner_env (Some 7) (Some False)) = 7"
    "en_su (pf_switch odoo_like runner_env (Some 7) (Some False)) = False" by (simp_all add: odoo_like_def)
  obtain cs c' ctx' where r: "store_call odoo_like demo_call = Inr cs" "load_call odoo_like runner_env cs = Inr c'"
    "jc_records c' = PRecords ''ejar.contract'' [4, 5] 7 False ctx'"
    "\<forall>k. map_of ctx' k = (case map_of (prepare_context [(''lang'', PStr ''ar_001''), (''allowed_company_ids'', PList [PInt 2]), (''default_name'', PStr ''x'')]) k of
         Some v \<Rightarrow> Some (restored odoo_like runner_env v) | None \<Rightarrow> map_of (en_context (pf_switch odoo_like runner_env (Some 7) (Some False))) k)"
    using job_call_roundtrip[OF d k s e] by blast
  have "map_of ctx' ''lang'' = Some (PStr ''ar_001'')" by (simp add: r(4) prepare_context_def CONTEXT_KEYS_def)
  then show ?thesis using r(1-3) by blast
qed

text \<open>
  A method that delays itself does so once: performed as a job, the stored call is made directly,
  whatever the environment of the worker.
\<close>

lemma load_call_records: "load_call pf env cs = Inr c \<Longrightarrow> instance_of RecordBase (jc_records c)"
proof -
  assume "load_call pf env cs = Inr c"
  then obtain a k r where r: "(case r of
          PRecords m ids uid su ctx \<Rightarrow>
            (case (case a of PList xs \<Rightarrow> Some xs | PTuple xs \<Rightarrow> Some xs | _ \<Rightarrow> None, k) of
               (Some xs, PDict kvs) \<Rightarrow> Inr \<lparr>jc_records = r, jc_method = cc_method cs, jc_args = xs, jc_kwargs = kvs\<rparr>
             | _ \<Rightarrow> Inl TypeError)
        | _ \<Rightarrow> Inl TypeError) = (Inr c :: py_error + job_call)"
    unfolding load_call_def ebind_eq_Inr by blast
  let ?args = "case a of PList xs \<Rightarrow> Some xs | PTuple xs \<Rightarrow> Some xs | _ \<Rightarrow> None"
  show ?thesis using r by (cases r; cases "?args"; cases k) (auto simp: instance_of_def)
qed

lemma auto_delay_once:
  assumes "load_call pf env cs = Inr c'" "uuid \<noteq> []"
  shows "auto_delay vars key options (job_func uuid c') = Inr (RunNow (job_func uuid c'))"
proof -
  obtain r where "jc_records c' = r" "instance_of RecordBase r"
    using load_call_records[OF assms(1)] by blast
  then obtain m ids uid su ctx where "jc_records c' = PRecords m ids uid su ctx" by (cases r) (simp_all add: instance_of_def)
  then show ?thesis using assms(2) by (simp add: auto_delay_def job_func_def ctx_true_def Let_def)
qed

text \<open>
  A dict that has a key \<open>_type\<close> of its own may come back as something else, or not at all: then the job
  cannot be loaded.
\<close>

lemma typed_dict_changes:
  "map_sum id jc_args (ebind (store_call odoo_like
     (demo_call\<lparr>jc_args := [PDict [(PStr ''_type'', PStr ''date_isoformat''), (PStr ''value'', PStr ''2023-11-14'')]]\<rparr>))
     (load_call odoo_like runner_env)) = Inr [PDate 738838]"
  "ebind (store_call odoo_like (demo_call\<lparr>jc_args := [PDict [(PStr ''_type'', PStr ''date_isoformat'')]]\<rparr>))
     (load_call odoo_like runner_env) = Inl KeyError"
  by code_simp+

end
