(* ===== verification/JobConfig.thy ===== *)
theory JobConfig
  imports JobFields JobLife JobChannels "HOL-Library.AList"
begin

text \<open>
  The configuration of jobs: channels (\<^verbatim>\<open>queue_job/models/queue_job_channel.py\<close>), job functions with
  their retry pattern and the cached lookup of a configuration
  (\<^verbatim>\<open>queue_job/models/queue_job_function.py\<close>), and what a job makes of it
  (\<^verbatim>\<open>queue_job/job.py\<close>). \<open>ast.literal_eval\<close> and the random number of \<open>randint\<close> are arguments. A
  channel's complete name is stored in the database and kept up to date by the ORM; here it is computed.
  When a channel is its own ancestor, which nothing forbids, the computation is cut off.
\<close>

section \<open>Retry patterns\<close>

datatype wait = Seconds int | Between "pyval list"

definition chars :: "string \<Rightarrow> pyval list" where
  "chars s = map (\<lambda>c. PStr [c]) s"

text \<open>\<open>tuple(v)\<close>\<close>

fun py_tuple :: "pyval \<Rightarrow> py_error + pyval list" where
  "py_tuple (PTuple xs) = Inr xs"
| "py_tuple (PList xs) = Inr xs"
| "py_tuple (PStr s) = Inr (chars s)"
| "py_tuple (PDict kvs) = Inr (map fst kvs)"
| "py_tuple (PRecords m ids uid su ctx) = Inr (map (\<lambda>i. PRecords m [i] uid su ctx) ids)"
| "py_tuple (PLazy v) = py_tuple v"
| "py_tuple _ = Inl TypeError"

fun key_int :: "pyval \<Rightarrow> py_error + int" where
  "key_int (PStr s) = (case py_int s of None \<Rightarrow> Inl ValueError | Some n \<Rightarrow> Inr n)"
| "key_int (PInt n) = Inr n"
| "key_int (PBool b) = Inr (if b then 1 else 0)"
| "key_int (PFloat r) = Inr (if 0 \<le> r then \<lfloor>r\<rfloor> else \<lceil>r\<rceil>)"
| "key_int (PRecords m ids uid su ctx) = Inr (case ids of [] \<Rightarrow> 0 | i # _ \<Rightarrow> i)"
| "key_int (PLazy v) = key_int v"
| "key_int _ = Inl TypeError"

fun parse_entries :: "(int \<times> wait) list \<Rightarrow> (pyval \<times> pyval) list \<Rightarrow> py_error + (int \<times> wait) list" where
  "parse_entries acc [] = Inr acc"
| "parse_entries acc ((k, v) # d) =
     ebind (case v of
         PInt n \<Rightarrow> Inr (Seconds n)
       | PBool b \<Rightarrow> Inr (Seconds (if b then 1 else 0))
       | _ \<Rightarrow> ebind (py_tuple v) (\<lambda>xs. Inr (Between xs)))
       (\<lambda>w. ebind (key_int k) (\<lambda>n. parse_entries (AList.update n w acc) d))"

text \<open>\<open>_parse_retry_pattern\<close>: a key that is no number empties the whole pattern, other errors are not caught.\<close>

definition parse_retry_pattern :: "pyval \<Rightarrow> py_error + (int \<times> wait) list" where
  "parse_retry_pattern p = (case p of
      PDict d \<Rightarrow> (case parse_entries [] d of Inl ValueError \<Rightarrow> Inr [] | r \<Rightarrow> r)
    | _ \<Rightarrow> Inl AttributeError)"

datatype setup_error =
    Refused string
  | ConstraintFailed
  | Raised py_error

text \<open>\<open>_retry_value_type_check\<close> and \<open>_check_retry_pattern\<close>\<close>

fun retry_value_type_check :: "pyval \<Rightarrow> py_error + unit"
  and retry_values_type_check :: "pyval list \<Rightarrow> py_error + unit" where
  "retry_value_type_check (PTuple xs) = (if length xs \<noteq> 2 then Inl ValueError else retry_values_type_check xs)"
| "retry_value_type_check (PList xs) = (if length xs \<noteq> 2 then Inl ValueError else retry_values_type_check xs)"
| "retry_value_type_check v = ebind (key_int v) (\<lambda>_. Inr ())"
| "retry_values_type_check [] = Inr ()"
| "retry_values_type_check (x # xs) = ebind (retry_value_type_check x) (\<lambda>_. retry_values_type_check xs)"

definition check_retry_pattern :: "pyval \<Rightarrow> setup_error + unit" where
  "check_retry_pattern p =
     (if \<not> ptruthy p then Inr ()
      else case p of
        PDict d \<Rightarrow> (case retry_values_type_check (map fst d @ map snd d) of
            Inr _ \<Rightarrow> Inr ()
          | Inl ValueError \<Rightarrow> Inl (Refused ''retry pattern'')
          | Inl e \<Rightarrow> Inl (Raised e))
      | _ \<Rightarrow> Inl (Raised AttributeError))"

text \<open>
  \<open>_inverse_edit_retry_pattern\<close> with the field's conversions and the constraint: what the text of the
  form leaves in the field. A \<open>TypeError\<close> or \<open>ValueError\<close> of the conversion or of the check becomes the
  error shown to the user.
\<close>

definition inverse_error :: "setup_error \<Rightarrow> setup_error" where
  "inverse_error e = (if e \<in> {Raised TypeError, Raised ValueError} then Refused ''retry pattern'' else e)"

definition edit_retry_pattern :: "platform \<Rightarrow> (string \<Rightarrow> pyval option) \<Rightarrow> denv \<Rightarrow> string \<Rightarrow> setup_error + pyval" where
  "edit_retry_pattern pf literal_eval env text =
     (let edited = strip text in
      ebind (if edited = [] then Inr (PDict [])
             else case literal_eval edited of None \<Rightarrow> Inl (Refused ''retry pattern'') | Some v \<Rightarrow> Inr v) (\<lambda>v.
      case ebind (convert_to_cache pf DictBase v) (convert_to_record pf DictBase env) of
        Inl e \<Rightarrow> Inl (inverse_error (Raised e))
      | Inr p \<Rightarrow> (case check_retry_pattern p of Inl e \<Rightarrow> Inl (inverse_error e) | Inr _ \<Rightarrow> Inr p)))"

text \<open>
  \<open>_get_retry_seconds\<close>: the delay the exception asks for, or that of the last entry the counter has
  reached, drawn between its two ends when it has two.
\<close>

definition draw :: "(int \<Rightarrow> int \<Rightarrow> int) \<Rightarrow> pyval list \<Rightarrow> py_error + int" where
  "draw randint xs = (case map int_value xs of
      Some a # Some b # _ \<Rightarrow> if a \<le> b then Inr (randint a b) else Inl ValueError
    | _ \<Rightarrow> Inl TypeError)"

definition get_retry_seconds :: "(int \<Rightarrow> int \<Rightarrow> int) \<Rightarrow> (int \<times> wait) list \<Rightarrow> int \<Rightarrow> int option \<Rightarrow> py_error + int" where
  "get_retry_seconds randint patt retry seconds =
     (case (if seconds \<noteq> None \<and> seconds \<noteq> Some 0 then Seconds (the seconds)
            else case takeWhile (\<lambda>(n, _). n \<le> retry) (sort_key fst patt) of
                [] \<Rightarrow> Seconds RETRY_INTERVAL
              | x # xs \<Rightarrow> snd (last (x # xs))) of
        Seconds s \<Rightarrow> Inr s
      | Between xs \<Rightarrow> draw randint xs)"

subsection \<open>Reading a pattern back\<close>

subsection \<open>The delay of a retry\<close>

text \<open>A pattern as users write it: for a count of tries a number of seconds or two bounds.\<close>

type_synonym pattern_entry = "int \<times> (int + int \<times> int)"

fun literal_entry :: "pattern_entry \<Rightarrow> pyval \<times> pyval" where
  "literal_entry (k, Inl s) = (PInt k, PInt s)"
| "literal_entry (k, Inr (a, b)) = (PInt k, PTuple [PInt a, PInt b])"

fun stored_entry :: "pattern_entry \<Rightarrow> pyval \<times> pyval" where
  "stored_entry (k, Inl s) = (PStr (str_int k), PInt s)"
| "stored_entry (k, Inr (a, b)) = (PStr (str_int k), PList [PInt a, PInt b])"

fun parsed_entry :: "pattern_entry \<Rightarrow> int \<times> wait" where
  "parsed_entry (k, Inl s) = (k, Seconds s)"
| "parsed_entry (k, Inr (a, b)) = (k, Between [PInt a, PInt b])"

fun delay_of :: "(int \<Rightarrow> int \<Rightarrow> int) \<Rightarrow> int + int \<times> int \<Rightarrow> int" where
  "delay_of randint (Inl s) = s"
| "delay_of randint (Inr (a, b)) = randint a b"

text \<open>The reference: the entry with the greatest count that has been reached.\<close>

definition reached :: "pattern_entry list \<Rightarrow> int \<Rightarrow> int set" where
  "reached ps n = {k \<in> fst ` set ps. k \<le> n}"

definition expected_delay :: "(int \<Rightarrow> int \<Rightarrow> int) \<Rightarrow> pattern_entry list \<Rightarrow> int \<Rightarrow> int" where
  "expected_delay randint ps n =
     (if reached ps n = {} then RETRY_INTERVAL else delay_of randint (the (map_of ps (Max (reached ps n)))))"

lemma take_sorted: "sorted (map fst xs) \<Longrightarrow> takeWhile (\<lambda>(n, _). n \<le> r) xs = filter (\<lambda>(n, _). n \<le> r) xs"
proof (induction xs)
  case (Cons x xs)
  obtain a w where x: "x = (a, w)" by (cases x)
  have "filter (\<lambda>(n, _). n \<le> r) xs = []" if "\<not> a \<le> r"
    using Cons.prems x that by (fastforce simp: filter_empty_conv)
  then show ?case using Cons x by simp
qed simp

lemma last_sorted: "sorted (map fst xs) \<Longrightarrow> xs \<noteq> [] \<Longrightarrow> fst (last xs) = Max (fst ` set xs)"
proof (induction xs)
  case (Cons x xs)
  show ?case
  proof (cases "xs = []")
    case False
    then have l: "fst (last xs) = Max (fst ` set xs)" using Cons by simp
    moreover have "fst x \<le> fst (last xs)" using Cons.prems False by simp
    ultimately show ?thesis using False by (simp add: max_def)
  qed simp
qed simp

lemma last_reached:
  fixes ps :: "('a :: linorder \<times> 'b) list"
  assumes "distinct (map fst ps)"
  shows "(case takeWhile (\<lambda>(n, _). n \<le> r) (sort_key fst ps) of [] \<Rightarrow> None | x # xs \<Rightarrow> Some (snd (last (x # xs))))
    = (let K = {k \<in> fst ` set ps. k \<le> r} in if K = {} then None else map_of ps (Max K))"
proof -
  let ?f = "filter (\<lambda>(n, _). n \<le> r) (sort_key fst ps)" and ?K = "{k \<in> fst ` set ps. k \<le> r}"
  have tw: "takeWhile (\<lambda>(n, _). n \<le> r) (sort_key fst ps) = ?f" by (rule take_sorted) simp
  have K: "fst ` set ?f = ?K" by force
  have c: "(case xs of [] \<Rightarrow> None | x # xs \<Rightarrow> Some (snd (last (x # xs)))) = (if xs = [] then None else Some (snd (last xs)))"
    for xs :: "('a \<times> 'b) list" by (cases xs) simp_all
  show ?thesis unfolding tw c Let_def
  proof (cases "?f = []")
    case True
    then have "?K = {}" unfolding K[symmetric] by simp
    then show "(if ?f = [] then None else Some (snd (last ?f))) = (if ?K = {} then None else map_of ps (Max ?K))"
      using True by presburger
  next
    case False
    have "sorted (map fst ?f)" by (simp add: sorted_filter)
    then have m: "fst (last ?f) = Max ?K" using last_sorted[OF _ False] K by simp
    have "(fst (last ?f), snd (last ?f)) \<in> set ps" using last_in_set[OF False] by simp
    then have "map_of ps (fst (last ?f)) = Some (snd (last ?f))" using map_of_is_SomeI[OF assms] by blast
    then have "map_of ps (Max ?K) = Some (snd (last ?f))" unfolding m .
    moreover have "?K \<noteq> {}" unfolding K[symmetric] image_is_empty set_empty by (rule False)
    ultimately show "(if ?f = [] then None else Some (snd (last ?f))) = (if ?K = {} then None else map_of ps (Max ?K))"
      using False by presburger
  qed
qed

lemma update_fresh: "k \<notin> fst ` set acc \<Longrightarrow> AList.update k v acc = acc @ [(k, v)]"
  by (induction acc) auto

lemma parse_stored:
  "distinct (map fst acc @ map fst ps) \<Longrightarrow>
   parse_entries acc (map stored_entry ps) = Inr (acc @ map parsed_entry ps)"
proof (induction ps arbitrary: acc)
  case (Cons p ps)
  obtain k w where p: "p = (k, w)" by (cases p)
  have f: "fst (parsed_entry q) = fst q" for q by (cases q rule: parsed_entry.cases) simp_all
  have IH: "parse_entries (acc @ [parsed_entry p]) (map stored_entry ps) = Inr ((acc @ [parsed_entry p]) @ map parsed_entry ps)"
    by (rule Cons.IH) (use Cons.prems p in \<open>auto simp: f\<close>)
  have "parse_entries acc (map stored_entry (p # ps)) = parse_entries (AList.update k (snd (parsed_entry p)) acc) (map stored_entry ps)"
    by (cases w) (auto simp: p)
  moreover have "AList.update k (snd (parsed_entry p)) acc = acc @ [parsed_entry p]"
  proof -
    have "parsed_entry p = (k, snd (parsed_entry p))" using f[of p] p by (metis fst_conv prod.collapse)
    then show ?thesis using Cons.prems p update_fresh[of k acc] by auto
  qed
  ultimately show ?case using IH by simp
qed simp

lemma stored_check: "retry_values_type_check (map fst (map stored_entry ps) @ map snd (map stored_entry ps)) = Inr ()"
proof -
  have app: "retry_values_type_check (xs @ ys) = ebind (retry_values_type_check xs) (\<lambda>_. retry_values_type_check ys)" for xs ys
    by (induction xs) (auto simp: ebind_def split: sum.split)
  have k: "retry_values_type_check (map fst (map stored_entry ps)) = Inr ()" for ps :: "pattern_entry list"
  proof (induction ps)
    case (Cons p ps)
    then show ?case by (cases p rule: stored_entry.cases) simp_all
  qed simp
  have v: "retry_values_type_check (map snd (map stored_entry ps)) = Inr ()" for ps :: "pattern_entry list"
  proof (induction ps)
    case (Cons p ps)
    then show ?case by (cases p rule: stored_entry.cases) simp_all
  qed simp
  show ?thesis by (simp only: app k v ebind_simps)
qed

lemma restored_pattern:
  "distinct (map fst ps) \<Longrightarrow> restored_items pf env (map literal_entry ps) = map (\<lambda>p. (str_int (fst p), snd (stored_entry p))) ps"
proof (induction ps)
  case (Cons p ps)
  let ?d = "map (\<lambda>p. (str_int (fst p), snd (stored_entry p))) ps"
  have new: "str_int (fst p) \<notin> fst ` set ?d" using Cons.prems by (auto simp: image_iff)
  have "put_front (str_int (fst p)) v ?d = (str_int (fst p), v) # ?d" for v
  proof -
    have "map_of ?d (str_int (fst p)) = None" using new by (simp add: map_of_eq_None_iff)
    moreover have "filter (\<lambda>q. fst q \<noteq> str_int (fst p)) ?d = ?d" using new by (auto simp: filter_id_conv image_iff)
    ultimately show ?thesis by (simp add: put_front_def dict_get_def)
  qed
  moreover have IH: "restored_items pf env (map literal_entry ps) = ?d" using Cons by simp
  ultimately show ?case by (cases p rule: literal_entry.cases) simp_all
qed simp

lemma stored_items: "map (\<lambda>(k, v). (PStr k, v)) (map (\<lambda>p. (str_int (fst p), snd (stored_entry p))) ps) = map stored_entry ps"
proof (induction ps)
  case (Cons p ps)
  then show ?case by (cases p rule: stored_entry.cases) simp_all
qed simp

lemma str_int_not_type: "str_int n \<noteq> ''_type''"
proof
  assume "str_int n = ''_type''"
  then have "py_int (str_int n) = py_int ''_type''" by simp
  moreover have "py_int ''_type'' = None" by code_simp
  ultimately show False by simp
qed

lemma storable_pattern: "storable_items pf (map literal_entry ps)"
proof (induction ps)
  case (Cons p ps)
  then show ?case by (cases p rule: literal_entry.cases) (simp_all add: str_int_not_type)
qed simp

lemma edit_stores:
  assumes "distinct (map fst ps)" "strip s \<noteq> []" "literal_eval (strip s) = Some (PDict (map literal_entry ps))"
  shows "edit_retry_pattern pf literal_eval env s = Inr (PDict (map stored_entry ps))"
proof -
  let ?v = "PDict (map literal_entry ps)"
  have "ebind (convert_to_cache pf DictBase ?v) (convert_to_record pf DictBase env) = Inr (restored pf env ?v)"
    using field_roundtrip[of pf ?v DictBase env] storable_pattern by (auto simp: instance_of_def)
  moreover have "restored pf env ?v = PDict (map stored_entry ps)"
    using restored_pattern[OF assms(1)] stored_items by (simp add: as_dict_def)
  moreover have "check_retry_pattern (PDict (map stored_entry ps)) = Inr ()"
    using stored_check[of ps] by (simp add: check_retry_pattern_def)
  ultimately show ?thesis using assms(2,3) by (simp add: edit_retry_pattern_def Let_def)
qed

text \<open>
  Property C38. The delays a user writes into the retry pattern are the delays the retries have. From the
  line \<open>{n: seconds, m: (low, high), ...}\<close> the form stores a pattern that passes the check, and the job,
  which reads it back from JSON with strings for keys and lists for pairs, waits before its next try what
  the entry with the greatest count not above the number of tries says, a drawn number of seconds between
  the bounds for a pair, and ten minutes when no count is reached.
\<close>

theorem retry_pattern_effective:
  assumes "distinct (map fst ps)" "list_all (\<lambda>(k, w). case w of Inl _ \<Rightarrow> True | Inr (a, b) \<Rightarrow> a \<le> b) ps"
    "strip s \<noteq> []" "literal_eval (strip s) = Some (PDict (map literal_entry ps))"
  shows "\<exists>p patt. edit_retry_pattern pf literal_eval env s = Inr p \<and> parse_retry_pattern p = Inr patt
    \<and> get_retry_seconds randint patt n None = Inr (expected_delay randint ps n)"
proof -
  let ?patt = "map parsed_entry ps"
  have f: "fst (parsed_entry q) = fst q" for q by (cases q rule: parsed_entry.cases) simp_all
  have m: "map_of ?patt k = map_option (\<lambda>w. snd (parsed_entry (k, w))) (map_of ps k)" for k
  proof (induction ps)
    case (Cons p ps)
    then show ?case by (cases p rule: parsed_entry.cases) simp_all
  qed simp
  have K: "{k \<in> fst ` set ?patt. k \<le> n} = reached ps n" by (auto simp: reached_def f image_image)
  have d: "distinct (map fst ?patt)" using assms(1) by (simp add: f o_def)
  have "get_retry_seconds randint ?patt n None = Inr (expected_delay randint ps n)"
  proof (cases "reached ps n = {}")
    case True
    then show ?thesis using last_reached[OF d, of n, unfolded K]
      by (auto simp: get_retry_seconds_def expected_delay_def split: list.splits)
  next
    case False
    have "finite (reached ps n)" by (simp add: reached_def)
    then have "Max (reached ps n) \<in> reached ps n" using False by (rule Max_in)
    then obtain w where w: "map_of ps (Max (reached ps n)) = Some w" "(Max (reached ps n), w) \<in> set ps"
      using map_of_SomeD weak_map_of_SomeI by (fastforce simp: reached_def)
    then have "case w of Inl _ \<Rightarrow> True | Inr (a, b) \<Rightarrow> a \<le> b" using assms(2) by (auto simp: list_all_iff)
    then show ?thesis using last_reached[OF d, of n, unfolded K] False w(1)
      by (auto simp: get_retry_seconds_def expected_delay_def m draw_def split: list.splits sum.splits)
  qed
  moreover have "parse_retry_pattern (PDict (map stored_entry ps)) = Inr ?patt"
    using parse_stored[of "[]" ps] assms(1) by (simp add: parse_retry_pattern_def)
  ultimately show ?thesis using edit_stores[of ps s literal_eval pf env] assms(1,3,4) by blast
qed

definition doc_pattern :: "pattern_entry list" where
  "doc_pattern = [(5, Inr (11, 20)), (1, Inl 10), (15, Inl 300)]"

definition doc_text :: string where "doc_text = ''{5: (11, 20), 1: 10, 15: 300}''"

definition doc_eval :: "string \<Rightarrow> pyval option" where
  "doc_eval s = (if s = doc_text then Some (PDict (map literal_entry doc_pattern)) else None)"

theorem retry_pattern_effective_witness:
  "\<exists>p patt. edit_retry_pattern odoo_like doc_eval runner_env (doc_text @ '' '') = Inr p \<and> parse_retry_pattern p = Inr patt
     \<and> get_retry_seconds (\<lambda>a b. a) patt 7 None = Inr 11"
proof -
  have s: "strip (doc_text @ '' '') = doc_text" "doc_text \<noteq> []" by code_simp+
  have "distinct (map fst doc_pattern)" by (simp add: doc_pattern_def)
  moreover have "list_all (\<lambda>(k, w). case w of Inl _ \<Rightarrow> True | Inr (a, b) \<Rightarrow> a \<le> b) doc_pattern" by (simp add: doc_pattern_def)
  moreover have "expected_delay (\<lambda>a b. a) doc_pattern 7 = 11"
  proof -
    have "reached doc_pattern 7 = {1, 5}" by (auto simp: reached_def doc_pattern_def)
    then show ?thesis by (simp add: expected_delay_def doc_pattern_def)
  qed
  ultimately show ?thesis
    using retry_pattern_effective[of doc_pattern "doc_text @ '' ''" doc_eval odoo_like runner_env "\<lambda>a b. a" 7] s
    by (simp add: doc_eval_def)
qed

text \<open>With plain numbers of seconds the delay is the one the life of a job is modelled with.\<close>

lemma sort_key_map: "sort_key f (map g xs) = map g (sort_key (f \<circ> g) xs)"
proof (induction xs)
  case (Cons x xs)
  have "insort_key f (g x) (map g ys) = map g (insort_key (f \<circ> g) x ys)" for ys
    by (induction ys) simp_all
  then show ?case using Cons by (simp add: o_def)
qed simp

lemma get_retry_seconds_agrees:
  "get_retry_seconds randint (map (\<lambda>(n, s). (int n, Seconds (int s))) patt) (int retry) secs = Inr (retry_seconds patt retry secs)"
proof -
  let ?g = "\<lambda>(n, s). (int n, Seconds (int s))"
  have key: "sort_key (fst \<circ> ?g) patt = sort_key fst patt"
  proof -
    have "insort_key (fst \<circ> ?g) x ys = insort_key fst x ys" for x ys by (induction ys) (auto split: prod.splits)
    then show ?thesis by (induction patt) simp_all
  qed
  have tw: "takeWhile (\<lambda>(n, _). n \<le> int retry) (map ?g xs) = map ?g (takeWhile (\<lambda>(n, _). n \<le> retry) xs)" for xs
    by (induction xs) auto
  have l: "snd (last (map ?g (x # xs))) = Seconds (int (snd (last (x # xs))))" for x xs
    by (induction xs arbitrary: x) (auto split: prod.splits)
  have sk: "takeWhile (\<lambda>(n, _). n \<le> int retry) (sort_key fst (map ?g patt)) = map ?g (takeWhile (\<lambda>(n, _). n \<le> retry) (sort_key fst patt))"
    by (simp only: sort_key_map key tw)
  show ?thesis
  proof (cases "takeWhile (\<lambda>(n, _). n \<le> retry) (sort_key fst patt)")
    case Nil
    then show ?thesis unfolding get_retry_seconds_def retry_seconds_def sk by (simp split: option.split)
  next
    case (Cons x xs)
    then have "patt \<noteq> []" by auto
    then show ?thesis using Cons l[of x xs] unfolding get_retry_seconds_def retry_seconds_def sk by simp
  qed
qed

text \<open>
  The check lets patterns through that a job cannot use: with a fraction of a second for a delay, the
  configuration cannot be read at all, so that no job of the function can be created; with a number in
  quotes, no retry can be postponed.
\<close>

lemma accepted_but_useless:
  "edit_retry_pattern odoo_like (\<lambda>_. Some (PDict [(PInt 1, PFloat (5 / 2))])) runner_env ''x'' = Inr (PDict [(PStr ''1'', PFloat (5 / 2))])"
  "parse_retry_pattern (PDict [(PStr ''1'', PFloat (5 / 2))]) = Inl TypeError"
  "edit_retry_pattern odoo_like (\<lambda>_. Some (PDict [(PInt 1, PStr ''10'')])) runner_env ''x'' = Inr (PDict [(PStr ''1'', PStr ''10'')])"
  "ebind (parse_retry_pattern (PDict [(PStr ''1'', PStr ''10'')])) (\<lambda>patt. get_retry_seconds randint patt 1 None) = Inl TypeError"
proof -
  show "edit_retry_pattern odoo_like (\<lambda>_. Some (PDict [(PInt 1, PFloat (5 / 2))])) runner_env ''x'' = Inr (PDict [(PStr ''1'', PFloat (5 / 2))])"
    "parse_retry_pattern (PDict [(PStr ''1'', PFloat (5 / 2))]) = Inl TypeError"
    "edit_retry_pattern odoo_like (\<lambda>_. Some (PDict [(PInt 1, PStr ''10'')])) runner_env ''x'' = Inr (PDict [(PStr ''1'', PStr ''10'')])"
    by code_simp+
  have "parse_retry_pattern (PDict [(PStr ''1'', PStr ''10'')]) = Inr [(1, Between [PStr ''1'', PStr ''0''])]" by code_simp
  then show "ebind (parse_retry_pattern (PDict [(PStr ''1'', PStr ''10'')])) (\<lambda>patt. get_retry_seconds randint patt 1 None) = Inl TypeError"
    by (simp add: get_retry_seconds_def draw_def)
qed

section \<open>Channels\<close>

record channel_rec =
  qc_id :: nat
  qc_name :: string
  qc_parent :: "nat option"
  qc_complete :: string
  qc_interval :: int
  qc_noupdate :: bool

record channel_vals =
  cv_name :: "string option"
  cv_parent :: "nat option option"
  cv_interval :: "int option"

definition REMOVAL_INTERVAL :: int where "REMOVAL_INTERVAL = 30"

definition find_channel :: "nat \<Rightarrow> channel_rec list \<Rightarrow> channel_rec option" where
  "find_channel i cs = List.find (\<lambda>c. qc_id c = i) cs"

definition compute_complete_name :: "channel_rec list \<Rightarrow> channel_rec \<Rightarrow> string" where
  "compute_complete_name cs c =
     (if qc_name c = [] then []
      else case qc_parent c of
        None \<Rightarrow> qc_name c
      | Some p \<Rightarrow> (case find_channel p cs of None \<Rightarrow> [] | Some q \<Rightarrow> qc_complete q) @ ''.'' @ qc_name c)"

text \<open>The ORM recomputes the field of the channels that have changed and of everything below them.\<close>

definition affected :: "nat list \<Rightarrow> channel_rec list \<Rightarrow> nat list" where
  "affected ids cs =
     ((\<lambda>A. A @ map qc_id (filter (\<lambda>c. qc_parent c \<in> Some ` set A \<and> qc_id c \<notin> set A) cs)) ^^ length cs) ids"

definition refresh :: "nat list \<Rightarrow> channel_rec list \<Rightarrow> channel_rec list" where
  "refresh A cs = map (\<lambda>c. if qc_id c \<in> set A then c\<lparr>qc_complete := compute_complete_name cs c\<rparr> else c) cs"

definition recompute :: "nat list \<Rightarrow> channel_rec list \<Rightarrow> channel_rec list" where
  "recompute ids cs = (refresh (affected ids cs) ^^ length cs) cs"

definition parent_required :: "channel_rec \<Rightarrow> bool" where
  "parent_required c \<longleftrightarrow> qc_name c \<noteq> ''root'' \<and> qc_parent c = None"

text \<open>
  The constraints: that of the model for the given channels, whose name or parent has been set; of the
  table; of the foreign key.
\<close>

definition check_channels :: "nat list \<Rightarrow> channel_rec list \<Rightarrow> setup_error + channel_rec list" where
  "check_channels ids cs =
     (if list_ex (\<lambda>c. qc_id c \<in> set ids \<and> parent_required c) cs then Inl (Refused ''Parent channel required.'')
      else if \<not> distinct (map qc_complete cs) then Inl ConstraintFailed
      else if list_ex (\<lambda>c. qc_parent c \<noteq> None \<and> find_channel (the (qc_parent c)) cs = None) cs then Inl ConstraintFailed
      else Inr cs)"

definition apply_vals :: "channel_vals \<Rightarrow> channel_rec \<Rightarrow> channel_rec" where
  "apply_vals v c = c\<lparr>qc_name := (case cv_name v of None \<Rightarrow> qc_name c | Some n \<Rightarrow> n),
     qc_parent := (case cv_parent v of None \<Rightarrow> qc_parent c | Some p \<Rightarrow> p),
     qc_interval := (case cv_interval v of None \<Rightarrow> qc_interval c | Some n \<Rightarrow> n)\<rparr>"

definition channel_write :: "bool \<Rightarrow> nat list \<Rightarrow> channel_vals \<Rightarrow> channel_rec list \<Rightarrow> setup_error + channel_rec list" where
  "channel_write install ids v cs =
     (let named = cv_name v \<noteq> None \<or> cv_parent v \<noteq> None in
      if \<not> install \<and> named \<and> list_ex (\<lambda>c. qc_id c \<in> set ids \<and> qc_name c = ''root'') cs
      then Inl (Refused ''Cannot change the root channel'')
      else let cs' = map (\<lambda>c. if qc_id c \<in> set ids then apply_vals v c else c) cs in
        if named then check_channels ids (recompute ids cs') else Inr cs')"

text \<open>
  \<open>create\<close>: in install mode a channel that exists already is written instead, unless it must not be
  updated. The result is the list of values that are left, and the channels. The ORM checks all channels
  it creates together, but only if the values of one of them name a field of the constraint.
\<close>

fun rebind_channels :: "channel_vals list \<Rightarrow> channel_rec list \<Rightarrow> setup_error + channel_vals list \<times> channel_rec list" where
  "rebind_channels [] cs = Inr ([], cs)"
| "rebind_channels (v # vs) cs =
     (case (cv_name v, cv_parent v) of
        (Some (ch # n), Some (Some p)) \<Rightarrow>
          (case filter (\<lambda>c. qc_name c = ch # n \<and> qc_parent c = Some p) cs of
             e # es \<Rightarrow> ebind (if qc_noupdate e then Inr cs else channel_write True (map qc_id (e # es)) v cs) (rebind_channels vs)
           | [] \<Rightarrow> ebind (rebind_channels vs cs) (\<lambda>(rest, cs'). Inr (v # rest, cs')))
      | _ \<Rightarrow> ebind (rebind_channels vs cs) (\<lambda>(rest, cs'). Inr (v # rest, cs')))"

definition new_channel_rec :: "nat \<Rightarrow> channel_vals \<Rightarrow> channel_rec" where
  "new_channel_rec i v = apply_vals v \<lparr>qc_id = i, qc_name = [], qc_parent = None, qc_complete = [],
     qc_interval = REMOVAL_INTERVAL, qc_noupdate = False\<rparr>"

definition channel_create :: "bool \<Rightarrow> nat \<Rightarrow> channel_vals list \<Rightarrow> channel_rec list \<Rightarrow> setup_error + channel_rec list" where
  "channel_create install i vs cs =
     ebind (if install then rebind_channels vs cs else Inr (vs, cs)) (\<lambda>(rest, cs).
       let new = map (\<lambda>(j, v). new_channel_rec j v) (enumerate i rest);
           named = list_ex (\<lambda>v. cv_name v \<noteq> None \<or> cv_parent v \<noteq> None) rest in
       check_channels (if named then map qc_id new else []) (cs @ map (\<lambda>c. c\<lparr>qc_complete := compute_complete_name cs c\<rparr>) new))"

section \<open>Job functions\<close>

record function_rec =
  fn_id :: nat
  fn_name :: string
  fn_model :: string
  fn_method :: string
  fn_channel :: nat
  fn_retry :: pyval
  fn_related :: pyval
  fn_noupdate :: bool

record function_vals =
  fv_name :: "string option"
  fv_model :: "string option"
  fv_method :: "string option"
  fv_channel :: "nat option"
  fv_retry :: "pyval option"
  fv_related :: "pyval option"

definition job_function_name :: "string \<Rightarrow> string \<Rightarrow> string" where
  "job_function_name m f = ''<'' @ m @ ''>.'' @ f"

definition model_char :: "char \<Rightarrow> bool" where
  "model_char c \<longleftrightarrow> is_decimal c \<or> (97 \<le> code c \<and> code c \<le> 122) \<or> c = CHR ''_'' \<or> c = CHR ''.''"

definition method_char :: "char \<Rightarrow> bool" where
  "method_char c \<longleftrightarrow> is_decimal c \<or> is_ascii_letter c \<or> c = CHR ''_''"

text \<open>The regular expression of a name; its \<open>$\<close> also matches before a line feed at the end.\<close>

definition match_function_name :: "string \<Rightarrow> (string \<times> string) option" where
  "match_function_name s = (case s of
      [] \<Rightarrow> None
    | c # r \<Rightarrow> let m = takeWhile model_char r; t = dropWhile model_char r; f = drop 2 t;
                  g = (if f \<noteq> [] \<and> last f = CHR 0x0A then butlast f else f) in
        if c = CHR ''<'' \<and> m \<noteq> [] \<and> take 2 t = ''>.'' \<and> g \<noteq> [] \<and> list_all method_char g then Some (m, g) else None)"

definition compute_name :: "function_rec \<Rightarrow> function_rec" where
  "compute_name f = f\<lparr>fn_name := (if fn_model f = [] \<or> fn_method f = [] then [] else job_function_name (fn_model f) (fn_method f))\<rparr>"

definition inverse_name :: "string list \<Rightarrow> string \<Rightarrow> function_rec \<Rightarrow> setup_error + function_rec" where
  "inverse_name models s f = (case match_function_name s of
      None \<Rightarrow> Inl (Refused ''Invalid job function'')
    | Some (m, g) \<Rightarrow> if m \<in> set models then Inr (f\<lparr>fn_model := m, fn_method := g\<rparr>) else Inl (Refused ''Model not found''))"

definition check_related_action :: "pyval \<Rightarrow> setup_error + unit" where
  "check_related_action p =
     (if \<not> ptruthy p then Inr ()
      else case py_tuple p of
        Inl e \<Rightarrow> Inl (Raised e)
      | Inr ks \<Rightarrow> if list_all (\<lambda>k. k \<in> set (map PStr [''enable'', ''func_name'', ''kwargs''])) ks then Inr ()
          else Inl (Refused ''related action''))"

definition field_value :: "platform \<Rightarrow> denv \<Rightarrow> pyval option \<Rightarrow> pyval \<Rightarrow> setup_error + pyval" where
  "field_value pf env v old = (case v of
      None \<Rightarrow> Inr old
    | Some x \<Rightarrow> (case ebind (convert_to_cache pf DictBase x) (convert_to_record pf DictBase env) of
        Inl e \<Rightarrow> Inl (Raised e) | Inr y \<Rightarrow> Inr y))"

text \<open>What \<open>create\<close> and \<open>write\<close> of the ORM make of one job function: fields, inverse, computed name, constraints.\<close>

definition set_function :: "platform \<Rightarrow> denv \<Rightarrow> string list \<Rightarrow> function_vals \<Rightarrow> function_rec \<Rightarrow> setup_error + function_rec" where
  "set_function pf env models v f =
     ebind (field_value pf env (fv_retry v) (fn_retry f)) (\<lambda>retry.
     ebind (field_value pf env (fv_related v) (fn_related f)) (\<lambda>related.
       let f1 = f\<lparr>fn_model := (case fv_model v of None \<Rightarrow> fn_model f | Some m \<Rightarrow> m),
             fn_method := (case fv_method v of None \<Rightarrow> fn_method f | Some m \<Rightarrow> m),
             fn_channel := (case fv_channel v of None \<Rightarrow> fn_channel f | Some c \<Rightarrow> c),
             fn_retry := retry, fn_related := related\<rparr> in
       ebind (case fv_name v of None \<Rightarrow> Inr f1 | Some s \<Rightarrow> inverse_name models s f1) (\<lambda>f2.
       ebind (if fv_retry v = None then Inr () else check_retry_pattern retry) (\<lambda>_.
       ebind (if fv_related v = None then Inr () else check_related_action related) (\<lambda>_. Inr (compute_name f2))))))"

section \<open>The configuration of a job\<close>

record job_config =
  jg_channel :: string
  jg_retry :: "(int \<times> wait) list"
  jg_enable :: pyval
  jg_func_name :: pyval
  jg_kwargs :: pyval
  jg_function :: "nat option"

record job_setup =
  js_channels :: "channel_rec list"
  js_functions :: "function_rec list"
  js_cache :: "(string \<times> job_config) list"
  js_next :: nat
  js_root :: nat

definition job_default_config :: job_config where
  "job_default_config = \<lparr>jg_channel = ''root'', jg_retry = [], jg_enable = PBool True, jg_func_name = PNone,
     jg_kwargs = PDict [], jg_function = None\<rparr>"

definition pdict_get :: "pyval \<Rightarrow> string \<Rightarrow> pyval \<Rightarrow> py_error + pyval" where
  "pdict_get d k dflt = (case d of
      PDict kvs \<Rightarrow> Inr (case map_of kvs (PStr k) of None \<Rightarrow> dflt | Some v \<Rightarrow> v)
    | _ \<Rightarrow> Inl AttributeError)"

definition function_channel :: "channel_rec list \<Rightarrow> function_rec \<Rightarrow> string" where
  "function_channel cs f = (case find_channel (fn_channel f) cs of None \<Rightarrow> [] | Some c \<Rightarrow> qc_complete c)"

text \<open>What \<open>job_config\<close> computes when the name is not in its cache.\<close>

definition current_config :: "job_setup \<Rightarrow> string \<Rightarrow> py_error + job_config" where
  "current_config s name = (case List.find (\<lambda>f. fn_name f = name) (js_functions s) of
      None \<Rightarrow> Inr job_default_config
    | Some f \<Rightarrow>
        ebind (parse_retry_pattern (fn_retry f)) (\<lambda>patt.
        ebind (pdict_get (fn_related f) ''enable'' (PBool True)) (\<lambda>enable.
        ebind (pdict_get (fn_related f) ''func_name'' PNone) (\<lambda>func.
        ebind (pdict_get (fn_related f) ''kwargs'' (PDict [])) (\<lambda>kwargs.
          Inr \<lparr>jg_channel = function_channel (js_channels s) f, jg_retry = patt, jg_enable = enable,
            jg_func_name = func, jg_kwargs = kwargs, jg_function = Some (fn_id f)\<rparr>)))))"

definition job_config :: "string \<Rightarrow> job_setup \<Rightarrow> (py_error + job_config) \<times> job_setup" where
  "job_config name s = (case map_of (js_cache s) name of
      Some c \<Rightarrow> (Inr c, s)
    | None \<Rightarrow> (case current_config s name of
        Inl e \<Rightarrow> (Inl e, s)
      | Inr c \<Rightarrow> (Inr c, s\<lparr>js_cache := (name, c) # js_cache s\<rparr>)))"

text \<open>\<open>Job.channel\<close>\<close>

definition channel_of_job :: "string \<Rightarrow> job_config \<Rightarrow> string" where
  "channel_of_job c cfg = (if c = [] then jg_channel cfg else c)"

section \<open>Changes of the configuration\<close>

datatype setup_event =
    ChannelCreate bool "channel_vals list"
  | ChannelWrite bool "nat list" channel_vals
  | ChannelUnlink "nat list"
  | FunctionCreate bool "function_vals list"
  | FunctionWrite "nat list" function_vals
  | FunctionUnlink "nat list"
  | ReadConfig string

definition channel_unlink :: "nat list \<Rightarrow> job_setup \<Rightarrow> setup_error + job_setup" where
  "channel_unlink ids s =
     (if list_ex (\<lambda>c. qc_id c \<in> set ids \<and> qc_name c = ''root'') (js_channels s)
      then Inl (Refused ''Cannot remove the root channel'')
      else let cs = filter (\<lambda>c. qc_id c \<notin> set ids) (js_channels s) in
        if list_ex (\<lambda>c. qc_parent c \<in> Some ` set ids) cs \<or> list_ex (\<lambda>f. fn_channel f \<in> set ids) (js_functions s)
        then Inl ConstraintFailed
        else Inr (s\<lparr>js_channels := cs\<rparr>))"

text \<open>Every change of a job function clears the cache.\<close>

definition with_functions :: "job_setup \<Rightarrow> function_rec list \<Rightarrow> setup_error + job_setup" where
  "with_functions s fs =
     (if list_ex (\<lambda>f. find_channel (fn_channel f) (js_channels s) = None) fs then Inl ConstraintFailed
      else Inr (s\<lparr>js_functions := fs, js_cache := []\<rparr>))"

definition function_write :: "platform \<Rightarrow> denv \<Rightarrow> nat list \<Rightarrow> function_vals \<Rightarrow> job_setup \<Rightarrow> setup_error + job_setup" where
  "function_write pf env ids v s =
     ebind (emap (\<lambda>f. if fn_id f \<in> set ids then set_function pf env (pf_models pf) v f else Inr f) (js_functions s))
       (with_functions s)"

fun rebind_functions :: "platform \<Rightarrow> denv \<Rightarrow> function_vals list \<Rightarrow> job_setup \<Rightarrow> setup_error + function_vals list \<times> job_setup" where
  "rebind_functions pf env [] s = Inr ([], s)"
| "rebind_functions pf env (v # vs) s =
     (case (if fv_name v = Some [] then None else
            case fv_name v of None \<Rightarrow> None | Some n \<Rightarrow> List.find (\<lambda>f. fn_name f = n) (js_functions s)) of
        Some e \<Rightarrow> ebind (if fn_noupdate e then Inr s else function_write pf env [fn_id e] v s) (rebind_functions pf env vs)
      | None \<Rightarrow> ebind (rebind_functions pf env vs s) (\<lambda>(rest, s'). Inr (v # rest, s')))"

definition new_function :: "nat \<Rightarrow> nat \<Rightarrow> function_rec" where
  "new_function i rt = \<lparr>fn_id = i, fn_name = [], fn_model = [], fn_method = [], fn_channel = rt,
     fn_retry = PDict [], fn_related = PDict [], fn_noupdate = False\<rparr>"

definition function_create :: "platform \<Rightarrow> denv \<Rightarrow> bool \<Rightarrow> function_vals list \<Rightarrow> job_setup \<Rightarrow> setup_error + job_setup" where
  "function_create pf env install vs s =
     ebind (if install then rebind_functions pf env vs s else Inr (vs, s)) (\<lambda>(rest, s').
     ebind (emap (\<lambda>(i, v). set_function pf env (pf_models pf) v (new_function i (js_root s'))) (enumerate (js_next s') rest)) (\<lambda>new.
       with_functions (s'\<lparr>js_next := js_next s' + length rest\<rparr>) (js_functions s' @ new)))"

fun setup_step :: "platform \<Rightarrow> denv \<Rightarrow> setup_event \<Rightarrow> job_setup \<Rightarrow> setup_error + job_setup" where
  "setup_step pf env (ChannelCreate install vs) s =
     ebind (channel_create install (js_next s) vs (js_channels s))
       (\<lambda>cs. Inr (s\<lparr>js_channels := cs, js_next := js_next s + length vs\<rparr>))"
| "setup_step pf env (ChannelWrite install ids v) s =
     ebind (channel_write install ids v (js_channels s)) (\<lambda>cs. Inr (s\<lparr>js_channels := cs\<rparr>))"
| "setup_step pf env (ChannelUnlink ids) s = channel_unlink ids s"
| "setup_step pf env (FunctionCreate install vs) s = function_create pf env install vs s"
| "setup_step pf env (FunctionWrite ids v) s = function_write pf env ids v s"
| "setup_step pf env (FunctionUnlink ids) s =
     Inr (s\<lparr>js_functions := filter (\<lambda>f. fn_id f \<notin> set ids) (js_functions s), js_cache := []\<rparr>)"
| "setup_step pf env (ReadConfig name) s = Inr (snd (job_config name s))"

text \<open>A call that fails is rolled back.\<close>

definition setup_call :: "platform \<Rightarrow> denv \<Rightarrow> setup_event \<Rightarrow> job_setup \<Rightarrow> job_setup" where
  "setup_call pf env e s = (case setup_step pf env e s of Inl _ \<Rightarrow> s | Inr s' \<Rightarrow> s')"

definition run_setup :: "platform \<Rightarrow> denv \<Rightarrow> setup_event list \<Rightarrow> job_setup \<Rightarrow> job_setup" where
  "run_setup pf env es s = fold (setup_call pf env) es s"

text \<open>The module's data: the root channel.\<close>

definition installed_setup :: job_setup where
  "installed_setup = \<lparr>js_channels = [\<lparr>qc_id = 1, qc_name = ''root'', qc_parent = None, qc_complete = ''root'',
     qc_interval = REMOVAL_INTERVAL, qc_noupdate = True\<rparr>], js_functions = [], js_cache = [], js_next = 2, js_root = 1\<rparr>"

section \<open>The channels stay a tree below the root\<close>

definition channels_good :: "nat \<Rightarrow> nat \<Rightarrow> channel_rec list \<Rightarrow> bool" where
  "channels_good rt n cs \<longleftrightarrow> (\<exists>r\<in>set cs. qc_id r = rt \<and> qc_name r = ''root'' \<and> qc_parent r = None)
     \<and> distinct (map qc_id cs) \<and> (\<forall>c\<in>set cs. qc_id c < n \<and> (qc_parent c = None \<and> qc_name c \<noteq> [] \<longrightarrow> qc_id c = rt)
          \<and> (qc_parent c = None \<longrightarrow> qc_complete c = qc_name c)
          \<and> (\<forall>p. qc_parent c = Some p \<longrightarrow> find_channel p cs \<noteq> None))
     \<and> distinct (map qc_complete cs)"

lemma find_channel_None: "find_channel i cs = None \<longleftrightarrow> i \<notin> qc_id ` set cs"
  by (auto simp: find_channel_def find_None_iff)

lemma refresh_shape:
  "map (\<lambda>c. (qc_id c, qc_name c, qc_parent c)) ((refresh A ^^ n) cs) = map (\<lambda>c. (qc_id c, qc_name c, qc_parent c)) cs"
proof (induction n)
  case (Suc n)
  have "map (\<lambda>c. (qc_id c, qc_name c, qc_parent c)) (refresh A ds) = map (\<lambda>c. (qc_id c, qc_name c, qc_parent c)) ds" for ds
    by (simp add: refresh_def)
  with Suc show ?case by simp
qed simp

lemma recompute_shape:
  "map (\<lambda>c. (qc_id c, qc_name c, qc_parent c)) (recompute ids cs) = map (\<lambda>c. (qc_id c, qc_name c, qc_parent c)) cs"
  unfolding recompute_def by (rule refresh_shape)

lemma recompute_rec:
  assumes "c \<in> set (recompute ids cs)"
  shows "\<exists>d\<in>set cs. qc_id d = qc_id c \<and> qc_name d = qc_name c \<and> qc_parent d = qc_parent c"
proof -
  have "(qc_id c, qc_name c, qc_parent c) \<in> set (map (\<lambda>c. (qc_id c, qc_name c, qc_parent c)) cs)"
    using assms recompute_shape[of ids cs] by (metis (mono_tags, lifting) image_eqI set_map)
  then show ?thesis by auto
qed

text \<open>A channel without a parent is called by its name, if it was so or has changed.\<close>

definition own_name :: "nat set \<Rightarrow> channel_rec list \<Rightarrow> bool" where
  "own_name A cs \<longleftrightarrow> (\<forall>c\<in>set cs. qc_parent c = None \<longrightarrow> qc_id c \<in> A \<longrightarrow> qc_complete c = qc_name c)"

lemma refresh_own: "own_name (- set A) cs \<Longrightarrow> own_name UNIV (refresh A cs)"
  by (auto simp: own_name_def refresh_def compute_complete_name_def)

lemma affected_ids: "set ids \<subseteq> set (affected ids cs)"
proof -
  have "set ids \<subseteq> set (((\<lambda>A. A @ map qc_id (filter (\<lambda>c. qc_parent c \<in> Some ` set A \<and> qc_id c \<notin> set A) cs)) ^^ n) ids)" for n
    by (induction n) auto
  then show ?thesis by (simp add: affected_def)
qed

lemma recompute_own:
  assumes "own_name (- set ids) cs"
  shows "own_name UNIV (recompute ids cs)"
proof (cases cs)
  case Nil
  then show ?thesis by (simp add: recompute_def own_name_def)
next
  case (Cons d ds)
  let ?A = "affected ids cs"
  have "own_name (- set ?A) cs" using assms affected_ids[of ids cs] by (auto simp: own_name_def)
  then have "own_name UNIV ((refresh ?A ^^ Suc n) cs)" for n
  proof (induction n)
    case 0
    then show ?case by (simp add: refresh_own)
  next
    case (Suc n)
    then have "own_name (- set ?A) ((refresh ?A ^^ Suc n) cs)" by (simp add: own_name_def)
    then show ?case using refresh_own by simp
  qed
  then show ?thesis using Cons by (simp add: recompute_def)
qed

lemma recompute_ids: "map qc_id (recompute ids cs) = map qc_id cs"
  using arg_cong[OF recompute_shape[of ids cs], of "map fst"] by (simp add: comp_def)

lemma recompute_has:
  assumes "d \<in> set cs"
  shows "\<exists>c\<in>set (recompute ids cs). qc_id d = qc_id c \<and> qc_name d = qc_name c \<and> qc_parent d = qc_parent c"
proof -
  have "(qc_id d, qc_name d, qc_parent d) \<in> set (map (\<lambda>c. (qc_id c, qc_name c, qc_parent c)) (recompute ids cs))"
    using assms recompute_shape[of ids cs] by (metis (mono_tags, lifting) image_eqI set_map)
  then show ?thesis by auto
qed

text \<open>What the constraints and unique names give when the root is still there.\<close>

lemma checked_good:
  assumes "check_channels ids cs = Inr cs'" "r \<in> set cs" "qc_id r = rt" "qc_name r = ''root''" "qc_parent r = None"
    "distinct (map qc_id cs)" "\<And>c. c \<in> set cs \<Longrightarrow> qc_id c < n"
    "\<And>c. c \<in> set cs \<Longrightarrow> qc_parent c = None \<Longrightarrow> qc_complete c = qc_name c"
    "\<And>c. c \<in> set cs \<Longrightarrow> qc_parent c = None \<Longrightarrow> qc_name c \<noteq> [] \<Longrightarrow> qc_id c \<notin> set ids \<Longrightarrow> qc_id c = rt"
  shows "cs' = cs" "channels_good rt n cs"
proof -
  have c: "\<And>c. c \<in> set cs \<Longrightarrow> qc_id c \<in> set ids \<Longrightarrow> qc_parent c = None \<Longrightarrow> qc_name c = ''root''"
    "distinct (map qc_complete cs)" "\<And>c p. c \<in> set cs \<Longrightarrow> qc_parent c = Some p \<Longrightarrow> find_channel p cs \<noteq> None"
    using assms(1) by (auto simp: check_channels_def parent_required_def list_ex_iff split: if_splits)
  show "cs' = cs" using assms(1) by (auto simp: check_channels_def split: if_splits)
  have "qc_id d = rt" if d: "d \<in> set cs" "qc_parent d = None" "qc_name d \<noteq> []" for d
  proof (cases "qc_id d \<in> set ids")
    case True
    then have "qc_complete d = qc_complete r" using c(1)[OF d(1)] d assms(2,4,5,8) by simp
    then have "d = r" using c(2) d(1) assms(2) by (auto simp: distinct_map inj_on_def)
    then show ?thesis using assms(3) by simp
  qed (use d assms(9) in blast)
  then have "\<forall>c\<in>set cs. qc_id c < n \<and> (qc_parent c = None \<and> qc_name c \<noteq> [] \<longrightarrow> qc_id c = rt)
      \<and> (qc_parent c = None \<longrightarrow> qc_complete c = qc_name c) \<and> (\<forall>p. qc_parent c = Some p \<longrightarrow> find_channel p cs \<noteq> None)"
    using assms(7,8) c(3) by blast
  then show "channels_good rt n cs" unfolding channels_good_def using assms(2-6) c(2) by blast
qed

lemma good_map:
  assumes g: "channels_good rt n cs"
    and f: "\<And>c. qc_id (f c) = qc_id c" "\<And>c. qc_name (f c) = qc_name c" "\<And>c. qc_parent (f c) = qc_parent c"
      "\<And>c. qc_complete (f c) = qc_complete c"
  shows "channels_good rt n (map f cs)"
proof -
  have ids: "map qc_id (map f cs) = map qc_id cs" "map qc_complete (map f cs) = map qc_complete cs" by (simp_all add: f)
  have find: "find_channel p (map f cs) = None \<longleftrightarrow> find_channel p cs = None" for p
    using arg_cong[OF ids(1), of set] by (simp only: find_channel_None set_map)
  obtain r where "r \<in> set cs" "qc_id r = rt" "qc_name r = ''root''" "qc_parent r = None"
    using g by (auto simp: channels_good_def)
  then have r: "\<exists>r\<in>set (map f cs). qc_id r = rt \<and> qc_name r = ''root'' \<and> qc_parent r = None"
    using f by (intro bexI[of _ "f r"]) simp_all
  have "qc_id c < n \<and> (qc_parent c = None \<and> qc_name c \<noteq> [] \<longrightarrow> qc_id c = rt) \<and> (qc_parent c = None \<longrightarrow> qc_complete c = qc_name c)
      \<and> (\<forall>p. qc_parent c = Some p \<longrightarrow> find_channel p (map f cs) \<noteq> None)" if c: "c \<in> set (map f cs)" for c
  proof -
    obtain d where d: "d \<in> set cs" "c = f d" using c by auto
    have "qc_id d < n \<and> (qc_parent d = None \<and> qc_name d \<noteq> [] \<longrightarrow> qc_id d = rt) \<and> (qc_parent d = None \<longrightarrow> qc_complete d = qc_name d)
      \<and> (\<forall>p. qc_parent d = Some p \<longrightarrow> find_channel p cs \<noteq> None)"
      using g d(1) unfolding channels_good_def by blast
    then show ?thesis unfolding d(2) f find .
  qed
  then have all: "\<forall>c\<in>set (map f cs). qc_id c < n \<and> (qc_parent c = None \<and> qc_name c \<noteq> [] \<longrightarrow> qc_id c = rt)
      \<and> (qc_parent c = None \<longrightarrow> qc_complete c = qc_name c) \<and> (\<forall>p. qc_parent c = Some p \<longrightarrow> find_channel p (map f cs) \<noteq> None)"
    by (rule ballI)
  have d: "distinct (map qc_id cs)" "distinct (map qc_complete cs)" using g unfolding channels_good_def by auto
  show ?thesis unfolding channels_good_def ids using r d all by (intro conjI)
qed

lemma good_write:
  assumes g: "channels_good rt n cs" and w: "channel_write False ids v cs = Inr cs'"
  shows "channels_good rt n cs' \<and> map qc_id cs' = map qc_id cs"
proof -
  let ?f = "\<lambda>c. if qc_id c \<in> set ids then apply_vals v c else c" let ?cs = "map ?f cs"
  have ids: "map qc_id ?cs = map qc_id cs" by (simp add: apply_vals_def)
  obtain r where r: "r \<in> set cs" "qc_id r = rt" "qc_name r = ''root''" "qc_parent r = None"
    using g by (auto simp: channels_good_def)
  show ?thesis
  proof (cases "cv_name v \<noteq> None \<or> cv_parent v \<noteq> None")
    case True
    let ?rs = "recompute ids ?cs"
    have chk: "check_channels ids ?rs = Inr cs'" "rt \<notin> set ids"
      using w True r by (auto simp: channel_write_def Let_def list_ex_iff split: if_splits)
    have "?f r = r" using r(2) chk(2) by simp
    then have rin: "r \<in> set ?cs" using r(1) by force
    obtain q where q: "q \<in> set ?rs" "qc_id q = rt" "qc_name q = ''root''" "qc_parent q = None"
      using recompute_has[OF rin, of ids] r(2-4) by auto
    have old: "\<exists>d\<in>set cs. qc_id d = qc_id c \<and> (qc_id c \<notin> set ids \<longrightarrow> qc_parent d = qc_parent c \<and> qc_name d = qc_name c)"
      if c: "c \<in> set ?rs" for c
    proof -
      obtain d where d: "d \<in> set ?cs" "qc_id d = qc_id c" "qc_name d = qc_name c" "qc_parent d = qc_parent c"
        using recompute_rec[OF c] by blast
      then obtain e where "e \<in> set cs" "d = ?f e" by auto
      then show ?thesis using d(2-4) by (auto simp: apply_vals_def split: if_splits)
    qed
    have "qc_complete c = qc_name c" if c: "c \<in> set ?cs" "qc_parent c = None" "qc_id c \<notin> set ids" for c
    proof -
      obtain e where e: "e \<in> set cs" "c = ?f e" using c(1) by auto
      then have "c = e" using c(3) by (auto simp: apply_vals_def split: if_splits)
      then show ?thesis using g e(1) c(2) unfolding channels_good_def by blast
    qed
    then have "own_name (- set ids) ?cs" unfolding own_name_def by blast
    then have own: "own_name UNIV ?rs" by (rule recompute_own)
    have "distinct (map qc_id ?rs)" unfolding recompute_ids ids using g by (simp add: channels_good_def)
    moreover have "qc_id c < n" if "c \<in> set ?rs" for c using old[OF that] g by (auto simp: channels_good_def)
    moreover have "qc_id c = rt" if "c \<in> set ?rs" "qc_parent c = None" "qc_name c \<noteq> []" "qc_id c \<notin> set ids" for c
      using old[OF that(1)] that(2-4) g by (auto simp: channels_good_def)
    moreover have "qc_complete c = qc_name c" if "c \<in> set ?rs" "qc_parent c = None" for c
      using own that by (simp add: own_name_def)
    ultimately have "cs' = ?rs" "channels_good rt n ?rs"
      using checked_good[OF chk(1) q] by blast+
    then show ?thesis by (simp only: recompute_ids ids simp_thms)
  next
    case False
    then have "cs' = ?cs" using w by (simp add: channel_write_def Let_def)
    moreover have "channels_good rt n ?cs" by (rule good_map[OF g]) (use False in \<open>simp_all add: apply_vals_def\<close>)
    ultimately show ?thesis using ids by simp
  qed
qed

lemma new_ids: "map qc_id (map (\<lambda>(j, v). new_channel_rec j v) (enumerate n vs)) = [n..<n + length vs]"
proof -
  have "map qc_id (map (\<lambda>(j, v). new_channel_rec j v) xs) = map fst xs" for xs
    by (induction xs) (auto simp: new_channel_rec_def apply_vals_def)
  from this[of "enumerate n vs"] show ?thesis by (simp only: map_fst_enumerate)
qed

lemma good_create:
  assumes g: "channels_good rt n cs" and c: "channel_create False n vs cs = Inr cs'"
  shows "channels_good rt (n + length vs) cs' \<and> (\<exists>new. cs' = cs @ new)"
proof -
  let ?new = "map (\<lambda>(j, v). new_channel_rec j v) (enumerate n vs)"
  let ?done = "map (\<lambda>c. c\<lparr>qc_complete := compute_complete_name cs c\<rparr>) ?new"
  let ?named = "list_ex (\<lambda>v. cv_name v \<noteq> None \<or> cv_parent v \<noteq> None) vs"
  let ?ids = "if ?named then map qc_id ?new else []"
  have chk: "check_channels ?ids (cs @ ?done) = Inr cs'" using c by (simp add: channel_create_def Let_def)
  have nameless: "qc_name c = []" if unnamed: "\<not> ?named" and made: "c \<in> set ?done" for c
  proof -
    obtain j v where "v \<in> set vs" "qc_name c = qc_name (new_channel_rec j v)"
      using made by (auto dest: set_zip_rightD simp: enumerate_eq_zip)
    with unnamed show ?thesis by (auto simp: list_ex_iff new_channel_rec_def apply_vals_def)
  qed
  have "map qc_id (map (\<lambda>c. c\<lparr>qc_complete := compute_complete_name cs c\<rparr>) xs) = map qc_id xs" for xs
    by (induction xs) simp_all
  from this[of ?new] have same: "map qc_id ?done = map qc_id ?new" .
  then have ids: "map qc_id ?done = [n..<n + length vs]" by (simp only: new_ids)
  then have nid: "n \<le> qc_id c \<and> qc_id c < n + length vs" if "c \<in> set ?done" for c
  proof -
    have "qc_id c \<in> set (map qc_id ?done)" using imageI[OF that, of qc_id] by (simp only: set_map)
    then show ?thesis unfolding ids by simp
  qed
  obtain r where r: "r \<in> set cs" "qc_id r = rt" "qc_name r = ''root''" "qc_parent r = None"
    using g by (auto simp: channels_good_def)
  have old: "qc_id c < n \<and> (qc_parent c = None \<longrightarrow> qc_complete c = qc_name c \<and> (qc_name c \<noteq> [] \<longrightarrow> qc_id c = rt))" if "c \<in> set cs" for c
    using g that by (auto simp: channels_good_def)
  have "qc_id ` set ?done = {n..<n + length vs}" using arg_cong[OF ids, of set] by (simp only: set_map set_upt)
  moreover have "qc_id ` set cs \<subseteq> {..<n}" using old by auto
  ultimately have "qc_id ` set cs \<inter> qc_id ` set ?done = {}" by auto
  moreover have "distinct (map qc_id ?done)" unfolding ids by simp
  ultimately have "distinct (map qc_id (cs @ ?done))" using g unfolding channels_good_def by (simp only: map_append distinct_append set_map)
  moreover have "qc_id c < n + length vs" if "c \<in> set (cs @ ?done)" for c using that old nid by fastforce
  moreover have "qc_complete c = qc_name c" if "c \<in> set (cs @ ?done)" "qc_parent c = None" for c
    using that old by (auto simp: compute_complete_name_def)
  moreover have "qc_id c = rt" if "c \<in> set (cs @ ?done)" "qc_parent c = None" "qc_name c \<noteq> []" "qc_id c \<notin> set ?ids" for c
  proof -
    have "c \<notin> set ?done"
    proof
      assume c: "c \<in> set ?done"
      then have "?named" using nameless that(3) by blast
      then have "qc_id c \<notin> set (map qc_id ?new)" using that(4) by simp
      then show False using c imageI[of c "set ?done" qc_id] unfolding same[symmetric] set_map by blast
    qed
    then show ?thesis using that old by simp
  qed
  ultimately have "cs' = cs @ ?done" "channels_good rt (n + length vs) (cs @ ?done)"
    using checked_good[OF chk, of r rt "n + length vs"] r by (simp_all del: set_map)
  then show ?thesis by blast
qed

lemma good_unlink:
  assumes g: "channels_good (js_root s) n (js_channels s)" and u: "channel_unlink ids s = Inr s'"
  shows "channels_good (js_root s) n (js_channels s') \<and> js_channels s' = filter (\<lambda>c. qc_id c \<notin> set ids) (js_channels s)
    \<and> js_functions s' = js_functions s \<and> list_all (\<lambda>f. fn_channel f \<notin> set ids) (js_functions s)
    \<and> js_root s' = js_root s \<and> js_next s' = js_next s \<and> js_cache s' = js_cache s"
proof -
  let ?cs = "filter (\<lambda>c. qc_id c \<notin> set ids) (js_channels s)"
  have u: "\<And>c. c \<in> set (js_channels s) \<Longrightarrow> qc_name c = ''root'' \<Longrightarrow> qc_id c \<notin> set ids"
    "\<And>c. c \<in> set ?cs \<Longrightarrow> qc_parent c \<notin> Some ` set ids" "list_all (\<lambda>f. fn_channel f \<notin> set ids) (js_functions s)"
    "s' = s\<lparr>js_channels := ?cs\<rparr>"
    using u by (auto simp: channel_unlink_def Let_def list_ex_iff list_all_iff split: if_splits)
  have "distinct (map qc_id ?cs)" "distinct (map qc_complete ?cs)"
    using g by (auto simp: channels_good_def distinct_map inj_on_def)
  moreover have "find_channel p ?cs \<noteq> None" if "c \<in> set ?cs" "qc_parent c = Some p" for c p
  proof -
    have "find_channel p (js_channels s) \<noteq> None" using g that by (auto simp: channels_good_def)
    moreover have "p \<notin> set ids" using u(2)[OF that(1)] that(2) by auto
    ultimately show ?thesis by (auto simp: find_channel_None)
  qed
  moreover have "\<exists>r\<in>set ?cs. qc_id r = js_root s \<and> qc_name r = ''root'' \<and> qc_parent r = None"
    using g u(1) by (auto simp: channels_good_def)
  ultimately have "channels_good (js_root s) n ?cs" using g by (auto simp: channels_good_def)
  then show ?thesis using u(3,4) by simp
qed

definition setup_ok :: "job_setup \<Rightarrow> bool" where
  "setup_ok s \<longleftrightarrow> channels_good (js_root s) (js_next s) (js_channels s)
     \<and> list_all (\<lambda>f. find_channel (fn_channel f) (js_channels s) \<noteq> None) (js_functions s)"

fun plain_event :: "setup_event \<Rightarrow> bool" where
  "plain_event (ChannelCreate install _) = (\<not> install)"
| "plain_event (ChannelWrite install _ _) = (\<not> install)"
| "plain_event _ = True"

lemma good_mono: "channels_good rt n cs \<Longrightarrow> n \<le> m \<Longrightarrow> channels_good rt m cs"
  by (fastforce simp: channels_good_def)

lemma with_functions_ok:
  "with_functions s fs = Inr s' \<Longrightarrow> setup_ok s \<Longrightarrow>
   setup_ok s' \<and> js_cache s' = [] \<and> js_channels s' = js_channels s \<and> js_root s' = js_root s \<and> js_next s' = js_next s"
  by (auto simp: with_functions_def setup_ok_def list_ex_iff list_all_iff split: if_splits)

lemma function_write_ok:
  "function_write pf env ids v s = Inr s' \<Longrightarrow> setup_ok s \<Longrightarrow>
   setup_ok s' \<and> js_cache s' = [] \<and> js_channels s' = js_channels s \<and> js_root s' = js_root s \<and> js_next s' = js_next s"
  unfolding function_write_def ebind_eq_Inr using with_functions_ok by blast

lemma rebind_functions_ok:
  "rebind_functions pf env vs s = Inr (rest, s') \<Longrightarrow> setup_ok s \<Longrightarrow> setup_ok s'"
proof (induction vs arbitrary: s s' rest)
  case (Cons v vs)
  let ?e = "if fv_name v = Some [] then None else
            case fv_name v of None \<Rightarrow> None | Some n \<Rightarrow> List.find (\<lambda>f. fn_name f = n) (js_functions s)"
  show ?case
  proof (cases ?e)
    case None
    then obtain r where "rebind_functions pf env vs s = Inr (r, s')" using Cons.prems(1) by (auto simp: ebind_eq_Inr)
    then show ?thesis using Cons by blast
  next
    case (Some e)
    then obtain s1 where s1: "(if fn_noupdate e then Inr s else function_write pf env [fn_id e] v s) = Inr s1"
      "rebind_functions pf env vs s1 = Inr (rest, s')"
      using Cons.prems(1) by (auto simp: ebind_eq_Inr)
    have "setup_ok s1"
    proof (cases "fn_noupdate e")
      case False
      then show ?thesis using s1(1) function_write_ok Cons.prems(2) by simp
    qed (use s1(1) Cons.prems(2) in simp)
    then show ?thesis using Cons.IH[OF s1(2)] by blast
  qed
qed simp

lemma function_create_ok:
  assumes "function_create pf env install vs s = Inr s'" "setup_ok s"
  shows "setup_ok s' \<and> js_cache s' = []"
proof -
  obtain rest s1 new where s1: "(if install then rebind_functions pf env vs s else Inr (vs, s)) = Inr (rest, s1)"
    "with_functions (s1\<lparr>js_next := js_next s1 + length rest\<rparr>) (js_functions s1 @ new) = Inr s'"
    using assms(1) by (auto simp: function_create_def ebind_eq_Inr simp del: rebind_functions.simps)
  have "setup_ok s1"
  proof (cases install)
    case True
    then show ?thesis using s1(1) rebind_functions_ok[OF _ assms(2)] by simp
  qed (use s1(1) assms(2) in simp)
  then have "setup_ok (s1\<lparr>js_next := js_next s1 + length rest\<rparr>)" by (auto simp: setup_ok_def intro: good_mono)
  from with_functions_ok[OF s1(2) this] show ?thesis by blast
qed

lemma find_append: "find_channel i cs \<noteq> None \<Longrightarrow> find_channel i (cs @ new) = find_channel i cs"
  by (induction cs) (auto simp: find_channel_def)

lemma setup_call_ok:
  assumes s: "setup_ok s" and e: "plain_event e"
  shows "setup_ok (setup_call pf env e s)"
proof -
  have "setup_ok s'" if st: "setup_step pf env e s = Inr s'" for s'
  proof (cases e)
    case (ChannelCreate install vs)
    then obtain cs where c: "channel_create False (js_next s) vs (js_channels s) = Inr cs"
      "s' = s\<lparr>js_channels := cs, js_next := js_next s + length vs\<rparr>" using st e by (auto simp: ebind_eq_Inr)
    have g: "channels_good (js_root s) (js_next s + length vs) cs" "\<exists>new. cs = js_channels s @ new"
      using good_create[OF _ c(1)] s by (auto simp: setup_ok_def)
    then show ?thesis using s c(2) find_append by (fastforce simp: setup_ok_def list_all_iff)
  next
    case (ChannelWrite install ids v)
    then obtain cs where c: "channel_write False ids v (js_channels s) = Inr cs" "s' = s\<lparr>js_channels := cs\<rparr>"
      using st e by (auto simp: ebind_eq_Inr)
    have g: "channels_good (js_root s) (js_next s) cs" "map qc_id cs = map qc_id (js_channels s)"
      using good_write[OF _ c(1)] s by (auto simp: setup_ok_def)
    have "find_channel i cs = None \<longleftrightarrow> find_channel i (js_channels s) = None" for i
      using arg_cong[OF g(2), of set] by (simp add: find_channel_None)
    then show ?thesis using s c(2) g(1) by (auto simp: setup_ok_def list_all_iff)
  next
    case (ChannelUnlink ids)
    then have u: "channel_unlink ids s = Inr s'" using st by simp
    have g: "channels_good (js_root s) (js_next s) (js_channels s)" using s by (simp add: setup_ok_def)
    note r = good_unlink[OF g u]
    then have "find_channel (fn_channel f) (js_channels s') \<noteq> None" if "f \<in> set (js_functions s)" for f
    proof -
      have "fn_channel f \<in> qc_id ` set (js_channels s)" "fn_channel f \<notin> set ids"
        using s that r by (auto simp: setup_ok_def list_all_iff find_channel_None)
      then show ?thesis using r unfolding find_channel_None by auto
    qed
    then show ?thesis using r by (auto simp: setup_ok_def list_all_iff)
  next
    case (FunctionCreate install vs)
    then show ?thesis using st function_create_ok[OF _ s] by simp
  next
    case (FunctionWrite ids v)
    then show ?thesis using st function_write_ok[OF _ s] by simp
  next
    case (FunctionUnlink ids)
    then show ?thesis using st s by (auto simp: setup_ok_def list_all_iff)
  next
    case (ReadConfig name)
    then show ?thesis using st s by (auto simp: setup_ok_def job_config_def split: option.splits sum.splits)
  qed
  then show ?thesis using s by (simp add: setup_call_def split: sum.split)
qed

lemma run_setup_ok: "list_all plain_event es \<Longrightarrow> setup_ok s \<Longrightarrow> setup_ok (run_setup pf env es s)"
  unfolding run_setup_def by (induction es arbitrary: s) (simp_all add: setup_call_ok)

lemma installed_ok: "setup_ok installed_setup"
  by (simp add: setup_ok_def installed_setup_def channels_good_def)

lemma only_element: "set xs = {r} \<Longrightarrow> distinct xs \<Longrightarrow> xs = [r]"
proof (cases xs)
  case (Cons x ys)
  assume "set xs = {r}" "distinct xs"
  then have "x = r" "set ys \<subseteq> {r}" "r \<notin> set ys" using Cons by auto
  then have "ys = []" by (cases ys) auto
  then show ?thesis using Cons \<open>x = r\<close> by simp
qed simp

lemma parentless_root:
  assumes "channels_good rt n cs"
  shows "\<exists>r. filter (\<lambda>c. qc_parent c = None \<and> qc_name c \<noteq> []) cs = [r] \<and> qc_id r = rt \<and> qc_name r = ''root''"
proof -
  obtain r where r: "r \<in> set cs" "qc_id r = rt" "qc_name r = ''root''" "qc_parent r = None"
    using assms by (auto simp: channels_good_def)
  let ?f = "filter (\<lambda>c. qc_parent c = None \<and> qc_name c \<noteq> []) cs"
  have d: "distinct (map qc_id ?f)" using assms by (auto simp: channels_good_def distinct_map inj_on_def)
  have "c = r" if "c \<in> set ?f" for c
  proof -
    have "qc_id c = qc_id r" using that assms r(2) by (auto simp: channels_good_def)
    moreover have "distinct (map qc_id cs)" using assms by (simp add: channels_good_def)
    ultimately show ?thesis using that r(1) by (auto simp: distinct_map inj_on_def)
  qed
  moreover have "r \<in> set ?f" using r by simp
  ultimately have "set ?f = {r}" by blast
  moreover have "distinct ?f" using d by (simp add: distinct_map)
  ultimately have "?f = [r]" by (rule only_element)
  then show ?thesis using r by blast
qed

text \<open>
  Property C40. Whatever channels and job functions users create, rename, move and delete, accepted or
  refused: exactly one channel with a name has no parent, it is the one the module installed and it is
  called root; no two channels have the same complete name; the parent of every channel and the channel of
  every job function exist. Changes that a module makes while it is installed are left out, since they may
  rename the root. A channel without a name needs no parent, and a channel may be its own ancestor: the
  two lemmas after the witness.
\<close>

theorem channel_tree_kept:
  assumes "list_all plain_event es"
  shows "let s = run_setup pf env es installed_setup in
    (\<exists>r. filter (\<lambda>c. qc_parent c = None \<and> qc_name c \<noteq> []) (js_channels s) = [r] \<and> qc_id r = js_root s \<and> qc_name r = ''root'')
    \<and> distinct (map qc_complete (js_channels s))
    \<and> list_all (\<lambda>c. qc_parent c = None \<or> find_channel (the (qc_parent c)) (js_channels s) \<noteq> None) (js_channels s)
    \<and> list_all (\<lambda>f. find_channel (fn_channel f) (js_channels s) \<noteq> None) (js_functions s)"
proof -
  let ?s = "run_setup pf env es installed_setup"
  have s: "setup_ok ?s" by (rule run_setup_ok[OF assms installed_ok])
  then have g: "channels_good (js_root ?s) (js_next ?s) (js_channels ?s)" by (simp add: setup_ok_def)
  have "list_all (\<lambda>c. qc_parent c = None \<or> find_channel (the (qc_parent c)) (js_channels ?s) \<noteq> None) (js_channels ?s)"
  proof -
    have "qc_parent c = None \<or> find_channel (the (qc_parent c)) (js_channels ?s) \<noteq> None" if "c \<in> set (js_channels ?s)" for c
      using g that unfolding channels_good_def by (cases "qc_parent c") simp_all
    then show ?thesis unfolding list_all_iff by blast
  qed
  moreover have "distinct (map qc_complete (js_channels ?s))" using g by (simp add: channels_good_def)
  ultimately show ?thesis using s parentless_root[OF g] by (simp add: setup_ok_def Let_def)
qed

definition channel_values :: "string \<Rightarrow> nat \<Rightarrow> channel_vals" where
  "channel_values n p = \<lparr>cv_name = Some n, cv_parent = Some (Some p), cv_interval = None\<rparr>"

definition rename_to :: "string \<Rightarrow> channel_vals" where
  "rename_to n = \<lparr>cv_name = Some n, cv_parent = None, cv_interval = None\<rparr>"

definition poll_function :: function_vals where
  "poll_function = \<lparr>fv_name = Some ''<ejar.contract>.poll_status'', fv_model = None, fv_method = None,
     fv_channel = Some 2, fv_retry = None, fv_related = None\<rparr>"

definition demo_setup :: "setup_event list" where
  "demo_setup = [ChannelCreate False [channel_values ''ejar'' 1], FunctionCreate False [poll_function],
     ReadConfig ''<ejar.contract>.poll_status'', ChannelWrite False [1] (rename_to ''top''), ChannelUnlink [2]]"

theorem channel_tree_kept_witness:
  "map qc_complete (js_channels (run_setup odoo_like runner_env demo_setup installed_setup)) = [''root'', ''root.ejar'']
   \<and> (\<exists>r. filter (\<lambda>c. qc_parent c = None \<and> qc_name c \<noteq> []) (js_channels (run_setup odoo_like runner_env demo_setup installed_setup)) = [r])"
proof -
  have "list_all plain_event demo_setup" by (simp add: demo_setup_def)
  from channel_tree_kept[OF this, of odoo_like runner_env]
  have "\<exists>r. filter (\<lambda>c. qc_parent c = None \<and> qc_name c \<noteq> []) (js_channels (run_setup odoo_like runner_env demo_setup installed_setup)) = [r]"
    by (auto simp: Let_def)
  moreover have "map qc_complete (js_channels (run_setup odoo_like runner_env demo_setup installed_setup)) = [''root'', ''root.ejar'']"
    by code_simp
  ultimately show ?thesis by blast
qed

text \<open>
  The constraint is not checked when neither its name nor its parent is among the values: \<^verbatim>\<open>create({})\<close>,
  or the quick creation by complete name, makes a channel without name and parent. And nothing keeps a
  channel from becoming its own parent, or a job function from using it.
\<close>

lemma nameless_channel:
  "map (\<lambda>c. (qc_name c, qc_parent c)) (js_channels (run_setup odoo_like runner_env
      [ChannelCreate False [\<lparr>cv_name = None, cv_parent = None, cv_interval = None\<rparr>]] installed_setup))
   = [(''root'', None), ([], None)]"
  by code_simp

lemma own_parent:
  "map (\<lambda>c. (qc_id c, qc_parent c)) (js_channels (run_setup odoo_like runner_env
      [ChannelCreate False [channel_values ''ejar'' 1],
       ChannelWrite False [2] \<lparr>cv_name = None, cv_parent = Some (Some 2), cv_interval = None\<rparr>] installed_setup))
   = [(1, None), (2, Some 2)]"
  by code_simp

section \<open>The cache of configurations\<close>

definition cache_ok :: "job_setup \<Rightarrow> bool" where
  "cache_ok s \<longleftrightarrow> (\<forall>name c. map_of (js_cache s) name = Some c \<longrightarrow> current_config s name = Inr c)"

text \<open>Events that rename or move no channel.\<close>

fun keeps_names :: "setup_event \<Rightarrow> bool" where
  "keeps_names (ChannelCreate install _) = (\<not> install)"
| "keeps_names (ChannelWrite install _ v) = (\<not> install \<and> cv_name v = None \<and> cv_parent v = None)"
| "keeps_names _ = True"

lemma config_of_channels:
  assumes "js_functions s' = js_functions s"
    "\<And>f. f \<in> set (js_functions s) \<Longrightarrow> function_channel (js_channels s') f = function_channel (js_channels s) f"
  shows "current_config s' name = current_config s name"
proof (cases "List.find (\<lambda>f. fn_name f = name) (js_functions s)")
  case None
  then show ?thesis using assms(1) by (simp add: current_config_def)
next
  case (Some f)
  then have "f \<in> set (js_functions s)" by (auto simp: find_Some_iff)
  then show ?thesis using assms Some by (simp add: current_config_def)
qed

lemma cache_channels:
  assumes "cache_ok s" "js_functions s' = js_functions s" "js_cache s' = js_cache s"
    "\<And>f. f \<in> set (js_functions s) \<Longrightarrow> function_channel (js_channels s') f = function_channel (js_channels s) f"
  shows "cache_ok s'"
  using assms(1) config_of_channels[OF assms(2,4)] assms(3) by (simp add: cache_ok_def)

lemma find_filter: "(\<And>c. c \<in> set cs \<Longrightarrow> qc_id c = i \<Longrightarrow> P c) \<Longrightarrow> find_channel i (filter P cs) = find_channel i cs"
  by (induction cs) (auto simp: find_channel_def)

lemma find_map_complete:
  "(\<And>c. qc_id (f c) = qc_id c \<and> qc_complete (f c) = qc_complete c) \<Longrightarrow>
   map_option qc_complete (find_channel i (map f cs)) = map_option qc_complete (find_channel i cs)"
  by (induction cs) (simp_all add: find_channel_def)

lemma function_channel_map: "function_channel cs f = (case map_option qc_complete (find_channel (fn_channel f) cs) of None \<Rightarrow> [] | Some n \<Rightarrow> n)"
  by (simp add: function_channel_def split: option.split)

lemma cache_cleared: "js_cache s = [] \<Longrightarrow> cache_ok s" by (simp add: cache_ok_def)

lemma setup_call_cache:
  assumes s: "setup_ok s" "cache_ok s" and e: "keeps_names e"
  shows "cache_ok (setup_call pf env e s)"
proof -
  have "cache_ok s'" if st: "setup_step pf env e s = Inr s'" for s'
  proof (cases e)
    case (ChannelCreate install vs)
    then obtain cs where c: "channel_create False (js_next s) vs (js_channels s) = Inr cs"
      "s' = s\<lparr>js_channels := cs, js_next := js_next s + length vs\<rparr>" using st e by (auto simp: ebind_eq_Inr)
    obtain new where "cs = js_channels s @ new" using good_create[OF _ c(1)] s(1) by (auto simp: setup_ok_def)
    then have "function_channel cs f = function_channel (js_channels s) f" if "f \<in> set (js_functions s)" for f
      using s(1) that find_append by (auto simp: setup_ok_def list_all_iff function_channel_def)
    then show ?thesis using c(2) by (intro cache_channels[OF s(2)]) auto
  next
    case (ChannelWrite install ids v)
    then obtain cs where c: "channel_write False ids v (js_channels s) = Inr cs" "s' = s\<lparr>js_channels := cs\<rparr>"
      using st e by (auto simp: ebind_eq_Inr)
    let ?f = "\<lambda>c. if qc_id c \<in> set ids then apply_vals v c else c"
    have "cs = map ?f (js_channels s)" using c(1) e ChannelWrite by (simp add: channel_write_def Let_def)
    then have "function_channel cs f = function_channel (js_channels s) f" for f
      unfolding function_channel_map using find_map_complete[of ?f] by (simp add: apply_vals_def)
    then show ?thesis using c(2) by (intro cache_channels[OF s(2)]) auto
  next
    case (ChannelUnlink ids)
    then have u: "channel_unlink ids s = Inr s'" using st by simp
    have g: "channels_good (js_root s) (js_next s) (js_channels s)" using s(1) by (simp add: setup_ok_def)
    note r = good_unlink[OF g u]
    have "function_channel (js_channels s') f = function_channel (js_channels s) f" if "f \<in> set (js_functions s)" for f
    proof -
      have "fn_channel f \<notin> set ids" using r that by (auto simp: list_all_iff)
      then show ?thesis using r find_filter[of "js_channels s" "fn_channel f" "\<lambda>c. qc_id c \<notin> set ids"]
        by (simp add: function_channel_def)
    qed
    then show ?thesis using r by (intro cache_channels[OF s(2)]) auto
  next
    case (FunctionCreate install vs)
    then show ?thesis using st function_create_ok[OF _ s(1)] cache_cleared by simp
  next
    case (FunctionWrite ids v)
    then show ?thesis using st function_write_ok[OF _ s(1)] cache_cleared by simp
  next
    case (FunctionUnlink ids)
    then show ?thesis using st cache_cleared by auto
  next
    case (ReadConfig name)
    have "current_config (s\<lparr>js_cache := x\<rparr>) n = current_config s n" for x n by (rule config_of_channels) simp_all
    then show ?thesis using st s(2) ReadConfig by (auto simp: job_config_def cache_ok_def split: option.splits sum.splits if_splits)
  qed
  then show ?thesis using s(2) by (simp add: setup_call_def split: sum.split)
qed

lemma keeps_plain: "keeps_names e \<Longrightarrow> plain_event e" by (cases e) auto

lemma run_setup_cache: "list_all keeps_names es \<Longrightarrow> setup_ok s \<Longrightarrow> cache_ok s \<Longrightarrow> cache_ok (run_setup pf env es s)"
  unfolding run_setup_def by (induction es arbitrary: s) (simp_all add: setup_call_cache setup_call_ok keeps_plain)

text \<open>
  Property C39. A job is configured by what the tables say: as long as no channel is renamed or moved,
  what the cached lookup of a configuration returns is what a fresh lookup would return, in whatever order
  functions and channels are created, changed and deleted in between and configurations are read.
\<close>

theorem config_up_to_date:
  assumes "list_all keeps_names es"
  shows "fst (job_config name (run_setup pf env es installed_setup)) = current_config (run_setup pf env es installed_setup) name"
proof -
  have "cache_ok (run_setup pf env es installed_setup)"
    by (rule run_setup_cache[OF assms installed_ok]) (simp add: cache_ok_def installed_setup_def)
  then show ?thesis by (simp add: job_config_def cache_ok_def split: option.split sum.split)
qed

definition stable_setup :: "setup_event list" where
  "stable_setup = [ReadConfig ''<ejar.contract>.poll_status'', ChannelCreate False [channel_values ''ejar'' 1],
     FunctionCreate False [poll_function], ReadConfig ''<ejar.contract>.poll_status'']"

theorem config_up_to_date_witness:
  "map_sum id jg_channel (fst (job_config ''<ejar.contract>.poll_status'' (run_setup odoo_like runner_env stable_setup installed_setup)))
   = Inr ''root.ejar''"
proof -
  have "list_all keeps_names stable_setup" by (simp add: stable_setup_def)
  note fresh = config_up_to_date[OF this, of "''<ejar.contract>.poll_status''" odoo_like runner_env]
  have "map_sum id jg_channel (current_config (run_setup odoo_like runner_env stable_setup installed_setup)
      ''<ejar.contract>.poll_status'') = Inr ''root.ejar''" by code_simp
  then show ?thesis unfolding fresh .
qed

text \<open>
  A renamed channel is not noticed: jobs created afterwards are still sent to the old name. And a
  subchannel that is called root can be neither renamed nor deleted.
\<close>

lemma rename_not_noticed:
  "let s = run_setup odoo_like runner_env (stable_setup @ [ChannelWrite False [2] (rename_to ''slow'')]) installed_setup in
     map qc_complete (js_channels s) = [''root'', ''root.slow'']
     \<and> map_sum id (channel_of_job []) (fst (job_config ''<ejar.contract>.poll_status'' s)) = Inr ''root.ejar''"
  by code_simp

lemma inner_root_stuck:
  "let s = run_setup odoo_like runner_env [ChannelCreate False [channel_values ''root'' 1]] installed_setup in
     map qc_complete (js_channels s) = [''root'', ''root.root'']
     \<and> run_setup odoo_like runner_env [ChannelWrite False [2] (rename_to ''x''), ChannelUnlink [2]] s = s"
  by code_simp

end
