(* ===== verification/CallCenter.thy ===== *)
theory CallCenter
  imports Notify "HOL-Library.List_Lexorder" "HOL-Library.Char_ord"
begin

text \<open>
  The call centre (\<^verbatim>\<open>sa_call_center\<close>): calls and tickets, the search of a partner by
  number, the webhook of a telephone exchange, the webhooks of Twilio with their signature, outgoing
  calls and the round that closes stale calls. Times are seconds. The database id of a record is its
  place in the list. HMAC with base64 is an argument; the outgoing request is recorded, not sent.
\<close>

section \<open>Records\<close>

datatype call_state = Ringing | Answered | Missed | Voicemail | Ended

record call =
  cl_uid :: char_field
  cl_direction :: string
  cl_from :: char_field
  cl_to :: char_field
  cl_partner :: "nat option"
  cl_agent :: "nat option"
  cl_queue :: "nat option"
  cl_state :: call_state
  cl_start :: "int option"
  cl_answer :: "int option"
  cl_end :: "int option"
  cl_recording :: char_field
  cl_ticket :: "nat option"
  cl_notes :: char_field

datatype ticket_state = TicketNew | TicketProgress | TicketDone

record call_ticket =
  tk_partner :: "nat option"
  tk_call :: "nat option"
  tk_property :: "nat option"
  tk_description :: string
  tk_state :: ticket_state
  tk_lead :: "nat option"
  tk_request :: "nat option"

record centre_user =
  cu_agent :: bool
  cu_extension :: char_field

text \<open>What the conversions of a ticket hand to the creation of a lead or a request.\<close>

record lead_values =
  lv_partner :: nat
  lv_description :: string
  lv_source :: string

record request_values =
  rv_property :: nat
  rv_description :: string
  rv_category :: string

record centre =
  calls :: "call list"
  tickets :: "call_ticket list"
  contacts :: "contact list"
  users :: "centre_user list"
  queue_codes :: "string list"
  made_leads :: "lead_values list"
  made_requests :: "request_values list"
  clock :: int

datatype centre_error =
    BadValue string
  | NotANumber
  | NoSuchRecord
  | NotAscii
  | Refused string

type_synonym 'a cop = "centre \<Rightarrow> (centre_error + 'a) \<times> centre"

definition find_index :: "('a \<Rightarrow> bool) \<Rightarrow> 'a list \<Rightarrow> nat option" where
  "find_index P xs = List.find (\<lambda>i. P (xs ! i)) [0..<length xs]"

lemma find_index_Some: "find_index P xs = Some i \<Longrightarrow> i < length xs \<and> P (xs ! i)"
  by (auto simp: find_index_def find_Some_iff)

lemma find_index_None: "find_index P xs = None \<longleftrightarrow> (\<forall>x\<in>set xs. \<not> P x)"
  by (auto simp: find_index_def find_None_iff all_set_conv_all_nth)

section \<open>Durations\<close>

definition seconds_between :: "int option \<Rightarrow> int option \<Rightarrow> int" where
  "seconds_between a b = (case (a, b) of (Some x, Some y) \<Rightarrow> max (y - x) 0 | _ \<Rightarrow> 0)"

definition wait_duration :: "call \<Rightarrow> int" where
  "wait_duration c = seconds_between (cl_start c) (cl_answer c)"

definition talk_duration :: "call \<Rightarrow> int" where
  "talk_duration c = seconds_between (cl_answer c) (cl_end c)"

section \<open>Who calls\<close>

definition number_forms :: "string \<Rightarrow> string list" where
  "number_forms n =
     (let local = (if starts_with n ''966'' then drop 3 n else n)
      in [n, CHR ''+'' # n, ''00'' @ n, CHR ''0'' # local, local])"

definition has_number :: "char_field \<Rightarrow> string \<Rightarrow> bool" where
  "has_number f n \<longleftrightarrow> (case f of None \<Rightarrow> False | Some s \<Rightarrow> normalize_phone s = Some n)"

definition find_partner_by_phone :: "contact list \<Rightarrow> char_field \<Rightarrow> nat option" where
  "find_partner_by_phone ps phone =
     (case (case phone of None \<Rightarrow> None | Some s \<Rightarrow> normalize_phone s) of
        None \<Rightarrow> None
      | Some n \<Rightarrow>
          (case find_index (\<lambda>p. ct_mobile p \<in> Some ` set (number_forms n)) ps of
             Some i \<Rightarrow> Some i
           | None \<Rightarrow>
               (case find_index (\<lambda>p. ct_phone p \<in> Some ` set (number_forms n)) ps of
                  Some i \<Rightarrow> Some i
                | None \<Rightarrow> find_index (\<lambda>p. has_number (ct_mobile p) n \<or> has_number (ct_phone p) n) ps)))"

section \<open>Calls\<close>

definition blank_call :: call where
  "blank_call = \<lparr>cl_uid = None, cl_direction = ''in'', cl_from = None, cl_to = None, cl_partner = None,
     cl_agent = None, cl_queue = None, cl_state = Ringing, cl_start = None, cl_answer = None, cl_end = None,
     cl_recording = None, cl_ticket = None, cl_notes = None\<rparr>"

text \<open>The creation: the partner is looked up unless the values name one; the start defaults to now.\<close>

definition create_call :: "call \<Rightarrow> nat cop" where
  "create_call v s =
     (if cl_direction v \<notin> {''in'', ''out''} then (Inl (BadValue (cl_direction v)), s)
      else if (case cl_agent v of None \<Rightarrow> False | Some a \<Rightarrow> length (users s) \<le> a) then (Inl NoSuchRecord, s)
      else
        (Inr (length (calls s)), s\<lparr>calls := calls s @ [v\<lparr>
           cl_partner := (if is_set (cl_from v) \<and> cl_partner v = None
                          then find_partner_by_phone (contacts s) (cl_from v) else cl_partner v),
           cl_start := Some (case cl_start v of None \<Rightarrow> clock s | Some t \<Rightarrow> t)\<rparr>]\<rparr>))"

definition write_call :: "nat \<Rightarrow> (call \<Rightarrow> call) \<Rightarrow> centre \<Rightarrow> centre" where
  "write_call i f s = s\<lparr>calls := (calls s)[i := f (calls s ! i)]\<rparr>"

text \<open>The search takes the latest call, by start and then by id; a call without a start counts as latest.\<close>

definition starts_before :: "call \<Rightarrow> call \<Rightarrow> bool" where
  "starts_before c d \<longleftrightarrow> (case (cl_start c, cl_start d) of
     (_, None) \<Rightarrow> True | (None, Some _) \<Rightarrow> False | (Some x, Some y) \<Rightarrow> x \<le> y)"

definition latest :: "call list \<Rightarrow> nat option \<Rightarrow> nat \<Rightarrow> nat option" where
  "latest cs best i = (case best of
     None \<Rightarrow> Some i | Some b \<Rightarrow> if starts_before (cs ! b) (cs ! i) then Some i else Some b)"

definition find_call :: "char_field \<Rightarrow> centre \<Rightarrow> nat option" where
  "find_call uid s =
     foldl (latest (calls s)) None (filter (\<lambda>i. cl_uid (calls s ! i) = uid) [0..<length (calls s)])"

lemma latest_in: "foldl (latest cs) b js = Some i \<Longrightarrow> i \<in> set js \<or> b = Some i"
  by (induction js arbitrary: b) (auto simp: latest_def split: option.splits if_splits)

lemma find_call_Some: "find_call uid s = Some i \<Longrightarrow> i < length (calls s) \<and> cl_uid (calls s ! i) = uid"
  unfolding find_call_def by (drule latest_in) auto

definition close_stale_ringing_calls :: "int \<Rightarrow> centre \<Rightarrow> centre" where
  "close_stale_ringing_calls timeout_minutes s =
     s\<lparr>calls := map (\<lambda>c.
        if cl_state c = Ringing \<and> (case cl_start c of None \<Rightarrow> False | Some t \<Rightarrow> t \<le> clock s - 60 * timeout_minutes)
        then c\<lparr>cl_state := Missed, cl_end := Some (clock s)\<rparr> else c) (calls s)\<rparr>"

section \<open>Tickets\<close>

definition action_create_ticket :: "nat \<Rightarrow> centre \<Rightarrow> centre" where
  "action_create_ticket i s =
     (case cl_ticket (calls s ! i) of
        Some _ \<Rightarrow> s
      | None \<Rightarrow>
          let c = calls s ! i;
              t = \<lparr>tk_partner = cl_partner c, tk_call = Some i, tk_property = None,
                   tk_description = (case cl_notes c of None \<Rightarrow> '''' | Some n \<Rightarrow> n),
                   tk_state = TicketNew, tk_lead = None, tk_request = None\<rparr>
          in (write_call i (\<lambda>c. c\<lparr>cl_ticket := Some (length (tickets s))\<rparr>) s)\<lparr>tickets := tickets s @ [t]\<rparr>)"

definition action_convert_to_lead :: "nat \<Rightarrow> nat cop" where
  "action_convert_to_lead i s =
     (let t = tickets s ! i in
      if tk_lead t \<noteq> None then (Inl (Refused ''lead''), s)
      else (case tk_partner t of
          None \<Rightarrow> (Inl (Refused ''partner''), s)
        | Some p \<Rightarrow>
            let n = length (made_leads s) in
            (Inr n, s\<lparr>made_leads := made_leads s @ [\<lparr>lv_partner = p, lv_description = tk_description t, lv_source = ''phone''\<rparr>],
               tickets := (tickets s)[i := t\<lparr>tk_lead := Some n, tk_state := TicketProgress\<rparr>]\<rparr>)))"

definition action_convert_to_maintenance :: "nat \<Rightarrow> nat cop" where
  "action_convert_to_maintenance i s =
     (let t = tickets s ! i in
      if tk_request t \<noteq> None then (Inl (Refused ''request''), s)
      else (case tk_property t of
          None \<Rightarrow> (Inl (Refused ''property''), s)
        | Some p \<Rightarrow>
            let n = length (made_requests s) in
            (Inr n, s\<lparr>made_requests := made_requests s @ [\<lparr>rv_property = p, rv_description = tk_description t, rv_category = ''other''\<rparr>],
               tickets := (tickets s)[i := t\<lparr>tk_request := Some n, tk_state := TicketProgress\<rparr>]\<rparr>)))"

definition action_close_ticket :: "nat \<Rightarrow> centre \<Rightarrow> centre" where
  "action_close_ticket i s = s\<lparr>tickets := (tickets s)[i := (tickets s ! i)\<lparr>tk_state := TicketDone\<rparr>]\<rparr>"

section \<open>The webhook of the exchange\<close>

definition centre_param :: "parameters \<Rightarrow> string \<Rightarrow> string \<Rightarrow> string" where
  "centre_param c key dflt = (case c (''sa_call_center.'' @ key) of None \<Rightarrow> dflt | Some v \<Rightarrow> v)"

definition telephony_provider_of :: "parameters \<Rightarrow> string" where
  "telephony_provider_of c =
     (let provider = lower (strip (centre_param c ''telephony_provider'' ''''))
      in if provider = ''asterisk'' then provider else ''disabled'')"

text \<open>A JSON object or a form, with text values; what is false in the code is None here.\<close>

type_synonym fields = "string \<rightharpoonup> string"

definition field :: "fields \<Rightarrow> string \<Rightarrow> char_field" where
  "field d k = (case d k of None \<Rightarrow> None | Some v \<Rightarrow> if v = [] then None else Some v)"

datatype hook_reply =
    InvalidToken
  | MissingEvent
  | AlreadyExists nat
  | Created nat
  | UidNotFound
  | UnknownEvent
  | Updated nat call_state

definition call_event :: "parameters \<Rightarrow> char_field \<Rightarrow> fields \<Rightarrow> hook_reply cop" where
  "call_event conf token d s =
     (if (case token of None \<Rightarrow> '''' | Some t \<Rightarrow> t) \<noteq> centre_param conf ''webhook_token'' ''change-me-in-production''
      then (Inr InvalidToken, s)
      else case field d ''event'' of None \<Rightarrow> (Inr MissingEvent, s) | Some event \<Rightarrow>
        if field d ''call_uid'' = None then (Inr MissingEvent, s)
        else if event = ''ringing'' then
          (case find_call (field d ''call_uid'') s of
             Some i \<Rightarrow> (Inr (AlreadyExists i), s)
           | None \<Rightarrow>
               let v = blank_call\<lparr>cl_uid := field d ''call_uid'',
                     cl_direction := (case d ''direction'' of None \<Rightarrow> ''in'' | Some x \<Rightarrow> x),
                     cl_from := d ''from_number'', cl_to := d ''to_number'',
                     cl_queue := (case field d ''queue_code'' of None \<Rightarrow> None
                                  | Some q \<Rightarrow> find_index (\<lambda>c. c = q) (queue_codes s)),
                     cl_agent := (case field d ''agent_extension'' of None \<Rightarrow> None
                                  | Some e \<Rightarrow> find_index (\<lambda>u. cu_extension u = Some e) (users s)),
                     cl_start := Some (clock s)\<rparr>
               in (case create_call v s of (Inl e, s1) \<Rightarrow> (Inl e, s1) | (Inr i, s1) \<Rightarrow> (Inr (Created i), s1)))
        else (case find_call (field d ''call_uid'') s of
            None \<Rightarrow> (Inr UidNotFound, s)
          | Some i \<Rightarrow>
              let now = Some (clock s);
                  write = (\<lambda>f. let s1 = write_call i f s in (Inr (Updated i (cl_state (calls s1 ! i))), s1)) in
              if event = ''answered'' then write (\<lambda>c. c\<lparr>cl_state := Answered, cl_answer := now\<rparr>)
              else if event = ''ended'' then
                write (\<lambda>c. c\<lparr>cl_state := (if cl_answer c = None then Missed else Ended), cl_end := now,
                  cl_recording := (case field d ''recording_url'' of None \<Rightarrow> cl_recording c | Some u \<Rightarrow> Some u)\<rparr>)
              else if event = ''voicemail'' then write (\<lambda>c. c\<lparr>cl_state := Voicemail, cl_end := now\<rparr>)
              else (Inr UnknownEvent, s)))"

section \<open>Twilio\<close>

definition public_base_url :: "parameters \<Rightarrow> string" where
  "public_base_url c = rev (dropWhile (\<lambda>x. x = CHR ''/'') (rev (strip (centre_param c ''twilio_public_base_url'' ''''))))"

text \<open>The signed text: the address, then each parameter and its value in the order of the names.\<close>

definition signed_text :: "string \<Rightarrow> (string \<times> string) list \<Rightarrow> string" where
  "signed_text url form = url @ concat (map (\<lambda>k. k @ the (map_of form k)) (sort (remdups (map fst form))))"

text \<open>
  \<open>hmac\<close> is HMAC-SHA1 under the key, in base64. \<open>compare_digest\<close> raises a \<open>TypeError\<close> for a text that is not
  ASCII.
\<close>

definition is_ascii :: "string \<Rightarrow> bool" where
  "is_ascii t = list_all (\<lambda>c. of_char c < (128::nat)) t"

definition validate_signature ::
    "(string \<Rightarrow> string \<Rightarrow> string) \<Rightarrow> string \<Rightarrow> (string \<times> string) list \<Rightarrow> string \<Rightarrow> string \<Rightarrow> centre_error + bool" where
  "validate_signature hmac url form signature auth_token =
     (if auth_token = [] \<or> signature = [] then Inr False
      else let expected = hmac auth_token (signed_text url form) in
           if is_ascii expected \<and> is_ascii signature then Inr (expected = signature) else Inl NotAscii)"

definition twilio_auth_token :: "parameters \<Rightarrow> string" where
  "twilio_auth_token conf = strip (centre_param conf ''twilio_auth_token'' '''')"

definition twilio_validate ::
    "(string \<Rightarrow> string \<Rightarrow> string) \<Rightarrow> parameters \<Rightarrow> string \<Rightarrow> char_field \<Rightarrow> (string \<times> string) list
     \<Rightarrow> centre_error + bool" where
  "twilio_validate hmac conf path signature form =
     (let base = public_base_url conf in
      if base = [] then Inr False
      else validate_signature hmac (base @ path) form (case signature of None \<Rightarrow> '''' | Some t \<Rightarrow> t)
        (twilio_auth_token conf))"

text \<open>A handler first validates; its first argument is its answer to a request that is not signed.\<close>

definition when_signed :: "'r \<Rightarrow> centre_error + bool \<Rightarrow> 'r cop \<Rightarrow> 'r cop" where
  "when_signed refusal valid handler s =
     (case valid of Inl e \<Rightarrow> (Inl e, s) | Inr True \<Rightarrow> handler s | Inr False \<Rightarrow> (Inr refusal, s))"

definition agent_identity :: "nat \<Rightarrow> string" where
  "agent_identity u = ''agent_'' @ str_nat u"

datatype twilio_reply =
    Reject
  | DialAgents "string list" "string option"
  | DialOut string string string
  | Forbidden
  | CallNotFound
  | Ok

definition voice_signed ::
    "parameters \<Rightarrow> (string \<times> string) list \<Rightarrow> nat option \<Rightarrow> twilio_reply cop" where
  "voice_signed conf form user s =
     (let d = map_of form; uid = field d ''CallSid'' in
        case (if uid \<noteq> None \<and> find_call uid s = None
              then create_call (blank_call\<lparr>cl_uid := uid, cl_from := d ''From'', cl_to := d ''To'', cl_agent := user\<rparr>) s
              else (Inr 0, s)) of
          (Inl e, s1) \<Rightarrow> (Inl e, s1)
        | (Inr _, s1) \<Rightarrow>
            let forward = strip (centre_param conf ''twilio_forward_number'' '''');
                agents = map agent_identity (filter (\<lambda>u. cu_agent (users s1 ! u)) [0..<length (users s1)])
            in (Inr (if agents = [] \<and> forward = [] then Reject
                     else DialAgents agents (if forward = [] then None else Some forward)), s1))"

definition twilio_voice ::
    "(string \<Rightarrow> string \<Rightarrow> string) \<Rightarrow> parameters \<Rightarrow> char_field \<Rightarrow> (string \<times> string) list \<Rightarrow> nat option
     \<Rightarrow> twilio_reply cop" where
  "twilio_voice hmac conf signature form user s =
     when_signed Reject (twilio_validate hmac conf ''/callcenter/webhook/twilio/voice'' signature form) (voice_signed conf form user) s"

definition MISSED_STATUSES :: "string list" where
  "MISSED_STATUSES = [''busy'', ''no-answer'', ''failed'', ''canceled'']"

definition apply_call_status :: "nat \<Rightarrow> fields \<Rightarrow> unit cop" where
  "apply_call_status i d s =
     (let status = d ''CallStatus''; now = clock s; c = calls s ! i in
      if status = Some ''ringing'' then (Inr (), write_call i (\<lambda>c. c\<lparr>cl_state := Ringing\<rparr>) s)
      else if status = Some ''in-progress''
      then (Inr (), write_call i (\<lambda>c. c\<lparr>cl_state := Answered, cl_answer := Some now\<rparr>) s)
      else if status = Some ''completed'' then
        (let recording = (case field d ''RecordingUrl'' of None \<Rightarrow> cl_recording c | Some u \<Rightarrow> Some u);
             call_duration = (if field d ''CallDuration'' \<noteq> None then field d ''CallDuration'' else field d ''Duration'');
             answered = (\<lambda>a. (Inr (), write_call i (\<lambda>c. c\<lparr>cl_state := Ended, cl_end := Some now,
                cl_recording := recording, cl_answer := a\<rparr>) s));
             missed = (Inr (), write_call i (\<lambda>c. c\<lparr>cl_state := Missed, cl_end := Some now, cl_recording := recording\<rparr>) s)
         in if cl_answer c \<noteq> None then answered (cl_answer c)
            else (case call_duration of
                None \<Rightarrow> missed
              | Some t \<Rightarrow>
                  (case py_int t of
                     None \<Rightarrow> (Inl NotANumber, s)
                   | Some n \<Rightarrow> if n > 0 then answered (Some (now - n)) else missed)))
      else if status \<in> Some ` set MISSED_STATUSES
      then (Inr (), write_call i (\<lambda>c. c\<lparr>cl_state := Missed, cl_end := Some now\<rparr>) s)
      else (Inr (), s))"

definition status_update :: "nat option \<Rightarrow> fields \<Rightarrow> twilio_reply cop" where
  "status_update i d s =
     (case i of
        None \<Rightarrow> (Inr CallNotFound, s)
      | Some j \<Rightarrow> (case apply_call_status j d s of (Inl e, s1) \<Rightarrow> (Inl e, s1) | (Inr _, s1) \<Rightarrow> (Inr Ok, s1)))"

definition status_signed ::
    "(string \<times> string) list \<Rightarrow> twilio_reply cop" where
  "status_signed form s =
     (status_update (find_call (map_of form ''CallSid'') s) (map_of form) s)"

definition twilio_status ::
    "(string \<Rightarrow> string \<Rightarrow> string) \<Rightarrow> parameters \<Rightarrow> char_field \<Rightarrow> (string \<times> string) list \<Rightarrow> twilio_reply cop" where
  "twilio_status hmac conf signature form s =
     when_signed Forbidden (twilio_validate hmac conf ''/callcenter/webhook/twilio/status'' signature form) (status_signed form) s"

definition outbound_status_path :: "nat \<Rightarrow> string" where
  "outbound_status_path i = ''/callcenter/webhook/twilio/outbound-status/'' @ str_nat i"

definition outbound_agent :: "string \<Rightarrow> centre_error + nat option" where
  "outbound_agent from =
     (if starts_with from ''client:agent_'' then
        (case py_int (drop (length ''client:agent_'') from) of
           None \<Rightarrow> Inl NotANumber
         | Some n \<Rightarrow> if n < 0 then Inl NoSuchRecord else Inr (Some (nat n)))
      else Inr None)"

definition outbound_voice_signed ::
    "parameters \<Rightarrow> (string \<times> string) list \<Rightarrow> twilio_reply cop" where
  "outbound_voice_signed conf form s =
     (let d = map_of form;
            destination = strip (case d ''To'' of None \<Rightarrow> '''' | Some t \<Rightarrow> t);
            number = strip (centre_param conf ''twilio_phone_number'' '''');
            from = (case d ''From'' of None \<Rightarrow> '''' | Some t \<Rightarrow> t)
        in if destination = [] then (Inr Reject, s)
           else (case outbound_agent from of
               Inl e \<Rightarrow> (Inl e, s)
             | Inr agent \<Rightarrow>
                 (case create_call (blank_call\<lparr>cl_uid := d ''CallSid'', cl_direction := ''out'',
                          cl_from := (if number = [] then None else Some number), cl_to := Some destination,
                          cl_agent := agent\<rparr>) s of
                    (Inl e, s1) \<Rightarrow> (Inl e, s1)
                  | (Inr i, s1) \<Rightarrow>
                      (Inr (DialOut number (public_base_url conf @ outbound_status_path i) destination), s1))))"

definition twilio_outbound_voice ::
    "(string \<Rightarrow> string \<Rightarrow> string) \<Rightarrow> parameters \<Rightarrow> char_field \<Rightarrow> (string \<times> string) list \<Rightarrow> twilio_reply cop" where
  "twilio_outbound_voice hmac conf signature form s =
     when_signed Reject (twilio_validate hmac conf ''/callcenter/webhook/twilio/outbound-voice'' signature form) (outbound_voice_signed conf form) s"

definition outbound_status_signed ::
    "(string \<times> string) list \<Rightarrow> nat \<Rightarrow> twilio_reply cop" where
  "outbound_status_signed form i s =
     (status_update (if i < length (calls s) then Some i else None) (map_of form) s)"

definition twilio_outbound_status ::
    "(string \<Rightarrow> string \<Rightarrow> string) \<Rightarrow> parameters \<Rightarrow> char_field \<Rightarrow> (string \<times> string) list \<Rightarrow> nat \<Rightarrow> twilio_reply cop" where
  "twilio_outbound_status hmac conf signature form i s =
     when_signed Forbidden (twilio_validate hmac conf (outbound_status_path i) signature form) (outbound_status_signed form i) s"

section \<open>Outgoing calls\<close>

datatype call_request =
    AriPost string string string string string
  | TwilioPost string string string string string

text \<open>
  The result and the request made. \<open>raised\<close> tells whether the request raised an exception; the code
  does not look at the status of an answer.
\<close>

definition ari_base_url :: "parameters \<Rightarrow> string option" where
  "ari_base_url c =
     (let host = strip (centre_param c ''asterisk_ari_host'' '''');
          port = strip (centre_param c ''asterisk_ari_port'' '''')
      in if host = [] then None
         else Some (''http://'' @ host @ '':'' @ (if port = [] then ''8088'' else port) @ ''/ari''))"

definition asterisk_originate_call :: "parameters \<Rightarrow> bool \<Rightarrow> string \<Rightarrow> string \<Rightarrow> bool \<times> call_request option" where
  "asterisk_originate_call c raised extension destination =
     (case ari_base_url c of
        None \<Rightarrow> (False, None)
      | Some url \<Rightarrow> (\<not> raised, Some (AriPost (url @ ''/channels'') (''PJSIP/'' @ extension) destination
          (centre_param c ''asterisk_ari_user'' '''') (centre_param c ''asterisk_ari_password'' ''''))))"

definition twilio_originate_call :: "parameters \<Rightarrow> bool \<Rightarrow> string \<Rightarrow> string \<Rightarrow> bool \<times> call_request option" where
  "twilio_originate_call c raised agent_phone destination =
     (let sid = strip (centre_param c ''twilio_account_sid'' '''');
          auth = strip (centre_param c ''twilio_auth_token'' '''');
          number = strip (centre_param c ''twilio_phone_number'' '''')
      in if sid = [] \<or> auth = [] \<or> number = [] then (False, None)
         else (\<not> raised, Some (TwilioPost (''https://api.twilio.com/2010-04-01/Accounts/'' @ sid @ ''/Calls.json'')
            agent_phone number (''<Response><Dial>'' @ destination @ ''</Dial></Response>'') auth)))"

text \<open>The claims of an access token; encoding and signature are left to an argument.\<close>

record token_claims =
  tc_issuer :: string
  tc_account :: string
  tc_expires :: int
  tc_identity :: string
  tc_outgoing :: "string option"

definition generate_access_token ::
    "(string \<Rightarrow> token_claims \<Rightarrow> string) \<Rightarrow> parameters \<Rightarrow> int \<Rightarrow> string \<Rightarrow> int \<Rightarrow> string option" where
  "generate_access_token sign c now identity ttl =
     (let key = strip (centre_param c ''twilio_api_key_sid'' '''');
          secret = strip (centre_param c ''twilio_api_key_secret'' '''');
          account = strip (centre_param c ''twilio_account_sid'' '''');
          app = strip (centre_param c ''twilio_twiml_app_sid'' '''')
      in if key = [] \<or> secret = [] \<or> account = [] then None
         else Some (sign secret \<lparr>tc_issuer = key, tc_account = account, tc_expires = now + ttl,
            tc_identity = identity, tc_outgoing = (if app = [] then None else Some app)\<rparr>))"

datatype token_reply = NotAnAgent | NotConfigured | Token string string

definition twilio_token ::
    "(string \<Rightarrow> token_claims \<Rightarrow> string) \<Rightarrow> parameters \<Rightarrow> nat \<Rightarrow> centre \<Rightarrow> token_reply" where
  "twilio_token sign c user s =
     (if \<not> cu_agent (users s ! user) then NotAnAgent
      else (case generate_access_token sign c (clock s) (agent_identity user) 3600 of
          None \<Rightarrow> NotConfigured
        | Some t \<Rightarrow> if t = [] then NotConfigured else Token t (agent_identity user)))"

section \<open>The caller is found\<close>

definition numbered :: "string \<Rightarrow> contact \<Rightarrow> bool" where
  "numbered n p \<longleftrightarrow> has_number (ct_mobile p) n \<or> has_number (ct_phone p) n"

text \<open>A Saudi mobile number in its canonical form: 966, a 5 and eight digits.\<close>

definition saudi_mobile :: "string \<Rightarrow> bool" where
  "saudi_mobile n \<longleftrightarrow> (\<exists>rest. n = ''9665'' @ rest \<and> length rest = 8 \<and> list_all is_decimal rest)"

lemma number_form_canonical:
  assumes "saudi_mobile n" and "f \<in> set (number_forms n)"
  shows "normalize_phone f = Some n"
proof -
  obtain rest where n: "n = ''9665'' @ rest" "length rest = 8" "list_all is_decimal rest"
    using assms(1) by (auto simp: saudi_mobile_def)
  have "filter is_decimal rest = rest" using n(3) by (simp add: list_all_iff)
  with assms(2) n show ?thesis
    by (auto simp: number_forms_def Let_def starts_with_def normalize_phone_def is_decimal_def)
qed

lemma find_partner_listed: "find_partner_by_phone ps phone = Some i \<Longrightarrow> i < length ps"
  by (auto simp: find_partner_by_phone_def dest: find_index_Some split: option.splits)

text \<open>
  The search of a caller: an unusable number finds nobody; a number somebody has, written
  in whatever way, is never left without a partner; and for a Saudi mobile number the partner found
  has that number as mobile or phone, the mobile being preferred.
\<close>
theorem caller_found:
  "case normalize_phone phone of
     None \<Rightarrow> find_partner_by_phone ps (Some phone) = None
   | Some n \<Rightarrow>
       (if list_ex (numbered n) ps then find_partner_by_phone ps (Some phone) \<noteq> None else True)
       \<and> (if saudi_mobile n then
            (case find_partner_by_phone ps (Some phone) of
               None \<Rightarrow> \<not> list_ex (numbered n) ps
             | Some i \<Rightarrow> i < length ps \<and> numbered n (ps ! i))
          else True)"
proof (cases "normalize_phone phone")
  case None
  then show ?thesis by (simp add: find_partner_by_phone_def)
next
  case (Some n)
  let ?direct = "\<lambda>sel p. sel p \<in> Some ` set (number_forms n)"
  have none: "find_partner_by_phone ps (Some phone) = None \<Longrightarrow> \<not> list_ex (numbered n) ps"
    using Some by (auto simp: find_partner_by_phone_def find_index_None numbered_def list_ex_iff split: option.splits)
  have hit: "has_number x n" if "saudi_mobile n" "x \<in> Some ` set (number_forms n)" for x
    using that number_form_canonical by (auto simp: has_number_def)
  have "i < length ps \<and> numbered n (ps ! i)"
    if "saudi_mobile n" "find_partner_by_phone ps (Some phone) = Some i" for i
    using that(2) Some hit [OF that(1)]
    by (auto simp: find_partner_by_phone_def numbered_def dest!: find_index_Some split: option.splits)
  with none Some show ?thesis by (auto split: option.splits)
qed

section \<open>Webhooks need their secret\<close>

text \<open>
  What Twilio signs, written without the code: under the auth token, the public address with the path,
  then the names of the parameters in ascending order, each once and followed by its value.
\<close>

definition signed_request ::
    "(string \<Rightarrow> string \<Rightarrow> string) \<Rightarrow> parameters \<Rightarrow> string \<Rightarrow> char_field \<Rightarrow> (string \<times> string) list \<Rightarrow> bool" where
  "signed_request hmac conf path signature form \<longleftrightarrow>
     twilio_auth_token conf \<noteq> [] \<and> public_base_url conf \<noteq> []
     \<and> (\<exists>names. sorted names \<and> distinct names \<and> set names = fst ` set form
          \<and> (let text = public_base_url conf @ path @ concat (map (\<lambda>k. k @ the (map_of form k)) names);
                 expected = hmac (twilio_auth_token conf) text
             in expected \<noteq> [] \<and> signature = Some expected))"

text \<open>The answer to any other request, with the state it found.\<close>

definition turned_away :: "parameters \<Rightarrow> char_field \<Rightarrow> 'r \<Rightarrow> 'r cop" where
  "turned_away conf signature refusal s =
     (if twilio_auth_token conf \<noteq> [] \<and> public_base_url conf \<noteq> []
         \<and> (case signature of None \<Rightarrow> False | Some t \<Rightarrow> \<not> is_ascii t)
      then Inl NotAscii else Inr refusal, s)"

lemma signed_request_names:
  "signed_request hmac conf path signature form \<longleftrightarrow>
     twilio_auth_token conf \<noteq> [] \<and> public_base_url conf \<noteq> []
     \<and> (let expected = hmac (twilio_auth_token conf) (signed_text (public_base_url conf @ path) form)
        in expected \<noteq> [] \<and> signature = Some expected)"
proof -
  have "(\<exists>names. sorted names \<and> distinct names \<and> set names = fst ` set form \<and> P names)
      \<longleftrightarrow> P (sort (remdups (map fst form)))" for P :: "string list \<Rightarrow> bool"
  proof -
    have "names = sort (remdups (map fst form))" if "sorted names" "distinct names" "set names = fst ` set form" for names
      using that by (intro sorted_distinct_set_unique) simp_all
    moreover have "sorted (sort (remdups (map fst form))) \<and> distinct (sort (remdups (map fst form)))
        \<and> set (sort (remdups (map fst form))) = fst ` set form"
      by simp
    ultimately show ?thesis by blast
  qed
  then show ?thesis unfolding signed_request_def signed_text_def by simp
qed

lemma when_signed_exact:
  assumes "is_ascii (hmac (twilio_auth_token conf) (signed_text (public_base_url conf @ path) form))"
  shows "when_signed refusal (twilio_validate hmac conf path signature form) handler s =
    (if signed_request hmac conf path signature form then handler s else turned_away conf signature refusal s)"
  using assms
  by (cases signature) (auto simp: when_signed_def twilio_validate_def validate_signature_def turned_away_def
      signed_request_names Let_def is_ascii_def)

text \<open>
  Property C31. The webhooks act for requests with the right secret only. To a request without the
  token of the exchange the answer is that the token is invalid, and nothing changes. Of the four
  requests of Twilio, those are acted upon that are signed: an auth token and a public address are
  configured, and the signature is the HMAC, under the auth token, of the address of the handler
  followed by all parameters with their values in the order of their names. Every other one is
  turned away with the handler's refusal and changes nothing; where a signature that is not ASCII is
  compared, the comparison raises, and nothing changes either. The HMAC is assumed to be ASCII, as
  base64 is.
\<close>
theorem webhooks_guarded:
  assumes base64: "\<And>key text. is_ascii (hmac key text)"
  shows "call_event conf token d s =
      (if (case token of None \<Rightarrow> '''' | Some t \<Rightarrow> t) = centre_param conf ''webhook_token'' ''change-me-in-production''
       then call_event conf token d s else (Inr InvalidToken, s))
   \<and> twilio_voice hmac conf sig form user s =
      (if signed_request hmac conf ''/callcenter/webhook/twilio/voice'' sig form
       then voice_signed conf form user s else turned_away conf sig Reject s)
   \<and> twilio_outbound_voice hmac conf sig form s =
      (if signed_request hmac conf ''/callcenter/webhook/twilio/outbound-voice'' sig form
       then outbound_voice_signed conf form s else turned_away conf sig Reject s)
   \<and> twilio_status hmac conf sig form s =
      (if signed_request hmac conf ''/callcenter/webhook/twilio/status'' sig form
       then status_signed form s else turned_away conf sig Forbidden s)
   \<and> twilio_outbound_status hmac conf sig form i s =
      (if signed_request hmac conf (''/callcenter/webhook/twilio/outbound-status/'' @ str_nat i) sig form
       then outbound_status_signed form i s else turned_away conf sig Forbidden s)"
  unfolding twilio_voice_def twilio_outbound_voice_def twilio_status_def twilio_outbound_status_def
    when_signed_exact [of hmac, OF base64] outbound_status_path_def
  by (simp add: call_event_def)

text \<open>The HMAC of the sample keeps what it signs readable: the key, a bar and the text.\<close>

definition sample_hmac :: "string \<Rightarrow> string \<Rightarrow> string" where
  "sample_hmac key text = (if is_ascii (key @ text) then key @ ''|'' @ text else ''?'')"

definition sample_twilio :: parameters where
  "sample_twilio = [''sa_call_center.twilio_auth_token'' \<mapsto> ''key'',
     ''sa_call_center.twilio_public_base_url'' \<mapsto> ''https://pms/'']"

definition quiet_centre :: centre where
  "quiet_centre = \<lparr>calls = [], tickets = [], contacts = [], users = [], queue_codes = [],
     made_leads = [], made_requests = [], clock = 0\<rparr>"

lemma sample_hmac_ascii: "is_ascii (sample_hmac key text)"
  by (simp add: sample_hmac_def is_ascii_def)

lemma webhooks_guarded_witness:
  "twilio_status sample_hmac sample_twilio
      (Some ''key|https://pms/callcenter/webhook/twilio/statusCallSidC1CallStatuscompleted'')
      [(''CallStatus'', ''completed''), (''CallSid'', ''C1'')] quiet_centre = (Inr CallNotFound, quiet_centre)
   \<and> twilio_status sample_hmac sample_twilio
      (Some ''key|https://pms/callcenter/webhook/twilio/statusCallSidC1'')
      [(''CallStatus'', ''completed''), (''CallSid'', ''C1'')] quiet_centre = (Inr Forbidden, quiet_centre)"
proof -
  have conf: "twilio_auth_token sample_twilio = ''key''" "public_base_url sample_twilio = ''https://pms''"
    by code_simp+
  have signed: "sample_hmac ''key'' (signed_text (''https://pms'' @ ''/callcenter/webhook/twilio/status'')
      [(''CallStatus'', ''completed''), (''CallSid'', ''C1'')])
      = ''key|https://pms/callcenter/webhook/twilio/statusCallSidC1CallStatuscompleted''"
    by code_simp
  have handled: "status_signed [(''CallStatus'', ''completed''), (''CallSid'', ''C1'')] quiet_centre = (Inr CallNotFound, quiet_centre)"
    by (simp add: status_signed_def status_update_def find_call_def quiet_centre_def)
  have ascii: "is_ascii ''key|https://pms/callcenter/webhook/twilio/statusCallSidC1''"
    by code_simp
  note exact = webhooks_guarded [of sample_hmac, OF sample_hmac_ascii, THEN conjunct2, THEN conjunct2, THEN conjunct2, THEN conjunct1]
  show ?thesis unfolding exact signed_request_names conf signed Let_def
    by (simp add: handled turned_away_def ascii)
qed

section \<open>Calls and tickets stay consistent\<close>

text \<open>
  The first argument tells whether the dates are those of the webhooks and the rounds, the second one
  whether the links are those of the buttons: agents may write both by hand.
\<close>

definition call_ok :: "bool \<Rightarrow> call \<Rightarrow> bool" where
  "call_ok dated c \<longleftrightarrow> cl_direction c \<in> {''in'', ''out''}
     \<and> (dated \<longrightarrow> cl_start c \<noteq> None
         \<and> (cl_state c \<in> {Answered, Ended} \<longrightarrow> cl_answer c \<noteq> None)
         \<and> (cl_state c \<in> {Missed, Voicemail, Ended} \<longrightarrow> cl_end c \<noteq> None))"

definition tickets_linked :: "bool \<Rightarrow> call list \<Rightarrow> call_ticket list \<Rightarrow> nat \<Rightarrow> bool" where
  "tickets_linked linked cs ts m \<longleftrightarrow>
     (\<forall>i k. i < length cs \<longrightarrow> cl_ticket (cs ! i) = Some k \<longrightarrow> k < length ts \<and> (linked \<longrightarrow> tk_call (ts ! k) = Some i))
     \<and> (\<forall>i k. linked \<longrightarrow> k < length ts \<longrightarrow> tk_call (ts ! k) = Some i \<longrightarrow> i < length cs \<and> cl_ticket (cs ! i) = Some k)
     \<and> (\<forall>k n. k < length ts \<longrightarrow> tk_lead (ts ! k) = Some n \<longrightarrow> n < m)
     \<and> (\<forall>k l n. k < length ts \<longrightarrow> l < length ts \<longrightarrow> tk_lead (ts ! k) = Some n \<longrightarrow> tk_lead (ts ! l) = Some n \<longrightarrow> k = l)"

definition centre_ok :: "bool \<Rightarrow> bool \<Rightarrow> centre \<Rightarrow> bool" where
  "centre_ok dated linked s \<longleftrightarrow>
     list_all (call_ok dated) (calls s) \<and> tickets_linked linked (calls s) (tickets s) (length (made_leads s))"

lemma tickets_linkedI:
  assumes "\<And>i k. i < length cs \<Longrightarrow> cl_ticket (cs ! i) = Some k \<Longrightarrow> k < length ts \<and> (l \<longrightarrow> tk_call (ts ! k) = Some i)"
    and "\<And>i k. l \<Longrightarrow> k < length ts \<Longrightarrow> tk_call (ts ! k) = Some i \<Longrightarrow> i < length cs \<and> cl_ticket (cs ! i) = Some k"
    and "\<And>k n. k < length ts \<Longrightarrow> tk_lead (ts ! k) = Some n \<Longrightarrow> n < m"
    and "\<And>k j n. k < length ts \<Longrightarrow> j < length ts \<Longrightarrow> tk_lead (ts ! k) = Some n \<Longrightarrow> tk_lead (ts ! j) = Some n \<Longrightarrow> k = j"
  shows "tickets_linked l cs ts m"
  using assms unfolding tickets_linked_def by blast

lemma tickets_linkedD:
  assumes "tickets_linked l cs ts m"
  shows "i < length cs \<Longrightarrow> cl_ticket (cs ! i) = Some k \<Longrightarrow> k < length ts \<and> (l \<longrightarrow> tk_call (ts ! k) = Some i)"
    and "l \<Longrightarrow> k < length ts \<Longrightarrow> tk_call (ts ! k) = Some i \<Longrightarrow> i < length cs \<and> cl_ticket (cs ! i) = Some k"
    and "k < length ts \<Longrightarrow> tk_lead (ts ! k) = Some n \<Longrightarrow> n < m"
    and "k < length ts \<Longrightarrow> j < length ts \<Longrightarrow> tk_lead (ts ! k) = Some n \<Longrightarrow> tk_lead (ts ! j) = Some n \<Longrightarrow> k = j"
  using assms unfolding tickets_linked_def by blast+

lemma linked_less:
  assumes "tickets_linked l cs ts m"
  shows "tickets_linked (l \<and> f) cs ts m"
proof (rule tickets_linkedI)
  note L = tickets_linkedD [OF assms]
  show "k < length ts \<and> (l \<and> f \<longrightarrow> tk_call (ts ! k) = Some i)" if "i < length cs" "cl_ticket (cs ! i) = Some k" for i k
    using L(1) [OF that] by simp
  show "i < length cs \<and> cl_ticket (cs ! i) = Some k" if "l \<and> f" "k < length ts" "tk_call (ts ! k) = Some i" for i k
    using L(2) [of k i] that by simp
  show "n < m" if "k < length ts" "tk_lead (ts ! k) = Some n" for k n by (rule L(3) [OF that])
  show "k = j" if "k < length ts" "j < length ts" "tk_lead (ts ! k) = Some n" "tk_lead (ts ! j) = Some n" for k j n
    by (rule L(4) [OF that])
qed

lemma linked_kept:
  assumes "tickets_linked l cs ts m" and "length cs' = length cs"
    and same: "\<And>i. i < length cs \<Longrightarrow> cl_ticket (cs' ! i) = cl_ticket (cs ! i)"
  shows "tickets_linked l cs' ts m"
proof (rule tickets_linkedI)
  note L = tickets_linkedD [OF assms(1)]
  show "k < length ts \<and> (l \<longrightarrow> tk_call (ts ! k) = Some i)" if "i < length cs'" "cl_ticket (cs' ! i) = Some k" for i k
    using L(1) [of i k] that same assms(2) by simp
  show "i < length cs' \<and> cl_ticket (cs' ! i) = Some k" if l "k < length ts" "tk_call (ts ! k) = Some i" for i k
    using L(2) [OF that] same [of i] assms(2) by simp
  show "n < m" if "k < length ts" "tk_lead (ts ! k) = Some n" for k n by (rule L(3) [OF that])
  show "k = j" if "k < length ts" "j < length ts" "tk_lead (ts ! k) = Some n" "tk_lead (ts ! j) = Some n" for k j n
    by (rule L(4) [OF that])
qed

lemma centre_ok_less: "centre_ok d l s \<Longrightarrow> centre_ok (d \<and> e) (l \<and> f) s"
  by (auto simp: centre_ok_def call_ok_def list_all_iff intro: linked_less)

lemma nth_ok: "centre_ok d l s \<Longrightarrow> i < length (calls s) \<Longrightarrow> call_ok d (calls s ! i)"
  by (simp add: centre_ok_def list_all_length)

lemma linked_new_call:
  assumes "tickets_linked l cs ts m" and "cl_ticket c = None"
  shows "tickets_linked l (cs @ [c]) ts m"
proof (rule tickets_linkedI)
  note L = tickets_linkedD [OF assms(1)]
  show "k < length ts \<and> (l \<longrightarrow> tk_call (ts ! k) = Some i)"
    if "i < length (cs @ [c])" "cl_ticket ((cs @ [c]) ! i) = Some k" for i k
    using L(1) [of i k] that assms(2) by (auto simp: nth_append less_Suc_eq split: if_splits)
  show "i < length (cs @ [c]) \<and> cl_ticket ((cs @ [c]) ! i) = Some k" if l "k < length ts" "tk_call (ts ! k) = Some i" for i k
    using L(2) [OF that] by (simp add: nth_append)
  show "n < m" if "k < length ts" "tk_lead (ts ! k) = Some n" for k n by (rule L(3) [OF that])
  show "k = j" if "k < length ts" "j < length ts" "tk_lead (ts ! k) = Some n" "tk_lead (ts ! j) = Some n" for k j n
    by (rule L(4) [OF that])
qed

lemma linked_same_ticket:
  assumes "tickets_linked l cs ts m" and "i < length cs" and "cl_ticket c = cl_ticket (cs ! i)"
  shows "tickets_linked l (cs[i := c]) ts m"
  by (rule linked_kept [OF assms(1)]) (use assms(2,3) in \<open>simp_all add: nth_list_update\<close>)

lemma create_call_ok:
  assumes "centre_ok d l s" and "cl_ticket v = None" and "cl_state v = Ringing"
  shows "centre_ok d l (snd (create_call v s))"
proof -
  have "centre_ok d l (s\<lparr>calls := calls s @ [v\<lparr>cl_partner := p, cl_start := Some t\<rparr>]\<rparr>)" if "cl_direction v \<in> {''in'', ''out''}" for p t
  proof -
    have "call_ok d (v\<lparr>cl_partner := p, cl_start := Some t\<rparr>)" using that assms(3) by (simp add: call_ok_def)
    with assms show ?thesis by (simp add: centre_ok_def linked_new_call)
  qed
  with assms(1) show ?thesis unfolding create_call_def by simp
qed

lemma write_call_ok:
  assumes "centre_ok d l s" and "i < length (calls s)" and "call_ok d (f (calls s ! i))"
    and "cl_ticket (f (calls s ! i)) = cl_ticket (calls s ! i)"
  shows "centre_ok d l (write_call i f s)"
proof -
  have "list_all (call_ok d) ((calls s)[i := f (calls s ! i)])"
    using assms(1,3) set_update_subset_insert [of "calls s" i "f (calls s ! i)"]
    by (auto simp: centre_ok_def list_all_iff)
  with assms show ?thesis by (simp add: centre_ok_def write_call_def linked_same_ticket)
qed

lemma stale_ok:
  assumes "centre_ok d l s"
  shows "centre_ok d l (close_stale_ringing_calls n s)"
proof -
  define cs where "cs = calls (close_stale_ringing_calls n s)"
  have len: "length cs = length (calls s)" by (simp add: cs_def close_stale_ringing_calls_def)
  have kept: "cl_ticket (cs ! i) = cl_ticket (calls s ! i)" if "i < length (calls s)" for i
    using that by (simp add: cs_def close_stale_ringing_calls_def)
  have "call_ok d (cs ! i)" if "i < length (calls s)" for i
    using nth_ok [OF assms that] that by (simp add: cs_def close_stale_ringing_calls_def call_ok_def)
  moreover have "tickets_linked l cs (tickets s) (length (made_leads s))"
    by (rule linked_kept [OF _ len]) (use assms kept in \<open>simp_all add: centre_ok_def\<close>)
  ultimately show ?thesis
    by (simp add: centre_ok_def list_all_length len flip: cs_def) (simp add: close_stale_ringing_calls_def)
qed

text \<open>A call that is found may be written by anything that keeps its ticket and the dates.\<close>

lemma found_ok:
  assumes "centre_ok d l s" and "i < length (calls s)"
    and "\<And>c. call_ok d c \<Longrightarrow> call_ok d (f c) \<and> cl_ticket (f c) = cl_ticket c"
  shows "centre_ok d l (write_call i f s)"
  using write_call_ok [OF assms(1,2), of f] assms(3) [OF nth_ok [OF assms(1,2)]] by blast

lemma when_signed_ok:
  "centre_ok d l s \<Longrightarrow> centre_ok d l (snd (handler s)) \<Longrightarrow> centre_ok d l (snd (when_signed refusal valid handler s))"
  by (simp add: when_signed_def split: sum.split bool.split)

lemma call_event_ok:
  assumes ok: "centre_ok d l s"
  shows "centre_ok d l (snd (call_event conf token fs s))"
proof (cases "(case token of None \<Rightarrow> [] | Some t \<Rightarrow> t) \<noteq> centre_param conf ''webhook_token'' ''change-me-in-production''
    \<or> field fs ''event'' = None \<or> field fs ''call_uid'' = None")
  case True
  with ok show ?thesis by (cases "field fs ''event''") (auto simp: call_event_def)
next
  case False
  then obtain event where e: "field fs ''event'' = Some event" by auto
  note open_gate = False e
  show ?thesis
  proof (cases "find_call (field fs ''call_uid'') s")
    case None
    have c: "centre_ok d l s1" if "create_call v s = (r, s1)" "cl_ticket v = None" "cl_state v = Ringing" for v r s1
      using create_call_ok [OF ok that(2,3)] that(1) by simp
    show ?thesis using open_gate None ok
      by (auto simp: call_event_def Let_def blank_call_def split: prod.split sum.split dest!: c)
  next
    case (Some i)
    have i: "i < length (calls s)" using find_call_Some [OF Some] by simp
    have "centre_ok d l (write_call i (\<lambda>c. c\<lparr>cl_state := Answered, cl_answer := Some (clock s)\<rparr>) s)"
      by (rule found_ok [OF ok i]) (simp add: call_ok_def)
    moreover have "centre_ok d l (write_call i (\<lambda>c. c\<lparr>cl_state := Voicemail, cl_end := Some (clock s)\<rparr>) s)"
      by (rule found_ok [OF ok i]) (simp add: call_ok_def)
    moreover have "centre_ok d l (write_call i (\<lambda>c. c\<lparr>cl_state := (if cl_answer c = None then Missed else Ended),
        cl_end := Some (clock s),
        cl_recording := (case field fs ''recording_url'' of None \<Rightarrow> cl_recording c | Some u \<Rightarrow> Some u)\<rparr>) s)"
      by (rule found_ok [OF ok i]) (simp add: call_ok_def)
    ultimately show ?thesis using open_gate Some ok by (simp add: call_event_def Let_def)
  qed
qed

lemma status_update_ok:
  assumes ok: "centre_ok d l s" and i: "case j of None \<Rightarrow> True | Some i \<Rightarrow> i < length (calls s)"
  shows "centre_ok d l (snd (status_update j fs s))"
proof (cases j)
  case None
  with ok show ?thesis by (simp add: status_update_def)
next
  case (Some i)
  have len: "i < length (calls s)" using i Some by simp
  have dated: "centre_ok d l (write_call i (\<lambda>c. c\<lparr>cl_state := st, cl_end := Some t, cl_recording := r\<rparr>) s)"
    if "st = Missed" for st t r
    by (rule found_ok [OF ok len]) (use that in \<open>simp add: call_ok_def\<close>)
  have "centre_ok d l (write_call i (\<lambda>c. c\<lparr>cl_state := Ended, cl_end := Some t, cl_recording := r, cl_answer := Some a\<rparr>) s)" for t r a
    by (rule found_ok [OF ok len]) (simp add: call_ok_def)
  moreover have "centre_ok d l (write_call i (\<lambda>c. c\<lparr>cl_state := Answered, cl_answer := Some t\<rparr>) s)" for t
    by (rule found_ok [OF ok len]) (simp add: call_ok_def)
  moreover have "centre_ok d l (write_call i (\<lambda>c. c\<lparr>cl_state := Ringing\<rparr>) s)"
    by (rule found_ok [OF ok len]) (simp add: call_ok_def)
  moreover have "centre_ok d l (write_call i (\<lambda>c. c\<lparr>cl_state := Missed, cl_end := Some t\<rparr>) s)" for t
    by (rule found_ok [OF ok len]) (simp add: call_ok_def)
  ultimately have "centre_ok d l (snd (apply_call_status i fs s))"
    using dated ok by (auto simp: apply_call_status_def Let_def split: option.splits)
  with Some show ?thesis by (auto simp: status_update_def split: prod.splits sum.splits)
qed

lemma twilio_ok:
  assumes ok: "centre_ok d l s"
  shows "centre_ok d l (snd (twilio_voice hmac conf sig form user s))"
    and "centre_ok d l (snd (twilio_outbound_voice hmac conf sig form s))"
    and "centre_ok d l (snd (twilio_status hmac conf sig form s))"
    and "centre_ok d l (snd (twilio_outbound_status hmac conf sig form i s))"
proof -
  have c: "centre_ok d l s1" if "create_call v s = (r, s1)" "cl_ticket v = None" "cl_state v = Ringing" for v r s1
    using create_call_ok [OF ok that(2,3)] that(1) by simp
  have "centre_ok d l (snd (voice_signed conf form user s))"
    using ok by (auto simp: voice_signed_def Let_def blank_call_def split: prod.split sum.split dest!: c)
  then show "centre_ok d l (snd (twilio_voice hmac conf sig form user s))"
    by (simp add: twilio_voice_def when_signed_ok ok)
  have made: "centre_ok d l (snd (case create_call v s of (Inl e, s1) \<Rightarrow> (Inl e, s1) | (Inr n, s1) \<Rightarrow> (Inr (g n), s1)))"
    if "cl_ticket v = None" "cl_state v = Ringing" for v and g :: "nat \<Rightarrow> twilio_reply"
    using create_call_ok [OF ok that] by (auto split: prod.split sum.split)
  then have "centre_ok d l (snd (outbound_voice_signed conf form s))"
    using ok unfolding outbound_voice_signed_def Let_def
    by (cases "outbound_agent (case map_of form ''From'' of None \<Rightarrow> [] | Some t \<Rightarrow> t)") (simp_all add: blank_call_def)
  then show "centre_ok d l (snd (twilio_outbound_voice hmac conf sig form s))"
    by (simp add: twilio_outbound_voice_def when_signed_ok ok)
  have "centre_ok d l (snd (status_signed form s))"
    using status_update_ok [OF ok, of "find_call (map_of form ''CallSid'') s" "map_of form"] find_call_Some
    by (auto simp: status_signed_def split: option.splits)
  then show "centre_ok d l (snd (twilio_status hmac conf sig form s))"
    by (simp add: twilio_status_def when_signed_ok ok)
  have "centre_ok d l (snd (outbound_status_signed form i s))"
    using status_update_ok [OF ok, of "if i < length (calls s) then Some i else None" "map_of form"]
    by (auto simp: outbound_status_signed_def)
  then show "centre_ok d l (snd (twilio_outbound_status hmac conf sig form i s))"
    by (simp add: twilio_outbound_status_def when_signed_ok ok)
qed

lemma linked_new_ticket:
  assumes linked: "tickets_linked l cs ts m" and t: "tk_lead t = None" and unlinked: "l \<Longrightarrow> tk_call t = None"
  shows "tickets_linked l cs (ts @ [t]) m"
proof (rule tickets_linkedI)
  note L = tickets_linkedD [OF linked]
  show "k < length (ts @ [t]) \<and> (l \<longrightarrow> tk_call ((ts @ [t]) ! k) = Some i)" if "i < length cs" "cl_ticket (cs ! i) = Some k" for i k
    using L(1) [OF that] by (simp add: nth_append)
  show "i < length cs \<and> cl_ticket (cs ! i) = Some k" if l "k < length (ts @ [t])" "tk_call ((ts @ [t]) ! k) = Some i" for i k
    using L(2) [of k i] that unlinked by (auto simp: nth_append less_Suc_eq split: if_splits)
  show "n < m" if "k < length (ts @ [t])" "tk_lead ((ts @ [t]) ! k) = Some n" for k n
    using L(3) [of k n] that t by (auto simp: nth_append less_Suc_eq split: if_splits)
  show "k = j" if "k < length (ts @ [t])" "j < length (ts @ [t])"
      "tk_lead ((ts @ [t]) ! k) = Some n" "tk_lead ((ts @ [t]) ! j) = Some n" for k j n
    using L(4) [of k j n] that t by (auto simp: nth_append less_Suc_eq split: if_splits)
qed

text \<open>The button makes the ticket and writes it on the call: only together do they keep the links.\<close>

lemma linked_ticket_of_call:
  assumes linked: "tickets_linked l cs ts m" and i: "i < length cs" and free: "cl_ticket (cs ! i) = None"
    and t: "tk_lead t = None" "tk_call t = Some i" and c: "cl_ticket c = Some (length ts)"
  shows "tickets_linked l (cs[i := c]) (ts @ [t]) m"
proof (rule tickets_linkedI)
  note L = tickets_linkedD [OF linked]
  have tk: "cl_ticket (cs[i := c] ! j) = (if j = i then Some (length ts) else cl_ticket (cs ! j))" if "j < length cs" for j
    using that c by (simp add: nth_list_update)
  show "k < length (ts @ [t]) \<and> (l \<longrightarrow> tk_call ((ts @ [t]) ! k) = Some j)"
    if "j < length (cs[i := c])" "cl_ticket (cs[i := c] ! j) = Some k" for j k
    using that tk [of j] t L(1) [of j k] by (auto simp: nth_append split: if_splits)
  show "j < length (cs[i := c]) \<and> cl_ticket (cs[i := c] ! j) = Some k"
    if l "k < length (ts @ [t])" "tk_call ((ts @ [t]) ! k) = Some j" for j k
  proof (cases "k = length ts")
    case True
    with that t i c show ?thesis by simp
  next
    case False
    then have "k < length ts" "tk_call (ts ! k) = Some j" using that by (auto simp: nth_append)
    then have old: "j < length cs" "cl_ticket (cs ! j) = Some k" using L(2) that(1) by blast+
    then have "j \<noteq> i" using free by auto
    with old show ?thesis by simp
  qed
  show "n < m" if "k < length (ts @ [t])" "tk_lead ((ts @ [t]) ! k) = Some n" for k n
    using L(3) [of k n] that t by (auto simp: nth_append less_Suc_eq split: if_splits)
  show "k = j" if "k < length (ts @ [t])" "j < length (ts @ [t])"
      "tk_lead ((ts @ [t]) ! k) = Some n" "tk_lead ((ts @ [t]) ! j) = Some n" for k j n
    using L(4) [of k j n] that t by (auto simp: nth_append less_Suc_eq split: if_splits)
qed

lemma create_ticket_ok:
  assumes "centre_ok d l s" and "i < length (calls s)"
  shows "centre_ok d l (action_create_ticket i s)"
proof (cases "cl_ticket (calls s ! i)")
  case (Some k)
  with assms show ?thesis by (simp add: action_create_ticket_def)
next
  case None
  let ?c = "(calls s ! i)\<lparr>cl_ticket := Some (length (tickets s))\<rparr>"
  have "call_ok d ?c" using nth_ok [OF assms] by (simp add: call_ok_def)
  then have "list_all (call_ok d) ((calls s)[i := ?c])"
    using assms(1) set_update_subset_insert [of "calls s" i ?c] by (auto simp: centre_ok_def list_all_iff)
  moreover have "tickets_linked l ((calls s)[i := ?c]) (tickets s @ [t]) (length (made_leads s))"
    if "tk_call t = Some i" "tk_lead t = None" for t
    by (rule linked_ticket_of_call) (use assms None that in \<open>simp_all add: centre_ok_def\<close>)
  ultimately show ?thesis using None by (simp add: action_create_ticket_def write_call_def Let_def centre_ok_def)
qed

lemma ticket_changed_ok:
  assumes linked: "tickets_linked l cs ts m" and k: "k < length ts" and call: "l \<Longrightarrow> tk_call t = tk_call (ts ! k)"
    and lead: "tk_lead t = tk_lead (ts ! k) \<and> m' = m \<or> tk_lead t = Some m \<and> m' = Suc m"
  shows "tickets_linked l cs (ts[k := t]) m'"
proof (rule tickets_linkedI)
  note L = tickets_linkedD [OF linked]
  have at: "ts[k := t] ! x = (if x = k then t else ts ! x)" if "x < length ts" for x using that by simp
  show "j < length (ts[k := t]) \<and> (l \<longrightarrow> tk_call (ts[k := t] ! j) = Some i)" if "i < length cs" "cl_ticket (cs ! i) = Some j" for i j
    using L(1) [OF that] call by (cases "j = k") simp_all
  show "i < length cs \<and> cl_ticket (cs ! i) = Some j" if l "j < length (ts[k := t])" "tk_call (ts[k := t] ! j) = Some i" for i j
    using L(2) [OF that(1), of j i] that call by (cases "j = k") simp_all
  show "n < m'" if "x < length (ts[k := t])" "tk_lead (ts[k := t] ! x) = Some n" for x n
    using that L(3) [of x n] lead at [of x] k by (auto split: if_splits)
  show "x = y" if "x < length (ts[k := t])" "y < length (ts[k := t])"
    "tk_lead (ts[k := t] ! x) = Some n" "tk_lead (ts[k := t] ! y) = Some n" for x y n
    using that L(4) [of x y n] L(3) [of x n] L(3) [of y n] lead at [of x] at [of y] k by (auto split: if_splits)
qed

lemma ticket_actions_ok:
  assumes "centre_ok d l s" and "k < length (tickets s)"
  shows "centre_ok d l (snd (action_convert_to_lead k s))" "centre_ok d l (snd (action_convert_to_maintenance k s))"
    "centre_ok d l (action_close_ticket k s)"
  using assms
  by (auto simp: action_convert_to_lead_def action_convert_to_maintenance_def action_close_ticket_def Let_def
      centre_ok_def intro: ticket_changed_ok split: option.splits)

section \<open>The forms of the agents\<close>

text \<open>
  A call may be entered or changed on its form: everything but the state and the ticket, and every
  field but the direction may be left empty, the start included. A ticket may be entered or changed as
  well, its call among the fields; the description is required.
\<close>

definition enter_call :: "call \<Rightarrow> centre \<Rightarrow> centre" where
  "enter_call v s =
     (case create_call (v\<lparr>cl_state := Ringing, cl_ticket := None\<rparr>) s of
        (Inl _, s1) \<Rightarrow> s1
      | (Inr i, s1) \<Rightarrow> write_call i (\<lambda>c. c\<lparr>cl_start := cl_start v\<rparr>) s1)"

definition edit_call :: "nat \<Rightarrow> call \<Rightarrow> centre \<Rightarrow> centre" where
  "edit_call i v s =
     (if i < length (calls s) \<and> cl_direction v \<in> {''in'', ''out''}
      then write_call i (\<lambda>c. v\<lparr>cl_state := cl_state c, cl_ticket := cl_ticket c\<rparr>) s else s)"

definition enter_ticket :: "call_ticket \<Rightarrow> centre \<Rightarrow> centre" where
  "enter_ticket v s =
     (if tk_description v = [] then s
      else s\<lparr>tickets := tickets s @ [v\<lparr>tk_state := TicketNew, tk_lead := None, tk_request := None\<rparr>]\<rparr>)"

definition edit_ticket :: "nat \<Rightarrow> call_ticket \<Rightarrow> centre \<Rightarrow> centre" where
  "edit_ticket k v s =
     (if k < length (tickets s) \<and> tk_description v \<noteq> [] then
        (let t = tickets s ! k in
         s\<lparr>tickets := (tickets s)[k := v\<lparr>tk_state := tk_state t, tk_lead := tk_lead t, tk_request := tk_request t\<rparr>]\<rparr>)
      else s)"

lemma enter_call_ok:
  assumes "centre_ok d l s"
  shows "centre_ok False l (enter_call v s)"
proof -
  let ?v = "v\<lparr>cl_state := Ringing, cl_ticket := None\<rparr>"
  obtain r s1 where c: "create_call ?v s = (r, s1)" by (cases "create_call ?v s")
  have ok: "centre_ok False l s1"
    using create_call_ok [OF assms, of ?v] c centre_ok_less [of d l s1 False True] by simp
  have len: "i < length (calls s1)" if "r = Inr i" for i
    using c that by (auto simp: create_call_def split: if_splits)
  have "centre_ok False l (write_call i (\<lambda>c. c\<lparr>cl_start := cl_start v\<rparr>) s1)" if "r = Inr i" for i
    by (rule found_ok [OF ok len [OF that]]) (simp add: call_ok_def)
  with ok c show ?thesis by (simp add: enter_call_def split: sum.split)
qed

lemma edit_call_ok:
  assumes "centre_ok d l s"
  shows "centre_ok False l (edit_call i v s)"
proof -
  have "centre_ok False l s" using centre_ok_less [OF assms, of False True] by simp
  then show ?thesis by (auto simp: edit_call_def call_ok_def intro: write_call_ok)
qed

lemma ticket_forms_ok:
  assumes "centre_ok d l s"
  shows "centre_ok d False (enter_ticket v s)" and "centre_ok d False (edit_ticket k v s)"
proof -
  have "centre_ok d False s" using centre_ok_less [OF assms, of True False] by simp
  then show "centre_ok d False (enter_ticket v s)" "centre_ok d False (edit_ticket k v s)"
    by (auto simp: enter_ticket_def edit_ticket_def Let_def centre_ok_def
        intro: linked_new_ticket ticket_changed_ok)
qed

section \<open>Everything that happens in the centre\<close>

text \<open>A record that does not exist cannot be acted upon.\<close>

datatype centre_event =
    ExchangeHook char_field fields
  | VoiceHook char_field "(string \<times> string) list"
  | StatusHook char_field "(string \<times> string) list"
  | OutboundHook char_field "(string \<times> string) list"
  | OutboundStatusHook char_field "(string \<times> string) list" nat
  | StaleRound int
  | MakeTicket nat
  | ToLead nat
  | ToMaintenance nat
  | CloseTicket nat
  | EnterCall call
  | EditCall nat call
  | EnterTicket call_ticket
  | EditTicket nat call_ticket
  | TimePasses nat

fun centre_step :: "(string \<Rightarrow> string \<Rightarrow> string) \<Rightarrow> parameters \<Rightarrow> centre_event \<Rightarrow> centre \<Rightarrow> centre" where
  "centre_step hmac conf (ExchangeHook token d) s = snd (call_event conf token d s)"
| "centre_step hmac conf (VoiceHook sig form) s = snd (twilio_voice hmac conf sig form None s)"
| "centre_step hmac conf (StatusHook sig form) s = snd (twilio_status hmac conf sig form s)"
| "centre_step hmac conf (OutboundHook sig form) s = snd (twilio_outbound_voice hmac conf sig form s)"
| "centre_step hmac conf (OutboundStatusHook sig form i) s = snd (twilio_outbound_status hmac conf sig form i s)"
| "centre_step hmac conf (StaleRound n) s = close_stale_ringing_calls n s"
| "centre_step hmac conf (MakeTicket i) s = (if i < length (calls s) then action_create_ticket i s else s)"
| "centre_step hmac conf (ToLead k) s = (if k < length (tickets s) then snd (action_convert_to_lead k s) else s)"
| "centre_step hmac conf (ToMaintenance k) s = (if k < length (tickets s) then snd (action_convert_to_maintenance k s) else s)"
| "centre_step hmac conf (CloseTicket k) s = (if k < length (tickets s) then action_close_ticket k s else s)"
| "centre_step hmac conf (EnterCall v) s = enter_call v s"
| "centre_step hmac conf (EditCall i v) s = edit_call i v s"
| "centre_step hmac conf (EnterTicket v) s = enter_ticket v s"
| "centre_step hmac conf (EditTicket k v) s = edit_ticket k v s"
| "centre_step hmac conf (TimePasses n) s = s\<lparr>clock := clock s + int n\<rparr>"

definition run_centre :: "(string \<Rightarrow> string \<Rightarrow> string) \<Rightarrow> parameters \<Rightarrow> centre_event list \<Rightarrow> centre \<Rightarrow> centre" where
  "run_centre hmac conf es s = foldl (\<lambda>s e. centre_step hmac conf e s) s es"

fun dates_by_hand :: "centre_event \<Rightarrow> bool" where
  "dates_by_hand (EnterCall v) = True"
| "dates_by_hand (EditCall i v) = True"
| "dates_by_hand _ = False"

fun links_by_hand :: "centre_event \<Rightarrow> bool" where
  "links_by_hand (EnterTicket v) = True"
| "links_by_hand (EditTicket k v) = True"
| "links_by_hand _ = False"

definition empty_centre :: "contact list \<Rightarrow> centre_user list \<Rightarrow> string list \<Rightarrow> int \<Rightarrow> centre" where
  "empty_centre ps us qs t = \<lparr>calls = [], tickets = [], contacts = ps, users = us, queue_codes = qs,
     made_leads = [], made_requests = [], clock = t\<rparr>"

lemma centre_step_ok:
  assumes "centre_ok d l s"
  shows "centre_ok (d \<and> \<not> dates_by_hand e) (l \<and> \<not> links_by_hand e) (centre_step hmac conf e s)"
proof (cases e)
  case (EditCall i v)
  with edit_call_ok [OF assms] show ?thesis by simp
next
  case (EnterCall v)
  with enter_call_ok [OF assms] show ?thesis by simp
next
  case (TimePasses n)
  with assms show ?thesis by (simp add: centre_ok_def)
qed (use assms in \<open>simp_all add: call_event_ok twilio_ok stale_ok create_ticket_ok ticket_actions_ok ticket_forms_ok\<close>)

lemma run_centre_ok:
  "centre_ok (\<not> list_ex dates_by_hand es) (\<not> list_ex links_by_hand es) (run_centre hmac conf es (empty_centre ps us qs t))"
proof (induction es rule: rev_induct)
  case Nil
  then show ?case by (simp add: run_centre_def centre_ok_def empty_centre_def tickets_linked_def)
next
  case (snoc e es)
  then show ?case using centre_step_ok [OF snoc.IH, of e hmac conf] by (simp add: run_centre_def)
qed

text \<open>
  Property C30. Whatever the webhooks, the rounds and the agents do, in whatever order, records not
  being deleted: a call has a direction, and as long as no call is entered or changed on its form, it
  has a start; one that is answered or ended was answered at some time; one that is missed, in the
  voicemail or ended has an end. The durations are never negative. The ticket of a call exists, and as
  long as no ticket is entered or changed on its form, the call of a ticket and the ticket of the call
  point to each other, whichever of the two one starts from. No two tickets share a lead.
\<close>
theorem calls_and_tickets_consistent:
  "let s = run_centre hmac conf es (empty_centre ps us qs t);
       dated = (\<not> list_ex dates_by_hand es); linked = (\<not> list_ex links_by_hand es)
   in list_all (\<lambda>c. cl_direction c \<in> {''in'', ''out''} \<and> 0 \<le> wait_duration c \<and> 0 \<le> talk_duration c
        \<and> (dated \<longrightarrow> cl_start c \<noteq> None
            \<and> (cl_state c \<in> {Answered, Ended} \<longrightarrow> cl_answer c \<noteq> None)
            \<and> (cl_state c \<in> {Missed, Voicemail, Ended} \<longrightarrow> cl_end c \<noteq> None))) (calls s)
    \<and> (\<forall>i k. i < length (calls s) \<longrightarrow> cl_ticket (calls s ! i) = Some k
        \<longrightarrow> k < length (tickets s) \<and> (linked \<longrightarrow> tk_call (tickets s ! k) = Some i))
    \<and> (\<forall>i k. linked \<longrightarrow> k < length (tickets s) \<longrightarrow> tk_call (tickets s ! k) = Some i
        \<longrightarrow> i < length (calls s) \<and> cl_ticket (calls s ! i) = Some k)
    \<and> (\<forall>k l n. k < length (tickets s) \<longrightarrow> l < length (tickets s) \<longrightarrow> tk_lead (tickets s ! k) = Some n
        \<longrightarrow> tk_lead (tickets s ! l) = Some n \<longrightarrow> k = l)"
proof -
  have "0 \<le> wait_duration c \<and> 0 \<le> talk_duration c" for c
    by (simp add: wait_duration_def talk_duration_def seconds_between_def split: option.split)
  with run_centre_ok [of es hmac conf ps us qs t] show ?thesis
    unfolding Let_def centre_ok_def call_ok_def tickets_linked_def list_all_iff by blast
qed

text \<open>
  The exchange announces a call, an agent makes a ticket of it and enters another ticket by hand: with
  the first two events the links hold both ways, with the third one only existence is left.
\<close>

definition ringing_fields :: fields where
  "ringing_fields = [''event'' \<mapsto> ''ringing'', ''call_uid'' \<mapsto> ''u1'']"

lemma calls_and_tickets_consistent_witness:
  "\<exists>s. s = run_centre sample_hmac Map.empty
        [ExchangeHook (Some ''change-me-in-production'') ringing_fields, MakeTicket 0] (empty_centre [] [] [] 0)
     \<and> length (calls s) = 1 \<and> cl_ticket (calls s ! 0) = Some 0 \<and> cl_start (calls s ! 0) \<noteq> None
     \<and> length (tickets s) = 1 \<and> tk_call (tickets s ! 0) = Some 0"
proof -
  let ?es = "[ExchangeHook (Some ''change-me-in-production'') ringing_fields, MakeTicket 0]"
  let ?s = "run_centre sample_hmac Map.empty ?es (empty_centre [] [] [] 0)"
  have made: "length (calls ?s) = 1 \<and> cl_ticket (calls ?s ! 0) = Some 0 \<and> length (tickets ?s) = 1"
    by (simp add: run_centre_def call_event_def centre_param_def field_def ringing_fields_def find_call_def
        create_call_def blank_call_def empty_centre_def action_create_ticket_def write_call_def Let_def is_set_def)
  note consistent = calls_and_tickets_consistent [of sample_hmac Map.empty ?es "[]" "[]" "[]" 0, unfolded Let_def]
  have "tk_call (tickets ?s ! 0) = Some 0"
    using consistent [THEN conjunct2, THEN conjunct1, rule_format, of 0 0] made by simp
  moreover have "cl_start (calls ?s ! 0) \<noteq> None"
    using consistent [THEN conjunct1] made by (simp add: list_all_length)
  ultimately show ?thesis using made by blast
qed

text \<open>
  An event does not look at the state of the call: one that is over goes back to answered when an
  event arrives late, and keeps its end.
\<close>

lemma late_answer_reopens:
  assumes "token = centre_param conf ''webhook_token'' ''change-me-in-production''"
    and "field d ''event'' = Some ''answered''" and "field d ''call_uid'' = Some u" and "find_call (Some u) s = Some i"
  shows "cl_state (calls (snd (call_event conf (Some token) d s)) ! i) = Answered
    \<and> cl_end (calls (snd (call_event conf (Some token) d s)) ! i) = cl_end (calls s ! i)"
  using assms find_call_Some [OF assms(4)] by (simp add: call_event_def write_call_def Let_def)

end
