(* ===== verification/Properties.thy ===== *)
theory Properties
  imports Tenancy EjarLifecycle
begin

text \<open>
  What the Saudi modules add to properties and tenancies: the detailed kind of a property
  (\<^verbatim>\<open>sa_property/models/sa_property.py\<close>), the Ejar fields of a tenancy and the step from a tenancy to an
  Ejar contract (\<^verbatim>\<open>l10n_sa_ejar/models/property_tenancy.py\<close>, \<^verbatim>\<open>sa_property/models/sa_tenancy.py\<close>) and the
  synchronisation wizard (\<^verbatim>\<open>l10n_sa_ejar/wizard/ejar_sync_wizard.py\<close>). Names for display are left out.
\<close>

section \<open>Properties\<close>

record saudi_property =
  sp_subtype :: char_field
  sp_type :: char_field
  sp_rent :: rat
  sp_area :: rat
  sp_address :: char_field
  sp_region :: "int option"
  sp_city :: "int option"
  sp_deed :: char_field
  sp_frozen :: bool
  sp_last_rent :: rat
  sp_owner :: "int option"

definition RESIDENTIAL_SUBTYPES :: "string list" where
  "RESIDENTIAL_SUBTYPES = [''villa'', ''apartment'', ''floor'', ''annex'', ''room'', ''duplex'']"

definition COMMERCIAL_SUBTYPES :: "string list" where
  "COMMERCIAL_SUBTYPES = [''shop'', ''office'', ''showroom'', ''clinic'']"

definition INDUSTRIAL_SUBTYPES :: "string list" where
  "INDUSTRIAL_SUBTYPES = [''warehouse'', ''factory'']"

definition LAND_SUBTYPES :: "string list" where
  "LAND_SUBTYPES = [''land_res'', ''land_com'', ''land_agr'', ''land_ind'']"

text \<open>An emptied subtype leaves the type as it is.\<close>

definition onchange_subtype :: "saudi_property \<Rightarrow> saudi_property" where
  "onchange_subtype p =
     (case sp_subtype p of
        None \<Rightarrow> p
      | Some s \<Rightarrow>
          if s \<in> set RESIDENTIAL_SUBTYPES then p\<lparr>sp_type := Some ''residential''\<rparr>
          else if s \<in> set COMMERCIAL_SUBTYPES then p\<lparr>sp_type := Some ''commercial''\<rparr>
          else if s \<in> set INDUSTRIAL_SUBTYPES then p\<lparr>sp_type := Some ''industrial''\<rparr>
          else if s \<in> set LAND_SUBTYPES then p\<lparr>sp_type := Some ''land''\<rparr>
          else p)"

definition onchange_region :: "saudi_property \<Rightarrow> saudi_property" where
  "onchange_region p = p\<lparr>sp_city := None\<rparr>"

definition compute_sa_rent_annual :: "saudi_property \<Rightarrow> rat" where
  "compute_sa_rent_annual p = sp_rent p * 12"

definition compute_price_sqm :: "saudi_property \<Rightarrow> rat" where
  "compute_price_sqm p = (if sp_area p \<noteq> 0 \<and> sp_rent p \<noteq> 0 then sp_rent p / sp_area p else 0)"

definition check_sa_address :: "saudi_property \<Rightarrow> exn + unit" where
  "check_sa_address p =
     when_set (sp_address p) (\<lambda>s. length (upper_str (strip s)) = 8) (Text ''address: 8 characters'')"

text \<open>The type of the property is what the Ejar module maps to the type of its unit.\<close>

lemma subtype_reaches_ejar:
  assumes "sp_subtype p = Some s"
    and "s \<in> set (RESIDENTIAL_SUBTYPES @ COMMERCIAL_SUBTYPES @ INDUSTRIAL_SUBTYPES @ LAND_SUBTYPES)"
  shows "pr_ejar_unit_type (compute_ejar_unit_type (pr\<lparr>pr_property_type := sp_type (onchange_subtype p)\<rparr>))
    = sp_type (onchange_subtype p)"
  using assms by (auto simp: onchange_subtype_def compute_ejar_unit_type_def)

section \<open>Tenancies\<close>

record ejar_tenancy =
  et_property :: saudi_property
  et_partner :: int
  et_owner :: "int option"
  et_start :: date
  et_end :: "date option"
  et_duration :: int
  et_in_years :: bool
  et_rent :: rat
  et_schedule :: char_field
  et_id_type :: char_field
  et_national_id :: char_field
  et_sublease :: bool
  et_fee_bearer :: char_field
  et_contract :: "int option"

definition compute_ejar_doc_fee :: "ejar_tenancy \<Rightarrow> rat" where
  "compute_ejar_doc_fee t =
     (let years = (if et_in_years t then or_int (et_duration t) 1
                   else \<lceil>of_int (or_int (et_duration t) 12) / (12 :: rat)\<rceil>)
      in of_int years * 125)"

definition compute_rent_freeze_warning :: "ejar_tenancy \<Rightarrow> bool" where
  "compute_rent_freeze_warning t \<longleftrightarrow> sp_frozen (et_property t) \<and> sp_last_rent (et_property t) \<noteq> 0
     \<and> et_rent t > sp_last_rent (et_property t)"

text \<open>The fields of the model \<open>ejar.contract\<close>, with those of the job layer.\<close>

definition CONTRACT_FIELDS :: "string list" where
  "CONTRACT_FIELDS = [''company_id'', ''name'', ''ejar_status'', ''contract_type'', ''contract_sub_type'', ''use_type'',
     ''tenancy_id'', ''brokerage_profile_id'', ''party_ids'', ''unit_ids'', ''start_date'', ''end_date'',
     ''rent_amount'', ''currency_id'', ''payment_schedule'', ''payment_option'', ''sublease_allowed'',
     ''brokerage_fee'', ''brokerage_fee_paid_by'', ''ejar_fees_paid_by'', ''doc_fee'', ''signed_doc'',
     ''signed_doc_filename'', ''custom_terms'', ''ejar_contract_id'', ''ejar_contract_number'', ''rejection_reason'',
     ''submit_attempt'', ''submit_error'', ''ejar_last_sync'', ''next_poll_at'', ''poll_count'', ''ejar_response_raw'',
     ''webhook_uuid'', ''webhook_delivered_at'', ''webhook_event_type'', ''webhook_correlation_id'',
     ''webhook_last_error_at'', ''webhook_last_error_msg'', ''duration_years'', ''party_count'', ''unit_count'',
     ''log_count'', ''has_lessor'', ''has_tenant'', ''has_unit'', ''is_ready_to_submit'', ''rent_freeze_warning'',
     ''active_job_uuid'', ''job_channel'', ''job_enqueued_at'', ''job_retry_count'', ''job_last_error'',
     ''job_state'', ''job_progress'', ''has_active_job'']"

text \<open>The names the values are given under.\<close>

definition CREATED_FIELDS :: "string list" where
  "CREATED_FIELDS = [''tenancy_id'', ''property_id'', ''lessor_partner_id'', ''tenant_partner_id'', ''start_date'',
     ''end_date'', ''rent_amount'', ''payment_schedule'', ''tenant_id_type'', ''tenant_national_id'',
     ''sublease_allowed'', ''fee_bearer'']"

text \<open>\<open>create\<close> refuses a field the model does not have with a ValueError.\<close>

definition create_ejar_contract :: "string list \<Rightarrow> int \<Rightarrow> exn + int" where
  "create_ejar_contract names new = (if set names \<subseteq> set CONTRACT_FIELDS then Inr new else Inl (Py ValueError))"

definition action_create_ejar_contract :: "int \<Rightarrow> (ejar_tenancy, exn, int) opn" where
  "action_create_ejar_contract new t =
     (if et_contract t \<noteq> None then (Inl (UserError (Text ''contract exists'')), t)
      else (case create_ejar_contract CREATED_FIELDS new of
          Inl e \<Rightarrow> (Inl e, t)
        | Inr n \<Rightarrow> (Inr n, t\<lparr>et_contract := Some n\<rparr>)))"

definition action_send_to_ejar :: "int \<Rightarrow> (ejar_tenancy, exn, int) opn" where
  "action_send_to_ejar new t =
     (if \<not> is_set (et_national_id t) then (Inl (UserError (Text ''tenant id missing'')), t)
      else if \<not> is_set (sp_deed (et_property t)) then (Inl (UserError (Text ''deed missing'')), t)
      else action_create_ejar_contract new t)"

section \<open>The synchronisation wizard\<close>

datatype sync_action = SyncSubmit | SyncCheck | SyncRenew

record sync_wizard =
  sy_action :: sync_action
  sy_new_end :: "date option"
  sy_new_rent :: rat

text \<open>
  The contract a tenancy points to is the document of the environment. \<open>check\<close> is the action that asks
  the platform for the state.
\<close>

definition sync_execute ::
    "('w env, exn, unit) opn \<Rightarrow> int \<Rightarrow> sync_wizard \<Rightarrow> (ejar_tenancy \<times> 'w env, exn, unit) opn" where
  "sync_execute check new w s =
     (case s of (t, e) \<Rightarrow>
        let lift = (\<lambda>m t. case m e of (r, e1) \<Rightarrow> (r, (t, e1))) in
        (case sy_action w of
           SyncSubmit \<Rightarrow>
             (if et_contract t = None then
                (case action_create_ejar_contract new t of
                   (Inl x, t1) \<Rightarrow> (Inl x, (t1, e))
                 | (Inr _, t1) \<Rightarrow> lift action_submit_to_ejar t1)
              else lift action_submit_to_ejar t)
         | SyncCheck \<Rightarrow>
             (if et_contract t = None then (Inl (UserError (Text ''no contract'')), (t, e)) else lift check t)
         | SyncRenew \<Rightarrow>
             (if sy_new_end w = None \<or> sy_new_rent w = 0 then (Inl (UserError (Text ''new end and rent'')), (t, e))
              else if et_contract t = None then (Inl (UserError (Text ''no contract to renew'')), (t, e))
              else (Inl (UserError (Text ''renewal not available'')), (t, e)))))"

text \<open>
  The values name fields the contract does not have, so a tenancy never gets a contract: neither the
  actions nor the wizard succeed, and all leave it as it was.
\<close>

lemma unknown_field: "''property_id'' \<in> set CREATED_FIELDS \<and> ''property_id'' \<notin> set CONTRACT_FIELDS"
  by code_simp

lemma create_never_succeeds:
  "action_create_ejar_contract new t =
     (Inl (if et_contract t = None then Py ValueError else UserError (Text ''contract exists'')), t)"
proof -
  have "\<not> set CREATED_FIELDS \<subseteq> set CONTRACT_FIELDS" using unknown_field by blast
  then show ?thesis by (simp add: action_create_ejar_contract_def create_ejar_contract_def)
qed

text \<open>
  A tenancy without a contract: every action of the wizard and the action of the form end in an error
  and change neither the tenancy nor anything of Ejar.
\<close>

lemma sync_without_contract_fails:
  assumes "et_contract t = None"
  shows "(\<exists>x. sync_execute check new w (t, e) = (Inl x, (t, e))) \<and> (\<exists>x. action_send_to_ejar new t = (Inl x, t))"
  using assms by (cases "sy_action w") (simp_all add: sync_execute_def action_send_to_ejar_def create_never_succeeds)

text \<open>The fee is that of the started years: at least one, and never more than a year's fee too much.\<close>

lemma doc_fee_bounds:
  assumes "0 < et_duration t" and "\<not> et_in_years t"
  shows "of_int (et_duration t) * 125 \<le> 12 * compute_ejar_doc_fee t
    \<and> 12 * compute_ejar_doc_fee t < of_int (et_duration t) * 125 + 12 * 125"
proof -
  let ?x = "of_int (et_duration t) / (12 :: rat)"
  obtain c where c: "c = \<lceil>?x\<rceil>" by blast
  have "?x \<le> of_int c" "of_int c < ?x + 1" unfolding c by (rule le_of_int_ceiling, linarith)
  with assms show ?thesis by (simp add: compute_ejar_doc_fee_def or_int_def Let_def c [symmetric] field_simps)
qed

end
