(* ===== verification/Spec2Isabelle.thy ===== *)
theory Spec2Isabelle
  imports Prelude EjarErrors EjarCircuit EjarAuth EjarClient EjarRecords EjarPayload EjarSyncLog
    EjarContract EjarLifecycle EjarTrace EjarLiveness EjarWebhook EjarJobs EjarForm Calendar Tenancy RentPayment TenancyEnd Sadad
    Crm Commission Notify Maintenance Identity Accounts JobQueue JobChannels JobHierarchy JobManager JobGraph JobWaits JobLife JobRun JobRunner JobFields JobConfig CallCenter Properties
begin

text \<open>
  A verification development for the addons under \<^verbatim>\<open>src/addons\<close>: property management for the
  Saudi market, its integration with the rental platform Ejar, and the vendored job queue that runs its
  background work. Every path below is relative to that directory.

  How the parts interact. A property is let by a tenancy; a tenancy has a schedule of rent payments, a
  deposit, inspections and renewals; a payment is invoiced and can be collected through SADAD; a tenancy
  becomes an Ejar contract, which is validated, submitted step by step over HTTP and afterwards changed
  by polling (the webhooks that should change it too fail before their handlers). Submissions run as jobs of the queue: a job graph is stored in the job
  table, the runner's channels decide when a job is handed out, a worker runs it and postpones or fails
  it by the retry policy. The CRM, commissions, notifications, maintenance, the call centre and the
  identity checks work on the same properties, partners and tenancies.

  The theories, in the order of dependency.

  \<^item> \<^verbatim>\<open>Prelude\<close>: JSON values, Python errors, results, the state-and-error operations
    \<open>('s, 'e, 'a) opn\<close> with their rules, strings, Base64, rounding, dates.

  Ejar (\<^verbatim>\<open>l10n_sa_ejar\<close>):

  \<^item> \<^verbatim>\<open>EjarErrors\<close>: the exception classes with their attributes
    (\<^verbatim>\<open>services/exceptions.py\<close>), the mapping of HTTP answers to them, and the retry policy of
    the job layer (\<^verbatim>\<open>services/job_policies.py\<close>).
  \<^item> \<^verbatim>\<open>EjarCircuit\<close>: the breaker of a company (\<^verbatim>\<open>services/ejar_client.py\<close>), its
    runs as a step relation, its refinement to a counter of consecutive failures.
  \<^item> \<^verbatim>\<open>EjarAuth\<close>: credentials, their cache, their resolution
    (\<^verbatim>\<open>services/auth_service.py\<close>). The locale \<open>ttl_cache\<close> is what the client of the cache
    relies on.
  \<^item> \<^verbatim>\<open>EjarClient\<close>: the request dispatcher and every endpoint method
    (\<^verbatim>\<open>services/ejar_client.py\<close>) over an arbitrary network.
  \<^item> \<^verbatim>\<open>EjarRecords\<close>: partners, parties, units, properties, profiles and contracts with
    their constraints, computed fields and onchange handlers (\<^verbatim>\<open>models/\<close>).
  \<^item> \<^verbatim>\<open>EjarPayload\<close>: the payload builder (\<^verbatim>\<open>services/payload_builder.py\<close>).
  \<^item> \<^verbatim>\<open>EjarSyncLog\<close>: the audit log and the state a submission works on, with the last
    commit as a part of it (\<^verbatim>\<open>models/ejar_sync_log.py\<close>).
  \<^item> \<^verbatim>\<open>EjarContract\<close>: the status machine and the user's actions
    (\<^verbatim>\<open>models/ejar_contract.py\<close>, \<^verbatim>\<open>wizard/ejar_upload_doc_wizard.py\<close>).
  \<^item> \<^verbatim>\<open>EjarLifecycle\<close>: the submission pipeline with its steps and commits, and polling
    (\<^verbatim>\<open>services/lifecycle_service.py\<close>). The locale \<open>pipeline_frame\<close> is the frame rule of the
    pipeline: what every step keeps, a run keeps.
  \<^item> \<^verbatim>\<open>EjarTrace\<close>: the same pipeline over a network that records the addresses.
  \<^item> \<^verbatim>\<open>EjarLiveness\<close>: a complete contract with a cooperating network is submitted; a contract whose
    identifiers are all stored sends only the closing requests.
  \<^item> \<^verbatim>\<open>EjarWebhook\<close>: validation of a delivery, the five event handlers and the controller
    (\<^verbatim>\<open>services/webhook_validator.py\<close>, \<^verbatim>\<open>services/webhook_processor.py\<close>,
    \<^verbatim>\<open>controllers/ejar_webhook.py\<close>). What a signature proves, what each handler would change, and that
    no delivery reaches one.
  \<^item> \<^verbatim>\<open>EjarJobs\<close>: the asynchronous submission (\<^verbatim>\<open>models/ejar_contract_jobs.py\<close>), its wizard, and
    one run of a job of the queue with its commits; the pipeline's frame rule is used again for what a
    run keeps. Retries are a recursion over the attempts of the job, so no fuel is needed. Whether the
    module finds the queue it imports is an argument; with the one under \<^verbatim>\<open>queue_job\<close> it does not.
  \<^item> \<^verbatim>\<open>EjarForm\<close>: everything a user can do in the form of a contract (\<^verbatim>\<open>views/\<close>), the buttons of
    \<^verbatim>\<open>EjarContract\<close> and \<^verbatim>\<open>EjarJobs\<close> and saving the fields, in any order.

  Tenancies and money:

  \<^item> \<^verbatim>\<open>Calendar\<close>: adding months to a date. The locale \<open>month_steps\<close> is what the code relies on of
    \<^verbatim>\<open>dateutil\<close>; it is interpreted on civil dates.
  \<^item> \<^verbatim>\<open>Tenancy\<close>: the states of a tenancy and its renewal
    (\<^verbatim>\<open>sa_property_base/models/property_tenancy.py\<close>, \<^verbatim>\<open>sa_rental_cycle/models/sa_tenancy_renewal.py\<close>).
  \<^item> \<^verbatim>\<open>RentPayment\<close>: payments, invoices, the schedule of a tenancy, the payment wizard
    (\<^verbatim>\<open>sa_rental_cycle/models/sa_rent_payment.py\<close>, with the deletion guard of
    \<^verbatim>\<open>sa_security/models/audit_log.py\<close>). The loop of the schedule is a terminating function:
    its measure is the distance to the end of the term.
  \<^item> \<^verbatim>\<open>TenancyEnd\<close>: deposit, inspections, the closing wizard, alerts before the end.
  \<^item> \<^verbatim>\<open>Sadad\<close>: invoices, bill numbers with their check digit, the webhook (\<^verbatim>\<open>sa_sadad\<close>).

  People around a tenancy:

  \<^item> \<^verbatim>\<open>Crm\<close>: leads, reservations, the matching of properties (\<^verbatim>\<open>sa_crm\<close>, \<^verbatim>\<open>sa_crm_ai_match\<close>).
  \<^item> \<^verbatim>\<open>Commission\<close>: broker commissions and sales targets (\<^verbatim>\<open>sa_broker_commission\<close>,
    \<^verbatim>\<open>sa_sales_target\<close>).
  \<^item> \<^verbatim>\<open>Notify\<close>: the message gateway and the daily rounds (\<^verbatim>\<open>sa_notifications\<close>). The locales
    \<open>provider\<close> and \<open>fallback\<close> are the contract of a provider and of two tried in turn.
  \<^item> \<^verbatim>\<open>Maintenance\<close>: requests, work orders, periodic contracts (\<^verbatim>\<open>sa_maintenance\<close>).
  \<^item> \<^verbatim>\<open>Identity\<close>, \<^verbatim>\<open>Accounts\<close>: verification of users (\<^verbatim>\<open>sa_user_profile\<close>), accounts and
    deletion guards (\<^verbatim>\<open>sa_security\<close>).
  \<^item> \<^verbatim>\<open>CallCenter\<close>: calls, tickets and the telephone webhooks (\<^verbatim>\<open>sa_call_center\<close>).
  \<^item> \<^verbatim>\<open>Properties\<close>: what the Saudi modules add to properties and tenancies, and the step from a
    tenancy to an Ejar contract (\<^verbatim>\<open>sa_property\<close>, \<^verbatim>\<open>l10n_sa_ejar\<close>).

  The job queue (\<^verbatim>\<open>queue_job\<close>):

  \<^item> \<^verbatim>\<open>JobQueue\<close>: the priority queue with removal and the queue of a channel
    (\<^verbatim>\<open>jobrunner/channels.py\<close>). The locale \<open>removable_queue\<close> is what a channel relies on.
  \<^item> \<^verbatim>\<open>JobChannels\<close>, \<^verbatim>\<open>JobHierarchy\<close>, \<^verbatim>\<open>JobManager\<close>: the tree of channels with its configuration,
    the invariant of the tree, and the channel manager that keeps it under every notification.
  \<^item> \<^verbatim>\<open>JobGraph\<close>: job graphs, their topological order (it terminates: every round takes a vertex out),
    and the connection of nested chains and groups, refined to reachability (\<^verbatim>\<open>delay.py\<close>).
  \<^item> \<^verbatim>\<open>JobWaits\<close>: what the calls of a program declare about the order of its jobs, and that the
    connected graph is just that, unless a chain begins or ends with a chain or a group is empty.
  \<^item> \<^verbatim>\<open>JobLife\<close>: the state changes of a job, the dependents, buttons and clean-up, the storing of
    a graph (\<^verbatim>\<open>job.py\<close>, \<^verbatim>\<open>models/queue_job.py\<close>).
  \<^item> \<^verbatim>\<open>JobRun\<close>: workers, crashes, buttons and the runner as events on the job table, in any order
    (\<^verbatim>\<open>controllers/main.py\<close>): the order of a graph is respected, the number of tries is bounded.
  \<^item> \<^verbatim>\<open>JobRunner\<close>: the runner's loop for one database (\<^verbatim>\<open>jobrunner/runner.py\<close>), composed of the
    channel manager and the events of \<^verbatim>\<open>JobRun\<close>: the capacity of the root channel bounds the jobs
    that run.
  \<^item> \<^verbatim>\<open>JobFields\<close>: what a job stores of the call it stands for, with encoder and decoder as a pair
    (\<^verbatim>\<open>fields.py\<close>), and the methods that delay themselves (\<^verbatim>\<open>models/base.py\<close>).
  \<^item> \<^verbatim>\<open>JobConfig\<close>: channels and job functions as users configure them, retry patterns, and the
    cached lookup of a configuration (\<^verbatim>\<open>models/queue_job_channel.py\<close>,
    \<^verbatim>\<open>models/queue_job_function.py\<close>).

  What is outside the repository is an argument of the definitions: the network
  (\<open>'w transport\<close>, which includes the retries of the \<^verbatim>\<open>requests\<close> session), hashes and signatures,
  \<open>str\<close> of a value (\<open>pylib\<close>), the token model of another addon (\<open>token_source\<close>), the accounting of
  Odoo, the order of database searches where no order is declared. Time is the monotonic clock in the
  gateway's state, which advances with every exchange, or an argument.

  Representation. Python's integers are \<open>int\<close>; floating point amounts are exact rationals; an ORM
  record is a record, a model a list or a map of records by number; an exception is the left side of a
  sum or an error datatype, and what a transaction had committed before it is part of the state.

  Not modelled: dashboards, portal pages and spreadsheet exports (they read and present), settings
  forms, display names and views, the texts of messages; of the job queue the connections of the runner
  with its election of a master and its environment variables, the asynchronous request to a worker, the
  recovery of the runner after an exception, transactions that PostgreSQL refuses because they write a
  row at the same time, the write guards, related actions and graph view of the job record
  (\<^verbatim>\<open>models/queue_job.py\<close>), the controller that creates test jobs.
\<close>

end
